(* ===== verification/Rail_Prelude.thy ===== *)
theory Rail_Prelude
  imports Complex_Main "HOL-Library.Sublist" "HOL-Library.Char_ord" "HOL-Library.List_Lexorder"
    "HOL-Library.Word"
begin

text \<open>
  Shared vocabulary of the development: what the Rust sources use of the standard library's
  \<open>str\<close>, \<open>[u8]\<close>, \<open>BTreeMap\<close> and integer types, and the generic lemmas about it.

  A Rust \<open>String\<close> or \<open>Vec<u8>\<close> is a HOL \<open>string\<close>, a list of 8-bit
  characters: the UTF-8 bytes. The substring operations of \<open>str\<close> agree with the same
  operations on the bytes, so one set of definitions serves both. A \<open>u64\<close> is a \<open>64 word\<close>.
  A \<open>BTreeMap<String, V>\<close> is an association list kept strictly sorted by key.
\<close>

section \<open>Named collections\<close>

named_theorems scan_simps \<open>unfolding rules of the byte scanners\<close>
named_theorems keep_simps \<open>frame facts: what an operation leaves unchanged\<close>
named_theorems text_simps \<open>facts about the byte-string operations\<close>

type_synonym bytes = string
type_synonym u64 = "64 word"
type_synonym u32 = "32 word"
type_synonym u16 = "16 word"
type_synonym usd = real

section \<open>Bytes\<close>

abbreviation bval :: "char \<Rightarrow> nat" where
  "bval c \<equiv> of_char c"

definition is_ascii_digit :: "char \<Rightarrow> bool" where
  "is_ascii_digit c \<longleftrightarrow> 48 \<le> bval c \<and> bval c \<le> 57"

definition is_ascii_upper :: "char \<Rightarrow> bool" where
  "is_ascii_upper c \<longleftrightarrow> 65 \<le> bval c \<and> bval c \<le> 90"

definition is_ascii_lower :: "char \<Rightarrow> bool" where
  "is_ascii_lower c \<longleftrightarrow> 97 \<le> bval c \<and> bval c \<le> 122"

definition is_ascii_alpha :: "char \<Rightarrow> bool" where
  "is_ascii_alpha c \<longleftrightarrow> is_ascii_upper c \<or> is_ascii_lower c"

definition is_ascii_alnum :: "char \<Rightarrow> bool" where
  "is_ascii_alnum c \<longleftrightarrow> is_ascii_alpha c \<or> is_ascii_digit c"

definition is_ascii_hexdigit :: "char \<Rightarrow> bool" where
  "is_ascii_hexdigit c \<longleftrightarrow> is_ascii_digit c \<or> (65 \<le> bval c \<and> bval c \<le> 70) \<or> (97 \<le> bval c \<and> bval c \<le> 102)"

definition ascii_lower :: "char \<Rightarrow> char" where
  "ascii_lower c = (if is_ascii_upper c then char_of (bval c + 32) else c)"

definition ascii_upper :: "char \<Rightarrow> char" where
  "ascii_upper c = (if is_ascii_lower c then char_of (bval c - 32) else c)"

definition to_ascii_lowercase :: "string \<Rightarrow> string" where
  "to_ascii_lowercase s = map ascii_lower s"

definition to_ascii_uppercase :: "string \<Rightarrow> string" where
  "to_ascii_uppercase s = map ascii_upper s"

definition eq_ignore_ascii_case :: "string \<Rightarrow> string \<Rightarrow> bool" where
  "eq_ignore_ascii_case a b \<longleftrightarrow> to_ascii_lowercase a = to_ascii_lowercase b"

lemmas ascii_class_defs = is_ascii_digit_def is_ascii_upper_def is_ascii_lower_def
  is_ascii_alpha_def is_ascii_alnum_def is_ascii_hexdigit_def

lemma bval_less: "bval c < 256"
  using of_char_of[of "bval c"] by (simp add: of_char_mod_256)

lemma nibbles: "bval c div 16 < 16" "bval c mod 16 < 16"
  using bval_less[of c] by (simp_all add: less_mult_imp_div_less)

section \<open>Strings\<close>

text \<open>A byte that continues a UTF-8 sequence (so is not at a character boundary).\<close>

definition is_utf8_cont :: "char \<Rightarrow> bool" where
  "is_utf8_cont c \<longleftrightarrow> 128 \<le> bval c \<and> bval c \<le> 191"

text \<open>\<open>std::str::from_utf8\<close>: well-formed UTF-8, with no overlong forms, no surrogates and
  nothing above U+10FFFF.\<close>

fun utf8_valid :: "string \<Rightarrow> bool" where
  "utf8_valid [] = True"
| "utf8_valid (a # s) = (let x = bval a in
     if x < 128 then utf8_valid s
     else if 194 \<le> x \<and> x \<le> 223 then
       (case s of b # t \<Rightarrow> is_utf8_cont b \<and> utf8_valid t | _ \<Rightarrow> False)
     else if 224 \<le> x \<and> x \<le> 239 then
       (case s of b # c # t \<Rightarrow>
          is_utf8_cont b \<and> is_utf8_cont c
          \<and> (x = 224 \<longrightarrow> 160 \<le> bval b) \<and> (x = 237 \<longrightarrow> bval b \<le> 159)
          \<and> utf8_valid t
        | _ \<Rightarrow> False)
     else if 240 \<le> x \<and> x \<le> 244 then
       (case s of b # c # d # t \<Rightarrow>
          is_utf8_cont b \<and> is_utf8_cont c \<and> is_utf8_cont d
          \<and> (x = 240 \<longrightarrow> 144 \<le> bval b) \<and> (x = 244 \<longrightarrow> bval b \<le> 143)
          \<and> utf8_valid t
        | _ \<Rightarrow> False)
     else False)"

text \<open>\<open>str::is_char_boundary\<close>.\<close>

definition is_char_boundary :: "string \<Rightarrow> nat \<Rightarrow> bool" where
  "is_char_boundary text i \<longleftrightarrow> i = 0 \<or> i = length text \<or> (i < length text \<and> \<not> is_utf8_cont (text ! i))"

definition starts_with :: "string \<Rightarrow> string \<Rightarrow> bool" where
  "starts_with s p \<longleftrightarrow> prefix p s"

definition ends_with :: "string \<Rightarrow> string \<Rightarrow> bool" where
  "ends_with s x \<longleftrightarrow> suffix x s"

definition strip_prefix :: "string \<Rightarrow> string \<Rightarrow> string option" where
  "strip_prefix p s = (if prefix p s then Some (drop (length p) s) else None)"

definition strip_suffix :: "string \<Rightarrow> string \<Rightarrow> string option" where
  "strip_suffix x s = (if suffix x s then Some (take (length s - length x) s) else None)"

text \<open>\<open>str::contains\<close> with a string pattern (the empty pattern is always found).\<close>

fun str_contains :: "string \<Rightarrow> string \<Rightarrow> bool" where
  "str_contains [] d \<longleftrightarrow> d = []"
| "str_contains (c # s) d \<longleftrightarrow> prefix d (c # s) \<or> str_contains s d"

text \<open>\<open>str::replace\<close>: every non-overlapping occurrence from the left; the empty pattern
  matches at every character boundary.\<close>

function replace_from :: "string \<Rightarrow> string \<Rightarrow> string \<Rightarrow> string" where
  "replace_from d r s =
     (if d = [] then s
      else if prefix d s then r @ replace_from d r (drop (length d) s)
      else (case s of [] \<Rightarrow> [] | c # t \<Rightarrow> c # replace_from d r t))"
  by pat_completeness auto
termination
  by (relation "measure (\<lambda>(d, r, s). length s)") (auto simp: prefix_def)

declare replace_from.simps [simp del]

definition str_replace :: "string \<Rightarrow> string \<Rightarrow> string \<Rightarrow> string" where
  "str_replace d r s =
     (if d = [] then concat (map (\<lambda>c. (if is_utf8_cont c then [] else r) @ [c]) s) @ r
      else replace_from d r s)"

text \<open>\<open>str::split_once\<close>, \<open>str::split\<close> and \<open>rsplit_once\<close> with a one-character pattern.\<close>

fun split_once :: "string \<Rightarrow> string \<Rightarrow> (string \<times> string) option" where
  "split_once p [] = (if p = [] then Some ([], []) else None)"
| "split_once p (c # s) =
     (if prefix p (c # s) then Some ([], drop (length p) (c # s))
      else map_option (\<lambda>(a, b). (c # a, b)) (split_once p s))"

fun split_char :: "char \<Rightarrow> string \<Rightarrow> string list" where
  "split_char k [] = [[]]"
| "split_char k (c # s) =
     (if c = k then [] # split_char k s
      else (case split_char k s of [] \<Rightarrow> [[c]] | p # ps \<Rightarrow> (c # p) # ps))"

definition rsplit_once :: "char \<Rightarrow> string \<Rightarrow> (string \<times> string) option" where
  "rsplit_once k s =
     (if k \<in> set s
      then Some (rev (tl (dropWhile (\<lambda>c. c \<noteq> k) (rev s))), rev (takeWhile (\<lambda>c. c \<noteq> k) (rev s)))
      else None)"

fun join :: "string \<Rightarrow> string list \<Rightarrow> string" where
  "join sep [] = []"
| "join sep [x] = x"
| "join sep (x # y # zs) = x @ sep @ join sep (y # zs)"

text \<open>A value between single quotes, as the messages write names.\<close>

definition quoted :: "string \<Rightarrow> string" where
  "quoted s = [CHR 0x27] @ s @ [CHR 0x27]"

text \<open>\<open>format!("{n}")\<close> on an unsigned integer.\<close>

function show_nat :: "nat \<Rightarrow> string" where
  "show_nat n = (if n < 10 then [char_of (48 + n)] else show_nat (n div 10) @ [char_of (48 + n mod 10)])"
  by pat_completeness auto
termination
  by (relation "measure id") auto

declare show_nat.simps [simp del]

text \<open>The rounding of \<open>format!\<close> on a float with a given number of digits: half to even.\<close>

definition round_half_even :: "real \<Rightarrow> int" where
  "round_half_even x =
     (let n = \<lfloor>x\<rfloor>; r = x - of_int n in
      if r < 1 / 2 then n else if r > 1 / 2 then n + 1 else if even n then n else n + 1)"

text \<open>\<open>format!("{x:.d}")\<close>.\<close>

definition zero_pad :: "nat \<Rightarrow> nat \<Rightarrow> string" where
  "zero_pad d n = replicate (d - length (show_nat n)) (CHR ''0'') @ show_nat n"

definition fmt_fixed :: "nat \<Rightarrow> real \<Rightarrow> string" where
  "fmt_fixed d x = (let n = nat (round_half_even (10 ^ d * \<bar>x\<bar>)) in
     (if x < 0 then ''-'' else []) @ show_nat (n div 10 ^ d) @ (if d = 0 then [] else ''.'' @ zero_pad d (n mod 10 ^ d)))"

section \<open>Ordered maps\<close>

text \<open>\<open>BTreeMap\<close>: an association list strictly sorted by key, mostly with strings as keys. Inserting
  replaces or places the key in order; \<open>btm_upsert\<close> is \<open>entry(k).or_default()\<close> followed by an update.\<close>

type_synonym ('k, 'v) ordmap = "('k \<times> 'v) list"
type_synonym 'v btmap = "(string, 'v) ordmap"

fun btm_insert :: "'k::linorder \<Rightarrow> 'v \<Rightarrow> ('k, 'v) ordmap \<Rightarrow> ('k, 'v) ordmap" where
  "btm_insert k v [] = [(k, v)]"
| "btm_insert k v ((a, b) # m) =
     (if k < a then (k, v) # (a, b) # m
      else if k = a then (k, v) # m
      else (a, b) # btm_insert k v m)"

definition btm_get :: "('k::linorder, 'v) ordmap \<Rightarrow> 'k \<Rightarrow> 'v option" where
  "btm_get m k = map_of m k"

definition btm_upsert :: "'v \<Rightarrow> 'k::linorder \<Rightarrow> ('v \<Rightarrow> 'v) \<Rightarrow> ('k, 'v) ordmap \<Rightarrow> ('k, 'v) ordmap" where
  "btm_upsert dflt k f m = btm_insert k (f (case btm_get m k of None \<Rightarrow> dflt | Some v \<Rightarrow> v)) m"

definition btm_remove :: "'k::linorder \<Rightarrow> ('k, 'v) ordmap \<Rightarrow> ('k, 'v) ordmap" where
  "btm_remove k m = filter (\<lambda>(a, _). a \<noteq> k) m"

definition btm_sorted :: "('k::linorder, 'v) ordmap \<Rightarrow> bool" where
  "btm_sorted m \<longleftrightarrow> sorted_wrt (<) (map fst m)"

section \<open>Integers\<close>

definition saturating_sub :: "'a::len word \<Rightarrow> 'a word \<Rightarrow> 'a word" where
  "saturating_sub a b = (if a < b then 0 else a - b)"

lemma unat_saturating_sub: "unat (saturating_sub a b) = unat a - unat b"
  by (auto simp: saturating_sub_def word_less_nat_alt unat_sub word_le_nat_alt)

section \<open>Facts about bytes and strings\<close>

lemma utf8_ascii [text_simps]: "\<forall>c \<in> set s. bval c < 128 \<Longrightarrow> utf8_valid s"
  by (induction s) (auto simp: Let_def)

lemma ascii_lower_idem [simp]: "ascii_lower (ascii_lower c) = ascii_lower c"
  by (auto simp: ascii_lower_def is_ascii_upper_def)

lemma to_ascii_lowercase_idem [simp]:
  "to_ascii_lowercase (to_ascii_lowercase s) = to_ascii_lowercase s"
  by (simp add: to_ascii_lowercase_def)

lemma to_ascii_lowercase_append [simp]:
  "to_ascii_lowercase (a @ b) = to_ascii_lowercase a @ to_ascii_lowercase b"
  by (simp add: to_ascii_lowercase_def)

lemma eq_ignore_ascii_case_refl [simp]: "eq_ignore_ascii_case a a"
  by (simp add: eq_ignore_ascii_case_def)

lemma str_contains_iff_sublist: "str_contains s d \<longleftrightarrow> sublist d s"
  by (induction s) (auto simp: sublist_Cons_right)

lemma str_contains_Nil [simp]: "str_contains s []"
  by (cases s) auto

lemma str_contains_self [simp]: "str_contains s s"
  by (simp add: str_contains_iff_sublist)

lemma str_contains_append: "str_contains (a @ d @ b) d"
  by (simp add: str_contains_iff_sublist sublist_appendI)

lemma replace_from_absent: "\<not> str_contains s d \<Longrightarrow> replace_from d r s = s"
proof (induction d r s rule: replace_from.induct)
  case (1 d r s)
  show ?case
  proof (cases s)
    case Nil
    with 1 show ?thesis by (simp add: replace_from.simps[of d r "[]"])
  next
    case (Cons c t)
    with 1 show ?thesis by (auto simp: replace_from.simps[of d r "c # t"])
  qed
qed

lemma str_replace_absent: "\<not> str_contains s d \<Longrightarrow> str_replace d r s = s"
  by (cases "d = []") (simp_all add: str_replace_def replace_from_absent)

lemma strip_prefix_Some: "strip_prefix p s = Some t \<longleftrightarrow> s = p @ t"
  by (auto simp: strip_prefix_def prefix_def)

section \<open>Facts about ordered maps\<close>

lemma btm_get_insert [simp]: "btm_get (btm_insert k v m) j = (if j = k then Some v else btm_get m j)"
  by (induction m) (auto simp: btm_get_def)

lemma btm_insert_keys: "fst ` set (btm_insert k v m) = insert k (fst ` set m)"
proof (induction m)
  case (Cons p m)
  then show ?case by (cases p) (simp add: insert_commute)
qed simp

lemma btm_sorted_insert: "btm_sorted m \<Longrightarrow> btm_sorted (btm_insert k v m)"
  unfolding btm_sorted_def
proof (induction m)
  case (Cons p m)
  then show ?case
  proof (cases p)
    case (Pair a b)
    have "\<forall>x \<in> fst ` set (btm_insert k v m). k \<noteq> a \<longrightarrow> \<not> k < a \<longrightarrow> a < x"
      using Cons.prems Pair by (auto simp: btm_insert_keys)
    with Cons Pair show ?thesis by (auto intro: less_trans)
  qed
qed simp

lemma btm_sorted_upsert: "btm_sorted m \<Longrightarrow> btm_sorted (btm_upsert d k f m)"
  by (simp add: btm_upsert_def btm_sorted_insert)

lemma btm_get_upsert:
  "btm_get (btm_upsert d k f m) j =
     (if j = k then Some (f (case btm_get m k of None \<Rightarrow> d | Some v \<Rightarrow> v)) else btm_get m j)"
  by (simp add: btm_upsert_def)

end
