(* ===== verification/Vault.thy ===== *)
theory Vault
  imports Rail_Prelude
begin

text \<open>
  \<^verbatim>\<open>src/src/vault.rs\<close>: the secrets and their locations, the provider labels inferred
  from a value's format, the deterministic format-correct decoys, the operations on the vault
  list, and the host glob the policy matches with. The hash and hex functions are third-party
  code and stay parameters (\<open>crypto\<close>); a slice index out of range is the panic branch
  \<open>None\<close>.
\<close>

section \<open>Data\<close>

datatype location = Bearer | Header string | Body | Any

record secret =
  sec_name :: string
  sec_real :: string
  sec_decoy :: string
  sec_env :: "string option"
  sec_location :: location
  sec_provider :: "string option"

record vault =
  secrets :: "secret list"

text \<open>SHA-256 (bytes to digest bytes) and \<open>hex::encode\<close>, lower-case hex of bytes.\<close>

record crypto =
  sha256 :: "bytes \<Rightarrow> bytes"
  hex_encode :: "bytes \<Rightarrow> string"

datatype vault_error = DuplicateName string | NoSuchSecret string | SaveFailed | DecoyPanic

section \<open>Providers\<close>

definition PROVIDER_LABELS :: "string list" where
  "PROVIDER_LABELS = [''anthropic'', ''openai'', ''github'', ''gitlab'', ''slack'', ''npm'']"

definition PROVIDER_PREFIXES :: "(string \<times> string) list" where
  "PROVIDER_PREFIXES =
     [(''sk-ant-'', ''anthropic''), (''sk-'', ''openai''), (''github_pat_'', ''github''),
      (''ghp_'', ''github''), (''gho_'', ''github''), (''ghs_'', ''github''),
      (''glpat-'', ''gitlab''), (''xoxb-'', ''slack''), (''xoxp-'', ''slack''),
      (''xoxa-'', ''slack''), (''npm_'', ''npm'')]"

definition infer_provider :: "string \<Rightarrow> string option" where
  "infer_provider realv = map_option snd (find (\<lambda>(p, _). starts_with realv p) PROVIDER_PREFIXES)"

section \<open>Decoys\<close>

definition ALNUM_CHARS :: string where
  "ALNUM_CHARS = ''ABCDEFGHIJKLMNOPQRSTUVWXYZabcdefghijklmnopqrstuvwxyz0123456789''"

definition u64_to_le_bytes :: "nat \<Rightarrow> bytes" where
  "u64_to_le_bytes i = map (\<lambda>k. char_of (i div 256 ^ k mod 256)) [0..<8]"

text \<open>The byte picked at loop index \<open>i\<close>: of the seed, or past its end of a re-hash of
  the seed and the index.\<close>

definition alnum_byte :: "crypto \<Rightarrow> string \<Rightarrow> nat \<Rightarrow> char option" where
  "alnum_byte cr seed i =
     (if i < length seed then Some (seed ! i)
      else let h = hex_encode cr (sha256 cr (seed @ u64_to_le_bytes i)) in
           if i mod 32 < length h then Some (h ! (i mod 32)) else None)"

function alnum_from :: "crypto \<Rightarrow> string \<Rightarrow> nat \<Rightarrow> nat \<Rightarrow> string option" where
  "alnum_from cr seed n i =
     (if i < n then
        (case alnum_byte cr seed i of
           None \<Rightarrow> None
         | Some b \<Rightarrow> map_option (\<lambda>out. ALNUM_CHARS ! (bval b mod length ALNUM_CHARS) # out)
             (alnum_from cr seed n (Suc i)))
      else Some [])"
  by pat_completeness auto
termination
  by (relation "measure (\<lambda>(cr, seed, n, i). n - i)") auto

declare alnum_from.simps [simp del]

definition alnum :: "crypto \<Rightarrow> string \<Rightarrow> nat \<Rightarrow> string option" where
  "alnum cr seed n = alnum_from cr seed n 0"

definition make_decoy :: "crypto \<Rightarrow> string \<Rightarrow> string \<Rightarrow> string option" where
  "make_decoy cr name realv =
     (let hexed = hex_encode cr (sha256 cr (''decoyrail-decoy-v1'' @ name @ realv)) in
      if starts_with realv ''sk-ant-'' then map_option (\<lambda>a. ''sk-ant-api03-'' @ a) (alnum cr hexed 93)
      else if starts_with realv ''sk-'' then map_option (\<lambda>a. ''sk-proj-'' @ a) (alnum cr hexed 48)
      else if starts_with realv ''github_pat_'' then map_option (\<lambda>a. ''github_pat_'' @ a) (alnum cr hexed 70)
      else if starts_with realv ''ghp_'' then map_option (\<lambda>a. ''ghp_'' @ a) (alnum cr hexed 36)
      else if starts_with realv ''AKIA'' then
        map_option (\<lambda>a. ''AKIA'' @ to_ascii_uppercase a) (alnum cr hexed 16)
      else if starts_with realv ''xoxb-'' then map_option (\<lambda>a. ''xoxb-'' @ a) (alnum cr hexed 48)
      else if str_contains realv ''://'' \<and> str_contains realv ''@'' then
        map_option (\<lambda>a. ''postgres://decoy:'' @ a @ ''@db.invalid:5432/app'') (alnum cr hexed 24)
      else alnum cr hexed (max 16 (min 64 (length realv))))"

section \<open>Operations on the vault\<close>

text \<open>\<open>save\<close> says whether writing the encrypted vault file succeeds; the in-memory list is
  already changed when it does not.\<close>

definition vault_add ::
  "crypto \<Rightarrow> (vault \<Rightarrow> bool) \<Rightarrow> vault \<Rightarrow> string \<Rightarrow> string \<Rightarrow> string option \<Rightarrow> location
     \<Rightarrow> vault \<times> (vault_error + string)" where
  "vault_add cr save v name realv env loc =
     (if list_ex (\<lambda>s. sec_name s = name) (secrets v) then (v, Inl (DuplicateName name))
      else (case make_decoy cr name realv of
          None \<Rightarrow> (v, Inl DecoyPanic)
        | Some decoy \<Rightarrow>
            let v' = v\<lparr>secrets := secrets v @
                  [\<lparr>sec_name = name, sec_real = realv, sec_decoy = decoy, sec_env = env,
                    sec_location = loc, sec_provider = infer_provider realv\<rparr>]\<rparr>
            in (v', if save v' then Inr decoy else Inl SaveFailed)))"

definition vault_remove :: "(vault \<Rightarrow> bool) \<Rightarrow> vault \<Rightarrow> string \<Rightarrow> vault \<times> (vault_error + unit)" where
  "vault_remove save v name =
     (let v' = v\<lparr>secrets := filter (\<lambda>s. sec_name s \<noteq> name) (secrets v)\<rparr> in
      if length (secrets v') = length (secrets v) then (v', Inl (NoSuchSecret name))
      else (v', if save v' then Inr () else Inl SaveFailed))"

definition by_decoy :: "vault \<Rightarrow> string \<Rightarrow> secret option" where
  "by_decoy v needle = find (\<lambda>s. sec_decoy s = needle) (secrets v)"

section \<open>The host glob\<close>

definition glob_match :: "string \<Rightarrow> string \<Rightarrow> bool" where
  "glob_match pattern value =
     (let pattern = to_ascii_lowercase pattern; value = to_ascii_lowercase value in
      case strip_prefix ''*.'' pattern of
        Some sfx \<Rightarrow> value = sfx \<or> ends_with value (''.'' @ sfx)
      | None \<Rightarrow> pattern = ''*'' \<or> pattern = value)"

text \<open>What the vault keeps: no two entries share a name, and every decoy is the one
  \<open>make_decoy\<close> derives.\<close>

definition vault_ok :: "crypto \<Rightarrow> vault \<Rightarrow> bool" where
  "vault_ok cr v \<longleftrightarrow>
     distinct (map sec_name (secrets v)) \<and>
     list_all (\<lambda>s. make_decoy cr (sec_name s) (sec_real s) = Some (sec_decoy s)
                 \<and> sec_provider s = infer_provider (sec_real s)) (secrets v)"

section \<open>Properties of decoys\<close>

text \<open>What is used of the two third-party functions: SHA-256 returns 32 bytes, and hex writes two
  characters per byte.\<close>

definition crypto_ok :: "crypto \<Rightarrow> bool" where
  "crypto_ok cr \<longleftrightarrow> (\<forall>x. length (sha256 cr x) = 32) \<and> (\<forall>x. length (hex_encode cr x) = 2 * length x)"

lemma alnum_chars_alnum: "list_all is_ascii_alnum ALNUM_CHARS"
  by (simp add: ALNUM_CHARS_def ascii_class_defs)

lemma alnum_char: "is_ascii_alnum (ALNUM_CHARS ! (n mod length ALNUM_CHARS))"
proof -
  have "ALNUM_CHARS ! (n mod length ALNUM_CHARS) \<in> set ALNUM_CHARS"
    by (rule nth_mem) (simp add: ALNUM_CHARS_def)
  with alnum_chars_alnum show ?thesis by (simp add: list_all_iff)
qed

lemma alnum_byte_total: "crypto_ok cr \<Longrightarrow> \<exists>b. alnum_byte cr seed i = Some b"
  by (auto simp: alnum_byte_def crypto_ok_def Let_def)

lemma alnum_from_total:
  "crypto_ok cr \<Longrightarrow> \<exists>out. alnum_from cr seed n i = Some out \<and> length out = n - i \<and> list_all is_ascii_alnum out"
proof (induction cr seed n i rule: alnum_from.induct)
  case (1 cr seed n i)
  show ?case
  proof (cases "i < n")
    case True
    obtain b where b: "alnum_byte cr seed i = Some b"
      using alnum_byte_total[OF 1(2)] by blast
    with 1(1)[OF True b] 1(2) True show ?thesis
      by (auto simp: alnum_from.simps[of cr seed n i] alnum_char)
  qed (simp add: alnum_from.simps)
qed

lemma alnum_total:
  assumes "crypto_ok cr"
  obtains out where "alnum cr seed n = Some out" "length out = n" "list_all is_ascii_alnum out"
  using alnum_from_total[OF assms, of seed n 0] by (auto simp: alnum_def)

text \<open>The value classes whose decoy keeps the provider's own prefix.\<close>

definition DECOY_PREFIXES :: "string list" where
  "DECOY_PREFIXES = [''sk-ant-'', ''sk-'', ''github_pat_'', ''ghp_'', ''xoxb-'']"

lemma ascii_upper_alnum: "is_ascii_alnum c \<Longrightarrow> is_ascii_alnum (ascii_upper c)"
  by (auto simp: ascii_upper_def ascii_class_defs)

text \<open>Decoy bytes: printable ASCII without white space, so a decoy survives unchanged in a
  header value, an environment variable and a UTF-8 body.\<close>

definition is_decoy_char :: "char \<Rightarrow> bool" where
  "is_decoy_char c \<longleftrightarrow> 33 \<le> bval c \<and> bval c < 127"

lemma alnum_decoy_char: "list_all is_ascii_alnum out \<Longrightarrow> list_all is_decoy_char out"
  by (auto simp: list_all_iff is_decoy_char_def ascii_class_defs)

lemma upper_decoy_char: "list_all is_ascii_alnum out \<Longrightarrow> list_all is_decoy_char (to_ascii_uppercase out)"
  by (rule alnum_decoy_char) (auto simp: list_all_iff to_ascii_uppercase_def ascii_upper_alnum)

definition decoy_shape :: "string \<Rightarrow> string \<Rightarrow> bool" where
  "decoy_shape r d \<longleftrightarrow> 16 \<le> length d \<and> length d \<le> 106 \<and> list_all is_decoy_char d
     \<and> list_all (\<lambda>p. starts_with r p \<longrightarrow> starts_with d p) DECOY_PREFIXES"

lemma decoy_shape_prefixed:
  assumes "r = p @ t" "list_all is_ascii_alnum out" "list_all is_decoy_char q"
    "16 \<le> length (q @ out)" "length (q @ out) \<le> 106"
    "\<And>t out. list_all (\<lambda>x. starts_with (p @ t) x \<longrightarrow> starts_with (q @ out) x) DECOY_PREFIXES"
  shows "decoy_shape r (q @ out)"
  using assms alnum_decoy_char[OF assms(2)] by (simp add: decoy_shape_def)

lemmas decoy_eval = DECOY_PREFIXES_def starts_with_def is_decoy_char_def

lemma make_decoy_shape:
  assumes ok: "crypto_ok cr"
  shows "\<exists>d. make_decoy cr name r = Some d \<and> decoy_shape r d"
proof -
  let ?h = "hex_encode cr (sha256 cr (''decoyrail-decoy-v1'' @ name @ r))"
  have ex: "\<exists>out. alnum cr ?h n = Some out \<and> length out = n \<and> list_all is_ascii_alnum out" for n
    using alnum_from_total[OF ok, of ?h n 0] by (auto simp: alnum_def)
  have pre: "\<exists>d. map_option ((@) q) (alnum cr ?h n) = Some d \<and> decoy_shape r d"
    if "starts_with r p" "list_all is_decoy_char q" "16 \<le> length q + n" "length q + n \<le> 106"
      "\<And>t out. list_all (\<lambda>x. starts_with (p @ t) x \<longrightarrow> starts_with (q @ out) x) DECOY_PREFIXES"
    for p q n
    using that ex[of n] by (auto simp: starts_with_def prefix_def intro!: decoy_shape_prefixed)
  show ?thesis
  proof (cases "list_ex (starts_with r) DECOY_PREFIXES \<or> starts_with r ''AKIA''")
    case True
    then consider "starts_with r ''sk-ant-''" | "\<not> starts_with r ''sk-ant-''" "starts_with r ''sk-''"
      | "starts_with r ''github_pat_''" | "starts_with r ''ghp_''" | "starts_with r ''AKIA''"
      | "starts_with r ''xoxb-''"
      by (auto simp: DECOY_PREFIXES_def)
    then show ?thesis
    proof cases
      case 1
      then show ?thesis
        using pre[of "''sk-ant-''" "''sk-ant-api03-''" 93] by (simp add: make_decoy_def decoy_eval)
    next
      case 2
      then show ?thesis
        using ex[of 48] by (auto simp: make_decoy_def decoy_shape_def decoy_eval prefix_def
            dest!: alnum_decoy_char)
    next
      case 3
      then show ?thesis
        using pre[of "''github_pat_''" "''github_pat_''" 70]
        by (auto simp: make_decoy_def decoy_eval prefix_def)
    next
      case 4
      then show ?thesis
        using pre[of "''ghp_''" "''ghp_''" 36] by (auto simp: make_decoy_def decoy_eval prefix_def)
    next
      case 5
      obtain out where out: "alnum cr ?h 16 = Some out" "length out = 16" "list_all is_ascii_alnum out"
        using ex by blast
      have "list_all is_decoy_char (to_ascii_uppercase out)" "length (to_ascii_uppercase out) = 16"
        using out(2,3) upper_decoy_char by (auto simp: to_ascii_uppercase_def)
      with 5 out(1) show ?thesis
        by (auto simp: make_decoy_def decoy_shape_def decoy_eval prefix_def)
    next
      case 6
      then show ?thesis
        using pre[of "''xoxb-''" "''xoxb-''" 48] by (auto simp: make_decoy_def decoy_eval prefix_def)
    qed
  next
    case False
    let ?n = "max 16 (min 64 (length r))"
    obtain o1 o2 where o1: "alnum cr ?h 24 = Some o1" "length o1 = 24" "list_all is_ascii_alnum o1"
      and o2: "alnum cr ?h ?n = Some o2" "length o2 = ?n" "list_all is_ascii_alnum o2"
      using ex[of 24] ex[of ?n] by blast
    with False alnum_decoy_char[OF o1(3)] alnum_decoy_char[OF o2(3)] show ?thesis
      by (auto simp: make_decoy_def Let_def decoy_shape_def DECOY_PREFIXES_def is_decoy_char_def)
  qed
qed

lemma make_decoy_nonempty: "crypto_ok cr \<Longrightarrow> make_decoy cr name r = Some d \<Longrightarrow> 16 \<le> length d"
  using make_decoy_shape[of cr name r] by (auto simp: decoy_shape_def)

section \<open>Properties of the vault operations\<close>

lemma vault_add_cases:
  assumes "vault_add cr save v name r env loc = (v', res)"
  obtains (dup) "v' = v" "res = Inl (DuplicateName name)" "name \<in> sec_name ` set (secrets v)"
  | (panic) "v' = v" "res = Inl DecoyPanic" "make_decoy cr name r = None"
  | (added) decoy where "make_decoy cr name r = Some decoy" "name \<notin> sec_name ` set (secrets v)"
      "secrets v' = secrets v @ [\<lparr>sec_name = name, sec_real = r, sec_decoy = decoy, sec_env = env,
         sec_location = loc, sec_provider = infer_provider r\<rparr>]"
      "res = Inr decoy \<or> res = Inl SaveFailed"
proof (cases "list_ex (\<lambda>s. sec_name s = name) (secrets v)")
  case True
  with assms dup show thesis by (auto simp: vault_add_def list_ex_iff)
next
  case False
  then have fresh: "name \<notin> sec_name ` set (secrets v)" by (auto simp: list_ex_iff)
  show thesis
  proof (cases "make_decoy cr name r")
    case None
    with False assms panic show thesis by (simp add: vault_add_def)
  next
    case (Some decoy)
    with False assms show thesis
      by (intro added[OF Some fresh]) (auto simp: vault_add_def Let_def split: if_splits)
  qed
qed

lemma vault_add_ok:
  assumes "vault_ok cr v" "vault_add cr save v name r env loc = (v', res)"
  shows "vault_ok cr v'"
  using assms(2) by (cases rule: vault_add_cases) (use assms(1) in \<open>auto simp: vault_ok_def\<close>)

lemma vault_remove_ok: "vault_ok cr v \<Longrightarrow> vault_ok cr (fst (vault_remove save v name))"
  by (auto simp: vault_ok_def vault_remove_def Let_def list_all_iff distinct_map inj_on_def)

lemma vault_remove_absent:
  "name \<notin> sec_name ` set (secrets (fst (vault_remove save v name)))"
  by (auto simp: vault_remove_def Let_def)

text \<open>Vault operations as steps, and the vaults they reach from an empty one.\<close>

inductive vault_step :: "crypto \<Rightarrow> vault \<Rightarrow> vault \<Rightarrow> bool" for cr where
  add: "vault_step cr v (fst (vault_add cr save v name r env loc))"
| remove: "vault_step cr v (fst (vault_remove save v name))"

inductive vault_reachable :: "crypto \<Rightarrow> vault \<Rightarrow> bool" for cr where
  empty: "vault_reachable cr \<lparr>secrets = []\<rparr>"
| step: "vault_reachable cr v \<Longrightarrow> vault_step cr v v' \<Longrightarrow> vault_reachable cr v'"

lemma vault_step_ok: "vault_step cr v v' \<Longrightarrow> vault_ok cr v \<Longrightarrow> vault_ok cr v'"
proof (induction rule: vault_step.induct)
  case (add v save name r env loc)
  then show ?case using vault_add_ok[OF _ prod.collapse[symmetric]] by blast
next
  case (remove v save name)
  then show ?case by (rule vault_remove_ok)
qed

lemma vault_reachable_ok: "vault_reachable cr v \<Longrightarrow> vault_ok cr v"
proof (induction rule: vault_reachable.induct)
  case empty
  show ?case by (simp add: vault_ok_def)
next
  case (step v v')
  then show ?case by (blast intro: vault_step_ok)
qed

lemma infer_provider_label: "infer_provider r = Some l \<Longrightarrow> l \<in> set PROVIDER_LABELS"
  by (auto simp: infer_provider_def PROVIDER_PREFIXES_def PROVIDER_LABELS_def split: if_splits)

section \<open>Properties of the glob\<close>

lemma ascii_lower_eq_star: "ascii_lower c = CHR ''*'' \<Longrightarrow> c = CHR ''*''"
proof -
  assume h: "ascii_lower c = CHR ''*''"
  show "c = CHR ''*''"
  proof (cases "is_ascii_upper c")
    case True
    then have "bval (ascii_lower c) = bval c + 32" by (simp add: ascii_lower_def is_ascii_upper_def)
    with h True show ?thesis by (simp add: is_ascii_upper_def)
  qed (use h in \<open>simp add: ascii_lower_def\<close>)
qed

lemma glob_match_exact:
  assumes "\<not> starts_with (to_ascii_lowercase p) ''*.''" "p \<noteq> ''*''"
  shows "glob_match p h \<longleftrightarrow> eq_ignore_ascii_case p h"
proof -
  have "to_ascii_lowercase p \<noteq> ''*''" using assms(2)
    by (auto simp: to_ascii_lowercase_def dest: ascii_lower_eq_star)
  then show ?thesis using assms(1)
    by (auto simp: glob_match_def starts_with_def strip_prefix_def eq_ignore_ascii_case_def Let_def)
qed

lemma vault_add_remove_eq:
  assumes "vault_add cr save v name r env loc = (v', Inr d)"
  shows "fst (vault_remove save' v' name) = v"
  using assms by (cases rule: vault_add_cases)
    (auto simp: vault_remove_def Let_def filter_id_conv image_iff intro!: vault.equality)

text \<open>A concrete instance of the parameters: real hex, and a padded cut in place of the digest.\<close>

definition demo_hex_digit :: "nat \<Rightarrow> char" where
  "demo_hex_digit n = char_of (if n < 10 then 48 + n else 87 + n)"

definition demo_crypto :: crypto where
  "demo_crypto = \<lparr>sha256 = (\<lambda>x. take 32 (x @ replicate 32 (CHR ''0''))),
     hex_encode = (\<lambda>x. concat (map (\<lambda>c. [demo_hex_digit (bval c div 16), demo_hex_digit (bval c mod 16)]) x))\<rparr>"

lemma demo_hex_length: "length (hex_encode demo_crypto x) = 2 * length x"
  by (induction x) (auto simp: demo_crypto_def)

lemma demo_crypto_ok: "crypto_ok demo_crypto"
  by (auto simp: crypto_ok_def demo_hex_length) (auto simp: demo_crypto_def min_def)

section \<open>Claims\<close>

text \<open>For every name and value, decoy generation succeeds (no slice index is out of range) and
  yields 16 to 106 printable ASCII bytes; when the value carries the prefix \<open>sk-ant-\<close>, \<open>sk-\<close>,
  \<open>github_pat_\<close>, \<open>ghp_\<close> or \<open>xoxb-\<close>, so does its decoy.\<close>

theorem make_decoy_total:
  "crypto_ok cr \<Longrightarrow> \<exists>d. make_decoy cr name r = Some d \<and> decoy_shape r d"
  by (rule make_decoy_shape)

theorem make_decoy_total_witness:
  "crypto_ok demo_crypto \<and> (\<exists>d. make_decoy demo_crypto ''npm'' ''npm_abc'' = Some d \<and> decoy_shape ''npm_abc'' d)"
  using make_decoy_total[OF demo_crypto_ok] demo_crypto_ok by blast

text \<open>Removing a secret that was just added gives back the vault as it was before.\<close>

theorem vault_add_remove:
  assumes "vault_add cr save v name r env loc = (v', Inr d)"
  shows "fst (vault_remove save' v' name) = v"
  using assms by (rule vault_add_remove_eq)

lemma vault_add_fresh:
  assumes "crypto_ok cr" "name \<notin> sec_name ` set (secrets v)"
  shows "\<exists>v' d. vault_add cr (\<lambda>_. True) v name r env loc = (v', Inr d)"
  using make_decoy_shape[OF assms(1), of name r] assms(2)
  by (auto simp: vault_add_def Let_def list_ex_iff)

text \<open>C40: every vault that a sequence of additions and removals reaches from the empty one, whatever the file
  writes do, has pairwise distinct names; each entry's decoy and provider label are the ones
  derived from its own name and value; and every decoy has 16 to 106 characters, printable ASCII, and begins as the value does when that begins with \<open>sk-ant-\<close>,
  \<open>sk-\<close>, \<open>github_pat_\<close>, \<open>ghp_\<close> or \<open>xoxb-\<close> (assuming that SHA-256 returns 32 bytes and hex two hexadecimal digits for each).\<close>

theorem vault_reachable_wf:
  assumes "vault_reachable cr v" "crypto_ok cr"
  shows "distinct (map sec_name (secrets v))
    \<and> list_all (\<lambda>s. make_decoy cr (sec_name s) (sec_real s) = Some (sec_decoy s)
         \<and> sec_provider s = infer_provider (sec_real s) \<and> decoy_shape (sec_real s) (sec_decoy s)) (secrets v)"
proof -
  have "vault_ok cr v" using assms(1) by (rule vault_reachable_ok)
  moreover have "decoy_shape r d" if "make_decoy cr name r = Some d" for name r d
    using make_decoy_shape[OF assms(2), of name r] that by simp
  ultimately show ?thesis by (auto simp: vault_ok_def list_all_iff)
qed

text \<open>A vault of two secrets; a third addition, under a name in use, changes nothing.\<close>

theorem vault_reachable_wf_witness:
  "\<exists>v. vault_reachable demo_crypto v \<and> map sec_name (secrets v) = [''a'', ''b''] \<and> map sec_real (secrets v) = [''ghp_1'', ''sk-2'']
     \<and> list_all (\<lambda>s. decoy_shape (sec_real s) (sec_decoy s)) (secrets v) \<and> distinct (map sec_name (secrets v))"
proof -
  obtain v1 d1 where a: "vault_add demo_crypto (\<lambda>_. True) \<lparr>secrets = []\<rparr> ''a'' ''ghp_1'' None Bearer = (v1, Inr d1)"
    using vault_add_fresh[OF demo_crypto_ok, of "''a''" "\<lparr>secrets = []\<rparr>" "''ghp_1''" None Bearer] by auto
  have v1: "map sec_name (secrets v1) = [''a'']" "map sec_real (secrets v1) = [''ghp_1'']"
    using a by (auto simp: vault_add_def Let_def split: option.splits if_splits)
  have "''b'' \<notin> sec_name ` set (secrets v1)" unfolding list.set_map[symmetric] v1(1) by simp
  then obtain v2 d2 where b: "vault_add demo_crypto (\<lambda>_. True) v1 ''b'' ''sk-2'' None Bearer = (v2, Inr d2)"
    using vault_add_fresh[OF demo_crypto_ok, of "''b''" v1 "''sk-2''" None Bearer] by auto
  have v2: "map sec_name (secrets v2) = [''a'', ''b'']" "map sec_real (secrets v2) = [''ghp_1'', ''sk-2'']"
    using b v1 by (auto simp: vault_add_def Let_def split: option.splits if_splits)
  have "vault_reachable demo_crypto v1" using vault_reachable.step[OF vault_reachable.empty vault_step.add] a by (metis fst_conv)
  from vault_reachable.step[OF this vault_step.add] have r: "vault_reachable demo_crypto v2" using b by (metis fst_conv)
  from vault_reachable_wf[OF r demo_crypto_ok] show ?thesis using r v2 by (auto simp: list_all_iff intro!: exI[of _ v2])
qed

theorem vault_add_remove_witness:
  "\<exists>v' d. vault_add demo_crypto (\<lambda>_. True) \<lparr>secrets = []\<rparr> ''a'' ''ghp_1'' None Bearer = (v', Inr d)
     \<and> fst (vault_remove (\<lambda>_. True) v' ''a'') = \<lparr>secrets = []\<rparr>"
  using vault_add_fresh[OF demo_crypto_ok, of "''a''" "\<lparr>secrets = []\<rparr>" "''ghp_1''" None Bearer]
    vault_add_remove[of demo_crypto "\<lambda>_. True" "\<lparr>secrets = []\<rparr>" "''a''" "''ghp_1''" None Bearer]
  by fastforce

end
