(* ===== verification/Pricing.thy ===== *)
theory Pricing
  imports Rail_Prelude
begin

text \<open>
  \<^verbatim>\<open>src/src/pricing.rs\<close>: model rates, providers, billing, the reading of a provider's
  \<open>usage\<close> object and the incremental scanner of event streams. JSON text is parsed by
  \<open>serde_json\<close>, the parameter \<open>from_json\<close>; its values are the datatype
  \<open>json\<close>. Token counts are \<open>u64\<close>; dollar amounts (\<open>f64\<close> in the source) are exact
  reals, so rounding is not modelled.
\<close>

section \<open>JSON values\<close>

text \<open>\<open>serde_json::Value\<close>; a number is a \<open>u64\<close>, a negative integer or a float.\<close>

datatype json = JNull | JBool bool | JPos u64 | JNeg int | JFloat real | JStr string
  | JArr "json list" | JObj "(string \<times> json) list"

definition json_get :: "json \<Rightarrow> string \<Rightarrow> json option" where
  "json_get v k = (case v of JObj m \<Rightarrow> map_of m k | _ \<Rightarrow> None)"

definition json_as_str :: "json \<Rightarrow> string option" where
  "json_as_str v = (case v of JStr s \<Rightarrow> Some s | _ \<Rightarrow> None)"

definition json_as_u64 :: "json \<Rightarrow> u64 option" where
  "json_as_u64 v = (case v of JPos n \<Rightarrow> Some n | _ \<Rightarrow> None)"

definition json_is_object :: "json \<Rightarrow> bool" where
  "json_is_object v = (case v of JObj _ \<Rightarrow> True | _ \<Rightarrow> False)"

section \<open>Rates, providers and token counts\<close>

record model_rate =
  mr_input :: real
  mr_output :: real
  mr_cache_read :: real
  mr_cache_write :: real

datatype provider = Anthropic | OpenAi

definition provider_from_name :: "string \<Rightarrow> provider option" where
  "provider_from_name name =
     (if to_ascii_lowercase name = ''anthropic'' then Some Anthropic
      else if to_ascii_lowercase name = ''openai'' then Some OpenAi
      else None)"

definition default_rate :: "provider \<Rightarrow> model_rate" where
  "default_rate p = (case p of
     Anthropic \<Rightarrow> \<lparr>mr_input = 3, mr_output = 15, mr_cache_read = 0.3, mr_cache_write = 3.75\<rparr>
   | OpenAi \<Rightarrow> \<lparr>mr_input = 2.5, mr_output = 10, mr_cache_read = 1.25, mr_cache_write = 0\<rparr>)"

datatype billing = Usage | Subscription

record token_usage =
  tu_input :: u64
  tu_output :: u64
  tu_cache_read :: u64
  tu_cache_write :: u64

definition token_usage_default :: token_usage where
  "token_usage_default = \<lparr>tu_input = 0, tu_output = 0, tu_cache_read = 0, tu_cache_write = 0\<rparr>"

definition usage_cost_usd :: "token_usage \<Rightarrow> model_rate \<Rightarrow> usd" where
  "usage_cost_usd u rate =
     (real (unat (tu_input u)) * mr_input rate + real (unat (tu_output u)) * mr_output rate
      + real (unat (tu_cache_read u)) * mr_cache_read rate
      + real (unat (tu_cache_write u)) * mr_cache_write rate) / 1000000"

section \<open>The pricing table\<close>

record pricing_file =
  pf_hosts :: "string btmap"
  pf_billing :: "string btmap"
  pf_models :: "model_rate btmap"

record pricing =
  pr_hosts :: "provider btmap"
  pr_billing_overrides :: "billing btmap"
  pr_models :: "model_rate btmap"

definition add_model :: "string \<Rightarrow> real \<Rightarrow> real \<Rightarrow> real \<Rightarrow> real \<Rightarrow> model_rate btmap \<Rightarrow> model_rate btmap" where
  "add_model name i out cr cw m =
     btm_insert name \<lparr>mr_input = i, mr_output = out, mr_cache_read = cr, mr_cache_write = cw\<rparr> m"

definition builtin_models :: "model_rate btmap" where
  "builtin_models =
     (add_model ''o4-mini'' 1.1 4.4 0.275 0
      \<circ> add_model ''o3'' 2 8 0.5 0
      \<circ> add_model ''gpt-4.1'' 2 8 0.5 0
      \<circ> add_model ''gpt-4.1-mini'' 0.4 1.6 0.1 0
      \<circ> add_model ''gpt-4o'' 2.5 10 1.25 0
      \<circ> add_model ''gpt-4o-mini'' 0.15 0.6 0.075 0
      \<circ> add_model ''gpt-5'' 1.25 10 0.125 0
      \<circ> add_model ''gpt-5-mini'' 0.25 2 0.025 0
      \<circ> add_model ''gpt-5-nano'' 0.05 0.4 0.005 0
      \<circ> add_model ''claude-3-5-haiku'' 0.8 4 0.08 1
      \<circ> add_model ''claude-haiku-4-5'' 1 5 0.1 1.25
      \<circ> add_model ''claude-3-7-sonnet'' 3 15 0.3 3.75
      \<circ> add_model ''claude-sonnet-5'' 3 15 0.3 3.75
      \<circ> add_model ''claude-sonnet-4'' 3 15 0.3 3.75
      \<circ> add_model ''claude-opus-4'' 15 75 1.5 18.75) []"

definition pricing_default :: pricing where
  "pricing_default =
     \<lparr>pr_hosts = btm_insert ''api.openai.com'' OpenAi (btm_insert ''api.anthropic.com'' Anthropic []),
      pr_billing_overrides = [], pr_models = builtin_models\<rparr>"

definition overlay_host :: "string \<times> string \<Rightarrow> provider btmap \<Rightarrow> provider btmap" where
  "overlay_host hn m = (case hn of (host, name) \<Rightarrow>
     (case provider_from_name name of None \<Rightarrow> m | Some p \<Rightarrow> btm_insert (to_ascii_lowercase host) p m))"

definition overlay_billing :: "string \<times> string \<Rightarrow> billing btmap \<Rightarrow> billing btmap" where
  "overlay_billing hm m = (case hm of (host, mode) \<Rightarrow>
     btm_insert (to_ascii_lowercase host)
       (if to_ascii_lowercase mode = ''subscription'' then Subscription else Usage) m)"

text \<open>\<open>Pricing::load\<close> on the parsed override file, \<open>None\<close> when there is no file.\<close>

definition pricing_load :: "pricing_file option \<Rightarrow> pricing" where
  "pricing_load pf = (case pf of
     None \<Rightarrow> pricing_default
   | Some f \<Rightarrow>
       \<lparr>pr_hosts = fold overlay_host (pf_hosts f) (pr_hosts pricing_default),
        pr_billing_overrides = fold overlay_billing (pf_billing f) [],
        pr_models = fold (\<lambda>(k, r). btm_insert k r) (pf_models f) (pr_models pricing_default)\<rparr>)"

definition provider_for_host :: "pricing \<Rightarrow> string \<Rightarrow> provider option" where
  "provider_for_host p host = btm_get (pr_hosts p) host"

text \<open>\<open>Iterator::max_by_key\<close> on the prefix length keeps the last of the longest.\<close>

fun max_by_len :: "(string \<times> 'v) option \<Rightarrow> (string \<times> 'v) list \<Rightarrow> (string \<times> 'v) option" where
  "max_by_len best [] = best"
| "max_by_len best (x # xs) =
     max_by_len (case best of None \<Rightarrow> Some x
       | Some y \<Rightarrow> if length (fst x) \<ge> length (fst y) then Some x else Some y) xs"

definition rate_for :: "pricing \<Rightarrow> provider \<Rightarrow> string option \<Rightarrow> model_rate" where
  "rate_for p prov model = (case model of
     None \<Rightarrow> default_rate prov
   | Some m \<Rightarrow>
       (case max_by_len None (filter (\<lambda>(pre, _). starts_with m pre) (pr_models p)) of
          None \<Rightarrow> default_rate prov
        | Some (_, rate) \<Rightarrow> rate))"

definition knows_model :: "pricing \<Rightarrow> string \<Rightarrow> bool" where
  "knows_model p model \<longleftrightarrow> list_ex (\<lambda>(pre, _). starts_with model pre) (pr_models p)"

section \<open>Billing\<close>

text \<open>\<open>v[..7]\<close> panics off a character boundary: the \<open>None\<close> branch.\<close>

definition bearer_header :: "string \<times> string \<Rightarrow> bool option" where
  "bearer_header h = (case h of (n, v) \<Rightarrow>
     if eq_ignore_ascii_case n ''authorization'' \<and> length v \<ge> 7 then
       (if is_char_boundary v 7 then Some (eq_ignore_ascii_case (take 7 v) ''bearer '') else None)
     else Some False)"

fun any_bearer :: "(string \<times> string) list \<Rightarrow> bool option" where
  "any_bearer [] = Some False"
| "any_bearer (h # hs) =
     (case bearer_header h of None \<Rightarrow> None | Some True \<Rightarrow> Some True | Some False \<Rightarrow> any_bearer hs)"

definition billing_for :: "pricing \<Rightarrow> provider \<Rightarrow> string \<Rightarrow> (string \<times> string) list \<Rightarrow> billing option" where
  "billing_for p prov host headers =
     (case btm_get (pr_billing_overrides p) host of
        Some b \<Rightarrow> Some b
      | None \<Rightarrow>
          (if prov = Anthropic then
             (let has_api_key = list_ex (\<lambda>(n, _). eq_ignore_ascii_case n ''x-api-key'') headers in
              case any_bearer headers of
                None \<Rightarrow> None
              | Some has_bearer \<Rightarrow>
                  Some (if \<not> has_api_key \<and> has_bearer then Subscription else Usage))
           else Some Usage))"

definition split_cost :: "billing \<Rightarrow> token_usage \<Rightarrow> model_rate \<Rightarrow> usd \<times> usd" where
  "split_cost b u rate =
     (case b of Usage \<Rightarrow> (usage_cost_usd u rate, 0) | Subscription \<Rightarrow> (0, usage_cost_usd u rate))"

definition model_key :: "string option \<Rightarrow> billing \<Rightarrow> string" where
  "model_key model b =
     (let m = (case model of None \<Rightarrow> ''(unknown model)'' | Some m \<Rightarrow> m) in
      case b of Usage \<Rightarrow> m | Subscription \<Rightarrow> m @ '' [subscription]'')"

section \<open>Reading usage\<close>

definition parse_model :: "(bytes \<Rightarrow> json option) \<Rightarrow> bytes \<Rightarrow> string option" where
  "parse_model from_json body =
     Option.bind (from_json body) (\<lambda>v. Option.bind (json_get v ''model'') json_as_str)"

definition get_u64 :: "json \<Rightarrow> string \<Rightarrow> u64" where
  "get_u64 v key = (case Option.bind (json_get v key) json_as_u64 of None \<Rightarrow> 0 | Some n \<Rightarrow> n)"

definition openai_cached :: "json \<Rightarrow> u64" where
  "openai_cached usage =
     (case (case json_get usage ''prompt_tokens_details'' of
              Some d \<Rightarrow> Some d | None \<Rightarrow> json_get usage ''input_tokens_details'') of
        None \<Rightarrow> 0 | Some d \<Rightarrow> get_u64 d ''cached_tokens'')"

definition usage_from_value :: "provider \<Rightarrow> json \<Rightarrow> token_usage option" where
  "usage_from_value p usage =
     (if \<not> json_is_object usage then None
      else let parsed = (case p of
          Anthropic \<Rightarrow>
            \<lparr>tu_input = get_u64 usage ''input_tokens'', tu_output = get_u64 usage ''output_tokens'',
             tu_cache_read = get_u64 usage ''cache_read_input_tokens'',
             tu_cache_write = get_u64 usage ''cache_creation_input_tokens''\<rparr>
        | OpenAi \<Rightarrow>
            (let prompt = max (get_u64 usage ''prompt_tokens'') (get_u64 usage ''input_tokens'');
                 out = max (get_u64 usage ''completion_tokens'') (get_u64 usage ''output_tokens'');
                 cached = openai_cached usage in
             \<lparr>tu_input = saturating_sub prompt cached, tu_output = out, tu_cache_read = cached,
              tu_cache_write = 0\<rparr>))
      in if parsed = token_usage_default then None else Some parsed)"

definition find_usage :: "json \<Rightarrow> json option" where
  "find_usage v =
     (case json_get v ''usage'' of
        Some u \<Rightarrow> Some u
      | None \<Rightarrow>
          (case Option.bind (json_get v ''message'') (\<lambda>m. json_get m ''usage'') of
             Some u \<Rightarrow> Some u
           | None \<Rightarrow> Option.bind (json_get v ''response'') (\<lambda>r. json_get r ''usage'')))"

definition parse_usage_json :: "(bytes \<Rightarrow> json option) \<Rightarrow> provider \<Rightarrow> bytes \<Rightarrow> token_usage option" where
  "parse_usage_json from_json p body =
     Option.bind (from_json body) (\<lambda>v. Option.bind (find_usage v) (usage_from_value p))"

section \<open>The event-stream scanner\<close>

definition MAX_SSE_LINE :: nat where "MAX_SSE_LINE = 2 ^ 20"

record sse_scanner =
  ss_provider :: provider
  ss_line :: bytes
  ss_best :: token_usage
  ss_found :: bool
  ss_dead :: bool

definition sse_new :: "provider \<Rightarrow> sse_scanner" where
  "sse_new p = \<lparr>ss_provider = p, ss_line = [], ss_best = token_usage_default, ss_found = False,
     ss_dead = False\<rparr>"

definition usage_max :: "token_usage \<Rightarrow> token_usage \<Rightarrow> token_usage" where
  "usage_max a b =
     \<lparr>tu_input = max (tu_input a) (tu_input b), tu_output = max (tu_output a) (tu_output b),
      tu_cache_read = max (tu_cache_read a) (tu_cache_read b),
      tu_cache_write = max (tu_cache_write a) (tu_cache_write b)\<rparr>"

text \<open>The usage a \<open>data:\<close> line reports, if any.\<close>

definition line_usage :: "(bytes \<Rightarrow> json option) \<Rightarrow> provider \<Rightarrow> bytes \<Rightarrow> token_usage option" where
  "line_usage from_json p raw =
     (let line = (case strip_suffix [CHR 0x0D] raw of Some l \<Rightarrow> l | None \<Rightarrow> raw) in
      case strip_prefix ''data:'' line of
        None \<Rightarrow> None
      | Some pl \<Rightarrow>
          (let payload = (case strip_prefix '' '' pl of Some l \<Rightarrow> l | None \<Rightarrow> pl) in
           if \<not> starts_with payload ''{'' \<or> \<not> str_contains payload ([CHR 0x22] @ ''usage'' @ [CHR 0x22])
           then None
           else Option.bind (from_json payload) (\<lambda>v. Option.bind (find_usage v) (usage_from_value p))))"

definition scan_line :: "(bytes \<Rightarrow> json option) \<Rightarrow> bytes \<Rightarrow> sse_scanner \<Rightarrow> sse_scanner" where
  "scan_line from_json raw st =
     (case line_usage from_json (ss_provider st) raw of
        None \<Rightarrow> st
      | Some u \<Rightarrow> st\<lparr>ss_best := usage_max (ss_best st) u, ss_found := True\<rparr>)"

fun feed_bytes :: "(bytes \<Rightarrow> json option) \<Rightarrow> sse_scanner \<Rightarrow> bytes \<Rightarrow> sse_scanner" where
  "feed_bytes from_json st [] = st"
| "feed_bytes from_json st (b # bs) =
     (if b = CHR 0x0A then feed_bytes from_json (scan_line from_json (ss_line st) (st\<lparr>ss_line := []\<rparr>)) bs
      else if length (ss_line st @ [b]) > MAX_SSE_LINE then st\<lparr>ss_dead := True, ss_line := []\<rparr>
      else feed_bytes from_json (st\<lparr>ss_line := ss_line st @ [b]\<rparr>) bs)"

definition sse_feed :: "(bytes \<Rightarrow> json option) \<Rightarrow> sse_scanner \<Rightarrow> bytes \<Rightarrow> sse_scanner" where
  "sse_feed from_json st chunk = (if ss_dead st then st else feed_bytes from_json st chunk)"

definition sse_finish :: "(bytes \<Rightarrow> json option) \<Rightarrow> sse_scanner \<Rightarrow> token_usage option" where
  "sse_finish from_json st =
     (let st' = (if \<not> ss_dead st \<and> ss_line st \<noteq> []
                 then scan_line from_json (ss_line st) (st\<lparr>ss_line := []\<rparr>) else st) in
      if ss_found st' \<and> \<not> ss_dead st' then Some (ss_best st') else None)"

definition scan_usage_sse :: "(bytes \<Rightarrow> json option) \<Rightarrow> provider \<Rightarrow> bytes \<Rightarrow> token_usage option" where
  "scan_usage_sse from_json p body = sse_finish from_json (sse_feed from_json (sse_new p) body)"

section \<open>Input in chunks\<close>

text \<open>The contract of a consumer of a byte stream: what it has at the end does not depend on how the
  stream was cut.\<close>

locale chunk_fed =
  fixes feed :: "'s \<Rightarrow> 'b list \<Rightarrow> 's"
  assumes feed_Nil: "feed st [] = st"
    and feed_append: "feed st (xs @ ys) = feed (feed st xs) ys"
begin

lemma feed_concat: "foldl feed st chunks = feed st (concat chunks)"
  by (induction chunks arbitrary: st) (simp_all add: feed_Nil feed_append)

lemma feed_recut: "concat cs = concat ds \<Longrightarrow> foldl feed st cs = foldl feed st ds"
  by (simp add: feed_concat)

end

lemma scan_line_dead [simp]: "ss_dead (scan_line fj raw st) = ss_dead st"
  by (simp add: scan_line_def split: option.split)

lemma feed_bytes_append:
  "\<not> ss_dead st \<Longrightarrow> feed_bytes fj st (xs @ ys) =
     (if ss_dead (feed_bytes fj st xs) then feed_bytes fj st xs else feed_bytes fj (feed_bytes fj st xs) ys)"
  by (induction fj st xs rule: feed_bytes.induct) auto

interpretation sse: chunk_fed "sse_feed fj" for fj
  by unfold_locales (auto simp: sse_feed_def feed_bytes_append)

section \<open>The event stream by lines\<close>

abbreviation newline :: char where "newline \<equiv> CHR 0x0A"

text \<open>The reference: the field-wise maximum over the usage of all lines, nothing when a line is
  longer than the limit or no line reports usage.\<close>

definition acc_line :: "(bytes \<Rightarrow> json option) \<Rightarrow> provider \<Rightarrow> bytes \<Rightarrow> token_usage \<times> bool \<Rightarrow> token_usage \<times> bool" where
  "acc_line fj p raw acc = (case line_usage fj p raw of None \<Rightarrow> acc | Some u \<Rightarrow> (usage_max (fst acc) u, True))"

definition sse_reference :: "(bytes \<Rightarrow> json option) \<Rightarrow> provider \<Rightarrow> token_usage \<times> bool \<Rightarrow> bytes list \<Rightarrow> token_usage option" where
  "sse_reference fj p acc lines =
     (if list_ex (\<lambda>l. length l > MAX_SSE_LINE) lines then None
      else case fold (acc_line fj p) lines acc of (b, f) \<Rightarrow> if f then Some b else None)"

lemma split_char_Cons: "\<exists>l ls. split_char k s = l # ls"
  by (induction s) (auto split: list.split)

lemma line_usage_empty [simp]: "line_usage fj p [] = None"
  by (simp add: line_usage_def strip_suffix_def strip_prefix_def)

lemma scan_line_acc:
  "(ss_best (scan_line fj raw st), ss_found (scan_line fj raw st)) = acc_line fj (ss_provider st) raw (ss_best st, ss_found st)"
  "ss_provider (scan_line fj raw st) = ss_provider st" "ss_line (scan_line fj raw st) = ss_line st"
  by (simp_all add: scan_line_def acc_line_def split: option.split)

lemma finish_feed:
  assumes "\<not> ss_dead st" "length (ss_line st) \<le> MAX_SSE_LINE" "split_char newline bs = l # ls"
  shows "sse_finish fj (feed_bytes fj st bs) =
    sse_reference fj (ss_provider st) (ss_best st, ss_found st) ((ss_line st @ l) # ls)"
  using assms
proof (induction bs arbitrary: st l ls)
  case Nil
  then show ?case
    using scan_line_acc[of fj "ss_line st" "st\<lparr>ss_line := []\<rparr>"]
    by (auto simp: sse_finish_def sse_reference_def acc_line_def scan_line_def Let_def split: option.splits)
next
  case (Cons b bs)
  obtain m ms where s: "split_char newline bs = m # ms" using split_char_Cons by blast
  show ?case
  proof (cases "b = newline")
    case True
    let ?st = "scan_line fj (ss_line st) (st\<lparr>ss_line := []\<rparr>)"
    have "sse_finish fj (feed_bytes fj ?st bs) =
        sse_reference fj (ss_provider ?st) (ss_best ?st, ss_found ?st) ((ss_line ?st @ m) # ms)"
      by (rule Cons.IH) (use Cons.prems(1) s in \<open>simp_all add: scan_line_acc\<close>)
    moreover have "l = []" "ls = m # ms" using Cons.prems(3) s True by auto
    ultimately show ?thesis using True Cons.prems(2) by (simp add: sse_reference_def scan_line_acc)
  next
    case False
    then have l: "l = b # m" "ls = ms" using Cons.prems(3) s by auto
    show ?thesis
    proof (cases "length (ss_line st @ [b]) > MAX_SSE_LINE")
      case True
      then show ?thesis using False l by (simp add: sse_finish_def sse_reference_def)
    next
      case short: False
      have "sse_finish fj (feed_bytes fj (st\<lparr>ss_line := ss_line st @ [b]\<rparr>) bs) =
          sse_reference fj (ss_provider st) (ss_best st, ss_found st) ((ss_line st @ [b] @ m) # ms)"
        using Cons.IH[of "st\<lparr>ss_line := ss_line st @ [b]\<rparr>" m ms] Cons.prems(1) s short by simp
      then show ?thesis using False short l by simp
    qed
  qed
qed

lemma scan_usage_by_lines:
  "scan_usage_sse fj p body = sse_reference fj p (token_usage_default, False) (split_char newline body)"
proof -
  obtain l ls where s: "split_char newline body = l # ls" using split_char_Cons by blast
  show ?thesis using finish_feed[OF _ _ s, of "sse_new p" fj] s
    by (simp add: scan_usage_sse_def sse_feed_def sse_new_def)
qed

section \<open>Rates and billing\<close>

lemma max_by_len_spec:
  "max_by_len best xs = None \<longleftrightarrow> best = None \<and> xs = []"
  "max_by_len best xs = Some y \<Longrightarrow> (y \<in> set xs \<or> best = Some y)
     \<and> (\<forall>x \<in> set xs. length (fst x) \<le> length (fst y)) \<and> (\<forall>b. best = Some b \<longrightarrow> length (fst b) \<le> length (fst y))"
  by (induction xs arbitrary: best) (force split: option.splits if_splits)+

lemma ascii_boundary: "list_all (\<lambda>c. bval c < 128) v \<Longrightarrow> 7 \<le> length v \<Longrightarrow> is_char_boundary v 7"
  by (cases "length v = 7") (auto simp: is_char_boundary_def is_utf8_cont_def list_all_length dest!: spec[of _ 7])

lemma any_bearer_total:
  "list_all (\<lambda>(n, v). list_all (\<lambda>c. bval c < 128) v) hs \<Longrightarrow> \<exists>b. any_bearer hs = Some b"
  by (induction hs) (auto simp: bearer_header_def ascii_boundary split: option.splits bool.splits)


section \<open>Claims\<close>

text \<open>The usage read off an event stream does not depend on how the network cut it into chunks,
  and is the field-wise maximum over the usage its lines report: nothing is counted twice when a
  provider repeats running totals.\<close>

theorem sse_chunk_invariant:
  "sse_finish fj (foldl (sse_feed fj) (sse_new p) chunks) = scan_usage_sse fj p (concat chunks)
   \<and> scan_usage_sse fj p (concat chunks) =
      sse_reference fj p (token_usage_default, False) (split_char (CHR 0x0A) (concat chunks))"
  by (simp only: sse.feed_concat scan_usage_sse_def[symmetric] scan_usage_by_lines simp_thms)

text \<open>A model is priced at the entry with the longest prefix of its name in the table, and at
  the provider's default rate exactly when no entry is a prefix of it or the model is unknown.\<close>

theorem rate_for_longest_prefix:
  "case model of None \<Rightarrow> rate_for p prov model = default_rate prov
   | Some m \<Rightarrow>
      if knows_model p m then
        list_ex (\<lambda>(pre, r). starts_with m pre \<and> rate_for p prov model = r
          \<and> list_all (\<lambda>(q, _). length q \<le> length pre) (filter (\<lambda>(q, _). starts_with m q) (pr_models p))) (pr_models p)
      else rate_for p prov model = default_rate prov"
proof (cases model)
  case (Some m)
  let ?c = "filter (\<lambda>(pre, _). starts_with m pre) (pr_models p)"
  show ?thesis
  proof (cases "max_by_len None ?c")
    case None
    then have "?c = []" by (simp add: max_by_len_spec(1))
    then show ?thesis using Some by (auto simp: knows_model_def rate_for_def list_ex_iff filter_empty_conv)
  next
    case (Some y)
    from max_by_len_spec(2)[OF Some] have y: "y \<in> set ?c" "\<forall>x \<in> set ?c. length (fst x) \<le> length (fst y)" by auto
    obtain pre r where yp: "y = (pre, r)" by fastforce
    then have m: "(pre, r) \<in> set (pr_models p)" "starts_with m pre" using y(1) by auto
    then have "knows_model p m" by (auto simp: knows_model_def list_ex_iff)
    moreover have "rate_for p prov model = r" using Some \<open>model = Some m\<close> yp by (simp add: rate_for_def)
    moreover have "list_all (\<lambda>(q, _). length q \<le> length pre) ?c" using y(2) yp by (auto simp: list_all_iff)
    ultimately show ?thesis using m \<open>model = Some m\<close> by (auto simp: list_ex_iff intro!: bexI[of _ "(pre, r)"])
  qed
qed (simp add: rate_for_def)

text \<open>On header values that are ASCII, as the HTTP layer delivers them, billing is always
  decided (no slice panics); without an override for the host only an Anthropic request with a bearer
  token and no API key counts as a subscription.\<close>

theorem billing_for_total:
  assumes "list_all (\<lambda>(n, v). list_all (\<lambda>c. bval c < 128) v) hs"
  shows "\<exists>b. billing_for p prov host hs = Some b \<and>
     (case btm_get (pr_billing_overrides p) host of Some o' \<Rightarrow> b = o'
      | None \<Rightarrow> b = Subscription \<longleftrightarrow> prov = Anthropic \<and> any_bearer hs = Some True
          \<and> \<not> list_ex (\<lambda>(n, _). eq_ignore_ascii_case n ''x-api-key'') hs)"
  using any_bearer_total[OF assms] by (auto simp: billing_for_def Let_def split: option.split)

theorem billing_for_total_witness:
  "list_all (\<lambda>(n, v). list_all (\<lambda>c. bval c < (128::nat)) v) [(''authorization'', ''Bearer abc'')]
   \<and> billing_for pricing_default Anthropic ''api.anthropic.com'' [(''authorization'', ''Bearer abc'')] = Some Subscription"
proof -
  have h: "list_all (\<lambda>(n, v). list_all (\<lambda>c. bval c < (128::nat)) v) [(''authorization'', ''Bearer abc'')]" by simp
  have "any_bearer [(''authorization'', ''Bearer abc'')] = Some True"
    "\<not> list_ex (\<lambda>(n, _). eq_ignore_ascii_case n ''x-api-key'') [(''authorization'', ''Bearer abc'')]" by code_simp+
  moreover have "btm_get (pr_billing_overrides pricing_default) ''api.anthropic.com'' = None"
    by (simp add: pricing_default_def btm_get_def)
  ultimately show ?thesis
    using h billing_for_total[OF h, of pricing_default Anthropic "''api.anthropic.com''"] by auto
qed

text \<open>OpenAI reports cached tokens inside the prompt count; the parsed usage splits them without
  overlap and without wrapping: uncached and cached input add up to the prompt count, or to the cached
  count when a provider reports more cached tokens than prompt tokens.\<close>

theorem openai_usage_disjoint:
  assumes "usage_from_value OpenAi v = Some u"
  shows "unat (tu_input u) + unat (tu_cache_read u) =
     max (unat (max (get_u64 v ''prompt_tokens'') (get_u64 v ''input_tokens''))) (unat (openai_cached v))
   \<and> tu_cache_read u = openai_cached v"
  using assms by (auto simp: usage_from_value_def Let_def unat_saturating_sub split: if_splits)

definition sample_usage :: json where
  "sample_usage = JObj [(''prompt_tokens'', JPos 100), (''completion_tokens'', JPos 7),
     (''prompt_tokens_details'', JObj [(''cached_tokens'', JPos 40)])]"

theorem openai_usage_disjoint_witness:
  "\<exists>u. usage_from_value OpenAi sample_usage = Some u \<and> unat (tu_input u) + unat (tu_cache_read u) = 100"
proof -
  have g: "get_u64 sample_usage ''prompt_tokens'' = 100" "get_u64 sample_usage ''input_tokens'' = 0"
    "openai_cached sample_usage = 40" "json_is_object sample_usage"
    by (simp_all add: sample_usage_def get_u64_def json_get_def json_as_u64_def openai_cached_def json_is_object_def)
  have "\<exists>u. usage_from_value OpenAi sample_usage = Some u"
    using g by (auto simp: usage_from_value_def token_usage_default_def Let_def)
  then obtain u where u: "usage_from_value OpenAi sample_usage = Some u" by blast
  from conjunct1[OF openai_usage_disjoint[OF u]] have "unat (tu_input u) + unat (tu_cache_read u) = 100"
    unfolding g by (simp add: max_def)
  with u show ?thesis by blast
qed

end
