(* ===== verification/Policy.thy ===== *)
theory Policy
  imports Vault Pricing
begin

text \<open>
  \<^verbatim>\<open>src/src/policy.rs\<close>: actions, rules and their matching, the configuration blocks with
  their defaults, first-match evaluation and its resolution of \<open>escalate\<close>, secret release,
  the lints, and the shipped default policy as the value its TOML text denotes. Reading the
  file and parsing TOML are outside (file system and a third-party parser).
\<close>

section \<open>Actions and rules\<close>

datatype action = Allow | Deny | Warn | Route | Escalate

definition action_as_str :: "action \<Rightarrow> string" where
  "action_as_str a = (case a of Allow \<Rightarrow> ''allow'' | Deny \<Rightarrow> ''deny'' | Warn \<Rightarrow> ''warn''
     | Route \<Rightarrow> ''route'' | Escalate \<Rightarrow> ''escalate'')"

definition action_parse :: "string \<Rightarrow> string + action" where
  "action_parse s =
     (let t = to_ascii_lowercase s in
      if t = ''allow'' then Inr Allow
      else if t = ''deny'' then Inr Deny
      else if t = ''warn'' then Inr Warn
      else if t = ''route'' then Inr Route
      else if t = ''escalate'' then Inr Escalate
      else Inl (''unknown action '' @ quoted t @ '' (use allow|deny|warn|route|escalate)''))"

record rule =
  r_name :: string
  r_hosts :: "string list"
  r_methods :: "string list"
  r_path_prefixes :: "string list"
  r_action :: action
  r_allow_secrets :: "string list"
  r_route :: "string btmap"

definition lists_secret :: "string list \<Rightarrow> secret \<Rightarrow> bool" where
  "lists_secret allow_secrets s \<longleftrightarrow>
     list_ex (\<lambda>entry. entry = sec_name s \<or>
        (case strip_prefix ''provider:'' entry of
           None \<Rightarrow> False
         | Some label \<Rightarrow> sec_provider s = Some label)) allow_secrets"

definition rule_matches :: "rule \<Rightarrow> string \<Rightarrow> string \<Rightarrow> string \<Rightarrow> bool" where
  "rule_matches r host path method \<longleftrightarrow>
     list_ex (\<lambda>g. glob_match g host) (r_hosts r)
     \<and> (r_methods r = [] \<or> list_ex (\<lambda>m. eq_ignore_ascii_case m method) (r_methods r))
     \<and> (r_path_prefixes r = [] \<or> list_ex (\<lambda>p. starts_with path p) (r_path_prefixes r))"

section \<open>Configuration blocks\<close>

datatype dlp_mode = DlpOff | DlpWarn | DlpBlock | DlpMask

definition dlp_mode_name :: "dlp_mode \<Rightarrow> string" where
  "dlp_mode_name m = (case m of DlpOff \<Rightarrow> ''off'' | DlpWarn \<Rightarrow> ''warn'' | DlpBlock \<Rightarrow> ''block''
     | DlpMask \<Rightarrow> ''mask'')"

record dlp_config =
  d_pan :: dlp_mode
  d_ssn :: dlp_mode
  d_iban :: dlp_mode
  d_aba :: dlp_mode
  d_email :: dlp_mode
  d_allow :: "string list"
  d_debug :: bool

definition dlp_config_default :: dlp_config where
  "dlp_config_default = \<lparr>d_pan = DlpWarn, d_ssn = DlpWarn, d_iban = DlpWarn, d_aba = DlpWarn,
     d_email = DlpOff, d_allow = [], d_debug = False\<rparr>"

record cache_config =
  c_repair :: bool
  c_keep_alive :: bool
  c_keep_alive_secs :: u64
  c_keep_alive_max :: u32
  c_serialize_fanout :: bool
  c_fanout_timeout_ms :: u64

definition cache_config_default :: cache_config where
  "cache_config_default = \<lparr>c_repair = False, c_keep_alive = False, c_keep_alive_secs = 240,
     c_keep_alive_max = 6, c_serialize_fanout = False, c_fanout_timeout_ms = 2000\<rparr>"

record soft_landing_config =
  sl_threshold_pct :: real
  sl_map :: "string btmap"

definition soft_landing_default :: soft_landing_config where
  "soft_landing_default = \<lparr>sl_threshold_pct = 0, sl_map = []\<rparr>"

definition soft_landing_enabled :: "soft_landing_config \<Rightarrow> bool" where
  "soft_landing_enabled c \<longleftrightarrow> sl_threshold_pct c > 0 \<and> sl_map c \<noteq> []"

datatype tripwire_mode = TripBlock | TripAlert | TripOff

record spend_tripwire_config =
  st_mode :: tripwire_mode
  st_repeats :: u32
  st_window_secs :: u64
  st_rate_multiplier :: real
  st_rate_floor_usd :: usd

definition spend_tripwire_default :: spend_tripwire_config where
  "spend_tripwire_default = \<lparr>st_mode = TripBlock, st_repeats = 15, st_window_secs = 300,
     st_rate_multiplier = 10, st_rate_floor_usd = 5\<rparr>"

record policy =
  p_default_action :: action
  p_escalate_fallback :: action
  p_rules :: "rule list"
  p_dlp :: dlp_config
  p_cache :: cache_config
  p_soft_landing :: soft_landing_config
  p_spend_tripwire :: spend_tripwire_config

definition default_escalate_fallback :: action where
  "default_escalate_fallback = Deny"

section \<open>Evaluation\<close>

record decision =
  dc_action :: action
  dc_rule :: string
  dc_escalated :: bool
  dc_allow_secrets :: "string list"
  dc_route :: "string btmap"

definition releases :: "decision \<Rightarrow> secret \<Rightarrow> bool" where
  "releases d s \<longleftrightarrow> (dc_action d = Allow \<or> dc_action d = Route) \<and> lists_secret (dc_allow_secrets d) s"

definition expects :: "decision \<Rightarrow> secret \<Rightarrow> bool" where
  "expects d s \<longleftrightarrow> lists_secret (dc_allow_secrets d) s"

definition resolve :: "policy \<Rightarrow> action \<Rightarrow> string \<Rightarrow> string list \<Rightarrow> string btmap \<Rightarrow> decision" where
  "resolve p a rule_name allow_secrets route =
     (case a of
        Escalate \<Rightarrow>
          \<lparr>dc_action = (case p_escalate_fallback p of Escalate \<Rightarrow> Deny | other \<Rightarrow> other),
           dc_rule = rule_name, dc_escalated = True, dc_allow_secrets = allow_secrets,
           dc_route = route\<rparr>
      | other \<Rightarrow>
          \<lparr>dc_action = other, dc_rule = rule_name, dc_escalated = False,
           dc_allow_secrets = allow_secrets, dc_route = route\<rparr>)"

fun evaluate_rules :: "policy \<Rightarrow> rule list \<Rightarrow> string \<Rightarrow> string \<Rightarrow> string \<Rightarrow> decision" where
  "evaluate_rules p [] host path method = resolve p (p_default_action p) ''default'' [] []"
| "evaluate_rules p (r # rs) host path method =
     (if rule_matches r host path method
      then resolve p (r_action r) (r_name r) (r_allow_secrets r) (r_route r)
      else evaluate_rules p rs host path method)"

definition evaluate :: "policy \<Rightarrow> string \<Rightarrow> string \<Rightarrow> string \<Rightarrow> decision" where
  "evaluate p host path method = evaluate_rules p (p_rules p) host path method"

definition releasing_rules :: "policy \<Rightarrow> secret \<Rightarrow> rule list" where
  "releasing_rules p s =
     filter (\<lambda>r. (r_action r = Allow \<or> r_action r = Route) \<and> lists_secret (r_allow_secrets r) s)
       (p_rules p)"

section \<open>The shipped default policy\<close>

text \<open>The value \<open>DEFAULT_POLICY_TOML\<close> denotes: the provider rules, the toolchain and
  carve-out rules below them, and the blocks it sets (the commented-out ones keep their
  defaults).\<close>

definition default_provider_rules :: "rule list" where
  "default_provider_rules = [
     \<lparr>r_name = ''anthropic-logging'', r_hosts = [''api.anthropic.com''],
      r_methods = [], r_path_prefixes = [''/api/event_logging''], r_action = Deny,
      r_allow_secrets = [''provider:anthropic''], r_route = []\<rparr>,
     \<lparr>r_name = ''anthropic'', r_hosts = [''api.anthropic.com''],
      r_methods = [], r_path_prefixes = [], r_action = Allow,
      r_allow_secrets = [''provider:anthropic''], r_route = []\<rparr>,
     \<lparr>r_name = ''anthropic-statsig'', r_hosts = [''statsig.anthropic.com''],
      r_methods = [], r_path_prefixes = [], r_action = Allow,
      r_allow_secrets = [], r_route = []\<rparr>,
     \<lparr>r_name = ''anthropic-oauth'', r_hosts = [''console.anthropic.com''],
      r_methods = [], r_path_prefixes = [''/v1/oauth''], r_action = Allow,
      r_allow_secrets = [], r_route = []\<rparr>,
     \<lparr>r_name = ''openai'', r_hosts = [''api.openai.com''],
      r_methods = [], r_path_prefixes = [], r_action = Allow,
      r_allow_secrets = [''provider:openai''], r_route = []\<rparr>,
     \<lparr>r_name = ''github-gist-api'', r_hosts = [''api.github.com''],
      r_methods = [], r_path_prefixes = [''/gists''], r_action = Escalate,
      r_allow_secrets = [''provider:github''], r_route = []\<rparr>,
     \<lparr>r_name = ''github'', r_hosts = [''github.com'', ''api.github.com'', ''codeload.github.com'', ''*.githubusercontent.com''],
      r_methods = [], r_path_prefixes = [], r_action = Allow,
      r_allow_secrets = [''provider:github''], r_route = []\<rparr>]"

definition default_toolchain_rules :: "rule list" where
  "default_toolchain_rules = [
     \<lparr>r_name = ''npm-registry'', r_hosts = [''registry.npmjs.org''],
      r_methods = [], r_path_prefixes = [], r_action = Allow,
      r_allow_secrets = [''provider:npm''], r_route = []\<rparr>,
     \<lparr>r_name = ''package-registries'', r_hosts = [''pypi.org'', ''*.pythonhosted.org'', ''crates.io'', ''static.crates.io''],
      r_methods = [], r_path_prefixes = [], r_action = Allow,
      r_allow_secrets = [], r_route = []\<rparr>,
     \<lparr>r_name = ''pastebins'', r_hosts = [''pastebin.com'', ''*.ngrok.io'', ''*.ngrok-free.app''],
      r_methods = [], r_path_prefixes = [], r_action = Escalate,
      r_allow_secrets = [], r_route = []\<rparr>,
     \<lparr>r_name = ''gist-read'', r_hosts = [''gist.github.com''],
      r_methods = [''GET'', ''HEAD''], r_path_prefixes = [], r_action = Allow,
      r_allow_secrets = [''provider:github''], r_route = []\<rparr>,
     \<lparr>r_name = ''gist-other'', r_hosts = [''gist.github.com''],
      r_methods = [], r_path_prefixes = [], r_action = Escalate,
      r_allow_secrets = [''provider:github''], r_route = []\<rparr>]"

definition default_policy :: policy where
  "default_policy =
     \<lparr>p_default_action = Deny, p_escalate_fallback = Deny,
      p_rules = default_provider_rules @ default_toolchain_rules,
      p_dlp = \<lparr>d_pan = DlpWarn, d_ssn = DlpWarn, d_iban = DlpWarn, d_aba = DlpWarn,
        d_email = DlpOff, d_allow = [], d_debug = False\<rparr>,
      p_cache = cache_config_default, p_soft_landing = soft_landing_default,
      p_spend_tripwire = spend_tripwire_default\<rparr>"

section \<open>Lints\<close>

definition glob_covers :: "string \<Rightarrow> string \<Rightarrow> bool" where
  "glob_covers outer inner =
     (let outer = to_ascii_lowercase outer; inner = to_ascii_lowercase inner in
      if outer = ''*'' \<or> outer = inner then True
      else (case strip_prefix ''*.'' outer of
          Some sfx \<Rightarrow>
            (let bare = (case strip_prefix ''*.'' inner of Some b \<Rightarrow> b | None \<Rightarrow> inner)
             in bare = sfx \<or> ends_with bare (''.'' @ sfx))
        | None \<Rightarrow> False))"

definition lint_entry :: "secret list \<Rightarrow> rule \<Rightarrow> string \<Rightarrow> string list" where
  "lint_entry known r entry =
     (case strip_prefix ''provider:'' entry of
        Some label \<Rightarrow>
          (if label \<notin> set PROVIDER_LABELS
           then [''rule '' @ quoted (r_name r) @ '': unknown provider label '' @ quoted entry
                 @ '' (known: '' @ join '', '' PROVIDER_LABELS @ '')'']
           else [])
      | None \<Rightarrow>
          (if known \<noteq> [] \<and> \<not> list_ex (\<lambda>s. sec_name s = entry) known
           then [''rule '' @ quoted (r_name r) @ '': no vault secret named '' @ quoted entry]
           else []))"

definition shadows :: "rule \<Rightarrow> rule \<Rightarrow> bool" where
  "shadows earlier r \<longleftrightarrow>
     r_path_prefixes earlier = [] \<and> r_methods earlier = []
     \<and> list_all (\<lambda>h. list_ex (\<lambda>e. glob_covers e h) (r_hosts earlier)) (r_hosts r)"

fun lint_shadow :: "rule list \<Rightarrow> rule list \<Rightarrow> string list" where
  "lint_shadow earlier [] = []"
| "lint_shadow earlier (r # rs) =
     (if r_allow_secrets r = [] then []
      else (case find (\<lambda>e. shadows e r) earlier of
          None \<Rightarrow> []
        | Some e \<Rightarrow> [''rule '' @ quoted (r_name r) @ '' can never win: rule '' @ quoted (r_name e)
            @ '' above it matches every request it matches, so its allow_secrets never apply'']))
     @ lint_shadow (earlier @ [r]) rs"

definition lint :: "policy \<Rightarrow> secret list \<Rightarrow> string list" where
  "lint p known =
     concat (map (\<lambda>r. concat (map (lint_entry known r) (r_allow_secrets r))) (p_rules p))
     @ lint_shadow [] (p_rules p)"

definition lint_routes :: "policy \<Rightarrow> pricing \<Rightarrow> string list" where
  "lint_routes p prices =
     concat (map (\<lambda>r.
        (if r_route r = []
         then [''rule '' @ quoted (r_name r) @ '': action is route but the route map is empty, so it behaves exactly like allow and never rewrites'']
         else [])
        @ concat (map (\<lambda>to. if knows_model prices to then []
             else [''rule '' @ quoted (r_name r) @ '': route target model '' @ quoted to
                   @ '' is not in the pricing table (typo? requests forward as configured either way)''])
             (map snd (r_route r))))
       (filter (\<lambda>r. r_action r = Route) (p_rules p)))"

section \<open>First match\<close>

text \<open>The contract of an ordered rule list: the first rule that matches decides, and the default
  decides when none does. What follows from it alone is proved here once.\<close>

locale first_match =
  fixes hits :: "'r \<Rightarrow> 'q \<Rightarrow> bool"
    and verdict :: "'r \<Rightarrow> 'd"
    and dflt :: 'd
    and eval_list :: "'r list \<Rightarrow> 'q \<Rightarrow> 'd"
  assumes eval_Nil: "eval_list [] q = dflt"
    and eval_Cons: "eval_list (r # rs) q = (if hits r q then verdict r else eval_list rs q)"
begin

lemma eval_find:
  "eval_list rs q = (case find (\<lambda>r. hits r q) rs of None \<Rightarrow> dflt | Some r \<Rightarrow> verdict r)"
  by (induction rs) (auto simp: eval_Nil eval_Cons)

lemma eval_append:
  "eval_list (xs @ ys) q = (if list_ex (\<lambda>r. hits r q) xs then eval_list xs q else eval_list ys q)"
  by (induction xs) (auto simp: eval_Nil eval_Cons)

lemma eval_split:
  "(list_all (\<lambda>r. \<not> hits r q) rs \<and> eval_list rs q = dflt) \<or>
   (\<exists>xs r ys. rs = xs @ r # ys \<and> list_all (\<lambda>x. \<not> hits x q) xs \<and> hits r q \<and> eval_list rs q = verdict r)"
proof (induction rs)
  case (Cons a rs)
  show ?case
  proof (cases "hits a q")
    case True
    then have "a # rs = [] @ a # rs \<and> list_all (\<lambda>x. \<not> hits x q) [] \<and> hits a q \<and> eval_list (a # rs) q = verdict a"
      by (simp add: eval_Cons)
    then show ?thesis by blast
  next
    case False
    from Cons.IH show ?thesis
    proof
      assume "\<exists>xs r ys. rs = xs @ r # ys \<and> list_all (\<lambda>x. \<not> hits x q) xs \<and> hits r q \<and> eval_list rs q = verdict r"
      then obtain xs r ys where "a # rs = (a # xs) @ r # ys \<and> list_all (\<lambda>x. \<not> hits x q) (a # xs) \<and> hits r q
          \<and> eval_list (a # rs) q = verdict r" using False by (auto simp: eval_Cons)
      then show ?thesis by blast
    qed (use False in \<open>simp add: eval_Cons\<close>)
  qed
qed (simp add: eval_Nil)

lemma eval_at:
  assumes "list_all (\<lambda>x. \<not> hits x q) xs" and "hits r q"
  shows "eval_list (xs @ r # ys) q = verdict r"
  using assms by (auto simp: eval_append eval_Cons list_all_iff list_ex_iff)

lemma eval_skip_shadowed:
  assumes "hits r q \<Longrightarrow> hits e q"
  shows "eval_list (xs @ e # ys @ r # zs) q = eval_list (xs @ e # ys @ zs) q"
  using assms by (auto simp: eval_append eval_Cons)

end

definition rule_verdict :: "policy \<Rightarrow> rule \<Rightarrow> decision" where
  "rule_verdict p r = resolve p (r_action r) (r_name r) (r_allow_secrets r) (r_route r)"

interpretation pol: first_match "\<lambda>r (h, pa, m). rule_matches r h pa m" "rule_verdict p"
  "resolve p (p_default_action p) ''default'' [] []" "\<lambda>rs (h, pa, m). evaluate_rules p rs h pa m"
  for p
  by unfold_locales (auto simp: rule_verdict_def)

text \<open>The provider prefix table is the same kind of list.\<close>

interpretation prov: first_match "\<lambda>e v. starts_with v (fst e)" "\<lambda>e. Some (snd e)" None
  "\<lambda>tab v. map_option snd (find (\<lambda>(p, _). starts_with v p) tab)"
  by unfold_locales auto

section \<open>Properties of evaluation\<close>

lemma resolve_action:
  "dc_action (resolve p a n l rt) =
     (if a = Escalate then (if p_escalate_fallback p = Escalate then Deny else p_escalate_fallback p) else a)"
  by (cases a; cases "p_escalate_fallback p") (auto simp: resolve_def)

lemma resolve_fields [simp]:
  "dc_rule (resolve p a n l rt) = n" "dc_allow_secrets (resolve p a n l rt) = l"
  "dc_route (resolve p a n l rt) = rt" "dc_escalated (resolve p a n l rt) = (a = Escalate)"
  by (cases a; simp add: resolve_def)+

text \<open>The action that a rule's own action comes to under a policy.\<close>

definition effective_action :: "policy \<Rightarrow> action \<Rightarrow> action" where
  "effective_action p a =
     (if a = Escalate then (if p_escalate_fallback p = Escalate then Deny else p_escalate_fallback p) else a)"

lemma evaluate_split:
  "(list_all (\<lambda>r. \<not> rule_matches r h pa m) (p_rules p)
      \<and> evaluate p h pa m = resolve p (p_default_action p) ''default'' [] []) \<or>
   (\<exists>xs r ys. p_rules p = xs @ r # ys \<and> list_all (\<lambda>x. \<not> rule_matches x h pa m) xs \<and> rule_matches r h pa m
      \<and> evaluate p h pa m = rule_verdict p r)"
  using pol.eval_split[of "(h, pa, m)" "p_rules p" p] by (simp add: evaluate_def)

lemma lists_secret_Nil [simp]: "\<not> lists_secret [] s"
  by (simp add: lists_secret_def)

lemma evaluate_rules_cong:
  assumes "p_escalate_fallback p = p_escalate_fallback p'" "p_default_action p = p_default_action p'"
  shows "evaluate_rules p rs h pa m = evaluate_rules p' rs h pa m"
proof -
  have "resolve p = resolve p'" by (intro ext) (simp add: resolve_def assms(1) split: action.split)
  then show ?thesis by (induction rs) (simp_all add: assms(2))
qed

section \<open>Properties of the host globs\<close>

lemma glob_match_star: "glob_match g h \<longleftrightarrow>
    (\<exists>S. to_ascii_lowercase g = ''*.'' @ S \<and> (to_ascii_lowercase h = S \<or> ends_with (to_ascii_lowercase h) (''.'' @ S)))
    \<or> to_ascii_lowercase g = ''*''
    \<or> strip_prefix ''*.'' (to_ascii_lowercase g) = None \<and> to_ascii_lowercase g = to_ascii_lowercase h"
  by (auto simp: glob_match_def Let_def strip_prefix_def prefix_def split: option.split if_splits)

lemma ends_with_dot_trans:
  "ends_with x (''.'' @ b) \<Longrightarrow> ends_with b (''.'' @ a) \<Longrightarrow> ends_with x (''.'' @ a)"
  by (auto simp: ends_with_def suffix_def)

lemma glob_covers_star:
  assumes "glob_covers g i" "to_ascii_lowercase g \<noteq> ''*''" "to_ascii_lowercase g \<noteq> to_ascii_lowercase i"
  obtains S B where "to_ascii_lowercase g = ''*.'' @ S"
    and "to_ascii_lowercase i = ''*.'' @ B \<or> strip_prefix ''*.'' (to_ascii_lowercase i) = None \<and> to_ascii_lowercase i = B"
    and "B = S \<or> ends_with B (''.'' @ S)"
  using assms by (auto simp: glob_covers_def Let_def strip_prefix_Some split: option.splits)

lemma glob_covers_sound:
  assumes "glob_covers g i" and "glob_match i h" and "i \<noteq> ''*''"
  shows "glob_match g h"
proof -
  have i: "to_ascii_lowercase i \<noteq> ''*''"
    using assms(3) by (auto simp: to_ascii_lowercase_def dest: ascii_lower_eq_star)
  consider "to_ascii_lowercase g = ''*''" | "to_ascii_lowercase g = to_ascii_lowercase i"
    | "to_ascii_lowercase g \<noteq> ''*''" "to_ascii_lowercase g \<noteq> to_ascii_lowercase i" by blast
  then show ?thesis
  proof cases
    case 3
    obtain S B where g: "to_ascii_lowercase g = ''*.'' @ S"
      and b: "to_ascii_lowercase i = ''*.'' @ B \<or> strip_prefix ''*.'' (to_ascii_lowercase i) = None \<and> to_ascii_lowercase i = B"
      and s: "B = S \<or> ends_with B (''.'' @ S)"
      using glob_covers_star[OF assms(1) 3] by blast
    have "to_ascii_lowercase h = B \<or> ends_with (to_ascii_lowercase h) (''.'' @ B)"
      using b i assms(2) by (auto simp: glob_match_def Let_def strip_prefix_def)
    then have "to_ascii_lowercase h = S \<or> ends_with (to_ascii_lowercase h) (''.'' @ S)"
      using s ends_with_dot_trans by blast
    then show ?thesis using g by (auto simp: glob_match_star)
  qed (use assms(2) in \<open>simp_all add: glob_match_def Let_def strip_prefix_def\<close>)
qed

lemma shadows_sound:
  assumes "shadows e r" "''*'' \<notin> set (r_hosts r)" "rule_matches r h pa m"
  shows "rule_matches e h pa m"
  using assms glob_covers_sound
  by (fastforce simp: shadows_def rule_matches_def list_all_iff list_ex_iff)

section \<open>Properties of the shipped policy\<close>

text \<open>Where the shipped policy sends a key of each provider.\<close>

definition default_destination :: "string \<Rightarrow> string \<Rightarrow> string \<Rightarrow> string \<Rightarrow> bool" where
  "default_destination label h pa m =
     (let host = to_ascii_lowercase h in
      if label = ''anthropic'' then host = ''api.anthropic.com'' \<and> \<not> starts_with pa ''/api/event_logging''
      else if label = ''openai'' then host = ''api.openai.com''
      else if label = ''npm'' then host = ''registry.npmjs.org''
      else if label = ''github'' then
        host = ''github.com'' \<or> host = ''codeload.github.com'' \<or> host = ''githubusercontent.com''
        \<or> ends_with host ''.githubusercontent.com''
        \<or> host = ''api.github.com'' \<and> \<not> starts_with pa ''/gists''
        \<or> host = ''gist.github.com'' \<and> to_ascii_lowercase m \<in> {''get'', ''head''}
      else False)"

lemma lower_ascii_consts:
  "to_ascii_lowercase ''GET'' = ''get''" "to_ascii_lowercase ''HEAD'' = ''head''"
  by code_simp+

lemma default_hosts:
  "glob_match ''api.anthropic.com'' h \<longleftrightarrow> to_ascii_lowercase h = ''api.anthropic.com''"
  "glob_match ''statsig.anthropic.com'' h \<longleftrightarrow> to_ascii_lowercase h = ''statsig.anthropic.com''"
  "glob_match ''console.anthropic.com'' h \<longleftrightarrow> to_ascii_lowercase h = ''console.anthropic.com''"
  "glob_match ''api.openai.com'' h \<longleftrightarrow> to_ascii_lowercase h = ''api.openai.com''"
  "glob_match ''github.com'' h \<longleftrightarrow> to_ascii_lowercase h = ''github.com''"
  "glob_match ''api.github.com'' h \<longleftrightarrow> to_ascii_lowercase h = ''api.github.com''"
  "glob_match ''codeload.github.com'' h \<longleftrightarrow> to_ascii_lowercase h = ''codeload.github.com''"
  "glob_match ''gist.github.com'' h \<longleftrightarrow> to_ascii_lowercase h = ''gist.github.com''"
  "glob_match ''registry.npmjs.org'' h \<longleftrightarrow> to_ascii_lowercase h = ''registry.npmjs.org''"
  "glob_match ''pypi.org'' h \<longleftrightarrow> to_ascii_lowercase h = ''pypi.org''"
  "glob_match ''crates.io'' h \<longleftrightarrow> to_ascii_lowercase h = ''crates.io''"
  "glob_match ''static.crates.io'' h \<longleftrightarrow> to_ascii_lowercase h = ''static.crates.io''"
  "glob_match ''pastebin.com'' h \<longleftrightarrow> to_ascii_lowercase h = ''pastebin.com''"
  by (simp_all add: glob_match_def to_ascii_lowercase_def ascii_lower_def is_ascii_upper_def strip_prefix_def eq_commute)

lemma default_star_hosts:
  "glob_match ''*.githubusercontent.com'' h \<longleftrightarrow> to_ascii_lowercase h = ''githubusercontent.com''
     \<or> ends_with (to_ascii_lowercase h) ''.githubusercontent.com''"
  "glob_match ''*.pythonhosted.org'' h \<longleftrightarrow> to_ascii_lowercase h = ''pythonhosted.org''
     \<or> ends_with (to_ascii_lowercase h) ''.pythonhosted.org''"
  "glob_match ''*.ngrok.io'' h \<longleftrightarrow> to_ascii_lowercase h = ''ngrok.io''
     \<or> ends_with (to_ascii_lowercase h) ''.ngrok.io''"
  "glob_match ''*.ngrok-free.app'' h \<longleftrightarrow> to_ascii_lowercase h = ''ngrok-free.app''
     \<or> ends_with (to_ascii_lowercase h) ''.ngrok-free.app''"
  by (simp_all add: glob_match_def to_ascii_lowercase_def ascii_lower_def is_ascii_upper_def strip_prefix_def Let_def)

text \<open>A name that is not itself written as a provider label.\<close>

definition plain_name :: "secret \<Rightarrow> bool" where
  "plain_name s \<longleftrightarrow> \<not> starts_with (sec_name s) ''provider:''"

lemma lists_provider:
  assumes "plain_name s"
  shows "lists_secret [''provider:anthropic''] s \<longleftrightarrow> sec_provider s = Some ''anthropic''"
    "lists_secret [''provider:openai''] s \<longleftrightarrow> sec_provider s = Some ''openai''"
    "lists_secret [''provider:github''] s \<longleftrightarrow> sec_provider s = Some ''github''"
    "lists_secret [''provider:npm''] s \<longleftrightarrow> sec_provider s = Some ''npm''"
  using assms by (auto simp: lists_secret_def plain_name_def starts_with_def strip_prefix_def prefix_def eq_commute[of _ "sec_name s"])

lemmas default_rules_simps = default_hosts default_star_hosts rule_matches_def starts_with_def
  eq_ignore_ascii_case_def lower_ascii_consts

lemma releases_resolve:
  "releases (resolve p a n l rt) s \<longleftrightarrow>
     (effective_action p a = Allow \<or> effective_action p a = Route) \<and> lists_secret l s"
  by (simp add: releases_def resolve_action effective_action_def)

lemma releases_if: "releases (if c then x else y) s = (if c then releases x s else releases y s)"
  by simp

lemma default_policy_effective [simp]: "effective_action default_policy a = (if a = Escalate then Deny else a)"
  by (simp add: effective_action_def default_policy_def)

lemma default_provider_releases:
  assumes "plain_name s"
  shows "releases (evaluate_rules default_policy (default_provider_rules @ rs) h pa m) s \<longleftrightarrow>
     (let H = to_ascii_lowercase h in
      if H = ''api.anthropic.com'' \<and> starts_with pa ''/api/event_logging'' then False
      else if H = ''api.anthropic.com'' then sec_provider s = Some ''anthropic''
      else if H = ''statsig.anthropic.com'' then False
      else if H = ''console.anthropic.com'' \<and> starts_with pa ''/v1/oauth'' then False
      else if H = ''api.openai.com'' then sec_provider s = Some ''openai''
      else if H = ''api.github.com'' \<and> starts_with pa ''/gists'' then False
      else if H = ''github.com'' \<or> H = ''api.github.com'' \<or> H = ''codeload.github.com''
        \<or> H = ''githubusercontent.com'' \<or> ends_with H ''.githubusercontent.com'' then sec_provider s = Some ''github''
      else releases (evaluate_rules default_policy rs h pa m) s)"
  by (simp add: default_provider_rules_def releases_if releases_resolve lists_provider[OF assms]
      rule_matches_def default_hosts default_star_hosts Let_def split del: if_split cong: if_cong)

lemma default_toolchain_releases:
  assumes "plain_name s"
  shows "releases (evaluate_rules default_policy default_toolchain_rules h pa m) s \<longleftrightarrow>
     (let H = to_ascii_lowercase h in
      if H = ''registry.npmjs.org'' then sec_provider s = Some ''npm''
      else if H = ''pypi.org'' \<or> H = ''pythonhosted.org'' \<or> ends_with H ''.pythonhosted.org''
        \<or> H = ''crates.io'' \<or> H = ''static.crates.io'' then False
      else if H = ''pastebin.com'' \<or> H = ''ngrok.io'' \<or> ends_with H ''.ngrok.io''
        \<or> H = ''ngrok-free.app'' \<or> ends_with H ''.ngrok-free.app'' then False
      else if H = ''gist.github.com'' \<and> (to_ascii_lowercase m = ''get'' \<or> to_ascii_lowercase m = ''head'')
        then sec_provider s = Some ''github''
      else False)"
  by (simp add: default_toolchain_rules_def releases_if releases_resolve lists_provider[OF assms]
      rule_matches_def default_hosts default_star_hosts Let_def eq_ignore_ascii_case_def lower_ascii_consts
      eq_commute[of _ "to_ascii_lowercase m"] split del: if_split cong: if_cong)

lemma literal_suffixes:
  "\<not> ends_with ''api.anthropic.com'' ''.githubusercontent.com''"
  "\<not> ends_with ''api.openai.com'' ''.githubusercontent.com''"
  "\<not> ends_with ''statsig.anthropic.com'' ''.githubusercontent.com''"
  "\<not> ends_with ''console.anthropic.com'' ''.githubusercontent.com''"
  "\<not> ends_with ''registry.npmjs.org'' ''.githubusercontent.com''"
  "\<not> ends_with ''gist.github.com'' ''.githubusercontent.com''"
  "\<not> ends_with ''api.github.com'' ''.githubusercontent.com''"
  "\<not> ends_with ''gist.github.com'' ''.pythonhosted.org''"
  "\<not> ends_with ''gist.github.com'' ''.ngrok.io''"
  "\<not> ends_with ''gist.github.com'' ''.ngrok-free.app''"
  by (simp_all add: ends_with_def suffix_to_prefix)

lemma default_policy_releases_label:
  assumes "plain_name s" and l: "sec_provider s = Some l"
  shows "releases (evaluate default_policy h pa m) s \<longleftrightarrow> default_destination l h pa m"
proof -
  have p: "p_rules default_policy = default_provider_rules @ default_toolchain_rules"
    by (simp add: default_policy_def)
  define H where "H = to_ascii_lowercase h"
  note unf = evaluate_def p default_provider_releases[OF assms(1)] default_toolchain_releases[OF assms(1)]
      default_destination_def Let_def H_def[symmetric] l option.inject
  consider "l = ''anthropic''" | "l = ''openai''" | "l = ''npm''" | "l = ''github''"
    | "l \<noteq> ''anthropic''" "l \<noteq> ''openai''" "l \<noteq> ''npm''" "l \<noteq> ''github''" by blast
  then show ?thesis
  proof cases
    case 1 then show ?thesis unfolding unf by simp
  next
    case 2 then show ?thesis unfolding unf by (cases "H = ''api.openai.com''") simp_all
  next
    case 3 then show ?thesis unfolding unf by (cases "H = ''registry.npmjs.org''") (simp_all add: literal_suffixes)
  next
    case 4 
    consider "H = ''api.anthropic.com''" | "H = ''statsig.anthropic.com''" | "H = ''console.anthropic.com''"
      | "H = ''api.openai.com''" | "H = ''gist.github.com''" | "H = ''api.github.com''"
      | "H \<noteq> ''api.anthropic.com''" "H \<noteq> ''statsig.anthropic.com''" "H \<noteq> ''console.anthropic.com''"
        "H \<noteq> ''api.openai.com''" "H \<noteq> ''gist.github.com''" "H \<noteq> ''api.github.com''" by blast
    then show ?thesis unfolding unf using 4 by cases (simp_all add: literal_suffixes)
  next
    case 5 then show ?thesis unfolding unf by simp
  qed
qed

lemma default_policy_releases_unlabelled:
  assumes "plain_name s" and "sec_provider s = None"
  shows "\<not> releases (evaluate default_policy h pa m) s"
proof -
  have p: "p_rules default_policy = default_provider_rules @ default_toolchain_rules"
    by (simp add: default_policy_def)
  show ?thesis unfolding evaluate_def p default_provider_releases[OF assms(1)] default_toolchain_releases[OF assms(1)]
    by (simp add: assms Let_def)
qed

section \<open>Claims\<close>

text \<open>A decision releases a secret exactly when the first rule that matches the request lists the
  secret and its action, after an escalation is replaced by the fallback, is \<open>allow\<close> or
  \<open>route\<close>; the default action, and a \<open>warn\<close> or \<open>deny\<close> rule, release nothing.\<close>

theorem evaluate_releases_iff:
  "releases (evaluate p h pa m) s \<longleftrightarrow>
     (\<exists>xs r ys. p_rules p = xs @ r # ys \<and> list_all (\<lambda>x. \<not> rule_matches x h pa m) xs
        \<and> rule_matches r h pa m \<and> lists_secret (r_allow_secrets r) s
        \<and> (effective_action p (r_action r) = Allow \<or> effective_action p (r_action r) = Route))"
proof
  assume rel: "releases (evaluate p h pa m) s"
  then obtain xs r ys where "p_rules p = xs @ r # ys" "list_all (\<lambda>x. \<not> rule_matches x h pa m) xs"
    "rule_matches r h pa m" and e: "evaluate p h pa m = rule_verdict p r"
    using evaluate_split[of h pa m p] by (auto simp: releases_resolve)
  moreover from rel e have "lists_secret (r_allow_secrets r) s"
    "effective_action p (r_action r) = Allow \<or> effective_action p (r_action r) = Route"
    by (auto simp: releases_resolve rule_verdict_def)
  ultimately show "\<exists>xs r ys. p_rules p = xs @ r # ys \<and> list_all (\<lambda>x. \<not> rule_matches x h pa m) xs
        \<and> rule_matches r h pa m \<and> lists_secret (r_allow_secrets r) s
        \<and> (effective_action p (r_action r) = Allow \<or> effective_action p (r_action r) = Route)"
    by blast
next
  assume "\<exists>xs r ys. p_rules p = xs @ r # ys \<and> list_all (\<lambda>x. \<not> rule_matches x h pa m) xs
        \<and> rule_matches r h pa m \<and> lists_secret (r_allow_secrets r) s
        \<and> (effective_action p (r_action r) = Allow \<or> effective_action p (r_action r) = Route)"
  then obtain xs r ys where r: "p_rules p = xs @ r # ys" "list_all (\<lambda>x. \<not> rule_matches x h pa m) xs"
    "rule_matches r h pa m" "lists_secret (r_allow_secrets r) s"
    "effective_action p (r_action r) = Allow \<or> effective_action p (r_action r) = Route" by blast
  then have "evaluate p h pa m = rule_verdict p r"
    using pol.eval_at[of "(h, pa, m)" xs r p ys] by (simp add: evaluate_def)
  with r(4,5) show "releases (evaluate p h pa m) s" by (simp add: releases_resolve rule_verdict_def)
qed

text \<open>The decision is that of the first matching rule, or the default; its action is never
  \<open>escalate\<close>, whatever the policy file says, and the \<open>escalated\<close> mark is set exactly when the
  deciding action was \<open>escalate\<close>.\<close>

theorem evaluate_first_match:
  "evaluate p h pa m =
     (case find (\<lambda>r. rule_matches r h pa m) (p_rules p) of
        None \<Rightarrow> resolve p (p_default_action p) ''default'' [] []
      | Some r \<Rightarrow> resolve p (r_action r) (r_name r) (r_allow_secrets r) (r_route r))
   \<and> dc_action (evaluate p h pa m) \<noteq> Escalate
   \<and> (dc_escalated (evaluate p h pa m) \<longleftrightarrow>
        (case find (\<lambda>r. rule_matches r h pa m) (p_rules p) of
           None \<Rightarrow> p_default_action p = Escalate | Some r \<Rightarrow> r_action r = Escalate))"
proof -
  have "evaluate p h pa m = (case find (\<lambda>r. rule_matches r h pa m) (p_rules p) of
        None \<Rightarrow> resolve p (p_default_action p) ''default'' [] [] | Some r \<Rightarrow> rule_verdict p r)"
    using pol.eval_find[of p "p_rules p" "(h, pa, m)"] by (simp add: evaluate_def)
  then show ?thesis by (auto simp: rule_verdict_def resolve_action split: option.split)
qed

text \<open>Under the shipped policy a vault entry is released exactly at its provider's own hosts:
  an Anthropic key at \<open>api.anthropic.com\<close> outside the event log, an OpenAI key at
  \<open>api.openai.com\<close>, an npm token at the npm registry, a GitHub token at the GitHub hosts without
  the gist API and with reads of \<open>gist.github.com\<close> only; a key with no provider label nowhere.\<close>

theorem default_policy_destinations:
  assumes "plain_name s"
  shows "releases (evaluate default_policy h pa m) s \<longleftrightarrow>
     (case sec_provider s of None \<Rightarrow> False | Some l \<Rightarrow> default_destination l h pa m)"
  using default_policy_releases_label[OF assms] default_policy_releases_unlabelled[OF assms]
  by (cases "sec_provider s") auto

definition sample_secret :: secret where
  "sample_secret = \<lparr>sec_name = ''key'', sec_real = ''sk-ant-1'', sec_decoy = ''sk-ant-api03-D'', sec_env = None,
     sec_location = Any, sec_provider = Some ''anthropic''\<rparr>"

lemma sample_secret_plain: "plain_name sample_secret"
  by (simp add: plain_name_def sample_secret_def starts_with_def)

theorem default_policy_destinations_witness:
  "plain_name sample_secret
   \<and> releases (evaluate default_policy ''API.anthropic.com'' ''/v1/messages'' ''POST'') sample_secret
   \<and> \<not> releases (evaluate default_policy ''api.anthropic.com.evil.io'' ''/v1/messages'' ''POST'') sample_secret"
proof -
  have "default_destination ''anthropic'' ''API.anthropic.com'' ''/v1/messages'' ''POST''"
    "\<not> default_destination ''anthropic'' ''api.anthropic.com.evil.io'' ''/v1/messages'' ''POST''" by code_simp+
  then show ?thesis using sample_secret_plain
    by (simp add: default_policy_destinations[OF sample_secret_plain]) (simp add: sample_secret_def)
qed

text \<open>A rule the shadow lint reports, whose hosts are not the bare star, can be deleted
  without changing the decision on any request.\<close>

theorem shadowed_rule_never_wins:
  assumes "shadows e r" and "''*'' \<notin> set (r_hosts r)"
  shows "evaluate (p\<lparr>p_rules := xs @ e # ys @ r # zs\<rparr>) h pa m = evaluate (p\<lparr>p_rules := xs @ e # ys @ zs\<rparr>) h pa m"
proof -
  let ?f = "evaluate_rules (p\<lparr>p_rules := xs @ e # ys @ r # zs\<rparr>)"
  have "?f (xs @ e # ys @ r # zs) h pa m = ?f (xs @ e # ys @ zs) h pa m"
    using pol.eval_skip_shadowed[of r "(h, pa, m)" e "p\<lparr>p_rules := xs @ e # ys @ r # zs\<rparr>" xs ys zs] shadows_sound[OF assms]
    by simp
  then show ?thesis
    by (simp add: evaluate_def
      evaluate_rules_cong[of "p\<lparr>p_rules := xs @ e # ys @ zs\<rparr>" "p\<lparr>p_rules := xs @ e # ys @ r # zs\<rparr>"])
qed

definition sample_rule :: "string \<Rightarrow> string list \<Rightarrow> action \<Rightarrow> rule" where
  "sample_rule n hs a = \<lparr>r_name = n, r_hosts = hs, r_methods = [], r_path_prefixes = [], r_action = a,
     r_allow_secrets = [''provider:github''], r_route = []\<rparr>"

theorem shadowed_rule_never_wins_witness:
  "shadows (sample_rule ''wide'' [''*.github.com''] Deny) (sample_rule ''narrow'' [''api.github.com''] Allow)
   \<and> evaluate (default_policy\<lparr>p_rules := [sample_rule ''wide'' [''*.github.com''] Deny, sample_rule ''narrow'' [''api.github.com''] Allow]\<rparr>)
        ''api.github.com'' ''/user'' ''GET''
     = evaluate (default_policy\<lparr>p_rules := [sample_rule ''wide'' [''*.github.com''] Deny]\<rparr>) ''api.github.com'' ''/user'' ''GET''"
proof -
  have "shadows (sample_rule ''wide'' [''*.github.com''] Deny) (sample_rule ''narrow'' [''api.github.com''] Allow)"
    by code_simp
  moreover have "''*'' \<notin> set (r_hosts (sample_rule ''narrow'' [''api.github.com''] Allow))"
    by (simp add: sample_rule_def)
  ultimately show ?thesis
    using shadowed_rule_never_wins[where e = "sample_rule ''wide'' [''*.github.com''] Deny" and r = "sample_rule ''narrow'' [''api.github.com''] Allow"
      and xs = "[]" and ys = "[]" and zs = "[]" and p = default_policy] by simp
qed

text \<open>Parsing an action accepts exactly the five names, in any ASCII case, and inverts
  printing.\<close>

theorem action_parse_roundtrip:
  "action_parse s = Inr a \<longleftrightarrow> to_ascii_lowercase s = action_as_str a"
  by (cases a) (auto simp: action_parse_def action_as_str_def Let_def)

end
