(* ===== verification/Swap.thy ===== *)
theory Swap
  imports Policy
begin

text \<open>
  \<^verbatim>\<open>src/src/swap.rs\<close>: decoy-to-real substitution and the exfiltration tripwires. The
  request is a record; \<open>swap_apply\<close> returns it rewritten together with the outcome. The
  base64 and hex encoders are third-party code and stay parameters (\<open>codecs\<close>).
\<close>

section \<open>Data\<close>

record request_ctx =
  q_host :: string
  q_path :: string
  q_method :: string
  q_headers :: "(string \<times> string) list"
  q_body :: bytes

record swap_rec =
  sw_secret_name :: string
  sw_location :: string

datatype trip_reason = UnreleasedDestination | PlaintextTransport | WrongLocation
  | EncodedForm | BinaryBody

record tripwire =
  tw_secret_name :: string
  tw_seen_in :: string
  tw_reason :: trip_reason

record outcome =
  o_swaps :: "swap_rec list"
  o_tripwires :: "tripwire list"

text \<open>The encoders of the \<open>base64\<close> and \<open>hex\<close> crates.\<close>

record codecs =
  b64_standard :: "bytes \<Rightarrow> bytes"
  b64_standard_no_pad :: "bytes \<Rightarrow> bytes"
  b64_url_safe_no_pad :: "bytes \<Rightarrow> bytes"
  hex_lower :: "bytes \<Rightarrow> bytes"
  hex_upper :: "bytes \<Rightarrow> bytes"

definition tripped :: "outcome \<Rightarrow> bool" where
  "tripped oc \<longleftrightarrow> o_tripwires oc \<noteq> []"

definition tripwire_message :: "tripwire \<Rightarrow> string \<Rightarrow> string" where
  "tripwire_message t host =
     (case tw_reason t of
        UnreleasedDestination \<Rightarrow> ''decoy for '' @ quoted (tw_secret_name t) @ '' sent to '' @ host
          @ '', where no policy rule releases it (see `decoyrail policy show`)''
      | PlaintextTransport \<Rightarrow> ''decoy for '' @ quoted (tw_secret_name t)
          @ '' sent over plaintext HTTP; real secrets are only released over TLS. Retry with https://''
      | WrongLocation \<Rightarrow> ''decoy for '' @ quoted (tw_secret_name t) @ '' seen in '' @ tw_seen_in t
          @ '', not the location the secret rides in (see `decoyrail vault ls`)''
      | EncodedForm \<Rightarrow> ''decoy for '' @ quoted (tw_secret_name t) @ '' left ''
          @ (case strip_prefix ''encoded:'' (tw_seen_in t) of Some x \<Rightarrow> x | None \<Rightarrow> tw_seen_in t)
          @ ''-encoded; encoded credentials are never swapped''
      | BinaryBody \<Rightarrow> ''decoy for '' @ quoted (tw_secret_name t)
          @ '' embedded in a binary request body; binary bodies are never swapped'')"

section \<open>Byte search and encoded forms\<close>

text \<open>\<open>haystack.windows(n).any(|w| w == needle)\<close>.\<close>

fun any_window :: "bytes \<Rightarrow> bytes \<Rightarrow> bool" where
  "any_window [] needle = False"
| "any_window (c # cs) needle \<longleftrightarrow>
     length needle \<le> length (c # cs) \<and>
     (take (length needle) (c # cs) = needle \<or> any_window cs needle)"

definition contains_bytes :: "bytes \<Rightarrow> bytes \<Rightarrow> bool" where
  "contains_bytes haystack needle \<longleftrightarrow>
     (if needle = [] \<or> length needle > length haystack then False else any_window haystack needle)"

definition hex_digit_upper :: "nat \<Rightarrow> char" where
  "hex_digit_upper n = char_of (if n < 10 then 48 + n else 55 + n)"

definition is_unreserved :: "char \<Rightarrow> bool" where
  "is_unreserved b \<longleftrightarrow> is_ascii_alnum b \<or> b = CHR ''-'' \<or> b = CHR ''_'' \<or> b = CHR ''.'' \<or> b = CHR ''~''"

fun percent_encode :: "bytes \<Rightarrow> string" where
  "percent_encode [] = []"
| "percent_encode (b # bs) =
     (if is_unreserved b then [b]
      else [CHR ''%'', hex_digit_upper (bval b div 16), hex_digit_upper (bval b mod 16)])
     @ percent_encode bs"

definition encoded_forms :: "codecs \<Rightarrow> string \<Rightarrow> (string \<times> bytes) list" where
  "encoded_forms cx decoy =
     [(''base64'', b64_standard cx decoy), (''base64'', b64_standard_no_pad cx decoy),
      (''base64url'', b64_url_safe_no_pad cx decoy), (''hex'', hex_lower cx decoy),
      (''hex'', hex_upper cx decoy)]
     @ (if percent_encode decoy \<noteq> decoy then [(''percent'', percent_encode decoy)] else [])"

section \<open>Applying the vault to a request\<close>

text \<open>What one secret's release status decides, before any location is looked at.\<close>

definition approved :: "decision \<Rightarrow> bool \<Rightarrow> secret \<Rightarrow> bool" where
  "approved d allow_swap s \<longleftrightarrow> allow_swap \<and> releases d s"

definition quiet :: "decision \<Rightarrow> secret \<Rightarrow> bool" where
  "quiet d s \<longleftrightarrow> expects d s \<and> \<not> releases d s"

definition miss_reason :: "decision \<Rightarrow> bool \<Rightarrow> secret \<Rightarrow> trip_reason" where
  "miss_reason d allow_swap s =
     (if \<not> expects d s then UnreleasedDestination
      else if \<not> allow_swap then PlaintextTransport
      else WrongLocation)"

definition header_location_ok :: "location \<Rightarrow> string \<Rightarrow> bool" where
  "header_location_ok loc name =
     (case loc of Header h \<Rightarrow> eq_ignore_ascii_case name h
      | Bearer \<Rightarrow> eq_ignore_ascii_case name ''authorization''
      | Any \<Rightarrow> True
      | Body \<Rightarrow> False)"

definition body_location_ok :: "location \<Rightarrow> bool" where
  "body_location_ok loc \<longleftrightarrow> loc = Body \<or> loc = Any"

text \<open>The loop over the headers: each header whose value carries the decoy is rewritten,
  reported, or (a quiet secret) left alone.\<close>

fun swap_headers :: "decision \<Rightarrow> bool \<Rightarrow> secret \<Rightarrow> (string \<times> string) list
    \<Rightarrow> (string \<times> string) list \<times> outcome" where
  "swap_headers d a s [] = ([], \<lparr>o_swaps = [], o_tripwires = []\<rparr>)"
| "swap_headers d a s ((name, val) # hs) =
     (let (hs', oc) = swap_headers d a s hs in
      if \<not> str_contains val (sec_decoy s) then ((name, val) # hs', oc)
      else if approved d a s \<and> header_location_ok (sec_location s) name then
        ((name, str_replace (sec_decoy s) (sec_real s) val) # hs',
         oc\<lparr>o_swaps := \<lparr>sw_secret_name = sec_name s,
              sw_location = ''header:'' @ to_ascii_lowercase name\<rparr> # o_swaps oc\<rparr>)
      else if \<not> quiet d s then
        ((name, val) # hs',
         oc\<lparr>o_tripwires := \<lparr>tw_secret_name = sec_name s,
              tw_seen_in = ''header:'' @ to_ascii_lowercase name,
              tw_reason = miss_reason d a s\<rparr> # o_tripwires oc\<rparr>)
      else ((name, val) # hs', oc))"

definition scan_path :: "decision \<Rightarrow> bool \<Rightarrow> secret \<Rightarrow> string \<Rightarrow> tripwire list" where
  "scan_path d a s path =
     (if str_contains path (sec_decoy s)
      then [\<lparr>tw_secret_name = sec_name s, tw_seen_in = ''path'', tw_reason = miss_reason d a s\<rparr>]
      else [])"

definition swap_body :: "decision \<Rightarrow> bool \<Rightarrow> secret \<Rightarrow> bytes \<Rightarrow> bytes \<times> outcome" where
  "swap_body d a s body =
     (if body = [] then (body, \<lparr>o_swaps = [], o_tripwires = []\<rparr>)
      else if utf8_valid body \<and> str_contains body (sec_decoy s) then
        (if approved d a s \<and> body_location_ok (sec_location s) then
           (str_replace (sec_decoy s) (sec_real s) body,
            \<lparr>o_swaps = [\<lparr>sw_secret_name = sec_name s, sw_location = ''body''\<rparr>], o_tripwires = []\<rparr>)
         else if \<not> quiet d s then
           (body, \<lparr>o_swaps = [], o_tripwires = [\<lparr>tw_secret_name = sec_name s, tw_seen_in = ''body'',
              tw_reason = miss_reason d a s\<rparr>]\<rparr>)
         else (body, \<lparr>o_swaps = [], o_tripwires = []\<rparr>))
      else if contains_bytes body (sec_decoy s) then
        (body, \<lparr>o_swaps = [], o_tripwires = [\<lparr>tw_secret_name = sec_name s, tw_seen_in = ''body:raw'',
           tw_reason = BinaryBody\<rparr>]\<rparr>)
      else (body, \<lparr>o_swaps = [], o_tripwires = []\<rparr>))"

definition encoded_sighting :: "request_ctx \<Rightarrow> bytes \<Rightarrow> bool" where
  "encoded_sighting q needle \<longleftrightarrow>
     list_ex (\<lambda>(_, v). contains_bytes v needle) (q_headers q)
     \<or> contains_bytes (q_body q) needle \<or> contains_bytes (q_path q) needle"

definition scan_encoded_forms :: "codecs \<Rightarrow> secret \<Rightarrow> request_ctx \<Rightarrow> tripwire list" where
  "scan_encoded_forms cx s q =
     map (\<lambda>(label, _). \<lparr>tw_secret_name = sec_name s, tw_seen_in = ''encoded:'' @ label,
            tw_reason = EncodedForm\<rparr>)
       (filter (\<lambda>(_, needle). encoded_sighting q needle) (encoded_forms cx (sec_decoy s)))"

text \<open>One iteration of the loop over the vault's secrets: headers, path, body, encoded forms.\<close>

definition swap_secret :: "codecs \<Rightarrow> decision \<Rightarrow> bool \<Rightarrow> secret \<Rightarrow> request_ctx \<Rightarrow> request_ctx \<times> outcome" where
  "swap_secret cx d a s q =
     (let (hs, oh) = swap_headers d a s (q_headers q);
          tp = scan_path d a s (q_path q);
          (b, ob) = swap_body d a s (q_body q);
          q' = q\<lparr>q_headers := hs, q_body := b\<rparr>;
          te = scan_encoded_forms cx s q'
      in (q', \<lparr>o_swaps = o_swaps oh @ o_swaps ob,
               o_tripwires = o_tripwires oh @ tp @ o_tripwires ob @ te\<rparr>))"

fun swap_all :: "codecs \<Rightarrow> decision \<Rightarrow> bool \<Rightarrow> secret list \<Rightarrow> request_ctx \<Rightarrow> request_ctx \<times> outcome" where
  "swap_all cx d a [] q = (q, \<lparr>o_swaps = [], o_tripwires = []\<rparr>)"
| "swap_all cx d a (s # ss) q =
     (let (q1, o1) = swap_secret cx d a s q; (q2, o2) = swap_all cx d a ss q1
      in (q2, \<lparr>o_swaps = o_swaps o1 @ o_swaps o2, o_tripwires = o_tripwires o1 @ o_tripwires o2\<rparr>))"

definition swap_apply :: "codecs \<Rightarrow> request_ctx \<Rightarrow> vault \<Rightarrow> decision \<Rightarrow> bool \<Rightarrow> request_ctx \<times> outcome" where
  "swap_apply cx q v d allow_swap = swap_all cx d allow_swap (secrets v) q"

definition scan_response_for_real :: "bytes \<Rightarrow> vault \<Rightarrow> string list" where
  "scan_response_for_real body v =
     (if utf8_valid body
      then map sec_name (filter (\<lambda>s. sec_real s \<noteq> [] \<and> str_contains body (sec_real s)) (secrets v))
      else [])"

section \<open>Byte search\<close>

lemma prefix_take_iff: "prefix p xs \<longleftrightarrow> length p \<le> length xs \<and> take (length p) xs = p"
  by (metis append_eq_conv_conj append_take_drop_id prefix_def prefix_length_le)

lemma any_window_iff: "needle \<noteq> [] \<Longrightarrow> any_window hay needle \<longleftrightarrow> sublist needle hay"
  by (induction hay) (auto simp: sublist_Cons_right prefix_take_iff dest: sublist_length_le)

lemma contains_bytes_iff: "contains_bytes hay needle \<longleftrightarrow> needle \<noteq> [] \<and> sublist needle hay"
  by (auto simp: contains_bytes_def any_window_iff dest: sublist_length_le)

lemma contains_bytes_str: "contains_bytes hay needle \<longleftrightarrow> needle \<noteq> [] \<and> str_contains hay needle"
  by (simp add: contains_bytes_iff str_contains_iff_sublist)

section \<open>What the swap leaves alone\<close>

lemma swap_headers_names: "map fst (fst (swap_headers d a s hs)) = map fst hs"
  by (induction d a s hs rule: swap_headers.induct) (auto simp: Let_def split: prod.splits)

lemma swap_headers_blocked:
  "\<not> approved d a s \<Longrightarrow> fst (swap_headers d a s hs) = hs \<and> o_swaps (snd (swap_headers d a s hs)) = []"
  by (induction d a s hs rule: swap_headers.induct) (auto simp: Let_def split: prod.splits)

lemma swap_headers_spec:
  "fst (swap_headers d a s hs) =
     map (\<lambda>(n, v). (n, if approved d a s \<and> header_location_ok (sec_location s) n
                        then str_replace (sec_decoy s) (sec_real s) v else v)) hs"
  by (induction d a s hs rule: swap_headers.induct)
    (auto simp: Let_def str_replace_absent split: prod.splits)

lemma swap_body_spec:
  "fst (swap_body d a s b) =
     (if approved d a s \<and> body_location_ok (sec_location s) \<and> b \<noteq> [] \<and> utf8_valid b
      then str_replace (sec_decoy s) (sec_real s) b else b)"
  by (auto simp: swap_body_def str_replace_absent)

lemma swap_body_blocked:
  "\<not> approved d a s \<Longrightarrow> fst (swap_body d a s b) = b \<and> o_swaps (snd (swap_body d a s b)) = []"
  by (auto simp: swap_body_def)

lemma swap_secret_frame [keep_simps]:
  "q_host (fst (swap_secret cx d a s q)) = q_host q" "q_path (fst (swap_secret cx d a s q)) = q_path q"
  "q_method (fst (swap_secret cx d a s q)) = q_method q"
  "map fst (q_headers (fst (swap_secret cx d a s q))) = map fst (q_headers q)"
  using swap_headers_names[of d a s "q_headers q"]
  by (auto simp: swap_secret_def Let_def split: prod.splits)

lemma swap_secret_blocked:
  "\<not> approved d a s \<Longrightarrow> fst (swap_secret cx d a s q) = q \<and> o_swaps (snd (swap_secret cx d a s q)) = []"
  using swap_headers_blocked[of d a s "q_headers q"] swap_body_blocked[of d a s "q_body q"]
  by (auto simp: swap_secret_def Let_def split: prod.splits)

lemma swap_all_Cons:
  "fst (swap_all cx d a (s # ss) q) = fst (swap_all cx d a ss (fst (swap_secret cx d a s q)))"
  "o_swaps (snd (swap_all cx d a (s # ss) q)) =
     o_swaps (snd (swap_secret cx d a s q)) @ o_swaps (snd (swap_all cx d a ss (fst (swap_secret cx d a s q))))"
  "o_tripwires (snd (swap_all cx d a (s # ss) q)) =
     o_tripwires (snd (swap_secret cx d a s q)) @ o_tripwires (snd (swap_all cx d a ss (fst (swap_secret cx d a s q))))"
  by (simp_all add: Let_def split_beta)

lemma swap_all_append:
  "fst (swap_all cx d a (ss @ ts) q) = fst (swap_all cx d a ts (fst (swap_all cx d a ss q)))"
  "o_tripwires (snd (swap_all cx d a (ss @ ts) q)) =
     o_tripwires (snd (swap_all cx d a ss q)) @ o_tripwires (snd (swap_all cx d a ts (fst (swap_all cx d a ss q))))"
  by (induction ss arbitrary: q) (simp_all add: swap_all_Cons del: swap_all.simps(2))

lemma swap_all_frame [keep_simps]:
  "q_host (fst (swap_all cx d a ss q)) = q_host q" "q_path (fst (swap_all cx d a ss q)) = q_path q"
  "q_method (fst (swap_all cx d a ss q)) = q_method q"
  "map fst (q_headers (fst (swap_all cx d a ss q))) = map fst (q_headers q)"
  by (induction ss arbitrary: q) (simp_all add: swap_all_Cons keep_simps del: swap_all.simps(2))

lemma swap_all_unapproved:
  "fst (swap_all cx d a ss q) = fst (swap_all cx d a (filter (approved d a) ss) q)"
  by (induction ss arbitrary: q) (simp_all add: swap_all_Cons swap_secret_blocked del: swap_all.simps(2))

section \<open>Swaps are released\<close>

lemma swap_headers_swaps:
  "list_all (\<lambda>w. sw_secret_name w = sec_name s \<and> approved d a s) (o_swaps (snd (swap_headers d a s hs)))"
  by (induction d a s hs rule: swap_headers.induct) (auto simp: Let_def split: prod.splits)

lemma swap_secret_swaps:
  "list_all (\<lambda>w. sw_secret_name w = sec_name s \<and> approved d a s) (o_swaps (snd (swap_secret cx d a s q)))"
  using swap_headers_swaps[of s d a "q_headers q"]
  by (auto simp: swap_secret_def swap_body_def Let_def split: prod.splits)

lemma swap_all_swaps:
  "list_all (\<lambda>w. \<exists>s \<in> set ss. sw_secret_name w = sec_name s \<and> approved d a s) (o_swaps (snd (swap_all cx d a ss q)))"
proof (induction ss arbitrary: q)
  case (Cons s ss)
  have "list_all (\<lambda>w. \<exists>s \<in> set (s # ss). sw_secret_name w = sec_name s \<and> approved d a s)
      (o_swaps (snd (swap_secret cx d a s q)))"
    using swap_secret_swaps[of s d a cx q] by (auto simp: list_all_iff)
  moreover have "list_all (\<lambda>w. \<exists>s \<in> set (s # ss). sw_secret_name w = sec_name s \<and> approved d a s)
      (o_swaps (snd (swap_all cx d a ss (fst (swap_secret cx d a s q)))))"
    using Cons[of "fst (swap_secret cx d a s q)"] by (auto simp: list_all_iff)
  ultimately show ?case by (simp add: swap_all_Cons del: swap_all.simps(2))
qed simp


section \<open>The rewriting specification\<close>

text \<open>What the swap may do to a request on account of one secret: replace its decoy by its real
  value in the header values of its own location and in a UTF-8 body, nothing else.\<close>

definition rewrite_for :: "decision \<Rightarrow> bool \<Rightarrow> secret \<Rightarrow> request_ctx \<Rightarrow> request_ctx" where
  "rewrite_for d a s q =
     (if approved d a s then
        q\<lparr>q_headers := map (\<lambda>(n, v). (n, if header_location_ok (sec_location s) n
             then str_replace (sec_decoy s) (sec_real s) v else v)) (q_headers q),
          q_body := (if body_location_ok (sec_location s) \<and> q_body q \<noteq> [] \<and> utf8_valid (q_body q)
             then str_replace (sec_decoy s) (sec_real s) (q_body q) else q_body q)\<rparr>
      else q)"

lemma swap_secret_rewrite: "fst (swap_secret cx d a s q) = rewrite_for d a s q"
proof (cases "approved d a s")
  case True
  then show ?thesis
    using swap_headers_spec[of d a s "q_headers q"] swap_body_spec[of d a s "q_body q"]
    by (auto simp: swap_secret_def rewrite_for_def Let_def split: prod.splits)
qed (simp add: swap_secret_blocked rewrite_for_def)

lemma swap_all_rewrite: "fst (swap_all cx d a ss q) = fold (rewrite_for d a) ss q"
  by (induction ss arbitrary: q) (simp_all add: swap_all_Cons swap_secret_rewrite del: swap_all.simps(2))

section \<open>Tripwires\<close>

lemma swap_headers_trips:
  assumes "\<not> approved d a s" "\<not> quiet d s" "(n, v) \<in> set hs" "str_contains v (sec_decoy s)"
  shows "o_tripwires (snd (swap_headers d a s hs)) \<noteq> []"
  using assms by (induction d a s hs rule: swap_headers.induct) (auto simp: Let_def split: prod.splits)

lemma swap_body_trips:
  assumes "\<not> approved d a s" "\<not> quiet d s" "sec_decoy s \<noteq> []" "str_contains b (sec_decoy s)"
  shows "o_tripwires (snd (swap_body d a s b)) \<noteq> []"
  using assms by (cases b) (auto simp: swap_body_def contains_bytes_str)

text \<open>A literal copy of the decoy in a header value, the path or the body.\<close>

definition sighted :: "request_ctx \<Rightarrow> string \<Rightarrow> bool" where
  "sighted q x \<longleftrightarrow> list_ex (\<lambda>(_, v). str_contains v x) (q_headers q) \<or> str_contains (q_path q) x
     \<or> str_contains (q_body q) x"

lemma swap_secret_trips:
  assumes "\<not> approved d a s" "\<not> quiet d s" "sec_decoy s \<noteq> []" "sighted q (sec_decoy s)"
  shows "o_tripwires (snd (swap_secret cx d a s q)) \<noteq> []"
  using assms swap_headers_trips[OF assms(1,2)] swap_body_trips[OF assms(1-3), of "q_body q"]
  by (fastforce simp: sighted_def swap_secret_def scan_path_def list_ex_iff Let_def split: prod.splits)

lemma swap_secret_trips_path:
  "str_contains (q_path q) (sec_decoy s) \<Longrightarrow> o_tripwires (snd (swap_secret cx d a s q)) \<noteq> []"
  by (simp add: swap_secret_def scan_path_def Let_def split_beta)

lemma swap_secret_trips_encoded:
  assumes "(label, needle) \<in> set (encoded_forms cx (sec_decoy s))" "encoded_sighting (rewrite_for d a s q) needle"
  shows "o_tripwires (snd (swap_secret cx d a s q)) \<noteq> []"
proof -
  have "scan_encoded_forms cx s (rewrite_for d a s q) \<noteq> []"
    using assms by (auto simp: scan_encoded_forms_def filter_empty_conv)
  then show ?thesis
    unfolding swap_secret_rewrite[of cx, symmetric] by (auto simp: swap_secret_def Let_def split: prod.splits)
qed

lemma swap_all_trips:
  assumes "o_tripwires (snd (swap_secret cx d a s (fold (rewrite_for d a) ss q))) \<noteq> []"
  shows "tripped (snd (swap_all cx d a (ss @ s # ts) q))"
  using assms by (simp add: tripped_def swap_all_append swap_all_Cons swap_all_rewrite del: swap_all.simps(2))

lemma fold_rewrite_unapproved: "list_all (\<lambda>s. \<not> approved d a s) ss \<Longrightarrow> fold (rewrite_for d a) ss q = q"
  by (induction ss) (auto simp: rewrite_for_def)

lemma fold_rewrite_path [simp]: "q_path (fold (rewrite_for d a) ss q) = q_path q"
  using swap_all_frame(2)[of undefined d a ss q] by (simp add: swap_all_rewrite)


section \<open>The release contract\<close>

text \<open>What the swap relies on of a policy decision: a released secret is an expected one. So a
  sighting is of exactly one of three kinds.\<close>

locale release_gate =
  fixes rel :: "secret \<Rightarrow> bool" and expd :: "secret \<Rightarrow> bool"
  assumes released_expected: "rel s \<Longrightarrow> expd s"
begin

lemma loud_expected: "\<not> (expd s \<and> \<not> rel s) \<Longrightarrow> expd s \<longleftrightarrow> rel s"
  using released_expected by blast

lemma gate_cases:
  obtains "rel s" "expd s" | "expd s" "\<not> rel s" | "\<not> expd s" "\<not> rel s"
  using released_expected by blast

end

interpretation dec: release_gate "releases d" "expects d" for d
  by unfold_locales (simp add: releases_def expects_def)

text \<open>When a tripwire's stated reason is true of the secret, the decision and the transport.\<close>

definition reason_true :: "decision \<Rightarrow> bool \<Rightarrow> secret \<Rightarrow> tripwire \<Rightarrow> bool" where
  "reason_true d a s t \<longleftrightarrow> tw_secret_name t = sec_name s \<and>
     (case tw_reason t of
        UnreleasedDestination \<Rightarrow> \<not> expects d s
      | PlaintextTransport \<Rightarrow> expects d s \<and> \<not> a
      | WrongLocation \<Rightarrow> expects d s \<and> a \<and> (releases d s \<or> tw_seen_in t = ''path'')
      | EncodedForm \<Rightarrow> starts_with (tw_seen_in t) ''encoded:''
      | BinaryBody \<Rightarrow> tw_seen_in t = ''body:raw'')"

lemma miss_reason_true:
  assumes "\<not> quiet d s \<or> loc = ''path''"
  shows "reason_true d a s \<lparr>tw_secret_name = sec_name s, tw_seen_in = loc, tw_reason = miss_reason d a s\<rparr>"
  using assms dec.loud_expected[of d s] by (auto simp: reason_true_def miss_reason_def quiet_def)

lemma swap_headers_reasons: "list_all (reason_true d a s) (o_tripwires (snd (swap_headers d a s hs)))"
  by (induction d a s hs rule: swap_headers.induct) (auto simp: Let_def miss_reason_true split: prod.splits)

lemma swap_secret_reasons: "list_all (reason_true d a s) (o_tripwires (snd (swap_secret cx d a s q)))"
proof -
  have "list_all (reason_true d a s) (scan_path d a s (q_path q))"
    by (simp add: scan_path_def miss_reason_true)
  moreover have "list_all (reason_true d a s) (o_tripwires (snd (swap_body d a s (q_body q))))"
    by (auto simp: swap_body_def miss_reason_true) (simp add: reason_true_def)+
  moreover have "list_all (reason_true d a s) (scan_encoded_forms cx s q')" for q'
    by (auto simp: scan_encoded_forms_def reason_true_def list_all_iff starts_with_def)
  ultimately show ?thesis using swap_headers_reasons[of d a s "q_headers q"]
    by (simp add: swap_secret_def Let_def split_beta)
qed

lemma swap_all_reasons:
  "list_all (\<lambda>t. list_ex (\<lambda>s. reason_true d a s t) ss) (o_tripwires (snd (swap_all cx d a ss q)))"
proof (induction ss arbitrary: q)
  case (Cons s ss)
  show ?case
    using swap_secret_reasons[of d a s cx q] Cons[of "fst (swap_secret cx d a s q)"]
    by (auto simp: swap_all_Cons list_all_iff list_ex_iff simp del: swap_all.simps(2))
qed simp

section \<open>Claims\<close>

text \<open>A secret that changes the request leaves a record: without the unrecorded ones the request is the same.\<close>

lemma swap_headers_unrecorded: "o_swaps (snd (swap_headers d a s hs)) = [] \<Longrightarrow> fst (swap_headers d a s hs) = hs"
  by (induction d a s hs rule: swap_headers.induct) (auto simp: Let_def split: prod.splits if_splits)

lemma swap_secret_unrecorded: "o_swaps (snd (swap_secret cx d a s q)) = [] \<Longrightarrow> fst (swap_secret cx d a s q) = q"
  using swap_headers_unrecorded[of d a s "q_headers q"]
  by (auto simp: swap_secret_def swap_body_def Let_def split: prod.splits if_splits)

lemma swap_all_recorded:
  assumes "\<And>w s. w \<in> set (o_swaps (snd (swap_all cx d a ss q))) \<Longrightarrow> sec_name s = sw_secret_name w \<Longrightarrow> P s"
  shows "fst (swap_all cx d a ss q) = fst (swap_all cx d a (filter P ss) q)"
  using assms
proof (induction ss arbitrary: q)
  case (Cons s ss)
  let ?q = "fst (swap_secret cx d a s q)"
  have ih: "fst (swap_all cx d a ss ?q) = fst (swap_all cx d a (filter P ss) ?q)"
    by (rule Cons.IH, rule Cons.prems) (simp_all add: swap_all_Cons del: swap_all.simps(2))
  show ?case
  proof (cases "P s")
    case True
    then show ?thesis using ih by (simp add: swap_all_Cons del: swap_all.simps(2))
  next
    case False
    have "w \<notin> set (o_swaps (snd (swap_secret cx d a s q)))" for w
      using swap_secret_swaps[of s d a cx q] Cons.prems[of w s] False
      by (auto simp: swap_all_Cons list_all_iff simp del: swap_all.simps(2))
    then have "o_swaps (snd (swap_secret cx d a s q)) = []" by (metis list.set_intros(1) neq_Nil_conv)
    then show ?thesis using ih False swap_secret_unrecorded by (simp add: swap_all_Cons del: swap_all.simps(2))
  qed
qed simp

lemma swap_apply_recorded:
  assumes "\<And>w s. w \<in> set (o_swaps (snd (swap_apply cx q v d a))) \<Longrightarrow> sec_name s = sw_secret_name w \<Longrightarrow> P s"
  shows "fst (swap_apply cx q v d a) = fst (swap_apply cx q \<lparr>secrets = filter P (secrets v)\<rparr> d a)"
  unfolding swap_apply_def vault.select_convs by (rule swap_all_recorded) (use assms in \<open>simp add: swap_apply_def\<close>)

text \<open>What it is to place one secret: its decoy gives way to its value in the places its location names.\<close>

definition place :: "secret \<Rightarrow> request_ctx \<Rightarrow> request_ctx" where
  "place s q = q\<lparr>q_headers := map (\<lambda>(n, v). (n,
       if (case sec_location s of Any \<Rightarrow> True | Body \<Rightarrow> False
           | Bearer \<Rightarrow> to_ascii_lowercase n = ''authorization'' | Header h \<Rightarrow> to_ascii_lowercase n = to_ascii_lowercase h)
       then str_replace (sec_decoy s) (sec_real s) v else v)) (q_headers q),
     q_body := (if (sec_location s = Body \<or> sec_location s = Any) \<and> q_body q \<noteq> [] \<and> utf8_valid (q_body q)
       then str_replace (sec_decoy s) (sec_real s) (q_body q) else q_body q)\<rparr>"

lemma rewrite_place: "rewrite_for d a s q = (if a \<and> releases d s then place s q else q)"
proof -
  have h: "header_location_ok (sec_location s) n = (case sec_location s of Any \<Rightarrow> True | Body \<Rightarrow> False
           | Bearer \<Rightarrow> to_ascii_lowercase n = ''authorization'' | Header h \<Rightarrow> to_ascii_lowercase n = to_ascii_lowercase h)" for n
  proof -
    have "to_ascii_lowercase ''authorization'' = ''authorization''" by code_simp
    then show ?thesis by (simp add: header_location_ok_def eq_ignore_ascii_case_def split: location.split)
  qed
  show ?thesis by (simp add: rewrite_for_def place_def approved_def h body_location_ok_def)
qed

lemma fold_rewrite_place: "fold (rewrite_for d a) ss q = fold place (filter (\<lambda>s. a \<and> releases d s) ss) q"
  by (induction ss arbitrary: q) (simp_all add: rewrite_place)

text \<open>C35: the swap as a whole. Over TLS it places, in vault order, exactly the secrets that the decision releases: in the headers
  and the body for a secret that may ride anywhere, in the named header or \<open>Authorization\<close>, or in the body alone, and in a body only if it is
  text; over plaintext it places none, and host, method and path stay as they were. Its record is honest: every recorded
  swap is of such a secret, and the recorded secrets alone give the same request.\<close>

theorem swap_apply_refines:
  "fst (swap_apply cx q v d a) = fold place (filter (\<lambda>s. a \<and> releases d s) (secrets v)) q
   \<and> q_host (fst (swap_apply cx q v d a)) = q_host q \<and> q_method (fst (swap_apply cx q v d a)) = q_method q
   \<and> q_path (fst (swap_apply cx q v d a)) = q_path q
   \<and> list_all (\<lambda>x. list_ex (\<lambda>s. sec_name s = sw_secret_name x \<and> a \<and> releases d s) (secrets v)) (o_swaps (snd (swap_apply cx q v d a)))
   \<and> fst (swap_apply cx q v d a) = fold place (filter (\<lambda>s. a \<and> releases d s
        \<and> list_ex (\<lambda>x. sw_secret_name x = sec_name s) (o_swaps (snd (swap_apply cx q v d a)))) (secrets v)) q"
proof -
  let ?P = "\<lambda>s. list_ex (\<lambda>x. sw_secret_name x = sec_name s) (o_swaps (snd (swap_apply cx q v d a)))"
  have all: "fst (swap_apply cx q u d a) = fold place (filter (\<lambda>s. a \<and> releases d s) (secrets u)) q" for u
    by (simp add: swap_apply_def swap_all_rewrite fold_rewrite_place)
  have "fst (swap_apply cx q v d a) = fst (swap_apply cx q \<lparr>secrets = filter ?P (secrets v)\<rparr> d a)"
    by (rule swap_apply_recorded) (auto simp: list_ex_iff)
  then have "fst (swap_apply cx q v d a) = fold place (filter (\<lambda>s. a \<and> releases d s \<and> ?P s) (secrets v)) q"
    by (simp add: all conj_ac)
  moreover have "list_all (\<lambda>x. list_ex (\<lambda>s. sec_name s = sw_secret_name x \<and> a \<and> releases d s) (secrets v)) (o_swaps (snd (swap_apply cx q v d a)))"
    using swap_all_swaps[of "secrets v" d a cx q]
    by (fastforce simp: swap_apply_def list_all_iff list_ex_iff approved_def)
  moreover have "q_host (fst (swap_apply cx q v d a)) = q_host q \<and> q_method (fst (swap_apply cx q v d a)) = q_method q
     \<and> q_path (fst (swap_apply cx q v d a)) = q_path q" by (simp add: swap_apply_def keep_simps)
  ultimately show ?thesis using all[of v] by blast
qed

text \<open>C6: the tripwire misses nothing. When a secret's turn comes and its decoy stands literally in
  a header value, the path or the body, the request trips unless the secret is released over this
  transport or is listed by a rule that does not release it.\<close>

theorem tripwire_complete:
  assumes "secrets v = ss @ s # ts" and "sec_decoy s \<noteq> []"
    and "\<not> (a \<and> releases d s)" and "releases d s \<or> \<not> expects d s"
    and "sighted (fold (rewrite_for d a) ss q) (sec_decoy s)"
  shows "tripped (snd (swap_apply cx q v d a))"
  unfolding swap_apply_def assms(1)
  by (rule swap_all_trips, rule swap_secret_trips) (use assms(2-5) in \<open>auto simp: approved_def quiet_def\<close>)

text \<open>A request that posts the sample key's decoy to a host that no rule of the shipped policy names. The
  encoders are stand-ins: hex is the real one, the base64 variants are written as hex too.\<close>

definition demo_codecs :: codecs where
  "demo_codecs = (let hx = hex_encode demo_crypto in \<lparr>b64_standard = hx, b64_standard_no_pad = hx,
     b64_url_safe_no_pad = hx, hex_lower = hx, hex_upper = (\<lambda>x. to_ascii_uppercase (hx x))\<rparr>)"

definition sample_leak :: "string \<Rightarrow> bytes \<Rightarrow> request_ctx" where
  "sample_leak path body = \<lparr>q_host = ''paste.example'', q_path = path, q_method = ''POST'', q_headers = [], q_body = body\<rparr>"

abbreviation sample_vault :: vault where
  "sample_vault \<equiv> \<lparr>secrets = [sample_secret]\<rparr>"

abbreviation leak_decision :: decision where
  "leak_decision \<equiv> resolve default_policy Deny ''default'' [] []"

theorem tripwire_complete_witness:
  "\<not> releases leak_decision sample_secret
   \<and> tripped (snd (swap_apply demo_codecs (sample_leak ''/api'' ''k=sk-ant-api03-D'') sample_vault leak_decision True))"
proof -
  have "\<not> releases leak_decision sample_secret" "\<not> expects leak_decision sample_secret"
    "sighted (sample_leak ''/api'' ''k=sk-ant-api03-D'') (sec_decoy sample_secret)" "sec_decoy sample_secret \<noteq> []" by code_simp+
  then show ?thesis
    using tripwire_complete[of sample_vault "[]" sample_secret "[]" True leak_decision "sample_leak ''/api'' ''k=sk-ant-api03-D''" demo_codecs]
    by simp
qed

text \<open>A decoy in the path trips under every decision and transport, released or not; so does
  any of its encoded forms that is in the request once the secret's own turn is over.\<close>

theorem tripwire_path_encoded:
  assumes "secrets v = ss @ s # ts"
    and "str_contains (q_path q) (sec_decoy s) \<or>
      list_ex (\<lambda>(label, needle). encoded_sighting (fold (rewrite_for d a) (ss @ [s]) q) needle) (encoded_forms cx (sec_decoy s))"
  shows "tripped (snd (swap_apply cx q v d a))"
  using assms(2)
proof
  assume "str_contains (q_path q) (sec_decoy s)"
  then show ?thesis using swap_all_trips[OF swap_secret_trips_path] by (simp add: swap_apply_def assms(1))
next
  assume "list_ex (\<lambda>(label, needle). encoded_sighting (fold (rewrite_for d a) (ss @ [s]) q) needle) (encoded_forms cx (sec_decoy s))"
  then obtain label needle where "(label, needle) \<in> set (encoded_forms cx (sec_decoy s))"
    "encoded_sighting (rewrite_for d a s (fold (rewrite_for d a) ss q)) needle" by (auto simp: list_ex_iff)
  then show ?thesis using swap_all_trips[OF swap_secret_trips_encoded] by (simp add: swap_apply_def assms(1))
qed

theorem tripwire_path_encoded_witness:
  "str_contains ''/x?k=sk-ant-api03-D'' (sec_decoy sample_secret)
   \<and> tripped (snd (swap_apply demo_codecs (sample_leak ''/x?k=sk-ant-api03-D'' []) sample_vault leak_decision True))"
proof -
  have "str_contains ''/x?k=sk-ant-api03-D'' (sec_decoy sample_secret)" by code_simp
  then show ?thesis
    using tripwire_path_encoded[of sample_vault "[]" sample_secret "[]" "sample_leak ''/x?k=sk-ant-api03-D'' []"
      leak_decision True demo_codecs] by (simp add: sample_leak_def)
qed

text \<open>Every tripwire names a secret of the vault and states a true reason: an unreleased
  destination only for a secret the rule does not list, plaintext only for a listed one sent without
  TLS, a wrong location only for a listed one over TLS that is released or stands in the path.\<close>

theorem tripwire_reasons_true:
  "list_all (\<lambda>t. list_ex (\<lambda>s. reason_true d a s t) (secrets v)) (o_tripwires (snd (swap_apply cx q v d a)))"
  by (simp add: swap_apply_def swap_all_reasons)

end
