(* ===== verification/Detect.thy ===== *)
theory Detect
  imports Swap "HOL-Library.Product_Lexorder"
begin

text \<open>
  \<^verbatim>\<open>src/src/detect.rs\<close>: the request-side detectors for cards, SSNs, IBANs, routing
  numbers and e-mail addresses, the one-level scan of encoded windows under a decode budget,
  and the application to a request with mask mode. Positions are byte offsets; each
  \<open>while\<close> loop is a recursion on the index with its measure. The decoders of the
  \<open>hex\<close> and \<open>base64\<close> crates are the parameter \<open>decoders\<close>.
\<close>

section \<open>Data\<close>

definition FP_LEN :: nat where "FP_LEN = 16"
definition MIN_B64_RUN :: nat where "MIN_B64_RUN = 20"
definition MIN_HEX_RUN :: nat where "MIN_HEX_RUN = 26"
definition DECODE_BUDGET :: nat where "DECODE_BUDGET = 256 * 1024"

datatype detector = Pan | Ssn | Iban | Aba | Email

definition ALL_DETECTORS :: "detector list" where
  "ALL_DETECTORS = [Pan, Ssn, Iban, Aba, Email]"

definition detector_name :: "detector \<Rightarrow> string" where
  "detector_name d = (case d of Pan \<Rightarrow> ''pan'' | Ssn \<Rightarrow> ''ssn'' | Iban \<Rightarrow> ''iban'' | Aba \<Rightarrow> ''aba''
     | Email \<Rightarrow> ''email'')"

definition mode_for :: "dlp_config \<Rightarrow> detector \<Rightarrow> dlp_mode" where
  "mode_for cfg d = (case d of Pan \<Rightarrow> d_pan cfg | Ssn \<Rightarrow> d_ssn cfg | Iban \<Rightarrow> d_iban cfg
     | Aba \<Rightarrow> d_aba cfg | Email \<Rightarrow> d_email cfg)"

record hit =
  h_detector :: string
  h_seen_in :: string
  h_offset :: nat
  h_fingerprint :: string
  h_mode :: dlp_mode
  h_context :: "string option"

record dlp_outcome =
  hits :: "hit list"
  truncated :: bool

definition has_blocking :: "dlp_outcome \<Rightarrow> bool" where
  "has_blocking oc \<longleftrightarrow> list_ex (\<lambda>h. h_mode h = DlpBlock) (hits oc)"

definition has_advisory :: "dlp_outcome \<Rightarrow> bool" where
  "has_advisory oc \<longleftrightarrow> list_ex (\<lambda>h. h_mode h = DlpWarn \<or> h_mode h = DlpMask) (hits oc)"

definition blocking :: "dlp_outcome \<Rightarrow> hit list" where
  "blocking oc = filter (\<lambda>h. h_mode h = DlpBlock) (hits oc)"

definition dlp_summary :: "dlp_outcome \<Rightarrow> string" where
  "dlp_summary oc = join '', ''
     (map (\<lambda>h. (case h_mode h of DlpBlock \<Rightarrow> ''blocked'' | DlpMask \<Rightarrow> ''masked'' | DlpWarn \<Rightarrow> ''warned''
              | DlpOff \<Rightarrow> ''off'')
            @ '' '' @ h_detector h @ ''@'' @ h_seen_in h @ '' off='' @ show_nat (h_offset h)
            @ '' fp='' @ h_fingerprint h) (hits oc)
      @ (if truncated oc then [''encoded-scan bound reached''] else []))"

definition dlp_fingerprint :: "crypto \<Rightarrow> bytes \<Rightarrow> string \<Rightarrow> string" where
  "dlp_fingerprint cr salt normalized = take FP_LEN (hex_encode cr (sha256 cr (salt @ normalized)))"

record span =
  sp_det :: detector
  sp_start :: nat
  sp_end :: nat
  sp_norm :: string

section \<open>Allowlists\<close>

definition is_word :: "char \<Rightarrow> bool" where
  "is_word b \<longleftrightarrow> is_ascii_alnum b"

definition normalize_allow :: "string \<Rightarrow> string" where
  "normalize_allow s = to_ascii_uppercase (filter is_ascii_alnum s)"

definition allowed :: "string list \<Rightarrow> string list \<Rightarrow> string \<Rightarrow> bool" where
  "allowed builtin allow nrm \<longleftrightarrow>
     normalize_allow nrm \<in> set builtin \<or> normalize_allow nrm \<in> set allow"

definition PAN_TEST_NUMBERS :: "string list" where
  "PAN_TEST_NUMBERS =
     [''4111111111111111'', ''4012888888881881'', ''4222222222222'', ''4242424242424242'',
      ''4000056655665556'', ''4917610000000000'', ''5555555555554444'', ''5200828282828210'',
      ''5105105105105100'', ''2223003122003222'', ''378282246310005'', ''371449635398431'',
      ''6011111111111117'', ''6011000990139424'', ''3056930009020004'', ''36227206271667'',
      ''3566002020360505'', ''6200000000000005'']"

definition SSN_TEST_NUMBERS :: "string list" where
  "SSN_TEST_NUMBERS = [''078051120'', ''219099999'', ''457555462'']"

definition IBAN_TEST_NUMBERS :: "string list" where
  "IBAN_TEST_NUMBERS =
     [''GB82WEST12345698765432'', ''DE89370400440532013000'',
      ''GB33BUKB20201555555555'', ''FR1420041010050500013M02606'',
      ''NL91ABNA0417164300'']"

definition ABA_TEST_NUMBERS :: "string list" where
  "ABA_TEST_NUMBERS = [''110000000'', ''021000021'', ''011401533'']"

section \<open>Cards and routing numbers\<close>

definition prefix_num :: "nat list \<Rightarrow> nat \<Rightarrow> nat" where
  "prefix_num d k = foldl (\<lambda>a x. a * 10 + x) 0 (take k d)"

definition card_network :: "nat list \<Rightarrow> string option" where
  "card_network d =
     (let n = length d; p1 = prefix_num d 1; p2 = prefix_num d 2; p3 = prefix_num d 3;
          p4 = prefix_num d 4 in
      if p1 = 4 \<and> n \<in> {13, 16, 19} then Some ''visa''
      else if (51 \<le> p2 \<and> p2 \<le> 55 \<or> 2221 \<le> p4 \<and> p4 \<le> 2720) \<and> n = 16 then Some ''mastercard''
      else if (p2 = 34 \<or> p2 = 37) \<and> n = 15 then Some ''amex''
      else if (p4 = 6011 \<or> 644 \<le> p3 \<and> p3 \<le> 649 \<or> p2 = 65) \<and> 16 \<le> n \<and> n \<le> 19 then Some ''discover''
      else if 3528 \<le> p4 \<and> p4 \<le> 3589 \<and> 16 \<le> n \<and> n \<le> 19 then Some ''jcb''
      else if (300 \<le> p3 \<and> p3 \<le> 305 \<or> p2 \<in> {36, 38, 39}) \<and> 14 \<le> n \<and> n \<le> 19 then Some ''diners''
      else None)"

text \<open>The weighted digit the Luhn loop adds at position \<open>i\<close> from the right.\<close>

definition luhn_digit :: "nat \<Rightarrow> nat \<Rightarrow> nat" where
  "luhn_digit i x = (if i mod 2 = 1 then (if 2 * x > 9 then 2 * x - 9 else 2 * x) else x)"

fun luhn_sum :: "nat \<Rightarrow> nat list \<Rightarrow> nat" where
  "luhn_sum i [] = 0"
| "luhn_sum i (x # xs) = luhn_digit i x + luhn_sum (Suc i) xs"

definition luhn :: "nat list \<Rightarrow> bool" where
  "luhn d \<longleftrightarrow> luhn_sum 0 (rev d) mod 10 = 0"

definition aba_valid :: "nat list \<Rightarrow> bool" where
  "aba_valid d =
     (if length d \<noteq> 9 then False
      else let s = 3 * (d ! 0 + d ! 3 + d ! 6) + 7 * (d ! 1 + d ! 4 + d ! 7) + (d ! 2 + d ! 5 + d ! 8);
               p = d ! 0 * 10 + d ! 1
           in s \<noteq> 0 \<and> s mod 10 = 0
              \<and> (p \<le> 12 \<or> 21 \<le> p \<and> p \<le> 32 \<or> 61 \<le> p \<and> p \<le> 72 \<or> p = 80))"

text \<open>The inner loop of the digit-run walk. \<open>dr_sep\<close> is the first separator byte, 0 for none.\<close>

record digit_run =
  dr_digits :: "nat list"
  dr_sep :: nat
  dr_mixed :: bool
  dr_last_sep :: bool
  dr_end :: nat

function run_digits :: "bytes \<Rightarrow> nat \<Rightarrow> digit_run \<Rightarrow> nat \<times> digit_run" where
  "run_digits b j st =
     (if j < length b then
        (let c = b ! j in
         if is_ascii_digit c then
           run_digits b (Suc j)
             (st\<lparr>dr_digits := dr_digits st @ [bval c - 48], dr_end := j + 1, dr_last_sep := False\<rparr>)
         else if (c = CHR '' '' \<or> c = CHR ''-'') \<and> \<not> dr_last_sep st \<and> j + 1 < length b
                 \<and> is_ascii_digit (b ! (j + 1)) then
           run_digits b (Suc j)
             (st\<lparr>dr_sep := (if dr_sep st = 0 then bval c else dr_sep st),
                 dr_mixed := (dr_mixed st \<or> dr_sep st \<noteq> 0 \<and> dr_sep st \<noteq> bval c),
                 dr_last_sep := True\<rparr>)
         else (j, st))
      else (j, st))"
  by pat_completeness auto
termination
  by (relation "measure (\<lambda>(b, j, st). length b - j)") auto

declare run_digits.simps [simp del]

function skip_digits :: "bytes \<Rightarrow> nat \<Rightarrow> nat" where
  "skip_digits b i = (if i < length b \<and> is_ascii_digit (b ! i) then skip_digits b (Suc i) else i)"
  by pat_completeness auto
termination
  by (relation "measure (\<lambda>(b, i). length b - i)") auto

declare skip_digits.simps [simp del]

definition glued_left :: "bytes \<Rightarrow> nat \<Rightarrow> bool" where
  "glued_left b i \<longleftrightarrow>
     i > 0 \<and> (is_word (b ! (i - 1)) \<or> b ! (i - 1) = CHR ''-'' \<or> b ! (i - 1) = CHR ''_'' \<or> b ! (i - 1) = CHR ''.'')"

text \<open>What one finished run contributes: a card, a routing number, or nothing.\<close>

definition digit_run_span :: "bytes \<Rightarrow> bool \<Rightarrow> bool \<Rightarrow> string list \<Rightarrow> nat \<Rightarrow> digit_run \<Rightarrow> span list" where
  "digit_run_span b pan_on aba_on allow start st =
     (let digits = dr_digits st; e = dr_end st;
          bounded = (e \<ge> length b \<or> \<not> (is_word (b ! e) \<or> b ! e = CHR ''_''));
          nrm = map (\<lambda>d. char_of (d + 48)) digits in
      if bounded then
        (if pan_on \<and> 13 \<le> length digits \<and> length digits \<le> 19 \<and> \<not> dr_mixed st
            \<and> card_network digits \<noteq> None \<and> luhn digits \<and> \<not> allowed PAN_TEST_NUMBERS allow nrm
         then [\<lparr>sp_det = Pan, sp_start = start, sp_end = e, sp_norm = nrm\<rparr>]
         else if aba_on \<and> length digits = 9 \<and> dr_sep st = 0 \<and> aba_valid digits
            \<and> \<not> allowed ABA_TEST_NUMBERS allow nrm
         then [\<lparr>sp_det = Aba, sp_start = start, sp_end = e, sp_norm = nrm\<rparr>]
         else [])
      else [])"

definition digit_run_init :: "nat \<Rightarrow> digit_run" where
  "digit_run_init i = \<lparr>dr_digits = [], dr_sep = 0, dr_mixed = False, dr_last_sep = False, dr_end = i\<rparr>"

function scan_digit_runs :: "bytes \<Rightarrow> bool \<Rightarrow> bool \<Rightarrow> string list \<Rightarrow> nat \<Rightarrow> span list" where
  "scan_digit_runs b pan_on aba_on allow i =
     (if i < length b then
        (if \<not> is_ascii_digit (b ! i) then scan_digit_runs b pan_on aba_on allow (Suc i)
         else if glued_left b i then
           scan_digit_runs b pan_on aba_on allow (max (skip_digits b i) (Suc i))
         else (let (j, st) = run_digits b i (digit_run_init i) in
               digit_run_span b pan_on aba_on allow i st
               @ scan_digit_runs b pan_on aba_on allow (max j (Suc i))))
      else [])"
  by pat_completeness auto
termination
  by (relation "measure (\<lambda>(b, p, a, al, i). length b - i)") auto

declare scan_digit_runs.simps [simp del]

section \<open>Social security numbers\<close>

definition digits_num :: "bytes \<Rightarrow> nat" where
  "digits_num s = foldl (\<lambda>a c. a * 10 + (bval c - 48)) 0 s"

definition ssn_shaped :: "bytes \<Rightarrow> nat \<Rightarrow> bool" where
  "ssn_shaped b i \<longleftrightarrow>
     list_all is_ascii_digit (take 3 (drop i b)) \<and> b ! (i + 3) = CHR ''-''
     \<and> list_all is_ascii_digit (take 2 (drop (i + 4) b)) \<and> b ! (i + 6) = CHR ''-''
     \<and> list_all is_ascii_digit (take 4 (drop (i + 7) b))"

definition ssn_at :: "bytes \<Rightarrow> string list \<Rightarrow> nat \<Rightarrow> span list" where
  "ssn_at b allow i =
     (let nrm = filter is_ascii_digit (take 11 (drop i b)) in
      if \<not> allowed SSN_TEST_NUMBERS allow nrm
      then [\<lparr>sp_det = Ssn, sp_start = i, sp_end = i + 11, sp_norm = nrm\<rparr>] else [])"

function scan_ssn :: "bytes \<Rightarrow> string list \<Rightarrow> nat \<Rightarrow> span list" where
  "scan_ssn b allow i =
     (if i + 11 \<le> length b then
        (if \<not> is_ascii_digit (b ! i) then scan_ssn b allow (Suc i)
         else if glued_left b i then scan_ssn b allow (Suc i)
         else if \<not> ssn_shaped b i \<or> (i + 11 < length b \<and>
              (is_word (b ! (i + 11)) \<or> b ! (i + 11) = CHR ''-'' \<or> b ! (i + 11) = CHR ''_''))
           then scan_ssn b allow (Suc i)
         else (let area = digits_num (take 3 (drop i b)); grp = digits_num (take 2 (drop (i + 4) b));
                   serial = digits_num (take 4 (drop (i + 7) b)) in
           if area = 0 \<or> area = 666 \<or> area \<ge> 900 \<or> grp = 0 \<or> serial = 0 then scan_ssn b allow (Suc i)
           else ssn_at b allow i @ scan_ssn b allow (i + 11)))
      else [])"
  by pat_completeness auto
termination
  by (relation "measure (\<lambda>(b, al, i). length b - i)") auto

declare scan_ssn.simps [simp del]

section \<open>IBANs\<close>

definition IBAN_LEN :: "(string \<times> nat) list" where
  "IBAN_LEN =
     [(''AD'', 24), (''AE'', 23), (''AT'', 20), (''BE'', 16), (''BG'', 22), (''CH'', 21),
      (''CY'', 28), (''CZ'', 24), (''DE'', 22), (''DK'', 18), (''EE'', 20), (''ES'', 24),
      (''FI'', 18), (''FR'', 27), (''GB'', 22), (''GR'', 27), (''HR'', 21), (''HU'', 28),
      (''IE'', 22), (''IT'', 27), (''LI'', 21), (''LT'', 20), (''LU'', 20), (''LV'', 21),
      (''MC'', 27), (''MT'', 31), (''NL'', 18), (''NO'', 15), (''PL'', 28), (''PT'', 25),
      (''RO'', 24), (''SA'', 24), (''SE'', 24), (''SI'', 19), (''SK'', 24), (''TR'', 26)]"

record iban_run =
  ir_compact :: string
  ir_last_space :: bool
  ir_end :: nat

definition is_iban_char :: "char \<Rightarrow> bool" where
  "is_iban_char c \<longleftrightarrow> is_ascii_upper c \<or> is_ascii_digit c"

function run_iban :: "bytes \<Rightarrow> nat \<Rightarrow> iban_run \<Rightarrow> iban_run" where
  "run_iban b j st =
     (if j < length b then
        (let c = b ! j in
         if is_iban_char c then
           run_iban b (Suc j)
             (st\<lparr>ir_compact := ir_compact st @ [c], ir_end := j + 1, ir_last_space := False\<rparr>)
         else if c = CHR '' '' \<and> \<not> ir_last_space st \<and> j + 1 < length b \<and> is_iban_char (b ! (j + 1)) then
           run_iban b (Suc j) (st\<lparr>ir_last_space := True\<rparr>)
         else st)
      else st)"
  by pat_completeness auto
termination
  by (relation "measure (\<lambda>(b, j, st). length b - j)") auto

declare run_iban.simps [simp del]

definition iban_value :: "char \<Rightarrow> nat" where
  "iban_value c = (if is_ascii_digit c then bval c - 48 else bval c - 65 + 10)"

definition iban_step :: "nat \<Rightarrow> char \<Rightarrow> nat" where
  "iban_step rem c =
     (let v = iban_value c in if v < 10 then (rem * 10 + v) mod 97 else (rem * 100 + v) mod 97)"

definition iban_mod97 :: "string \<Rightarrow> nat" where
  "iban_mod97 cmp = foldl iban_step 0 (drop 4 cmp @ take 4 cmp)"

definition iban_shaped :: "bytes \<Rightarrow> nat \<Rightarrow> bool" where
  "iban_shaped b i \<longleftrightarrow>
     is_ascii_upper (b ! i) \<and> is_ascii_upper (b ! (i + 1)) \<and> is_ascii_digit (b ! (i + 2))
     \<and> is_ascii_digit (b ! (i + 3)) \<and> (i = 0 \<or> \<not> is_word (b ! (i - 1)))"

function scan_iban :: "bytes \<Rightarrow> string list \<Rightarrow> nat \<Rightarrow> span list" where
  "scan_iban b allow i =
     (if i + 4 \<le> length b then
        (if \<not> iban_shaped b i then scan_iban b allow (Suc i)
         else (case find (\<lambda>(cc, _). cc = take 2 (drop i b)) IBAN_LEN of
             None \<Rightarrow> scan_iban b allow (Suc i)
           | Some (_, expected) \<Rightarrow>
               (let st = run_iban b i \<lparr>ir_compact = [], ir_last_space = False, ir_end = i\<rparr>;
                    e = ir_end st;
                    bounded = (e \<ge> length b \<or> \<not> is_word (b ! e)) in
                (if bounded \<and> length (ir_compact st) = expected \<and> iban_mod97 (ir_compact st) = 1
                    \<and> \<not> allowed IBAN_TEST_NUMBERS allow (ir_compact st)
                 then [\<lparr>sp_det = Iban, sp_start = i, sp_end = e, sp_norm = ir_compact st\<rparr>] else [])
                @ scan_iban b allow (max e (Suc i)))))
      else [])"
  by pat_completeness auto
termination
  by (relation "measure (\<lambda>(b, al, i). length b - i)") auto

declare scan_iban.simps [simp del]

section \<open>E-mail addresses\<close>

definition is_local :: "char \<Rightarrow> bool" where
  "is_local c \<longleftrightarrow> is_word c \<or> c = CHR ''.'' \<or> c = CHR ''_'' \<or> c = CHR ''%'' \<or> c = CHR ''+'' \<or> c = CHR ''-''"

definition is_domain :: "char \<Rightarrow> bool" where
  "is_domain c \<longleftrightarrow> is_word c \<or> c = CHR ''.'' \<or> c = CHR ''-''"

fun back_local :: "bytes \<Rightarrow> nat \<Rightarrow> nat" where
  "back_local b 0 = 0"
| "back_local b (Suc s) = (if is_local (b ! s) then back_local b s else Suc s)"

function fwd_domain :: "bytes \<Rightarrow> nat \<Rightarrow> nat" where
  "fwd_domain b e = (if e < length b \<and> is_domain (b ! e) then fwd_domain b (Suc e) else e)"
  by pat_completeness auto
termination
  by (relation "measure (\<lambda>(b, e). length b - e)") auto

declare fwd_domain.simps [simp del]

text \<open>\<open>while e > lo && matches!(b[e - 1], '.' | '-')\<close>.\<close>

fun trim_domain :: "bytes \<Rightarrow> nat \<Rightarrow> nat \<Rightarrow> nat" where
  "trim_domain b lo 0 = 0"
| "trim_domain b lo (Suc e) =
     (if Suc e > lo \<and> (b ! e = CHR ''.'' \<or> b ! e = CHR ''-'') then trim_domain b lo e else Suc e)"

definition domain_valid :: "string \<Rightarrow> bool" where
  "domain_valid domain \<longleftrightarrow>
     (let labels = split_char (CHR ''.'') domain; tld = last labels in
      CHR ''.'' \<in> set domain \<and> length tld \<ge> 2 \<and> list_all is_ascii_alpha tld
      \<and> list_all (\<lambda>l. l \<noteq> []) labels)"

definition email_at :: "bytes \<Rightarrow> string list \<Rightarrow> nat \<Rightarrow> span list" where
  "email_at b allow k =
     (let s = back_local b k in
      if s = k then []
      else let e = trim_domain b (k + 1) (fwd_domain b (k + 1));
               nrm = to_ascii_lowercase (take (e - s) (drop s b)) in
        if \<not> domain_valid (take (e - (k + 1)) (drop (k + 1) b)) then []
        else if \<not> allowed [] allow nrm
        then [\<lparr>sp_det = Email, sp_start = s, sp_end = e, sp_norm = nrm\<rparr>] else [])"

definition scan_email :: "bytes \<Rightarrow> string list \<Rightarrow> span list" where
  "scan_email b allow = concat (map (email_at b allow) (filter (\<lambda>k. b ! k = CHR ''@'') [0..<length b]))"

section \<open>One text\<close>

fun drop_overlaps :: "span option \<Rightarrow> span list \<Rightarrow> span list" where
  "drop_overlaps p [] = []"
| "drop_overlaps p (s # ss) =
     (if (case p of None \<Rightarrow> True | Some q \<Rightarrow> sp_start s \<ge> sp_end q)
      then s # drop_overlaps (Some s) ss else drop_overlaps p ss)"

definition raw_spans :: "string \<Rightarrow> dlp_config \<Rightarrow> string list \<Rightarrow> span list" where
  "raw_spans text cfg allow =
     (if d_pan cfg \<noteq> DlpOff \<or> d_aba cfg \<noteq> DlpOff
      then scan_digit_runs text (d_pan cfg \<noteq> DlpOff) (d_aba cfg \<noteq> DlpOff) allow 0 else [])
     @ (if d_ssn cfg \<noteq> DlpOff then scan_ssn text allow 0 else [])
     @ (if d_iban cfg \<noteq> DlpOff then scan_iban text allow 0 else [])
     @ (if d_email cfg \<noteq> DlpOff then scan_email text allow else [])"

definition scan_text :: "string \<Rightarrow> dlp_config \<Rightarrow> string list \<Rightarrow> span list" where
  "scan_text text cfg allow =
     drop_overlaps None (sort_key (\<lambda>s. (sp_start s, - int (sp_end s))) (raw_spans text cfg allow))"

section \<open>Encoded windows\<close>

record decoders =
  hex_decode :: "bytes \<Rightarrow> bytes option"
  b64_std_decode :: "bytes \<Rightarrow> bytes option"
  b64_url_decode :: "bytes \<Rightarrow> bytes option"

definition hex_val :: "char \<Rightarrow> nat option" where
  "hex_val c =
     (let x = bval c in
      if 48 \<le> x \<and> x \<le> 57 then Some (x - 48)
      else if 97 \<le> x \<and> x \<le> 102 then Some (x - 97 + 10)
      else if 65 \<le> x \<and> x \<le> 70 then Some (x - 65 + 10)
      else None)"

fun percent_bytes :: "bytes \<Rightarrow> bytes" where
  "percent_bytes (c # x # y # r) =
     (if c = CHR ''%'' then
        (case (hex_val x, hex_val y) of
           (Some h, Some l) \<Rightarrow> char_of (h * 16 + l) # percent_bytes r
         | _ \<Rightarrow> c # percent_bytes (x # y # r))
      else c # percent_bytes (x # y # r))"
| "percent_bytes cs = cs"

definition percent_decode :: "string \<Rightarrow> string option" where
  "percent_decode text = (let out = percent_bytes text in if utf8_valid out then Some out else None)"

text \<open>The decode budget and the truncation flag the scan threads along; \<open>charge\<close> spends
  \<open>n\<close> bytes or sets the flag.\<close>

type_synonym scan_state = "nat \<times> bool"

definition charge :: "nat \<Rightarrow> scan_state \<Rightarrow> bool \<times> scan_state" where
  "charge n st = (case st of (budget, tr) \<Rightarrow>
     if budget < n then (False, (budget, True)) else (True, (budget - n, tr)))"

type_synonym finding = "string \<times> nat \<times> string \<times> span list"

definition scan_percent :: "string \<Rightarrow> dlp_config \<Rightarrow> string list \<Rightarrow> scan_state \<Rightarrow> finding list \<times> scan_state" where
  "scan_percent text cfg allow st =
     (if CHR ''%'' \<in> set text then
        (case percent_decode text of
           None \<Rightarrow> ([], st)
         | Some decoded \<Rightarrow>
             (if decoded \<noteq> text then
                (case charge (length decoded) st of
                   (True, st') \<Rightarrow>
                     (let spans = scan_text decoded cfg allow in
                      (if spans \<noteq> [] then [(''percent'', 0, decoded, spans)] else [], st'))
                 | (False, st') \<Rightarrow> ([], st'))
              else ([], st)))
      else ([], st))"

definition is_run_char :: "char \<Rightarrow> bool" where
  "is_run_char c \<longleftrightarrow> is_word c \<or> c = CHR ''+'' \<or> c = CHR ''/'' \<or> c = CHR ''_'' \<or> c = CHR ''-'' \<or> c = CHR ''=''"

function run_end :: "bytes \<Rightarrow> nat \<Rightarrow> nat" where
  "run_end b i = (if i < length b \<and> is_run_char (b ! i) then run_end b (Suc i) else i)"
  by pat_completeness auto
termination
  by (relation "measure (\<lambda>(b, i). length b - i)") auto

declare run_end.simps [simp del]

text \<open>The hex attempt on one run; a finding ends the run (\<open>continue\<close> in the source).\<close>

definition try_hex :: "decoders \<Rightarrow> dlp_config \<Rightarrow> string list \<Rightarrow> nat \<Rightarrow> string \<Rightarrow> scan_state
    \<Rightarrow> finding option \<times> scan_state" where
  "try_hex dec cfg allow start run st =
     (if length run \<ge> MIN_HEX_RUN \<and> length run mod 2 = 0 \<and> list_all is_ascii_hexdigit run then
        (case charge (length run div 2) st of
           (False, st') \<Rightarrow> (None, st')
         | (True, st') \<Rightarrow>
             (case hex_decode dec run of
                None \<Rightarrow> (None, st')
              | Some txt \<Rightarrow>
                  (if utf8_valid txt \<and> scan_text txt cfg allow \<noteq> []
                   then (Some (''hex'', start, txt, scan_text txt cfg allow), st')
                   else (None, st'))))
      else (None, st))"

fun try_b64 :: "(bytes \<Rightarrow> bytes option) list \<Rightarrow> dlp_config \<Rightarrow> string list \<Rightarrow> nat \<Rightarrow> string \<Rightarrow> scan_state
    \<Rightarrow> finding list \<times> scan_state" where
  "try_b64 [] cfg allow start trimmed st = ([], st)"
| "try_b64 (e # es) cfg allow start trimmed st =
     (case e trimmed of
        None \<Rightarrow> try_b64 es cfg allow start trimmed st
      | Some txt \<Rightarrow>
          (case charge (length txt) st of
             (False, st') \<Rightarrow> ([], st')
           | (True, st') \<Rightarrow>
               (if utf8_valid txt \<and> scan_text txt cfg allow \<noteq> []
                then ([(''base64'', start, txt, scan_text txt cfg allow)], st')
                else ([], st'))))"

definition trim_pad :: "string \<Rightarrow> string" where
  "trim_pad run = rev (dropWhile (\<lambda>c. c = CHR ''='') (rev run))"

definition scan_run :: "decoders \<Rightarrow> dlp_config \<Rightarrow> string list \<Rightarrow> nat \<Rightarrow> string \<Rightarrow> scan_state
    \<Rightarrow> finding list \<times> scan_state" where
  "scan_run dec cfg allow start run st =
     (case try_hex dec cfg allow start run st of
        (Some f, st') \<Rightarrow> ([f], st')
      | (None, st') \<Rightarrow>
          (if length run \<ge> MIN_B64_RUN \<and> length (trim_pad run) mod 4 \<noteq> 1
           then try_b64 [b64_std_decode dec, b64_url_decode dec] cfg allow start (trim_pad run) st'
           else ([], st')))"

function scan_runs :: "decoders \<Rightarrow> dlp_config \<Rightarrow> string list \<Rightarrow> bytes \<Rightarrow> nat \<Rightarrow> scan_state
    \<Rightarrow> finding list \<times> scan_state" where
  "scan_runs dec cfg allow b i st =
     (if i < length b then
        (if \<not> is_run_char (b ! i) then scan_runs dec cfg allow b (Suc i) st
         else (let e = run_end b i;
                   (fs, st') = scan_run dec cfg allow i (take (e - i) (drop i b)) st;
                   (fs', st'') = scan_runs dec cfg allow b (max e (Suc i)) st'
               in (fs @ fs', st'')))
      else ([], st))"
  by pat_completeness auto
termination
  by (relation "measure (\<lambda>(dec, cfg, al, b, i, st). length b - i)") auto

declare scan_runs.simps [simp del]

definition scan_encoded :: "decoders \<Rightarrow> string \<Rightarrow> dlp_config \<Rightarrow> string list \<Rightarrow> scan_state
    \<Rightarrow> finding list \<times> scan_state" where
  "scan_encoded dec text cfg allow st =
     (let (f1, st1) = scan_percent text cfg allow st; (f2, st2) = scan_runs dec cfg allow text 0 st1
      in (f1 @ f2, st2))"

section \<open>Debug snippets\<close>

fun boundary_down :: "string \<Rightarrow> nat \<Rightarrow> nat" where
  "boundary_down text 0 = 0"
| "boundary_down text (Suc i) = (if is_char_boundary text (Suc i) then Suc i else boundary_down text i)"

function boundary_up :: "string \<Rightarrow> nat \<Rightarrow> nat" where
  "boundary_up text i = (if i < length text \<and> \<not> is_char_boundary text i then boundary_up text (Suc i) else i)"
  by pat_completeness auto
termination
  by (relation "measure (\<lambda>(t, i). length t - i)") auto

declare boundary_up.simps [simp del]

text \<open>Control characters (U+0000 to U+001F, U+007F to U+009F) become a space.\<close>

fun clean_text :: "string \<Rightarrow> string" where
  "clean_text [] = []"
| "clean_text (a # s) =
     (if bval a < 32 \<or> bval a = 127 then CHR '' '' # clean_text s
      else if bval a = 194 then
        (case s of b # t \<Rightarrow> (if 128 \<le> bval b \<and> bval b \<le> 159 then CHR '' '' # clean_text t else a # clean_text s)
         | [] \<Rightarrow> [a])
      else a # clean_text s)"

definition context_snippet :: "string \<Rightarrow> span \<Rightarrow> string" where
  "context_snippet text sp =
     (let start = boundary_down text (sp_start sp - 40);
          e = boundary_up text (min (sp_end sp + 40) (length text)) in
      (if start > 0 then ''...'' else [])
      @ clean_text (take (sp_start sp - start) (drop start text)) @ ''>>>''
      @ clean_text (take (sp_end sp - sp_start sp) (drop (sp_start sp) text)) @ ''<<<''
      @ clean_text (take (e - sp_end sp) (drop (sp_end sp) text))
      @ (if e < length text then ''...'' else []))"

section \<open>Applying the detectors to a request\<close>

definition mk_hit :: "crypto \<Rightarrow> dlp_config \<Rightarrow> bytes \<Rightarrow> bool \<Rightarrow> string \<Rightarrow> string \<Rightarrow> nat \<Rightarrow> span \<Rightarrow> hit" where
  "mk_hit cr cfg salt maskable text seen_in offset sp =
     \<lparr>h_detector = detector_name (sp_det sp), h_seen_in = seen_in, h_offset = offset,
      h_fingerprint = dlp_fingerprint cr salt (sp_norm sp),
      h_mode = (if mode_for cfg (sp_det sp) = DlpMask \<and> \<not> maskable then DlpBlock
                else mode_for cfg (sp_det sp)),
      h_context = (if d_debug cfg then Some (context_snippet text sp) else None)\<rparr>"

definition finding_hits :: "crypto \<Rightarrow> dlp_config \<Rightarrow> bytes \<Rightarrow> string \<Rightarrow> finding \<Rightarrow> hit list" where
  "finding_hits cr cfg salt loc f =
     (case f of (label, offset, decoded, spans) \<Rightarrow>
        map (mk_hit cr cfg salt False decoded (loc @ '':'' @ label) offset) spans)"

text \<open>One location of the request: the spans of its text, then the findings inside its
  encoded windows.\<close>

definition scan_location :: "crypto \<Rightarrow> decoders \<Rightarrow> dlp_config \<Rightarrow> bytes \<Rightarrow> string list \<Rightarrow> bool \<Rightarrow> string
    \<Rightarrow> string \<Rightarrow> scan_state \<Rightarrow> hit list \<times> scan_state" where
  "scan_location cr dec cfg salt allow maskable loc text st =
     (let plain = map (\<lambda>sp. mk_hit cr cfg salt maskable text loc (sp_start sp) sp) (scan_text text cfg allow);
          (fs, st') = scan_encoded dec text cfg allow st
      in (plain @ concat (map (finding_hits cr cfg salt loc) fs), st'))"

fun scan_headers :: "crypto \<Rightarrow> decoders \<Rightarrow> dlp_config \<Rightarrow> bytes \<Rightarrow> string list
    \<Rightarrow> (string \<times> string) list \<Rightarrow> scan_state \<Rightarrow> hit list \<times> scan_state" where
  "scan_headers cr dec cfg salt allow [] st = ([], st)"
| "scan_headers cr dec cfg salt allow ((name, val) # hs) st =
     (let (h1, st1) = scan_location cr dec cfg salt allow False (''header:'' @ to_ascii_lowercase name) val st;
          (h2, st2) = scan_headers cr dec cfg salt allow hs st1
      in (h1 @ h2, st2))"

definition mask_placeholder :: "detector \<Rightarrow> string" where
  "mask_placeholder d = ''[decoyrail:masked:'' @ detector_name d @ '']''"

definition replace_range :: "nat \<Rightarrow> nat \<Rightarrow> string \<Rightarrow> string \<Rightarrow> string" where
  "replace_range start e w text = take start text @ w @ drop e text"

text \<open>Mask-mode spans are replaced from the last to the first, so earlier offsets stay valid.\<close>

definition mask_body :: "span list \<Rightarrow> string \<Rightarrow> string" where
  "mask_body spans body =
     foldr (\<lambda>sp text. replace_range (sp_start sp) (sp_end sp) (mask_placeholder (sp_det sp)) text) spans body"

definition mask_spans :: "dlp_config \<Rightarrow> span list \<Rightarrow> span list" where
  "mask_spans cfg spans = filter (\<lambda>sp. mode_for cfg (sp_det sp) = DlpMask) spans"

definition detect_apply :: "crypto \<Rightarrow> decoders \<Rightarrow> request_ctx \<Rightarrow> dlp_config \<Rightarrow> bytes
    \<Rightarrow> request_ctx \<times> dlp_outcome" where
  "detect_apply cr dec q cfg salt =
     (if list_all (\<lambda>d. mode_for cfg d = DlpOff) ALL_DETECTORS
      then (q, \<lparr>hits = [], truncated = False\<rparr>)
      else
        let allow = map normalize_allow (d_allow cfg);
            (h1, st1) = scan_location cr dec cfg salt allow False ''path'' (q_path q) (DECODE_BUDGET, False);
            (h2, st2) = scan_headers cr dec cfg salt allow (q_headers q) st1 in
        if \<not> utf8_valid (q_body q) then (q, \<lparr>hits = h1 @ h2, truncated = snd st2\<rparr>)
        else
          let (h3, st3) = scan_location cr dec cfg salt allow True ''body'' (q_body q) st2;
              ms = mask_spans cfg (scan_text (q_body q) cfg allow);
              q' = (if ms \<noteq> [] then q\<lparr>q_body := mask_body ms (q_body q)\<rparr> else q)
          in (q', \<lparr>hits = h1 @ h2 @ h3, truncated = snd st3\<rparr>))"

section \<open>Slices\<close>

text \<open>The bytes \<open>b[i..e]\<close>.\<close>

definition byte_slice :: "bytes \<Rightarrow> nat \<Rightarrow> nat \<Rightarrow> bytes" where
  "byte_slice b i e = take (e - i) (drop i b)"

lemma slice_empty [simp]: "byte_slice b i i = []"
  by (simp add: byte_slice_def)

lemma slice_Suc: "i \<le> j \<Longrightarrow> j < length b \<Longrightarrow> byte_slice b i (Suc j) = byte_slice b i j @ [b ! j]"
  by (simp add: byte_slice_def Suc_diff_le take_Suc_conv_app_nth)

lemma slice_length: "e \<le> length b \<Longrightarrow> length (byte_slice b i e) = e - i"
  by (simp add: byte_slice_def)

lemma set_slice_mono: "e \<le> j \<Longrightarrow> set (byte_slice b i e) \<subseteq> set (byte_slice b i j)"
  unfolding byte_slice_def by (rule set_take_subset_set_take) simp

section \<open>The digit-run walk\<close>

definition is_sep :: "char \<Rightarrow> bool" where
  "is_sep c \<longleftrightarrow> c = CHR '' '' \<or> c = CHR ''-''"

lemma sep_not_digit: "is_sep c \<Longrightarrow> \<not> is_ascii_digit c" "is_sep c \<Longrightarrow> bval c \<noteq> 0"
  by (auto simp: is_sep_def is_ascii_digit_def)

text \<open>What the inner loop keeps, started at \<open>i\<close> and standing at \<open>j\<close>.\<close>

definition run_inv :: "bytes \<Rightarrow> nat \<Rightarrow> nat \<Rightarrow> digit_run \<Rightarrow> bool" where
  "run_inv b i j st \<longleftrightarrow> i \<le> dr_end st \<and> dr_end st \<le> j \<and> j \<le> length b
     \<and> dr_digits st = map (\<lambda>c. bval c - 48) (filter is_ascii_digit (byte_slice b i j))
     \<and> filter is_ascii_digit (byte_slice b i j) = filter is_ascii_digit (byte_slice b i (dr_end st))
     \<and> list_all (\<lambda>c. is_ascii_digit c \<or> is_sep c) (byte_slice b i j)
     \<and> (dr_sep st = 0 \<longrightarrow> list_all is_ascii_digit (byte_slice b i j))"

lemma run_inv_digit:
  assumes "run_inv b i j st" "j < length b" "is_ascii_digit (b ! j)"
  shows "run_inv b i (Suc j) (st\<lparr>dr_digits := dr_digits st @ [bval (b ! j) - 48], dr_end := j + 1, dr_last_sep := False\<rparr>)"
  using assms by (auto simp: run_inv_def slice_Suc)

lemma run_inv_sep:
  assumes "run_inv b i j st" "j < length b" "is_sep (b ! j)"
  shows "run_inv b i (Suc j) (st\<lparr>dr_sep := (if dr_sep st = 0 then bval (b ! j) else dr_sep st),
                 dr_mixed := (dr_mixed st \<or> dr_sep st \<noteq> 0 \<and> dr_sep st \<noteq> bval (b ! j)),
                 dr_last_sep := True\<rparr>)"
  using assms sep_not_digit[OF assms(3)] by (auto simp: run_inv_def slice_Suc)

lemma run_digits_inv:
  "run_inv b i j st \<Longrightarrow> case run_digits b j st of (j', st') \<Rightarrow> run_inv b i j' st' \<and> dr_end st \<le> dr_end st'"
proof (induction b j st rule: run_digits.induct)
  case (1 b j st)
  let ?d = "st\<lparr>dr_digits := dr_digits st @ [bval (b ! j) - 48], dr_end := j + 1, dr_last_sep := False\<rparr>"
  let ?s = "st\<lparr>dr_sep := (if dr_sep st = 0 then bval (b ! j) else dr_sep st),
     dr_mixed := (dr_mixed st \<or> dr_sep st \<noteq> 0 \<and> dr_sep st \<noteq> bval (b ! j)), dr_last_sep := True\<rparr>"
  let ?sep = "(b ! j = CHR '' '' \<or> b ! j = CHR ''-'') \<and> \<not> dr_last_sep st \<and> j + 1 < length b \<and> is_ascii_digit (b ! (j + 1))"
  have le: "dr_end st \<le> j" using "1.prems" by (simp add: run_inv_def)
  consider (stop) "\<not> j < length b \<or> (\<not> is_ascii_digit (b ! j) \<and> \<not> ?sep)"
    | (digit) "j < length b" "is_ascii_digit (b ! j)"
    | (sep) "j < length b" "\<not> is_ascii_digit (b ! j)" ?sep by blast
  then show ?case
  proof cases
    case stop
    then have "run_digits b j st = (j, st)" by (auto simp: run_digits.simps[of b j st] Let_def)
    then show ?thesis using "1.prems" by simp
  next
    case digit
    have "run_digits b j st = run_digits b (Suc j) ?d" using digit by (simp add: run_digits.simps[of b j st] Let_def)
    moreover have "case run_digits b (Suc j) ?d of (j', st') \<Rightarrow> run_inv b i j' st' \<and> dr_end ?d \<le> dr_end st'"
      by (rule "1.IH"(1)[OF digit(1) refl digit(2) run_inv_digit[OF "1.prems" digit]])
    ultimately show ?thesis using le by auto
  next
    case sep
    have eq: "run_digits b j st = run_digits b (Suc j) ?s" using sep by (simp add: run_digits.simps[of b j st] Let_def)
    have "case run_digits b (Suc j) ?s of (j', st') \<Rightarrow> run_inv b i j' st' \<and> dr_end ?s \<le> dr_end st'"
      by (rule "1.IH"(2)[OF sep(1) refl sep(2)]) (use sep run_inv_sep[OF "1.prems"] in \<open>auto simp: is_sep_def\<close>)
    then show ?thesis using le unfolding eq by auto
  qed
qed

lemma run_digits_start:
  assumes "i < length b" "is_ascii_digit (b ! i)" "run_digits b i (digit_run_init i) = (j, st)"
  shows "run_inv b i j st \<and> i < dr_end st"
proof -
  let ?d = "\<lparr>dr_digits = [bval (b ! i) - 48], dr_sep = 0, dr_mixed = False, dr_last_sep = False, dr_end = i + 1\<rparr>"
  have st: "run_digits b i (digit_run_init i) = run_digits b (Suc i) ?d"
    using assms(1,2) by (subst run_digits.simps) (simp add: digit_run_init_def Let_def)
  have "run_inv b i (Suc i) ?d" using assms(1,2) by (simp add: run_inv_def slice_Suc)
  from run_digits_inv[OF this] assms(3) show ?thesis unfolding st by auto
qed

section \<open>What a reported span means\<close>

definition span_digits :: "bytes \<Rightarrow> span \<Rightarrow> nat list" where
  "span_digits b sp = map (\<lambda>c. bval c - 48) (filter is_ascii_digit (byte_slice b (sp_start sp) (sp_end sp)))"

text \<open>The IBAN remainder over the number the letters and digits spell.\<close>

definition span_ok :: "bytes \<Rightarrow> span \<Rightarrow> bool" where
  "span_ok b sp \<longleftrightarrow> sp_start sp < sp_end sp \<and> sp_end sp \<le> length b \<and>
     (let w = byte_slice b (sp_start sp) (sp_end sp) in
      case sp_det sp of
        Pan \<Rightarrow> sp_norm sp = filter is_ascii_digit w \<and> list_all (\<lambda>c. is_ascii_digit c \<or> is_sep c) w
          \<and> 13 \<le> length (sp_norm sp) \<and> length (sp_norm sp) \<le> 19 \<and> luhn (span_digits b sp)
          \<and> card_network (span_digits b sp) \<noteq> None \<and> sp_norm sp \<notin> set PAN_TEST_NUMBERS
      | Aba \<Rightarrow> sp_norm sp = w \<and> list_all is_ascii_digit w \<and> length w = 9 \<and> aba_valid (span_digits b sp)
          \<and> sp_norm sp \<notin> set ABA_TEST_NUMBERS
      | Ssn \<Rightarrow> ssn_shaped b (sp_start sp) \<and> length w = 11 \<and> sp_norm sp = filter is_ascii_digit w
      | Iban \<Rightarrow> sp_norm sp = filter is_iban_char w \<and> iban_mod97 (sp_norm sp) = 1
          \<and> list_all (\<lambda>c. is_iban_char c \<or> c = CHR '' '') w
      | Email \<Rightarrow> sp_norm sp = to_ascii_lowercase w \<and> CHR ''@'' \<in> set w)"

lemma digits_roundtrip:
  "map (\<lambda>d. char_of (d + 48)) (map (\<lambda>c. bval c - 48) (filter is_ascii_digit w)) = filter is_ascii_digit w"
  by (induction w) (auto simp: is_ascii_digit_def)

lemma normalize_digits: "list_all is_ascii_digit w \<Longrightarrow> normalize_allow w = w"
  by (induction w) (auto simp: normalize_allow_def to_ascii_uppercase_def ascii_upper_def ascii_class_defs)

lemma digits_of_digits: "list_all is_ascii_digit (filter is_ascii_digit w)"
  by (simp add: list_all_iff)

lemma digit_run_span_ok:
  assumes "run_inv b i j st" "i < dr_end st" "sp \<in> set (digit_run_span b pan aba al i st)"
  shows "span_ok b sp \<and> (sp_det sp = Pan \<and> pan \<or> sp_det sp = Aba \<and> aba)"
proof -
  let ?w = "byte_slice b i (dr_end st)"
  have d: "dr_digits st = map (\<lambda>c. bval c - 48) (filter is_ascii_digit ?w)"
    and le: "dr_end st \<le> length b" using assms(1) by (auto simp: run_inv_def)
  have w: "set ?w \<subseteq> set (byte_slice b i j)"
    by (rule set_slice_mono) (use assms(1) in \<open>simp add: run_inv_def\<close>)
  have all: "list_all (\<lambda>c. is_ascii_digit c \<or> is_sep c) ?w"
    and z: "dr_sep st = 0 \<Longrightarrow> list_all is_ascii_digit ?w"
    using assms(1) w by (auto simp: run_inv_def list_all_iff)
  have nrm: "map (\<lambda>d. char_of (d + 48)) (dr_digits st) = filter is_ascii_digit ?w"
    unfolding d by (rule digits_roundtrip)
  show ?thesis using assms(3) le all z assms(2) normalize_digits[OF digits_of_digits, of ?w]
    unfolding digit_run_span_def Let_def nrm
    by (auto simp: span_ok_def span_digits_def d allowed_def Let_def list_all_iff split: if_splits)
qed

lemma scan_digit_runs_ok:
  "sp \<in> set (scan_digit_runs b pan aba al i) \<Longrightarrow>
     span_ok b sp \<and> (sp_det sp = Pan \<and> pan \<or> sp_det sp = Aba \<and> aba)"
proof (induction b pan aba al i rule: scan_digit_runs.induct)
  case (1 b pan aba al i)
  note unf = scan_digit_runs.simps[of b pan aba al i]
  consider (stop) "\<not> i < length b" | (other) "i < length b" "\<not> is_ascii_digit (b ! i)"
    | (glued) "i < length b" "is_ascii_digit (b ! i)" "glued_left b i"
    | (run) "i < length b" "is_ascii_digit (b ! i)" "\<not> glued_left b i" by blast
  then show ?case
  proof cases
    case stop then show ?thesis using "1.prems" by (simp add: unf)
  next
    case other
    then have "sp \<in> set (scan_digit_runs b pan aba al (Suc i))" using "1.prems" by (simp add: unf)
    then show ?thesis using "1.IH"(1) other by simp
  next
    case glued
    then have "sp \<in> set (scan_digit_runs b pan aba al (max (skip_digits b i) (Suc i)))" using "1.prems" by (simp add: unf)
    then show ?thesis using "1.IH"(2) glued by simp
  next
    case run
    obtain j st where r: "run_digits b i (digit_run_init i) = (j, st)" by fastforce
    have "sp \<in> set (digit_run_span b pan aba al i st) \<or> sp \<in> set (scan_digit_runs b pan aba al (max j (Suc i)))"
      using "1.prems" run r by (simp add: unf)
    then show ?thesis
    proof
      assume "sp \<in> set (digit_run_span b pan aba al i st)"
      then show ?thesis using digit_run_span_ok run_digits_start[OF run(1,2) r] by blast
    next
      assume "sp \<in> set (scan_digit_runs b pan aba al (max j (Suc i)))"
      then show ?thesis using "1.IH"(3) run r by simp
    qed
  qed
qed

section \<open>The other scanners\<close>

lemma scan_ssn_step:
  assumes "sp \<in> set (scan_ssn b al i)"
  shows "i + 11 \<le> length b \<and> (sp \<in> set (scan_ssn b al (Suc i)) \<or> ssn_shaped b i \<and> sp \<in> set (ssn_at b al i)
     \<or> sp \<in> set (scan_ssn b al (i + 11)))"
  using assms by (subst (asm) scan_ssn.simps) (auto simp: Let_def split: if_splits)

lemma scan_ssn_ok: "sp \<in> set (scan_ssn b al i) \<Longrightarrow> span_ok b sp \<and> sp_det sp = Ssn"
proof (induction "length b - i" arbitrary: i rule: less_induct)
  case less
  from scan_ssn_step[OF less.prems] have le: "i + 11 \<le> length b"
    and c: "sp \<in> set (scan_ssn b al (Suc i)) \<or> ssn_shaped b i \<and> sp \<in> set (ssn_at b al i)
     \<or> sp \<in> set (scan_ssn b al (i + 11))" by auto
  have "span_ok b sp \<and> sp_det sp = Ssn" if "sp \<in> set (ssn_at b al i)" "ssn_shaped b i"
    using that le by (auto simp: ssn_at_def span_ok_def byte_slice_def Let_def split: if_splits)
  with c show ?case using less.hyps[of "Suc i"] less.hyps[of "i + 11"] le by auto
qed

definition iban_inv :: "bytes \<Rightarrow> nat \<Rightarrow> nat \<Rightarrow> iban_run \<Rightarrow> bool" where
  "iban_inv b i j st \<longleftrightarrow> i \<le> ir_end st \<and> ir_end st \<le> j \<and> j \<le> length b
     \<and> ir_compact st = filter is_iban_char (byte_slice b i j)
     \<and> filter is_iban_char (byte_slice b i j) = filter is_iban_char (byte_slice b i (ir_end st))
     \<and> list_all (\<lambda>c. is_iban_char c \<or> c = CHR '' '') (byte_slice b i j)"

lemma space_not_iban: "\<not> is_iban_char (CHR '' '')"
  by (simp add: is_iban_char_def ascii_class_defs)

lemma run_iban_inv:
  "iban_inv b i j st \<Longrightarrow> \<exists>j'. iban_inv b i j' (run_iban b j st) \<and> ir_end st \<le> ir_end (run_iban b j st)"
proof (induction "length b - j" arbitrary: j st rule: less_induct)
  case less
  let ?c = "st\<lparr>ir_compact := ir_compact st @ [b ! j], ir_end := j + 1, ir_last_space := False\<rparr>"
  let ?s = "st\<lparr>ir_last_space := True\<rparr>"
  let ?sp = "b ! j = CHR '' '' \<and> \<not> ir_last_space st \<and> j + 1 < length b \<and> is_iban_char (b ! (j + 1))"
  consider (stop) "\<not> j < length b \<or> (\<not> is_iban_char (b ! j) \<and> \<not> ?sp)"
    | (char) "j < length b" "is_iban_char (b ! j)"
    | (space) "j < length b" "\<not> is_iban_char (b ! j)" ?sp by blast
  then show ?case
  proof cases
    case stop
    then have "run_iban b j st = st" by (subst run_iban.simps) (auto simp: Let_def)
    then show ?thesis using less.prems by auto
  next
    case char
    have eq: "run_iban b j st = run_iban b (Suc j) ?c" using char by (subst run_iban.simps) (simp add: Let_def)
    have "iban_inv b i (Suc j) ?c" using char less.prems by (auto simp: iban_inv_def slice_Suc)
    moreover have "length b - Suc j < length b - j" using char by simp
    ultimately obtain j' where "iban_inv b i j' (run_iban b (Suc j) ?c)" "ir_end ?c \<le> ir_end (run_iban b (Suc j) ?c)"
      using less.hyps by blast
    moreover have "ir_end st \<le> ir_end ?c" using less.prems by (simp add: iban_inv_def)
    ultimately show ?thesis unfolding eq by (meson order_trans)
  next
    case space
    have eq: "run_iban b j st = run_iban b (Suc j) ?s" using space by (subst run_iban.simps) (simp add: Let_def)
    have "iban_inv b i (Suc j) ?s" using space less.prems by (auto simp: iban_inv_def slice_Suc space_not_iban)
    from less.hyps[OF _ this] space show ?thesis unfolding eq by auto
  qed
qed

abbreviation iban_run_from :: "bytes \<Rightarrow> nat \<Rightarrow> iban_run" where
  "iban_run_from b i \<equiv> run_iban b i \<lparr>ir_compact = [], ir_last_space = False, ir_end = i\<rparr>"

lemma run_iban_start:
  assumes "i + 4 \<le> length b" "iban_shaped b i"
  shows "\<exists>j. iban_inv b i j (iban_run_from b i) \<and> i < ir_end (iban_run_from b i)"
proof -
  let ?c = "\<lparr>ir_compact = [b ! i], ir_last_space = False, ir_end = i + 1\<rparr>"
  have ic: "is_iban_char (b ! i)" using assms(2) by (simp add: iban_shaped_def is_iban_char_def)
  have eq: "iban_run_from b i = run_iban b (Suc i) ?c" using assms(1) ic by (subst run_iban.simps) (simp add: Let_def)
  have "iban_inv b i (Suc i) ?c" using assms(1) ic by (simp add: iban_inv_def slice_Suc)
  from run_iban_inv[OF this] show ?thesis unfolding eq by auto
qed

lemma scan_iban_step:
  assumes "sp \<in> set (scan_iban b al i)"
  shows "i + 4 \<le> length b \<and> (sp \<in> set (scan_iban b al (Suc i)) \<or> sp \<in> set (scan_iban b al (max (ir_end (iban_run_from b i)) (Suc i)))
     \<or> iban_shaped b i \<and> iban_mod97 (ir_compact (iban_run_from b i)) = 1
       \<and> sp = \<lparr>sp_det = Iban, sp_start = i, sp_end = ir_end (iban_run_from b i), sp_norm = ir_compact (iban_run_from b i)\<rparr>)"
  using assms by (subst (asm) scan_iban.simps) (auto simp: Let_def split: if_splits option.splits prod.splits)

lemma scan_iban_ok: "sp \<in> set (scan_iban b al i) \<Longrightarrow> span_ok b sp \<and> sp_det sp = Iban"
proof (induction "length b - i" arbitrary: i rule: less_induct)
  case less
  let ?r = "iban_run_from b i"
  from scan_iban_step[OF less.prems] consider
    (skip) "i + 4 \<le> length b" "sp \<in> set (scan_iban b al (Suc i))"
    | (past) "i + 4 \<le> length b" "sp \<in> set (scan_iban b al (max (ir_end ?r) (Suc i)))"
    | (hit) "i + 4 \<le> length b" "iban_shaped b i" "iban_mod97 (ir_compact ?r) = 1"
      "sp = \<lparr>sp_det = Iban, sp_start = i, sp_end = ir_end ?r, sp_norm = ir_compact ?r\<rparr>" by blast
  then show ?case
  proof cases
    case skip then show ?thesis using less.hyps[of "Suc i"] by simp
  next
    case past then show ?thesis using less.hyps[of "max (ir_end ?r) (Suc i)"] by simp
  next
    case hit
    obtain j where inv: "iban_inv b i j ?r" "i < ir_end ?r" using run_iban_start[OF hit(1,2)] by blast
    then have "list_all (\<lambda>c. is_iban_char c \<or> c = CHR '' '') (byte_slice b i (ir_end ?r))"
      using set_slice_mono[of "ir_end ?r" j b i] by (auto simp: iban_inv_def list_all_iff)
    then show ?thesis using inv hit(3,4) by (auto simp: span_ok_def iban_inv_def Let_def)
  qed
qed

lemma back_local_le: "back_local b k \<le> k"
  by (induction k) auto

lemma fwd_domain_bounds: "e \<le> length b \<Longrightarrow> e \<le> fwd_domain b e \<and> fwd_domain b e \<le> length b"
proof (induction b e rule: fwd_domain.induct)
  case (1 b e)
  then show ?case by (cases "e < length b \<and> is_domain (b ! e)") (auto simp: fwd_domain.simps[of b e])
qed

lemma trim_domain_bounds: "lo \<le> e \<Longrightarrow> lo \<le> trim_domain b lo e \<and> trim_domain b lo e \<le> e"
  by (induction e) (auto simp: le_Suc_eq)

lemma email_at_ok:
  assumes "sp \<in> set (email_at b al k)" "k < length b" "b ! k = CHR ''@''"
  shows "span_ok b sp \<and> sp_det sp = Email"
proof -
  define s e where "s = back_local b k" and "e = trim_domain b (Suc k) (fwd_domain b (Suc k))"
  have b1: "s \<le> k" "k < e" "e \<le> length b"
    using back_local_le[of b k] fwd_domain_bounds[of "k + 1" b] trim_domain_bounds[of "Suc k" "fwd_domain b (Suc k)" b] assms(2)
    by (auto simp: s_def e_def)
  then have "b ! k = byte_slice b s e ! (k - s)" "k - s < length (byte_slice b s e)" by (auto simp: byte_slice_def)
  then have "CHR ''@'' \<in> set (byte_slice b s e)" using assms(3) nth_mem[of "k - s" "byte_slice b s e"] by simp
  then show ?thesis using assms(1) b1
    by (auto simp: email_at_def Let_def s_def[symmetric] e_def[symmetric] span_ok_def byte_slice_def split: if_splits)
qed

lemma scan_email_ok: "sp \<in> set (scan_email b al) \<Longrightarrow> span_ok b sp \<and> sp_det sp = Email"
  by (auto simp: scan_email_def dest: email_at_ok)

lemma raw_spans_ok: "sp \<in> set (raw_spans t cfg al) \<Longrightarrow> span_ok t sp \<and> mode_for cfg (sp_det sp) \<noteq> DlpOff"
  by (auto simp: raw_spans_def mode_for_def split: if_splits
      dest!: scan_digit_runs_ok scan_ssn_ok scan_iban_ok scan_email_ok)

section \<open>Choosing spans\<close>

lemma drop_overlaps_subset: "set (drop_overlaps p ss) \<subseteq> set ss"
  by (induction p ss rule: drop_overlaps.induct) auto

lemma drop_overlaps_after:
  assumes "list_all (\<lambda>s. sp_start s < sp_end s) ss" "q \<in> set (drop_overlaps (Some p) ss)"
  shows "sp_end p \<le> sp_start q"
  using assms
proof (induction ss arbitrary: p)
  case (Cons s ss)
  then show ?case by (fastforce split: if_splits)
qed simp

lemma drop_overlaps_ordered:
  "list_all (\<lambda>s. sp_start s < sp_end s) ss \<Longrightarrow> sorted_wrt (\<lambda>a b. sp_end a \<le> sp_start b) (drop_overlaps p ss)"
  by (induction p ss rule: drop_overlaps.induct) (auto dest: drop_overlaps_after)

text \<open>A span whose start another span reaches over.\<close>

definition covers :: "span \<Rightarrow> span \<Rightarrow> bool" where
  "covers k s \<longleftrightarrow> sp_start k \<le> sp_start s \<and> sp_start s < sp_end k"

lemma drop_overlaps_covers:
  assumes "sorted_wrt (\<lambda>a b. sp_start a \<le> sp_start b) ss" "list_all (\<lambda>s. sp_start s < sp_end s) ss" "s \<in> set ss"
  shows "list_ex (\<lambda>k. covers k s) (drop_overlaps p ss) \<or> (\<exists>q. p = Some q \<and> sp_start s < sp_end q)"
  using assms
proof (induction p ss rule: drop_overlaps.induct)
  case (2 p x ss)
  show ?case
  proof (cases "case p of None \<Rightarrow> True | Some q \<Rightarrow> sp_start x \<ge> sp_end q")
    case True
    have "covers x s \<or> list_ex (\<lambda>k. covers k s) (drop_overlaps (Some x) ss)"
    proof (cases "s = x")
      case True then show ?thesis using 2(4) by (simp add: covers_def)
    next
      case False
      then show ?thesis using 2(1)[OF True] 2(3-5) by (auto simp: covers_def)
    qed
    then show ?thesis using True by simp
  next
    case False
    then obtain q where q: "p = Some q" "sp_start x < sp_end q" by (auto split: option.splits)
    show ?thesis
    proof (cases "s = x")
      case False
      have "list_ex (\<lambda>k. covers k s) (drop_overlaps p ss) \<or> (\<exists>q. p = Some q \<and> sp_start s < sp_end q)"
        by (rule 2(2)) (use \<open>s \<noteq> x\<close> \<open>\<not> (case p of None \<Rightarrow> True | Some q \<Rightarrow> sp_start x \<ge> sp_end q)\<close> 2(3-5) in auto)
      then show ?thesis using q by auto
    qed (use q in auto)
  qed
qed simp

lemma raw_sorted:
  "sorted_wrt (\<lambda>a b. sp_start a \<le> sp_start b) (sort_key (\<lambda>s. (sp_start s, - int (sp_end s))) ss)"
proof -
  have "sorted (map (\<lambda>s. (sp_start s, - int (sp_end s))) (sort_key (\<lambda>s. (sp_start s, - int (sp_end s))) ss))"
    by (rule sorted_sort_key)
  then show ?thesis by (auto simp: sorted_map less_eq_prod_def intro: sorted_wrt_mono_rel[rotated])
qed

lemma raw_nonempty: "list_all (\<lambda>s. sp_start s < sp_end s) (sort_key f (raw_spans t cfg al))"
  by (auto simp: list_all_iff span_ok_def dest: raw_spans_ok)

lemma scan_text_ok: "sp \<in> set (scan_text t cfg al) \<Longrightarrow> span_ok t sp \<and> mode_for cfg (sp_det sp) \<noteq> DlpOff"
  using drop_overlaps_subset by (fastforce simp: scan_text_def dest: raw_spans_ok)

lemma scan_text_ordered: "sorted_wrt (\<lambda>a b. sp_end a \<le> sp_start b) (scan_text t cfg al)"
  unfolding scan_text_def by (rule drop_overlaps_ordered[OF raw_nonempty])

lemma scan_text_covers: "s \<in> set (raw_spans t cfg al) \<Longrightarrow> list_ex (\<lambda>k. covers k s) (scan_text t cfg al)"
  unfolding scan_text_def using drop_overlaps_covers[OF raw_sorted raw_nonempty, where s = s and p = None] by auto

section \<open>Masking\<close>

text \<open>The reference: the text in one pass from the left, each span replaced by its placeholder.\<close>

fun splice :: "nat \<Rightarrow> span list \<Rightarrow> string \<Rightarrow> string" where
  "splice pos [] t = drop pos t"
| "splice pos (sp # ss) t = byte_slice t pos (sp_start sp) @ mask_placeholder (sp_det sp) @ splice (sp_end sp) ss t"

text \<open>What masking relies on of the spans: they lie in the text, in order and disjoint.\<close>

locale span_source =
  fixes spans :: "string \<Rightarrow> span list"
  assumes bounded: "sp \<in> set (spans t) \<Longrightarrow> sp_start sp < sp_end sp \<and> sp_end sp \<le> length t"
    and ordered: "sorted_wrt (\<lambda>a b. sp_end a \<le> sp_start b) (spans t)"
begin

lemma mask_body_from:
  assumes "sorted_wrt (\<lambda>a b. sp_end a \<le> sp_start b) ss" "set ss \<subseteq> set (spans t)"
    "\<forall>s \<in> set ss. pos \<le> sp_start s"
  shows "mask_body ss t = take pos t @ splice pos ss t"
  using assms
proof (induction ss arbitrary: pos)
  case (Cons s ss)
  have b: "sp_start s < sp_end s" "sp_end s \<le> length t" "pos \<le> sp_start s" using Cons.prems bounded by auto
  have "mask_body ss t = take (sp_end s) t @ splice (sp_end s) ss t"
    by (rule Cons.IH) (use Cons.prems in auto)
  then have "mask_body (s # ss) t = take (sp_start s) t @ mask_placeholder (sp_det s) @ splice (sp_end s) ss t"
    using b by (simp add: mask_body_def replace_range_def min_def)
  also have "take (sp_start s) t = take pos t @ byte_slice t pos (sp_start s)"
    using b(3) by (metis byte_slice_def le_add_diff_inverse take_add)
  finally show ?case by simp
qed (simp add: mask_body_def)

lemma mask_splice: "mask_body (filter P (spans t)) t = splice 0 (filter P (spans t)) t"
  using mask_body_from[of "filter P (spans t)" t 0] ordered[of t] by (simp add: sorted_wrt_filter)

end

interpretation scan: span_source "\<lambda>t. scan_text t cfg al" for cfg al
  by unfold_locales (auto simp: scan_text_ordered span_ok_def dest: scan_text_ok)

section \<open>Hits\<close>

text \<open>A finding of the encoded scan: the spans are those of the decoded text, and the decoded bytes
  were paid for out of the budget.\<close>

definition finding_ok :: "dlp_config \<Rightarrow> string list \<Rightarrow> finding \<Rightarrow> bool" where
  "finding_ok cfg al f = (case f of (label, off, txt, spans) \<Rightarrow> spans = scan_text txt cfg al)"

definition decoded_len :: "finding \<Rightarrow> nat" where
  "decoded_len f = (case f of (label, off, txt, spans) \<Rightarrow> length txt)"

definition scan_paid :: "dlp_config \<Rightarrow> string list \<Rightarrow> scan_state \<Rightarrow> finding list \<times> scan_state \<Rightarrow> bool" where
  "scan_paid cfg al st r \<longleftrightarrow> list_all (finding_ok cfg al) (fst r)
     \<and> sum_list (map decoded_len (fst r)) + fst (snd r) \<le> fst st"

lemma scan_paid_seq:
  assumes "scan_paid cfg al st (f1, st1)" "scan_paid cfg al st1 (f2, st2)"
  shows "scan_paid cfg al st (f1 @ f2, st2)"
  using assms by (auto simp: scan_paid_def)

lemma scan_paid_skip [simp]: "scan_paid cfg al st ([], st)"
  by (simp add: scan_paid_def)

lemma charge_True: "charge n st = (True, st') \<Longrightarrow> fst st' + n = fst st"
  by (auto simp: charge_def split: prod.splits if_splits)

lemma charge_False: "charge n st = (False, st') \<Longrightarrow> fst st' = fst st"
  by (auto simp: charge_def split: prod.splits if_splits)

lemma scan_percent_paid: "scan_paid cfg al st (scan_percent text cfg al st)"
  by (auto simp: scan_percent_def scan_paid_def finding_ok_def decoded_len_def Let_def
      split: option.splits prod.splits bool.splits dest: charge_True charge_False)

text \<open>What the encoded scan relies on of \<open>hex::decode\<close>: half as many bytes as digits. (The base64
  decoders are charged by the length of what they return.)\<close>

definition decoders_ok :: "decoders \<Rightarrow> bool" where
  "decoders_ok dec \<longleftrightarrow> (\<forall>run txt. hex_decode dec run = Some txt \<longrightarrow> length txt = length run div 2)"

lemma try_b64_paid: "scan_paid cfg al st (try_b64 es cfg al start tr st)"
  by (induction es) (auto simp: scan_paid_def finding_ok_def decoded_len_def
      split: option.splits prod.splits bool.splits dest: charge_True charge_False)

lemma try_hex_paid:
  assumes "decoders_ok dec"
  shows "try_hex dec cfg al start run st = (Some f, st') \<Longrightarrow> scan_paid cfg al st ([f], st')"
    and "try_hex dec cfg al start run st = (None, st') \<Longrightarrow> fst st' \<le> fst st"
  using assms by (auto simp: try_hex_def scan_paid_def finding_ok_def decoded_len_def decoders_ok_def
      split: option.splits prod.splits bool.splits if_splits dest!: charge_True charge_False)

lemma scan_run_paid:
  assumes "decoders_ok dec"
  shows "scan_paid cfg al st (scan_run dec cfg al start run st)"
proof (cases "try_hex dec cfg al start run st" rule: prod.exhaust)
  case (Pair o' st')
  show ?thesis
  proof (cases o')
    case None
    then have "fst st' \<le> fst st" using Pair try_hex_paid(2)[OF assms] by blast
    moreover have "scan_paid cfg al st' (try_b64 es cfg al start (trim_pad run) st')" for es
      by (rule try_b64_paid)
    ultimately show ?thesis using Pair None unfolding scan_run_def scan_paid_def
      by (auto simp del: try_b64.simps intro: order_trans)
  qed (use Pair try_hex_paid(1)[OF assms] in \<open>auto simp: scan_run_def\<close>)
qed

lemma scan_runs_paid:
  assumes "decoders_ok dec"
  shows "scan_paid cfg al st (scan_runs dec cfg al b i st)"
proof (induction "length b - i" arbitrary: i st rule: less_induct)
  case less
  let ?e = "run_end b i"
  obtain fs st' where r: "scan_run dec cfg al i (take (?e - i) (drop i b)) st = (fs, st')" by (metis surj_pair)
  obtain fs' st'' where rs: "scan_runs dec cfg al b (max ?e (Suc i)) st' = (fs', st'')" by (metis surj_pair)
  consider "\<not> i < length b" | "i < length b" "\<not> is_run_char (b ! i)" | "i < length b" "is_run_char (b ! i)" by blast
  then show ?case
  proof cases
    case 1 then show ?thesis by (simp add: scan_runs.simps)
  next
    case 2 then show ?thesis using less[of "Suc i" st] by (simp add: scan_runs.simps[of dec cfg al b i st])
  next
    case 3
    have "scan_paid cfg al st (fs, st')" using scan_run_paid[OF assms] r by metis
    moreover have "scan_paid cfg al st' (fs', st'')" using less[of "max ?e (Suc i)" st'] rs 3 by simp
    ultimately show ?thesis using 3 r rs scan_paid_seq
      by (simp add: scan_runs.simps[of dec cfg al b i st] Let_def)
  qed
qed

lemma scan_encoded_paid:
  assumes "decoders_ok dec"
  shows "scan_paid cfg al st (scan_encoded dec text cfg al st)"
proof -
  obtain f1 st1 where p: "scan_percent text cfg al st = (f1, st1)" by (metis surj_pair)
  obtain f2 st2 where r: "scan_runs dec cfg al text 0 st1 = (f2, st2)" by (metis surj_pair)
  show ?thesis
    using scan_paid_seq[of cfg al st f1 st1 f2 st2] scan_percent_paid[of cfg al st "text"] scan_runs_paid[OF assms, of cfg al st1 "text" 0]
    by (simp add: scan_encoded_def p r)
qed


text \<open>A hit of an enabled detector; mask mode survives only on a span of the plain body.\<close>

definition hit_ok :: "hit \<Rightarrow> bool" where
  "hit_ok h = (case h_mode h of DlpOff \<Rightarrow> False | DlpMask \<Rightarrow> h_seen_in h = ''body'' | _ \<Rightarrow> True)"

lemma mk_hit_ok:
  assumes "mode_for cfg (sp_det sp) \<noteq> DlpOff" "maskable \<Longrightarrow> loc = ''body''"
  shows "hit_ok (mk_hit cr cfg salt maskable text loc off sp)"
  using assms by (auto simp: hit_ok_def mk_hit_def split: dlp_mode.splits)

lemma scan_location_hits_ok:
  assumes "decoders_ok dec" "maskable \<Longrightarrow> loc = ''body''"
  shows "list_all hit_ok (fst (scan_location cr dec cfg salt al maskable loc text st))"
proof -
  have "list_all (finding_ok cfg al) (fst (scan_encoded dec text cfg al st))"
    using scan_encoded_paid[OF assms(1)] by (simp add: scan_paid_def)
  then have "list_all (\<lambda>f. list_all hit_ok (finding_hits cr cfg salt loc f)) (fst (scan_encoded dec text cfg al st))"
    by (fastforce simp: list_all_iff finding_hits_def finding_ok_def dest: scan_text_ok intro: mk_hit_ok)
  then show ?thesis using assms(2)
    by (auto simp: scan_location_def Let_def list_all_iff split_beta dest: scan_text_ok intro!: mk_hit_ok)
qed

lemma scan_headers_hits_ok:
  assumes "decoders_ok dec"
  shows "list_all hit_ok (fst (scan_headers cr dec cfg salt al hs st))"
proof (induction hs arbitrary: st)
  case (Cons h hs)
  obtain n v where h: "h = (n, v)" by fastforce
  show ?case
    using Cons scan_location_hits_ok[OF assms, of False "''header:'' @ to_ascii_lowercase n" cr cfg salt al v st]
    by (simp add: h Let_def split_beta)
qed simp

section \<open>Check digits\<close>

lemma luhn_digit_inj:
  "x < 10 \<Longrightarrow> y < 10 \<Longrightarrow> luhn_digit i x = luhn_digit i y \<longleftrightarrow> x = y"
  "x < 10 \<Longrightarrow> luhn_digit i x < 10"
  by (auto simp: luhn_digit_def split: if_splits) presburger+

lemma luhn_sum_append: "luhn_sum i (xs @ ys) = luhn_sum i xs + luhn_sum (i + length xs) ys"
  by (induction xs arbitrary: i) auto

lemma luhn_sum_update:
  assumes "k < length ds"
  shows "luhn_sum i (ds[k := x]) + luhn_digit (i + k) (ds ! k) = luhn_sum i ds + luhn_digit (i + k) x"
  using assms
proof (induction ds arbitrary: i k)
  case (Cons d ds)
  show ?case
  proof (cases k)
    case (Suc m)
    then show ?thesis using Cons.IH[of m "Suc i"] Cons.prems by simp
  qed simp
qed simp

lemma luhn_single_error:
  assumes "luhn d" "list_all (\<lambda>y. y < 10) d" "k < length d" "x < 10" "x \<noteq> d ! k"
  shows "\<not> luhn (d[k := x])"
proof
  let ?r = "rev d" and ?k = "length d - Suc k"
  have rk: "?r ! ?k = d ! k" "?k < length ?r" using assms(3) by (simp_all add: rev_nth)
  have ru: "rev (d[k := x]) = ?r[?k := x]" using assms(3) by (simp add: rev_update)
  assume "luhn (d[k := x])"
  then have z: "luhn_sum 0 (?r[?k := x]) mod 10 = 0" "luhn_sum 0 ?r mod 10 = 0"
    using assms(1) by (simp_all add: luhn_def ru)
  have "(luhn_sum 0 (?r[?k := x]) + luhn_digit ?k (d ! k)) mod 10 = (luhn_sum 0 ?r + luhn_digit ?k x) mod 10"
    using luhn_sum_update[OF rk(2), of 0 x] rk(1) by simp
  then have "luhn_digit ?k (d ! k) mod 10 = luhn_digit ?k x mod 10"
    using z by (metis add_0 mod_add_left_eq)
  moreover have "d ! k < 10" using assms(2,3) by (simp add: list_all_length)
  ultimately show False using luhn_digit_inj assms(4,5) by (metis mod_less)
qed

text \<open>The number an IBAN spells: each letter is two digits.\<close>

definition iban_number :: "string \<Rightarrow> nat" where
  "iban_number s = foldl (\<lambda>n c. if iban_value c < 10 then n * 10 + iban_value c else n * 100 + iban_value c) 0 s"

lemma iban_foldl_mod:
  "foldl iban_step (n mod 97) s =
     foldl (\<lambda>n c. if iban_value c < 10 then n * 10 + iban_value c else n * 100 + iban_value c) n s mod 97"
proof (induction s arbitrary: n)
  case (Cons c s)
  have "iban_step (n mod 97) c = (if iban_value c < 10 then n * 10 + iban_value c else n * 100 + iban_value c) mod 97"
    by (simp add: iban_step_def Let_def mod_add_left_eq mod_mult_left_eq) (metis mod_add_left_eq mod_mult_left_eq)
  then show ?case using Cons by simp
qed simp

lemma iban_mod97_number: "iban_mod97 s = iban_number (drop 4 s @ take 4 s) mod 97"
  using iban_foldl_mod[of 0 "drop 4 s @ take 4 s"] by (simp add: iban_mod97_def iban_number_def)

section \<open>Percent coding\<close>

lemma hex_val_upper: "n < 16 \<Longrightarrow> hex_val (hex_digit_upper n) = Some n"
  by (auto simp: hex_val_def hex_digit_upper_def Let_def)

lemma unreserved_not_percent: "is_unreserved b \<Longrightarrow> b \<noteq> CHR ''%''"
  by (auto simp: is_unreserved_def ascii_class_defs)

lemma percent_bytes_plain: "c \<noteq> CHR ''%'' \<Longrightarrow> percent_bytes (c # s) = c # percent_bytes s"
  by (cases s; cases "tl s") auto

lemma percent_roundtrip: "percent_bytes (percent_encode s) = s"
proof (induction s)
  case (Cons b s)
  have "bval b div 16 < 16" "bval b mod 16 < 16" "char_of (bval b div 16 * 16 + bval b mod 16) = b"
    using of_char_of[of "bval b"] by (auto simp: div_mult_mod_eq less_mult_imp_div_less)
  then show ?case using Cons unreserved_not_percent[of b]
    by (auto simp: percent_bytes_plain hex_val_upper)
qed simp

section \<open>The request scan\<close>

abbreviation allow_of :: "dlp_config \<Rightarrow> string list" where
  "allow_of cfg \<equiv> map normalize_allow (d_allow cfg)"

lemma detect_apply_request:
  "fst (detect_apply cr dec q cfg salt) =
     (if list_all (\<lambda>d. mode_for cfg d = DlpOff) ALL_DETECTORS \<or> \<not> utf8_valid (q_body q) then q
      else q\<lparr>q_body := splice 0 (mask_spans cfg (scan_text (q_body q) cfg (allow_of cfg))) (q_body q)\<rparr>)"
proof -
  have "mask_body (mask_spans cfg (scan_text (q_body q) cfg (allow_of cfg))) (q_body q)
      = splice 0 (mask_spans cfg (scan_text (q_body q) cfg (allow_of cfg))) (q_body q)"
    unfolding mask_spans_def by (rule scan.mask_splice)
  then show ?thesis by (simp add: detect_apply_def Let_def split_beta mask_body_def)
qed

lemma detect_apply_hits_ok:
  assumes "decoders_ok dec"
  shows "list_all hit_ok (hits (snd (detect_apply cr dec q cfg salt)))"
  using scan_location_hits_ok[OF assms, of False "''path''"] scan_location_hits_ok[OF assms, of True "''body''"]
    scan_headers_hits_ok[OF assms]
  by (simp add: detect_apply_def Let_def split_beta)

lemma all_off_iff: "list_all (\<lambda>d. mode_for cfg d = DlpOff) ALL_DETECTORS \<longleftrightarrow> (\<forall>d. mode_for cfg d = DlpOff)"
proof
  assume "list_all (\<lambda>d. mode_for cfg d = DlpOff) ALL_DETECTORS"
  then show "\<forall>d. mode_for cfg d = DlpOff"
    by (auto simp: ALL_DETECTORS_def mode_for_def split: detector.split)
qed (simp add: list_all_iff)

lemma scan_location_plain:
  "sp \<in> set (scan_text t cfg al) \<Longrightarrow>
     mk_hit cr cfg salt m t loc (sp_start sp) sp \<in> set (fst (scan_location cr dec cfg salt al m loc t st))"
  by (simp add: scan_location_def Let_def split_beta)

lemma scan_headers_plain:
  "(n, v) \<in> set hs \<Longrightarrow> sp \<in> set (scan_text v cfg al) \<Longrightarrow>
     \<exists>loc. mk_hit cr cfg salt False v loc (sp_start sp) sp \<in> set (fst (scan_headers cr dec cfg salt al hs st))"
proof (induction hs arbitrary: st)
  case (Cons h hs)
  obtain a w where h: "h = (a, w)" by fastforce
  show ?case
  proof (cases "(n, v) = h")
    case True
    then show ?thesis using h scan_location_plain[OF Cons.prems(2), of cr salt False "''header:'' @ to_ascii_lowercase n" dec st]
      by (simp add: Let_def split_beta) blast
  next
    case False
    then have "(n, v) \<in> set hs" using Cons.prems by simp
    from Cons.IH[OF this Cons.prems(2)] show ?thesis by (simp add: h Let_def split_beta) blast
  qed
qed simp

lemma detect_apply_hits:
  assumes "\<not> list_all (\<lambda>d. mode_for cfg d = DlpOff) ALL_DETECTORS"
  shows "\<exists>st1 st2. hits (snd (detect_apply cr dec q cfg salt)) =
     fst (scan_location cr dec cfg salt (allow_of cfg) False ''path'' (q_path q) (DECODE_BUDGET, False))
     @ fst (scan_headers cr dec cfg salt (allow_of cfg) (q_headers q) st1)
     @ (if utf8_valid (q_body q) then fst (scan_location cr dec cfg salt (allow_of cfg) True ''body'' (q_body q) st2) else [])"
proof -
  let ?p = "scan_location cr dec cfg salt (allow_of cfg) False ''path'' (q_path q) (DECODE_BUDGET, False)"
  let ?h = "scan_headers cr dec cfg salt (allow_of cfg) (q_headers q) (snd ?p)"
  have "hits (snd (detect_apply cr dec q cfg salt)) = fst ?p @ fst ?h
     @ (if utf8_valid (q_body q) then fst (scan_location cr dec cfg salt (allow_of cfg) True ''body'' (q_body q) (snd ?h)) else [])"
    using assms by (simp add: detect_apply_def Let_def split_beta)
  then show ?thesis by blast
qed

text \<open>The places a detector reads, with whether a mask can be applied there.\<close>

definition scanned :: "request_ctx \<Rightarrow> string \<Rightarrow> bool \<Rightarrow> bool" where
  "scanned q t maskable \<longleftrightarrow> (if maskable then t = q_body q \<and> utf8_valid t
     else t = q_path q \<or> t \<in> snd ` set (q_headers q))"

lemma detect_apply_plain:
  assumes "scanned q t m" "sp \<in> set (scan_text t cfg (allow_of cfg))"
  shows "\<exists>loc. mk_hit cr cfg salt m t loc (sp_start sp) sp \<in> set (hits (snd (detect_apply cr dec q cfg salt)))"
proof -
  have on: "\<not> list_all (\<lambda>d. mode_for cfg d = DlpOff) ALL_DETECTORS"
    using scan_text_ok[OF assms(2)] by (auto simp: all_off_iff)
  obtain st1 st2 where hits: "hits (snd (detect_apply cr dec q cfg salt)) =
     fst (scan_location cr dec cfg salt (allow_of cfg) False ''path'' (q_path q) (DECODE_BUDGET, False))
     @ fst (scan_headers cr dec cfg salt (allow_of cfg) (q_headers q) st1)
     @ (if utf8_valid (q_body q) then fst (scan_location cr dec cfg salt (allow_of cfg) True ''body'' (q_body q) st2) else [])"
    using detect_apply_hits[OF on] by blast
  consider "m" "t = q_body q" "utf8_valid t" | "\<not> m" "t = q_path q" | n where "\<not> m" "(n, t) \<in> set (q_headers q)"
    using assms(1) by (auto simp: scanned_def split: if_splits)
  then show ?thesis
  proof cases
    case 1
    then show ?thesis unfolding hits using scan_location_plain[OF assms(2), of cr salt m "''body''" dec st2] by auto
  next
    case 2
    then show ?thesis unfolding hits
      using scan_location_plain[OF assms(2), of cr salt m "''path''" dec "(DECODE_BUDGET, False)"] by auto
  next
    case 3
    then show ?thesis unfolding hits using scan_headers_plain[OF 3(2) assms(2), of cr salt dec st1] by auto
  qed
qed

section \<open>Claims\<close>

text \<open>C36: the spans reported for a text lie inside it, in order and without overlap; each is a true
  detection of an enabled detector (a Luhn-valid card number of a known network, a checksum-valid
  routing number, a well-shaped SSN, an IBAN with remainder 1, an address with an at sign) whose
  normal form is read off exactly the bytes between its ends; and no candidate is dropped unless a
  reported span reaches over its start.\<close>

theorem scan_text_spans:
  "sorted_wrt (\<lambda>a b. sp_end a \<le> sp_start b) (scan_text t cfg al)
   \<and> list_all (\<lambda>sp. span_ok t sp \<and> mode_for cfg (sp_det sp) \<noteq> DlpOff) (scan_text t cfg al)
   \<and> list_all (\<lambda>s. list_ex (\<lambda>k. covers k s) (scan_text t cfg al)) (raw_spans t cfg al)"
  by (auto simp: list_all_iff scan_text_ordered scan_text_covers dest: scan_text_ok)

text \<open>Applying the detectors changes at most the body, and the new body is the old one with each
  mask-mode span replaced by its placeholder and every other byte kept in place; a body that is not
  UTF-8, or a configuration with everything off, leaves the request as it was.\<close>

theorem detect_apply_masks:
  "fst (detect_apply cr dec q cfg salt) =
     (if list_ex (\<lambda>d. mode_for cfg d \<noteq> DlpOff) ALL_DETECTORS \<and> utf8_valid (q_body q)
      then q\<lparr>q_body := splice 0 (mask_spans cfg (scan_text (q_body q) cfg (map normalize_allow (d_allow cfg)))) (q_body q)\<rparr>
      else q)"
  by (auto simp: detect_apply_request list_all_iff list_ex_iff)

text \<open>A detection that cannot be masked where it stands (in the path, a header or an encoded
  window) never keeps mask mode, it blocks; and no hit carries the mode off.\<close>

theorem detect_fails_closed:
  "decoders_ok dec \<Longrightarrow> list_all hit_ok (hits (snd (detect_apply cr dec q cfg salt)))"
  by (rule detect_apply_hits_ok)

definition demo_decoders :: decoders where
  "demo_decoders = \<lparr>hex_decode = (\<lambda>_. None), b64_std_decode = (\<lambda>_. None), b64_url_decode = (\<lambda>_. None)\<rparr>"

lemma demo_decoders_ok: "decoders_ok demo_decoders"
  by (simp add: decoders_ok_def demo_decoders_def)

theorem detect_fails_closed_witness:
  "decoders_ok demo_decoders \<and> list_all hit_ok (hits (snd (detect_apply demo_crypto demo_decoders
     (sample_leak ''/x'' ''4539578763621486'') (dlp_config_default\<lparr>d_pan := DlpMask\<rparr>) [])))"
  using detect_fails_closed[OF demo_decoders_ok] demo_decoders_ok by blast

text \<open>A block-mode detection in the path, a header value or the UTF-8 body makes the outcome
  blocking, and so does a mask-mode detection in the path or a header value.\<close>

theorem detect_blocks:
  assumes "scanned q t m"
    and "list_ex (\<lambda>sp. mode_for cfg (sp_det sp) = DlpBlock \<or> mode_for cfg (sp_det sp) = DlpMask \<and> \<not> m)
      (scan_text t cfg (map normalize_allow (d_allow cfg)))"
  shows "has_blocking (snd (detect_apply cr dec q cfg salt))"
proof -
  obtain sp where sp: "sp \<in> set (scan_text t cfg (allow_of cfg))"
    "mode_for cfg (sp_det sp) = DlpBlock \<or> mode_for cfg (sp_det sp) = DlpMask \<and> \<not> m"
    using assms(2) by (auto simp: list_ex_iff)
  from detect_apply_plain[OF assms(1) sp(1)] sp(2) show ?thesis
    by (auto simp: has_blocking_def list_ex_iff mk_hit_def) force+
qed

abbreviation mask_cards :: dlp_config where
  "mask_cards \<equiv> dlp_config_default\<lparr>d_pan := DlpMask\<rparr>"

theorem detect_blocks_witness:
  "scanned (sample_leak ''n=4539578763621486'' []) ''n=4539578763621486'' False
   \<and> has_blocking (snd (detect_apply demo_crypto demo_decoders (sample_leak ''n=4539578763621486'' []) mask_cards []))"
proof -
  have s: "scanned (sample_leak ''n=4539578763621486'' []) ''n=4539578763621486'' False"
    by (simp add: scanned_def sample_leak_def)
  have "list_ex (\<lambda>sp. mode_for mask_cards (sp_det sp) = DlpBlock \<or> mode_for mask_cards (sp_det sp) = DlpMask \<and> \<not> False)
      (scan_text ''n=4539578763621486'' mask_cards (map normalize_allow (d_allow mask_cards)))" by code_simp
  with s show ?thesis using detect_blocks[OF s] by blast
qed

text \<open>The decode budget bounds the work of the encoded scan: the decoded text of all findings,
  together with what is left of the budget, is never more than the budget it started with, and each
  finding's spans are those of its decoded text.\<close>

theorem scan_encoded_budget:
  assumes "decoders_ok dec"
  shows "sum_list (map decoded_len (fst (scan_encoded dec text cfg al st))) + fst (snd (scan_encoded dec text cfg al st)) \<le> fst st
     \<and> list_all (finding_ok cfg al) (fst (scan_encoded dec text cfg al st))"
  using scan_encoded_paid[OF assms] by (simp add: scan_paid_def)

theorem scan_encoded_budget_witness:
  "decoders_ok demo_decoders
   \<and> sum_list (map decoded_len (fst (scan_encoded demo_decoders ''%34'' mask_cards [] (DECODE_BUDGET, False))))
       + fst (snd (scan_encoded demo_decoders ''%34'' mask_cards [] (DECODE_BUDGET, False))) \<le> DECODE_BUDGET"
  using scan_encoded_budget[OF demo_decoders_ok, of "''%34''" mask_cards "[]" "(DECODE_BUDGET, False)"] demo_decoders_ok by simp

text \<open>The Luhn check rejects every number that differs from a valid one in a single digit.\<close>

theorem luhn_detects_single_error:
  assumes "luhn d" "list_all (\<lambda>y. y < 10) d" "k < length d" "x < 10" "x \<noteq> d ! k"
  shows "\<not> luhn (d[k := x])"
  using assms by (rule luhn_single_error)

theorem luhn_detects_single_error_witness:
  "luhn [7, 9, 9, 2, 7, 3, 9, 8, 7, 1, 3] \<and> \<not> luhn ([7, 9, 9, 2, 7, 3, 9, 8, 7, 1, 3][2 := 4])"
proof -
  have "luhn [7, 9, 9, 2, 7, 3, 9, 8, 7, 1, 3]" by code_simp
  then show ?thesis using luhn_detects_single_error[of "[7, 9, 9, 2, 7, 3, 9, 8, 7, 1, 3]" 2 4] by simp
qed

text \<open>The streaming IBAN remainder equals the remainder by 97 of the whole number the
  rearranged IBAN spells, letters counting as two digits.\<close>

theorem iban_mod97_correct: "iban_mod97 s = iban_number (drop 4 s @ take 4 s) mod 97"
  by (rule iban_mod97_number)

text \<open>Percent decoding inverts the percent encoding that the tripwire searches for.\<close>

theorem percent_decode_encode:
  "percent_decode (percent_encode s) = (if utf8_valid s then Some s else None)"
  by (simp add: percent_decode_def percent_roundtrip)

end
