(* ===== verification/Watch.thy ===== *)
theory Watch
  imports Policy
begin

text \<open>
  \<^verbatim>\<open>src/src/watch.rs\<close>: the spend tripwire. Two detectors over bounded rings, repeated
  fingerprints and spend rate, and the trip state they set. Times are \<open>u64\<close> seconds. The one
  division whose divisor a configuration can make zero is written with the IEEE result.
\<close>

section \<open>Data\<close>

definition MAX_EVENTS :: nat where "MAX_EVENTS = 4096"
definition BASELINE_MIN_SECS :: u64 where "BASELINE_MIN_SECS = 600"

definition watch_fingerprint :: "crypto \<Rightarrow> bytes \<Rightarrow> string \<Rightarrow> string \<Rightarrow> string \<Rightarrow> bytes \<Rightarrow> string" where
  "watch_fingerprint cr salt host path method body =
     hex_encode cr (take 8 (sha256 cr
       (salt @ host @ [CHR 0x00] @ path @ [CHR 0x00] @ method @ [CHR 0x00] @ body)))"

record trip =
  t_ts :: string
  t_kind :: string
  t_reason :: string
  t_fingerprint :: string
  t_count :: u32
  t_window_secs :: u64
  t_sid :: string

text \<open>A quotient of non-negative floats: finite, or the values of a division by zero.\<close>

datatype fquot = Fin real | PosInf | NaN

definition fdiv :: "real \<Rightarrow> real \<Rightarrow> fquot" where
  "fdiv a b = (if b \<noteq> 0 then Fin (a / b) else if a > 0 then PosInf else NaN)"

definition fquot_gt :: "fquot \<Rightarrow> real \<Rightarrow> bool" where
  "fquot_gt q x = (case q of Fin y \<Rightarrow> y > x | PosInf \<Rightarrow> True | NaN \<Rightarrow> False)"

datatype signal = Repeat string u32 | Rate usd fquot real

text \<open>\<open>format!("{x:.2}")\<close> on a non-negative amount (round half to even), and \<open>f64::round\<close>
  (half away from zero) printed with \<open>{}\<close>.\<close>

definition fmt2 :: "real \<Rightarrow> string" where
  "fmt2 x = (let n = nat (round_half_even (100 * x)) in
     show_nat (n div 100) @ ''.'' @ show_nat (n mod 100 div 10) @ show_nat (n mod 10))"

definition fmt2_quot :: "fquot \<Rightarrow> string" where
  "fmt2_quot q = (case q of Fin x \<Rightarrow> fmt2 x | PosInf \<Rightarrow> ''inf'' | NaN \<Rightarrow> ''NaN'')"

definition fmt_ratio :: "fquot \<Rightarrow> real \<Rightarrow> string" where
  "fmt_ratio q base = (case q of
     Fin x \<Rightarrow> show_nat (nat \<lfloor>x / base + 1 / 2\<rfloor>) | PosInf \<Rightarrow> ''inf'' | NaN \<Rightarrow> ''NaN'')"

definition to_trip :: "signal \<Rightarrow> u64 \<Rightarrow> string \<Rightarrow> string \<Rightarrow> trip" where
  "to_trip sig window_secs ts sid = (case sig of
     Repeat fp n \<Rightarrow>
       \<lparr>t_ts = ts, t_kind = ''repeat'',
        t_reason = ''identical request repeated '' @ show_nat (unat n) @ ''x in ''
          @ show_nat (unat window_secs) @ ''s (fingerprint '' @ fp @ '')'',
        t_fingerprint = fp, t_count = n, t_window_secs = window_secs, t_sid = sid\<rparr>
   | Rate window_usd per_min baseline \<Rightarrow>
       \<lparr>t_ts = ts, t_kind = ''rate'',
        t_reason = ''spend rate $'' @ fmt2_quot per_min @ ''/min ($'' @ fmt2 window_usd @ '' in ''
          @ show_nat (unat window_secs) @ ''s) is '' @ fmt_ratio per_min baseline
          @ ''x the session baseline of $'' @ fmt2 baseline @ ''/min'',
        t_fingerprint = [], t_count = 0, t_window_secs = window_secs, t_sid = sid\<rparr>)"

record watch =
  w_recent :: "(u64 \<times> string) list"
  w_costs :: "(u64 \<times> usd) list"
  w_session_started :: u64
  w_session_spend :: usd
  w_tripped :: "trip option"

section \<open>Operations\<close>

definition watch_new :: "u64 \<Rightarrow> trip option \<Rightarrow> watch" where
  "watch_new now persisted = \<lparr>w_recent = [], w_costs = [], w_session_started = now,
     w_session_spend = 0, w_tripped = persisted\<rparr>"

definition set_tripped :: "trip option \<Rightarrow> watch \<Rightarrow> watch" where
  "set_tripped t w = (if t = None then w\<lparr>w_recent := [], w_costs := [], w_tripped := t\<rparr>
     else w\<lparr>w_tripped := t\<rparr>)"

definition prune :: "u64 \<Rightarrow> u64 \<Rightarrow> watch \<Rightarrow> watch" where
  "prune window_secs now w =
     (let cutoff = saturating_sub now window_secs in
      w\<lparr>w_recent := dropWhile (\<lambda>(t, _). t < cutoff) (w_recent w),
        w_costs := dropWhile (\<lambda>(t, _). t < cutoff) (w_costs w)\<rparr>)"

text \<open>\<open>push_back\<close>, then \<open>pop_front\<close> past the ring's capacity.\<close>

definition push_ring :: "'a \<Rightarrow> 'a list \<Rightarrow> 'a list" where
  "push_ring x xs = (if length (xs @ [x]) > MAX_EVENTS then tl (xs @ [x]) else xs @ [x])"

definition count_fp :: "string \<Rightarrow> (u64 \<times> string) list \<Rightarrow> u32" where
  "count_fp fp xs = word_of_nat (length (filter (\<lambda>(_, f). f = fp) xs))"

text \<open>The rate detector on an already pruned watch.\<close>

definition rate_signal :: "spend_tripwire_config \<Rightarrow> u64 \<Rightarrow> watch \<Rightarrow> signal option" where
  "rate_signal cfg now w =
     (let elapsed = saturating_sub now (w_session_started w);
          baseline_secs = saturating_sub elapsed (st_window_secs cfg) in
      if st_rate_multiplier cfg > 0 \<and> baseline_secs \<ge> BASELINE_MIN_SECS then
        (let window_usd = sum_list (map snd (w_costs w));
             prior_usd = max (w_session_spend w - window_usd) 0;
             per_min = fdiv window_usd (real (unat (st_window_secs cfg)) / 60);
             baseline_per_min = prior_usd / (real (unat baseline_secs) / 60) in
         if prior_usd > 0 \<and> window_usd \<ge> st_rate_floor_usd cfg
            \<and> fquot_gt per_min (baseline_per_min * st_rate_multiplier cfg)
         then Some (Rate window_usd per_min baseline_per_min) else None)
      else None)"

definition observe :: "spend_tripwire_config \<Rightarrow> u64 \<Rightarrow> string \<Rightarrow> watch \<Rightarrow> watch \<times> signal option" where
  "observe cfg now fp w =
     (if st_mode cfg = TripOff then (w, None)
      else
        let w1 = prune (st_window_secs cfg) now w;
            w2 = w1\<lparr>w_recent := push_ring (now, fp) (w_recent w1)\<rparr>;
            n = count_fp fp (w_recent w2) in
        if st_repeats cfg > 0 \<and> n \<ge> st_repeats cfg then (w2, Some (Repeat fp n))
        else (w2, rate_signal cfg now w2))"

definition observe_cost :: "u64 \<Rightarrow> usd \<Rightarrow> watch \<Rightarrow> watch" where
  "observe_cost now amount w =
     (if amount \<le> 0 then w
      else w\<lparr>w_session_spend := w_session_spend w + amount,
             w_costs := push_ring (now, amount) (w_costs w)\<rparr>)"

section \<open>The persisted trip\<close>

text \<open>\<open>trip.json\<close>: absent, present and parsing, or present and unreadable.\<close>

datatype trip_file = NoTripFile | GarbledTrip | SavedTrip trip

definition load_trip :: "trip_file \<Rightarrow> trip option" where
  "load_trip f = (case f of
     NoTripFile \<Rightarrow> None
   | SavedTrip t \<Rightarrow> Some t
   | GarbledTrip \<Rightarrow> Some \<lparr>t_ts = [], t_kind = ''unknown'',
       t_reason = ''trip.json is unreadable; treating the session as tripped'',
       t_fingerprint = [], t_count = 0, t_window_secs = 0, t_sid = []\<rparr>)"

definition save_trip :: "trip \<Rightarrow> trip_file" where
  "save_trip t = SavedTrip t"

definition clear_trip :: "trip_file \<Rightarrow> trip_file" where
  "clear_trip f = NoTripFile"

section \<open>Bounded rings\<close>

lemma push_ring_length: "length xs \<le> MAX_EVENTS \<Longrightarrow> length (push_ring x xs) \<le> MAX_EVENTS"
  by (auto simp: push_ring_def)

lemma push_ring_room: "length xs < MAX_EVENTS \<Longrightarrow> push_ring x xs = xs @ [x]"
  by (auto simp: push_ring_def)

lemma set_push_ring: "set (push_ring x xs) \<subseteq> insert x (set xs)"
  by (cases xs) (auto simp: push_ring_def)

lemma count_fp_exact:
  assumes "length xs \<le> MAX_EVENTS"
  shows "unat (count_fp fp xs) = length (filter (\<lambda>(_, f). f = fp) xs)"
proof -
  have "length (filter (\<lambda>(_, f). f = fp) xs) < 2 ^ LENGTH(32)"
    by (rule le_less_trans[OF length_filter_le le_less_trans[OF assms]]) (simp add: MAX_EVENTS_def)
  then show ?thesis by (simp add: count_fp_def unsigned_of_nat take_bit_nat_eq_self)
qed

lemma dropWhile_sum_le:
  "list_all (\<lambda>(_, a). 0 < a) xs \<Longrightarrow> sum_list (map snd (dropWhile P xs)) \<le> (sum_list (map snd xs) :: real)"
  by (induction xs) auto

lemma push_ring_sum_le:
  assumes "list_all (\<lambda>(_, a). (0::real) < a) xs"
  shows "sum_list (map snd (push_ring x xs)) \<le> sum_list (map snd xs) + snd x"
  using assms by (cases xs) (auto simp: push_ring_def MAX_EVENTS_def)

text \<open>What every watch keeps: both rings within their capacity, only positive amounts, and no more
  money in the window than the session has spent.\<close>

definition watch_ok :: "watch \<Rightarrow> bool" where
  "watch_ok w \<longleftrightarrow> length (w_recent w) \<le> MAX_EVENTS \<and> length (w_costs w) \<le> MAX_EVENTS
     \<and> list_all (\<lambda>(_, a). 0 < a) (w_costs w) \<and> sum_list (map snd (w_costs w)) \<le> w_session_spend w
     \<and> 0 \<le> w_session_spend w"

inductive watch_step :: "spend_tripwire_config \<Rightarrow> watch \<Rightarrow> watch \<Rightarrow> bool" for cfg where
  request: "watch_step cfg w (fst (observe cfg now fp w))"
| paid: "watch_step cfg w (observe_cost now amount w)"
| set_state: "watch_step cfg w (set_tripped t w)"

inductive watch_reachable :: "spend_tripwire_config \<Rightarrow> watch \<Rightarrow> bool" for cfg where
  init: "watch_reachable cfg (watch_new now persisted)"
| step: "watch_reachable cfg w \<Longrightarrow> watch_step cfg w w' \<Longrightarrow> watch_reachable cfg w'"

lemma prune_ok: "watch_ok w \<Longrightarrow> watch_ok (prune win now w)"
  using dropWhile_sum_le[of "w_costs w"] length_dropWhile_le[of _ "w_costs w"] length_dropWhile_le[of _ "w_recent w"]
  by (auto simp: watch_ok_def prune_def Let_def list_all_iff dest: set_dropWhileD intro: order_trans)

lemma observe_ok: "watch_ok w \<Longrightarrow> watch_ok (fst (observe cfg now fp w))"
  using prune_ok[of w "st_window_secs cfg" now] push_ring_length
  by (auto simp: observe_def watch_ok_def Let_def)

lemma observe_cost_ok:
  assumes "watch_ok w"
  shows "watch_ok (observe_cost now amount w)"
  using assms push_ring_length[of "w_costs w" "(now, amount)"] push_ring_sum_le[of "w_costs w" "(now, amount)"]
    set_push_ring[of "(now, amount)" "w_costs w"]
  by (auto simp: observe_cost_def watch_ok_def list_all_iff)

lemma watch_step_ok: "watch_step cfg w w' \<Longrightarrow> watch_ok w \<Longrightarrow> watch_ok w'"
  by (induction rule: watch_step.induct) (auto simp: observe_ok observe_cost_ok, auto simp: set_tripped_def watch_ok_def)

lemma watch_reachable_inv: "watch_reachable cfg w \<Longrightarrow> watch_ok w"
  by (induction rule: watch_reachable.induct) (auto simp: watch_step_ok, auto simp: watch_new_def watch_ok_def)

section \<open>Runs of identical requests\<close>

definition observe_run :: "spend_tripwire_config \<Rightarrow> string \<Rightarrow> u64 list \<Rightarrow> watch \<Rightarrow> watch" where
  "observe_run cfg fp ts w = fold (\<lambda>t w. fst (observe cfg t fp w)) ts w"

lemma saturating_sub_mono: "(a :: 'a::len word) \<le> b \<Longrightarrow> saturating_sub a c \<le> saturating_sub b c"
  by (simp add: word_le_nat_alt unat_saturating_sub)

lemma dropWhile_window:
  assumes "list_all (\<lambda>x. c \<le> x) ts" "d \<le> (c :: u64)"
  shows "dropWhile (\<lambda>(t, _). t < d) (map (\<lambda>x. (x, fp)) ts) = map (\<lambda>x. (x, fp)) ts"
  using assms by (cases ts) auto

lemma observe_recent:
  assumes "st_mode cfg \<noteq> TripOff" "w_recent w = map (\<lambda>x. (x, fp)) ts" "list_all (\<lambda>x. c \<le> x) ts"
    "saturating_sub t (st_window_secs cfg) \<le> c" "length ts < MAX_EVENTS"
  shows "w_recent (fst (observe cfg t fp w)) = map (\<lambda>x. (x, fp)) (ts @ [t])"
  using assms by (auto simp: observe_def prune_def Let_def push_ring_room dropWhile_window[OF assms(3,4)])

lemma observe_run_recent:
  assumes "st_mode cfg \<noteq> TripOff" "w_recent w = []" "sorted (ts @ [t])"
    "list_all (\<lambda>x. saturating_sub t (st_window_secs cfg) \<le> x) ts" "length ts \<le> MAX_EVENTS"
  shows "w_recent (observe_run cfg fp ts w) = map (\<lambda>x. (x, fp)) ts"
  using assms(3-5)
proof (induction ts rule: rev_induct)
  case (snoc x ts)
  have "w_recent (observe_run cfg fp ts w) = map (\<lambda>x. (x, fp)) ts"
    using snoc by (auto simp: sorted_append)
  moreover have "saturating_sub x (st_window_secs cfg) \<le> saturating_sub t (st_window_secs cfg)"
    using snoc.prems(1) by (auto simp: sorted_append intro: saturating_sub_mono)
  ultimately show ?case
    using observe_recent[OF assms(1), of "observe_run cfg fp ts w" fp ts "saturating_sub t (st_window_secs cfg)" x] snoc.prems
    by (simp add: observe_run_def)
qed (simp add: observe_run_def assms(2))

lemma observe_signal:
  assumes "st_mode cfg \<noteq> TripOff" "w_recent (fst (observe cfg t fp w)) = map (\<lambda>x. (x, fp)) ts" "length ts \<le> MAX_EVENTS"
    "st_repeats cfg > 0"
  shows "(\<exists>n. snd (observe cfg t fp w) = Some (Repeat fp n) \<and> unat n = length ts) \<longleftrightarrow> unat (st_repeats cfg) \<le> length ts"
proof -
  have "filter (\<lambda>(_, f). f = fp) (map (\<lambda>x. (x, fp)) ts) = map (\<lambda>x. (x, fp)) ts"
    by (simp add: filter_map o_def)
  then have n: "unat (count_fp fp (map (\<lambda>x. (x, fp)) ts)) = length ts"
    using count_fp_exact[of "map (\<lambda>x. (x, fp)) ts" fp] assms(3) by simp
  have r: "rate_signal cfg t w' \<noteq> Some (Repeat fp k)" for w' k
    by (simp add: rate_signal_def Let_def)
  show ?thesis using assms n r
    by (auto simp: observe_def Let_def word_le_nat_alt)
qed

section \<open>Claims\<close>

text \<open>Whatever requests, costs and state changes come in, both rings stay within their capacity,
  hold only positive amounts, and the window never holds more money than the session has spent, so the
  baseline of the rate detector is never negative.\<close>

theorem watch_reachable_ok: "watch_reachable cfg w \<Longrightarrow> watch_ok w"
  by (rule watch_reachable_inv)

theorem watch_reachable_ok_witness:
  "watch_reachable spend_tripwire_default (observe_cost 7 3 (watch_new 0 None))
   \<and> watch_ok (observe_cost 7 3 (watch_new 0 None))"
proof -
  have "watch_reachable spend_tripwire_default (observe_cost 7 3 (watch_new 0 None))"
    by (rule watch_reachable.step[OF watch_reachable.init watch_step.paid])
  then show ?thesis using watch_reachable_ok by blast
qed

text \<open>A run of identical requests inside one window trips exactly when its length reaches the
  configured number of repeats, for every run that fits the ring, and the count it reports is the true
  one.\<close>

theorem repeat_trips_at_threshold:
  assumes "st_mode cfg \<noteq> TripOff" and "st_repeats cfg > 0" and "sorted (ts @ [t])"
    and "list_all (\<lambda>x. saturating_sub t (st_window_secs cfg) \<le> x) ts" and "length ts < MAX_EVENTS"
  shows "(\<exists>n. snd (observe cfg t fp (observe_run cfg fp ts (watch_new start tr))) = Some (Repeat fp n) \<and> unat n = Suc (length ts))
     \<longleftrightarrow> unat (st_repeats cfg) \<le> Suc (length ts)"
proof -
  have "w_recent (observe_run cfg fp ts (watch_new start tr)) = map (\<lambda>x. (x, fp)) ts"
    by (rule observe_run_recent[OF assms(1) _ assms(3,4)]) (use assms(5) in \<open>simp_all add: watch_new_def\<close>)
  then have "w_recent (fst (observe cfg t fp (observe_run cfg fp ts (watch_new start tr)))) = map (\<lambda>x. (x, fp)) (ts @ [t])"
    using assms by (intro observe_recent) auto
  from observe_signal[OF assms(1) this _ assms(2)] assms(5) show ?thesis by simp
qed

theorem repeat_trips_at_threshold_witness:
  "(\<exists>n. snd (observe spend_tripwire_default 20 ''f'' (observe_run spend_tripwire_default ''f'' (map word_of_nat [1..<15]) (watch_new 0 None)))
     = Some (Repeat ''f'' n) \<and> unat n = 15)"
proof -
  let ?ts = "[1, 2, 3, 4, 5, 6, 7, 8, 9, 10, 11, 12, 13, 14] :: u64 list"
  have ts: "map word_of_nat [1..<15] = ?ts" by (simp add: upt_rec)
  have "st_mode spend_tripwire_default \<noteq> TripOff" "st_repeats spend_tripwire_default > 0" "sorted (?ts @ [20])"
    "list_all (\<lambda>x. saturating_sub 20 (st_window_secs spend_tripwire_default) \<le> x) ?ts" "length ?ts < MAX_EVENTS"
    "unat (st_repeats spend_tripwire_default) \<le> Suc (length ?ts)"
    by (simp_all add: spend_tripwire_default_def saturating_sub_def MAX_EVENTS_def)
  from repeat_trips_at_threshold[OF this(1-5), of "''f''" 0 None] this(6) show ?thesis unfolding ts by (simp add: eval_nat_numeral)
qed

text \<open>Only an absent trip file reads as not tripped: a saved trip survives a restart unchanged,
  an unreadable file counts as a trip, and only clearing lifts it.\<close>

theorem trip_file_fails_closed:
  "(load_trip f = None \<longleftrightarrow> f = NoTripFile) \<and> w_tripped (watch_new now (load_trip (save_trip t))) = Some t
   \<and> load_trip (clear_trip f) = None
   \<and> (w_tripped (watch_new now (load_trip f)) = None \<longleftrightarrow> f = NoTripFile)"
  by (cases f) (simp_all add: load_trip_def save_trip_def clear_trip_def watch_new_def)

end
