(* ===== verification/Merge.thy ===== *)
theory Merge
  imports Rail_Prelude
begin

text \<open>
  Totals over ordered maps and what merging one map into another does to them. The meter
  (\<^verbatim>\<open>src/src/meter.rs\<close>) and the cache doctor (\<^verbatim>\<open>src/src/cache.rs\<close>) both fold a session's delta into a
  shared file this way, and the statistics (\<^verbatim>\<open>src/src/stats.rs\<close>) build their breakdowns so; amounts are
  dollars, counts or wrapping counters, any abelian group.
\<close>

section \<open>Sums over ordered maps\<close>

definition btm_sum :: "('v \<Rightarrow> 'm::ab_group_add) \<Rightarrow> ('k::linorder, 'v) ordmap \<Rightarrow> 'm" where
  "btm_sum f m = sum_list (map (\<lambda>(_, v). f v) m)"

lemma btm_sum_Cons [simp]: "btm_sum f ((k, v) # m) = f v + btm_sum f m"
  by (simp add: btm_sum_def)

lemma btm_sum_Nil [simp]: "btm_sum f [] = 0"
  by (simp add: btm_sum_def)

lemma btm_sorted_Cons: "btm_sorted ((k, v) # m) \<longleftrightarrow> btm_sorted m \<and> (\<forall>j \<in> fst ` set m. k < j)"
  by (auto simp: btm_sorted_def)

lemma btm_get_less: "\<forall>j \<in> fst ` set m. k < j \<Longrightarrow> btm_get m k = None"
  by (auto simp: btm_get_def map_of_eq_None_iff)

lemma btm_sum_insert:
  "btm_sorted m \<Longrightarrow> btm_sum f (btm_insert k v m) = btm_sum f m - (case btm_get m k of None \<Rightarrow> 0 | Some w \<Rightarrow> f w) + f v"
proof (induction m)
  case (Cons p m)
  obtain a b where p: "p = (a, b)" by fastforce
  consider "k < a" | "k = a" | "a < k" by fastforce
  then show ?case
  proof cases
    case 1
    then have "btm_get (p # m) k = None" using Cons.prems p by (intro btm_get_less) (auto simp: btm_sorted_Cons intro: less_trans)
    then show ?thesis using 1 p by simp
  next
    case 3
    then have "\<not> k < a" "k \<noteq> a" by auto
    then show ?thesis using Cons p by (auto simp: btm_sorted_Cons btm_get_def split: option.split)
  qed (simp add: p btm_get_def)
qed (simp add: btm_get_def)

definition vals_ok :: "('v \<Rightarrow> bool) \<Rightarrow> ('k::linorder, 'v) ordmap \<Rightarrow> bool" where
  "vals_ok P m \<longleftrightarrow> list_all (\<lambda>(_, v). P v) m"

lemma vals_ok_Nil [simp]: "vals_ok P []"
  by (simp add: vals_ok_def)

lemma vals_ok_True [simp]: "vals_ok (\<lambda>_. True) m"
  by (simp add: vals_ok_def list_all_iff)

lemma vals_ok_get: "vals_ok P m \<Longrightarrow> btm_get m k = Some v \<Longrightarrow> P v"
  by (auto simp: vals_ok_def btm_get_def list_all_iff dest: map_of_SomeD)

lemma vals_ok_insert: "vals_ok P m \<Longrightarrow> P v \<Longrightarrow> vals_ok P (btm_insert k v m)"
  unfolding vals_ok_def by (induction m) auto

text \<open>An update of one entry that adds a fixed amount to a quantity adds it to the sum.\<close>

lemma btm_upsert_sum:
  assumes "btm_sorted m" "vals_ok P m" "P d" "f d = 0"
    "\<And>e. P e \<Longrightarrow> P (g e) \<and> f (g e) = f e + x"
  shows "btm_sum f (btm_upsert d k g m) = btm_sum f m + x"
    and "btm_sorted (btm_upsert d k g m)" and "vals_ok P (btm_upsert d k g m)"
proof -
  have e: "P (case btm_get m k of None \<Rightarrow> d | Some v \<Rightarrow> v)"
    using assms(2,3) vals_ok_get by (auto split: option.split)
  show "btm_sum f (btm_upsert d k g m) = btm_sum f m + x"
    using assms(1,4) assms(5)[OF e] by (simp add: btm_upsert_def btm_sum_insert split: option.splits)
  show "btm_sorted (btm_upsert d k g m)" using assms(1) by (rule btm_sorted_upsert)
  show "vals_ok P (btm_upsert d k g m)"
    unfolding btm_upsert_def using assms(2) assms(5)[OF e] by (simp add: vals_ok_insert)
qed

text \<open>The contract of merging one entry into another: a quantity of the result is the sum of the
  parts. Merging whole maps then adds their totals.\<close>

locale additive_merge =
  fixes sound :: "'v \<Rightarrow> bool" and amount :: "'v \<Rightarrow> 'm::ab_group_add" and dflt :: 'v and mrg :: "'v \<Rightarrow> 'v \<Rightarrow> 'v"
  assumes sound_dflt: "sound dflt" and amount_dflt: "amount dflt = 0"
    and mrg_adds: "sound e \<Longrightarrow> sound (mrg u e) \<and> amount (mrg u e) = amount e + amount u"
begin

lemma fold_adds:
  assumes "btm_sorted base" "vals_ok sound base"
  shows "btm_sum amount (fold (\<lambda>(k, u). btm_upsert dflt k (mrg u)) us base) = btm_sum amount base + btm_sum amount us"
    and "btm_sorted (fold (\<lambda>(k, u). btm_upsert dflt k (mrg u)) us base)"
    and "vals_ok sound (fold (\<lambda>(k, u). btm_upsert dflt k (mrg u)) us base)"
  using assms
proof (induction us arbitrary: base)
  case (Cons p us)
  obtain k u where p: "p = (k, u)" by fastforce
  { case 1
    note up = btm_upsert_sum[where g = "mrg u" and k = k, OF 1 sound_dflt amount_dflt mrg_adds]
    show ?case using Cons.IH(1)[OF up(2,3)] up(1) p by simp }
  { case 2
    note up = btm_upsert_sum[where g = "mrg u" and k = k, OF 2 sound_dflt amount_dflt mrg_adds]
    show ?case using Cons.IH(2)[OF up(2,3)] p by simp }
  { case 3
    note up = btm_upsert_sum[where g = "mrg u" and k = k, OF 3 sound_dflt amount_dflt mrg_adds]
    show ?case using Cons.IH(3)[OF up(2,3)] p by simp }
qed simp_all

end

end
