(* ===== verification/Meter.thy ===== *)
theory Meter
  imports Pricing Merge
begin

text \<open>
  \<^verbatim>\<open>src/src/meter.rs\<close>: per-host and per-model usage, the byte-derived estimate, the
  monthly budget, and the session meter that merges its delta into the shared file under a
  lock. Counters are \<open>u64\<close> with wrap-around addition; dollars are exact reals. The file is
  a value (\<open>meter_file\<close>), and what can fail in a flush is an argument (\<open>flush_io\<close>).
\<close>

section \<open>Data\<close>

record model_usage =
  mu_requests :: u64
  mu_input_tokens :: u64
  mu_output_tokens :: u64
  mu_cache_read_tokens :: u64
  mu_cache_write_tokens :: u64
  mu_cost_usd :: usd
  mu_ref_cost_usd :: usd

definition model_usage_default :: model_usage where
  "model_usage_default = \<lparr>mu_requests = 0, mu_input_tokens = 0, mu_output_tokens = 0,
     mu_cache_read_tokens = 0, mu_cache_write_tokens = 0, mu_cost_usd = 0, mu_ref_cost_usd = 0\<rparr>"

record host_usage =
  hu_requests :: u64
  hu_bytes_up :: u64
  hu_bytes_down :: u64
  hu_est_cost_usd :: usd
  hu_models :: "model_usage btmap"

definition host_usage_default :: host_usage where
  "host_usage_default = \<lparr>hu_requests = 0, hu_bytes_up = 0, hu_bytes_down = 0, hu_est_cost_usd = 0,
     hu_models = []\<rparr>"

definition hu_metered_cost :: "host_usage \<Rightarrow> usd" where
  "hu_metered_cost h = btm_sum mu_cost_usd (hu_models h)"

definition hu_cost :: "host_usage \<Rightarrow> usd" where
  "hu_cost h = hu_est_cost_usd h + hu_metered_cost h"

definition hu_ref_cost :: "host_usage \<Rightarrow> usd" where
  "hu_ref_cost h = btm_sum mu_ref_cost_usd (hu_models h)"

record meter =
  m_period :: string
  m_budget_usd :: usd
  m_per_host :: "host_usage btmap"

definition meter_default :: meter where
  "meter_default = \<lparr>m_period = [], m_budget_usd = 0, m_per_host = []\<rparr>"

definition blended_rate_per_mtok :: "string \<Rightarrow> real" where
  "blended_rate_per_mtok host =
     (if host = ''api.anthropic.com'' then 9 else if host = ''api.openai.com'' then 6 else 0)"

definition cost_of :: "string \<Rightarrow> u64 \<Rightarrow> usd" where
  "cost_of host bs = real (unat bs) / 4 / 1000000 * blended_rate_per_mtok host"

section \<open>Operations on a meter\<close>

definition roll_period :: "string \<Rightarrow> meter \<Rightarrow> meter" where
  "roll_period now m = (if m_period m \<noteq> now then m\<lparr>m_period := now, m_per_host := []\<rparr> else m)"

definition total_cost :: "meter \<Rightarrow> usd" where
  "total_cost m = btm_sum hu_cost (m_per_host m)"

definition metered_cost :: "meter \<Rightarrow> usd" where
  "metered_cost m = btm_sum hu_metered_cost (m_per_host m)"

definition estimated_cost :: "meter \<Rightarrow> usd" where
  "estimated_cost m = btm_sum hu_est_cost_usd (m_per_host m)"

definition plan_absorbed :: "meter \<Rightarrow> usd" where
  "plan_absorbed m = btm_sum hu_ref_cost (m_per_host m)"

definition meter_over_budget :: "meter \<Rightarrow> bool" where
  "meter_over_budget m \<longleftrightarrow> m_budget_usd m > 0 \<and> total_cost m \<ge> m_budget_usd m"

definition with_host :: "string \<Rightarrow> (host_usage \<Rightarrow> host_usage) \<Rightarrow> meter \<Rightarrow> meter" where
  "with_host host f m = m\<lparr>m_per_host := btm_upsert host_usage_default host f (m_per_host m)\<rparr>"

definition meter_record_traffic :: "string \<Rightarrow> u64 \<Rightarrow> u64 \<Rightarrow> meter \<Rightarrow> meter" where
  "meter_record_traffic host up down =
     with_host host (\<lambda>e. e\<lparr>hu_requests := hu_requests e + 1, hu_bytes_up := hu_bytes_up e + up,
       hu_bytes_down := hu_bytes_down e + down\<rparr>)"

definition meter_add_estimated :: "string \<Rightarrow> u64 \<Rightarrow> meter \<Rightarrow> meter" where
  "meter_add_estimated host bs =
     with_host host (\<lambda>e. e\<lparr>hu_est_cost_usd := hu_est_cost_usd e + cost_of host bs\<rparr>)"

definition meter_record :: "string \<Rightarrow> u64 \<Rightarrow> u64 \<Rightarrow> meter \<Rightarrow> meter" where
  "meter_record host up down m = meter_add_estimated host (up + down) (meter_record_traffic host up down m)"

definition meter_record_tokens :: "string \<Rightarrow> string \<Rightarrow> token_usage \<Rightarrow> usd \<Rightarrow> usd \<Rightarrow> meter \<Rightarrow> meter" where
  "meter_record_tokens host key u cost ref_cost =
     with_host host (\<lambda>e. e\<lparr>hu_models := btm_upsert model_usage_default key
       (\<lambda>m. m\<lparr>mu_requests := mu_requests m + 1,
              mu_input_tokens := mu_input_tokens m + tu_input u,
              mu_output_tokens := mu_output_tokens m + tu_output u,
              mu_cache_read_tokens := mu_cache_read_tokens m + tu_cache_read u,
              mu_cache_write_tokens := mu_cache_write_tokens m + tu_cache_write u,
              mu_cost_usd := mu_cost_usd m + cost,
              mu_ref_cost_usd := mu_ref_cost_usd m + ref_cost\<rparr>) (hu_models e)\<rparr>)"

definition meter_add_downstream :: "string \<Rightarrow> u64 \<Rightarrow> meter \<Rightarrow> meter" where
  "meter_add_downstream host down m =
     (if down = 0 then m else with_host host (\<lambda>e. e\<lparr>hu_bytes_down := hu_bytes_down e + down\<rparr>) m)"

section \<open>The file\<close>

text \<open>\<open>meter.json\<close>: absent, present but not parsing (read as an empty meter), or holding a
  saved period and usage. The budget is not part of it.\<close>

datatype meter_file = NoMeterFile | GarbledMeter | SavedMeter string "host_usage btmap"

definition load_usage :: "meter_file \<Rightarrow> meter" where
  "load_usage f = (case f of SavedMeter p hs \<Rightarrow> \<lparr>m_period = p, m_budget_usd = 0, m_per_host = hs\<rparr>
     | _ \<Rightarrow> meter_default)"

definition save_meter :: "meter \<Rightarrow> meter_file" where
  "save_meter m = SavedMeter (m_period m) (m_per_host m)"

section \<open>The session meter\<close>

record session_meter =
  sm_delta :: meter
  sm_merged_cost :: usd
  sm_merged_period :: string
  sm_seen_mtime :: "nat option"
  sm_budget_usd :: usd

definition session_load :: "meter_file \<Rightarrow> usd \<Rightarrow> nat option \<Rightarrow> session_meter" where
  "session_load f budget mtime =
     (let merged = load_usage f in
      \<lparr>sm_delta = meter_default, sm_merged_cost = total_cost merged, sm_merged_period = m_period merged,
       sm_seen_mtime = mtime, sm_budget_usd = budget\<rparr>)"

definition session_roll :: "string \<Rightarrow> session_meter \<Rightarrow> session_meter" where
  "session_roll now s =
     (let s1 = s\<lparr>sm_delta := roll_period now (sm_delta s)\<rparr> in
      if sm_merged_period s1 \<noteq> now then s1\<lparr>sm_merged_period := now, sm_merged_cost := 0\<rparr> else s1)"

definition on_delta :: "string \<Rightarrow> (meter \<Rightarrow> meter) \<Rightarrow> session_meter \<Rightarrow> session_meter" where
  "on_delta now f s = (let s1 = session_roll now s in s1\<lparr>sm_delta := f (sm_delta s1)\<rparr>)"

definition session_record :: "string \<Rightarrow> string \<Rightarrow> u64 \<Rightarrow> u64 \<Rightarrow> session_meter \<Rightarrow> session_meter" where
  "session_record now host up down = on_delta now (meter_record host up down)"

definition session_record_traffic :: "string \<Rightarrow> string \<Rightarrow> u64 \<Rightarrow> u64 \<Rightarrow> session_meter \<Rightarrow> session_meter" where
  "session_record_traffic now host up down = on_delta now (meter_record_traffic host up down)"

definition session_add_estimated :: "string \<Rightarrow> string \<Rightarrow> u64 \<Rightarrow> session_meter \<Rightarrow> session_meter" where
  "session_add_estimated now host bs = on_delta now (meter_add_estimated host bs)"

definition session_record_tokens ::
  "string \<Rightarrow> string \<Rightarrow> string \<Rightarrow> token_usage \<Rightarrow> usd \<Rightarrow> usd \<Rightarrow> session_meter \<Rightarrow> session_meter" where
  "session_record_tokens now host key u cost ref_cost =
     on_delta now (meter_record_tokens host key u cost ref_cost)"

definition session_add_downstream :: "string \<Rightarrow> string \<Rightarrow> u64 \<Rightarrow> session_meter \<Rightarrow> session_meter" where
  "session_add_downstream now host down = on_delta now (meter_add_downstream host down)"

definition session_over_budget :: "string \<Rightarrow> session_meter \<Rightarrow> session_meter \<times> bool" where
  "session_over_budget now s =
     (let s1 = session_roll now s in
      (s1, sm_budget_usd s1 > 0 \<and> sm_merged_cost s1 + total_cost (sm_delta s1) \<ge> sm_budget_usd s1))"

definition budget_used_pct :: "string \<Rightarrow> session_meter \<Rightarrow> session_meter \<times> real option" where
  "budget_used_pct now s =
     (let s1 = session_roll now s in
      (s1, if sm_budget_usd s1 \<le> 0 then None
           else Some ((sm_merged_cost s1 + total_cost (sm_delta s1)) / sm_budget_usd s1 * 100)))"

definition session_stale :: "nat option \<Rightarrow> session_meter \<Rightarrow> bool" where
  "session_stale disk_mtime s \<longleftrightarrow> disk_mtime \<noteq> sm_seen_mtime s"

text \<open>\<open>read_ok\<close>: whether the file can be read at all.\<close>

definition reload_merged :: "bool \<Rightarrow> meter_file \<Rightarrow> nat option \<Rightarrow> session_meter \<Rightarrow> session_meter" where
  "reload_merged read_ok f disk_mtime s =
     (if read_ok then
        s\<lparr>sm_merged_cost := total_cost (load_usage f), sm_merged_period := m_period (load_usage f),
          sm_seen_mtime := disk_mtime\<rparr>
      else s)"

section \<open>Merging\<close>

definition merge_model :: "model_usage \<Rightarrow> model_usage \<Rightarrow> model_usage" where
  "merge_model mu m = m\<lparr>mu_requests := mu_requests m + mu_requests mu,
     mu_input_tokens := mu_input_tokens m + mu_input_tokens mu,
     mu_output_tokens := mu_output_tokens m + mu_output_tokens mu,
     mu_cache_read_tokens := mu_cache_read_tokens m + mu_cache_read_tokens mu,
     mu_cache_write_tokens := mu_cache_write_tokens m + mu_cache_write_tokens mu,
     mu_cost_usd := mu_cost_usd m + mu_cost_usd mu,
     mu_ref_cost_usd := mu_ref_cost_usd m + mu_ref_cost_usd mu\<rparr>"

definition merge_models :: "model_usage btmap \<Rightarrow> model_usage btmap \<Rightarrow> model_usage btmap" where
  "merge_models ms base = fold (\<lambda>(k, mu). btm_upsert model_usage_default k (merge_model mu)) ms base"

definition merge_host :: "host_usage \<Rightarrow> host_usage \<Rightarrow> host_usage" where
  "merge_host u e = e\<lparr>hu_requests := hu_requests e + hu_requests u,
     hu_bytes_up := hu_bytes_up e + hu_bytes_up u, hu_bytes_down := hu_bytes_down e + hu_bytes_down u,
     hu_est_cost_usd := hu_est_cost_usd e + hu_est_cost_usd u,
     hu_models := merge_models (hu_models u) (hu_models e)\<rparr>"

definition merge_hosts :: "host_usage btmap \<Rightarrow> host_usage btmap \<Rightarrow> host_usage btmap" where
  "merge_hosts us base = fold (\<lambda>(h, u). btm_upsert host_usage_default h (merge_host u)) us base"

text \<open>What the file system does in one flush: the lock cannot be taken, the file cannot be
  read, it cannot be written, or all succeed and the file gets a new modification time.\<close>

datatype flush_io = LockFails | ReadFails | SaveFails | FlushOk "nat option"

definition session_flush :: "flush_io \<Rightarrow> string \<Rightarrow> meter_file \<Rightarrow> session_meter
    \<Rightarrow> meter_file \<times> session_meter \<times> bool" where
  "session_flush io now f s =
     (let s1 = session_roll now s in
      case io of
        LockFails \<Rightarrow> (f, s1, False)
      | ReadFails \<Rightarrow> (f, s1, False)
      | SaveFails \<Rightarrow> (f, s1, False)
      | FlushOk mtime \<Rightarrow>
          (let disk = roll_period now (load_usage f);
               disk' = disk\<lparr>m_per_host := merge_hosts (m_per_host (sm_delta s1)) (m_per_host disk)\<rparr> in
           (save_meter disk',
            s1\<lparr>sm_merged_cost := total_cost disk', sm_merged_period := m_period disk',
               sm_seen_mtime := mtime, sm_delta := (sm_delta s1)\<lparr>m_per_host := []\<rparr>\<rparr>,
            True)))"

section \<open>Merging adds\<close>

interpretation model_cost: additive_merge "\<lambda>_. True" mu_cost_usd model_usage_default merge_model
  by unfold_locales (simp_all add: model_usage_default_def merge_model_def)

interpretation model_ref: additive_merge "\<lambda>_. True" mu_ref_cost_usd model_usage_default merge_model
  by unfold_locales (simp_all add: model_usage_default_def merge_model_def)

abbreviation host_wf :: "host_usage \<Rightarrow> bool" where
  "host_wf h \<equiv> btm_sorted (hu_models h)"

lemma btm_sorted_Nil [simp]: "btm_sorted []"
  by (simp add: btm_sorted_def)

lemma merge_models_adds:
  assumes "btm_sorted base"
  shows "btm_sum mu_cost_usd (merge_models us base) = btm_sum mu_cost_usd base + btm_sum mu_cost_usd us"
    and "btm_sum mu_ref_cost_usd (merge_models us base) = btm_sum mu_ref_cost_usd base + btm_sum mu_ref_cost_usd us"
    and "btm_sorted (merge_models us base)"
  unfolding merge_models_def using assms
  by (simp_all add: model_cost.fold_adds model_ref.fold_adds)

interpretation host_cost: additive_merge host_wf hu_cost host_usage_default merge_host
  by unfold_locales (simp_all add: host_usage_default_def merge_host_def hu_cost_def hu_metered_cost_def
    merge_models_adds)

interpretation host_ref: additive_merge host_wf hu_ref_cost host_usage_default merge_host
  by unfold_locales (simp_all add: host_usage_default_def merge_host_def hu_ref_cost_def
    merge_models_adds)

section \<open>Meters\<close>

definition hosts_wf :: "host_usage btmap \<Rightarrow> bool" where
  "hosts_wf hs \<longleftrightarrow> btm_sorted hs \<and> vals_ok host_wf hs"

abbreviation meter_wf :: "meter \<Rightarrow> bool" where
  "meter_wf m \<equiv> hosts_wf (m_per_host m)"

lemma hosts_wf_Nil [simp]: "hosts_wf []"
  by (simp add: hosts_wf_def)

lemma merge_hosts_adds:
  assumes "hosts_wf base"
  shows "btm_sum hu_cost (merge_hosts us base) = btm_sum hu_cost base + btm_sum hu_cost us"
    and "btm_sum hu_ref_cost (merge_hosts us base) = btm_sum hu_ref_cost base + btm_sum hu_ref_cost us"
    and "hosts_wf (merge_hosts us base)"
  using assms host_cost.fold_adds[of base us, folded merge_hosts_def] host_ref.fold_adds(1)[of base us, folded merge_hosts_def]
  by (simp_all add: hosts_wf_def)

lemma with_host_adds:
  assumes "meter_wf m" "\<And>e. host_wf e \<Longrightarrow> host_wf (f e) \<and> hu_cost (f e) = hu_cost e + x"
  shows "total_cost (with_host h f m) = total_cost m + x" and "meter_wf (with_host h f m)"
proof -
  have m: "btm_sorted (m_per_host m)" "vals_ok host_wf (m_per_host m)" using assms(1) by (simp_all add: hosts_wf_def)
  note up = btm_upsert_sum[where g = f and k = h and x = x, OF m host_cost.sound_dflt host_cost.amount_dflt assms(2)]
  show "total_cost (with_host h f m) = total_cost m + x" using up(1) by (simp add: total_cost_def with_host_def)
  show "meter_wf (with_host h f m)" using up(2,3) by (simp add: with_host_def hosts_wf_def)
qed

lemma meter_record_traffic_cost:
  assumes "meter_wf m"
  shows "total_cost (meter_record_traffic h up down m) = total_cost m" "meter_wf (meter_record_traffic h up down m)"
  unfolding meter_record_traffic_def
  by (subst with_host_adds(1)[OF assms, where x = 0]; simp add: hu_cost_def hu_metered_cost_def)
     (rule with_host_adds(2)[OF assms, where x = 0]; simp add: hu_cost_def hu_metered_cost_def)

lemma meter_add_estimated_cost:
  assumes "meter_wf m"
  shows "total_cost (meter_add_estimated h bs m) = total_cost m + cost_of h bs" "meter_wf (meter_add_estimated h bs m)"
  unfolding meter_add_estimated_def
  by (rule with_host_adds[OF assms, where x = "cost_of h bs"]; simp add: hu_cost_def hu_metered_cost_def)+

lemma meter_add_downstream_cost:
  assumes "meter_wf m"
  shows "total_cost (meter_add_downstream h down m) = total_cost m" "meter_wf (meter_add_downstream h down m)"
proof -
  let ?f = "\<lambda>e. e\<lparr>hu_bytes_down := hu_bytes_down e + down\<rparr>"
  have f: "host_wf (?f e) \<and> hu_cost (?f e) = hu_cost e + 0" if "host_wf e" for e
    using that by (simp add: hu_cost_def hu_metered_cost_def)
  note w = with_host_adds[OF assms f, where h = h]
  show "total_cost (meter_add_downstream h down m) = total_cost m" using w(1) by (simp add: meter_add_downstream_def)
  show "meter_wf (meter_add_downstream h down m)" using w(2) assms by (simp add: meter_add_downstream_def)
qed

lemma model_bump:
  assumes "btm_sorted ms" "\<And>e. mu_cost_usd (g e) = mu_cost_usd e + x"
  shows "btm_sum mu_cost_usd (btm_upsert model_usage_default k g ms) = btm_sum mu_cost_usd ms + x"
  by (rule btm_upsert_sum(1)[where P = "\<lambda>_. True"]) (use assms in \<open>simp_all add: model_usage_default_def\<close>)

lemma meter_record_tokens_cost:
  assumes "meter_wf m"
  shows "total_cost (meter_record_tokens h key u cost ref m) = total_cost m + cost"
    and "meter_wf (meter_record_tokens h key u cost ref m)"
  unfolding meter_record_tokens_def
  by (rule with_host_adds[OF assms, where x = cost]; simp add: hu_cost_def hu_metered_cost_def model_bump btm_sorted_upsert)+

section \<open>Sessions that share the file\<close>

text \<open>What one request may charge to a session's delta.\<close>

datatype charge = Tokens string string token_usage usd usd | Traffic string u64 u64
  | Estimated string u64 | Recorded string u64 u64 | Downstream string u64

definition apply_charge :: "string \<Rightarrow> charge \<Rightarrow> session_meter \<Rightarrow> session_meter" where
  "apply_charge now c s = (case c of
     Tokens h k u cost ref \<Rightarrow> session_record_tokens now h k u cost ref s
   | Traffic h up down \<Rightarrow> session_record_traffic now h up down s
   | Estimated h bs \<Rightarrow> session_add_estimated now h bs s
   | Recorded h up down \<Rightarrow> session_record now h up down s
   | Downstream h down \<Rightarrow> session_add_downstream now h down s)"

definition charge_cost :: "charge \<Rightarrow> usd" where
  "charge_cost c = (case c of Tokens h k u cost ref \<Rightarrow> cost | Estimated h bs \<Rightarrow> cost_of h bs
     | Recorded h up down \<Rightarrow> cost_of h (up + down) | _ \<Rightarrow> 0)"

text \<open>The shared file, the running sessions, and the money charged so far (a ghost).\<close>

record ledger =
  lg_file :: meter_file
  lg_sessions :: "session_meter list"
  lg_spent :: usd

inductive ledger_step :: "string \<Rightarrow> ledger \<Rightarrow> ledger \<Rightarrow> bool" for now where
  start: "ledger_step now g (g\<lparr>lg_sessions := lg_sessions g @ [session_load (lg_file g) budget mtime]\<rparr>)"
| charge: "i < length (lg_sessions g) \<Longrightarrow> ledger_step now g
    (g\<lparr>lg_sessions := (lg_sessions g)[i := apply_charge now c (lg_sessions g ! i)], lg_spent := lg_spent g + charge_cost c\<rparr>)"
| check: "i < length (lg_sessions g) \<Longrightarrow> ledger_step now g
    (g\<lparr>lg_sessions := (lg_sessions g)[i := fst (session_over_budget now (lg_sessions g ! i))]\<rparr>)"
| reload: "i < length (lg_sessions g) \<Longrightarrow> ledger_step now g
    (g\<lparr>lg_sessions := (lg_sessions g)[i := reload_merged ok (lg_file g) mtime (lg_sessions g ! i)]\<rparr>)"
| flush: "i < length (lg_sessions g) \<Longrightarrow> session_flush io now (lg_file g) (lg_sessions g ! i) = (f', s', ok) \<Longrightarrow>
    ledger_step now g (g\<lparr>lg_file := f', lg_sessions := (lg_sessions g)[i := s']\<rparr>)"

inductive ledger_reachable :: "string \<Rightarrow> meter_file \<Rightarrow> ledger \<Rightarrow> bool" for now f0 where
  init: "ledger_reachable now f0 \<lparr>lg_file = f0, lg_sessions = [], lg_spent = 0\<rparr>"
| step: "ledger_reachable now f0 g \<Longrightarrow> ledger_step now g g' \<Longrightarrow> ledger_reachable now f0 g'"

text \<open>What the file and a session's delta count toward the running month.\<close>

definition file_cost :: "string \<Rightarrow> meter_file \<Rightarrow> usd" where
  "file_cost now f = total_cost (roll_period now (load_usage f))"

definition delta_cost :: "string \<Rightarrow> session_meter \<Rightarrow> usd" where
  "delta_cost now s = total_cost (roll_period now (sm_delta s))"

definition file_wf :: "meter_file \<Rightarrow> bool" where
  "file_wf f = (case f of SavedMeter p hs \<Rightarrow> hosts_wf hs | _ \<Rightarrow> True)"

definition session_wf :: "session_meter \<Rightarrow> bool" where
  "session_wf s \<longleftrightarrow> hosts_wf (m_per_host (sm_delta s))"

lemma roll_period_idem [simp]: "roll_period now (roll_period now m) = roll_period now m"
  by (simp add: roll_period_def)

lemma roll_period_wf: "meter_wf m \<Longrightarrow> meter_wf (roll_period now m)"
  by (simp add: roll_period_def)

lemma load_usage_wf: "file_wf f \<Longrightarrow> meter_wf (load_usage f)"
  by (simp add: file_wf_def load_usage_def meter_default_def split: meter_file.splits)

lemma session_roll_delta [simp]: "sm_delta (session_roll now s) = roll_period now (sm_delta s)"
  by (simp add: session_roll_def Let_def)

lemma session_roll_budget [simp]: "sm_budget_usd (session_roll now s) = sm_budget_usd s"
  by (simp add: session_roll_def Let_def)

lemma with_host_period [simp]: "m_period (with_host h f m) = m_period m"
  by (simp add: with_host_def)

lemma roll_period_done [simp]: "m_period m = now \<Longrightarrow> roll_period now m = m"
  by (simp add: roll_period_def)

lemma roll_period_period [simp]: "m_period (roll_period now m) = now"
  by (simp add: roll_period_def)

lemma meter_op_period:
  "m_period (meter_record_traffic h up down m) = m_period m" "m_period (meter_add_estimated h bs m) = m_period m"
  "m_period (meter_record_tokens h k u c r m) = m_period m" "m_period (meter_add_downstream h down m) = m_period m"
  by (simp_all add: meter_record_traffic_def meter_add_estimated_def meter_record_tokens_def meter_add_downstream_def)

lemmas meter_costs = meter_record_traffic_cost meter_add_estimated_cost meter_add_downstream_cost meter_record_tokens_cost

lemma on_delta_cost:
  assumes "session_wf s"
    and "\<And>m. meter_wf m \<Longrightarrow> m_period (f m) = m_period m \<and> meter_wf (f m) \<and> total_cost (f m) = total_cost m + x"
  shows "session_wf (on_delta now f s) \<and> delta_cost now (on_delta now f s) = delta_cost now s + x"
proof -
  have "meter_wf (roll_period now (sm_delta s))" using assms(1) by (simp add: session_wf_def roll_period_wf)
  from assms(2)[OF this] show ?thesis
    by (simp add: on_delta_def Let_def session_wf_def delta_cost_def)
qed

lemma apply_charge_cost:
  assumes "session_wf s"
  shows "session_wf (apply_charge now c s) \<and> delta_cost now (apply_charge now c s) = delta_cost now s + charge_cost c"
proof (cases c)
  case Tokens
  then show ?thesis using on_delta_cost[OF assms]
    by (simp add: apply_charge_def charge_cost_def session_record_tokens_def meter_op_period meter_costs)
next
  case Traffic
  then show ?thesis using on_delta_cost[OF assms, where x = 0]
    by (simp add: apply_charge_def charge_cost_def session_record_traffic_def meter_op_period meter_costs)
next
  case Estimated
  then show ?thesis using on_delta_cost[OF assms]
    by (simp add: apply_charge_def charge_cost_def session_add_estimated_def meter_op_period meter_costs)
next
  case Recorded
  then show ?thesis using on_delta_cost[OF assms]
    by (simp add: apply_charge_def charge_cost_def session_record_def meter_record_def meter_op_period meter_costs)
next
  case Downstream
  then show ?thesis using on_delta_cost[OF assms, where x = 0]
    by (simp add: apply_charge_def charge_cost_def session_add_downstream_def meter_op_period meter_costs)
qed

lemma session_flush_conserves:
  assumes "file_wf f" "session_wf s" "session_flush io now f s = (f', s', ok)"
  shows "file_wf f' \<and> session_wf s' \<and> file_cost now f' + delta_cost now s' = file_cost now f + delta_cost now s"
proof (cases io)
  case (FlushOk mt)
  let ?d = "roll_period now (load_usage f)"
  have d: "hosts_wf (m_per_host ?d)" using assms(1) by (simp add: load_usage_wf roll_period_wf)
  have "total_cost (m\<lparr>m_per_host := []\<rparr>) = 0" for m by (simp add: total_cost_def)
  then show ?thesis using FlushOk assms(3) merge_hosts_adds[OF d]
    by (auto simp: session_flush_def Let_def file_wf_def session_wf_def save_meter_def file_cost_def load_usage_def
        delta_cost_def total_cost_def)
qed (use assms in \<open>auto simp: session_flush_def Let_def session_wf_def delta_cost_def roll_period_wf\<close>)

lemma sum_list_update_real:
  fixes g :: "'a \<Rightarrow> real"
  shows "i < length xs \<Longrightarrow> sum_list (map g (xs[i := y])) = sum_list (map g xs) - g (xs ! i) + g y"
proof (induction xs arbitrary: i)
  case (Cons x xs)
  then show ?case by (cases i) auto
qed simp

definition ledger_ok :: "string \<Rightarrow> meter_file \<Rightarrow> ledger \<Rightarrow> bool" where
  "ledger_ok now f0 g \<longleftrightarrow> file_wf (lg_file g) \<and> list_all session_wf (lg_sessions g)
     \<and> file_cost now (lg_file g) + sum_list (map (delta_cost now) (lg_sessions g)) = file_cost now f0 + lg_spent g"

lemma list_all_update: "list_all P xs \<Longrightarrow> P y \<Longrightarrow> list_all P (xs[i := y])"
  by (auto simp: list_all_iff dest: set_update_subset_insert[THEN subsetD])

lemma ledger_replace:
  assumes "ledger_ok now f0 g" "i < length (lg_sessions g)" "session_wf s'" "file_wf f'"
    "file_cost now f' + delta_cost now s' = file_cost now (lg_file g) + delta_cost now (lg_sessions g ! i) + x"
  shows "ledger_ok now f0 (g\<lparr>lg_file := f', lg_sessions := (lg_sessions g)[i := s'], lg_spent := lg_spent g + x\<rparr>)"
  using assms by (simp add: ledger_ok_def sum_list_update_real list_all_update)

lemma ledger_session_wf: "ledger_ok now f0 g \<Longrightarrow> i < length (lg_sessions g) \<Longrightarrow> session_wf (lg_sessions g ! i)"
  by (simp add: ledger_ok_def list_all_length)

lemma ledger_step_ok:
  assumes "ledger_step now g g'" "ledger_ok now f0 g"
  shows "ledger_ok now f0 g'"
  using assms(1)
proof cases
  case (start budget mtime)
  have "delta_cost now (session_load (lg_file g) budget mtime) = 0" "session_wf (session_load (lg_file g) budget mtime)"
    by (simp_all add: session_load_def delta_cost_def session_wf_def meter_default_def roll_period_def total_cost_def Let_def)
  then show ?thesis using start assms(2) by (simp add: ledger_ok_def)
next
  case (charge i c)
  then show ?thesis
    using ledger_replace[OF assms(2) charge(2), of _ "lg_file g" "charge_cost c"]
      apply_charge_cost[OF ledger_session_wf[OF assms(2) charge(2)], of now c] assms(2)
    by (simp add: ledger_ok_def)
next
  case (check i)
  then show ?thesis
    using ledger_replace[OF assms(2) check(2), of "fst (session_over_budget now (lg_sessions g ! i))" "lg_file g" 0]
      ledger_session_wf[OF assms(2) check(2)] assms(2)
    by (simp add: ledger_ok_def session_over_budget_def Let_def session_wf_def delta_cost_def roll_period_wf)
next
  case (reload i ok mtime)
  then show ?thesis
    using ledger_replace[OF assms(2) reload(2), of "reload_merged ok (lg_file g) mtime (lg_sessions g ! i)" "lg_file g" 0]
      ledger_session_wf[OF assms(2) reload(2)] assms(2)
    by (simp add: ledger_ok_def reload_merged_def session_wf_def delta_cost_def)
next
  case (flush i io f' s' ok)
  have "file_wf (lg_file g)" using assms(2) by (simp add: ledger_ok_def)
  from session_flush_conserves[OF this ledger_session_wf[OF assms(2) flush(2)] flush(3)]
  show ?thesis using flush ledger_replace[OF assms(2) flush(2), of s' f' 0] by simp
qed

lemma ledger_reachable_ok: "ledger_reachable now f0 g \<Longrightarrow> file_wf f0 \<Longrightarrow> ledger_ok now f0 g"
  by (induction rule: ledger_reachable.induct) (auto simp: ledger_ok_def[of _ _ "\<lparr>lg_file = _, lg_sessions = [], lg_spent = 0\<rparr>"] intro: ledger_step_ok)

section \<open>Claims\<close>

text \<open>C9: money is conserved. However many sessions start, charge, check their budget, reload and
  flush against the shared file within a month, in any interleaving and with any flush failing, what
  the file holds plus what the sessions still hold unflushed equals what the file held at first plus
  everything charged.\<close>

theorem spend_conserved:
  assumes "ledger_reachable now f0 g" and "file_wf f0"
  shows "file_cost now (lg_file g) + sum_list (map (delta_cost now) (lg_sessions g)) = file_cost now f0 + lg_spent g"
  using ledger_reachable_ok[OF assms] by (simp add: ledger_ok_def)

theorem spend_conserved_witness:
  "\<exists>g. ledger_reachable ''2025-01'' NoMeterFile g \<and> file_wf NoMeterFile \<and> lg_spent g = 2
     \<and> file_cost ''2025-01'' (lg_file g) + sum_list (map (delta_cost ''2025-01'') (lg_sessions g)) = 2"
proof -
  let ?g0 = "\<lparr>lg_file = NoMeterFile, lg_sessions = [], lg_spent = 0\<rparr>"
  let ?c = "Tokens ''api.openai.com'' ''o3'' token_usage_default 2 0"
  let ?g1 = "?g0\<lparr>lg_sessions := lg_sessions ?g0 @ [session_load (lg_file ?g0) 10 None]\<rparr>"
  let ?g2 = "?g1\<lparr>lg_sessions := (lg_sessions ?g1)[0 := apply_charge ''2025-01'' ?c (lg_sessions ?g1 ! 0)], lg_spent := lg_spent ?g1 + charge_cost ?c\<rparr>"
  have w: "file_wf NoMeterFile" by (simp add: file_wf_def)
  have "ledger_reachable ''2025-01'' NoMeterFile ?g1"
    by (rule ledger_reachable.step[OF ledger_reachable.init ledger_step.start])
  then have r: "ledger_reachable ''2025-01'' NoMeterFile ?g2"
    by (rule ledger_reachable.step[OF _ ledger_step.charge]) simp
  have "file_cost ''2025-01'' NoMeterFile = 0"
    by (simp add: file_cost_def load_usage_def meter_default_def roll_period_def total_cost_def)
  then show ?thesis using spend_conserved[OF r w] r w by (intro exI[of _ ?g2]) (simp add: charge_cost_def)
qed

text \<open>After a session has read the file, its budget check is right for all sessions together: it
  reports over budget exactly when a budget is set and the month's spend in the file plus the session's
  own unflushed spend has reached it.\<close>

theorem over_budget_after_reload:
  "snd (session_over_budget now (reload_merged True f mtime s)) \<longleftrightarrow>
     sm_budget_usd s > 0 \<and> file_cost now f + delta_cost now s \<ge> sm_budget_usd s"
  by (simp add: session_over_budget_def reload_merged_def session_roll_def Let_def file_cost_def delta_cost_def
      roll_period_def total_cost_def)

text \<open>Usage paid by a subscription is recorded but never counts toward the budget.\<close>

theorem subscription_never_counts:
  assumes "session_wf s"
  shows "snd (session_over_budget now (session_record_tokens now host key u
        (fst (split_cost Subscription u rate)) (snd (split_cost Subscription u rate)) s))
     = snd (session_over_budget now s)"
proof -
  have "delta_cost now (apply_charge now (Tokens host key u 0 (snd (split_cost Subscription u rate))) s) = delta_cost now s"
    using apply_charge_cost[OF assms] by (simp add: charge_cost_def)
  then show ?thesis
    by (auto simp: session_over_budget_def apply_charge_def session_record_tokens_def on_delta_def split_cost_def
        session_roll_def delta_cost_def meter_op_period Let_def)
qed

theorem subscription_never_counts_witness:
  "session_wf (session_load NoMeterFile 5 None)
   \<and> snd (session_over_budget ''2025-01'' (session_record_tokens ''2025-01'' ''api.anthropic.com'' ''m'' token_usage_default
        (fst (split_cost Subscription token_usage_default (default_rate Anthropic)))
        (snd (split_cost Subscription token_usage_default (default_rate Anthropic))) (session_load NoMeterFile 5 None)))
     = snd (session_over_budget ''2025-01'' (session_load NoMeterFile 5 None))"
proof -
  have "session_wf (session_load NoMeterFile 5 None)"
    by (simp add: session_wf_def session_load_def meter_default_def Let_def)
  then show ?thesis using subscription_never_counts by blast
qed

end
