(* ===== verification/Audit_Log.thy ===== *)
theory Audit_Log
  imports Pricing Vault
begin

text \<open>
  \<^verbatim>\<open>src/src/audit.rs\<close>: the hash-chained audit log, its head anchor, appending under the
  lock with re-synchronisation from the tail, and verification. The log file is its bytes.
  Hashing, hex and the JSON writer and reader are third-party code: the parameters
  \<open>crypto\<close> and \<open>audit_codec\<close>. The lock makes each append and each verification atomic;
  an append whose \<open>write_all\<close> fails half-way is not modelled.
\<close>

section \<open>Events\<close>

record usage_rec =
  ur_model :: string
  ur_input :: u64
  ur_output :: u64
  ur_cache_read :: u64
  ur_cache_write :: u64
  ur_cost_usd :: usd
  ur_ref_cost_usd :: usd

record audit_event =
  ev_seq :: u64
  ev_ts :: string
  ev_host :: string
  ev_path :: string
  ev_method :: string
  ev_action :: string
  ev_rule :: string
  ev_escalated :: bool
  ev_swaps :: "string list"
  ev_tripwires :: "string list"
  ev_status :: u16
  ev_note :: string
  ev_pid :: u32
  ev_sid :: string
  ev_dur_ms :: "u64 option"
  ev_bytes_up :: u64
  ev_bytes_down :: u64
  ev_usage :: "usage_rec option"
  ev_req_seq :: "u64 option"
  ev_fp :: "string option"
  ev_prev_hash :: string
  ev_hash :: string

record entry =
  en_host :: string
  en_path :: string
  en_method :: string
  en_action :: string
  en_rule :: string
  en_escalated :: bool
  en_swaps :: "string list"
  en_tripwires :: "string list"
  en_status :: u16
  en_note :: string
  en_sid :: string
  en_dur_ms :: "u64 option"
  en_bytes_up :: u64
  en_bytes_down :: u64
  en_usage :: "usage_rec option"
  en_req_seq :: "u64 option"
  en_fp :: "string option"

definition entry_default :: entry where
  "entry_default = \<lparr>en_host = [], en_path = [], en_method = [], en_action = [], en_rule = [],
     en_escalated = False, en_swaps = [], en_tripwires = [], en_status = 0, en_note = [], en_sid = [],
     en_dur_ms = None, en_bytes_up = 0, en_bytes_down = 0, en_usage = None, en_req_seq = None,
     en_fp = None\<rparr>"

definition entry_note :: "string \<Rightarrow> string \<Rightarrow> entry" where
  "entry_note action note = entry_default\<lparr>en_host := ''-'', en_path := ''-'', en_method := ''-'',
     en_action := action, en_note := note\<rparr>"

record auditor =
  au_seq :: u64
  au_prev_hash :: string
  au_known_len :: nat

text \<open>What is on disk: the log's bytes, \<open>None\<close> before the first append, and the head anchor.\<close>

record audit_disk =
  dk_log :: "bytes option"
  dk_head :: "(u64 \<times> string) option"

record audit_codec =
  json_bytes :: "json \<Rightarrow> bytes"
  event_line :: "audit_event \<Rightarrow> string"
  line_event :: "string \<Rightarrow> audit_event option"

datatype audit_error = LogUnreadable | LineUnparsable | ChainBroken u64 | LogDeleted u64
  | LogTruncated u64 u64 | LogEmptied u64

definition ZERO_HASH :: string where
  "ZERO_HASH = replicate 64 (CHR ''0'')"

section \<open>The chain hash\<close>

datatype payload_version = Legacy | Pid | Analytics | Fingerprint

definition version_rank :: "payload_version \<Rightarrow> nat" where
  "version_rank v = (case v of Legacy \<Rightarrow> 0 | Pid \<Rightarrow> 1 | Analytics \<Rightarrow> 2 | Fingerprint \<Rightarrow> 3)"

definition json_opt :: "('a \<Rightarrow> json) \<Rightarrow> 'a option \<Rightarrow> json" where
  "json_opt f x = (case x of None \<Rightarrow> JNull | Some y \<Rightarrow> f y)"

definition usage_json :: "usage_rec \<Rightarrow> json" where
  "usage_json u = JObj ([(''model'', JStr (ur_model u)), (''input'', JPos (ur_input u)),
      (''output'', JPos (ur_output u)), (''cache_read'', JPos (ur_cache_read u)),
      (''cache_write'', JPos (ur_cache_write u)), (''cost_usd'', JFloat (ur_cost_usd u))]
     @ (if ur_ref_cost_usd u = 0 then [] else [(''ref_cost_usd'', JFloat (ur_ref_cost_usd u))]))"

definition chain_fields :: "audit_event \<Rightarrow> payload_version \<Rightarrow> json list" where
  "chain_fields ev v =
     [JPos (ev_seq ev), JStr (ev_ts ev), JStr (ev_host ev), JStr (ev_path ev), JStr (ev_method ev),
      JStr (ev_action ev), JStr (ev_rule ev), JArr (map JStr (ev_swaps ev)),
      JArr (map JStr (ev_tripwires ev)), JPos (ucast (ev_status ev)), JStr (ev_note ev)]
     @ (if version_rank v \<ge> version_rank Pid then [JPos (ucast (ev_pid ev))] else [])
     @ (if version_rank v \<ge> version_rank Analytics
        then [JStr (ev_sid ev), json_opt JPos (ev_dur_ms ev), JPos (ev_bytes_up ev),
              JPos (ev_bytes_down ev), json_opt usage_json (ev_usage ev), json_opt JPos (ev_req_seq ev)]
        else [])
     @ (if version_rank v \<ge> version_rank Fingerprint then [json_opt JStr (ev_fp ev)] else [])"

definition chain_hash :: "crypto \<Rightarrow> audit_codec \<Rightarrow> string \<Rightarrow> audit_event \<Rightarrow> payload_version \<Rightarrow> string" where
  "chain_hash cr ac prev_hash ev v =
     hex_encode cr (sha256 cr (prev_hash @ ''|'' @ json_bytes ac (JArr (chain_fields ev v))))"

definition pre_analytics :: "audit_event \<Rightarrow> bool" where
  "pre_analytics ev \<longleftrightarrow> ev_fp ev = None \<and> ev_sid ev = [] \<and> ev_dur_ms ev = None
     \<and> ev_bytes_up ev = 0 \<and> ev_bytes_down ev = 0 \<and> ev_usage ev = None \<and> ev_req_seq ev = None"

definition verify_link :: "crypto \<Rightarrow> audit_codec \<Rightarrow> string \<Rightarrow> audit_event \<Rightarrow> bool" where
  "verify_link cr ac prev_hash ev =
     (if ev_prev_hash ev \<noteq> prev_hash then False
      else if ev_hash ev = chain_hash cr ac prev_hash ev Fingerprint then True
      else if ev_fp ev = None \<and> ev_hash ev = chain_hash cr ac prev_hash ev Analytics then True
      else if pre_analytics ev then
        (if ev_hash ev = chain_hash cr ac prev_hash ev Pid then True
         else if ev_pid ev = 0 then ev_hash ev = chain_hash cr ac prev_hash ev Legacy
         else False)
      else False)"

section \<open>Reading the file\<close>

text \<open>\<open>BufRead::lines\<close>: pieces ended by a newline, a carriage return before it dropped, and an
  unterminated last piece.\<close>

definition chomp_cr :: "bytes \<Rightarrow> bytes" where
  "chomp_cr l = (case strip_suffix [CHR 0x0D] l of Some t \<Rightarrow> t | None \<Rightarrow> l)"

fun lines_from :: "bytes \<Rightarrow> bytes \<Rightarrow> bytes list" where
  "lines_from cur [] = (if cur = [] then [] else [cur])"
| "lines_from cur (c # cs) =
     (if c = CHR 0x0A then chomp_cr cur # lines_from [] cs else lines_from (cur @ [c]) cs)"

definition file_lines :: "bytes \<Rightarrow> bytes list" where
  "file_lines f = lines_from [] f"

text \<open>\<open>line.trim().is_empty()\<close>: nothing but Unicode white space.\<close>

fun is_blank :: "string \<Rightarrow> bool" where
  "is_blank [] = True"
| "is_blank (a # s) =
     (let x = bval a in
      if x = 32 \<or> 9 \<le> x \<and> x \<le> 13 then is_blank s
      else (case s of
          b # t \<Rightarrow>
            (if x = 194 \<and> (bval b = 133 \<or> bval b = 160) then is_blank t
             else (case t of
                 c # r \<Rightarrow>
                   (if (x, bval b, bval c) = (225, 154, 128) \<or> (x, bval b, bval c) = (227, 128, 128)
                       \<or> (x, bval b, bval c) = (226, 129, 159)
                       \<or> (x = 226 \<and> bval b = 128
                          \<and> (128 \<le> bval c \<and> bval c \<le> 138 \<or> bval c \<in> {168, 169, 175}))
                    then is_blank r else False)
               | [] \<Rightarrow> False))
        | [] \<Rightarrow> False))"

text \<open>The tail scan: the last line that parses as an event gives the next sequence number and
  the hash to chain from; a line that is not UTF-8 is a read error.\<close>

fun last_event :: "audit_codec \<Rightarrow> audit_event option \<Rightarrow> bytes list \<Rightarrow> audit_error + audit_event option" where
  "last_event ac lst [] = Inr lst"
| "last_event ac lst (l # ls) =
     (if \<not> utf8_valid l then Inl LogUnreadable
      else if is_blank l then last_event ac lst ls
      else (case line_event ac l of
          None \<Rightarrow> last_event ac lst ls
        | Some ev \<Rightarrow> last_event ac (Some ev) ls))"

definition recover_tail :: "audit_codec \<Rightarrow> bytes option \<Rightarrow> audit_error + (u64 \<times> string)" where
  "recover_tail ac lg = (case lg of
     None \<Rightarrow> Inr (0, ZERO_HASH)
   | Some f \<Rightarrow>
       (case last_event ac None (file_lines f) of
          Inl e \<Rightarrow> Inl e
        | Inr None \<Rightarrow> Inr (0, ZERO_HASH)
        | Inr (Some ev) \<Rightarrow> Inr (ev_seq ev + 1, ev_hash ev)))"

definition log_len :: "bytes option \<Rightarrow> nat" where
  "log_len lg = (case lg of None \<Rightarrow> 0 | Some f \<Rightarrow> length f)"

section \<open>Opening and appending\<close>

definition auditor_open :: "audit_codec \<Rightarrow> audit_disk \<Rightarrow> audit_error + auditor" where
  "auditor_open ac d = (case recover_tail ac (dk_log d) of
     Inl e \<Rightarrow> Inl e
   | Inr (seq, prev) \<Rightarrow> Inr \<lparr>au_seq = seq, au_prev_hash = prev, au_known_len = log_len (dk_log d)\<rparr>)"

definition resync :: "audit_codec \<Rightarrow> audit_disk \<Rightarrow> auditor \<Rightarrow> audit_error + auditor" where
  "resync ac d a =
     (if log_len (dk_log d) \<noteq> au_known_len a then
        (case recover_tail ac (dk_log d) of
           Inl e \<Rightarrow> Inl e
         | Inr (seq, prev) \<Rightarrow> Inr (a\<lparr>au_seq := seq, au_prev_hash := prev\<rparr>))
      else Inr a)"

definition seal :: "crypto \<Rightarrow> audit_codec \<Rightarrow> u32 \<Rightarrow> string \<Rightarrow> entry \<Rightarrow> auditor \<Rightarrow> audit_event" where
  "seal cr ac pid ts en a =
     (let ev = \<lparr>ev_seq = au_seq a, ev_ts = ts, ev_host = en_host en, ev_path = en_path en,
        ev_method = en_method en, ev_action = en_action en, ev_rule = en_rule en,
        ev_escalated = en_escalated en, ev_swaps = en_swaps en, ev_tripwires = en_tripwires en,
        ev_status = en_status en, ev_note = en_note en, ev_pid = pid, ev_sid = en_sid en,
        ev_dur_ms = en_dur_ms en, ev_bytes_up = en_bytes_up en, ev_bytes_down = en_bytes_down en,
        ev_usage = en_usage en, ev_req_seq = en_req_seq en, ev_fp = en_fp en,
        ev_prev_hash = au_prev_hash a, ev_hash = []\<rparr>
      in ev\<lparr>ev_hash := chain_hash cr ac (au_prev_hash a) ev Fingerprint\<rparr>)"

text \<open>Writing the anchor is best effort: \<open>anchor_ok\<close> says whether it succeeds.\<close>

definition write_head_anchor :: "bool \<Rightarrow> u64 \<Rightarrow> string \<Rightarrow> audit_disk \<Rightarrow> audit_disk" where
  "write_head_anchor anchor_ok seq hash d = (if anchor_ok then d\<lparr>dk_head := Some (seq, hash)\<rparr> else d)"

definition append_event :: "crypto \<Rightarrow> audit_codec \<Rightarrow> u32 \<Rightarrow> bool \<Rightarrow> entry \<Rightarrow> string \<Rightarrow> auditor \<Rightarrow> audit_disk
    \<Rightarrow> auditor \<times> audit_disk \<times> (audit_error + audit_event)" where
  "append_event cr ac pid anchor_ok en ts a d =
     (case resync ac d a of
        Inl e \<Rightarrow> (a, d\<lparr>dk_log := Some (case dk_log d of None \<Rightarrow> [] | Some f \<Rightarrow> f)\<rparr>, Inl e)
      | Inr a1 \<Rightarrow>
          (let ev = seal cr ac pid ts en a1;
               line = event_line ac ev @ [CHR 0x0A];
               f = (case dk_log d of None \<Rightarrow> [] | Some f \<Rightarrow> f) in
           (a1\<lparr>au_prev_hash := ev_hash ev, au_seq := au_seq a1 + 1,
               au_known_len := log_len (dk_log d) + length line\<rparr>,
            write_head_anchor anchor_ok (au_seq a1) (ev_hash ev) (d\<lparr>dk_log := Some (f @ line)\<rparr>),
            Inr ev)))"

section \<open>Verification\<close>

text \<open>The loop: the chained hash so far, the count, and the last event's number and hash.\<close>

fun verify_lines :: "crypto \<Rightarrow> audit_codec \<Rightarrow> string \<Rightarrow> u64 \<Rightarrow> (u64 \<times> string) option \<Rightarrow> bytes list
    \<Rightarrow> audit_error + (u64 \<times> (u64 \<times> string) option)" where
  "verify_lines cr ac prev n lst [] = Inr (n, lst)"
| "verify_lines cr ac prev n lst (l # ls) =
     (if \<not> utf8_valid l then Inl LogUnreadable
      else if is_blank l then verify_lines cr ac prev n lst ls
      else (case line_event ac l of
          None \<Rightarrow> Inl LineUnparsable
        | Some ev \<Rightarrow>
            (if \<not> verify_link cr ac prev ev then Inl (ChainBroken (ev_seq ev))
             else verify_lines cr ac (ev_hash ev) (n + 1) (Some (ev_seq ev, ev_hash ev)) ls)))"

definition check_anchor :: "(u64 \<times> string) option \<Rightarrow> (u64 \<times> string) option \<Rightarrow> u64 \<Rightarrow> audit_error + u64" where
  "check_anchor head lst n = (case head of
     None \<Rightarrow> Inr n
   | Some (aseq, ahash) \<Rightarrow>
       (case lst of
          Some (seq, hash) \<Rightarrow> if seq = aseq \<and> hash = ahash then Inr n else Inl (LogTruncated aseq seq)
        | None \<Rightarrow> Inl (LogEmptied aseq)))"

definition audit_verify :: "crypto \<Rightarrow> audit_codec \<Rightarrow> audit_disk \<Rightarrow> audit_error + u64" where
  "audit_verify cr ac d = (case dk_log d of
     None \<Rightarrow> (case dk_head d of Some (aseq, _) \<Rightarrow> Inl (LogDeleted aseq) | None \<Rightarrow> Inr 0)
   | Some f \<Rightarrow>
       (case verify_lines cr ac ZERO_HASH 0 None (file_lines f) of
          Inl e \<Rightarrow> Inl e
        | Inr (n, lst) \<Rightarrow> check_anchor (dk_head d) lst n))"

section \<open>Chains\<close>

text \<open>The contract of a hash-chained list: each event is checked against the tip its predecessor
  leaves.\<close>

locale chained_log =
  fixes link :: "'h \<Rightarrow> 'e \<Rightarrow> bool" and tip :: "'e \<Rightarrow> 'h" and chain :: "'h \<Rightarrow> 'e list \<Rightarrow> bool"
  assumes chain_Nil: "chain h []"
    and chain_Cons: "chain h (e # es) \<longleftrightarrow> link h e \<and> chain (tip e) es"
begin

lemma chain_append: "chain h (xs @ ys) \<longleftrightarrow> chain h xs \<and> chain (if xs = [] then h else tip (last xs)) ys"
  by (induction xs arbitrary: h) (auto simp: chain_Nil chain_Cons)

lemma chain_prefix: "chain h es \<Longrightarrow> chain h (take k es)"
  by (metis append_take_drop_id chain_append)

end

fun chain_ok :: "crypto \<Rightarrow> audit_codec \<Rightarrow> string \<Rightarrow> audit_event list \<Rightarrow> bool" where
  "chain_ok cr ac prev [] = True"
| "chain_ok cr ac prev (ev # evs) \<longleftrightarrow> verify_link cr ac prev ev \<and> chain_ok cr ac (ev_hash ev) evs"

interpretation alog: chained_log "verify_link cr ac" ev_hash "chain_ok cr ac" for cr ac
  by unfold_locales simp_all

section \<open>Lines\<close>

text \<open>What is used of the JSON codec, for events whose dollar amounts satisfy \<open>fx\<close> (those that the
  float writer and reader carry over exactly): an event is written as one line of UTF-8 in braces,
  and reading it gives the event back; and distinct payloads are written differently.\<close>

definition event_exact :: "(usd \<Rightarrow> bool) \<Rightarrow> audit_event \<Rightarrow> bool" where
  "event_exact fx ev = (case ev_usage ev of None \<Rightarrow> True | Some u \<Rightarrow> fx (ur_cost_usd u) \<and> fx (ur_ref_cost_usd u))"

definition line_shaped :: "string \<Rightarrow> bool" where
  "line_shaped l \<longleftrightarrow> utf8_valid l \<and> CHR 0x0A \<notin> set l \<and> starts_with l ''{'' \<and> ends_with l ''}''"

definition codec_ok :: "(usd \<Rightarrow> bool) \<Rightarrow> audit_codec \<Rightarrow> bool" where
  "codec_ok fx ac \<longleftrightarrow> (\<forall>ev. event_exact fx ev \<longrightarrow>
     line_event ac (event_line ac ev) = Some ev \<and> line_shaped (event_line ac ev))"

definition log_bytes :: "audit_codec \<Rightarrow> audit_event list \<Rightarrow> bytes" where
  "log_bytes ac evs = concat (map (\<lambda>ev. event_line ac ev @ [CHR 0x0A]) evs)"

lemma lines_from_line:
  "CHR 0x0A \<notin> set l \<Longrightarrow> lines_from cur (l @ CHR 0x0A # rest) = chomp_cr (cur @ l) # lines_from [] rest"
  by (induction l arbitrary: cur) auto

lemma line_shaped_facts:
  assumes "line_shaped l"
  shows "chomp_cr l = l" "\<not> is_blank l" "l \<noteq> []"
proof -
  obtain t where t: "l = CHR ''{'' # t" using assms by (auto simp: line_shaped_def starts_with_def prefix_def)
  obtain s where s: "l = s @ ''}''" using assms by (auto simp: line_shaped_def ends_with_def suffix_def)
  show "chomp_cr l = l" unfolding s by (simp add: chomp_cr_def strip_suffix_def suffix_def)
  show "\<not> is_blank l" unfolding t by (cases t; cases "tl t") simp_all
  show "l \<noteq> []" using t by simp
qed

lemma file_lines_log:
  assumes "codec_ok fx ac" "list_all (event_exact fx) evs"
  shows "file_lines (log_bytes ac evs) = map (event_line ac) evs"
  using assms(2)
proof (induction evs)
  case (Cons ev evs)
  have "line_shaped (event_line ac ev)" using Cons.prems assms(1) by (simp add: codec_ok_def)
  then show ?case using Cons line_shaped_facts(1)[of "event_line ac ev"]
    by (simp add: file_lines_def log_bytes_def lines_from_line line_shaped_def)
qed (simp add: file_lines_def log_bytes_def)

section \<open>The reference reading of a log\<close>

definition tail_hash :: "audit_event list \<Rightarrow> string" where
  "tail_hash evs = (if evs = [] then ZERO_HASH else ev_hash (last evs))"

definition tail_mark :: "(u64 \<times> string) option \<Rightarrow> audit_event list \<Rightarrow> (u64 \<times> string) option" where
  "tail_mark lst evs = (if evs = [] then lst else Some (ev_seq (last evs), ev_hash (last evs)))"

lemma last_event_log:
  assumes "codec_ok fx ac" "list_all (event_exact fx) evs"
  shows "last_event ac lst (map (event_line ac) evs) = Inr (if evs = [] then lst else Some (last evs))"
  using assms(2)
proof (induction evs arbitrary: lst)
  case (Cons ev evs)
  have "line_event ac (event_line ac ev) = Some ev" and s: "line_shaped (event_line ac ev)"
    using Cons.prems assms(1) by (simp_all add: codec_ok_def)
  then show ?case using Cons line_shaped_facts(2)[OF s] s by (simp add: line_shaped_def)
qed simp

lemma verify_lines_log:
  assumes "codec_ok fx ac" "list_all (event_exact fx) evs" "chain_ok cr ac prev evs"
  shows "verify_lines cr ac prev n lst (map (event_line ac) evs) = Inr (n + word_of_nat (length evs), tail_mark lst evs)"
  using assms(2,3)
proof (induction evs arbitrary: prev n lst)
  case (Cons ev evs)
  have "line_event ac (event_line ac ev) = Some ev" and s: "line_shaped (event_line ac ev)"
    using Cons.prems assms(1) by (simp_all add: codec_ok_def)
  then show ?case using Cons line_shaped_facts(2)[OF s] s
    by (auto simp: line_shaped_def tail_mark_def algebra_simps)
qed (simp add: tail_mark_def)

lemma recover_tail_log:
  assumes "codec_ok fx ac" "list_all (event_exact fx) evs"
  shows "recover_tail ac (Some (log_bytes ac evs)) =
    Inr (if evs = [] then (0, ZERO_HASH) else (ev_seq (last evs) + 1, ev_hash (last evs)))"
  using last_event_log[OF assms, of None] by (simp add: recover_tail_def file_lines_log[OF assms])

section \<open>Auditors on one log\<close>

text \<open>Every process that logs has an auditor; the exclusive lock makes their appends atomic.
  \<open>al_events\<close> (a ghost) is the sequence of events sealed so far, \<open>al_anchored\<close> whether the last
  anchor write succeeded.\<close>

record audit_system =
  al_disk :: audit_disk
  al_auditors :: "auditor list"
  al_events :: "audit_event list"
  al_anchored :: bool

definition entry_exact :: "(usd \<Rightarrow> bool) \<Rightarrow> entry \<Rightarrow> bool" where
  "entry_exact fx en = (case en_usage en of None \<Rightarrow> True | Some u \<Rightarrow> fx (ur_cost_usd u) \<and> fx (ur_ref_cost_usd u))"

inductive audit_step :: "crypto \<Rightarrow> audit_codec \<Rightarrow> (usd \<Rightarrow> bool) \<Rightarrow> audit_system \<Rightarrow> audit_system \<Rightarrow> bool"
  for cr ac fx where
  opened: "auditor_open ac (al_disk g) = Inr a \<Longrightarrow> audit_step cr ac fx g (g\<lparr>al_auditors := al_auditors g @ [a]\<rparr>)"
| append: "i < length (al_auditors g) \<Longrightarrow> entry_exact fx en \<Longrightarrow>
    append_event cr ac pid anchor_ok en ts (al_auditors g ! i) (al_disk g) = (a', d', Inr ev) \<Longrightarrow>
    audit_step cr ac fx g (g\<lparr>al_disk := d', al_auditors := (al_auditors g)[i := a'], al_events := al_events g @ [ev],
      al_anchored := anchor_ok\<rparr>)"

inductive audit_reachable :: "crypto \<Rightarrow> audit_codec \<Rightarrow> (usd \<Rightarrow> bool) \<Rightarrow> audit_system \<Rightarrow> bool" for cr ac fx where
  init: "audit_reachable cr ac fx \<lparr>al_disk = \<lparr>dk_log = None, dk_head = None\<rparr>, al_auditors = [], al_events = [], al_anchored = True\<rparr>"
| step: "audit_reachable cr ac fx g \<Longrightarrow> audit_step cr ac fx g g' \<Longrightarrow> audit_reachable cr ac fx g'"

definition numbered :: "audit_event list \<Rightarrow> bool" where
  "numbered evs \<longleftrightarrow> map ev_seq evs = map word_of_nat [0..<length evs]"

text \<open>An auditor that believes the log is as long as it is knows its true tail.\<close>

definition auditor_ok :: "audit_event list \<Rightarrow> nat \<Rightarrow> auditor \<Rightarrow> bool" where
  "auditor_ok evs len a \<longleftrightarrow> au_known_len a \<le> len \<and>
     (au_known_len a = len \<longrightarrow> au_seq a = word_of_nat (length evs) \<and> au_prev_hash a = tail_hash evs)"

definition sealed_new :: "crypto \<Rightarrow> audit_codec \<Rightarrow> audit_event list \<Rightarrow> bool" where
  "sealed_new cr ac evs \<longleftrightarrow> list_all (\<lambda>ev. ev_hash ev = chain_hash cr ac (ev_prev_hash ev) ev Fingerprint) evs"

definition system_ok :: "crypto \<Rightarrow> audit_codec \<Rightarrow> (usd \<Rightarrow> bool) \<Rightarrow> audit_system \<Rightarrow> bool" where
  "system_ok cr ac fx g \<longleftrightarrow>
     (dk_log (al_disk g) = Some (log_bytes ac (al_events g)) \<or> dk_log (al_disk g) = None \<and> al_events g = [])
     \<and> list_all (event_exact fx) (al_events g) \<and> chain_ok cr ac ZERO_HASH (al_events g) \<and> numbered (al_events g)
     \<and> sealed_new cr ac (al_events g)
     \<and> list_all (auditor_ok (al_events g) (log_len (dk_log (al_disk g)))) (al_auditors g)
     \<and> (al_anchored g \<longrightarrow> dk_head (al_disk g) = tail_mark None (al_events g))"

lemma numbered_snoc: "numbered evs \<Longrightarrow> ev_seq ev = word_of_nat (length evs) \<Longrightarrow> numbered (evs @ [ev])"
  by (simp add: numbered_def)

lemma numbered_last:
  assumes "numbered evs" "evs \<noteq> []"
  shows "ev_seq (last evs) = word_of_nat (length evs - 1)"
proof -
  have "map ev_seq evs ! (length evs - 1) = map word_of_nat [0..<length evs] ! (length evs - 1)"
    using assms(1) by (simp add: numbered_def)
  then show ?thesis using assms(2) by (simp add: last_conv_nth)
qed

lemma log_bytes_append [simp]: "log_bytes ac (evs @ fs) = log_bytes ac evs @ log_bytes ac fs"
  by (simp add: log_bytes_def)

lemma chain_fields_hash [simp]: "chain_fields (ev\<lparr>ev_hash := h\<rparr>) v = chain_fields ev v"
  by (simp add: chain_fields_def)

lemma chain_hash_hash [simp]: "chain_hash cr ac prev (ev\<lparr>ev_hash := h\<rparr>) v = chain_hash cr ac prev ev v"
  by (simp add: chain_hash_def)

lemma seal_link:
  "verify_link cr ac (au_prev_hash a) (seal cr ac pid ts en a)"
  "ev_hash (seal cr ac pid ts en a) = chain_hash cr ac (ev_prev_hash (seal cr ac pid ts en a)) (seal cr ac pid ts en a) Fingerprint"
  "ev_seq (seal cr ac pid ts en a) = au_seq a" "event_exact fx (seal cr ac pid ts en a) = entry_exact fx en"
  by (simp_all add: verify_link_def seal_def Let_def event_exact_def entry_exact_def chain_hash_def chain_fields_def)

lemma recover_tail_ok:
  assumes "codec_ok fx ac" "system_ok cr ac fx g"
  shows "recover_tail ac (dk_log (al_disk g)) = Inr (word_of_nat (length (al_events g)), tail_hash (al_events g))"
proof (cases "al_events g = []")
  case True
  then show ?thesis using assms recover_tail_log[OF assms(1), of "[]"]
    by (auto simp: system_ok_def recover_tail_def tail_hash_def)
next
  case False
  then have "dk_log (al_disk g) = Some (log_bytes ac (al_events g))" and n: "numbered (al_events g)"
    and x: "list_all (event_exact fx) (al_events g)" using assms(2) by (auto simp: system_ok_def)
  moreover have "word_of_nat (length (al_events g) - 1) + 1 = (word_of_nat (length (al_events g)) :: u64)"
    using False by (metis Suc_diff_1 add.commute length_greater_0_conv of_nat_Suc)
  ultimately show ?thesis using recover_tail_log[OF assms(1) x] numbered_last[OF n False] False
    by (simp add: tail_hash_def)
qed

lemma resync_ok:
  assumes "codec_ok fx ac" "system_ok cr ac fx g" "i < length (al_auditors g)"
  obtains a where "resync ac (al_disk g) (al_auditors g ! i) = Inr a"
    "au_seq a = word_of_nat (length (al_events g))" "au_prev_hash a = tail_hash (al_events g)"
proof -
  have "auditor_ok (al_events g) (log_len (dk_log (al_disk g))) (al_auditors g ! i)"
    using assms(2,3) by (simp add: system_ok_def list_all_length)
  then show ?thesis
    using recover_tail_ok[OF assms(1,2)] that[of "al_auditors g ! i"]
      that[of "(al_auditors g ! i)\<lparr>au_seq := word_of_nat (length (al_events g)), au_prev_hash := tail_hash (al_events g)\<rparr>"]
    by (cases "log_len (dk_log (al_disk g)) = au_known_len (al_auditors g ! i)") (simp_all add: resync_def auditor_ok_def)
qed

lemma system_log:
  "system_ok cr ac fx g \<Longrightarrow> (case dk_log (al_disk g) of None \<Rightarrow> [] | Some f \<Rightarrow> f) = log_bytes ac (al_events g)"
  "system_ok cr ac fx g \<Longrightarrow> log_len (dk_log (al_disk g)) = length (log_bytes ac (al_events g))"
  by (auto simp: system_ok_def log_bytes_def log_len_def)

lemma append_event_ok:
  assumes "codec_ok fx ac" "system_ok cr ac fx g" "i < length (al_auditors g)"
  shows "\<exists>a ev. append_event cr ac pid anchor_ok en ts (al_auditors g ! i) (al_disk g) =
      (\<lparr>au_seq = word_of_nat (length (al_events g)) + 1, au_prev_hash = ev_hash ev,
        au_known_len = length (log_bytes ac (al_events g @ [ev]))\<rparr>,
       write_head_anchor anchor_ok (word_of_nat (length (al_events g))) (ev_hash ev)
         ((al_disk g)\<lparr>dk_log := Some (log_bytes ac (al_events g @ [ev]))\<rparr>), Inr ev)
     \<and> au_seq a = word_of_nat (length (al_events g)) \<and> au_prev_hash a = tail_hash (al_events g)
     \<and> ev = seal cr ac pid ts en a"
proof -
  obtain a where a: "resync ac (al_disk g) (al_auditors g ! i) = Inr a"
    "au_seq a = word_of_nat (length (al_events g))" "au_prev_hash a = tail_hash (al_events g)"
    using resync_ok[OF assms] .
  show ?thesis
    by (rule exI[of _ a], rule exI[of _ "seal cr ac pid ts en a"])
      (use a system_log[OF assms(2)] in \<open>simp add: append_event_def Let_def log_bytes_def\<close>)
qed

lemma tail_mark_snoc [simp]: "tail_mark l (evs @ [ev]) = Some (ev_seq ev, ev_hash ev)"
  by (simp add: tail_mark_def)

lemma system_append:
  assumes "codec_ok fx ac" "system_ok cr ac fx g" "i < length (al_auditors g)" "entry_exact fx en"
    "append_event cr ac pid anchor_ok en ts (al_auditors g ! i) (al_disk g) = (a', d', Inr ev)"
  shows "system_ok cr ac fx (g\<lparr>al_disk := d', al_auditors := (al_auditors g)[i := a'], al_events := al_events g @ [ev],
      al_anchored := anchor_ok\<rparr>)"
proof -
  obtain a where d: "d' = write_head_anchor anchor_ok (word_of_nat (length (al_events g))) (ev_hash ev)
         ((al_disk g)\<lparr>dk_log := Some (log_bytes ac (al_events g @ [ev]))\<rparr>)"
    and a': "a' = \<lparr>au_seq = word_of_nat (length (al_events g)) + 1, au_prev_hash = ev_hash ev,
        au_known_len = length (log_bytes ac (al_events g @ [ev]))\<rparr>"
    and a: "au_seq a = word_of_nat (length (al_events g))" "au_prev_hash a = tail_hash (al_events g)"
    and ev: "ev = seal cr ac pid ts en a"
    using append_event_ok[OF assms(1-3), of pid anchor_ok en ts] assms(5) by auto
  have x: "event_exact fx ev" and sq: "ev_seq ev = word_of_nat (length (al_events g))"
    using seal_link assms(4) a ev by auto
  have old: "list_all (event_exact fx) (al_events g)" "numbered (al_events g)" "sealed_new cr ac (al_events g)"
    "chain_ok cr ac ZERO_HASH (al_events g)" using assms(2) by (simp_all add: system_ok_def)
  have "verify_link cr ac (tail_hash (al_events g)) ev" using seal_link(1)[of cr ac a pid ts en] a ev by simp
  then have "chain_ok cr ac ZERO_HASH (al_events g @ [ev])" using old(4) by (simp add: alog.chain_append tail_hash_def)
  moreover have "sealed_new cr ac (al_events g @ [ev])"
    using old(3) seal_link(2)[of cr ac pid ts en a] ev by (simp add: sealed_new_def)
  moreover have "list_all (event_exact fx) (al_events g @ [ev])" using old(1) x by simp
  ultimately have ok: "list_all (event_exact fx) (al_events g @ [ev])" "numbered (al_events g @ [ev])"
    "sealed_new cr ac (al_events g @ [ev])" "chain_ok cr ac ZERO_HASH (al_events g @ [ev])"
    using numbered_snoc[OF old(2) sq] by blast+
  have disk: "dk_log d' = Some (log_bytes ac (al_events g @ [ev]))"
    "anchor_ok \<Longrightarrow> dk_head d' = Some (word_of_nat (length (al_events g)), ev_hash ev)"
    using d by (auto simp: write_head_anchor_def)
  have longer: "length (log_bytes ac (al_events g)) < length (log_bytes ac (al_events g @ [ev]))"
    by (simp add: log_bytes_def)
  have "auditor_ok (al_events g @ [ev]) (length (log_bytes ac (al_events g @ [ev]))) a'"
    by (simp add: a' auditor_ok_def tail_hash_def)
  moreover have "list_all (auditor_ok (al_events g @ [ev]) (length (log_bytes ac (al_events g @ [ev])))) (al_auditors g)"
    using assms(2) longer system_log(2)[OF assms(2)] by (fastforce simp: system_ok_def list_all_iff auditor_ok_def)
  ultimately have "list_all (auditor_ok (al_events g @ [ev]) (length (log_bytes ac (al_events g @ [ev])))) ((al_auditors g)[i := a'])"
    by (auto simp: list_all_iff dest: set_update_subset_insert[THEN subsetD])
  then show ?thesis using ok disk sq by (simp add: system_ok_def log_len_def del: log_bytes_append)
qed

lemma system_open:
  assumes "codec_ok fx ac" "system_ok cr ac fx g" "auditor_open ac (al_disk g) = Inr a"
  shows "system_ok cr ac fx (g\<lparr>al_auditors := al_auditors g @ [a]\<rparr>)"
  using assms recover_tail_ok[OF assms(1,2)] by (auto simp: system_ok_def auditor_open_def auditor_ok_def)

lemma audit_reachable_ok: "codec_ok fx ac \<Longrightarrow> audit_reachable cr ac fx g \<Longrightarrow> system_ok cr ac fx g"
proof (rotate_tac, induction rule: audit_reachable.induct)
  case init
  show ?case by (simp add: system_ok_def numbered_def sealed_new_def tail_mark_def)
next
  case (step g g')
  from step(2) show ?case by cases (use step system_open system_append in blast)+
qed

lemma system_verify:
  assumes "codec_ok fx ac" "system_ok cr ac fx g" "al_anchored g"
  shows "audit_verify cr ac (al_disk g) = Inr (word_of_nat (length (al_events g)))"
proof (cases "dk_log (al_disk g)")
  case None
  then show ?thesis using assms(2,3) by (auto simp: system_ok_def audit_verify_def tail_mark_def)
next
  case (Some f)
  then have f: "f = log_bytes ac (al_events g)" using assms(2) by (auto simp: system_ok_def)
  have "verify_lines cr ac ZERO_HASH 0 None (file_lines f) = Inr (word_of_nat (length (al_events g)), tail_mark None (al_events g))"
    using assms(2) unfolding f by (simp add: system_ok_def file_lines_log[OF assms(1)] verify_lines_log[OF assms(1)])
  then show ?thesis using Some assms(2,3)
    by (auto simp: audit_verify_def system_ok_def check_anchor_def tail_mark_def)
qed

section \<open>Truncation\<close>

lemma of_nat_u64_inj: "a < 2 ^ 64 \<Longrightarrow> b < 2 ^ 64 \<Longrightarrow> (word_of_nat a :: u64) = word_of_nat b \<Longrightarrow> a = b"
  by (drule arg_cong[of _ _ unat]) (simp add: unsigned_of_nat take_bit_nat_eq_self)

lemma verify_truncated:
  assumes "codec_ok fx ac" "system_ok cr ac fx g" "al_anchored g" "k < length (al_events g)" "length (al_events g) \<le> 2 ^ 64"
  shows "\<exists>e. audit_verify cr ac ((al_disk g)\<lparr>dk_log := Some (log_bytes ac (take k (al_events g)))\<rparr>) = Inl e"
proof -
  let ?es = "take k (al_events g)"
  have ne: "al_events g \<noteq> []" using assms(4) by auto
  have w: "list_all (event_exact fx) ?es" "chain_ok cr ac ZERO_HASH ?es" and num: "numbered (al_events g)"
    using assms(2) alog.chain_prefix by (auto simp: system_ok_def list_all_iff dest: in_set_takeD)
  have v: "verify_lines cr ac ZERO_HASH 0 None (file_lines (log_bytes ac ?es)) = Inr (word_of_nat (length ?es), tail_mark None ?es)"
    using verify_lines_log[OF assms(1) w, of 0 None] by (simp add: file_lines_log[OF assms(1) w(1)])
  have hd: "dk_head (al_disk g) = Some (ev_seq (last (al_events g)), ev_hash (last (al_events g)))"
    using assms(2,3) ne by (simp add: system_ok_def tail_mark_def)
  have "ev_seq (last ?es) \<noteq> ev_seq (last (al_events g))" if "?es \<noteq> []"
  proof -
    have "take k (map ev_seq (al_events g)) = take k (map word_of_nat [0..<length (al_events g)])"
      using num by (simp add: numbered_def)
    then have "numbered ?es" using assms(4) by (simp add: numbered_def take_map)
    then have "ev_seq (last ?es) = word_of_nat (k - 1)" using numbered_last[of ?es] that assms(4) by simp
    moreover have "ev_seq (last (al_events g)) = word_of_nat (length (al_events g) - 1)" using numbered_last[OF num ne] .
    moreover have "(word_of_nat (k - 1) :: u64) \<noteq> word_of_nat (length (al_events g) - 1)"
    proof
      assume "(word_of_nat (k - 1) :: u64) = word_of_nat (length (al_events g) - 1)"
      from of_nat_u64_inj[OF _ _ this] have "k - 1 = length (al_events g) - 1" using assms(4,5) by simp
      then show False using assms(4) that by auto
    qed
    ultimately show ?thesis by simp
  qed
  then show ?thesis using v hd by (auto simp: audit_verify_def check_anchor_def tail_mark_def)
qed

section \<open>Tampering\<close>

text \<open>The bytes that the hash of an event covers, under each payload version.\<close>

definition hash_input :: "audit_codec \<Rightarrow> string \<Rightarrow> audit_event \<Rightarrow> payload_version \<Rightarrow> bytes" where
  "hash_input ac prev ev v = prev @ ''|'' @ json_bytes ac (JArr (chain_fields ev v))"

definition hash_inputs :: "audit_codec \<Rightarrow> audit_event list \<Rightarrow> bytes list" where
  "hash_inputs ac evs = concat (map (\<lambda>ev. map (hash_input ac (ev_prev_hash ev) ev) [Legacy, Pid, Analytics, Fingerprint]) evs)"

definition digest :: "crypto \<Rightarrow> bytes \<Rightarrow> string" where
  "digest cr x = hex_encode cr (sha256 cr x)"

text \<open>A collision between the bytes two logs hash, or a preimage of the all-zero digest among them.\<close>

definition broken_hash :: "crypto \<Rightarrow> bytes list \<Rightarrow> bytes list \<Rightarrow> bool" where
  "broken_hash cr xs ys \<longleftrightarrow> list_ex (\<lambda>x. list_ex (\<lambda>y. x \<noteq> y \<and> digest cr x = digest cr y) ys) xs
     \<or> list_ex (\<lambda>x. digest cr x = ZERO_HASH) (xs @ ys)"

text \<open>What is used of the codec on any log, also a forged one: amounts that the reader returns satisfy
  \<open>fw\<close> (they are floats), and the writer tells apart payloads over such amounts.\<close>

fun json_exact :: "(usd \<Rightarrow> bool) \<Rightarrow> json \<Rightarrow> bool" where
  "json_exact fx (JFloat x) = fx x"
| "json_exact fx (JArr xs) = list_all (json_exact fx) xs"
| "json_exact fx (JObj m) = list_all (\<lambda>(_, v). json_exact fx v) m"
| "json_exact fx _ = True"

definition writer_ok :: "(usd \<Rightarrow> bool) \<Rightarrow> audit_codec \<Rightarrow> bool" where
  "writer_ok fx ac \<longleftrightarrow> inj_on (json_bytes ac) {j. json_exact fx j}
     \<and> (\<forall>l ev. line_event ac l = Some ev \<longrightarrow> event_exact fx ev)"

definition same_sealed :: "audit_event \<Rightarrow> audit_event \<Rightarrow> bool" where
  "same_sealed a b \<longleftrightarrow> b = a\<lparr>ev_escalated := ev_escalated b\<rparr>"

lemma chain_fields_exact: "event_exact fx ev \<Longrightarrow> json_exact fx (JArr (chain_fields ev v))"
  by (auto simp: chain_fields_def event_exact_def usage_json_def json_opt_def list_all_iff split: option.split)

lemma chain_fields_length:
  "length (chain_fields ev v) = (case v of Legacy \<Rightarrow> 11 | Pid \<Rightarrow> 12 | Analytics \<Rightarrow> 18 | Fingerprint \<Rightarrow> 19)"
  by (cases v) (simp_all add: chain_fields_def version_rank_def)

lemma json_opt_eq: "(\<And>x y. f x = f y \<Longrightarrow> x = y) \<Longrightarrow> (\<And>x. f x \<noteq> JNull) \<Longrightarrow> json_opt f a = json_opt f b \<longleftrightarrow> a = b"
  by (auto simp: json_opt_def split: option.splits) metis+

lemma usage_json_inj: "usage_json a = usage_json b \<Longrightarrow> a = b"
  by (auto simp: usage_json_def split: if_splits intro!: usage_rec.equality)

lemma ucast_inj: "(ucast (a :: u16) :: u64) = ucast b \<Longrightarrow> a = b" "(ucast (c :: u32) :: u64) = ucast d \<Longrightarrow> c = d"
proof -
  have "unat (ucast x :: u64) = unat x" for x :: u16
    by (simp add: unsigned_ucast_eq take_bit_nat_eq_self order_less_trans[OF unsigned_less])
  then show "(ucast (a :: u16) :: u64) = ucast b \<Longrightarrow> a = b" by (metis word_unat_eq_iff)
  have "unat (ucast x :: u64) = unat x" for x :: u32
    by (simp add: unsigned_ucast_eq take_bit_nat_eq_self order_less_trans[OF unsigned_less])
  then show "(ucast (c :: u32) :: u64) = ucast d \<Longrightarrow> c = d" by (metis word_unat_eq_iff)
qed

lemma map_JStr_inj: "map JStr xs = map JStr ys \<Longrightarrow> xs = ys"
  by (rule map_injective) (auto simp: inj_on_def)

lemma chain_fields_inj:
  assumes "chain_fields a Fingerprint = chain_fields b Fingerprint"
    "ev_prev_hash a = ev_prev_hash b" "ev_hash a = ev_hash b"
  shows "same_sealed a b"
proof -
  have p: "json_opt JPos x = json_opt JPos y \<longleftrightarrow> x = y" for x y by (rule json_opt_eq) auto
  have s: "json_opt JStr x = json_opt JStr y \<longleftrightarrow> x = y" for x y by (rule json_opt_eq) auto
  have u: "json_opt usage_json x = json_opt usage_json y \<longleftrightarrow> x = y" for x y
    by (rule json_opt_eq) (auto simp: usage_json_inj usage_json_def[of "_ :: usage_rec"])
  have "ev_seq a = ev_seq b \<and> ev_ts a = ev_ts b \<and> ev_host a = ev_host b \<and> ev_path a = ev_path b
    \<and> ev_method a = ev_method b \<and> ev_action a = ev_action b \<and> ev_rule a = ev_rule b \<and> ev_swaps a = ev_swaps b
    \<and> ev_tripwires a = ev_tripwires b \<and> ev_status a = ev_status b \<and> ev_note a = ev_note b \<and> ev_pid a = ev_pid b
    \<and> ev_sid a = ev_sid b \<and> ev_dur_ms a = ev_dur_ms b \<and> ev_bytes_up a = ev_bytes_up b \<and> ev_bytes_down a = ev_bytes_down b
    \<and> ev_usage a = ev_usage b \<and> ev_req_seq a = ev_req_seq b \<and> ev_fp a = ev_fp b"
    using assms(1) by (auto simp: chain_fields_def version_rank_def p s u dest: ucast_inj map_JStr_inj)
  then show ?thesis using assms(2,3) unfolding same_sealed_def by (intro audit_event.equality) simp_all
qed


lemma verify_link_input:
  assumes "verify_link cr ac prev ev"
  shows "ev_prev_hash ev = prev \<and> (\<exists>v. ev_hash ev = digest cr (hash_input ac prev ev v))"
  using assms by (auto simp: verify_link_def digest_def hash_input_def chain_hash_def split: if_splits)

lemma digest_length: "crypto_ok cr \<Longrightarrow> length (digest cr x) = 64"
  by (simp add: digest_def crypto_ok_def)

lemma tail_hash_length:
  assumes "crypto_ok cr" "chain_ok cr ac ZERO_HASH evs"
  shows "length (tail_hash evs) = 64"
proof (cases evs rule: rev_cases)
  case (snoc xs ev)
  then have "verify_link cr ac (tail_hash xs) ev" using assms(2) by (simp add: alog.chain_append tail_hash_def)
  from verify_link_input[OF this] snoc show ?thesis using digest_length[OF assms(1)] by (auto simp: tail_hash_def)
qed (simp add: tail_hash_def ZERO_HASH_def)

lemma hash_inputs_append: "hash_inputs ac (xs @ ys) = hash_inputs ac xs @ hash_inputs ac ys"
  by (simp add: hash_inputs_def)

lemma hash_inputs_mem: "hash_input ac (ev_prev_hash ev) ev v \<in> set (hash_inputs ac [ev])"
  by (cases v) (simp_all add: hash_inputs_def)

lemma broken_hash_mono:
  "broken_hash cr xs ys \<Longrightarrow> broken_hash cr (xs @ us) (ys @ vs)"
  by (auto simp: broken_hash_def list_ex_iff)

lemma same_event:
  assumes "crypto_ok cr" "writer_ok fx ac" "verify_link cr ac p a" "ev_hash a = chain_hash cr ac (ev_prev_hash a) a Fingerprint"
    "verify_link cr ac q b" "event_exact fx a" "event_exact fx b" "length p = 64" "length q = 64" "ev_hash a = ev_hash b"
    "\<not> broken_hash cr (hash_inputs ac [a]) (hash_inputs ac [b])"
  shows "p = q \<and> same_sealed a b"
proof -
  have a: "ev_prev_hash a = p" "ev_hash a = digest cr (hash_input ac p a Fingerprint)"
    using verify_link_input[OF assms(3)] assms(4) by (auto simp: digest_def hash_input_def chain_hash_def)
  obtain v where b: "ev_prev_hash b = q" "ev_hash b = digest cr (hash_input ac q b v)"
    using verify_link_input[OF assms(5)] by blast
  have "hash_input ac p a Fingerprint = hash_input ac q b v"
    using assms(10,11) a b hash_inputs_mem[of ac a Fingerprint] hash_inputs_mem[of ac b v]
    by (auto simp: broken_hash_def list_ex_iff)
  then have pq: "p = q" and j: "json_bytes ac (JArr (chain_fields a Fingerprint)) = json_bytes ac (JArr (chain_fields b v))"
    using assms(8,9) by (auto simp: hash_input_def)
  then have "chain_fields a Fingerprint = chain_fields b v"
    using assms(2) chain_fields_exact[OF assms(6), of Fingerprint] chain_fields_exact[OF assms(7), of v]
    by (auto simp: writer_ok_def inj_on_def simp del: json_exact.simps)
  moreover from this have "v = Fingerprint"
    using chain_fields_length[of a Fingerprint] chain_fields_length[of b v] by (cases v) auto
  ultimately show ?thesis using chain_fields_inj[of a b] a(1) b(1) assms(10) pq by simp
qed

lemma zero_hash_broken:
  assumes "chain_ok cr ac ZERO_HASH evs" "evs \<noteq> []" "tail_hash evs = ZERO_HASH"
  shows "list_ex (\<lambda>x. digest cr x = ZERO_HASH) (hash_inputs ac evs)"
proof (cases evs rule: rev_cases)
  case (snoc xs ev)
  then have "verify_link cr ac (tail_hash xs) ev" using assms(1) by (simp add: alog.chain_append tail_hash_def)
  from verify_link_input[OF this] obtain v where "ev_hash ev = digest cr (hash_input ac (ev_prev_hash ev) ev v)" by auto
  then show ?thesis using snoc assms(3) hash_inputs_mem[of ac ev v]
    by (auto simp: tail_hash_def list_ex_iff hash_inputs_append)
qed (use assms in simp)

lemma chains_agree:
  assumes "crypto_ok cr" "writer_ok fx ac" "chain_ok cr ac ZERO_HASH evs" "sealed_new cr ac evs" "list_all (event_exact fx) evs"
    "chain_ok cr ac ZERO_HASH fs" "list_all (event_exact fx) fs" "tail_hash evs = tail_hash fs"
    "\<not> broken_hash cr (hash_inputs ac evs) (hash_inputs ac fs)"
  shows "list_all2 same_sealed evs fs"
  using assms(3-9)
proof (induction evs arbitrary: fs rule: rev_induct)
  case Nil
  then show ?case using zero_hash_broken[OF Nil(4)] by (cases "fs = []") (auto simp: broken_hash_def tail_hash_def)
next
  case (snoc a xs)
  show ?case
  proof (cases fs rule: rev_cases)
    case Nil
    then show ?thesis using zero_hash_broken[OF snoc(2)] snoc(7,8) by (auto simp: broken_hash_def tail_hash_def)
  next
    case fs: (snoc ys b)
    have la: "verify_link cr ac (tail_hash xs) a" "chain_ok cr ac ZERO_HASH xs"
      and lb: "verify_link cr ac (tail_hash ys) b" "chain_ok cr ac ZERO_HASH ys"
      using snoc(2,5) fs by (simp_all add: alog.chain_append tail_hash_def)
    have nb: "\<not> broken_hash cr (hash_inputs ac [a]) (hash_inputs ac [b])"
      using snoc(8) fs by (auto simp: broken_hash_def list_ex_iff hash_inputs_append)
    have nx: "\<not> broken_hash cr (hash_inputs ac xs) (hash_inputs ac ys)"
      using snoc(8) fs broken_hash_mono by (auto simp: hash_inputs_append)
    have "tail_hash xs = tail_hash ys \<and> same_sealed a b"
      by (rule same_event[OF assms(1,2) la(1) _ lb(1) _ _ tail_hash_length[OF assms(1) la(2)] tail_hash_length[OF assms(1) lb(2)] _ nb])
        (use snoc(3,4,6,7) fs in \<open>auto simp: sealed_new_def tail_hash_def\<close>)
    then show ?thesis using snoc.IH[OF la(2) _ _ lb(2) _ _ nx] snoc(3,4,6) fs by (simp add: sealed_new_def list_all2_appendI)
  qed
qed

text \<open>The events a verifier reads from a file.\<close>

fun log_events :: "audit_codec \<Rightarrow> bytes list \<Rightarrow> audit_event list" where
  "log_events ac [] = []"
| "log_events ac (l # ls) = (if is_blank l then log_events ac ls
     else case line_event ac l of None \<Rightarrow> log_events ac ls | Some ev \<Rightarrow> ev # log_events ac ls)"

lemma verify_lines_sound:
  "verify_lines cr ac prev n lst ls = Inr (m, lst') \<Longrightarrow>
     chain_ok cr ac prev (log_events ac ls) \<and> lst' = tail_mark lst (log_events ac ls)"
proof (induction ls arbitrary: prev n lst)
  case (Cons l ls)
  show ?case
  proof (cases "line_event ac l")
    case (Some ev)
    then show ?thesis using Cons.prems Cons.IH[of "ev_hash ev" "n + 1" "Some (ev_seq ev, ev_hash ev)"] Cons.IH[of prev n lst]
      by (auto simp: tail_mark_def split: if_splits)
  qed (use Cons in \<open>auto split: if_splits\<close>)
qed (simp add: tail_mark_def)

lemma log_events_exact: "writer_ok fx ac \<Longrightarrow> list_all (event_exact fx) (log_events ac ls)"
  by (induction ls) (auto simp: writer_ok_def split: option.split)

lemma exact_weaken:
  assumes "codec_ok fx ac" "writer_ok fw ac" "event_exact fx ev"
  shows "event_exact fw ev"
  using assms by (auto simp: codec_ok_def writer_ok_def)

lemma verify_accepts:
  assumes "codec_ok fx ac" "writer_ok fw ac" "crypto_ok cr" "system_ok cr ac fx g" "al_anchored g" "al_events g \<noteq> []"
    "audit_verify cr ac ((al_disk g)\<lparr>dk_log := Some f\<rparr>) = Inr n"
    "\<not> broken_hash cr (hash_inputs ac (al_events g)) (hash_inputs ac (log_events ac (file_lines f)))"
  shows "list_all2 same_sealed (al_events g) (log_events ac (file_lines f))"
proof -
  let ?fs = "log_events ac (file_lines f)"
  have hd: "dk_head (al_disk g) = Some (ev_seq (last (al_events g)), ev_hash (last (al_events g)))"
    using assms(4-6) by (simp add: system_ok_def tail_mark_def)
  obtain m lst where v: "verify_lines cr ac ZERO_HASH 0 None (file_lines f) = Inr (m, lst)"
    and c: "check_anchor (dk_head (al_disk g)) lst m = Inr n"
    using assms(7) by (auto simp: audit_verify_def split: sum.splits)
  from verify_lines_sound[OF v] have ch: "chain_ok cr ac ZERO_HASH ?fs" and lst: "lst = tail_mark None ?fs" by auto
  have "tail_hash (al_events g) = tail_hash ?fs"
    using c hd lst assms(6) by (auto simp: check_anchor_def tail_mark_def tail_hash_def split: if_splits)
  moreover have "list_all (event_exact fw) (al_events g)"
    using assms(4) exact_weaken[OF assms(1,2)] by (auto simp: system_ok_def list_all_iff)
  ultimately show ?thesis
    using chains_agree[OF assms(3,2) _ _ _ ch log_events_exact[OF assms(2)] _ assms(8)] assms(4) by (simp add: system_ok_def)
qed

section \<open>A concrete codec\<close>

text \<open>A prefix code for JSON values whose floats are zero, and the event codec built on it.\<close>

definition tally :: "nat \<Rightarrow> string" where
  "tally n = replicate n (CHR ''1'') @ ''.''"

fun json_code :: "json \<Rightarrow> string" where
  "json_code JNull = ''n''"
| "json_code (JBool b) = (if b then ''t'' else ''f'')"
| "json_code (JPos n) = ''p'' @ tally (unat n)"
| "json_code (JNeg i) = (if i < 0 then ''m'' else ''q'') @ tally (nat \<bar>i\<bar>)"
| "json_code (JFloat x) = ''z''"
| "json_code (JStr s) = ''s'' @ tally (length s) @ s"
| "json_code (JArr xs) = ''a'' @ tally (length xs) @ concat (map json_code xs)"
| "json_code (JObj m) = ''o'' @ tally (length m) @ concat (map (\<lambda>(k, v). tally (length k) @ k @ json_code v) m)"

lemma tally_prefix: "tally m @ r = tally n @ r' \<longleftrightarrow> m = n \<and> r = r'"
proof (induction m arbitrary: n)
  case 0 show ?case by (cases n) (auto simp: tally_def)
next
  case (Suc m) then show ?case by (cases n) (auto simp: tally_def)
qed

abbreviation zero_usd :: "usd \<Rightarrow> bool" where
  "zero_usd \<equiv> (\<lambda>x. x = 0)"

definition codes_apart :: "json \<Rightarrow> bool" where
  "codes_apart j \<longleftrightarrow> (\<forall>j' r r'. json_exact zero_usd j \<longrightarrow> json_exact zero_usd j' \<longrightarrow>
     json_code j @ r = json_code j' @ r' \<longrightarrow> j = j' \<and> r = r')"

lemma codes_apart_list:
  assumes "list_all codes_apart xs" "list_all (json_exact zero_usd) xs" "list_all (json_exact zero_usd) ys"
    "length xs = length ys" "concat (map json_code xs) @ r = concat (map json_code ys) @ r'"
  shows "xs = ys \<and> r = r'"
  using assms
proof (induction xs arbitrary: ys)
  case (Cons x xs)
  then obtain y ys' where y: "ys = y # ys'" by (cases ys) auto
  have "x = y \<and> concat (map json_code xs) @ r = concat (map json_code ys') @ r'"
    using Cons.prems y by (auto simp: codes_apart_def)
  then show ?case using Cons.IH[of ys'] Cons.prems y by simp
qed simp

lemma codes_apart_obj:
  assumes "list_all (\<lambda>(_, v). codes_apart v) xs" "list_all (\<lambda>(_, v). json_exact zero_usd v) xs"
    "list_all (\<lambda>(_, v). json_exact zero_usd v) ys" "length xs = length ys"
    "concat (map (\<lambda>(k, v). tally (length k) @ k @ json_code v) xs) @ r
      = concat (map (\<lambda>(k, v). tally (length k) @ k @ json_code v) ys) @ r'"
  shows "xs = ys \<and> r = r'"
  using assms
proof (induction xs arbitrary: ys)
  case (Cons x xs)
  then obtain k v l w ys' where y: "x = (k, v)" "ys = (l, w) # ys'" by (cases x; cases ys) auto
  then have "k @ json_code v @ concat (map (\<lambda>(k, v). tally (length k) @ k @ json_code v) xs) @ r
      = l @ json_code w @ concat (map (\<lambda>(k, v). tally (length k) @ k @ json_code v) ys') @ r'" "length k = length l"
    using Cons.prems(5) tally_prefix by auto
  then have "k = l" "v = w \<and> concat (map (\<lambda>(k, v). tally (length k) @ k @ json_code v) xs) @ r
      = concat (map (\<lambda>(k, v). tally (length k) @ k @ json_code v) ys') @ r'"
    using Cons.prems(1-3) y by (auto simp: codes_apart_def)
  then show ?case using Cons.IH[of ys'] Cons.prems y by simp
qed simp

lemma json_codes_apart: "codes_apart j"
proof (induction j)
  case (JArr xs)
  show ?case unfolding codes_apart_def
  proof (intro allI impI)
    fix j' r r'
    assume a: "json_exact zero_usd (JArr xs)" "json_exact zero_usd j'" "json_code (JArr xs) @ r = json_code j' @ r'"
    then obtain ys where j: "j' = JArr ys" by (cases j') (auto split: if_splits)
    then have "length xs = length ys" "concat (map json_code xs) @ r = concat (map json_code ys) @ r'"
      using a(3) tally_prefix by auto
    then show "JArr xs = j' \<and> r = r'" using codes_apart_list[of xs ys r r'] a(1,2) j JArr by (simp add: list_all_iff)
  qed
next
  case (JObj m)
  show ?case unfolding codes_apart_def
  proof (intro allI impI)
    fix j' r r'
    assume a: "json_exact zero_usd (JObj m)" "json_exact zero_usd j'" "json_code (JObj m) @ r = json_code j' @ r'"
    then obtain n where j: "j' = JObj n" by (cases j') (auto split: if_splits)
    then have "length m = length n" "concat (map (\<lambda>(k, v). tally (length k) @ k @ json_code v) m) @ r
        = concat (map (\<lambda>(k, v). tally (length k) @ k @ json_code v) n) @ r'"
      using a(3) tally_prefix by auto
    moreover have "list_all (\<lambda>(_, v). codes_apart v) m" using JObj by (auto simp: list_all_iff)
    ultimately show "JObj m = j' \<and> r = r'" using codes_apart_obj[of m n r r'] a(1,2) j by simp
  qed
next
  case (JStr s)
  show ?case unfolding codes_apart_def
  proof (intro allI impI)
    fix j' r r' assume a: "json_code (JStr s) @ r = json_code j' @ r'"
    then obtain t where j: "j' = JStr t" by (cases j') (auto split: if_splits)
    then have "length s = length t" "s @ r = t @ r'" using a tally_prefix by auto
    then show "JStr s = j' \<and> r = r'" using j by simp
  qed
next
  case (JNeg i)
  show ?case unfolding codes_apart_def
  proof (intro allI impI)
    fix j' r r' assume a: "json_code (JNeg i) @ r = json_code j' @ r'"
    then obtain k where j: "j' = JNeg k" by (cases j') (auto split: if_splits)
    then have "nat \<bar>i\<bar> = nat \<bar>k\<bar> \<and> (i < 0 \<longleftrightarrow> k < 0) \<and> r = r'" using a tally_prefix by (auto split: if_splits)
    then show "JNeg i = j' \<and> r = r'" using j by auto
  qed
next
  case (JPos n)
  show ?case unfolding codes_apart_def
  proof (intro allI impI)
    fix j' r r' assume a: "json_code (JPos n) @ r = json_code j' @ r'"
    then obtain k where j: "j' = JPos k" by (cases j') (auto split: if_splits)
    then show "JPos n = j' \<and> r = r'" using a tally_prefix by (auto simp: word_unat_eq_iff)
  qed
qed (auto simp: codes_apart_def, (case_tac j'; auto split: if_splits)+)


lemma json_code_inj:
  assumes "json_exact zero_usd j" "json_exact zero_usd j'" "json_code j = json_code j'"
  shows "j = j'"
proof -
  have "json_code j @ [] = json_code j' @ [] \<longrightarrow> j = j' \<and> [] = ([] :: string)"
    using json_codes_apart[of j] assms(1,2) unfolding codes_apart_def by blast
  then show ?thesis using assms(3) by simp
qed

definition event_json :: "audit_event \<Rightarrow> json" where
  "event_json ev = JArr (JBool (ev_escalated ev) # JStr (ev_prev_hash ev) # JStr (ev_hash ev) # chain_fields ev Fingerprint)"

definition demo_event_line :: "audit_event \<Rightarrow> string" where
  "demo_event_line ev = ''{'' @ hex_encode demo_crypto (json_code (event_json ev)) @ ''}''"

definition demo_codec :: audit_codec where
  "demo_codec = \<lparr>json_bytes = json_code, event_line = demo_event_line,
     line_event = (\<lambda>l. if \<exists>ev. event_exact zero_usd ev \<and> demo_event_line ev = l
       then Some (THE ev. event_exact zero_usd ev \<and> demo_event_line ev = l) else None)\<rparr>"

lemma demo_hex_digit_inj: "m < 16 \<Longrightarrow> n < 16 \<Longrightarrow> demo_hex_digit m = demo_hex_digit n \<Longrightarrow> m = n"
  by (drule arg_cong[of _ _ bval]) (auto simp: demo_hex_digit_def split: if_splits)

lemma demo_hex_Cons: "hex_encode demo_crypto (c # s) =
    demo_hex_digit (bval c div 16) # demo_hex_digit (bval c mod 16) # hex_encode demo_crypto s"
  by (simp add: demo_crypto_def)

lemma demo_hex_inj: "hex_encode demo_crypto a = hex_encode demo_crypto b \<Longrightarrow> a = b"
proof (induction a arbitrary: b)
  case Nil
  then show ?case using demo_hex_length[of b] by (simp add: demo_crypto_def)
next
  case (Cons c s)
  then obtain d t where b: "b = d # t" using demo_hex_length[of "c # s"] by (cases b) (auto simp: demo_crypto_def)
  have "bval c div 16 = bval d div 16" "bval c mod 16 = bval d mod 16"
    using Cons.prems b nibbles by (auto simp: demo_hex_Cons intro!: demo_hex_digit_inj)
  then have "bval c = bval d" by (metis div_mult_mod_eq)
  then show ?case using Cons b by (auto simp: demo_hex_Cons)
qed

lemma demo_hex_ascii: "c \<in> set (hex_encode demo_crypto s) \<Longrightarrow> bval c < 128 \<and> c \<noteq> CHR 0x0A"
proof (induction s)
  case (Cons x s)
  have "bval (demo_hex_digit n) < 128 \<and> demo_hex_digit n \<noteq> CHR 0x0A" if "n < 16" for n
    using that by (auto simp: demo_hex_digit_def dest: arg_cong[of _ _ bval])
  from this[OF nibbles(1)[of x]] this[OF nibbles(2)[of x]] show ?case using Cons by (auto simp: demo_hex_Cons)
qed (simp add: demo_crypto_def)

lemma event_json_inj:
  assumes "event_exact zero_usd a" "event_exact zero_usd b" "json_code (event_json a) = json_code (event_json b)"
  shows "a = b"
proof -
  have "json_exact zero_usd (event_json a)" "json_exact zero_usd (event_json b)"
    using chain_fields_exact[OF assms(1)] chain_fields_exact[OF assms(2)] by (simp_all add: event_json_def)
  from json_code_inj[OF this assms(3)] have "event_json a = event_json b" .
  then have f: "chain_fields a Fingerprint = chain_fields b Fingerprint" "ev_prev_hash a = ev_prev_hash b"
    "ev_hash a = ev_hash b" "ev_escalated a = ev_escalated b" by (auto simp: event_json_def)
  from chain_fields_inj[OF f(1-3)] f(4) show ?thesis by (auto simp: same_sealed_def)
qed

lemma demo_event_line_inj:
  "event_exact zero_usd a \<Longrightarrow> event_exact zero_usd b \<Longrightarrow> demo_event_line a = demo_event_line b \<Longrightarrow> a = b"
  by (rule event_json_inj) (auto simp: demo_event_line_def dest: demo_hex_inj)

lemma demo_line_event:
  assumes "event_exact zero_usd ev"
  shows "line_event demo_codec (demo_event_line ev) = Some ev"
proof -
  have "(THE e. event_exact zero_usd e \<and> demo_event_line e = demo_event_line ev) = ev"
    by (rule the_equality) (use assms demo_event_line_inj in auto)
  then show ?thesis using assms by (auto simp: demo_codec_def)
qed

lemma demo_line_shaped: "line_shaped (demo_event_line ev)"
proof -
  have "utf8_valid (demo_event_line ev)"
    by (rule utf8_ascii) (auto simp: demo_event_line_def dest: demo_hex_ascii)
  then show ?thesis
    by (auto simp: line_shaped_def demo_event_line_def starts_with_def ends_with_def suffix_def dest: demo_hex_ascii)
qed

lemma demo_codec_ok: "codec_ok zero_usd demo_codec"
proof -
  have "event_line demo_codec = demo_event_line" by (simp add: demo_codec_def)
  then show ?thesis by (simp add: codec_ok_def demo_line_event demo_line_shaped)
qed

lemma demo_writer_ok: "writer_ok zero_usd demo_codec"
proof -
  have "event_exact zero_usd ev" if "line_event demo_codec l = Some ev" for l ev
  proof -
    have "\<exists>e. event_exact zero_usd e \<and> demo_event_line e = l"
      using that by (rule contrapos_pp) (auto simp: demo_codec_def)
    then obtain e where "event_exact zero_usd e" "demo_event_line e = l" by blast
    then show ?thesis using demo_line_event[of e] that by simp
  qed
  moreover have "inj_on (json_bytes demo_codec) {j. json_exact zero_usd j}"
    by (auto simp: inj_on_def demo_codec_def intro: json_code_inj)
  ultimately show ?thesis by (auto simp: writer_ok_def)
qed

section \<open>A log with one event\<close>

text \<open>A digest that tells lengths apart modulo 256, enough for one short event.\<close>

definition length_crypto :: crypto where
  "length_crypto = \<lparr>sha256 = (\<lambda>x. char_of (length x mod 256) # CHR 0x01 # replicate 30 (CHR 0x01)),
     hex_encode = hex_encode demo_crypto\<rparr>"

lemma length_crypto_ok: "crypto_ok length_crypto"
  by (simp add: crypto_ok_def length_crypto_def demo_hex_length)

definition first_event :: "auditor \<Rightarrow> audit_event" where
  "first_event a = seal length_crypto demo_codec 7 ''t'' entry_default a"

lemma first_system_exists:
  "\<exists>g a. audit_reachable length_crypto demo_codec zero_usd g \<and> al_events g = [first_event a] \<and> al_anchored g
     \<and> au_seq a = 0 \<and> au_prev_hash a = ZERO_HASH"
proof -
  let ?g0 = "\<lparr>al_disk = \<lparr>dk_log = None, dk_head = None\<rparr>, al_auditors = [], al_events = [], al_anchored = True\<rparr>"
  let ?a = "\<lparr>au_seq = 0, au_prev_hash = ZERO_HASH, au_known_len = 0\<rparr>"
  let ?g1 = "?g0\<lparr>al_auditors := al_auditors ?g0 @ [?a]\<rparr>"
  have "audit_step length_crypto demo_codec zero_usd ?g0 ?g1"
    by (rule audit_step.opened) (simp add: auditor_open_def recover_tail_def log_len_def)
  then have r: "audit_reachable length_crypto demo_codec zero_usd ?g1" by (rule audit_reachable.step[OF audit_reachable.init])
  then have ok: "system_ok length_crypto demo_codec zero_usd ?g1" by (rule audit_reachable_ok[OF demo_codec_ok])
  have i: "0 < length (al_auditors ?g1)" and e: "entry_exact zero_usd entry_default"
    by (simp_all add: entry_exact_def entry_default_def)
  obtain a a' d' where ap: "append_event length_crypto demo_codec 7 True entry_default ''t'' (al_auditors ?g1 ! 0) (al_disk ?g1) = (a', d', Inr (first_event a))"
    and "au_seq a = word_of_nat (length (al_events ?g1))" "au_prev_hash a = tail_hash (al_events ?g1)"
    using append_event_ok[OF demo_codec_ok ok i, of 7 True entry_default "''t''"] unfolding first_event_def by blast
  then have a: "au_seq a = 0" "au_prev_hash a = ZERO_HASH" by (simp_all add: tail_hash_def)
  show ?thesis
    using audit_reachable.step[OF r audit_step.append[OF i e ap]] a by (intro exI conjI) auto
qed

lemma first_event_fields:
  assumes "au_seq a = 0" "au_prev_hash a = ZERO_HASH"
  shows "ev_prev_hash (first_event a) = ZERO_HASH"
    and "chain_fields (first_event a) v = take (case v of Legacy \<Rightarrow> 11 | Pid \<Rightarrow> 12 | Analytics \<Rightarrow> 18 | Fingerprint \<Rightarrow> 19)
      [JPos 0, JStr ''t'', JStr [], JStr [], JStr [], JStr [], JStr [], JArr [], JArr [],
       JPos 0, JStr [], JPos 7, JStr [], JNull, JPos 0, JPos 0, JNull, JNull, JNull]"
  using assms by (simp add: first_event_def seal_def Let_def)
    (cases v; simp add: assms first_event_def seal_def entry_default_def Let_def chain_fields_def version_rank_def json_opt_def)

lemma digest_length_eq:
  assumes "digest length_crypto x = digest length_crypto y"
  shows "length x mod 256 = length y mod 256"
proof -
  have "length x mod 256 div 16 = length y mod 256 div 16" "length x mod 256 mod 16 = length y mod 256 mod 16"
    using assms by (auto simp: digest_def length_crypto_def demo_hex_Cons intro!: demo_hex_digit_inj)
  then show ?thesis by (metis div_mult_mod_eq)
qed

lemma digest_not_zero: "digest length_crypto x \<noteq> ZERO_HASH"
proof
  assume "digest length_crypto x = ZERO_HASH"
  then have "digest length_crypto x ! 3 = ZERO_HASH ! 3" by simp
  then have "char_of (49 :: nat) = CHR ''0''"
    by (simp add: digest_def length_crypto_def demo_hex_Cons ZERO_HASH_def demo_hex_digit_def)
  from arg_cong[OF this, of bval] show False by simp
qed

lemma first_inputs_lengths:
  assumes "au_seq a = 0" "au_prev_hash a = ZERO_HASH"
  shows "map length (hash_inputs demo_codec [first_event a]) = [102, 112, 127, 129]"
  by (simp add: hash_inputs_def hash_input_def first_event_fields[OF assms] ZERO_HASH_def demo_codec_def tally_def)


lemma first_inputs_unbroken:
  assumes "au_seq a = 0" "au_prev_hash a = ZERO_HASH"
  shows "\<not> broken_hash length_crypto (hash_inputs demo_codec [first_event a]) (hash_inputs demo_codec [first_event a])"
proof -
  let ?xs = "hash_inputs demo_codec [first_event a]"
  have len: "map length ?xs = [102, 112, 127, 129]" by (rule first_inputs_lengths[OF assms])
  have "length ?xs = 4" using arg_cong[OF len, of length] by simp
  then obtain w x y z where xs: "?xs = [w, x, y, z]" by (auto simp: numeral_eq_Suc length_Suc_conv)
  have l: "length w = 102" "length x = 112" "length y = 127" "length z = 129" using len xs by simp_all
  have "u = v" if "u \<in> set ?xs" "v \<in> set ?xs" "digest length_crypto u = digest length_crypto v" for u v
    using digest_length_eq[OF that(3)] that(1,2) l by (auto simp: xs)
  then show ?thesis using digest_not_zero by (auto simp: broken_hash_def list_ex_iff)
qed

section \<open>Claims\<close>

text \<open>C10: however many processes open the log and append to it, in any order, each behind the lock and
  each with a memory of the tail that others may have overtaken, the log verifies with exactly the
  number of events appended, as long as the last anchor was written; and every further append succeeds
  with the next sequence number (on a disk that takes the write). Two conditions on what is logged: every
  dollar amount of an appended event is one that reads back exactly after it was printed (fx, entry_exact),
  and the JSON library prints an event with such amounts as one line in braces, without a line end, from
  which it reads the same event back (codec_ok). For an amount that does not read back exactly the code can
  report a broken chain on an honest log, which is a finding.\<close>

theorem audit_log_verifies:
  assumes "codec_ok fx ac" and "audit_reachable cr ac fx g" and "al_anchored g"
  shows "audit_verify cr ac (al_disk g) = Inr (word_of_nat (length (al_events g)))
    \<and> list_all (\<lambda>a. case append_event cr ac pid ok en ts a (al_disk g) of (_, _, r) \<Rightarrow>
        (case r of Inl _ \<Rightarrow> False | Inr ev \<Rightarrow> ev_seq ev = word_of_nat (length (al_events g)))) (al_auditors g)"
proof -
  have sys: "system_ok cr ac fx g" by (rule audit_reachable_ok[OF assms(1,2)])
  have "case append_event cr ac pid ok en ts (al_auditors g ! i) (al_disk g) of (_, _, r) \<Rightarrow>
        (case r of Inl _ \<Rightarrow> False | Inr ev \<Rightarrow> ev_seq ev = word_of_nat (length (al_events g)))"
    if "i < length (al_auditors g)" for i
    using append_event_ok[OF assms(1) sys that, of pid ok en ts] seal_link(3) by auto
  then show ?thesis using system_verify[OF assms(1) sys assms(3)] by (simp add: list_all_length)
qed

theorem audit_log_verifies_witness:
  "\<exists>g. codec_ok zero_usd demo_codec \<and> audit_reachable length_crypto demo_codec zero_usd g
     \<and> audit_verify length_crypto demo_codec (al_disk g) = Inr 1"
proof -
  obtain g a where g: "audit_reachable length_crypto demo_codec zero_usd g" "al_events g = [first_event a]" "al_anchored g"
    using first_system_exists by blast
  from audit_log_verifies[OF demo_codec_ok g(1,3), of 0 True entry_default "[]"] g demo_codec_ok show ?thesis by auto
qed

text \<open>Dropping the last events of an anchored log is always detected, although what is left is a
  valid chain (for logs of at most 2^64 events, after which sequence numbers repeat).\<close>

theorem truncation_detected:
  assumes "codec_ok fx ac" and "audit_reachable cr ac fx g" and "al_anchored g"
    and "k < length (al_events g)" and "length (al_events g) \<le> 2 ^ 64"
  shows "\<exists>e. audit_verify cr ac ((al_disk g)\<lparr>dk_log := Some (log_bytes ac (take k (al_events g)))\<rparr>) = Inl e"
  using verify_truncated[OF assms(1) audit_reachable_ok[OF assms(1,2)] assms(3-5)] .

theorem truncation_detected_witness:
  "\<exists>g. audit_reachable length_crypto demo_codec zero_usd g \<and> al_anchored g \<and> length (al_events g) = 1
     \<and> (\<exists>e. audit_verify length_crypto demo_codec ((al_disk g)\<lparr>dk_log := Some (log_bytes demo_codec (take 0 (al_events g)))\<rparr>) = Inl e)"
proof -
  obtain g a where g: "audit_reachable length_crypto demo_codec zero_usd g" "al_events g = [first_event a]" "al_anchored g"
    using first_system_exists by blast
  have "0 < length (al_events g)" "length (al_events g) \<le> 2 ^ 64" using g(2) by simp_all
  from truncation_detected[OF demo_codec_ok g(1,3) this] g show ?thesis by auto
qed

text \<open>C7: a rewritten log that still verifies against the anchor of an untouched one carries the same
  events, field by field, except that the escalation mark of an event may differ; the only other way is
  a hash collision between the bytes the two logs hash, or an all-zero digest among them. The exception
  is real: the mark is not part of the hashed payload.\<close>

theorem tampering_detected:
  assumes "codec_ok fx ac" and "writer_ok fw ac" and "crypto_ok cr"
    and "audit_reachable cr ac fx g" and "al_anchored g" and "al_events g \<noteq> []"
    and "audit_verify cr ac ((al_disk g)\<lparr>dk_log := Some f\<rparr>) = Inr n"
    and "\<not> broken_hash cr (hash_inputs ac (al_events g)) (hash_inputs ac (log_events ac (file_lines f)))"
  shows "list_all2 same_sealed (al_events g) (log_events ac (file_lines f))"
  using verify_accepts[OF assms(1-3) audit_reachable_ok[OF assms(1,4)] assms(5-8)] .

lemma log_events_log:
  assumes "codec_ok fx ac" "list_all (event_exact fx) evs"
  shows "log_events ac (file_lines (log_bytes ac evs)) = evs"
proof -
  have "log_events ac (map (event_line ac) evs) = evs"
    using assms(2)
  proof (induction evs)
    case (Cons ev evs)
    have "line_event ac (event_line ac ev) = Some ev" and s: "line_shaped (event_line ac ev)"
      using Cons.prems assms(1) by (simp_all add: codec_ok_def)
    then show ?case using Cons line_shaped_facts(2)[OF s] by simp
  qed simp
  then show ?thesis by (simp add: file_lines_log[OF assms])
qed

theorem tampering_detected_witness:
  "\<exists>g f. audit_reachable length_crypto demo_codec zero_usd g \<and> length (al_events g) = 1
     \<and> audit_verify length_crypto demo_codec ((al_disk g)\<lparr>dk_log := Some f\<rparr>) = Inr 1
     \<and> list_all2 same_sealed (al_events g) (log_events demo_codec (file_lines f))"
proof -
  obtain g a where g: "audit_reachable length_crypto demo_codec zero_usd g" "al_events g = [first_event a]" "al_anchored g"
    and a: "au_seq a = 0" "au_prev_hash a = ZERO_HASH" using first_system_exists by blast
  have sys: "system_ok length_crypto demo_codec zero_usd g" by (rule audit_reachable_ok[OF demo_codec_ok g(1)])
  let ?f = "log_bytes demo_codec (al_events g)"
  have same: "(al_disk g)\<lparr>dk_log := Some ?f\<rparr> = al_disk g" using sys g(2) by (auto simp: system_ok_def)
  have v: "audit_verify length_crypto demo_codec ((al_disk g)\<lparr>dk_log := Some ?f\<rparr>) = Inr 1"
    unfolding same using system_verify[OF demo_codec_ok sys g(3)] g(2) by simp
  have ev: "log_events demo_codec (file_lines ?f) = al_events g"
    by (rule log_events_log[OF demo_codec_ok]) (use sys in \<open>simp add: system_ok_def\<close>)
  have ne: "al_events g \<noteq> []" using g(2) by simp
  have nb: "\<not> broken_hash length_crypto (hash_inputs demo_codec (al_events g)) (hash_inputs demo_codec (log_events demo_codec (file_lines ?f)))"
    unfolding ev using first_inputs_unbroken[OF a] by (simp only: g(2) not_False_eq_True)
  from tampering_detected[OF demo_codec_ok demo_writer_ok length_crypto_ok g(1,3) ne v nb] g v show ?thesis
    by (intro exI[of _ g] exI[of _ ?f]) simp
qed

end
