(* ===== verification/Proxy.thy ===== *)
theory Proxy
  imports Detect Watch Meter Audit_Log
begin

text \<open>
  \<^verbatim>\<open>src/src/proxy.rs\<close>: the steps of the request pipeline between the policy decision and
  the forward. The spend tripwire, the swap over the device vault and the session vault, the
  detectors on the swapped view, the choice of the final action and the deny response, the
  headers and URL of the forwarded request, the response scan, and the accounting of a
  response, buffered or streamed. Sockets, TLS and the HTTP client are outside.
\<close>

section \<open>Spend tripwire step\<close>

text \<open>Step 3.35: fingerprint the request to a provider host, read or raise the trip. \<open>saved\<close>
  says whether \<open>trip.json\<close> could be written.\<close>

record spend_result =
  sr_watch :: watch
  sr_file :: trip_file
  sr_trip :: "trip option"
  sr_onset :: bool
  sr_fp :: "string option"

definition spend_step ::
  "crypto \<Rightarrow> bytes \<Rightarrow> pricing \<Rightarrow> spend_tripwire_config \<Rightarrow> u64 \<Rightarrow> string \<Rightarrow> string \<Rightarrow> bool
   \<Rightarrow> string \<Rightarrow> string \<Rightarrow> string \<Rightarrow> bytes \<Rightarrow> trip_file \<Rightarrow> watch \<Rightarrow> spend_result" where
  "spend_step cr salt prices cfg now ts sid saved host path method body tf w =
     (case provider_for_host prices host of
        None \<Rightarrow> \<lparr>sr_watch = w, sr_file = tf, sr_trip = None, sr_onset = False, sr_fp = None\<rparr>
      | Some _ \<Rightarrow>
          (let fp = watch_fingerprint cr salt host path method body in
           case w_tripped w of
             Some t \<Rightarrow> \<lparr>sr_watch = w, sr_file = tf, sr_trip = Some t, sr_onset = False, sr_fp = Some fp\<rparr>
           | None \<Rightarrow>
               (case observe cfg now fp w of
                  (w1, None) \<Rightarrow>
                    \<lparr>sr_watch = w1, sr_file = tf, sr_trip = None, sr_onset = False, sr_fp = Some fp\<rparr>
                | (w1, Some sig) \<Rightarrow>
                    (let t = to_trip sig (st_window_secs cfg) ts sid in
                     \<lparr>sr_watch = set_tripped (Some t) w1,
                      sr_file = (if saved then save_trip t else tf),
                      sr_trip = Some t, sr_onset = True, sr_fp = Some fp\<rparr>))))"

definition spend_block :: "spend_tripwire_config \<Rightarrow> spend_result \<Rightarrow> bool" where
  "spend_block cfg r \<longleftrightarrow> sr_trip r \<noteq> None \<and> st_mode cfg = TripBlock"

text \<open>In alert mode the onset is audited once and the request goes on.\<close>

definition spend_alert :: "spend_tripwire_config \<Rightarrow> decision \<Rightarrow> string \<Rightarrow> string \<Rightarrow> string \<Rightarrow> spend_result \<Rightarrow> entry option" where
  "spend_alert cfg d host path method r =
     (if sr_onset r \<and> \<not> spend_block cfg r then
        map_option (\<lambda>t. entry_default\<lparr>en_host := host, en_path := path, en_method := method,
            en_action := ''alert'', en_rule := dc_rule d,
            en_note := ''spend tripwire: '' @ t_reason t
              @ '' (alert mode: forwarding continues; clear with `decoyrail trip clear`)'',
            en_fp := sr_fp r\<rparr>) (sr_trip r)
      else None)"

section \<open>Swap, detectors, final action\<close>

text \<open>Step 4: the device vault first, then the session vault, outcomes concatenated.\<close>

definition swap_step :: "codecs \<Rightarrow> request_ctx \<Rightarrow> vault \<Rightarrow> vault \<Rightarrow> decision \<Rightarrow> bool \<Rightarrow> request_ctx \<times> outcome" where
  "swap_step cx q v session d tls =
     (let (q1, o1) = swap_apply cx q v d tls; (q2, o2) = swap_apply cx q1 session d tls
      in (q2, \<lparr>o_swaps = o_swaps o1 @ o_swaps o2, o_tripwires = o_tripwires o1 @ o_tripwires o2\<rparr>))"

lemma swap_step_swaps:
  "list_all (\<lambda>x. \<exists>s \<in> set (secrets v @ secrets session). sw_secret_name x = sec_name s \<and> approved d tls s)
     (o_swaps (snd (swap_step cx q v session d tls)))"
  using swap_all_swaps[of "secrets v" d tls cx q] swap_all_swaps[of "secrets session" d tls cx "fst (swap_apply cx q v d tls)"]
  by (auto simp: swap_step_def swap_apply_def Let_def split_beta list_all_iff)

text \<open>The recorded secrets alone give the same request.\<close>

lemma swap_step_recorded:
  assumes "\<And>x s. x \<in> set (o_swaps (snd (swap_step cx q v session d tls))) \<Longrightarrow> sec_name s = sw_secret_name x \<Longrightarrow> P s"
  shows "fst (swap_step cx q v session d tls)
    = fst (swap_step cx q \<lparr>secrets = filter P (secrets v)\<rparr> \<lparr>secrets = filter P (secrets session)\<rparr> d tls)"
proof -
  have sw: "o_swaps (snd (swap_step cx q v session d tls))
      = o_swaps (snd (swap_apply cx q v d tls)) @ o_swaps (snd (swap_apply cx (fst (swap_apply cx q v d tls)) session d tls))"
    by (simp add: swap_step_def Let_def split_beta)
  have P: "P s" if "x \<in> set (o_swaps (snd (swap_apply cx q v d tls)))
      \<or> x \<in> set (o_swaps (snd (swap_apply cx (fst (swap_apply cx q v d tls)) session d tls)))" "sec_name s = sw_secret_name x" for x s
    using assms[of x s] sw that by auto
  have "fst (swap_apply cx q v d tls) = fst (swap_apply cx q \<lparr>secrets = filter P (secrets v)\<rparr> d tls)"
    by (rule swap_apply_recorded) (blast intro: P)
  moreover have "fst (swap_apply cx (fst (swap_apply cx q v d tls)) session d tls)
      = fst (swap_apply cx (fst (swap_apply cx q v d tls)) \<lparr>secrets = filter P (secrets session)\<rparr> d tls)"
    by (rule swap_apply_recorded) (blast intro: P)
  ultimately show ?thesis by (simp add: swap_step_def Let_def split_beta)
qed

text \<open>Step 5. \<open>spend\<close> is the standing trip when spend blocking applies.\<close>

definition tripwire_note :: "outcome \<Rightarrow> string \<Rightarrow> string" where
  "tripwire_note oc host =
     ''tripwire: '' @ (case o_tripwires oc of [] \<Rightarrow> [] | t # _ \<Rightarrow> tripwire_message t host)
     @ (if length (o_tripwires oc) > 1
        then '' (+'' @ show_nat (length (o_tripwires oc) - 1) @ '' more)'' else [])"

definition final_action :: "outcome \<Rightarrow> dlp_outcome \<Rightarrow> bool \<Rightarrow> trip option \<Rightarrow> decision \<Rightarrow> string \<Rightarrow> string
    \<Rightarrow> action \<times> string" where
  "final_action oc dlp over_budget spend d host dump_note =
     (if tripped oc then (Deny, tripwire_note oc host)
      else if has_blocking dlp then (Deny, ''dlp: '' @ dlp_summary dlp @ dump_note)
      else if over_budget then (Deny, ''budget exhausted'')
      else (case spend of
          Some t \<Rightarrow> (Deny, ''spend tripwire: '' @ t_reason t @ '' (clear with `decoyrail trip clear`)'')
        | None \<Rightarrow> (if dc_action d = Route then (Allow, []) else (dc_action d, []))))"

text \<open>The bodies of the deny responses, as JSON values.\<close>

definition deny_response :: "string \<Rightarrow> json" where
  "deny_response msg = JObj [(''decoyrail'', JBool True), (''blocked'', JBool True), (''message'', JStr msg)]"

definition dlp_deny_response :: "dlp_outcome \<Rightarrow> json" where
  "dlp_deny_response dlp = JObj
     [(''decoyrail'', JBool True), (''blocked'', JBool True), (''reason'', JStr ''dlp''),
      (''detectors'', JArr (map (\<lambda>h. JObj [(''detector'', JStr (h_detector h)),
          (''location'', JStr (h_seen_in h)), (''offset'', JPos (word_of_nat (h_offset h)))]) (blocking dlp))),
      (''message'', JStr ''decoyrail blocked this request: sensitive data detected. Remove the flagged value and retry, or change the mode with `decoyrail dlp set <detector> <mode>`.'')]"

definition trip_deny_response :: "trip \<Rightarrow> json" where
  "trip_deny_response t = JObj
     [(''decoyrail'', JBool True), (''blocked'', JBool True), (''reason'', JStr ''spend_tripwire''),
      (''trigger'', JObj [(''kind'', JStr (t_kind t)), (''fingerprint'', JStr (t_fingerprint t)),
         (''count'', JPos (ucast (t_count t))), (''window_secs'', JPos (t_window_secs t))]),
      (''message'', JStr (''decoyrail blocked this request: spend tripwire ('' @ t_reason t
         @ ''). Stop repeating this request; a human can clear the trip with `decoyrail trip clear`.''))]"

definition deny_body :: "outcome \<Rightarrow> dlp_outcome \<Rightarrow> bool \<Rightarrow> trip option \<Rightarrow> string \<Rightarrow> json" where
  "deny_body oc dlp over_budget spend note =
     (if \<not> tripped oc \<and> has_blocking dlp then dlp_deny_response dlp
      else (case spend of
          Some t \<Rightarrow> if \<not> tripped oc \<and> \<not> over_budget then trip_deny_response t
            else deny_response (''decoyrail blocked this request: '' @ (if note = [] then ''denied by policy'' else note))
        | None \<Rightarrow> deny_response (''decoyrail blocked this request: '' @ (if note = [] then ''denied by policy'' else note))))"

text \<open>The names the audit event carries.\<close>

definition swap_names :: "outcome \<Rightarrow> string list" where
  "swap_names oc = map (\<lambda>s. sw_secret_name s @ ''@'' @ sw_location s) (o_swaps oc)"

definition trip_names :: "outcome \<Rightarrow> string list" where
  "trip_names oc = map (\<lambda>t. tw_secret_name t @ ''@'' @ tw_seen_in t) (o_tripwires oc)"

text \<open>Steps 4 to 5 on one request: either a denial with its response body, or the request that
  is forwarded with the action it is recorded under.\<close>

datatype request_verdict = Denied json string | Forwarded action request_ctx

definition inspect_request ::
  "crypto \<Rightarrow> codecs \<Rightarrow> decoders \<Rightarrow> bytes \<Rightarrow> vault \<Rightarrow> vault \<Rightarrow> decision \<Rightarrow> dlp_config \<Rightarrow> bool \<Rightarrow> bool
   \<Rightarrow> trip option \<Rightarrow> string \<Rightarrow> request_ctx \<Rightarrow> request_verdict \<times> outcome \<times> dlp_outcome" where
  "inspect_request cr cx dec salt v session d cfg tls over_budget spend dump_note q =
     (let (q1, oc) = swap_step cx q v session d tls;
          (q2, dlp) = detect_apply cr dec q1 cfg salt;
          (act, note) = final_action oc dlp over_budget spend d (q_host q) dump_note
      in (if act = Deny then Denied (deny_body oc dlp over_budget spend note) note else Forwarded act q2,
          oc, dlp))"

text \<open>The audit entries of the request itself: the denial (\<open>sent\<close> is the length of the body as the
  detectors left it), the advisory detections of a request that goes on, and the entry of a forwarded
  request once its response is known.\<close>

definition deny_entry :: "decision \<Rightarrow> outcome \<Rightarrow> request_ctx \<Rightarrow> u64 \<Rightarrow> u64 \<Rightarrow> string option \<Rightarrow> string \<Rightarrow> entry" where
  "deny_entry d oc q dur sent fp note = entry_default\<lparr>en_host := q_host q, en_path := q_path q,
     en_method := q_method q, en_action := ''deny'', en_rule := dc_rule d, en_escalated := dc_escalated d,
     en_swaps := swap_names oc, en_tripwires := trip_names oc, en_status := 403, en_note := note,
     en_dur_ms := Some dur, en_bytes_up := sent, en_fp := fp\<rparr>"

definition dlp_alert_entry :: "decision \<Rightarrow> dlp_outcome \<Rightarrow> request_ctx \<Rightarrow> string \<Rightarrow> entry" where
  "dlp_alert_entry d dlp q dump_note = entry_default\<lparr>en_host := q_host q, en_path := q_path q,
     en_method := q_method q, en_action := ''alert'', en_rule := dc_rule d,
     en_note := ''dlp: '' @ dlp_summary dlp @ dump_note\<rparr>"

definition request_entries :: "decision \<Rightarrow> request_ctx \<Rightarrow> u64 \<Rightarrow> u64 \<Rightarrow> string option \<Rightarrow> string
    \<Rightarrow> request_verdict \<times> outcome \<times> dlp_outcome \<Rightarrow> entry list" where
  "request_entries d q dur sent fp dump_note r = (case r of (verdict, oc, dlp) \<Rightarrow>
     (case verdict of
        Denied _ note \<Rightarrow> [deny_entry d oc q dur sent fp note]
      | Forwarded _ _ \<Rightarrow>
          (if has_advisory dlp \<or> truncated dlp then [dlp_alert_entry d dlp q dump_note] else [])))"

definition forward_entry :: "decision \<Rightarrow> outcome \<Rightarrow> action \<Rightarrow> request_ctx \<Rightarrow> bool \<Rightarrow> u64 \<Rightarrow> u64 \<Rightarrow> u64 \<Rightarrow> u16
    \<Rightarrow> string option \<Rightarrow> string \<Rightarrow> usage_rec option \<Rightarrow> entry" where
  "forward_entry d oc act q streamed dur up down status fp note usage = entry_default\<lparr>en_host := q_host q,
     en_path := q_path q, en_method := q_method q, en_action := action_as_str act, en_rule := dc_rule d,
     en_escalated := dc_escalated d, en_swaps := swap_names oc, en_tripwires := [], en_status := status,
     en_note := note, en_dur_ms := (if streamed then None else Some dur), en_bytes_up := up,
     en_bytes_down := down, en_usage := usage, en_fp := fp\<rparr>"

section \<open>The forwarded request\<close>

definition is_hop_by_hop :: "string \<Rightarrow> bool" where
  "is_hop_by_hop name \<longleftrightarrow>
     to_ascii_lowercase name \<in> set [''connection'', ''proxy-connection'', ''keep-alive'',
       ''transfer-encoding'', ''te'', ''trailer'', ''upgrade'', ''proxy-authenticate'',
       ''proxy-authorization'', ''content-length'']"

definition forward_headers :: "provider option \<Rightarrow> (string \<times> string) list \<Rightarrow> (string \<times> string) list" where
  "forward_headers prov headers =
     filter (\<lambda>(name, _). \<not> (is_hop_by_hop name \<or> eq_ignore_ascii_case name ''host'')
        \<and> \<not> (prov \<noteq> None \<and> eq_ignore_ascii_case name ''accept-encoding'')) headers"

definition upstream_url :: "bool \<Rightarrow> string \<Rightarrow> u16 \<Rightarrow> string \<Rightarrow> string" where
  "upstream_url tls host port path =
     (let scheme = (if tls then ''https'' else ''http''); default_port = (if tls then 443 else 80 :: u16) in
      if port = default_port then scheme @ ''://'' @ host @ path
      else scheme @ ''://'' @ host @ '':'' @ show_nat (unat port) @ path)"

section \<open>Responses and accounting\<close>

definition usage_rec_for :: "string \<Rightarrow> token_usage \<Rightarrow> usd \<Rightarrow> usd \<Rightarrow> usage_rec" where
  "usage_rec_for key u cost ref_cost = \<lparr>ur_model = key, ur_input = tu_input u, ur_output = tu_output u,
     ur_cache_read = tu_cache_read u, ur_cache_write = tu_cache_write u, ur_cost_usd = cost,
     ur_ref_cost_usd = ref_cost\<rparr>"

definition usage_note_for :: "string \<Rightarrow> token_usage \<Rightarrow> string" where
  "usage_note_for key u =
     ''usage: '' @ key @ '' in='' @ show_nat (unat (tu_input u)) @ '' out='' @ show_nat (unat (tu_output u))
     @ (if tu_cache_read u > 0 then '' cache_read='' @ show_nat (unat (tu_cache_read u)) else [])
     @ (if tu_cache_write u > 0 then '' cache_write='' @ show_nat (unat (tu_cache_write u)) else [])"

definition scan_and_alert :: "bytes \<Rightarrow> vault \<Rightarrow> vault \<Rightarrow> string \<Rightarrow> string \<Rightarrow> string \<Rightarrow> decision
    \<Rightarrow> string list \<Rightarrow> u16 \<Rightarrow> entry option" where
  "scan_and_alert body v session host path method d names status =
     (let leaked = scan_response_for_real body v @ scan_response_for_real body session in
      if leaked = [] then None
      else Some (entry_default\<lparr>en_host := host, en_path := path, en_method := method, en_action := ''alert'',
        en_rule := dc_rule d, en_swaps := names, en_tripwires := map (\<lambda>n. n @ ''@response'') leaked,
        en_status := status, en_note := ''real secret echoed in response''\<rparr>))"

text \<open>What a response's usage costs: the meter key, the counts and the two amounts.\<close>

type_synonym token_record = "string \<times> token_usage \<times> usd \<times> usd"

definition token_record_for :: "pricing \<Rightarrow> provider option \<Rightarrow> string option \<Rightarrow> billing \<Rightarrow> token_usage option
    \<Rightarrow> token_record option" where
  "token_record_for prices prov model b usage = (case (prov, usage) of
     (Some p, Some u) \<Rightarrow>
       (let (cost, ref_cost) = split_cost b u (rate_for prices p model)
        in Some (model_key model b, u, cost, ref_cost))
   | _ \<Rightarrow> None)"

definition billed_usd :: "token_record option \<Rightarrow> usd" where
  "billed_usd tr = (case tr of Some (_, _, cost, _) \<Rightarrow> cost | None \<Rightarrow> 0)"

text \<open>Metering a forwarded request when its response headers (and, unless streamed, its body)
  are known, the flush, and the feed of the rate detector.\<close>

definition account_request :: "flush_io \<Rightarrow> string \<Rightarrow> u64 \<Rightarrow> string \<Rightarrow> token_record option \<Rightarrow> bool \<Rightarrow> u64 \<Rightarrow> u64
    \<Rightarrow> meter_file \<times> session_meter \<times> watch \<Rightarrow> meter_file \<times> session_meter \<times> watch" where
  "account_request io now now_unix host tr streamed up down st = (case st of (f, s, w) \<Rightarrow>
     (let s1 = session_record_traffic now host up down s;
          s2 = (case tr of
              Some (key, u, cost, ref_cost) \<Rightarrow> session_record_tokens now host key u cost ref_cost s1
            | None \<Rightarrow> if \<not> streamed then session_add_estimated now host (up + down) s1 else s1);
          (f', s3, _) = session_flush io now f s2
      in (f', s3, if billed_usd tr > 0 then observe_cost now_unix (billed_usd tr) w else w)))"

text \<open>A streamed response: bytes are counted and scanned as they pass, and folded into the meter
  once, at the end of the stream or when it is dropped.\<close>

record metered_stream =
  ms_host :: string
  ms_counted :: u64
  ms_recorded :: bool
  ms_bytes_up :: u64
  ms_scanner :: "sse_scanner option"
  ms_provider :: "provider option"
  ms_model :: "string option"
  ms_billing :: billing
  ms_path :: string
  ms_method :: string
  ms_req_seq :: "u64 option"

definition stream_chunk :: "(bytes \<Rightarrow> json option) \<Rightarrow> bytes \<Rightarrow> metered_stream \<Rightarrow> metered_stream" where
  "stream_chunk from_json chunk ms =
     ms\<lparr>ms_counted := ms_counted ms + word_of_nat (length chunk),
        ms_scanner := map_option (\<lambda>s. sse_feed from_json s chunk) (ms_scanner ms)\<rparr>"

definition stream_record :: "(bytes \<Rightarrow> json option) \<Rightarrow> flush_io \<Rightarrow> pricing \<Rightarrow> string \<Rightarrow> u64 \<Rightarrow> metered_stream
    \<Rightarrow> meter_file \<times> session_meter \<times> watch \<Rightarrow> metered_stream \<times> meter_file \<times> session_meter \<times> watch" where
  "stream_record from_json io prices now now_unix ms st =
     (if ms_recorded ms then (ms, st)
      else (case st of (f, s, w) \<Rightarrow>
        (let tr = token_record_for prices (ms_provider ms) (ms_model ms) (ms_billing ms)
               (Option.bind (ms_scanner ms) (sse_finish from_json));
             s1 = session_add_downstream now (ms_host ms) (ms_counted ms) s;
             s2 = (case tr of
                 Some (key, u, cost, ref_cost) \<Rightarrow> session_record_tokens now (ms_host ms) key u cost ref_cost s1
               | None \<Rightarrow> session_add_estimated now (ms_host ms) (ms_bytes_up ms + ms_counted ms) s1);
             (f', s3, _) = session_flush io now f s2
         in (ms\<lparr>ms_recorded := True, ms_host := [], ms_model := None, ms_scanner := None,
              ms_path := [], ms_method := []\<rparr>,
             f', s3, if billed_usd tr > 0 then observe_cost now_unix (billed_usd tr) w else w))))"

text \<open>The companion audit entry of a streamed response, written by the one record that takes effect.\<close>

definition stream_entry :: "(bytes \<Rightarrow> json option) \<Rightarrow> pricing \<Rightarrow> u64 \<Rightarrow> metered_stream \<Rightarrow> entry option" where
  "stream_entry from_json prices dur ms =
     (if ms_recorded ms then None
      else
        let tr = token_record_for prices (ms_provider ms) (ms_model ms) (ms_billing ms)
               (Option.bind (ms_scanner ms) (sse_finish from_json)) in
        Some (entry_default\<lparr>en_host := ms_host ms, en_path := ms_path ms, en_method := ms_method ms,
          en_action := ''usage'',
          en_note := (case tr of None \<Rightarrow> [] | Some (key, u, _, _) \<Rightarrow> usage_note_for key u),
          en_dur_ms := Some dur, en_bytes_down := ms_counted ms,
          en_usage := map_option (\<lambda>(key, u, cost, ref_cost). usage_rec_for key u cost ref_cost) tr,
          en_req_seq := ms_req_seq ms\<rparr>))"

section \<open>Streams\<close>

interpretation stream: chunk_fed "\<lambda>ms chunk. stream_chunk fj chunk ms" for fj
proof unfold_locales
  fix ms :: metered_stream and xs ys :: bytes
  show "stream_chunk fj [] ms = ms"
    by (cases "ms_scanner ms") (simp_all add: stream_chunk_def sse.feed_Nil)
  show "stream_chunk fj (xs @ ys) ms = stream_chunk fj ys (stream_chunk fj xs ms)"
    by (cases "ms_scanner ms") (simp_all add: stream_chunk_def sse.feed_append algebra_simps)
qed

lemma stream_record_done: "ms_recorded (fst (stream_record fj io prices now nu ms st))"
  by (auto simp: stream_record_def Let_def split: prod.splits)

section \<open>What unreleased secrets can influence\<close>

text \<open>The vault with the real values of all secrets that may not be released here replaced by
  arbitrary ones.\<close>

definition hide_secret :: "decision \<Rightarrow> bool \<Rightarrow> (secret \<Rightarrow> string) \<Rightarrow> secret \<Rightarrow> secret" where
  "hide_secret d tls f s = (if tls \<and> releases d s then s else s\<lparr>sec_real := f s\<rparr>)"

definition hide_unreleased :: "decision \<Rightarrow> bool \<Rightarrow> (secret \<Rightarrow> string) \<Rightarrow> vault \<Rightarrow> vault" where
  "hide_unreleased d tls f v = v\<lparr>secrets := map (hide_secret d tls f) (secrets v)\<rparr>"

lemma lists_secret_real [simp]: "lists_secret l (s\<lparr>sec_real := x\<rparr>) = lists_secret l s"
  by (simp add: lists_secret_def cong: option.case_cong)

lemma release_real [simp]:
  "releases d (s\<lparr>sec_real := x\<rparr>) = releases d s" "expects d (s\<lparr>sec_real := x\<rparr>) = expects d s"
  "approved d a (s\<lparr>sec_real := x\<rparr>) = approved d a s" "quiet d (s\<lparr>sec_real := x\<rparr>) = quiet d s"
  "miss_reason d a (s\<lparr>sec_real := x\<rparr>) = miss_reason d a s"
  by (simp_all add: releases_def expects_def approved_def quiet_def miss_reason_def)

lemma swap_headers_real: "\<not> approved d a s \<Longrightarrow> swap_headers d a (s\<lparr>sec_real := x\<rparr>) hs = swap_headers d a s hs"
  by (induction d a s hs rule: swap_headers.induct) (simp_all add: Let_def split_beta)

lemma swap_secret_real:
  assumes "\<not> approved d a s"
  shows "swap_secret cx d a (s\<lparr>sec_real := x\<rparr>) q = swap_secret cx d a s q"
  using assms by (simp add: swap_secret_def swap_headers_real scan_path_def swap_body_def scan_encoded_forms_def Let_def)

lemma swap_secret_hide: "swap_secret cx d a (hide_secret d a f s) q = swap_secret cx d a s q"
  by (simp add: hide_secret_def swap_secret_real approved_def)

lemma swap_all_hide: "swap_all cx d a (map (hide_secret d a f) ss) q = swap_all cx d a ss q"
  by (induction ss arbitrary: q) (simp_all add: swap_secret_hide)

lemma swap_step_hide:
  "swap_step cx q (hide_unreleased d tls f v) (hide_unreleased d tls f session) d tls = swap_step cx q v session d tls"
  by (simp add: swap_step_def swap_apply_def hide_unreleased_def swap_all_hide)

text \<open>The same for any change of real values that leaves the releasable secrets alone.\<close>

lemma swap_all_change:
  assumes "list_all (\<lambda>s. k s = s \<or> \<not> releases d s \<and> k s = s\<lparr>sec_real := f s\<rparr>) ss"
  shows "swap_all cx d a (map k ss) q = swap_all cx d a ss q"
  using assms
proof (induction ss arbitrary: q)
  case (Cons s ss)
  have "swap_secret cx d a (k s) q = swap_secret cx d a s q"
    using Cons.prems swap_secret_real[of d a s cx "f s" q] by (auto simp: approved_def)
  then show ?case using Cons by simp
qed simp

lemma swap_step_change:
  assumes "list_all (\<lambda>s. k s = s \<or> \<not> releases d s \<and> k s = s\<lparr>sec_real := f s\<rparr>) (secrets v @ secrets session)"
  shows "swap_step cx q (v\<lparr>secrets := map k (secrets v)\<rparr>) (session\<lparr>secrets := map k (secrets session)\<rparr>) d tls = swap_step cx q v session d tls"
  using assms swap_all_change[of k d f "secrets v" cx tls] swap_all_change[of k d f "secrets session" cx tls]
  by (simp add: swap_step_def swap_apply_def)

lemma inspect_request_change:
  assumes "list_all (\<lambda>s. k s = s \<or> \<not> releases d s \<and> k s = s\<lparr>sec_real := f s\<rparr>) (secrets v @ secrets session)"
  shows "inspect_request cr cx dec salt (v\<lparr>secrets := map k (secrets v)\<rparr>) (session\<lparr>secrets := map k (secrets session)\<rparr>) d cfg tls ob spend dn q
    = inspect_request cr cx dec salt v session d cfg tls ob spend dn q"
  using swap_step_change[OF assms] by (simp add: inspect_request_def)

section \<open>The verdict\<close>

lemma evaluate_action: "dc_action (evaluate p h pa m) \<noteq> Escalate"
  using evaluate_split[of h pa m p] by (auto simp: rule_verdict_def resolve_action split: if_splits)

lemma final_action_value:
  "fst (final_action oc dlp ob spend d host dn) \<noteq> Deny \<Longrightarrow> dc_action d \<noteq> Escalate \<Longrightarrow>
     fst (final_action oc dlp ob spend d host dn) = Allow \<or> fst (final_action oc dlp ob spend d host dn) = Warn"
  by (cases "dc_action d") (auto simp: final_action_def split: option.splits if_splits)

lemma final_action_forward:
  "fst (final_action oc dlp ob spend d host dn) \<noteq> Deny \<longleftrightarrow>
     \<not> tripped oc \<and> \<not> has_blocking dlp \<and> \<not> ob \<and> spend = None \<and> dc_action d \<noteq> Deny"
  by (auto simp: final_action_def split: option.splits)

lemma inspect_request_parts:
  "snd (inspect_request cr cx dec salt v session d cfg tls ob spend dn q) =
     (snd (swap_step cx q v session d tls), snd (detect_apply cr dec (fst (swap_step cx q v session d tls)) cfg salt))"
  by (simp add: inspect_request_def Let_def split_beta)

lemma inspect_request_verdict:
  "fst (inspect_request cr cx dec salt v session d cfg tls ob spend dn q) =
     (let oc = snd (swap_step cx q v session d tls);
          r = detect_apply cr dec (fst (swap_step cx q v session d tls)) cfg salt;
          fa = final_action oc (snd r) ob spend d (q_host q) dn
      in if fst fa = Deny then Denied (deny_body oc (snd r) ob spend (snd fa)) (snd fa) else Forwarded (fst fa) (fst r))"
  by (simp add: inspect_request_def Let_def split_beta)

lemma swap_step_rewrite:
  "fst (swap_step cx q v session d tls) = fold (rewrite_for d tls) (secrets v @ secrets session) q"
  by (simp add: swap_step_def swap_apply_def Let_def split_beta swap_all_rewrite)

section \<open>Runs of the spend tripwire\<close>

record spend_request =
  rq_host :: string
  rq_path :: string
  rq_method :: string
  rq_body :: bytes
  rq_now :: u64
  rq_ts :: string
  rq_saved :: bool

fun spend_run :: "crypto \<Rightarrow> bytes \<Rightarrow> pricing \<Rightarrow> spend_tripwire_config \<Rightarrow> string \<Rightarrow> spend_request list
    \<Rightarrow> trip_file \<Rightarrow> watch \<Rightarrow> spend_result list" where
  "spend_run cr salt prices cfg sid [] tf w = []"
| "spend_run cr salt prices cfg sid (r # rs) tf w =
     (let x = spend_step cr salt prices cfg (rq_now r) (rq_ts r) sid (rq_saved r) (rq_host r) (rq_path r) (rq_method r) (rq_body r) tf w
      in x # spend_run cr salt prices cfg sid rs (sr_file x) (sr_watch x))"

lemma spend_step_tripped:
  assumes "w_tripped w = Some t"
  shows "sr_watch (spend_step cr salt prices cfg now ts sid saved host path method body tf w) = w"
    and "sr_file (spend_step cr salt prices cfg now ts sid saved host path method body tf w) = tf"
    and "sr_trip (spend_step cr salt prices cfg now ts sid saved host path method body tf w) =
      (if provider_for_host prices host = None then None else Some t)"
  using assms by (simp_all add: spend_step_def Let_def split: option.split)

lemma spend_run_tripped:
  assumes "w_tripped w = Some t"
  shows "map sr_trip (spend_run cr salt prices cfg sid rs tf w) =
      map (\<lambda>r. if provider_for_host prices (rq_host r) = None then None else Some t) rs"
  using assms by (induction rs arbitrary: tf) (simp_all add: Let_def spend_step_tripped)

lemma observe_tripped [keep_simps]: "w_tripped (fst (observe cfg now fp w)) = w_tripped w"
  by (simp add: observe_def prune_def Let_def)

lemma spend_step_onset:
  assumes "sr_trip (spend_step cr salt prices cfg now ts sid saved host path method body tf w) = Some t"
  shows "w_tripped (sr_watch (spend_step cr salt prices cfg now ts sid saved host path method body tf w)) = Some t"
  using assms by (auto simp: spend_step_def Let_def set_tripped_def split: option.splits prod.splits)

end
