(* ===== verification/Json_Scan.thy ===== *)
theory Json_Scan
  imports Pricing
begin

text \<open>
  The byte-level JSON span scanner of \<^verbatim>\<open>src/src/cache.rs\<close> and the two edits that rest on it: the
  splice of a cache marker (\<^verbatim>\<open>cache.rs\<close>) and the model rewrite (\<^verbatim>\<open>src/src/softland.rs\<close>). Neither edit
  re-serialises the body; both change a few bytes of what the client sent and re-parse the result.
  The scanner is compared with a grammar of JSON texts (\<open>jdoc\<close>, white space included): on the text of
  any document it finds exactly the spans of the document's parts.
\<close>

section \<open>The scanner\<close>

text \<open>\<open>(b as char).is_whitespace()\<close> on a byte: the Latin-1 white space, two bytes of it outside ASCII.\<close>

definition is_ws :: "char \<Rightarrow> bool" where
  "is_ws c \<longleftrightarrow> (9 \<le> bval c \<and> bval c \<le> 13) \<or> bval c = 32 \<or> bval c = 133 \<or> bval c = 160"

function skip_ws :: "bytes \<Rightarrow> nat \<Rightarrow> nat" where
  "skip_ws b i = (if i < length b \<and> is_ws (b ! i) then skip_ws b (i + 1) else i)"
  by pat_completeness auto
termination
  by (relation "measure (\<lambda>(b, i). length b - i)") auto

declare skip_ws.simps [simp del]

function string_end :: "bytes \<Rightarrow> nat \<Rightarrow> nat option" where
  "string_end b i =
     (if i < length b then
        (if b ! i = CHR 0x5C then string_end b (i + 2)
         else if b ! i = CHR 0x22 then Some (i + 1)
         else string_end b (i + 1))
      else None)"
  by pat_completeness auto
termination
  by (relation "measure (\<lambda>(b, i). length b - i)") auto

declare string_end.simps [simp del]

definition byte_at :: "bytes \<Rightarrow> nat \<Rightarrow> char option" where
  "byte_at b i = (if i < length b then Some (b ! i) else None)"

definition skip_string :: "bytes \<Rightarrow> nat \<Rightarrow> nat option" where
  "skip_string b i = (if byte_at b i \<noteq> Some (CHR 0x22) then None else string_end b (i + 1))"

lemma string_end_bounds: "string_end b i = Some k \<Longrightarrow> i < k \<and> k \<le> length b"
  by (induction b i rule: string_end.induct) (subst (asm) (3) string_end.simps, fastforce split: if_splits)

lemma skip_string_bounds: "skip_string b i = Some k \<Longrightarrow> i + 2 \<le> k \<and> k \<le> length b"
  by (auto simp: skip_string_def split: if_splits dest: string_end_bounds)

text \<open>The bracket loop of \<open>skip_value\<close>: only brackets of the value's own kind count, and strings are
  skipped whole. The depth is an \<open>i32\<close>; a body holds at most 32 MiB, so it cannot overflow.\<close>

function bracket_end :: "bytes \<Rightarrow> char \<Rightarrow> char \<Rightarrow> int \<Rightarrow> nat \<Rightarrow> nat option" where
  "bracket_end b opn cls depth j =
     (if j < length b then
        (if b ! j = CHR 0x22 then
           (case skip_string b j of None \<Rightarrow> None | Some k \<Rightarrow> bracket_end b opn cls depth k)
         else if b ! j = opn then bracket_end b opn cls (depth + 1) (j + 1)
         else if b ! j = cls then
           (if depth - 1 = 0 then Some (j + 1) else bracket_end b opn cls (depth - 1) (j + 1))
         else bracket_end b opn cls depth (j + 1))
      else None)"
  by pat_completeness auto
termination
  by (relation "measure (\<lambda>(b, opn, cls, depth, j). length b - j)") (auto dest!: skip_string_bounds)

declare bracket_end.simps [simp del]

function literal_end :: "bytes \<Rightarrow> nat \<Rightarrow> nat" where
  "literal_end b j =
     (if j < length b \<and> b ! j \<notin> {CHR 0x2C, CHR 0x7D, CHR 0x5D} then literal_end b (j + 1) else j)"
  by pat_completeness auto
termination
  by (relation "measure (\<lambda>(b, j). length b - j)") auto

declare literal_end.simps [simp del]

definition skip_value :: "bytes \<Rightarrow> nat \<Rightarrow> nat option" where
  "skip_value b i0 =
     (let i = skip_ws b i0 in
      case byte_at b i of
        None \<Rightarrow> None
      | Some c \<Rightarrow>
          if c = CHR 0x22 then skip_string b i
          else if c = CHR 0x7B then bracket_end b (CHR 0x7B) (CHR 0x7D) 0 i
          else if c = CHR 0x5B then bracket_end b (CHR 0x5B) (CHR 0x5D) 0 i
          else (let j = literal_end b i in if j > i then Some j else None))"

lemma skip_ws_ge: "i \<le> skip_ws b i"
proof (induction b i rule: skip_ws.induct)
  case (1 b i)
  then show ?case using skip_ws.simps[of b i] by auto
qed

lemma literal_end_bounds: "j \<le> length b \<Longrightarrow> j \<le> literal_end b j \<and> literal_end b j \<le> length b"
  by (induction b j rule: literal_end.induct) (subst (1 2) literal_end.simps, fastforce)

lemma bracket_end_bounds: "bracket_end b opn cls depth j = Some k \<Longrightarrow> j < k \<and> k \<le> length b"
proof (induction b opn cls depth j rule: bracket_end.induct)
  case (1 b opn cls depth j)
  have "j < length b" using "1.prems" by (subst (asm) bracket_end.simps) (auto split: if_splits)
  show ?case
  proof (cases "b ! j = CHR 0x22")
    case True
    with "1.prems" \<open>j < length b\<close> obtain i where i: "skip_string b j = Some i" "bracket_end b opn cls depth i = Some k"
      by (subst (asm) bracket_end.simps) (auto split: option.splits)
    from "1.IH"(1)[OF \<open>j < length b\<close> True i] skip_string_bounds[OF i(1)] show ?thesis by simp
  next
    case False
    note IH = "1.IH"(2)[OF \<open>j < length b\<close> False] "1.IH"(3)[OF \<open>j < length b\<close> False] "1.IH"(4)[OF \<open>j < length b\<close> False]
    have "k = j + 1 \<or> bracket_end b opn cls (depth + 1) (j + 1) = Some k \<and> b ! j = opn
        \<or> bracket_end b opn cls (depth - 1) (j + 1) = Some k \<and> b ! j \<noteq> opn \<and> b ! j = cls \<and> depth - 1 \<noteq> 0
        \<or> bracket_end b opn cls depth (j + 1) = Some k \<and> b ! j \<noteq> opn \<and> b ! j \<noteq> cls"
      using "1.prems" \<open>j < length b\<close> False by (subst (asm) bracket_end.simps) (auto split: if_splits)
    then show ?thesis using IH \<open>j < length b\<close> by auto
  qed
qed

lemma skip_value_bounds: "skip_value b i = Some k \<Longrightarrow> i < k \<and> k \<le> length b"
  using skip_ws_ge[of i b] literal_end_bounds[of "skip_ws b i" b]
  by (fastforce simp: skip_value_def byte_at_def Let_def split: if_splits option.splits
      dest: skip_string_bounds bracket_end_bounds)

section \<open>Members and elements\<close>

text \<open>The name of a member is the raw text between its quotes; text that is not UTF-8 ends the search.\<close>

function member_from :: "bytes \<Rightarrow> string \<Rightarrow> nat \<Rightarrow> (nat \<times> nat) option" where
  "member_from b key i =
     (if i < length b \<and> b ! i \<noteq> CHR 0x7D then
        (case skip_string b i of
           None \<Rightarrow> None
         | Some key_end \<Rightarrow>
             (let name = take (key_end - 1 - (i + 1)) (drop (i + 1) b); colon = skip_ws b key_end in
              if \<not> utf8_valid name \<or> byte_at b colon \<noteq> Some (CHR 0x3A) then None
              else (let vstart = skip_ws b (colon + 1) in
                case skip_value b vstart of
                  None \<Rightarrow> None
                | Some vend \<Rightarrow>
                    (if name = key then Some (vstart, vend)
                     else (let n = skip_ws b vend in
                       member_from b key (if byte_at b n = Some (CHR 0x2C) then skip_ws b (n + 1) else n))))))
      else None)"
  by pat_completeness auto
termination
proof (relation "measure (\<lambda>(b, key, i). length b - i)", simp, goal_cases)
  case (1 b key i key_end name colon vstart vend n)
  have "i < key_end" using skip_string_bounds[OF 1(2)] by simp
  also have "\<dots> \<le> colon" using 1(4) skip_ws_ge by simp
  also have "\<dots> < vstart" using 1(6) skip_ws_ge[of "colon + 1" b] by simp
  also have "\<dots> < vend" using skip_value_bounds[OF 1(7)] by simp
  also have "\<dots> \<le> n" using 1(9) skip_ws_ge by simp
  finally have "i < n" .
  then show ?case using 1(1) skip_ws_ge[of "n + 1" b] by auto
qed

declare member_from.simps [simp del]

definition object_member_value :: "bytes \<Rightarrow> nat \<Rightarrow> string \<Rightarrow> (nat \<times> nat) option" where
  "object_member_value b obj_open key = member_from b key (skip_ws b (obj_open + 1))"

function last_from :: "bytes \<Rightarrow> nat \<Rightarrow> nat \<Rightarrow> (nat \<times> nat) option \<Rightarrow> (nat \<times> nat) option" where
  "last_from b arr_end i lst =
     (if i < arr_end \<and> b ! i \<noteq> CHR 0x5D then
        (case skip_value b i of
           None \<Rightarrow> None
         | Some e \<Rightarrow>
             (let n = skip_ws b e in
              last_from b arr_end (if byte_at b n = Some (CHR 0x2C) then skip_ws b (n + 1) else n) (Some (i, e))))
      else lst)"
  by pat_completeness auto
termination
proof (relation "measure (\<lambda>(b, arr_end, i, lst). arr_end - i)", simp, goal_cases)
  case (1 b arr_end i lst e n)
  have "i < e" using skip_value_bounds[OF 1(2)] by simp
  also have "\<dots> \<le> n" using 1(3) skip_ws_ge by simp
  finally have "i < n" .
  then show ?case using 1(1) skip_ws_ge[of "n + 1" b] by auto
qed

declare last_from.simps [simp del]

definition array_last_element :: "bytes \<Rightarrow> nat \<Rightarrow> nat \<Rightarrow> (nat \<times> nat) option" where
  "array_last_element b arr_open arr_end = last_from b arr_end (skip_ws b (arr_open + 1)) None"

section \<open>The two edits\<close>

text \<open>\<open>injection_point\<close>: the opening brace of the last \<open>system\<close> block, else of the last \<open>tools\<close> entry.\<close>

definition last_object :: "bytes \<Rightarrow> nat \<Rightarrow> string \<Rightarrow> nat option" where
  "last_object b root_open key =
     (case object_member_value b root_open key of
        None \<Rightarrow> None
      | Some (vstart, vend) \<Rightarrow>
          if byte_at b vstart = Some (CHR 0x5B) then
            (case array_last_element b vstart vend of
               None \<Rightarrow> None
             | Some (estart, _) \<Rightarrow> if byte_at b estart = Some (CHR 0x7B) then Some estart else None)
          else None)"

definition injection_point :: "bytes \<Rightarrow> nat option" where
  "injection_point b =
     (let root_open = skip_ws b 0 in
      if byte_at b root_open \<noteq> Some (CHR 0x7B) then None
      else (case last_object b root_open ''system'' of
          Some e \<Rightarrow> Some e
        | None \<Rightarrow> last_object b root_open ''tools''))"

definition dq :: "string \<Rightarrow> string" where
  "dq s = [CHR 0x22] @ s @ [CHR 0x22]"

definition cache_marker :: "bool \<Rightarrow> string" where
  "cache_marker ttl_1h =
     dq ''cache_control'' @ '':{'' @ dq ''type'' @ '':'' @ dq ''ephemeral''
     @ (if ttl_1h then '','' @ dq ''ttl'' @ '':'' @ dq ''1h'' else []) @ ''}''"

text \<open>\<open>from_json\<close> is \<open>serde_json::from_slice\<close>, the check that the edit still parses.\<close>

definition splice_marker :: "(bytes \<Rightarrow> json option) \<Rightarrow> bytes \<Rightarrow> bool \<Rightarrow> bytes option" where
  "splice_marker from_json body ttl_1h =
     (case injection_point body of
        None \<Rightarrow> None
      | Some obj_open \<Rightarrow>
          (let i = skip_ws body (obj_open + 1);
               insert = cache_marker ttl_1h @ (if byte_at body i = Some (CHR 0x7D) then [] else '','');
               out = take (obj_open + 1) body @ insert @ drop (obj_open + 1) body
           in if from_json out = None then None else Some out))"

record model_rewrite =
  rw_body :: bytes
  rw_from :: string
  rw_to :: string

definition model_span :: "bytes \<Rightarrow> (nat \<times> nat) option" where
  "model_span body =
     (let root_open = skip_ws body 0 in
      if byte_at body root_open \<noteq> Some (CHR 0x7B) then None
      else (case object_member_value body root_open ''model'' of
          None \<Rightarrow> None
        | Some (vstart, vend) \<Rightarrow> if byte_at body vstart \<noteq> Some (CHR 0x22) then None else Some (vstart, vend)))"

text \<open>\<open>to_json\<close> is \<open>serde_json::to_string\<close> on a string.\<close>

definition rewrite_model ::
  "(bytes \<Rightarrow> json option) \<Rightarrow> (string \<Rightarrow> bytes option) \<Rightarrow> bytes \<Rightarrow> string btmap \<Rightarrow> model_rewrite option" where
  "rewrite_model from_json to_json body m =
     Option.bind (parse_model from_json body) (\<lambda>from.
     Option.bind (btm_get m from) (\<lambda>to.
     if to = from then None
     else Option.bind (model_span body) (\<lambda>(vstart, vend).
       Option.bind (to_json to) (\<lambda>encoded.
         (let out = take vstart body @ encoded @ drop vend body in
          if parse_model from_json out \<noteq> Some to then None
          else Some \<lparr>rw_body = out, rw_from = from, rw_to = to\<rparr>)))))"

section \<open>JSON texts\<close>

text \<open>A JSON document with its white space. A string is the raw text between its quotes, a literal a
  number or a name; an array item carries the white space around it, a member that around its name, its
  colon and its value. \<open>DArr w\<close> and \<open>DObj w\<close> carry the white space of the empty form.\<close>

datatype jdoc = DStr bytes | DLit bytes | DArr bytes jitems | DObj bytes jmembers
  and jitems = INil | ICons bytes jdoc bytes jitems
  and jmembers = MNil | MCons bytes bytes bytes bytes jdoc bytes jmembers

primrec render :: "jdoc \<Rightarrow> bytes" and render_items :: "jitems \<Rightarrow> bytes" and render_members :: "jmembers \<Rightarrow> bytes" where
  "render (DStr s) = dq s"
| "render (DLit s) = s"
| "render (DArr w xs) = ''['' @ (if xs = INil then w else render_items xs) @ '']''"
| "render (DObj w ms) = ''{'' @ (if ms = MNil then w else render_members ms) @ ''}''"
| "render_items INil = []"
| "render_items (ICons w1 v w2 xs) = w1 @ render v @ w2 @ (if xs = INil then [] else '','') @ render_items xs"
| "render_members MNil = []"
| "render_members (MCons w1 k w2 w3 v w4 ms) =
     w1 @ dq k @ w2 @ '':'' @ w3 @ render v @ w4 @ (if ms = MNil then [] else '','') @ render_members ms"

definition json_ws :: "bytes \<Rightarrow> bool" where
  "json_ws w \<longleftrightarrow> set w \<subseteq> {CHR 0x20, CHR 0x09, CHR 0x0A, CHR 0x0D}"

fun str_ok :: "bytes \<Rightarrow> bool" where
  "str_ok [] = True"
| "str_ok (c # s) =
     (if c = CHR 0x5C then (case s of [] \<Rightarrow> False | _ # t \<Rightarrow> str_ok t) else c \<noteq> CHR 0x22 \<and> str_ok s)"

definition lit_ok :: "bytes \<Rightarrow> bool" where
  "lit_ok s \<longleftrightarrow> s \<noteq> [] \<and> list_all (\<lambda>c. c \<notin> {CHR 0x22, CHR 0x7B, CHR 0x7D, CHR 0x5B, CHR 0x5D, CHR 0x2C, CHR 0x3A} \<and> \<not> is_ws c) s"

primrec doc_ok :: "jdoc \<Rightarrow> bool" and items_ok :: "jitems \<Rightarrow> bool" and members_ok :: "jmembers \<Rightarrow> bool" where
  "doc_ok (DStr s) = str_ok s"
| "doc_ok (DLit s) = lit_ok s"
| "doc_ok (DArr w xs) = (json_ws w \<and> items_ok xs)"
| "doc_ok (DObj w ms) = (json_ws w \<and> members_ok ms)"
| "items_ok INil = True"
| "items_ok (ICons w1 v w2 xs) = (json_ws w1 \<and> json_ws w2 \<and> doc_ok v \<and> items_ok xs)"
| "members_ok MNil = True"
| "members_ok (MCons w1 k w2 w3 v w4 ms) =
     (json_ws w1 \<and> json_ws w2 \<and> json_ws w3 \<and> json_ws w4 \<and> str_ok k \<and> utf8_valid k \<and> doc_ok v \<and> members_ok ms)"

text \<open>The tree side of the edits: the first member of a name, its replacement, and the marker put in
  front of the members of the last item.\<close>

primrec get_member :: "string \<Rightarrow> jmembers \<Rightarrow> jdoc option" where
  "get_member key MNil = None"
| "get_member key (MCons w1 k w2 w3 v w4 ms) = (if k = key then Some v else get_member key ms)"

primrec set_member :: "string \<Rightarrow> jdoc \<Rightarrow> jmembers \<Rightarrow> jmembers" where
  "set_member key d MNil = MNil"
| "set_member key d (MCons w1 k w2 w3 v w4 ms) =
     (if k = key then MCons w1 k w2 w3 d w4 ms else MCons w1 k w2 w3 v w4 (set_member key d ms))"

section \<open>The scanner on the text of a document\<close>

lemma drop_ConsD: "drop j b = c # r \<Longrightarrow> j < length b \<and> b ! j = c \<and> drop (Suc j) b = r"
  by (metis drop_Suc_Cons drop_all drop_drop list.distinct(1) list.inject not_less plus_1_eq_Suc Cons_nth_drop_Suc)

lemma drop_appendD: "drop j b = x @ y \<Longrightarrow> drop (j + length x) b = y"
  by (metis add.commute append_eq_conv_conj drop_drop)

lemma json_ws_ws: "json_ws w \<Longrightarrow> c \<in> set w \<Longrightarrow> is_ws c"
  by (auto simp: json_ws_def is_ws_def subset_iff)

lemma skip_ws_drop:
  assumes "drop i b = w @ y" "\<forall>c \<in> set w. is_ws c" "y = [] \<or> \<not> is_ws (hd y)"
  shows "skip_ws b i = i + length w"
  using assms
proof (induction w arbitrary: i)
  case Nil
  then show ?case
    by (cases y) (auto simp: skip_ws.simps[of b i] dest: drop_ConsD)
next
  case (Cons c w)
  from Cons.prems(1) have "i < length b" "b ! i = c" "drop (Suc i) b = w @ y" using drop_ConsD[of i b] by auto
  with Cons.IH[of "Suc i"] Cons.prems show ?case by (simp add: skip_ws.simps[of b i])
qed

lemma string_end_drop:
  assumes "drop i b = x @ CHR 0x22 # y" "str_ok x"
  shows "string_end b i = Some (i + length x + 1)"
  using assms
proof (induction x arbitrary: i rule: str_ok.induct)
  case 1
  then show ?case by (auto simp: string_end.simps[of b i] dest: drop_ConsD)
next
  case (2 c s)
  from "2.prems"(1) have c: "i < length b" "b ! i = c" "drop (Suc i) b = s @ CHR 0x22 # y" using drop_ConsD[of i b] by auto
  show ?case
  proof (cases "c = CHR 0x5C")
    case True
    then obtain d t where s: "s = d # t" "str_ok t" using "2.prems" by (auto split: list.splits)
    have "drop (Suc (Suc i)) b = t @ CHR 0x22 # y" using c(3) s drop_ConsD[of "Suc i" b] by auto
    with "2.IH"(1)[OF True s(1)] s c True show ?thesis by (simp add: string_end.simps[of b i])
  next
    case False
    with "2.IH"(2)[OF False c(3)] "2.prems" c show ?thesis by (simp add: string_end.simps[of b i])
  qed
qed

lemma skip_string_drop:
  "drop i b = dq x @ y \<Longrightarrow> str_ok x \<Longrightarrow> skip_string b i = Some (i + length (dq x))"
  using drop_ConsD[of i b "CHR 0x22" "x @ CHR 0x22 # y"] string_end_drop[of "Suc i" b x y]
  by (auto simp: dq_def skip_string_def byte_at_def)

lemma bracket_plain:
  assumes "drop j b = x @ y" "\<forall>c \<in> set x. c \<noteq> CHR 0x22 \<and> c \<noteq> opn \<and> c \<noteq> cls"
  shows "bracket_end b opn cls n j = bracket_end b opn cls n (j + length x)"
  using assms
proof (induction x arbitrary: j)
  case (Cons c x)
  from Cons.prems(1) have "j < length b" "b ! j = c" "drop (Suc j) b = x @ y" using drop_ConsD[of j b] by auto
  with Cons.IH[of "Suc j"] Cons.prems(2) show ?case by (simp add: bracket_end.simps[of b opn cls n j])
qed simp

lemma bracket_str:
  assumes "drop j b = dq x @ y" "str_ok x"
  shows "bracket_end b opn cls n j = bracket_end b opn cls n (j + length (dq x))"
  using skip_string_drop[OF assms] drop_ConsD[of j b "CHR 0x22"] assms(1)
  by (auto simp: bracket_end.simps[of b opn cls n j] dq_def)

definition bracket_pair :: "char \<Rightarrow> char \<Rightarrow> bool" where
  "bracket_pair opn cls \<longleftrightarrow> (opn = CHR 0x7B \<and> cls = CHR 0x7D) \<or> (opn = CHR 0x5B \<and> cls = CHR 0x5D)"

lemma bracket_ws:
  "drop j b = w @ y \<Longrightarrow> json_ws w \<Longrightarrow> bracket_pair opn cls \<Longrightarrow>
    bracket_end b opn cls n j = bracket_end b opn cls n (j + length w)"
  by (rule bracket_plain) (auto simp: json_ws_def bracket_pair_def subset_iff)

lemma bracket_char:
  "drop j b = c # y \<Longrightarrow> c \<noteq> CHR 0x22 \<Longrightarrow> c \<noteq> opn \<Longrightarrow> c \<noteq> cls \<Longrightarrow>
    bracket_end b opn cls n j = bracket_end b opn cls n (Suc j)"
  using bracket_plain[of j b "[c]" y opn cls n] by simp

lemma bracket_open:
  "drop j b = opn # y \<Longrightarrow> opn \<noteq> CHR 0x22 \<Longrightarrow> bracket_end b opn cls n j = bracket_end b opn cls (n + 1) (Suc j)"
  using drop_ConsD[of j b] by (auto simp: bracket_end.simps[of b opn cls n j])

lemma bracket_close:
  "drop j b = cls # y \<Longrightarrow> bracket_pair opn cls \<Longrightarrow>
    bracket_end b opn cls n j = (if n = 1 then Some (Suc j) else bracket_end b opn cls (n - 1) (Suc j))"
  using drop_ConsD[of j b cls y] by (auto simp: bracket_end.simps[of b opn cls n j] bracket_pair_def)

lemma bracket_nest:
  assumes "drop j b = o' # x @ c' # y" "bracket_pair o' c'" "bracket_pair opn cls" "n \<ge> 1"
    and mid: "\<And>m. m \<ge> 1 \<Longrightarrow> bracket_end b opn cls m (Suc j) = bracket_end b opn cls m (Suc j + length x)"
  shows "bracket_end b opn cls n j = bracket_end b opn cls n (Suc (Suc j + length x))"
proof -
  have d1: "drop (Suc j) b = x @ c' # y" using drop_ConsD[OF assms(1)] by simp
  then have d2: "drop (Suc j + length x) b = c' # y" by (rule drop_appendD)
  show ?thesis
  proof (cases "opn = o'")
    case True
    then have c: "cls = c'" using assms(2,3) by (auto simp: bracket_pair_def)
    have "bracket_end b opn cls n j = bracket_end b opn cls (n + 1) (Suc j)"
      using bracket_open[of j b opn "x @ c' # y"] assms(1,2) True by (auto simp: bracket_pair_def)
    also have "\<dots> = bracket_end b opn cls (n + 1) (Suc j + length x)" by (rule mid) (use assms(4) in simp)
    also have "\<dots> = bracket_end b opn cls n (Suc (Suc j + length x))"
      using bracket_close[of "Suc j + length x" b cls y opn "n + 1"] d2 c assms(3,4) by simp
    finally show ?thesis .
  next
    case False
    then have c: "opn \<noteq> c'" "cls \<noteq> o'" "cls \<noteq> c'" "o' \<noteq> CHR 0x22" "c' \<noteq> CHR 0x22" using assms(2,3) by (auto simp: bracket_pair_def)
    have "bracket_end b opn cls n j = bracket_end b opn cls n (Suc j)"
      by (rule bracket_char[OF assms(1)]) (use c False in auto)
    also have "\<dots> = bracket_end b opn cls n (Suc j + length x)" using mid[OF assms(4)] .
    also have "\<dots> = bracket_end b opn cls n (Suc (Suc j + length x))"
      by (rule bracket_char[OF d2]) (use c in auto)
    finally show ?thesis .
  qed
qed

text \<open>Inside brackets, a whole document is passed over without a change of depth.\<close>

lemma bracket_doc:
  "doc_ok d \<Longrightarrow> drop j b = render d @ y \<Longrightarrow> bracket_pair opn cls \<Longrightarrow> n \<ge> 1 \<Longrightarrow>
     bracket_end b opn cls n j = bracket_end b opn cls n (j + length (render d))"
  "items_ok xs \<Longrightarrow> drop j b = render_items xs @ y \<Longrightarrow> bracket_pair opn cls \<Longrightarrow> n \<ge> 1 \<Longrightarrow>
     bracket_end b opn cls n j = bracket_end b opn cls n (j + length (render_items xs))"
  "members_ok ms \<Longrightarrow> drop j b = render_members ms @ y \<Longrightarrow> bracket_pair opn cls \<Longrightarrow> n \<ge> 1 \<Longrightarrow>
     bracket_end b opn cls n j = bracket_end b opn cls n (j + length (render_members ms))"
proof (induction d and xs and ms arbitrary: j y n and j y n and j y n)
  case (DStr s)
  then show ?case using bracket_str[of j b s y opn cls n] by simp
next
  case (DLit s)
  have "c \<noteq> CHR 0x22 \<and> c \<noteq> opn \<and> c \<noteq> cls" if "c \<in> set s" for c
  proof -
    have "c \<noteq> CHR 0x22" "c \<noteq> CHR 0x7B" "c \<noteq> CHR 0x7D" "c \<noteq> CHR 0x5B" "c \<noteq> CHR 0x5D"
      using DLit.prems(1) that by (simp_all add: lit_ok_def list_all_iff)
    then show ?thesis using DLit.prems(3) by (simp add: bracket_pair_def) metis
  qed
  with DLit.prems(2) show ?case unfolding render.simps by (intro bracket_plain) blast+
next
  case (DArr w xs)
  let ?x = "if xs = INil then w else render_items xs"
  have d: "drop j b = CHR 0x5B # ?x @ CHR 0x5D # y" using DArr.prems(2) by simp
  then have d1: "drop (Suc j) b = ?x @ CHR 0x5D # y" using drop_ConsD[OF d] by simp
  have "bracket_end b opn cls m (Suc j) = bracket_end b opn cls m (Suc j + length ?x)" if "m \<ge> 1" for m
  proof (cases "xs = INil")
    case True
    then show ?thesis using bracket_ws[of "Suc j" b w "CHR 0x5D # y" opn cls m] d1 DArr.prems by simp
  next
    case False
    then show ?thesis using DArr.IH[of "Suc j" "CHR 0x5D # y" m] d1 DArr.prems that by simp
  qed
  from bracket_nest[OF d _ DArr.prems(3,4) this] show ?case by (simp add: bracket_pair_def)
next
  case (DObj w ms)
  let ?x = "if ms = MNil then w else render_members ms"
  have d: "drop j b = CHR 0x7B # ?x @ CHR 0x7D # y" using DObj.prems(2) by simp
  then have d1: "drop (Suc j) b = ?x @ CHR 0x7D # y" using drop_ConsD[OF d] by simp
  have "bracket_end b opn cls m (Suc j) = bracket_end b opn cls m (Suc j + length ?x)" if "m \<ge> 1" for m
  proof (cases "ms = MNil")
    case True
    then show ?thesis using bracket_ws[of "Suc j" b w "CHR 0x7D # y" opn cls m] d1 DObj.prems by simp
  next
    case False
    then show ?thesis using DObj.IH[of "Suc j" "CHR 0x7D # y" m] d1 DObj.prems that by simp
  qed
  from bracket_nest[OF d _ DObj.prems(3,4) this] show ?case by (simp add: bracket_pair_def)
next
  case INil
  then show ?case by simp
next
  case (ICons w1 v w2 xs)
  let ?r = "(if xs = INil then [] else '','') @ render_items xs"
  let ?k1 = "j + length w1" let ?k2 = "?k1 + length (render v)" let ?k3 = "?k2 + length w2"
  let ?s = "if xs = INil then [] else '',''" let ?k4 = "?k3 + length ?s"
  have d0: "drop j b = w1 @ render v @ w2 @ ?s @ render_items xs @ y" using ICons.prems by simp
  note d1 = drop_appendD[OF d0]
  note d2 = drop_appendD[OF d1]
  note d3 = drop_appendD[OF d2]
  note d4 = drop_appendD[OF d3]
  have "bracket_end b opn cls n j = bracket_end b opn cls n ?k1"
    using bracket_ws[OF d0] ICons.prems by simp
  also have "\<dots> = bracket_end b opn cls n ?k2" using ICons.IH(1)[OF _ d1] ICons.prems by simp
  also have "\<dots> = bracket_end b opn cls n ?k3" using bracket_ws[OF d2] ICons.prems by simp
  also have "\<dots> = bracket_end b opn cls n ?k4"
    by (rule bracket_plain[OF d3]) (use ICons.prems in \<open>auto simp: bracket_pair_def split: if_splits\<close>)
  also have "\<dots> = bracket_end b opn cls n (?k4 + length (render_items xs))" using ICons.IH(2)[OF _ d4] ICons.prems by simp
  finally show ?case by (simp add: ac_simps)
next
  case MNil
  then show ?case by simp
next
  case (MCons w1 k w2 w3 v w4 ms)
  let ?s = "if ms = MNil then [] else '',''"
  have d0: "drop j b = w1 @ dq k @ w2 @ '':'' @ w3 @ render v @ w4 @ ?s @ render_members ms @ y" using MCons.prems by simp
  note d1 = drop_appendD[OF d0]
  note d2 = drop_appendD[OF d1]
  note d3 = drop_appendD[OF d2]
  note d4 = drop_appendD[OF d3]
  note d5 = drop_appendD[OF d4]
  note d6 = drop_appendD[OF d5]
  note d7 = drop_appendD[OF d6]
  note d8 = drop_appendD[OF d7]
  note pair = MCons.prems(3)
  have ok: "json_ws w1" "json_ws w2" "json_ws w3" "json_ws w4" "str_ok k" "doc_ok v" "members_ok ms" using MCons.prems(1) by auto
  note bracket_ws[OF d0 ok(1) pair, of n]
  also note bracket_str[OF d1 ok(5), of opn cls n]
  also note bracket_ws[OF d2 ok(2) pair, of n]
  also have "bracket_end b opn cls n (j + length w1 + length (dq k) + length w2) =
      bracket_end b opn cls n (j + length w1 + length (dq k) + length w2 + length '':'')"
    by (rule bracket_plain[OF d3]) (use pair in \<open>auto simp: bracket_pair_def\<close>)
  also note bracket_ws[OF d4 ok(3) pair, of n]
  also note MCons.IH(1)[OF ok(6) d5 pair MCons.prems(4)]
  also note bracket_ws[OF d6 ok(4) pair, of n]
  also note bracket_plain[OF d7, of opn cls n]
  also note MCons.IH(2)[OF ok(7) d8 pair MCons.prems(4)]
  finally show ?case using pair by (auto simp: bracket_pair_def ac_simps)
qed

primrec is_lit :: "jdoc \<Rightarrow> bool" where
  "is_lit (DStr s) = False"
| "is_lit (DLit s) = True"
| "is_lit (DArr w xs) = False"
| "is_lit (DObj w ms) = False"

definition value_stop :: "bytes \<Rightarrow> bool" where
  "value_stop y \<longleftrightarrow> y \<noteq> [] \<and> hd y \<in> {CHR 0x2C, CHR 0x7D, CHR 0x5D}"

lemma value_stop_Cons [simp]: "value_stop (c # y) \<longleftrightarrow> c \<in> {CHR 0x2C, CHR 0x7D, CHR 0x5D}"
  by (simp add: value_stop_def)

lemma literal_end_drop:
  assumes "drop j b = x @ y" "list_all (\<lambda>c. c \<notin> {CHR 0x2C, CHR 0x7D, CHR 0x5D}) x" "value_stop y"
  shows "literal_end b j = j + length x"
  using assms
proof (induction x arbitrary: j)
  case Nil
  then show ?case using drop_ConsD[of j b "hd y" "tl y"] by (auto simp: literal_end.simps[of b j] value_stop_def)
next
  case (Cons c x)
  from Cons.prems(1) have "j < length b" "b ! j = c" "drop (Suc j) b = x @ y" using drop_ConsD[of j b c "x @ y"] by auto
  with Cons.IH[of "Suc j"] Cons.prems show ?case by (simp add: literal_end.simps[of b j])
qed

lemma render_hd: "doc_ok d \<Longrightarrow> render d \<noteq> [] \<and> \<not> is_ws (hd (render d))"
  by (cases d) (auto simp: dq_def lit_ok_def is_ws_def neq_Nil_conv)

lemma skip_ws_drop0: "drop i b = y \<Longrightarrow> y = [] \<or> \<not> is_ws (hd y) \<Longrightarrow> skip_ws b i = i"
  using skip_ws_drop[of i b "[]" y] by simp

lemma bracket_top:
  assumes "drop i b = o' # x @ c' # y" "bracket_pair o' c'"
    and "bracket_end b o' c' 1 (Suc i) = bracket_end b o' c' 1 (Suc i + length x)"
  shows "bracket_end b o' c' 0 i = Some (i + length x + 2)"
proof -
  have d1: "drop (Suc i) b = x @ c' # y" using drop_ConsD[OF assms(1)] by simp
  then have d2: "drop (Suc i + length x) b = c' # y" by (rule drop_appendD)
  have "bracket_end b o' c' 0 i = bracket_end b o' c' 1 (Suc i)"
    using bracket_open[OF assms(1), of c' 0] assms(2) by (auto simp: bracket_pair_def)
  also have "\<dots> = Some (i + length x + 2)" using assms(3) bracket_close[OF d2 assms(2), of 1] by simp
  finally show ?thesis .
qed

text \<open>\<open>skip_value\<close> ends right behind the text of a document; behind a literal it takes the white space too.\<close>

lemma skip_value_doc:
  assumes "doc_ok d" "drop i b = render d @ w @ y" "json_ws w" "value_stop y"
  shows "skip_value b i = Some (i + length (render d) + (if is_lit d then length w else 0))"
proof -
  have ws: "skip_ws b i = i" using skip_ws_drop0[OF assms(2)] render_hd[OF assms(1)] by auto
  show ?thesis
  proof (cases d)
    case (DStr s)
    with assms have "skip_string b i = Some (i + length (dq s))" by (auto intro: skip_string_drop)
    moreover have "byte_at b i = Some (CHR 0x22)" using drop_ConsD[of i b "CHR 0x22"] assms(2) DStr by (auto simp: dq_def byte_at_def)
    ultimately show ?thesis using DStr ws by (simp add: skip_value_def)
  next
    case (DLit s)
    then have s: "s \<noteq> []" "list_all (\<lambda>c. c \<notin> {CHR 0x2C, CHR 0x7D, CHR 0x5D}) (s @ w)"
      using assms(1,3) by (auto simp: lit_ok_def json_ws_def list_all_iff subset_iff)
    have "literal_end b i = i + length (s @ w)" using literal_end_drop[OF _ s(2) assms(4), of i b] assms(2) DLit by simp
    moreover have "byte_at b i = Some (hd s)" using drop_ConsD[of i b "hd s" "tl s @ w @ y"] assms(2) DLit s(1) by (auto simp: byte_at_def)
    moreover have "hd s \<noteq> CHR 0x22" "hd s \<noteq> CHR 0x7B" "hd s \<noteq> CHR 0x5B"
      using assms(1) DLit s(1) by (auto simp: lit_ok_def list_all_iff)
    ultimately show ?thesis using DLit ws s(1) by (simp add: skip_value_def Let_def)
  next
    case (DArr u xs)
    let ?x = "if xs = INil then u else render_items xs"
    have d: "drop i b = CHR 0x5B # ?x @ CHR 0x5D # w @ y" using assms(2) DArr by simp
    then have d1: "drop (Suc i) b = ?x @ CHR 0x5D # w @ y" using drop_ConsD[OF d] by simp
    have bp: "bracket_pair (CHR 0x5B) (CHR 0x5D)" by (simp add: bracket_pair_def)
    have "bracket_end b (CHR 0x5B) (CHR 0x5D) 1 (Suc i) = bracket_end b (CHR 0x5B) (CHR 0x5D) 1 (Suc i + length ?x)"
      using bracket_ws[of "Suc i" b u "CHR 0x5D # w @ y" "CHR 0x5B" "CHR 0x5D" 1]
        bracket_doc(2)[of xs "Suc i" b "CHR 0x5D # w @ y" "CHR 0x5B" "CHR 0x5D" 1] d1 bp assms(1) DArr
      by (cases "xs = INil") simp_all
    from bracket_top[OF d bp this] show ?thesis using DArr ws drop_ConsD[OF d] by (simp add: skip_value_def byte_at_def)
  next
    case (DObj u ms)
    let ?x = "if ms = MNil then u else render_members ms"
    have d: "drop i b = CHR 0x7B # ?x @ CHR 0x7D # w @ y" using assms(2) DObj by simp
    then have d1: "drop (Suc i) b = ?x @ CHR 0x7D # w @ y" using drop_ConsD[OF d] by simp
    have bp: "bracket_pair (CHR 0x7B) (CHR 0x7D)" by (simp add: bracket_pair_def)
    have "bracket_end b (CHR 0x7B) (CHR 0x7D) 1 (Suc i) = bracket_end b (CHR 0x7B) (CHR 0x7D) 1 (Suc i + length ?x)"
      using bracket_ws[of "Suc i" b u "CHR 0x7D # w @ y" "CHR 0x7B" "CHR 0x7D" 1]
        bracket_doc(3)[of ms "Suc i" b "CHR 0x7D # w @ y" "CHR 0x7B" "CHR 0x7D" 1] d1 bp assms(1) DObj
      by (cases "ms = MNil") simp_all
    from bracket_top[OF d bp this] show ?thesis using DObj ws drop_ConsD[OF d] by (simp add: skip_value_def byte_at_def)
  qed
qed

lemma value_stop_ws: "value_stop y \<Longrightarrow> y = [] \<or> \<not> is_ws (hd y)"
  by (auto simp: value_stop_def is_ws_def)

lemma skip_ws_json: "drop i b = w @ y \<Longrightarrow> json_ws w \<Longrightarrow> y = [] \<or> \<not> is_ws (hd y) \<Longrightarrow> skip_ws b i = i + length w"
  by (rule skip_ws_drop) (auto dest: json_ws_ws)

text \<open>Behind a value, skipping white space leads to the next comma or closing bracket.\<close>

lemma skip_value_next:
  assumes "doc_ok d" "drop i b = render d @ w @ y" "json_ws w" "value_stop y"
  obtains k where "skip_value b i = Some k" "k = i + length (render d) + (if is_lit d then length w else 0)"
    "skip_ws b k = i + length (render d) + length w" "byte_at b (skip_ws b k) = Some (hd y)"
    "drop (skip_ws b k) b = y"
proof -
  have d1: "drop (i + length (render d)) b = w @ y" by (rule drop_appendD[OF assms(2)])
  have d2: "drop (i + length (render d) + length w) b = y" by (rule drop_appendD[OF d1])
  obtain c r where y: "y = c # r" using assms(4) by (cases y) (auto simp: value_stop_def)
  have s: "skip_ws b (i + length (render d) + (if is_lit d then length w else 0)) = i + length (render d) + length w"
    using skip_ws_json[OF d1 assms(3) value_stop_ws[OF assms(4)]] skip_ws_drop0[OF d2 value_stop_ws[OF assms(4)]] by simp
  show thesis
    by (rule that[OF skip_value_doc[OF assms] refl])
      (use s d2 y drop_ConsD[of "i + length (render d) + length w" b c r] in \<open>simp_all add: byte_at_def\<close>)
qed

section \<open>Finding a member\<close>

primrec member_span :: "string \<Rightarrow> nat \<Rightarrow> jmembers \<Rightarrow> (nat \<times> nat) option" where
  "member_span key j MNil = None"
| "member_span key j (MCons w1 k w2 w3 v w4 ms) =
     (let s = j + length w1 + length (dq k) + length w2 + 1 + length w3 in
      if k = key then Some (s, s + length (render v) + (if is_lit v then length w4 else 0))
      else member_span key (s + length (render v) + length w4 + 1) ms)"

lemma members_induct [case_names MNil MCons]:
  "P MNil \<Longrightarrow> (\<And>w1 k w2 w3 v w4 ms. P ms \<Longrightarrow> P (MCons w1 k w2 w3 v w4 ms)) \<Longrightarrow> P ms"
  by (rule jmembers.induct[of "\<lambda>_. True" "\<lambda>_. True" P]) auto

lemma items_induct [case_names INil ICons]:
  "P INil \<Longrightarrow> (\<And>w1 v w2 xs. P xs \<Longrightarrow> P (ICons w1 v w2 xs)) \<Longrightarrow> P xs"
  by (rule jitems.induct[of "\<lambda>_. True" P "\<lambda>_. True"]) auto

lemma member_from_stop: "drop i b = CHR 0x7D # y \<Longrightarrow> member_from b key i = None"
  using drop_ConsD[of i b] by (subst member_from.simps) auto

lemma byte_at_drop: "drop i b = c # y \<Longrightarrow> byte_at b i = Some c"
  using drop_ConsD[of i b c y] by (simp add: byte_at_def)

text \<open>One round of the member loop.\<close>

lemma member_from_step:
  assumes "drop i b = dq k @ w2 @ '':'' @ w3 @ render v @ w4 @ c # z"
    and "str_ok k" "utf8_valid k" "json_ws w2" "json_ws w3" "json_ws w4" "doc_ok v" "c \<in> {CHR 0x2C, CHR 0x7D}"
  shows "member_from b key i =
    (let s = i + length (dq k) + length w2 + 1 + length w3; n = s + length (render v) + length w4 in
     if k = key then Some (s, s + length (render v) + (if is_lit v then length w4 else 0))
     else if c = CHR 0x2C then member_from b key (skip_ws b (n + 1)) else None)"
proof -
  let ?k = "i + length (dq k)"
  have "drop i b = CHR 0x22 # k @ CHR 0x22 # w2 @ '':'' @ w3 @ render v @ w4 @ c # z" using assms(1) by (simp add: dq_def)
  note q = drop_ConsD[OF this]
  note d1 = drop_appendD[OF assms(1)]
  note d2 = drop_appendD[OF d1]
  have d2': "drop (?k + length w2) b = CHR 0x3A # w3 @ render v @ w4 @ c # z" using d2 by simp
  have d3: "drop (?k + length w2 + 1) b = w3 @ render v @ w4 @ c # z" using drop_ConsD[OF d2'] by simp
  note d4 = drop_appendD[OF d3]
  have ss: "skip_string b i = Some ?k" by (rule skip_string_drop[OF assms(1,2)])
  have nm: "take (?k - 1 - (i + 1)) (drop (i + 1) b) = k" using q by (simp add: dq_def)
  have co: "skip_ws b ?k = ?k + length w2" using skip_ws_json[OF d1 assms(4)] by (simp add: is_ws_def)
  have vs: "skip_ws b (?k + length w2 + 1) = ?k + length w2 + 1 + length w3"
    using skip_ws_json[OF d3 assms(5)] render_hd[OF assms(7)] by (simp add: hd_append)
  have "value_stop (c # z)" using assms(8) by auto
  from skip_value_next[OF assms(7) d4 assms(6) this] obtain e where
    e: "skip_value b (?k + length w2 + 1 + length w3) = Some e"
      "e = ?k + length w2 + 1 + length w3 + length (render v) + (if is_lit v then length w4 else 0)"
      "skip_ws b e = ?k + length w2 + 1 + length w3 + length (render v) + length w4"
      "byte_at b (skip_ws b e) = Some c" "drop (skip_ws b e) b = c # z" by auto
  have "member_from b key i = (if k = key then Some (?k + length w2 + 1 + length w3, e)
      else member_from b key (if c = CHR 0x2C then skip_ws b (skip_ws b e + 1) else skip_ws b e))"
    using q assms(3) nm byte_at_drop[OF d2']
    by (subst member_from.simps) (simp add: ss co vs[simplified] e(1)[simplified] e(4) Let_def)
  moreover have "member_from b key (skip_ws b e) = None" if "c \<noteq> CHR 0x2C"
    using that assms(8) e(5) by (auto intro: member_from_stop)
  ultimately show ?thesis using e(2,3) by (auto simp: Let_def)
qed

lemma member_from_drop:
  assumes "members_ok ms" "ms \<noteq> MNil" "drop j b = render_members ms @ CHR 0x7D # y"
  shows "member_from b key (skip_ws b j) = member_span key j ms"
  using assms
proof (induction ms arbitrary: j rule: members_induct)
  case (MCons w1 k w2 w3 v w4 ms)
  have ok: "json_ws w1" "json_ws w2" "json_ws w3" "json_ws w4" "str_ok k" "utf8_valid k" "doc_ok v" "members_ok ms"
    using MCons.prems(1) by auto
  let ?t = "dq k @ w2 @ '':'' @ w3 @ render v @ w4 @ (if ms = MNil then CHR 0x7D # y else CHR 0x2C # render_members ms @ CHR 0x7D # y)"
  have d: "drop j b = w1 @ ?t" using MCons.prems(3) by (cases "ms = MNil") simp_all
  have s: "skip_ws b j = j + length w1" using skip_ws_json[OF d ok(1)] by (simp add: dq_def is_ws_def)
  note d1 = drop_appendD[OF d]
  show ?case
  proof (cases "ms = MNil")
    case True
    then show ?thesis
      using member_from_step[of "j + length w1" b k w2 w3 v w4 "CHR 0x7D" y key] d1 ok s by (simp add: Let_def)
  next
    case False
    let ?n = "j + length w1 + length (dq k) + length w2 + 1 + length w3 + length (render v) + length w4"
    have d2: "drop (j + length w1) b = (dq k @ w2 @ '':'' @ w3 @ render v @ w4) @ CHR 0x2C # render_members ms @ CHR 0x7D # y"
      using d1 False by simp
    have "drop ?n b = CHR 0x2C # render_members ms @ CHR 0x7D # y" using drop_appendD[OF d2] by (simp add: ac_simps)
    then have "drop (?n + 1) b = render_members ms @ CHR 0x7D # y" using drop_ConsD[of ?n b] by simp
    from MCons.IH[OF ok(8) False this] show ?thesis
      using member_from_step[of "j + length w1" b k w2 w3 v w4 "CHR 0x2C" "render_members ms @ CHR 0x7D # y" key] d1 ok s False
      by (simp add: Let_def)
  qed
qed simp

lemma object_member_drop:
  assumes "doc_ok (DObj w ms)" "drop i b = render (DObj w ms) @ y"
  shows "object_member_value b i key = member_span key (i + 1) ms"
proof (cases "ms = MNil")
  case True
  have "drop i b = CHR 0x7B # w @ CHR 0x7D # y" using assms(2) True by simp
  then have d: "drop (i + 1) b = w @ CHR 0x7D # y" using drop_ConsD[of i b] by simp
  from drop_appendD[OF d] have "member_from b key (i + 1 + length w) = None" by (rule member_from_stop)
  moreover have "skip_ws b (i + 1) = i + 1 + length w" using skip_ws_json[OF d] assms(1) by (simp add: is_ws_def)
  ultimately show ?thesis using True by (simp add: object_member_value_def)
next
  case False
  have "drop i b = CHR 0x7B # render_members ms @ CHR 0x7D # y" using assms(2) False by simp
  then have "drop (i + 1) b = render_members ms @ CHR 0x7D # y" using drop_ConsD[of i b] by simp
  then show ?thesis using member_from_drop[OF _ False] assms(1) by (simp add: object_member_value_def)
qed

lemma member_split:
  assumes "get_member key ms = Some v"
  obtains pre post where "render_members ms = pre @ render v @ post"
    "\<And>d. render_members (set_member key d ms) = pre @ render d @ post"
    "\<And>j. \<exists>e. member_span key j ms = Some (j + length pre, e) \<and> (\<not> is_lit v \<longrightarrow> e = j + length pre + length (render v))"
proof -
  have nil: "(set_member key d ms = MNil) = (ms = MNil)" for d ms
    by (cases ms) auto
  have "\<exists>pre post. render_members ms = pre @ render v @ post
      \<and> (\<forall>d. render_members (set_member key d ms) = pre @ render d @ post)
      \<and> (\<forall>j. \<exists>e. member_span key j ms = Some (j + length pre, e) \<and> (\<not> is_lit v \<longrightarrow> e = j + length pre + length (render v)))"
    using assms
  proof (induction ms rule: members_induct)
    case (MCons w1 k w2 w3 u w4 ms)
    show ?case
    proof (cases "k = key")
      case True
      with MCons.prems show ?thesis
        by (intro exI[of _ "w1 @ dq k @ w2 @ '':'' @ w3"] exI[of _ "w4 @ (if ms = MNil then [] else '','') @ render_members ms"])
          (auto simp: Let_def)
    next
      case False
      with MCons obtain pre post where
        h: "render_members ms = pre @ render v @ post"
          "\<And>d. render_members (set_member key d ms) = pre @ render d @ post"
          "\<And>j. \<exists>e. member_span key j ms = Some (j + length pre, e) \<and> (\<not> is_lit v \<longrightarrow> e = j + length pre + length (render v))"
        by auto
      have ms: "ms \<noteq> MNil" using MCons.prems False by auto
      let ?p = "w1 @ dq k @ w2 @ '':'' @ w3 @ render u @ w4 @ '','' @ pre"
      have "\<exists>e. member_span key j (MCons w1 k w2 w3 u w4 ms) = Some (j + length ?p, e)
          \<and> (\<not> is_lit v \<longrightarrow> e = j + length ?p + length (render v))" for j
        using h(3)[of "j + length w1 + length (dq k) + length w2 + 1 + length w3 + length (render u) + length w4 + 1"] False
        by (simp add: Let_def ac_simps)
      then show ?thesis
        by (intro exI[of _ ?p] exI[of _ post]) (use h ms False nil in simp)
    qed
  qed simp
  then show thesis using that by blast
qed

lemma member_span_None: "get_member key ms = None \<Longrightarrow> member_span key j ms = None"
  by (induction ms arbitrary: j rule: members_induct) (auto simp: Let_def split: if_splits)

section \<open>The last item of an array\<close>

primrec last_item :: "jitems \<Rightarrow> jdoc option" where
  "last_item INil = None"
| "last_item (ICons w1 v w2 xs) = (if xs = INil then Some v else last_item xs)"

primrec set_last :: "jdoc \<Rightarrow> jitems \<Rightarrow> jitems" where
  "set_last d INil = INil"
| "set_last d (ICons w1 v w2 xs) = (if xs = INil then ICons w1 d w2 INil else ICons w1 v w2 (set_last d xs))"

lemma last_from_step:
  assumes "drop i b = render v @ w2 @ c # z" "json_ws w2" "doc_ok v" "c \<in> {CHR 0x2C, CHR 0x5D}" "i < arr_end"
  shows "\<exists>e. last_from b arr_end i lst =
    last_from b arr_end (let n = i + length (render v) + length w2 in if c = CHR 0x2C then skip_ws b (n + 1) else n) (Some (i, e))"
proof -
  have st: "value_stop (c # z)" using assms(4) by auto
  from skip_value_next[OF assms(3,1,2) st] obtain e where
    e: "skip_value b i = Some e" "skip_ws b e = i + length (render v) + length w2" "byte_at b (skip_ws b e) = Some c" by auto
  have "i < length b" "b ! i = hd (render v)"
    using drop_ConsD[of i b "hd (render v)" "tl (render v) @ w2 @ c # z"] assms(1) render_hd[OF assms(3)] by auto
  moreover have "hd (render v) \<noteq> CHR 0x5D" using assms(3) by (cases v) (auto simp: dq_def lit_ok_def list_all_iff neq_Nil_conv)
  ultimately show ?thesis using assms(5) e by (subst last_from.simps) (auto simp: Let_def)
qed

lemma last_from_drop:
  assumes "items_ok xs" "xs \<noteq> INil" "drop j b = render_items xs @ CHR 0x5D # y" "j + length (render_items xs) < arr_end"
    and "last_item xs = Some v"
  shows "\<exists>pre post e. render_items xs = pre @ render v @ post
      \<and> (\<forall>d. render_items (set_last d xs) = pre @ render d @ post)
      \<and> last_from b arr_end (skip_ws b j) lst = Some (j + length pre, e)"
  using assms
proof (induction xs arbitrary: j lst rule: items_induct)
  case (ICons w1 u w2 xs)
  have ok: "json_ws w1" "json_ws w2" "doc_ok u" "items_ok xs" using ICons.prems(1) by auto
  let ?i = "j + length w1"
  have lt: "?i < arr_end" using ICons.prems(4) by simp
  show ?case
  proof (cases "xs = INil")
    case True
    have d: "drop j b = w1 @ render u @ w2 @ CHR 0x5D # y" using ICons.prems(3) True by simp
    have s: "skip_ws b j = ?i" using skip_ws_json[OF d ok(1)] render_hd[OF ok(3)] by (simp add: hd_append)
    note d1 = drop_appendD[OF d]
    let ?n = "?i + length (render u) + length w2"
    obtain e where e: "last_from b arr_end ?i lst = last_from b arr_end ?n (Some (?i, e))"
      using last_from_step[OF d1 ok(2,3), of arr_end lst] lt by auto
    have "drop ?n b = CHR 0x5D # y" using drop_appendD[OF drop_appendD[OF d1]] .
    then have "last_from b arr_end ?n (Some (?i, e)) = Some (?i, e)"
      using drop_ConsD[of ?n b] by (subst last_from.simps) simp
    with e s True ICons.prems(5) show ?thesis
      by (intro exI[of _ w1] exI[of _ w2] exI[of _ e]) simp
  next
    case False
    have d: "drop j b = w1 @ render u @ w2 @ CHR 0x2C # render_items xs @ CHR 0x5D # y" using ICons.prems(3) False by simp
    have s: "skip_ws b j = ?i" using skip_ws_json[OF d ok(1)] render_hd[OF ok(3)] by (simp add: hd_append)
    note d1 = drop_appendD[OF d]
    let ?n = "?i + length (render u) + length w2"
    obtain e where e: "last_from b arr_end ?i lst = last_from b arr_end (skip_ws b (?n + 1)) (Some (?i, e))"
      using last_from_step[OF d1 ok(2,3), of arr_end lst] lt by auto
    have "drop ?n b = CHR 0x2C # render_items xs @ CHR 0x5D # y" using drop_appendD[OF drop_appendD[OF d1]] .
    then have d2: "drop (?n + 1) b = render_items xs @ CHR 0x5D # y" using drop_ConsD[of ?n b] by simp
    have "?n + 1 + length (render_items xs) < arr_end" using ICons.prems(4) False by simp
    moreover have "last_item xs = Some v" using ICons.prems(5) False by simp
    ultimately obtain pre post e' where h: "render_items xs = pre @ render v @ post"
      "\<forall>d. render_items (set_last d xs) = pre @ render d @ post"
      "last_from b arr_end (skip_ws b (?n + 1)) (Some (?i, e)) = Some (?n + 1 + length pre, e')"
      using ICons.IH[OF ok(4) False d2] by blast
    have nil: "set_last d xs \<noteq> INil" for d using False by (cases xs) auto
    show ?thesis
      by (intro exI[of _ "w1 @ render u @ w2 @ '','' @ pre"] exI[of _ post] exI[of _ e']) (use h e s nil False in simp)
  qed
qed simp

lemma last_item_None: "last_item xs = None \<longleftrightarrow> xs = INil"
  by (induction xs rule: items_induct) auto

lemma array_last_drop:
  assumes "doc_ok (DArr w xs)" "drop i b = render (DArr w xs) @ y"
  shows "case last_item xs of
      None \<Rightarrow> array_last_element b i (i + length (render (DArr w xs))) = None
    | Some v \<Rightarrow> \<exists>pre post e. render (DArr w xs) = pre @ render v @ post
        \<and> (\<forall>d. render (DArr w (set_last d xs)) = pre @ render d @ post)
        \<and> array_last_element b i (i + length (render (DArr w xs))) = Some (i + length pre, e)"
proof (cases "last_item xs")
  case None
  then have xs: "xs = INil" by (simp add: last_item_None)
  have "drop i b = CHR 0x5B # w @ CHR 0x5D # y" using assms(2) xs by simp
  then have d: "drop (i + 1) b = w @ CHR 0x5D # y" using drop_ConsD[of i b] by simp
  have "drop (i + 1 + length w) b = CHR 0x5D # y" by (rule drop_appendD[OF d])
  moreover have "skip_ws b (i + 1) = i + 1 + length w" using skip_ws_json[OF d] assms(1) by (simp add: is_ws_def)
  ultimately show ?thesis using xs drop_ConsD[of "i + 1 + length w" b]
    by (simp add: array_last_element_def) (subst last_from.simps, simp)
next
  case (Some v)
  then have ne: "xs \<noteq> INil" by auto
  have "drop i b = CHR 0x5B # render_items xs @ CHR 0x5D # y" using assms(2) ne by simp
  then have d: "drop (i + 1) b = render_items xs @ CHR 0x5D # y" using drop_ConsD[of i b] by simp
  have nil: "set_last d xs \<noteq> INil" for d using ne by (cases xs) auto
  have len: "i + 1 + length (render_items xs) < i + length (render (DArr w xs))" using ne by simp
  obtain pre post e where h: "render_items xs = pre @ render v @ post"
      "\<forall>d. render_items (set_last d xs) = pre @ render d @ post"
      "last_from b (i + length (render (DArr w xs))) (skip_ws b (i + 1)) None = Some (i + 1 + length pre, e)"
    using last_from_drop[OF _ ne d len Some, of None] assms(1) by (auto simp del: render.simps)
  show ?thesis
    unfolding Some option.case
    by (intro exI[of _ "CHR 0x5B # pre"] exI[of _ "post @ '']''"] exI[of _ e])
      (use h ne nil in \<open>simp add: array_last_element_def\<close>)
qed

section \<open>The edits on the text of a document\<close>

definition marker_doc :: "bool \<Rightarrow> jdoc" where
  "marker_doc ttl_1h = DObj [] (MCons [] ''type'' [] [] (DStr ''ephemeral'') []
     (if ttl_1h then MCons [] ''ttl'' [] [] (DStr ''1h'') [] MNil else MNil))"

definition mark_object :: "bool \<Rightarrow> bytes \<Rightarrow> jmembers \<Rightarrow> jdoc" where
  "mark_object ttl_1h u os =
     DObj u (MCons [] ''cache_control'' [] [] (marker_doc ttl_1h) (if os = MNil then u else []) os)"

definition mark_last :: "bool \<Rightarrow> string \<Rightarrow> jmembers \<Rightarrow> jmembers option" where
  "mark_last ttl_1h key ms =
     (case get_member key ms of
        Some (DArr w xs) \<Rightarrow>
          (case last_item xs of
             Some (DObj u os) \<Rightarrow> Some (set_member key (DArr w (set_last (mark_object ttl_1h u os) xs)) ms)
           | _ \<Rightarrow> None)
      | _ \<Rightarrow> None)"

definition mark_block :: "bool \<Rightarrow> jmembers \<Rightarrow> jmembers option" where
  "mark_block ttl_1h ms =
     (case mark_last ttl_1h ''system'' ms of Some ms' \<Rightarrow> Some ms' | None \<Rightarrow> mark_last ttl_1h ''tools'' ms)"

lemma cache_marker_doc: "cache_marker t = dq ''cache_control'' @ '':'' @ render (marker_doc t)"
  by (simp add: cache_marker_def marker_doc_def)

lemma member_offset:
  assumes "get_member key ms = Some v" "drop i b = render (DObj w ms) @ y"
  obtains pre post where "render (DObj w ms) = pre @ render v @ post"
    "\<And>d. render (DObj w (set_member key d ms)) = pre @ render d @ post"
    "drop (i + length pre) b = render v @ post @ y"
    "\<exists>e. member_span key (i + 1) ms = Some (i + length pre, e) \<and> (\<not> is_lit v \<longrightarrow> e = i + length pre + length (render v))"
proof -
  obtain pre post where h: "render_members ms = pre @ render v @ post"
    "\<And>d. render_members (set_member key d ms) = pre @ render d @ post"
    "\<And>j. \<exists>e. member_span key j ms = Some (j + length pre, e) \<and> (\<not> is_lit v \<longrightarrow> e = j + length pre + length (render v))"
    by (rule member_split[OF assms(1)]) blast
  have ne: "ms \<noteq> MNil" "set_member key d ms \<noteq> MNil" for d using assms(1) by (cases ms; auto)+
  have "drop i b = (CHR 0x7B # pre) @ render v @ post @ ''}'' @ y" using assms(2) ne h(1) by simp
  from drop_appendD[OF this] have d: "drop (i + length (CHR 0x7B # pre)) b = render v @ (post @ ''}'') @ y" by simp
  show thesis
    by (rule that[of "CHR 0x7B # pre" "post @ ''}''", OF _ _ d]) (use h(1,2) h(3)[of "i + 1"] ne in simp_all)
qed

lemma last_object_drop:
  assumes "doc_ok (DObj w ms)" "drop i b = render (DObj w ms) @ y"
  shows "case mark_last t key ms of
      None \<Rightarrow> last_object b i key = None
    | Some ms' \<Rightarrow> \<exists>u os pre post. render (DObj w ms) = pre @ render (DObj u os) @ post \<and> doc_ok (DObj u os)
        \<and> render (DObj w ms') = pre @ render (mark_object t u os) @ post \<and> last_object b i key = Some (i + length pre)"
proof (cases "get_member key ms")
  case None
  then show ?thesis using object_member_drop[OF assms, of key] member_span_None[OF None]
    by (simp add: mark_last_def last_object_def)
next
  case (Some v)
  note found = this
  have okv: "doc_ok v" using assms(1) found by (induction ms rule: members_induct) (auto split: if_splits)
  obtain pre post e where h: "render (DObj w ms) = pre @ render v @ post"
    "\<And>d. render (DObj w (set_member key d ms)) = pre @ render d @ post"
    "drop (i + length pre) b = render v @ post @ y"
    "member_span key (i + 1) ms = Some (i + length pre, e)" "\<not> is_lit v \<longrightarrow> e = i + length pre + length (render v)"
    using member_offset[OF found assms(2)] by metis
  have omv: "object_member_value b i key = Some (i + length pre, e)" using object_member_drop[OF assms] h(4) by simp
  show ?thesis
  proof (cases "\<exists>u xs. v = DArr u xs")
    case False
    have "byte_at b (i + length pre) = Some (hd (render v))"
      using h(3) render_hd[OF okv] byte_at_drop[of "i + length pre" b "hd (render v)" "tl (render v) @ post @ y"] by simp
    moreover have "hd (render v) \<noteq> CHR 0x5B"
      using False okv by (cases v) (auto simp: dq_def lit_ok_def list_all_iff neq_Nil_conv)
    moreover have "mark_last t key ms = None" using False found by (cases v) (auto simp: mark_last_def)
    ultimately show ?thesis using omv by (simp add: last_object_def)
  next
    case True
    then obtain u xs where v: "v = DArr u xs" by blast
    have e: "e = i + length pre + length (render (DArr u xs))" using h(5) v by simp
    have b: "byte_at b (i + length pre) = Some (CHR 0x5B)" using h(3) v by (auto intro: byte_at_drop)
    show ?thesis
    proof (cases "last_item xs")
      case None
      with array_last_drop[of u xs "i + length pre" b] h(3) okv v e b omv found show ?thesis
        by (auto simp: mark_last_def last_object_def)
    next
      case (Some l)
      have okl: "doc_ok l" using okv v Some by (induction xs arbitrary: v rule: items_induct) (auto split: if_splits)
      have "\<exists>ip iq f. render (DArr u xs) = ip @ render l @ iq
          \<and> (\<forall>d. render (DArr u (set_last d xs)) = ip @ render d @ iq)
          \<and> array_last_element b (i + length pre) e = Some (i + length pre + length ip, f)"
        using array_last_drop[of u xs "i + length pre" b "post @ y"] h(3) okv v e Some by auto
      then obtain ip iq f where k: "render (DArr u xs) = ip @ render l @ iq"
          "\<And>d. render (DArr u (set_last d xs)) = ip @ render d @ iq"
          "array_last_element b (i + length pre) e = Some (i + length pre + length ip, f)" by blast
      have "drop (i + length pre) b = ip @ render l @ iq @ post @ y" using h(3) v k(1) by simp
      from drop_appendD[OF this] have bl: "byte_at b (i + length pre + length ip) = Some (hd (render l))"
        using render_hd[OF okl] byte_at_drop[of "i + length pre + length ip" b "hd (render l)" "tl (render l) @ iq @ post @ y"] by simp
      show ?thesis
      proof (cases "\<exists>x os. l = DObj x os")
        case True
        then obtain x os where l: "l = DObj x os" by blast
        have m: "mark_last t key ms = Some (set_member key (DArr u (set_last (mark_object t x os) xs)) ms)"
          using found v Some l by (simp add: mark_last_def)
        have "last_object b i key = Some (i + length (pre @ ip))"
          using omv b k(3) bl l by (simp add: last_object_def)
        then show ?thesis unfolding m option.case
          by (intro exI[of _ x] exI[of _ os] exI[of _ "pre @ ip"] exI[of _ "iq @ post"])
            (use h(1,2) k(1,2) v l okl in simp)
      next
        case False
        have "hd (render l) \<noteq> CHR 0x7B"
          using False okl by (cases l) (auto simp: dq_def lit_ok_def list_all_iff neq_Nil_conv)
        moreover have "mark_last t key ms = None" using False found v Some by (cases l) (auto simp: mark_last_def)
        ultimately show ?thesis using omv b k(3) bl by (simp add: last_object_def)
      qed
    qed
  qed
qed

lemma root_drop:
  assumes "json_ws w0"
  shows "skip_ws (w0 @ render (DObj w ms) @ w1) 0 = length w0"
    and "byte_at (w0 @ render (DObj w ms) @ w1) (length w0) = Some (CHR 0x7B)"
    and "drop (length w0) (w0 @ render (DObj w ms) @ w1) = render (DObj w ms) @ w1"
  using skip_ws_json[of 0 "w0 @ render (DObj w ms) @ w1" w0] assms by (simp_all add: is_ws_def byte_at_def nth_append)

lemma injection_split:
  assumes "doc_ok (DObj w ms)" "json_ws w0"
  shows "case mark_block t ms of
      None \<Rightarrow> injection_point (w0 @ render (DObj w ms) @ w1) = None
    | Some ms' \<Rightarrow> \<exists>u os pre post. render (DObj w ms) = pre @ render (DObj u os) @ post \<and> doc_ok (DObj u os)
        \<and> render (DObj w ms') = pre @ render (mark_object t u os) @ post
        \<and> injection_point (w0 @ render (DObj w ms) @ w1) = Some (length w0 + length pre)"
proof -
  note d = root_drop(3)[OF assms(2), of w ms w1]
  let ?b = "w0 @ render (DObj w ms) @ w1"
  have ip: "injection_point ?b = (case last_object ?b (length w0) ''system'' of
      Some e \<Rightarrow> Some e | None \<Rightarrow> last_object ?b (length w0) ''tools'')"
    by (simp only: injection_point_def Let_def root_drop[OF assms(2)] simp_thms if_False)
  note sy = last_object_drop[where t = t and key = "''system''", OF assms(1) d]
  note to = last_object_drop[where t = t and key = "''tools''", OF assms(1) d]
  show ?thesis
  proof (cases "mark_last t ''system'' ms")
    case None
    then have n: "last_object ?b (length w0) ''system'' = None" using sy unfolding None option.case by blast
    show ?thesis using to unfolding ip mark_block_def None n option.case .
  next
    case (Some ms')
    then obtain u os pre post where "render (DObj w ms) = pre @ render (DObj u os) @ post" "doc_ok (DObj u os)"
      "render (DObj w ms') = pre @ render (mark_object t u os) @ post"
      "last_object ?b (length w0) ''system'' = Some (length w0 + length pre)"
      using sy unfolding Some option.case by blast
    then show ?thesis unfolding ip mark_block_def Some option.case
      by (intro exI[of _ u] exI[of _ os] exI[of _ pre] exI[of _ post] conjI) simp_all
  qed
qed

text \<open>The text of a marked object is that of the object with the marker put behind its brace.\<close>

lemma render_mark_object:
  "render (mark_object t u os) = CHR 0x7B # cache_marker t @ (if os = MNil then [] else '','') @ tl (render (DObj u os))"
  by (simp add: mark_object_def cache_marker_doc)

lemma object_empty_test:
  assumes "drop i b = render (DObj u os) @ y" "json_ws u" "members_ok os"
  shows "(byte_at b (skip_ws b (i + 1)) = Some (CHR 0x7D)) = (os = MNil)"
proof (cases os)
  case MNil
  have "drop i b = CHR 0x7B # u @ CHR 0x7D # y" using assms(1) MNil by simp
  then have d: "drop (i + 1) b = u @ CHR 0x7D # y" using drop_ConsD[of i b] by simp
  then have "skip_ws b (i + 1) = i + 1 + length u" using skip_ws_json[OF d assms(2)] by (simp add: is_ws_def)
  then show ?thesis using byte_at_drop[OF drop_appendD[OF d]] MNil by simp
next
  case (MCons w1 k w2 w3 v w4 ms)
  let ?r = "w2 @ '':'' @ w3 @ render v @ w4 @ (if ms = MNil then [] else '','') @ render_members ms @ ''}'' @ y"
  have "drop i b = CHR 0x7B # w1 @ dq k @ ?r" using assms(1) MCons by simp
  then have d: "drop (i + 1) b = w1 @ CHR 0x22 # k @ [CHR 0x22] @ ?r" using drop_ConsD[of i b] by (simp add: dq_def)
  then have "skip_ws b (i + 1) = i + 1 + length w1" using skip_ws_json[OF d] assms(3) MCons by (simp add: is_ws_def)
  then show ?thesis using byte_at_drop[OF drop_appendD[OF d]] MCons by simp
qed

text \<open>On the text of an object the splice is the tree edit: the marker becomes the first member of the last
  object of \<open>system\<close>, else of \<open>tools\<close>, and nothing else changes.\<close>

lemma splice_marker_doc:
  assumes "doc_ok (DObj w ms)" "json_ws w0"
  shows "splice_marker fj (w0 @ render (DObj w ms) @ w1) t =
    Option.bind (mark_block t ms) (\<lambda>ms'. let out = w0 @ render (DObj w ms') @ w1 in
      if fj out = None then None else Some out)"
proof (cases "mark_block t ms")
  case None
  then show ?thesis using injection_split[where t = t and ?w1.0 = w1, OF assms] by (simp add: splice_marker_def)
next
  case (Some ms')
  let ?b = "w0 @ render (DObj w ms) @ w1"
  obtain u os pre post where h: "render (DObj w ms) = pre @ render (DObj u os) @ post" "doc_ok (DObj u os)"
    "render (DObj w ms') = pre @ render (mark_object t u os) @ post" "injection_point ?b = Some (length w0 + length pre)"
    using injection_split[where t = t and ?w1.0 = w1, OF assms] unfolding Some option.case by blast
  have b: "?b = (w0 @ pre) @ CHR 0x7B # tl (render (DObj u os)) @ post @ w1" using h(1) by simp
  then have d: "drop (length w0 + length pre) ?b = render (DObj u os) @ post @ w1"
    using append_eq_conv_conj[of "w0 @ pre" "CHR 0x7B # tl (render (DObj u os)) @ post @ w1" ?b] by simp
  have e: "(byte_at ?b (skip_ws ?b (length w0 + length pre + 1)) = Some (CHR 0x7D)) = (os = MNil)"
    by (rule object_empty_test[OF d]) (use h(2) in auto)
  have t: "take (length w0 + length pre + 1) ?b = w0 @ pre @ [CHR 0x7B]"
    "drop (length w0 + length pre + 1) ?b = tl (render (DObj u os)) @ post @ w1"
    unfolding b by (simp_all add: take_Cons' drop_Cons')
  show ?thesis
    unfolding splice_marker_def h(4) Some Let_def option.case Option.bind.bind_lunit h(3) render_mark_object e t
    by simp
qed

lemma model_span_doc:
  assumes "doc_ok (DObj w ms)" "json_ws w0"
  shows "case get_member ''model'' ms of
      Some (DStr s) \<Rightarrow> \<exists>pre post. render (DObj w ms) = pre @ dq s @ post
        \<and> (\<forall>d. render (DObj w (set_member ''model'' d ms)) = pre @ render d @ post)
        \<and> model_span (w0 @ render (DObj w ms) @ w1) = Some (length w0 + length pre, length w0 + length pre + length (dq s))
    | _ \<Rightarrow> model_span (w0 @ render (DObj w ms) @ w1) = None"
proof -
  let ?b = "w0 @ render (DObj w ms) @ w1"
  note d = root_drop(3)[OF assms(2), of w ms w1]
  have sp: "model_span ?b = (case member_span ''model'' (length w0 + 1) ms of
      None \<Rightarrow> None
    | Some (vs, ve) \<Rightarrow> if byte_at ?b vs \<noteq> Some (CHR 0x22) then None else Some (vs, ve))"
    unfolding model_span_def Let_def root_drop[OF assms(2)] object_member_drop[OF assms(1) d] by simp
  show ?thesis
  proof (cases "get_member ''model'' ms")
    case None
    then show ?thesis unfolding sp using member_span_None[OF None] by simp
  next
    case (Some v)
    have okv: "doc_ok v" using assms(1) Some by (induction ms rule: members_induct) (auto split: if_splits)
    obtain pre post e where h: "render (DObj w ms) = pre @ render v @ post"
      "\<And>d. render (DObj w (set_member ''model'' d ms)) = pre @ render d @ post"
      "drop (length w0 + length pre) ?b = render v @ post @ w1"
      "member_span ''model'' (length w0 + 1) ms = Some (length w0 + length pre, e)"
      "\<not> is_lit v \<longrightarrow> e = length w0 + length pre + length (render v)"
      using member_offset[OF Some d] by metis
    have b: "byte_at ?b (length w0 + length pre) = Some (hd (render v))"
      using h(3) render_hd[OF okv] byte_at_drop[of "length w0 + length pre" ?b "hd (render v)" "tl (render v) @ post @ w1"] by simp
    show ?thesis
    proof (cases v)
      case (DStr s)
      then have "hd (render v) = CHR 0x22" by (simp add: dq_def)
      with b h(4,5) DStr have "model_span ?b = Some (length w0 + length pre, length w0 + length pre + length (dq s))"
        unfolding sp by simp
      with h(1,2) DStr show ?thesis unfolding Some DStr option.case jdoc.case render.simps by blast
    next
      case (DLit s)
      then have "hd (render v) \<noteq> CHR 0x22" using okv by (auto simp: lit_ok_def list_all_iff neq_Nil_conv)
      then show ?thesis unfolding sp h(4) Some DLit option.case jdoc.case using b DLit by simp
    next
      case (DArr u xs)
      then have "hd (render v) \<noteq> CHR 0x22" by simp
      then show ?thesis unfolding sp h(4) Some DArr option.case jdoc.case using b DArr by simp
    next
      case (DObj u xs)
      then have "hd (render v) \<noteq> CHR 0x22" by simp
      then show ?thesis unfolding sp h(4) Some DObj option.case jdoc.case using b DObj by simp
    qed
  qed
qed

text \<open>The rewrite as an edit of the tree: the string that the first \<open>model\<close> member holds is replaced.\<close>

definition rewrite_members ::
  "(bytes \<Rightarrow> json option) \<Rightarrow> (string \<Rightarrow> bytes) \<Rightarrow> bytes \<Rightarrow> bytes \<Rightarrow> jmembers \<Rightarrow> bytes \<Rightarrow> string btmap \<Rightarrow> model_rewrite option" where
  "rewrite_members fj esc w0 w ms w1 m =
     Option.bind (parse_model fj (w0 @ render (DObj w ms) @ w1)) (\<lambda>from.
     Option.bind (btm_get m from) (\<lambda>to.
       case get_member ''model'' ms of
         Some (DStr _) \<Rightarrow>
           (let out = w0 @ render (DObj w (set_member ''model'' (DStr (esc to)) ms)) @ w1 in
            if to \<noteq> from \<and> parse_model fj out = Some to then Some \<lparr>rw_body = out, rw_from = from, rw_to = to\<rparr> else None)
       | _ \<Rightarrow> None))"

lemma rewrite_model_at:
  assumes "model_span body = Some (length a, length a + length v)" "body = a @ v @ z"
  shows "rewrite_model fj (\<lambda>s. Some (dq (esc s))) body m =
    Option.bind (parse_model fj body) (\<lambda>from. Option.bind (btm_get m from) (\<lambda>to.
      let out = a @ dq (esc to) @ z in
      if to \<noteq> from \<and> parse_model fj out = Some to then Some \<lparr>rw_body = out, rw_from = from, rw_to = to\<rparr> else None))"
  unfolding rewrite_model_def assms(1) Option.bind.bind_lunit prod.case
  by (rule Option.bind_cong[OF refl], rule Option.bind_cong[OF refl]) (auto simp: assms(2) Let_def)

lemma rewrite_model_doc:
  assumes "doc_ok (DObj w ms)" "json_ws w0"
  shows "rewrite_model fj (\<lambda>s. Some (dq (esc s))) (w0 @ render (DObj w ms) @ w1) m = rewrite_members fj esc w0 w ms w1 m"
proof (cases "\<exists>s. get_member ''model'' ms = Some (DStr s)")
  case False
  have "model_span (w0 @ render (DObj w ms) @ w1) = None"
    using model_span_doc[where ?w1.0 = w1, OF assms] False by (auto simp del: render.simps split: option.splits jdoc.splits)
  moreover have "(case get_member ''model'' ms of Some (DStr s) \<Rightarrow> f s | _ \<Rightarrow> None) = None" for f :: "bytes \<Rightarrow> model_rewrite option"
    using False by (auto split: option.splits jdoc.splits)
  ultimately show ?thesis
    by (simp add: rewrite_model_def rewrite_members_def split: Option.bind_split del: render.simps)
next
  case True
  then obtain s where s: "get_member ''model'' ms = Some (DStr s)" by blast
  then obtain pre post where h: "render (DObj w ms) = pre @ dq s @ post"
    "\<And>d. render (DObj w (set_member ''model'' d ms)) = pre @ render d @ post"
    "model_span (w0 @ render (DObj w ms) @ w1) = Some (length w0 + length pre, length w0 + length pre + length (dq s))"
    using model_span_doc[where ?w1.0 = w1, OF assms] unfolding s option.case jdoc.case by blast
  have "model_span (w0 @ render (DObj w ms) @ w1) = Some (length (w0 @ pre), length (w0 @ pre) + length (dq s))"
    using h(3) by simp
  note at = rewrite_model_at[OF this, where z = "post @ w1"]
  show ?thesis
    unfolding rewrite_members_def s option.case jdoc.case h(2) render.simps(1)
    by (subst at) (simp_all add: h(1) del: render.simps)
qed

lemma rewrite_model_Some:
  assumes "rewrite_model fj tj body m = Some rw"
  shows "parse_model fj body = Some (rw_from rw) \<and> btm_get m (rw_from rw) = Some (rw_to rw) \<and> rw_to rw \<noteq> rw_from rw
    \<and> parse_model fj (rw_body rw) = Some (rw_to rw)"
  using assms by (auto simp: rewrite_model_def Let_def bind_eq_Some_conv split: if_splits)

section \<open>Claims\<close>

text \<open>C32: on the text of any JSON object, with any white space, the byte-level model rewrite is exactly the
  tree edit: it replaces the string of the first top-level \<open>model\<close> member and no other byte, and does so
  exactly when the body parses to a mapped model and the edited body parses back to the mapped target.\<close>

theorem rewrite_model_exact:
  assumes "doc_ok (DObj w ms)" and "json_ws w0"
  shows "rewrite_model fj (\<lambda>s. Some (dq (esc s))) (w0 @ render (DObj w ms) @ w1) m = rewrite_members fj esc w0 w ms w1 m"
  using assms by (rule rewrite_model_doc)

definition demo_members :: jmembers where
  "demo_members = MCons [CHR 0x20] ''max_tokens'' [] [] (DLit ''64'') [CHR 0x20]
     (MCons [] ''model'' [] [CHR 0x20] (DStr ''big'') []
     (MCons [] ''system'' [] [] (DArr [] (ICons [] (DObj [] (MCons [] ''text'' [] [] (DStr ''a]}'') [] MNil)) [CHR 0x20] INil)) [] MNil))"

definition demo_json :: "bytes \<Rightarrow> json option" where
  "demo_json b = Some (JObj [(''model'', JStr (if str_contains b ''big'' then ''big'' else ''small''))])"

theorem rewrite_model_exact_witness:
  "doc_ok (DObj [] demo_members) \<and> json_ws []
   \<and> rewrite_model demo_json (\<lambda>s. Some (dq s)) (render (DObj [] demo_members)) [(''big'', ''small'')]
     = Some \<lparr>rw_body = render (DObj [] (set_member ''model'' (DStr ''small'') demo_members)), rw_from = ''big'', rw_to = ''small''\<rparr>"
proof -
  have ok: "doc_ok (DObj [] demo_members)" "json_ws []" by code_simp+
  have "rewrite_members demo_json (\<lambda>s. s) [] [] demo_members [] [(''big'', ''small'')]
    = Some \<lparr>rw_body = render (DObj [] (set_member ''model'' (DStr ''small'') demo_members)), rw_from = ''big'', rw_to = ''small''\<rparr>"
    by code_simp
  with rewrite_model_exact[OF ok, of demo_json "\<lambda>s. s" "[]" "[(''big'', ''small'')]"] ok show ?thesis by simp
qed

text \<open>C31: on the text of any JSON object, the cache-marker splice makes the marker the first member of the last
  object in \<open>system\<close> (else in \<open>tools\<close>), changes nothing else, and happens exactly when there is such an
  object and the edited body still parses.\<close>

theorem splice_marker_exact:
  assumes "doc_ok (DObj w ms)" and "json_ws w0"
  shows "splice_marker fj (w0 @ render (DObj w ms) @ w1) t =
    Option.bind (mark_block t ms) (\<lambda>ms'. let out = w0 @ render (DObj w ms') @ w1 in
      if fj out = None then None else Some out)"
  using assms by (rule splice_marker_doc)

theorem splice_marker_exact_witness:
  "doc_ok (DObj [] demo_members) \<and> json_ws [CHR 0x0A]
   \<and> splice_marker demo_json ([CHR 0x0A] @ render (DObj [] demo_members)) True \<noteq> None"
proof -
  have ok: "doc_ok (DObj [] demo_members)" "json_ws [CHR 0x0A]" by code_simp+
  have "mark_block True demo_members \<noteq> None" by code_simp
  then show ?thesis using splice_marker_exact[OF ok, of demo_json "[]" True] ok by (auto simp: Let_def demo_json_def)
qed

end
