(* ===== verification/Cache.thy ===== *)
theory Cache
  imports Json_Scan Merge Vault
begin

text \<open>
  The prompt-cache doctor of \<^verbatim>\<open>src/src/cache.rs\<close>: the canonical prefix of a Messages request, the
  comparison with the previous request for the same host and model, the hygiene counters, the repair
  plan, and the merge of a session's counters into the shared file. \<open>from_json\<close> and \<open>to_vec\<close> are
  \<open>serde_json\<close>'s parser and printer; the clock and the billing period are arguments. Counters wrap as
  \<open>u64\<close>; lengths and offsets are naturals, since a diagnosed body has at most 4 MiB.
\<close>

section \<open>Data\<close>

definition CACHE_TTL_SECS :: u64 where "CACHE_TTL_SECS = 300"
definition MIN_CACHEABLE_TOKENS :: nat where "MIN_CACHEABLE_TOKENS = 1024"
definition MIN_CACHEABLE_TOKENS_HAIKU :: nat where "MIN_CACHEABLE_TOKENS_HAIKU = 2048"
definition BYTES_PER_TOKEN :: nat where "BYTES_PER_TOKEN = 4"
definition OBSERVE_CAP :: nat where "OBSERVE_CAP = 4 * 2 ^ 20"
definition PREFIX_CAP :: nat where "PREFIX_CAP = 2 ^ 20"
definition MAX_KEYS :: nat where "MAX_KEYS = 32"
definition REPAIR_MIN_REPEATS :: u32 where "REPAIR_MIN_REPEATS = 1"

record divergence =
  dv_offset :: u64
  dv_section :: string
  dv_gap_secs :: u64
  dv_ts :: string

record key_stats =
  ks_requests :: u64
  ks_marked :: u64
  ks_preserved :: u64
  ks_ttl_gaps :: u64
  ks_resets :: u64
  ks_diverged :: u64
  ks_below_min :: u64
  ks_repairable :: u64
  ks_repairable_bytes :: u64
  ks_repaired :: u64
  ks_last_divergence :: "divergence option"

definition key_stats_default :: key_stats where
  "key_stats_default = \<lparr>ks_requests = 0, ks_marked = 0, ks_preserved = 0, ks_ttl_gaps = 0, ks_resets = 0,
     ks_diverged = 0, ks_below_min = 0, ks_repairable = 0, ks_repairable_bytes = 0, ks_repaired = 0,
     ks_last_divergence = None\<rparr>"

definition repairable_waste_usd :: "u64 \<Rightarrow> model_rate \<Rightarrow> usd" where
  "repairable_waste_usd repairable_bytes rate =
     real (unat repairable_bytes div BYTES_PER_TOKEN) * max (mr_input rate - mr_cache_read rate) 0 / 1000000"

text \<open>\<open>KeyStats::merge\<close> folds \<open>other\<close> into the entry.\<close>

definition later_divergence :: "divergence option \<Rightarrow> divergence option \<Rightarrow> divergence option" where
  "later_divergence mine other = (case other of
     None \<Rightarrow> mine
   | Some b \<Rightarrow> (case mine of None \<Rightarrow> Some b | Some a \<Rightarrow> if dv_ts b \<ge> dv_ts a then Some b else Some a))"

definition merge_stats :: "key_stats \<Rightarrow> key_stats \<Rightarrow> key_stats" where
  "merge_stats other s = \<lparr>ks_requests = ks_requests s + ks_requests other, ks_marked = ks_marked s + ks_marked other,
     ks_preserved = ks_preserved s + ks_preserved other, ks_ttl_gaps = ks_ttl_gaps s + ks_ttl_gaps other,
     ks_resets = ks_resets s + ks_resets other, ks_diverged = ks_diverged s + ks_diverged other,
     ks_below_min = ks_below_min s + ks_below_min other, ks_repairable = ks_repairable s + ks_repairable other,
     ks_repairable_bytes = ks_repairable_bytes s + ks_repairable_bytes other,
     ks_repaired = ks_repaired s + ks_repaired other,
     ks_last_divergence = later_divergence (ks_last_divergence s) (ks_last_divergence other)\<rparr>"

record cache_stats =
  cs_period :: string
  cs_per_key :: "key_stats btmap"

definition cache_stats_default :: cache_stats where
  "cache_stats_default = \<lparr>cs_period = [], cs_per_key = []\<rparr>"

text \<open>\<open>cache.json\<close>: absent, present but not parseable, or the saved state.\<close>

datatype cache_file = NoCacheFile | GarbledCache | SavedCache cache_stats

definition load_cache :: "cache_file \<Rightarrow> cache_stats" where
  "load_cache f = (case f of SavedCache c \<Rightarrow> c | _ \<Rightarrow> cache_stats_default)"

definition cs_roll_period :: "string \<Rightarrow> cache_stats \<Rightarrow> cache_stats" where
  "cs_roll_period now_period c =
     (if cs_period c \<noteq> now_period then \<lparr>cs_period = now_period, cs_per_key = []\<rparr> else c)"

record prev_request =
  pq_prefix :: bytes
  pq_seen_unix :: u64
  pq_truncated :: bool
  pq_cacheable :: bytes
  pq_streak :: u32
  pq_gaps_total :: u32
  pq_gaps_over_ttl :: u32

record repair_plan =
  rp_ttl_1h :: bool
  rp_section :: string

record doctor =
  dr_prev :: "prev_request btmap"
  dr_delta :: cache_stats

definition doctor_default :: doctor where
  "doctor_default = \<lparr>dr_prev = [], dr_delta = cache_stats_default\<rparr>"

record observation =
  ob_model :: string
  ob_repair :: "repair_plan option"

section \<open>The canonical prefix\<close>

record canonical =
  cn_prefix :: bytes
  cn_sections :: "(string \<times> nat) list"
  cn_markers :: u64
  cn_truncated :: bool

lemma json_child_size: "(k, c) \<in> set m \<Longrightarrow> size c < size (JObj m)"
  by (induction m) auto

text \<open>\<open>strip_markers\<close>: the value without its \<open>cache_control\<close> members, and how many there were.\<close>

function strip_markers :: "json \<Rightarrow> json \<times> u64" where
  "strip_markers v = (case v of
     JObj m \<Rightarrow>
       (let rest = filter (\<lambda>(k, _). k \<noteq> ''cache_control'') m;
            kids = map (\<lambda>(k, c). (k, strip_markers c)) rest
        in (JObj (map (\<lambda>(k, r). (k, fst r)) kids),
            (if list_ex (\<lambda>(k, _). k = ''cache_control'') m then 1 else 0) + sum_list (map (\<lambda>(_, r). snd r) kids)))
   | JArr items \<Rightarrow>
       (let kids = map strip_markers items in (JArr (map fst kids), sum_list (map snd kids)))
   | _ \<Rightarrow> (v, 0))"
  by pat_completeness auto

termination
  by (relation "measure size") (auto dest: json_child_size simp: less_Suc_eq_le size_list_estimation')

declare strip_markers.simps [simp del]

text \<open>The closure \<open>push\<close> of \<open>canonicalize\<close>.\<close>

definition push_section :: "(json \<Rightarrow> bytes) \<Rightarrow> string \<Rightarrow> json \<Rightarrow> canonical \<Rightarrow> canonical" where
  "push_section to_vec label v cn =
     (if length (cn_prefix cn) > PREFIX_CAP then cn\<lparr>cn_truncated := True\<rparr>
      else (let (v', n) = strip_markers v in
        cn\<lparr>cn_markers := cn_markers cn + n,
           cn_sections := cn_sections cn @ [(label, length (cn_prefix cn))],
           cn_prefix := cn_prefix cn @ to_vec v' @ [CHR 0x1F]\<rparr>))"

definition indexed_label :: "string \<Rightarrow> nat \<Rightarrow> string" where
  "indexed_label name i = name @ ''['' @ show_nat i @ '']''"

definition labelled :: "string \<Rightarrow> json list \<Rightarrow> (string \<times> json) list" where
  "labelled name vs = map (\<lambda>(i, v). (indexed_label name i, v)) (enumerate 0 vs)"

definition json_as_array :: "json \<Rightarrow> json list option" where
  "json_as_array v = (case v of JArr xs \<Rightarrow> Some xs | _ \<Rightarrow> None)"

text \<open>The sections in provider cache order: tools, system, messages.\<close>

definition request_sections :: "json \<Rightarrow> (string \<times> json) list" where
  "request_sections req =
     (case Option.bind (json_get req ''tools'') json_as_array of Some ts \<Rightarrow> labelled ''tools'' ts | None \<Rightarrow> [])
     @ (case json_get req ''system'' of
          Some (JArr blocks) \<Rightarrow> labelled ''system'' blocks
        | Some v \<Rightarrow> if v = JNull then [] else [(''system'', v)]
        | None \<Rightarrow> [])
     @ (case Option.bind (json_get req ''messages'') json_as_array of Some ms \<Rightarrow> labelled ''messages'' ms | None \<Rightarrow> [])"

definition canonicalize :: "(json \<Rightarrow> bytes) \<Rightarrow> json \<Rightarrow> canonical" where
  "canonicalize to_vec req =
     fold (\<lambda>(label, v). push_section to_vec label v) (request_sections req)
       \<lparr>cn_prefix = [], cn_sections = [], cn_markers = 0, cn_truncated = False\<rparr>"

fun first_mismatch :: "bytes \<Rightarrow> bytes \<Rightarrow> nat option" where
  "first_mismatch (a # p) (b # c) = (if a \<noteq> b then Some 0 else map_option Suc (first_mismatch p c))"
| "first_mismatch _ _ = None"

definition section_at :: "(string \<times> nat) list \<Rightarrow> nat \<Rightarrow> string" where
  "section_at sections offset =
     (case find (\<lambda>(_, start). start \<le> offset) (rev sections) of Some (label, _) \<Rightarrow> label | None \<Rightarrow> ''(unknown)'')"

definition messages_start :: "(string \<times> nat) list \<Rightarrow> nat option" where
  "messages_start sections =
     map_option snd (find (\<lambda>(label, _). starts_with label ''messages['') sections)"

definition cacheable_cut :: "canonical \<Rightarrow> nat" where
  "cacheable_cut cn = (case messages_start (cn_sections cn) of Some s \<Rightarrow> s | None \<Rightarrow> length (cn_prefix cn))"

definition cacheable_region :: "canonical \<Rightarrow> bytes" where
  "cacheable_region cn = take (min (cacheable_cut cn) (length (cn_prefix cn))) (cn_prefix cn)"

section \<open>The doctor\<close>

definition saturating_add :: "'a::len word \<Rightarrow> 'a word \<Rightarrow> 'a word" where
  "saturating_add a b = (if unat a + unat b \<ge> 2 ^ LENGTH('a) then - 1 else a + b)"

definition min_tokens :: "string \<Rightarrow> nat" where
  "min_tokens model = (if str_contains model ''haiku'' then MIN_CACHEABLE_TOKENS_HAIKU else MIN_CACHEABLE_TOKENS)"

definition cacheable_ok :: "string \<Rightarrow> bytes \<Rightarrow> bool" where
  "cacheable_ok model cacheable \<longleftrightarrow> length cacheable div BYTES_PER_TOKEN \<ge> min_tokens model"

text \<open>The streak and gap counters carried over from the previous request.\<close>

definition carry_streak :: "u64 \<Rightarrow> bool \<Rightarrow> bytes \<Rightarrow> prev_request option \<Rightarrow> u32 \<times> u32 \<times> u32" where
  "carry_streak now_unix ok cacheable prev = (case prev of
     None \<Rightarrow> (0, 0, 0)
   | Some p \<Rightarrow>
       if ok \<and> pq_cacheable p = cacheable then
         (saturating_add (pq_streak p) 1, saturating_add (pq_gaps_total p) 1,
          if saturating_sub now_unix (pq_seen_unix p) > CACHE_TTL_SECS
          then saturating_add (pq_gaps_over_ttl p) 1 else pq_gaps_over_ttl p)
       else (0, 0, 0))"

text \<open>The comparison with the previous request.\<close>

definition compare_prev :: "u64 \<Rightarrow> string \<Rightarrow> canonical \<Rightarrow> prev_request option \<Rightarrow> key_stats \<Rightarrow> key_stats" where
  "compare_prev now_unix ts cn prev s = (case prev of
     None \<Rightarrow> s
   | Some p \<Rightarrow>
       (let gap = saturating_sub now_unix (pq_seen_unix p) in
        case first_mismatch (pq_prefix p) (cn_prefix cn) of
          None \<Rightarrow>
            (let s1 = s\<lparr>ks_preserved := ks_preserved s + 1\<rparr> in
             if pq_truncated p \<or> cn_truncated cn then s1
             else if gap > CACHE_TTL_SECS then s1\<lparr>ks_ttl_gaps := ks_ttl_gaps s1 + 1\<rparr> else s1)
        | Some offset \<Rightarrow>
            (let sec = section_at (cn_sections cn) offset in
             if sec = ''messages[0]'' then s\<lparr>ks_resets := ks_resets s + 1\<rparr>
             else s\<lparr>ks_diverged := ks_diverged s + 1,
                    ks_last_divergence := Some \<lparr>dv_offset = word_of_nat offset, dv_section = sec,
                      dv_gap_secs = gap, dv_ts = ts\<rparr>\<rparr>)))"

definition repair_for :: "canonical \<Rightarrow> bool \<Rightarrow> u32 \<times> u32 \<times> u32 \<Rightarrow> repair_plan option" where
  "repair_for cn ok sgo = (case sgo of (streak, gaps_total, gaps_over_ttl) \<Rightarrow>
     if cn_markers cn = 0 \<and> ok \<and> streak \<ge> REPAIR_MIN_REPEATS then
       Some \<lparr>rp_ttl_1h = (gaps_total > 0 \<and> gaps_over_ttl * 2 \<ge> gaps_total),
             rp_section = section_at (cn_sections cn) (cacheable_cut cn - 1)\<rparr>
     else None)"

text \<open>The counters one request adds to its key.\<close>

definition count_request ::
  "u64 \<Rightarrow> string \<Rightarrow> string \<Rightarrow> canonical \<Rightarrow> prev_request option \<Rightarrow> repair_plan option \<Rightarrow> key_stats \<Rightarrow> key_stats" where
  "count_request now_unix ts model cn prev plan s =
     (let s1 = s\<lparr>ks_requests := ks_requests s + 1\<rparr>;
          s2 = (if cn_markers cn > 0 then s1\<lparr>ks_marked := ks_marked s1 + 1\<rparr> else s1);
          s3 = (if length (cn_prefix cn) div BYTES_PER_TOKEN < min_tokens model
                then s2\<lparr>ks_below_min := ks_below_min s2 + 1\<rparr> else s2);
          s4 = compare_prev now_unix ts cn prev s3
      in case plan of
           None \<Rightarrow> s4
         | Some _ \<Rightarrow> s4\<lparr>ks_repairable := ks_repairable s4 + 1,
             ks_repairable_bytes := ks_repairable_bytes s4 + word_of_nat (length (cacheable_region cn))\<rparr>)"

text \<open>\<open>min_by_key\<close> over the time last seen: the first of the oldest.\<close>

fun oldest :: "prev_request btmap \<Rightarrow> (string \<times> prev_request) option" where
  "oldest [] = None"
| "oldest (p # m) = (case oldest m of
     None \<Rightarrow> Some p
   | Some q \<Rightarrow> if pq_seen_unix (snd q) < pq_seen_unix (snd p) then Some q else Some p)"

definition remember :: "string \<Rightarrow> canonical \<Rightarrow> bytes \<Rightarrow> u32 \<times> u32 \<times> u32 \<Rightarrow> u64 \<Rightarrow> doctor \<Rightarrow> doctor" where
  "remember key cn cacheable sgo now_unix d =
     (let prev = dr_prev d;
          prev1 = (if length prev \<ge> MAX_KEYS \<and> btm_get prev key = None
                   then (case oldest prev of Some (k, _) \<Rightarrow> btm_remove k prev | None \<Rightarrow> prev) else prev)
      in case sgo of (streak, gaps_total, gaps_over_ttl) \<Rightarrow>
        d\<lparr>dr_prev := btm_insert key
            \<lparr>pq_prefix = take PREFIX_CAP (cn_prefix cn), pq_seen_unix = now_unix,
             pq_truncated = (cn_truncated cn \<or> length (cn_prefix cn) > PREFIX_CAP),
             pq_cacheable = cacheable, pq_streak = streak, pq_gaps_total = gaps_total,
             pq_gaps_over_ttl = gaps_over_ttl\<rparr> prev1\<rparr>)"

definition cache_key :: "string \<Rightarrow> string \<Rightarrow> string" where
  "cache_key host model = host @ '' '' @ model"

text \<open>The Messages shape: a string \<open>model\<close> and an array \<open>messages\<close>.\<close>

definition messages_request :: "(bytes \<Rightarrow> json option) \<Rightarrow> bytes \<Rightarrow> (string \<times> json) option" where
  "messages_request from_json body =
     (if length body > OBSERVE_CAP then None
      else Option.bind (from_json body) (\<lambda>req.
        Option.bind (Option.bind (json_get req ''model'') json_as_str) (\<lambda>model.
        Option.bind (Option.bind (json_get req ''messages'') json_as_array) (\<lambda>_. Some (model, req)))))"

definition doctor_observe ::
  "(bytes \<Rightarrow> json option) \<Rightarrow> (json \<Rightarrow> bytes) \<Rightarrow> string \<Rightarrow> string \<Rightarrow> string \<Rightarrow> bytes \<Rightarrow> u64 \<Rightarrow> doctor
   \<Rightarrow> doctor \<times> observation option" where
  "doctor_observe from_json to_vec now_period ts host body now_unix d =
     (case messages_request from_json body of
        None \<Rightarrow> (d, None)
      | Some (model, req) \<Rightarrow>
          (let cn = canonicalize to_vec req;
               key = cache_key host model;
               delta = cs_roll_period now_period (dr_delta d);
               prev = btm_get (dr_prev d) key;
               cacheable = cacheable_region cn;
               ok = cacheable_ok model cacheable;
               sgo = carry_streak now_unix ok cacheable prev;
               plan = repair_for cn ok sgo;
               delta' = delta\<lparr>cs_per_key := btm_upsert key_stats_default key
                 (count_request now_unix ts model cn prev plan) (cs_per_key delta)\<rparr>
           in (remember key cn cacheable sgo now_unix (d\<lparr>dr_delta := delta'\<rparr>),
               Some \<lparr>ob_model = model, ob_repair = plan\<rparr>)))"

definition warm_prefix_bytes :: "string \<Rightarrow> string \<Rightarrow> u64 \<Rightarrow> doctor \<Rightarrow> u64 option" where
  "warm_prefix_bytes host model now_unix d =
     (case btm_get (dr_prev d) (cache_key host model) of
        None \<Rightarrow> None
      | Some p \<Rightarrow>
          if pq_cacheable p = [] \<or> saturating_sub now_unix (pq_seen_unix p) > CACHE_TTL_SECS then None
          else Some (word_of_nat (length (pq_cacheable p))))"

definition note_repaired :: "string \<Rightarrow> string \<Rightarrow> string \<Rightarrow> doctor \<Rightarrow> doctor" where
  "note_repaired now_period host model d =
     (let delta = cs_roll_period now_period (dr_delta d) in
      d\<lparr>dr_delta := delta\<lparr>cs_per_key := btm_upsert key_stats_default (cache_key host model)
          (\<lambda>s. s\<lparr>ks_repaired := ks_repaired s + 1\<rparr>) (cs_per_key delta)\<rparr>\<rparr>)"

text \<open>\<open>flush\<close>: \<open>io\<close> says whether the lock, the read and the write succeed.\<close>

datatype cache_io = CacheLockFails | CacheReadFails | CacheSaveFails | CacheFlushOk

definition doctor_flush :: "cache_io \<Rightarrow> string \<Rightarrow> cache_file \<Rightarrow> doctor \<Rightarrow> cache_file \<times> doctor \<times> bool" where
  "doctor_flush io now_period f d =
     (let delta = cs_roll_period now_period (dr_delta d); d1 = d\<lparr>dr_delta := delta\<rparr> in
      if cs_per_key delta = [] then (f, d1, True)
      else (case io of
          CacheFlushOk \<Rightarrow>
            (let disk = cs_roll_period now_period (load_cache f);
                 disk' = disk\<lparr>cs_per_key := fold (\<lambda>(k, s). btm_upsert key_stats_default k (merge_stats s))
                   (cs_per_key delta) (cs_per_key disk)\<rparr>
             in (SavedCache disk', d1\<lparr>dr_delta := delta\<lparr>cs_per_key := []\<rparr>\<rparr>, True))
        | _ \<Rightarrow> (f, d1, False)))"

text \<open>The identity of a cacheable prefix for the fan-out gate.\<close>

definition cacheable_key ::
  "crypto \<Rightarrow> (bytes \<Rightarrow> json option) \<Rightarrow> (json \<Rightarrow> bytes) \<Rightarrow> string \<Rightarrow> string \<Rightarrow> bytes \<Rightarrow> string option" where
  "cacheable_key cr from_json to_vec host model body =
     Option.bind (from_json body) (\<lambda>req.
     Option.bind (Option.bind (json_get req ''messages'') json_as_array) (\<lambda>_.
       Some (host @ '' '' @ model @ '' '' @ hex_encode cr (sha256 cr (cacheable_region (canonicalize to_vec req))))))"

section \<open>Markers are invisible\<close>

lemma strip_JObj:
  "strip_markers (JObj m) =
    (JObj (map (\<lambda>(k, c). (k, fst (strip_markers c))) (filter (\<lambda>(k, _). k \<noteq> ''cache_control'') m)),
     (if list_ex (\<lambda>(k, _). k = ''cache_control'') m then 1 else 0)
       + sum_list (map (\<lambda>(_, c). snd (strip_markers c)) (filter (\<lambda>(k, _). k \<noteq> ''cache_control'') m)))"
  by (subst strip_markers.simps) (simp add: Let_def split_def comp_def)

lemma strip_JArr: "strip_markers (JArr xs) = (JArr (map (\<lambda>c. fst (strip_markers c)) xs), sum_list (map (\<lambda>c. snd (strip_markers c)) xs))"
  by (subst strip_markers.simps) (simp add: Let_def comp_def)

lemma strip_atom [simp]:
  "strip_markers JNull = (JNull, 0)" "strip_markers (JBool b) = (JBool b, 0)" "strip_markers (JPos n) = (JPos n, 0)"
  "strip_markers (JNeg i) = (JNeg i, 0)" "strip_markers (JFloat r) = (JFloat r, 0)" "strip_markers (JStr s) = (JStr s, 0)"
  by (subst strip_markers.simps, simp)+

lemma json_induct [case_names Arr Obj Atom]:
  assumes "\<And>xs. (\<And>c. c \<in> set xs \<Longrightarrow> P c) \<Longrightarrow> P (JArr xs)"
    and "\<And>m. (\<And>k c. (k, c) \<in> set m \<Longrightarrow> P c) \<Longrightarrow> P (JObj m)"
    and "\<And>v. strip_markers v = (v, 0) \<Longrightarrow> \<forall>xs. v \<noteq> JArr xs \<Longrightarrow> \<forall>m. v \<noteq> JObj m \<Longrightarrow> P v"
  shows "P v"
proof (induction v)
  case (JObj m)
  then show ?case by (intro assms(2)) (auto simp: snds.simps)
qed (auto intro: assms)

text \<open>Stripping twice is stripping once, and nothing is left to count.\<close>

lemma strip_idem: "strip_markers (fst (strip_markers v)) = (fst (strip_markers v), 0)"
proof (induction v rule: json_induct)
  case (Arr xs)
  then show ?case by (simp add: strip_JArr comp_def cong: map_cong)
next
  case (Obj m)
  have "filter (\<lambda>(k, _). k \<noteq> ''cache_control'') (map (\<lambda>(k, c). (k, fst (strip_markers c))) (filter (\<lambda>(k, _). k \<noteq> ''cache_control'') m))
    = map (\<lambda>(k, c). (k, fst (strip_markers c))) (filter (\<lambda>(k, _). k \<noteq> ''cache_control'') m)"
    by (induction m) auto
  moreover have "\<not> list_ex (\<lambda>(k, _). k = ''cache_control'') (map (\<lambda>(k, c). (k, fst (strip_markers c))) (filter (\<lambda>(k, _). k \<noteq> ''cache_control'') m))"
    by (induction m) auto
  moreover have "map (\<lambda>(k, c). (k, fst (strip_markers (fst (strip_markers c))))) (filter (\<lambda>(k, _). k \<noteq> ''cache_control'') m)
    = map (\<lambda>(k, c). (k, fst (strip_markers c))) (filter (\<lambda>(k, _). k \<noteq> ''cache_control'') m)"
    using Obj by (auto intro!: map_cong)
  moreover have z: "map (\<lambda>p. snd (strip_markers (fst (strip_markers (snd p))))) (filter (\<lambda>p. fst p \<noteq> ''cache_control'') m)
    = map (\<lambda>_. 0) (filter (\<lambda>p. fst p \<noteq> ''cache_control'') m)"
    using Obj by (auto intro!: map_cong)
  have "sum_list (map (\<lambda>p. snd (strip_markers (fst (strip_markers (snd p))))) (filter (\<lambda>p. fst p \<noteq> ''cache_control'') m)) = 0"
    unfolding z by simp
  ultimately show ?case by (simp add: strip_JObj comp_def split_def)
qed simp

lemma json_get_strip:
  "k \<noteq> ''cache_control'' \<Longrightarrow> json_get (fst (strip_markers v)) k = map_option (\<lambda>c. fst (strip_markers c)) (json_get v k)"
proof (cases v)
  case (JObj m)
  assume "k \<noteq> ''cache_control''"
  then have "map_of (map (\<lambda>(k, c). (k, fst (strip_markers c))) (filter (\<lambda>(k, _). k \<noteq> ''cache_control'') m)) k
      = map_option (\<lambda>c. fst (strip_markers c)) (map_of m k)"
    by (induction m) auto
  with JObj show ?thesis by (simp add: json_get_def strip_JObj)
qed (simp_all add: json_get_def strip_JArr)

lemma json_as_array_strip: "json_as_array (fst (strip_markers v)) = map_option (map (\<lambda>c. fst (strip_markers c))) (json_as_array v)"
  by (cases v) (simp_all add: json_as_array_def strip_JArr strip_JObj)

lemma labelled_map: "labelled name (map f vs) = map (\<lambda>(l, v). (l, f v)) (labelled name vs)"
  by (simp add: labelled_def enumerate_eq_zip zip_map2 split_def comp_def)

lemma request_sections_strip:
  "request_sections (fst (strip_markers v)) = map (\<lambda>(l, c). (l, fst (strip_markers c))) (request_sections v)"
proof -
  have arr: "(case Option.bind (json_get (fst (strip_markers v)) k) json_as_array of Some ts \<Rightarrow> labelled n ts | None \<Rightarrow> [])
      = map (\<lambda>(l, c). (l, fst (strip_markers c))) (case Option.bind (json_get v k) json_as_array of Some ts \<Rightarrow> labelled n ts | None \<Rightarrow> [])"
    if "k \<noteq> ''cache_control''" for k n
    using that by (cases "json_get v k") (auto simp: json_get_strip json_as_array_strip labelled_map split: option.splits)
  have sys: "(case json_get (fst (strip_markers v)) ''system'' of Some (JArr blocks) \<Rightarrow> labelled ''system'' blocks
        | Some w \<Rightarrow> if w = JNull then [] else [(''system'', w)] | None \<Rightarrow> [])
      = map (\<lambda>(l, c). (l, fst (strip_markers c))) (case json_get v ''system'' of Some (JArr blocks) \<Rightarrow> labelled ''system'' blocks
        | Some w \<Rightarrow> if w = JNull then [] else [(''system'', w)] | None \<Rightarrow> [])"
  proof (cases "json_get v ''system''")
    case (Some w)
    then show ?thesis by (cases w) (simp_all add: json_get_strip strip_JArr strip_JObj labelled_map)
  qed (simp add: json_get_strip)
  show ?thesis unfolding request_sections_def map_append arr[of "''tools''" "''tools''", simplified] sys
    arr[of "''messages''" "''messages''", simplified] by simp
qed

lemma fold_push_strip:
  assumes "cn_prefix a = cn_prefix b" "cn_sections a = cn_sections b" "cn_truncated a = cn_truncated b" "cn_markers a = 0"
  shows "fold (\<lambda>(l, v). push_section tv l v) (map (\<lambda>(l, c). (l, fst (strip_markers c))) ss) a =
     (fold (\<lambda>(l, v). push_section tv l v) ss b)\<lparr>cn_markers := 0\<rparr>"
  using assms
proof (induction ss arbitrary: a b)
  case Nil
  then show ?case by (cases a; cases b) simp
next
  case (Cons p ss)
  obtain l v where p: "p = (l, v)" by fastforce
  have "fold (\<lambda>(l, v). push_section tv l v) (map (\<lambda>(l, c). (l, fst (strip_markers c))) ss) (push_section tv l (fst (strip_markers v)) a)
    = (fold (\<lambda>(l, v). push_section tv l v) ss (push_section tv l v b))\<lparr>cn_markers := 0\<rparr>"
    by (rule Cons.IH) (use Cons.prems strip_idem[of v] in \<open>auto simp: push_section_def Let_def split_def\<close>)
  then show ?case using p by simp
qed

lemma canonicalize_strip: "canonicalize tv (fst (strip_markers v)) = (canonicalize tv v)\<lparr>cn_markers := 0\<rparr>"
  unfolding canonicalize_def request_sections_strip by (rule fold_push_strip) simp_all

lemma canonicalize_same:
  assumes "fst (strip_markers v) = fst (strip_markers w)"
  shows "cn_prefix (canonicalize tv v) = cn_prefix (canonicalize tv w)
    \<and> cn_sections (canonicalize tv v) = cn_sections (canonicalize tv w)
    \<and> cn_truncated (canonicalize tv v) = cn_truncated (canonicalize tv w)"
proof -
  have "(canonicalize tv v)\<lparr>cn_markers := 0\<rparr> = (canonicalize tv w)\<lparr>cn_markers := 0\<rparr>"
    using canonicalize_strip[of tv v] canonicalize_strip[of tv w] assms by simp
  then show ?thesis by (cases "canonicalize tv v"; cases "canonicalize tv w") simp
qed

section \<open>The doctor's memory\<close>

definition prev_ok :: "prev_request \<Rightarrow> bool" where
  "prev_ok p \<longleftrightarrow> length (pq_prefix p) \<le> PREFIX_CAP \<and> pq_gaps_over_ttl p \<le> pq_gaps_total p \<and> pq_gaps_total p = pq_streak p"

definition doctor_ok :: "doctor \<Rightarrow> bool" where
  "doctor_ok d \<longleftrightarrow> length (dr_prev d) \<le> MAX_KEYS \<and> btm_sorted (dr_prev d) \<and> vals_ok prev_ok (dr_prev d)
     \<and> btm_sorted (cs_per_key (dr_delta d))"

lemma unat_saturating_add: "unat (saturating_add a b) = min (unat a + unat b) (2 ^ LENGTH('a) - 1)" for a b :: "'a::len word"
  by (auto simp: saturating_add_def unat_word_ariths unsigned_minus_1_eq_mask mask_eq_exp_minus_1 min_def)

lemma saturating_add_mono: "a \<le> c \<Longrightarrow> saturating_add a b \<le> saturating_add c b"
  by (simp add: word_le_nat_alt unat_saturating_add)

lemma saturating_add_ge: "a \<le> saturating_add a b" for a b :: "'a::len word"
proof -
  have "unat a < 2 ^ LENGTH('a)" by (rule unsigned_less)
  then have "unat a \<le> 2 ^ LENGTH('a) - 1" by linarith
  then show ?thesis unfolding word_le_nat_alt unat_saturating_add by simp
qed

lemma carry_streak_ok:
  assumes "\<And>p. prev = Some p \<Longrightarrow> prev_ok p"
  shows "case carry_streak now ok c prev of (s, t, u) \<Rightarrow> u \<le> t \<and> t = s"
proof (cases prev)
  case (Some p)
  then have p: "pq_gaps_over_ttl p \<le> pq_gaps_total p" "pq_gaps_total p = pq_streak p" using assms by (auto simp: prev_ok_def)
  then show ?thesis using Some saturating_add_mono[OF p(1), of 1] order_trans[OF p(1) saturating_add_ge[of "pq_gaps_total p" 1]]
    by (simp add: carry_streak_def)
qed (simp add: carry_streak_def)

lemma oldest_mem: "oldest m = Some p \<Longrightarrow> p \<in> set m"
  by (induction m arbitrary: p) (auto split: option.splits if_splits)

lemma oldest_None: "oldest m = None \<longleftrightarrow> m = []"
  by (cases m) (auto split: option.splits if_splits)

lemma btm_insert_length: "length (btm_insert k v m) \<le> Suc (length m)"
  by (induction m) auto

lemma btm_insert_length_old: "btm_get m k \<noteq> None \<Longrightarrow> btm_sorted m \<Longrightarrow> length (btm_insert k v m) = length m"
proof (induction m)
  case (Cons p m)
  obtain a b where p: "p = (a, b)" by fastforce
  show ?case
  proof (cases "k < a")
    case True
    then have "btm_get (p # m) k = None" using Cons.prems(2) p by (intro btm_get_less) (auto simp: btm_sorted_Cons intro: less_trans)
    with Cons.prems show ?thesis by simp
  next
    case False
    with Cons p show ?thesis by (auto simp: btm_get_def btm_sorted_Cons)
  qed
qed (simp add: btm_get_def)

lemma btm_remove_props:
  "btm_sorted m \<Longrightarrow> btm_sorted (btm_remove k m)" "vals_ok P m \<Longrightarrow> vals_ok P (btm_remove k m)"
  "(k, v) \<in> set m \<Longrightarrow> length (btm_remove k m) < length m" "set (btm_remove k m) \<subseteq> set m"
proof -
  show "btm_sorted m \<Longrightarrow> btm_sorted (btm_remove k m)"
    unfolding btm_remove_def by (induction m) (auto simp: btm_sorted_def)
  show "vals_ok P m \<Longrightarrow> vals_ok P (btm_remove k m)"
    by (auto simp: vals_ok_def btm_remove_def list_all_iff)
  show "(k, v) \<in> set m \<Longrightarrow> length (btm_remove k m) < length m"
    unfolding btm_remove_def by (rule length_filter_less) auto
  show "set (btm_remove k m) \<subseteq> set m" by (auto simp: btm_remove_def)
qed

lemma btm_insert_set: "set (btm_insert k v m) \<subseteq> insert (k, v) (set m)"
  by (induction m) (auto split: if_splits)

definition make_room :: "string \<Rightarrow> prev_request btmap \<Rightarrow> prev_request btmap" where
  "make_room key prev = (if length prev \<ge> MAX_KEYS \<and> btm_get prev key = None
     then (case oldest prev of Some (k, _) \<Rightarrow> btm_remove k prev | None \<Rightarrow> prev) else prev)"

lemma make_room_ok:
  assumes "length prev \<le> MAX_KEYS" "btm_sorted prev" "vals_ok P prev"
  shows "btm_sorted (make_room key prev)" "vals_ok P (make_room key prev)" "set (make_room key prev) \<subseteq> set prev"
    and "length (btm_insert key v (make_room key prev)) \<le> MAX_KEYS"
proof -
  show "btm_sorted (make_room key prev)" "vals_ok P (make_room key prev)"
    using assms btm_remove_props(1,2) by (auto simp: make_room_def split: option.splits)
  show "set (make_room key prev) \<subseteq> set prev"
    by (auto simp: make_room_def btm_remove_def split: option.splits)
  show "length (btm_insert key v (make_room key prev)) \<le> MAX_KEYS"
  proof (cases "length prev \<ge> MAX_KEYS \<and> btm_get prev key = None")
    case True
    then have "prev \<noteq> []" by (auto simp: MAX_KEYS_def)
    then obtain k w where o: "oldest prev = Some (k, w)" by (cases "oldest prev") (auto simp: oldest_None)
    have "length (btm_remove k prev) < length prev" by (rule btm_remove_props(3)[OF oldest_mem[OF o]])
    moreover have "make_room key prev = btm_remove k prev" using True o by (simp add: make_room_def)
    ultimately show ?thesis using btm_insert_length[of key v "btm_remove k prev"] assms(1) by simp
  next
    case False
    then have "make_room key prev = prev" unfolding make_room_def by (rule if_not_P)
    then show ?thesis using False btm_insert_length[of key v prev] btm_insert_length_old[of prev key v] assms(1,2) by auto
  qed
qed

lemma remember_prev:
  "dr_prev (remember key cn c (s, t, u) now d) = btm_insert key
     \<lparr>pq_prefix = take PREFIX_CAP (cn_prefix cn), pq_seen_unix = now,
      pq_truncated = (cn_truncated cn \<or> length (cn_prefix cn) > PREFIX_CAP),
      pq_cacheable = c, pq_streak = s, pq_gaps_total = t, pq_gaps_over_ttl = u\<rparr> (make_room key (dr_prev d))"
  "dr_delta (remember key cn c (s, t, u) now d) = dr_delta d"
  by (simp_all add: remember_def make_room_def Let_def)

lemma cs_roll_sorted: "btm_sorted (cs_per_key c) \<Longrightarrow> btm_sorted (cs_per_key (cs_roll_period now c))"
  by (simp add: cs_roll_period_def btm_sorted_def)

lemma doctor_observe_ok:
  assumes "doctor_ok d"
  shows "doctor_ok (fst (doctor_observe fj tv per ts host body now d))"
proof (cases "messages_request fj body")
  case (Some mr)
  obtain model req where mr: "mr = (model, req)" by fastforce
  let ?cn = "canonicalize tv req" let ?key = "cache_key host model"
  let ?c = "cacheable_region ?cn"
  obtain s t u where sgo: "carry_streak now (cacheable_ok model ?c) ?c (btm_get (dr_prev d) ?key) = (s, t, u)"
    by (cases "carry_streak now (cacheable_ok model ?c) ?c (btm_get (dr_prev d) ?key)")
  have d: "length (dr_prev d) \<le> MAX_KEYS" "btm_sorted (dr_prev d)" "vals_ok prev_ok (dr_prev d)" "btm_sorted (cs_per_key (dr_delta d))"
    using assms by (auto simp: doctor_ok_def)
  have "u \<le> t \<and> t = s" using carry_streak_ok[of "btm_get (dr_prev d) ?key" now "cacheable_ok model ?c" ?c] vals_ok_get[OF d(3)] sgo by auto
  then show ?thesis
    using Some mr sgo make_room_ok[OF d(1-3), of ?key] d(4)
    by (auto simp: doctor_observe_def Let_def doctor_ok_def remember_prev prev_ok_def
        intro!: vals_ok_insert btm_sorted_insert btm_sorted_upsert cs_roll_sorted)
qed (use assms in \<open>simp add: doctor_observe_def\<close>)

lemma flush_ok: "doctor_ok d \<Longrightarrow> doctor_ok (fst (snd (doctor_flush io per f d)))"
  by (auto simp: doctor_flush_def Let_def doctor_ok_def btm_sorted_def cs_roll_period_def split: cache_io.split)

lemma note_repaired_ok: "doctor_ok d \<Longrightarrow> doctor_ok (note_repaired per host model d)"
  by (simp add: note_repaired_def Let_def doctor_ok_def btm_sorted_upsert cs_roll_sorted)

text \<open>The doctor over a session, with the history of the keys and cacheable regions it was shown.\<close>

inductive doctor_reachable ::
  "(bytes \<Rightarrow> json option) \<Rightarrow> (json \<Rightarrow> bytes) \<Rightarrow> (string \<times> bytes) list \<Rightarrow> doctor \<Rightarrow> bool" for fj tv where
  init: "doctor_reachable fj tv [] doctor_default"
| observe: "doctor_reachable fj tv hs d \<Longrightarrow>
    doctor_reachable fj tv
      (case messages_request fj body of None \<Rightarrow> hs
       | Some (model, req) \<Rightarrow> (cache_key host model, cacheable_region (canonicalize tv req)) # hs)
      (fst (doctor_observe fj tv per ts host body now d))"
| repaired: "doctor_reachable fj tv hs d \<Longrightarrow> doctor_reachable fj tv hs (note_repaired per host model d)"
| flushed: "doctor_reachable fj tv hs d \<Longrightarrow> doctor_reachable fj tv hs (fst (snd (doctor_flush io per f d)))"

lemma doctor_flush_prev: "dr_prev (fst (snd (doctor_flush io per f d))) = dr_prev d"
  by (simp add: doctor_flush_def Let_def split: cache_io.split)

lemma doctor_reachable_inv:
  "doctor_reachable fj tv hs d \<Longrightarrow> doctor_ok d \<and> (\<forall>(k, p) \<in> set (dr_prev d). (k, pq_cacheable p) \<in> set hs)"
proof (induction rule: doctor_reachable.induct)
  case init
  then show ?case by (simp add: doctor_ok_def doctor_default_def cache_stats_default_def btm_sorted_def)
next
  case (observe hs d body host per ts now)
  show ?case
  proof (cases "messages_request fj body")
    case None
    then show ?thesis using observe.IH by (simp add: doctor_observe_def)
  next
    case (Some mr)
    obtain model req where mr: "mr = (model, req)" by fastforce
    let ?cn = "canonicalize tv req" let ?key = "cache_key host model"
    let ?c = "cacheable_region ?cn"
    obtain s t u where sgo: "carry_streak now (cacheable_ok model ?c) ?c (btm_get (dr_prev d) ?key) = (s, t, u)"
      by (cases "carry_streak now (cacheable_ok model ?c) ?c (btm_get (dr_prev d) ?key)")
    have ok: "doctor_ok (fst (doctor_observe fj tv per ts host body now d))" using observe.IH doctor_observe_ok by blast
    have room: "set (make_room ?key (dr_prev d)) \<subseteq> set (dr_prev d)"
      using make_room_ok(3)[of "dr_prev d" prev_ok] observe.IH by (auto simp: doctor_ok_def)
    define e where "e = \<lparr>pq_prefix = take PREFIX_CAP (cn_prefix ?cn), pq_seen_unix = now,
      pq_truncated = (cn_truncated ?cn \<or> length (cn_prefix ?cn) > PREFIX_CAP),
      pq_cacheable = ?c, pq_streak = s, pq_gaps_total = t, pq_gaps_over_ttl = u\<rparr>"
    have "dr_prev (fst (doctor_observe fj tv per ts host body now d)) = btm_insert ?key e (make_room ?key (dr_prev d))"
      using Some mr sgo by (simp add: doctor_observe_def Let_def remember_prev e_def)
    moreover have "pq_cacheable e = ?c" by (simp add: e_def)
    ultimately have "\<forall>(k, p) \<in> set (dr_prev (fst (doctor_observe fj tv per ts host body now d))).
        (k, pq_cacheable p) \<in> set ((?key, ?c) # hs)"
      using btm_insert_set[of ?key e "make_room ?key (dr_prev d)"] room observe.IH by fastforce
    with ok show ?thesis using Some mr by simp
  qed
next
  case (repaired hs d per host model)
  then show ?case using note_repaired_ok by (simp add: note_repaired_def Let_def)
next
  case (flushed hs d io per f)
  then show ?case using flush_ok by (simp add: doctor_flush_prev)
qed

section \<open>Counters survive the merge\<close>

definition counter_fields :: "(key_stats \<Rightarrow> u64) list" where
  "counter_fields = [ks_requests, ks_marked, ks_preserved, ks_ttl_gaps, ks_resets, ks_diverged, ks_below_min,
     ks_repairable, ks_repairable_bytes, ks_repaired]"

interpretation requests_sum: additive_merge "\<lambda>_. True" ks_requests key_stats_default merge_stats
  by unfold_locales (simp_all add: key_stats_default_def merge_stats_def)

lemma counter_additive: "f \<in> set counter_fields \<Longrightarrow> additive_merge (\<lambda>_. True) f key_stats_default merge_stats"
  unfolding additive_merge_def by (auto simp: counter_fields_def key_stats_default_def merge_stats_def)

definition period_total :: "string \<Rightarrow> (key_stats \<Rightarrow> u64) \<Rightarrow> cache_stats \<Rightarrow> u64" where
  "period_total now f c = (if cs_period c = now then btm_sum f (cs_per_key c) else 0)"

lemma period_total_roll: "period_total now f (cs_roll_period now c) = period_total now f c"
  by (simp add: period_total_def cs_roll_period_def btm_sum_def)

lemma cs_roll_period_period [simp]: "cs_period (cs_roll_period now c) = now"
  by (simp add: cs_roll_period_def)

lemma flush_total:
  assumes "f \<in> set counter_fields" "btm_sorted (cs_per_key (load_cache file))"
    and "doctor_flush io now file d = (file', d', r)"
  shows "period_total now f (load_cache file') + period_total now f (dr_delta d')
      = period_total now f (load_cache file) + period_total now f (dr_delta d)
    \<and> btm_sorted (cs_per_key (load_cache file'))"
proof -
  let ?delta = "cs_roll_period now (dr_delta d)" let ?disk = "cs_roll_period now (load_cache file)"
  note fold_adds = additive_merge.fold_adds[OF counter_additive[OF assms(1)]]
  consider "file' = file" "d' = d\<lparr>dr_delta := ?delta\<rparr>"
    | "file' = SavedCache (?disk\<lparr>cs_per_key := fold (\<lambda>(k, s). btm_upsert key_stats_default k (merge_stats s))
          (cs_per_key ?delta) (cs_per_key ?disk)\<rparr>)" "d' = d\<lparr>dr_delta := ?delta\<lparr>cs_per_key := []\<rparr>\<rparr>"
    using assms(3) by (auto simp: doctor_flush_def Let_def split: if_splits cache_io.splits)
  then show ?thesis
  proof cases
    case 1
    then show ?thesis using assms(2) by (simp add: period_total_roll)
  next
    case 2
    have s: "btm_sorted (cs_per_key ?disk)" by (rule cs_roll_sorted[OF assms(2)])
    have "period_total now f (load_cache file') = btm_sum f (cs_per_key ?disk) + btm_sum f (cs_per_key ?delta)"
      using 2 fold_adds(1)[OF s] by (simp add: period_total_def load_cache_def)
    moreover have "btm_sum f (cs_per_key ?disk) = period_total now f (load_cache file)"
      "btm_sum f (cs_per_key ?delta) = period_total now f (dr_delta d)"
      using period_total_roll[of now f "load_cache file"] period_total_roll[of now f "dr_delta d"] by (simp_all add: period_total_def)
    ultimately show ?thesis using 2 fold_adds(2)[OF s] by (simp add: period_total_def load_cache_def btm_sum_def)
  qed
qed

section \<open>Diagnosis\<close>

lemma first_mismatch_None: "first_mismatch p c = None \<longleftrightarrow> prefix p c \<or> prefix c p"
  by (induction p c rule: first_mismatch.induct) auto

lemma first_mismatch_Some:
  "first_mismatch p c = Some n \<Longrightarrow> n < length p \<and> n < length c \<and> take n p = take n c \<and> p ! n \<noteq> c ! n"
  by (induction p c arbitrary: n rule: first_mismatch.induct) (auto split: if_splits)

text \<open>The counters of a key in the current period.\<close>

definition stats_of :: "string \<Rightarrow> doctor \<Rightarrow> string \<Rightarrow> key_stats" where
  "stats_of now d key = (case btm_get (cs_per_key (cs_roll_period now (dr_delta d))) key of Some s \<Rightarrow> s | None \<Rightarrow> key_stats_default)"

lemma observe_stats:
  assumes "messages_request fj body = Some (model, req)"
  shows "stats_of per (fst (doctor_observe fj tv per ts host body now d)) (cache_key host model) =
    (let cn = canonicalize tv req; c = cacheable_region cn; prev = btm_get (dr_prev d) (cache_key host model) in
     count_request now ts model cn prev
       (repair_for cn (cacheable_ok model c) (carry_streak now (cacheable_ok model c) c prev))
       (stats_of per d (cache_key host model)))"
proof -
  let ?c = "cacheable_region (canonicalize tv req)" let ?key = "cache_key host model"
  obtain s t u where sgo: "carry_streak now (cacheable_ok model ?c) ?c (btm_get (dr_prev d) ?key) = (s, t, u)"
    by (cases "carry_streak now (cacheable_ok model ?c) ?c (btm_get (dr_prev d) ?key)")
  have "cs_roll_period per (c\<lparr>cs_per_key := m\<rparr>) = c\<lparr>cs_per_key := m\<rparr>" if "cs_period c = per" for c m
    using that by (simp add: cs_roll_period_def)
  then show ?thesis
    using assms sgo by (simp add: doctor_observe_def Let_def stats_of_def remember_prev btm_get_upsert)
qed

section \<open>Claims\<close>

text \<open>How many objects of a value have a \<open>cache_control\<close> member.\<close>

function marks :: "json \<Rightarrow> nat" where
  "marks v = (case v of
     JObj m \<Rightarrow> (if list_ex (\<lambda>(k, _). k = ''cache_control'') m then 1 else 0)
         + sum_list (map (\<lambda>(k, c). marks c) (filter (\<lambda>(k, _). k \<noteq> ''cache_control'') m))
   | JArr items \<Rightarrow> sum_list (map marks items)
   | _ \<Rightarrow> 0)"
  by pat_completeness auto

termination
  by (relation "measure size") (auto dest: json_child_size simp: less_Suc_eq_le size_list_estimation')

declare marks.simps [simp del]

lemma of_nat_sum_list: "of_nat (sum_list xs) = (sum_list (map of_nat xs) :: 'a::semiring_1)"
  by (induction xs) simp_all

lemma strip_counts: "snd (strip_markers v) = of_nat (marks v)"
proof (induction v rule: json_induct)
  case (Arr xs)
  have "marks (JArr xs) = sum_list (map marks xs)" by (subst marks.simps) simp
  moreover have "map (\<lambda>c. snd (strip_markers c)) xs = map (\<lambda>c. of_nat (marks c)) xs" using Arr by simp
  ultimately show ?case by (simp add: strip_JArr of_nat_sum_list comp_def del: map_eq_conv)
next
  case (Obj m)
  have "marks (JObj m) = (if list_ex (\<lambda>(k, _). k = ''cache_control'') m then 1 else 0)
      + sum_list (map (\<lambda>(k, c). marks c) (filter (\<lambda>(k, _). k \<noteq> ''cache_control'') m))" by (subst marks.simps) simp
  moreover have "map (\<lambda>(_, c). snd (strip_markers c)) (filter (\<lambda>(k, _). k \<noteq> ''cache_control'') m)
      = map (\<lambda>x. of_nat (case x of (k, c) \<Rightarrow> marks c)) (filter (\<lambda>(k, _). k \<noteq> ''cache_control'') m)"
    using Obj by (intro map_cong) auto
  ultimately show ?case by (simp add: strip_JObj of_nat_sum_list comp_def del: map_eq_conv)
next
  case (Atom v)
  then have "marks v = 0" by (subst marks.simps) (simp split: json.split)
  then show ?case using Atom by (cases v) simp_all
qed

lemma push_counts:
  "\<not> cn_truncated (fold (\<lambda>(label, v). push_section tv label v) vs cn) \<Longrightarrow>
    \<not> cn_truncated cn \<and> cn_markers (fold (\<lambda>(label, v). push_section tv label v) vs cn) = cn_markers cn + of_nat (sum_list (map (\<lambda>(_, v). marks v) vs))"
proof (induction vs arbitrary: cn)
  case (Cons x vs)
  obtain label v where x: "x = (label, v)" by fastforce
  have t: "\<not> cn_truncated (push_section tv label v cn) \<Longrightarrow> \<not> cn_truncated cn \<and> cn_markers (push_section tv label v cn) = cn_markers cn + of_nat (marks v)"
    by (auto simp: push_section_def Let_def split_beta strip_counts split: if_splits)
  show ?case using Cons.IH[of "push_section tv label v cn"] Cons.prems t by (simp add: x)
qed simp

lemma canonicalize_counts:
  assumes "\<not> cn_truncated (canonicalize tv req)"
  shows "cn_markers (canonicalize tv req) = of_nat (sum_list (map (\<lambda>(_, v). marks v) (request_sections req)))"
  using push_counts[OF assms[unfolded canonicalize_def]] by (simp add: canonicalize_def)

text \<open>C33: the doctor proposes a repair only for a request whose cacheable prefix it has been shown before, under
  the same host and model, and that reaches the cacheable minimum: a prefix seen once is never touched, nor one below the minimum. Nor
  is a request with a \<open>cache_control\<close> marker of its own in its tools, system or messages, as long as the canonical form of these was not cut at the
  cap of 1 MiB (and they have fewer than \<open>2 ^ 64\<close> markers). Behind the cap, and at the top level of the request, markers are not
  counted, which is a finding.\<close>

theorem repair_needs_repeat:
  assumes "doctor_reachable fj tv hs d"
    and "snd (doctor_observe fj tv per ts host body now d) = Some ob" and "ob_repair ob = Some plan"
  shows "\<exists>model req. messages_request fj body = Some (model, req)
    \<and> (\<not> cn_truncated (canonicalize tv req) \<and> sum_list (map (\<lambda>(_, v). marks v) (request_sections req)) < 2 ^ 64
         \<longrightarrow> list_all (\<lambda>(_, v). marks v = 0) (request_sections req))
    \<and> (cache_key host model, cacheable_region (canonicalize tv req)) \<in> set hs
    \<and> min_tokens model \<le> length (cacheable_region (canonicalize tv req)) div BYTES_PER_TOKEN"
proof -
  obtain model req where mr: "messages_request fj body = Some (model, req)"
    using assms(2) by (auto simp: doctor_observe_def split: option.splits)
  let ?cn = "canonicalize tv req" let ?key = "cache_key host model"
  let ?c = "cacheable_region ?cn" let ?ok = "cacheable_ok model (cacheable_region ?cn)"
  have plan: "repair_for ?cn ?ok (carry_streak now ?ok ?c (btm_get (dr_prev d) ?key)) = Some plan"
    using assms(2,3) mr by (auto simp: doctor_observe_def Let_def)
  then have m: "cn_markers ?cn = 0" "?ok" "REPAIR_MIN_REPEATS \<le> fst (carry_streak now ?ok ?c (btm_get (dr_prev d) ?key))"
    by (auto simp: repair_for_def split: prod.splits if_splits)
  then obtain p where p: "btm_get (dr_prev d) ?key = Some p" "pq_cacheable p = ?c"
    by (auto simp: carry_streak_def REPAIR_MIN_REPEATS_def split: option.splits if_splits)
  then have "(?key, ?c) \<in> set hs"
    using doctor_reachable_inv[OF assms(1)] by (auto simp: btm_get_def dest!: map_of_SomeD)
  moreover have "list_all (\<lambda>(_, v). marks v = 0) (request_sections req)"
    if "\<not> cn_truncated ?cn" "sum_list (map (\<lambda>(_, v). marks v) (request_sections req)) < 2 ^ 64"
  proof -
    have "(of_nat (sum_list (map (\<lambda>(_, v). marks v) (request_sections req))) :: u64) = 0"
      using canonicalize_counts[OF that(1)] m(1) by simp
    then have "2 ^ LENGTH(64) dvd sum_list (map (\<lambda>(_, v). marks v) (request_sections req))" by (simp only: word_of_nat_eq_0_iff)
    moreover have "S = 0" if "2 ^ LENGTH(64) dvd S" "S < 2 ^ 64" for S :: nat
      using that by (cases "S = 0") (auto dest!: dvd_imp_le)
    ultimately have "sum_list (map (\<lambda>(_, v). marks v) (request_sections req)) = 0" using that(2) by blast
    then show ?thesis by (fastforce simp: list_all_iff)
  qed
  ultimately show ?thesis using mr m by (auto simp: cacheable_ok_def)
qed

definition demo_request :: json where
  "demo_request = JObj [(''messages'', JArr []), (''model'', JStr ''m''), (''system'', JStr ''s'')]"

definition demo_tv :: "json \<Rightarrow> bytes" where
  "demo_tv v = replicate 4096 (CHR ''x'')"

lemma demo_messages: "messages_request (\<lambda>_. Some demo_request) [] = Some (''m'', demo_request)"
  by (simp add: messages_request_def demo_request_def json_get_def json_as_str_def json_as_array_def)

lemma demo_canonical:
  "canonicalize demo_tv demo_request = \<lparr>cn_prefix = replicate 4096 (CHR ''x'') @ [CHR 0x1F],
     cn_sections = [(''system'', 0)], cn_markers = 0, cn_truncated = False\<rparr>"
  by (simp add: canonicalize_def request_sections_def demo_request_def json_get_def json_as_array_def labelled_def
      push_section_def demo_tv_def)

lemma demo_region: "cacheable_region (canonicalize demo_tv demo_request) = replicate 4096 (CHR ''x'') @ [CHR 0x1F]"
  by (simp add: demo_canonical cacheable_region_def cacheable_cut_def messages_start_def starts_with_def)

lemma demo_ok: "cacheable_ok ''m'' (replicate 4096 (CHR ''x'') @ [CHR 0x1F])"
  by (simp add: cacheable_ok_def min_tokens_def MIN_CACHEABLE_TOKENS_def BYTES_PER_TOKEN_def)

theorem repair_needs_repeat_witness:
  "\<exists>hs d ob plan. doctor_reachable (\<lambda>_. Some demo_request) demo_tv hs d
     \<and> snd (doctor_observe (\<lambda>_. Some demo_request) demo_tv ''p'' ''t'' ''h'' [] 9 d) = Some ob \<and> ob_repair ob = Some plan
     \<and> (cache_key ''h'' ''m'', replicate 4096 (CHR ''x'') @ [CHR 0x1F]) \<in> set hs
     \<and> list_all (\<lambda>(_, v). marks v = 0) (request_sections demo_request)"
proof -
  let ?fj = "\<lambda>_. Some demo_request" let ?r = "replicate 4096 (CHR ''x'') @ [CHR 0x1F]"
  let ?d = "fst (doctor_observe ?fj demo_tv ''p'' ''t'' ''h'' [] 7 doctor_default)"
  have r: "doctor_reachable ?fj demo_tv [(cache_key ''h'' ''m'', ?r)] ?d"
    using doctor_reachable.observe[OF doctor_reachable.init, of ?fj demo_tv "''h''" "[]" "''p''" "''t''" 7]
    by (simp add: demo_messages demo_region)
  have p: "\<exists>p. btm_get (dr_prev ?d) (cache_key ''h'' ''m'') = Some p \<and> pq_cacheable p = ?r \<and> pq_streak p = 0"
    by (simp add: doctor_observe_def demo_messages Let_def demo_region demo_ok carry_streak_def doctor_default_def btm_get_def
        remember_def MAX_KEYS_def)
  have "snd (doctor_observe ?fj demo_tv ''p'' ''t'' ''h'' [] 9 ?d) =
      Some \<lparr>ob_model = ''m'', ob_repair = repair_for (canonicalize demo_tv demo_request) True
        (carry_streak 9 True ?r (btm_get (dr_prev ?d) (cache_key ''h'' ''m'')))\<rparr>"
    by (simp add: doctor_observe_def[of _ _ _ _ _ _ 9] demo_messages Let_def demo_region demo_ok)
  moreover have "\<exists>plan. repair_for (canonicalize demo_tv demo_request) True
        (carry_streak 9 True ?r (btm_get (dr_prev ?d) (cache_key ''h'' ''m''))) = Some plan"
    using p by (auto simp: carry_streak_def repair_for_def demo_canonical REPAIR_MIN_REPEATS_def saturating_add_def)
  ultimately obtain ob plan where ob: "snd (doctor_observe ?fj demo_tv ''p'' ''t'' ''h'' [] 9 ?d) = Some ob" "ob_repair ob = Some plan"
    by auto
  have sec: "request_sections demo_request = [(''system'', JStr ''s'')]"
    by (simp add: request_sections_def demo_request_def json_get_def json_as_array_def labelled_def)
  have mk: "marks (JStr ''s'') = 0" by (subst marks.simps) simp
  have "(cache_key ''h'' ''m'', ?r) \<in> set [(cache_key ''h'' ''m'', ?r)] \<and> list_all (\<lambda>(_, v). marks v = 0) (request_sections demo_request)"
    using repair_needs_repeat[OF r ob] by (auto simp: demo_messages demo_region demo_canonical sec mk)
  with r ob show ?thesis by blast
qed

text \<open>What the doctor reports is what happened to the prefix. With a previous request on record, a prefix
  that extends it or is extended by it counts as preserved; any other counts as a new conversation or as
  diverged, according to the section of the first byte that differs, which is the recorded position.\<close>

theorem doctor_diagnosis:
  assumes "messages_request fj body = Some (model, req)"
    and "btm_get (dr_prev d) (cache_key host model) = Some p"
  shows "let cn = canonicalize tv req; s = stats_of per d (cache_key host model);
      s' = stats_of per (fst (doctor_observe fj tv per ts host body now d)) (cache_key host model) in
    ks_requests s' = ks_requests s + 1 \<and>
    (case first_mismatch (pq_prefix p) (cn_prefix cn) of
       None \<Rightarrow> (prefix (pq_prefix p) (cn_prefix cn) \<or> prefix (cn_prefix cn) (pq_prefix p))
         \<and> ks_preserved s' = ks_preserved s + 1 \<and> ks_resets s' = ks_resets s \<and> ks_diverged s' = ks_diverged s
     | Some n \<Rightarrow> n < length (pq_prefix p) \<and> n < length (cn_prefix cn) \<and> take n (pq_prefix p) = take n (cn_prefix cn)
         \<and> pq_prefix p ! n \<noteq> cn_prefix cn ! n \<and> ks_preserved s' = ks_preserved s
         \<and> (if section_at (cn_sections cn) n = ''messages[0]''
            then ks_resets s' = ks_resets s + 1 \<and> ks_diverged s' = ks_diverged s
            else ks_diverged s' = ks_diverged s + 1 \<and> ks_resets s' = ks_resets s
              \<and> map_option dv_section (ks_last_divergence s') = Some (section_at (cn_sections cn) n)
              \<and> map_option dv_offset (ks_last_divergence s') = Some (word_of_nat n)))"
proof (cases "first_mismatch (pq_prefix p) (cn_prefix (canonicalize tv req))")
  case None
  then show ?thesis using first_mismatch_None[THEN iffD1, OF None]
    by (simp add: Let_def observe_stats[OF assms(1)] assms(2) count_request_def compare_prev_def split: option.split)
next
  case (Some n)
  then show ?thesis using first_mismatch_Some[OF Some]
    by (simp add: Let_def observe_stats[OF assms(1)] assms(2) count_request_def compare_prev_def split: option.split)
qed

theorem doctor_diagnosis_witness:
  "\<exists>p. messages_request (\<lambda>_. Some demo_request) [] = Some (''m'', demo_request)
    \<and> btm_get (dr_prev \<lparr>dr_prev = [(cache_key ''h'' ''m'', p)], dr_delta = cache_stats_default\<rparr>) (cache_key ''h'' ''m'') = Some p
    \<and> ks_requests (stats_of ''p'' (fst (doctor_observe (\<lambda>_. Some demo_request) demo_tv ''p'' ''t'' ''h'' [] 9
        \<lparr>dr_prev = [(cache_key ''h'' ''m'', p)], dr_delta = cache_stats_default\<rparr>)) (cache_key ''h'' ''m'')) = 1"
proof -
  let ?p = "\<lparr>pq_prefix = [], pq_seen_unix = 0, pq_truncated = False, pq_cacheable = [], pq_streak = 0, pq_gaps_total = 0, pq_gaps_over_ttl = 0\<rparr>"
  let ?d = "\<lparr>dr_prev = [(cache_key ''h'' ''m'', ?p)], dr_delta = cache_stats_default\<rparr>"
  have g: "btm_get (dr_prev ?d) (cache_key ''h'' ''m'') = Some ?p" by (simp add: btm_get_def)
  have "ks_requests (stats_of ''p'' ?d (cache_key ''h'' ''m'')) = 0"
    by (simp add: stats_of_def cs_roll_period_def cache_stats_default_def btm_get_def key_stats_default_def)
  with doctor_diagnosis[OF demo_messages g, of demo_tv "''p''" "''t''" 9] show ?thesis
    using demo_messages g by (intro exI[of _ ?p]) (simp add: Let_def)
qed

text \<open>Markers are invisible to the comparison. Two requests that are equal once every \<open>cache_control\<close>
  member is removed have the same canonical prefix and sections, and the same fan-out key, however many
  markers they carry and wherever.\<close>

theorem markers_invisible:
  assumes "fj b1 = Some v" and "fj b2 = Some w" and "fst (strip_markers v) = fst (strip_markers w)"
  shows "cn_prefix (canonicalize tv v) = cn_prefix (canonicalize tv w)
    \<and> cn_sections (canonicalize tv v) = cn_sections (canonicalize tv w)
    \<and> cacheable_key cr fj tv host model b1 = cacheable_key cr fj tv host model b2"
proof -
  note same = canonicalize_same[OF assms(3), of tv]
  have "cacheable_region (canonicalize tv v) = cacheable_region (canonicalize tv w)"
    using same by (simp add: cacheable_region_def cacheable_cut_def split: option.split)
  moreover have "(Option.bind (json_get v ''messages'') json_as_array = None) = (Option.bind (json_get w ''messages'') json_as_array = None)"
  proof -
    have "map_option (map (\<lambda>c. fst (strip_markers c))) (Option.bind (json_get x ''messages'') json_as_array)
        = Option.bind (json_get (fst (strip_markers x)) ''messages'') json_as_array" for x
      by (cases "json_get x ''messages''") (simp_all add: json_get_strip json_as_array_strip)
    from this[of v] this[of w] assms(3) show ?thesis by (metis map_option_is_None)
  qed
  ultimately show ?thesis using same assms(1,2)
    by (cases "Option.bind (json_get v ''messages'') json_as_array"; cases "Option.bind (json_get w ''messages'') json_as_array")
      (auto simp: cacheable_key_def simp del: bind_assoc)
qed

theorem markers_invisible_witness:
  "let v = JObj [(''messages'', JArr [JObj [(''cache_control'', JNull), (''role'', JStr ''user'')]])];
       w = JObj [(''messages'', JArr [JObj [(''role'', JStr ''user'')]])] in
   fst (strip_markers v) = fst (strip_markers w)
   \<and> cacheable_key demo_crypto (\<lambda>b. Some (if b = [] then v else w)) demo_tv ''h'' ''m'' []
     = cacheable_key demo_crypto (\<lambda>b. Some (if b = [] then v else w)) demo_tv ''h'' ''m'' ''w''"
proof -
  let ?v = "JObj [(''messages'', JArr [JObj [(''cache_control'', JNull), (''role'', JStr ''user'')]])]"
  let ?w = "JObj [(''messages'', JArr [JObj [(''role'', JStr ''user'')]])]"
  have "fst (strip_markers ?v) = fst (strip_markers ?w)" by (simp add: strip_JObj strip_JArr)
  then show ?thesis
    using markers_invisible[of "\<lambda>b. Some (if b = [] then ?v else ?w)" "[]" ?v "''w''" ?w demo_tv demo_crypto "''h''" "''m''"] by simp
qed

end
