(* ===== verification/Fanout.thy ===== *)
theory Fanout
  imports Rail_Prelude
begin

text \<open>
  Active cache management, \<^verbatim>\<open>src/src/cache.rs\<close> from \<open>FanoutGate\<close> on: the gate that lets the first of several
  concurrent requests with one cacheable prefix go ahead, and the keep-alive table. The gate is shared by
  concurrent tasks: what each does between two points where another can run is one step of \<open>fan_step\<close>.
\<close>

section \<open>The gate\<close>

text \<open>A slot's \<open>notify\<close> and \<open>ready\<close> are shared with the guards of the requests that joined it; \<open>sl_id\<close> is
  that shared pair, \<open>gt_ready\<close> the atomic flags and \<open>gt_next\<close> the next unused identity.\<close>

record slot =
  sl_id :: nat
  sl_has_leader :: bool
  sl_refs :: u32

record gate =
  gt_slots :: "string \<Rightarrow> slot option"
  gt_ready :: "nat \<Rightarrow> bool"
  gt_next :: nat

record guard =
  fg_key :: string
  fg_id :: nat
  fg_leader :: bool

definition gate_empty :: gate where
  "gate_empty = \<lparr>gt_slots = (\<lambda>_. None), gt_ready = (\<lambda>_. False), gt_next = 0\<rparr>"

definition gate_enter :: "string \<Rightarrow> gate \<Rightarrow> gate \<times> guard" where
  "gate_enter key g =
     (let (s, n) = (case gt_slots g key of
                      Some s \<Rightarrow> (s, gt_next g)
                    | None \<Rightarrow> (\<lparr>sl_id = gt_next g, sl_has_leader = False, sl_refs = 0\<rparr>, gt_next g + 1));
          leader = (\<not> sl_has_leader s \<and> \<not> gt_ready g (sl_id s));
          s' = s\<lparr>sl_refs := sl_refs s + 1, sl_has_leader := (if leader then True else sl_has_leader s)\<rparr>
      in (g\<lparr>gt_slots := (gt_slots g)(key := Some s'), gt_next := n\<rparr>,
          \<lparr>fg_key = key, fg_id = sl_id s, fg_leader = leader\<rparr>))"

text \<open>\<open>leader_ready\<close> sets the flag, then under the lock clears the slot's leader, then notifies; the first
  two parts as operations on the gate.\<close>

definition ready_store :: "guard \<Rightarrow> gate \<Rightarrow> gate" where
  "ready_store gd g = g\<lparr>gt_ready := (gt_ready g)(fg_id gd := True)\<rparr>"

definition ready_clear :: "guard \<Rightarrow> gate \<Rightarrow> gate" where
  "ready_clear gd g = (case gt_slots g (fg_key gd) of
     None \<Rightarrow> g
   | Some s \<Rightarrow> g\<lparr>gt_slots := (gt_slots g)(fg_key gd := Some (s\<lparr>sl_has_leader := False\<rparr>))\<rparr>)"

text \<open>\<open>Drop\<close>: the part under the lock.\<close>

definition gate_leave :: "guard \<Rightarrow> gate \<Rightarrow> gate" where
  "gate_leave gd g = (case gt_slots g (fg_key gd) of
     None \<Rightarrow> g
   | Some s \<Rightarrow>
       (let s' = s\<lparr>sl_refs := saturating_sub (sl_refs s) 1,
                   sl_has_leader := (if fg_leader gd then False else sl_has_leader s)\<rparr>
        in g\<lparr>gt_slots := (gt_slots g)(fg_key gd := (if sl_refs s' = 0 then None else Some s'))\<rparr>))"

section \<open>Concurrent requests\<close>

text \<open>Where a request stands: it has entered; a sibling has seen no readiness (\<open>Checked\<close>), has created
  its waiter (\<open>Armed\<close>), possibly already notified (\<open>Notified\<close>), or waits; it is \<open>Sending\<close> upstream; a
  leader has set the flag (\<open>Stored\<close>), released the slot (\<open>Cleared\<close>) or notified (\<open>Answered\<close>); its guard
  is being dropped (\<open>Leaving\<close>).\<close>

datatype phase = Entered | Checked | Armed | Notified | Waiting | Sending | Stored | Cleared | Answered | Leaving

record request =
  rq_guard :: guard
  rq_phase :: phase

record fan =
  fn_gate :: gate
  fn_reqs :: "nat \<Rightarrow> request option"

definition fan_init :: fan where
  "fan_init = \<lparr>fn_gate = gate_empty, fn_reqs = (\<lambda>_. None)\<rparr>"

text \<open>\<open>notify_waiters\<close> reaches every waiter that has been created.\<close>

definition wake :: "phase \<Rightarrow> phase" where
  "wake p = (case p of Armed \<Rightarrow> Notified | Waiting \<Rightarrow> Sending | _ \<Rightarrow> p)"

definition notify_waiters :: "nat \<Rightarrow> (nat \<Rightarrow> request option) \<Rightarrow> nat \<Rightarrow> request option" where
  "notify_waiters i rs t = (case rs t of
     None \<Rightarrow> None
   | Some r \<Rightarrow> if fg_id (rq_guard r) = i then Some (r\<lparr>rq_phase := wake (rq_phase r)\<rparr>) else Some r)"

definition advance :: "nat \<Rightarrow> phase \<Rightarrow> (nat \<Rightarrow> request option) \<Rightarrow> nat \<Rightarrow> request option" where
  "advance t p rs = rs(t := map_option (\<lambda>r. r\<lparr>rq_phase := p\<rparr>) (rs t))"

text \<open>One step of request \<open>t\<close>. A request can be cancelled, and its guard dropped, wherever it awaits; the
  three parts of \<open>leader_ready\<close> run without awaiting. Fewer than \<open>2 ^ 32\<close> requests are in flight.\<close>

inductive fan_step :: "nat \<Rightarrow> fan \<Rightarrow> fan \<Rightarrow> bool" for t where
  enter: "fn_reqs f t = None \<Longrightarrow> card (dom (fn_reqs f)) + 1 < 2 ^ 32 \<Longrightarrow> gate_enter key (fn_gate f) = (g, gd) \<Longrightarrow>
    fan_step t f \<lparr>fn_gate = g, fn_reqs = (fn_reqs f)(t := Some \<lparr>rq_guard = gd, rq_phase = Entered\<rparr>)\<rparr>"
| lead: "fn_reqs f t = Some r \<Longrightarrow> rq_phase r = Entered \<Longrightarrow> fg_leader (rq_guard r) \<Longrightarrow>
    fan_step t f (f\<lparr>fn_reqs := advance t Sending (fn_reqs f)\<rparr>)"
| check: "fn_reqs f t = Some r \<Longrightarrow> rq_phase r = Entered \<Longrightarrow> \<not> fg_leader (rq_guard r) \<Longrightarrow>
    fan_step t f (f\<lparr>fn_reqs := advance t (if gt_ready (fn_gate f) (fg_id (rq_guard r)) then Sending else Checked) (fn_reqs f)\<rparr>)"
| arm: "fn_reqs f t = Some r \<Longrightarrow> rq_phase r = Checked \<Longrightarrow> fan_step t f (f\<lparr>fn_reqs := advance t Armed (fn_reqs f)\<rparr>)"
| recheck: "fn_reqs f t = Some r \<Longrightarrow> rq_phase r = Armed \<Longrightarrow>
    fan_step t f (f\<lparr>fn_reqs := advance t (if gt_ready (fn_gate f) (fg_id (rq_guard r)) then Sending else Waiting) (fn_reqs f)\<rparr>)"
| resume: "fn_reqs f t = Some r \<Longrightarrow> rq_phase r = Notified \<Longrightarrow> fan_step t f (f\<lparr>fn_reqs := advance t Sending (fn_reqs f)\<rparr>)"
| timeout: "fn_reqs f t = Some r \<Longrightarrow> rq_phase r = Waiting \<Longrightarrow> fan_step t f (f\<lparr>fn_reqs := advance t Sending (fn_reqs f)\<rparr>)"
| respond: "fn_reqs f t = Some r \<Longrightarrow> rq_phase r = Sending \<Longrightarrow> \<not> fg_leader (rq_guard r) \<Longrightarrow>
    fan_step t f (f\<lparr>fn_reqs := advance t Answered (fn_reqs f)\<rparr>)"
| store: "fn_reqs f t = Some r \<Longrightarrow> rq_phase r = Sending \<Longrightarrow> fg_leader (rq_guard r) \<Longrightarrow>
    fan_step t f \<lparr>fn_gate = ready_store (rq_guard r) (fn_gate f), fn_reqs = advance t Stored (fn_reqs f)\<rparr>"
| clear: "fn_reqs f t = Some r \<Longrightarrow> rq_phase r = Stored \<Longrightarrow>
    fan_step t f \<lparr>fn_gate = ready_clear (rq_guard r) (fn_gate f), fn_reqs = advance t Cleared (fn_reqs f)\<rparr>"
| notify: "fn_reqs f t = Some r \<Longrightarrow> rq_phase r = Cleared \<Longrightarrow>
    fan_step t f (f\<lparr>fn_reqs := notify_waiters (fg_id (rq_guard r)) (advance t Answered (fn_reqs f))\<rparr>)"
| drop: "fn_reqs f t = Some r \<Longrightarrow> rq_phase r \<notin> {Stored, Cleared, Leaving} \<Longrightarrow>
    fan_step t f (f\<lparr>fn_reqs :=
      (if fg_leader (rq_guard r) \<and> \<not> gt_ready (fn_gate f) (fg_id (rq_guard r))
       then notify_waiters (fg_id (rq_guard r)) (advance t Leaving (fn_reqs f)) else advance t Leaving (fn_reqs f))\<rparr>)"
| leave: "fn_reqs f t = Some r \<Longrightarrow> rq_phase r = Leaving \<Longrightarrow>
    fan_step t f \<lparr>fn_gate = gate_leave (rq_guard r) (fn_gate f), fn_reqs = (fn_reqs f)(t := None)\<rparr>"

inductive fan_reachable :: "fan \<Rightarrow> bool" where
  init: "fan_reachable fan_init"
| step: "fan_reachable f \<Longrightarrow> fan_step t f f' \<Longrightarrow> fan_reachable f'"

section \<open>Keep-alive\<close>

record template =
  ka_method :: string
  ka_path :: string
  ka_port :: u16
  ka_headers :: "(string \<times> string) list"
  ka_body :: bytes

record keep_alive_entry =
  ke_template :: template
  ke_last_seen_unix :: u64
  ke_fired :: u32
  ke_max :: u32
  ke_watching :: bool

type_synonym keep_alive = "string \<Rightarrow> keep_alive_entry option"

text \<open>\<open>arm\<close>: the flag says that a watcher has to be started.\<close>

definition ka_arm :: "string \<Rightarrow> template \<Rightarrow> u32 \<Rightarrow> u64 \<Rightarrow> keep_alive \<Rightarrow> keep_alive \<times> bool" where
  "ka_arm key tmpl mx now_unix ka =
     (let e = (case ka key of
                 Some e \<Rightarrow> e
               | None \<Rightarrow> \<lparr>ke_template = tmpl, ke_last_seen_unix = now_unix, ke_fired = 0, ke_max = mx, ke_watching = False\<rparr>)
      in (ka(key := Some (e\<lparr>ke_template := tmpl, ke_last_seen_unix := now_unix, ke_fired := 0, ke_max := mx,
            ke_watching := True\<rparr>)), \<not> ke_watching e))"

definition ka_due :: "string \<Rightarrow> u64 \<Rightarrow> u64 \<Rightarrow> keep_alive \<Rightarrow> keep_alive \<times> template option" where
  "ka_due key idle_secs now_unix ka = (case ka key of
     None \<Rightarrow> (ka, None)
   | Some e \<Rightarrow>
       if saturating_sub now_unix (ke_last_seen_unix e) \<ge> idle_secs \<and> ke_fired e < ke_max e
       then (ka(key := Some (e\<lparr>ke_fired := ke_fired e + 1\<rparr>)), Some (ke_template e))
       else (ka, None))"

section \<open>What the gate keeps\<close>

definition joined :: "(nat \<Rightarrow> guard option) \<Rightarrow> string \<Rightarrow> nat set" where
  "joined gs k = {t. \<exists>gd. gs t = Some gd \<and> fg_key gd = k}"

text \<open>The gate fits the guards that are alive: every guard has its slot, a slot counts its guards and goes
  with the last of them, and there is one leader at a time per slot.\<close>

definition gate_fits :: "gate \<Rightarrow> (nat \<Rightarrow> guard option) \<Rightarrow> bool" where
  "gate_fits g gs \<longleftrightarrow> finite (dom gs) \<and> card (dom gs) < 2 ^ 32
   \<and> (\<forall>t gd. gs t = Some gd \<longrightarrow> (\<exists>s. gt_slots g (fg_key gd) = Some s \<and> sl_id s = fg_id gd))
   \<and> (\<forall>k s. gt_slots g k = Some s \<longrightarrow> unat (sl_refs s) = card (joined gs k) \<and> joined gs k \<noteq> {} \<and> sl_id s < gt_next g)
   \<and> (\<forall>k s k' s'. gt_slots g k = Some s \<longrightarrow> gt_slots g k' = Some s' \<longrightarrow> sl_id s = sl_id s' \<longrightarrow> k = k')
   \<and> (\<forall>i. gt_ready g i \<longrightarrow> i < gt_next g)
   \<and> (\<forall>t gd s. gs t = Some gd \<longrightarrow> fg_leader gd \<longrightarrow> gt_slots g (fg_key gd) = Some s \<longrightarrow> sl_has_leader s \<or> gt_ready g (fg_id gd))
   \<and> (\<forall>t u a b. gs t = Some a \<longrightarrow> gs u = Some b \<longrightarrow> fg_leader a \<longrightarrow> fg_leader b \<longrightarrow> fg_key a = fg_key b \<longrightarrow> t = u)"

lemma gate_fitsD:
  assumes "gate_fits g gs"
  shows "finite (dom gs)" "card (dom gs) < 2 ^ 32"
    "gs t = Some gd \<Longrightarrow> \<exists>s. gt_slots g (fg_key gd) = Some s \<and> sl_id s = fg_id gd"
    "gt_slots g k = Some s \<Longrightarrow> unat (sl_refs s) = card (joined gs k) \<and> joined gs k \<noteq> {} \<and> sl_id s < gt_next g"
    "gt_slots g k = Some s \<Longrightarrow> gt_slots g k' = Some s' \<Longrightarrow> sl_id s = sl_id s' \<Longrightarrow> k = k'"
    "gt_ready g i \<Longrightarrow> i < gt_next g"
    "gs t = Some gd \<Longrightarrow> fg_leader gd \<Longrightarrow> gt_slots g (fg_key gd) = Some s \<Longrightarrow> sl_has_leader s \<or> gt_ready g (fg_id gd)"
    "gs t = Some a \<Longrightarrow> gs u = Some b \<Longrightarrow> fg_leader a \<Longrightarrow> fg_leader b \<Longrightarrow> fg_key a = fg_key b \<Longrightarrow> t = u"
  using assms unfolding gate_fits_def by blast+

lemma joined_upd: "joined (gs(t := Some gd)) k = (if fg_key gd = k then insert t (joined gs k) else joined gs k - {t})"
  by (auto simp: joined_def)

lemma joined_none: "joined (gs(t := None)) k = joined gs k - {t}"
  by (auto simp: joined_def)

lemma joined_finite: "gate_fits g gs \<Longrightarrow> finite (joined gs k)"
  by (rule finite_subset[of _ "dom gs"]) (auto simp: joined_def gate_fits_def)

lemma joined_card: "gate_fits g gs \<Longrightarrow> card (joined gs k) \<le> card (dom gs)"
  by (rule card_mono) (auto simp: joined_def gate_fits_def)

lemma unat_inc: "unat (x::u32) + 1 < 2 ^ 32 \<Longrightarrow> unat (x + 1) = unat x + 1"
  by (simp add: unat_word_ariths)

lemma same_slot: "gate_fits g gs \<Longrightarrow> gs t = Some a \<Longrightarrow> gs u = Some b \<Longrightarrow> (fg_id a = fg_id b) = (fg_key a = fg_key b)"
  by (metis gate_fitsD(3,5) option.inject)

lemma slot_leader_same: "sl_has_leader a \<Longrightarrow> a\<lparr>sl_refs := x, sl_has_leader := True\<rparr> = a\<lparr>sl_refs := x\<rparr>"
  by (cases a) simp

lemma gate_enter_fits:
  assumes fit: "gate_fits g gs" and t: "gs t = None" and c: "card (dom gs) + 1 < 2 ^ 32" and e: "gate_enter key g = (g', gd)"
  shows "gate_fits g' (gs(t := Some gd))" and "gt_ready g' = gt_ready g" and "fg_key gd = key"
proof -
  note d = gate_fitsD[OF fit]
  define s where "s = (case gt_slots g key of Some s \<Rightarrow> s | None \<Rightarrow> \<lparr>sl_id = gt_next g, sl_has_leader = False, sl_refs = 0\<rparr>)"
  define n where "n = (if gt_slots g key = None then gt_next g + 1 else gt_next g)"
  define s' where "s' = s\<lparr>sl_refs := sl_refs s + 1, sl_has_leader := (if \<not> sl_has_leader s \<and> \<not> gt_ready g (sl_id s) then True else sl_has_leader s)\<rparr>"
  have "gate_enter key g = (g\<lparr>gt_slots := (gt_slots g)(key := Some s'), gt_next := n\<rparr>,
      \<lparr>fg_key = key, fg_id = sl_id s, fg_leader = (\<not> sl_has_leader s \<and> \<not> gt_ready g (sl_id s))\<rparr>)"
    unfolding gate_enter_def Let_def s'_def by (cases "gt_slots g key") (simp_all add: s_def n_def slot_leader_same)
  then have g': "g' = g\<lparr>gt_slots := (gt_slots g)(key := Some s'), gt_next := n\<rparr>"
    and gd: "gd = \<lparr>fg_key = key, fg_id = sl_id s, fg_leader = (\<not> sl_has_leader s \<and> \<not> gt_ready g (sl_id s))\<rparr>"
    using e by simp_all
  show "gt_ready g' = gt_ready g" "fg_key gd = key" by (simp_all add: g' gd)
  have slot: "gt_slots g key = Some s \<or> gt_slots g key = None \<and> sl_id s = gt_next g \<and> sl_refs s = 0 \<and> \<not> sl_has_leader s"
    by (auto simp: s_def split: option.splits)
  have nn: "gt_next g \<le> n" by (simp add: n_def)
  have idn: "sl_id s < n" using slot d(4)[of key s] by (auto simp: n_def)
  have none: "gt_slots g key = None \<Longrightarrow> joined gs key = {}"
    using d(3) by (fastforce simp: joined_def)
  have nt: "t \<notin> joined gs k" for k using t by (auto simp: joined_def)
  have refs: "unat (sl_refs s) = card (joined gs key)" using slot d(4)[of key s] none by auto
  have refs': "unat (sl_refs s') = card (insert t (joined gs key))"
    using refs joined_card[OF fit, of key] c nt joined_finite[OF fit] by (simp add: s'_def unat_inc)
  have ids: "gt_slots g k = Some u \<Longrightarrow> sl_id u = sl_id s \<Longrightarrow> k = key" for k u
    using slot d(4)[of k u] d(5)[of k u key s] by auto
  have lead: "gs u = Some a \<Longrightarrow> fg_leader a \<Longrightarrow> fg_key a = key \<Longrightarrow> sl_has_leader s \<or> gt_ready g (sl_id s)" for u a
    using slot none d(7)[of u a s] d(3)[of u a] by (fastforce simp: joined_def)
  have idk: "gs u = Some a \<Longrightarrow> fg_key a = key \<Longrightarrow> fg_id a = sl_id s" for u a
    using slot d(3)[of u a] by auto
  show "gate_fits g' (gs(t := Some gd))"
    unfolding gate_fits_def
  proof (intro conjI allI impI)
    show "finite (dom (gs(t := Some gd)))" using d(1) by simp
    show "card (dom (gs(t := Some gd))) < 2 ^ 32"
      using c d(1) by (simp add: card_insert_if t domIff)
  next
    fix u a assume "(gs(t := Some gd)) u = Some a"
    then show "\<exists>x. gt_slots g' (fg_key a) = Some x \<and> sl_id x = fg_id a"
      using d(3)[of u a] slot by (auto simp: g' gd s'_def split: if_splits)
  next
    fix k x assume x: "gt_slots g' k = Some x"
    show "unat (sl_refs x) = card (joined (gs(t := Some gd)) k)"
      using x refs' d(4)[of k x] nt[of k] by (auto simp: g' gd joined_upd split: if_splits)
    show "joined (gs(t := Some gd)) k \<noteq> {}"
      using x d(4)[of k x] nt[of k] by (auto simp: g' gd joined_upd split: if_splits)
    show "sl_id x < gt_next g'"
      using x d(4)[of k x] idn nn by (auto simp: g' s'_def split: if_splits)
  next
    fix k x k' x' assume "gt_slots g' k = Some x" "gt_slots g' k' = Some x'" "sl_id x = sl_id x'"
    then show "k = k'" using d(5)[of k x k' x'] ids[of k x] ids[of k' x'] by (auto simp: g' s'_def split: if_splits)
  next
    fix i assume "gt_ready g' i"
    then show "i < gt_next g'" using d(6)[of i] nn by (simp add: g')
  next
    fix u a x assume "(gs(t := Some gd)) u = Some a" "fg_leader a" "gt_slots g' (fg_key a) = Some x"
    then show "sl_has_leader x \<or> gt_ready g' (fg_id a)"
      using d(7)[of u a x] lead[of u a] idk[of u a] by (auto simp: g' gd s'_def split: if_splits)
  next
    fix u v a b assume "(gs(t := Some gd)) u = Some a" "(gs(t := Some gd)) v = Some b" "fg_leader a" "fg_leader b" "fg_key a = fg_key b"
    then show "u = v" using d(8)[of u a v b] lead[of u a] lead[of v b] by (auto simp: gd split: if_splits)
  qed
qed

lemma ready_store_fits:
  assumes fit: "gate_fits g gs" and t: "gs t = Some gd"
  shows "gate_fits (ready_store gd g) gs"
proof -
  note d = gate_fitsD[OF fit]
  have eq: "gt_slots (ready_store gd g) = gt_slots g" "gt_next (ready_store gd g) = gt_next g"
    "gt_ready (ready_store gd g) i = (i = fg_id gd \<or> gt_ready g i)" for i
    by (auto simp: ready_store_def)
  have "fg_id gd < gt_next g" using d(3)[OF t] d(4)[of "fg_key gd"] by auto
  then show ?thesis unfolding gate_fits_def eq using d by (intro conjI allI impI) blast+
qed

lemma ready_clear_fits:
  assumes fit: "gate_fits g gs" and t: "gs t = Some gd" "fg_leader gd" "gt_ready g (fg_id gd)"
  shows "gate_fits (ready_clear gd g) gs" and "gt_ready (ready_clear gd g) = gt_ready g"
proof -
  note d = gate_fitsD[OF fit]
  obtain s where s: "gt_slots g (fg_key gd) = Some s" "sl_id s = fg_id gd" using d(3)[OF t(1)] by blast
  have g: "gt_slots (ready_clear gd g) k = (if k = fg_key gd then Some (s\<lparr>sl_has_leader := False\<rparr>) else gt_slots g k)"
    "gt_ready (ready_clear gd g) = gt_ready g" "gt_next (ready_clear gd g) = gt_next g" for k
    using s by (auto simp: ready_clear_def)
  show "gt_ready (ready_clear gd g) = gt_ready g" by (rule g(2))
  show "gate_fits (ready_clear gd g) gs"
    unfolding gate_fits_def
  proof (intro conjI allI impI)
    show "finite (dom gs)" "card (dom gs) < 2 ^ 32" using d(1,2) .
  next
    fix u a assume "gs u = Some a"
    then show "\<exists>x. gt_slots (ready_clear gd g) (fg_key a) = Some x \<and> sl_id x = fg_id a"
      using d(3)[of u a] s by (auto simp: g)
  next
    fix k x assume "gt_slots (ready_clear gd g) k = Some x"
    then show "unat (sl_refs x) = card (joined gs k)" "joined gs k \<noteq> {}" "sl_id x < gt_next (ready_clear gd g)"
      using d(4)[of k] s by (auto simp: g split: if_splits)
  next
    fix k x k' x' assume "gt_slots (ready_clear gd g) k = Some x" "gt_slots (ready_clear gd g) k' = Some x'" "sl_id x = sl_id x'"
    then show "k = k'" using d(5)[of k x k' x'] d(5)[of "fg_key gd" s k' x'] d(5)[of k x "fg_key gd" s] s by (auto simp: g split: if_splits)
  next
    fix i assume "gt_ready (ready_clear gd g) i"
    then show "i < gt_next (ready_clear gd g)" using d(6) by (simp add: g)
  next
    fix u a x assume a: "gs u = Some a" "fg_leader a" "gt_slots (ready_clear gd g) (fg_key a) = Some x"
    show "sl_has_leader x \<or> gt_ready (ready_clear gd g) (fg_id a)"
    proof (cases "fg_key a = fg_key gd")
      case True
      then have "u = t" using d(8)[OF a(1) t(1) a(2) t(2)] by simp
      then show ?thesis unfolding g(2) using a(1) t(1,3) by simp
    next
      case False
      then show ?thesis using a d(7)[OF a(1,2)] by (auto simp: g)
    qed
  next
    fix u v a b assume "gs u = Some a" "gs v = Some b" "fg_leader a" "fg_leader b" "fg_key a = fg_key b"
    then show "u = v" by (rule d(8))
  qed
qed

lemma gate_leave_fits:
  assumes fit: "gate_fits g gs" and t: "gs t = Some gd"
  shows "gate_fits (gate_leave gd g) (gs(t := None))" and "gt_ready (gate_leave gd g) = gt_ready g"
proof -
  note d = gate_fitsD[OF fit]
  obtain s where s: "gt_slots g (fg_key gd) = Some s" "sl_id s = fg_id gd" using d(3)[OF t(1)] by blast
  let ?s = "s\<lparr>sl_refs := saturating_sub (sl_refs s) 1, sl_has_leader := (if fg_leader gd then False else sl_has_leader s)\<rparr>"
  have g: "gt_slots (gate_leave gd g) k = (if k = fg_key gd then (if sl_refs ?s = 0 then None else Some ?s) else gt_slots g k)"
    "gt_ready (gate_leave gd g) = gt_ready g" "gt_next (gate_leave gd g) = gt_next g" for k
    using s by (auto simp: gate_leave_def Let_def)
  have m: "t \<in> joined gs (fg_key gd)" using t by (auto simp: joined_def)
  have refs: "unat (sl_refs ?s) = card (joined gs (fg_key gd) - {t})"
    using d(4)[OF s(1)] m joined_finite[OF fit] by (simp add: unat_saturating_sub card_Diff_singleton)
  have zero: "sl_refs ?s = 0 \<longleftrightarrow> joined gs (fg_key gd) - {t} = {}"
    using refs joined_finite[OF fit, of "fg_key gd"] by (metis card_0_eq finite_Diff unat_eq_zero)
  have other: "k \<noteq> fg_key gd \<Longrightarrow> t \<notin> joined gs k" for k using t by (auto simp: joined_def)
  show "gt_ready (gate_leave gd g) = gt_ready g" by (rule g(2))
  show "gate_fits (gate_leave gd g) (gs(t := None))"
    unfolding gate_fits_def
  proof (intro conjI allI impI)
    show "finite (dom (gs(t := None)))" using d(1) by simp
    have "card (dom (gs(t := None))) \<le> card (dom gs)" using d(1) by (intro card_mono) auto
    then show "card (dom (gs(t := None))) < 2 ^ 32" using d(2) by simp
  next
    fix u a assume a: "(gs(t := None)) u = Some a"
    then have "fg_key a = fg_key gd \<Longrightarrow> u \<in> joined gs (fg_key gd) - {t}" by (auto simp: joined_def split: if_splits)
    then show "\<exists>x. gt_slots (gate_leave gd g) (fg_key a) = Some x \<and> sl_id x = fg_id a"
      using a d(3)[of u a] s zero by (auto simp: g split: if_splits)
  next
    fix k x assume x: "gt_slots (gate_leave gd g) k = Some x"
    show "unat (sl_refs x) = card (joined (gs(t := None)) k)"
      using x refs d(4)[of k x] other[of k] by (auto simp: g joined_none split: if_splits)
    show "joined (gs(t := None)) k \<noteq> {}"
      using x zero d(4)[of k x] other[of k] by (auto simp: g joined_none split: if_splits)
    show "sl_id x < gt_next (gate_leave gd g)"
      using x d(4)[of k x] d(4)[OF s(1)] by (auto simp: g split: if_splits)
  next
    fix k x k' x' assume "gt_slots (gate_leave gd g) k = Some x" "gt_slots (gate_leave gd g) k' = Some x'" "sl_id x = sl_id x'"
    then show "k = k'" using d(5)[of k x k' x'] d(5)[of "fg_key gd" s k' x'] d(5)[of k x "fg_key gd" s] s by (auto simp: g split: if_splits)
  next
    fix i assume "gt_ready (gate_leave gd g) i"
    then show "i < gt_next (gate_leave gd g)" using d(6) by (simp add: g)
  next
    fix u a x assume a: "(gs(t := None)) u = Some a" "fg_leader a" "gt_slots (gate_leave gd g) (fg_key a) = Some x"
    then have u: "u \<noteq> t" "gs u = Some a" by (auto split: if_splits)
    show "sl_has_leader x \<or> gt_ready (gate_leave gd g) (fg_id a)"
    proof (cases "fg_key a = fg_key gd")
      case True
      then have "\<not> fg_leader gd" using d(8)[OF u(2) t a(2)] u(1) by auto
      then show ?thesis using a(3) True d(7)[OF u(2) a(2)] s by (auto simp: g split: if_splits)
    next
      case False
      then show ?thesis using a(3) d(7)[OF u(2) a(2)] by (simp add: g)
    qed
  next
    fix u v a b assume "(gs(t := None)) u = Some a" "(gs(t := None)) v = Some b" "fg_leader a" "fg_leader b" "fg_key a = fg_key b"
    then show "u = v" using d(8)[of u a v b] by (auto split: if_splits)
  qed
qed

section \<open>Every interleaving\<close>

definition guards_of :: "(nat \<Rightarrow> request option) \<Rightarrow> nat \<Rightarrow> guard option" where
  "guards_of rs t = map_option rq_guard (rs t)"

text \<open>A request that signals readiness: its flag is set and its notification is still to come.\<close>

definition signalling :: "(nat \<Rightarrow> request option) \<Rightarrow> nat \<Rightarrow> bool" where
  "signalling rs i \<longleftrightarrow> (\<exists>u q. rs u = Some q \<and> fg_id (rq_guard q) = i \<and> rq_phase q \<in> {Stored, Cleared})"

definition phase_ok :: "(nat \<Rightarrow> bool) \<Rightarrow> (nat \<Rightarrow> request option) \<Rightarrow> request \<Rightarrow> bool" where
  "phase_ok ready rs r \<longleftrightarrow>
     (rq_phase r \<in> {Stored, Cleared} \<longrightarrow> fg_leader (rq_guard r) \<and> ready (fg_id (rq_guard r)))
   \<and> (rq_phase r \<in> {Checked, Armed, Notified, Waiting} \<longrightarrow> \<not> fg_leader (rq_guard r))
   \<and> (rq_phase r = Waiting \<longrightarrow> ready (fg_id (rq_guard r)) \<longrightarrow> signalling rs (fg_id (rq_guard r)))"

definition fan_ok :: "fan \<Rightarrow> bool" where
  "fan_ok f \<longleftrightarrow> gate_fits (fn_gate f) (guards_of (fn_reqs f))
     \<and> (\<forall>t r. fn_reqs f t = Some r \<longrightarrow> phase_ok (gt_ready (fn_gate f)) (fn_reqs f) r)"

lemma advance_apply: "advance t p rs u = (if u = t then map_option (\<lambda>r. r\<lparr>rq_phase := p\<rparr>) (rs t) else rs u)"
  by (simp add: advance_def)

lemma guards_advance [simp]: "guards_of (advance t p rs) = guards_of rs"
  by (rule ext) (simp add: guards_of_def advance_apply option.map_comp comp_def)

lemma guards_notify [simp]: "guards_of (notify_waiters i rs) = guards_of rs"
  by (rule ext) (simp add: guards_of_def notify_waiters_def split: option.split)

lemma guards_upd: "guards_of (rs(t := Some r)) = (guards_of rs)(t := Some (rq_guard r))"
  "guards_of (rs(t := None)) = (guards_of rs)(t := None)"
  by (rule ext, simp add: guards_of_def)+

lemma wake_phases: "wake p \<in> {Stored, Cleared} \<longleftrightarrow> p \<in> {Stored, Cleared}" "wake p \<noteq> Waiting" "wake p \<noteq> Armed"
  "wake p \<in> {Checked, Armed, Notified, Waiting} \<Longrightarrow> p \<in> {Checked, Armed, Notified, Waiting}"
  by (cases p; simp add: wake_def)+

lemma signalling_keep:
  assumes "signalling rs i"
    and "\<And>u q. rs u = Some q \<Longrightarrow> fg_id (rq_guard q) = i \<Longrightarrow> rq_phase q \<in> {Stored, Cleared} \<Longrightarrow>
      \<exists>q'. rs' u = Some q' \<and> fg_id (rq_guard q') = i \<and> rq_phase q' \<in> {Stored, Cleared}"
  shows "signalling rs' i"
  using assms unfolding signalling_def by blast

lemma signalling_advance:
  assumes "rs t = Some r" "rq_phase r \<notin> {Stored, Cleared}" "signalling rs i"
  shows "signalling (advance t p rs) i"
  by (rule signalling_keep[OF assms(3)]) (use assms(1,2) in \<open>auto simp: advance_apply\<close>)

lemma signalling_notify: "signalling (notify_waiters j rs) i = signalling rs i"
proof
  assume "signalling rs i"
  then show "signalling (notify_waiters j rs) i"
    by (rule signalling_keep) (auto simp: notify_waiters_def wake_def)
next
  assume "signalling (notify_waiters j rs) i"
  then show "signalling rs i"
    by (rule signalling_keep) (auto simp: notify_waiters_def wake_def split: option.splits if_splits phase.splits)
qed

lemma phase_ok_weaken: "phase_ok ready rs r \<Longrightarrow> (signalling rs (fg_id (rq_guard r)) \<Longrightarrow> signalling rs' (fg_id (rq_guard r))) \<Longrightarrow> phase_ok ready rs' r"
  by (auto simp: phase_ok_def)

text \<open>A request that does not signal may move to any phase that is right for itself.\<close>

lemma phases_advance:
  assumes "\<forall>u q. rs u = Some q \<longrightarrow> phase_ok ready rs q" "rs t = Some r" "rq_phase r \<notin> {Stored, Cleared}"
    and "phase_ok ready rs (r\<lparr>rq_phase := p\<rparr>)" "p \<notin> {Stored, Cleared}"
  shows "\<forall>u q. advance t p rs u = Some q \<longrightarrow> phase_ok ready (advance t p rs) q"
proof (intro allI impI)
  fix u q assume q: "advance t p rs u = Some q"
  show "phase_ok ready (advance t p rs) q"
  proof (rule phase_ok_weaken)
    show "phase_ok ready rs q" using q assms(1,2,4) by (auto simp: advance_apply split: if_splits)
  qed (use signalling_advance[of rs t r _ p] assms(2,3) in blast)
qed

lemma phases_notify:
  assumes "\<forall>u q. rs u = Some q \<longrightarrow> fg_id (rq_guard q) \<noteq> i \<longrightarrow> phase_ok ready rs q"
    and "\<forall>u q. rs u = Some q \<longrightarrow> fg_id (rq_guard q) = i \<longrightarrow>
      (rq_phase q \<in> {Stored, Cleared} \<longrightarrow> fg_leader (rq_guard q) \<and> ready (fg_id (rq_guard q)))
      \<and> (rq_phase q \<in> {Checked, Armed, Notified, Waiting} \<longrightarrow> \<not> fg_leader (rq_guard q))"
  shows "\<forall>u q. notify_waiters i rs u = Some q \<longrightarrow> phase_ok ready (notify_waiters i rs) q"
proof (intro allI impI)
  fix u q assume "notify_waiters i rs u = Some q"
  then obtain q0 where q0: "rs u = Some q0" "q = (if fg_id (rq_guard q0) = i then q0\<lparr>rq_phase := wake (rq_phase q0)\<rparr> else q0)"
    by (auto simp: notify_waiters_def split: option.splits if_splits)
  show "phase_ok ready (notify_waiters i rs) q"
  proof (cases "fg_id (rq_guard q0) = i")
    case True
    then show ?thesis using assms(2) q0 wake_phases(1,2,4)[of "rq_phase q0"] by (fastforce simp: phase_ok_def)
  next
    case False
    then show ?thesis using assms(1) q0 by (auto simp: phase_ok_def signalling_notify)
  qed
qed

lemma fan_step_ok:
  assumes "fan_step t f f'" "fan_ok f"
  shows "fan_ok f'"
  using assms
proof (induction rule: fan_step.induct)
  case (enter f key g gd)
  have gd: "(guards_of (fn_reqs f)) t = None" using enter by (simp add: guards_of_def)
  have "card (dom (guards_of (fn_reqs f))) + 1 < 2 ^ 32" using enter(2) by (simp add: guards_of_def dom_def)
  note fits = gate_enter_fits[OF _ gd this enter(3)]
  have "phase_ok (gt_ready g) ((fn_reqs f)(t := Some \<lparr>rq_guard = gd, rq_phase = Entered\<rparr>)) r"
    if "((fn_reqs f)(t := Some \<lparr>rq_guard = gd, rq_phase = Entered\<rparr>)) u = Some r" for u r
  proof (cases "u = t")
    case True
    then show ?thesis using that by (auto simp: phase_ok_def)
  next
    case False
    then have "phase_ok (gt_ready (fn_gate f)) (fn_reqs f) r" using that enter.prems by (auto simp: fan_ok_def)
    moreover have "gt_ready g = gt_ready (fn_gate f)" using fits(2) enter.prems by (simp add: fan_ok_def)
    moreover have "signalling (fn_reqs f) i \<Longrightarrow> signalling ((fn_reqs f)(t := Some \<lparr>rq_guard = gd, rq_phase = Entered\<rparr>)) i" for i
      by (erule signalling_keep) (use enter(1) in auto)
    ultimately show ?thesis by (auto intro: phase_ok_weaken)
  qed
  then show ?case using fits(1) enter.prems by (simp add: fan_ok_def guards_upd)
next
  case (lead f r)
  have "\<forall>u q. advance t Sending (fn_reqs f) u = Some q \<longrightarrow> phase_ok (gt_ready (fn_gate f)) (advance t Sending (fn_reqs f)) q"
    by (rule phases_advance[where r = r]) (use lead in \<open>auto simp: fan_ok_def phase_ok_def\<close>)
  then show ?case using lead by (simp add: fan_ok_def)
next
  case (check f r)
  let ?p = "if gt_ready (fn_gate f) (fg_id (rq_guard r)) then Sending else Checked"
  have "\<forall>u q. advance t ?p (fn_reqs f) u = Some q \<longrightarrow> phase_ok (gt_ready (fn_gate f)) (advance t ?p (fn_reqs f)) q"
    by (rule phases_advance[where r = r]) (use check in \<open>auto simp: fan_ok_def phase_ok_def\<close>)
  then show ?case using check by (simp add: fan_ok_def)
next
  case (arm f r)
  then have "\<not> fg_leader (rq_guard r)" by (auto simp: fan_ok_def phase_ok_def)
  then have "\<forall>u q. advance t Armed (fn_reqs f) u = Some q \<longrightarrow> phase_ok (gt_ready (fn_gate f)) (advance t Armed (fn_reqs f)) q"
    by (intro phases_advance[where r = r]) (use arm in \<open>auto simp: fan_ok_def phase_ok_def\<close>)
  then show ?case using arm by (simp add: fan_ok_def)
next
  case (recheck f r)
  then have l: "\<not> fg_leader (rq_guard r)" by (auto simp: fan_ok_def phase_ok_def)
  let ?p = "if gt_ready (fn_gate f) (fg_id (rq_guard r)) then Sending else Waiting"
  have "\<forall>u q. advance t ?p (fn_reqs f) u = Some q \<longrightarrow> phase_ok (gt_ready (fn_gate f)) (advance t ?p (fn_reqs f)) q"
    by (rule phases_advance[where r = r]) (use recheck l in \<open>auto simp: fan_ok_def phase_ok_def\<close>)
  then show ?case using recheck by (simp add: fan_ok_def)
next
  case (resume f r)
  have "\<forall>u q. advance t Sending (fn_reqs f) u = Some q \<longrightarrow> phase_ok (gt_ready (fn_gate f)) (advance t Sending (fn_reqs f)) q"
    by (rule phases_advance[where r = r]) (use resume in \<open>auto simp: fan_ok_def phase_ok_def\<close>)
  then show ?case using resume by (simp add: fan_ok_def)
next
  case (timeout f r)
  have "\<forall>u q. advance t Sending (fn_reqs f) u = Some q \<longrightarrow> phase_ok (gt_ready (fn_gate f)) (advance t Sending (fn_reqs f)) q"
    by (rule phases_advance[where r = r]) (use timeout in \<open>auto simp: fan_ok_def phase_ok_def\<close>)
  then show ?case using timeout by (simp add: fan_ok_def)
next
  case (respond f r)
  have "\<forall>u q. advance t Answered (fn_reqs f) u = Some q \<longrightarrow> phase_ok (gt_ready (fn_gate f)) (advance t Answered (fn_reqs f)) q"
    by (rule phases_advance[where r = r]) (use respond in \<open>auto simp: fan_ok_def phase_ok_def\<close>)
  then show ?case using respond by (simp add: fan_ok_def)
next
  case (store f r)
  let ?rs = "advance t Stored (fn_reqs f)" let ?g = "ready_store (rq_guard r) (fn_gate f)"
  have fit: "gate_fits (fn_gate f) (guards_of (fn_reqs f))" using store by (simp add: fan_ok_def)
  have sig: "signalling ?rs (fg_id (rq_guard r))"
    unfolding signalling_def using store(1) by (intro exI[of _ t]) (simp add: advance_apply)
  have "phase_ok (gt_ready ?g) ?rs q" if "?rs u = Some q" for u q
  proof (cases "u = t")
    case True
    then show ?thesis using that store by (auto simp: advance_apply phase_ok_def ready_store_def)
  next
    case False
    then have "phase_ok (gt_ready (fn_gate f)) (fn_reqs f) q" using that store by (auto simp: fan_ok_def advance_apply)
    moreover have "signalling (fn_reqs f) i \<Longrightarrow> signalling ?rs i" for i by (rule signalling_advance) (use store in auto)
    ultimately show ?thesis using sig by (auto simp: phase_ok_def ready_store_def)
  qed
  moreover have "gate_fits ?g (guards_of (fn_reqs f))"
    by (rule ready_store_fits[OF fit, of t]) (use store in \<open>simp add: guards_of_def\<close>)
  ultimately show ?case by (simp add: fan_ok_def)
next
  case (clear f r)
  let ?rs = "advance t Cleared (fn_reqs f)" let ?g = "ready_clear (rq_guard r) (fn_gate f)"
  have fit: "gate_fits (fn_gate f) (guards_of (fn_reqs f))" using clear by (simp add: fan_ok_def)
  have ld: "fg_leader (rq_guard r)" "gt_ready (fn_gate f) (fg_id (rq_guard r))" using clear by (auto simp: fan_ok_def phase_ok_def)
  have gt: "guards_of (fn_reqs f) t = Some (rq_guard r)" using clear by (simp add: guards_of_def)
  have sig: "signalling (fn_reqs f) i \<Longrightarrow> signalling ?rs i" for i
    by (erule signalling_keep) (use clear(1) in \<open>auto simp: advance_apply\<close>)
  have "phase_ok (gt_ready (fn_gate f)) ?rs q" if "?rs u = Some q" for u q
    using that clear ld sig by (auto simp: fan_ok_def advance_apply phase_ok_def split: if_splits)
  then show ?case using ready_clear_fits[OF fit gt ld] by (simp add: fan_ok_def)
next
  case (notify f r)
  let ?i = "fg_id (rq_guard r)" let ?rs = "advance t Answered (fn_reqs f)"
  have ok: "phase_ok (gt_ready (fn_gate f)) (fn_reqs f) q" if "fn_reqs f u = Some q" for u q
    using that notify by (auto simp: fan_ok_def)
  have rd: "gt_ready (fn_gate f) ?i" using ok[OF notify(1)] notify(2) by (simp add: phase_ok_def)
  have sig: "signalling (fn_reqs f) i \<Longrightarrow> i \<noteq> ?i \<Longrightarrow> signalling ?rs i" for i
    by (erule signalling_keep) (use notify(1) in \<open>auto simp: advance_apply\<close>)
  have "\<forall>u q. notify_waiters ?i ?rs u = Some q \<longrightarrow> phase_ok (gt_ready (fn_gate f)) (notify_waiters ?i ?rs) q"
  proof (rule phases_notify)
    show "\<forall>u q. ?rs u = Some q \<longrightarrow> fg_id (rq_guard q) \<noteq> ?i \<longrightarrow> phase_ok (gt_ready (fn_gate f)) ?rs q"
      using ok sig by (auto simp: advance_apply phase_ok_def split: if_splits)
    show "\<forall>u q. ?rs u = Some q \<longrightarrow> fg_id (rq_guard q) = ?i \<longrightarrow>
      (rq_phase q \<in> {Stored, Cleared} \<longrightarrow> fg_leader (rq_guard q) \<and> gt_ready (fn_gate f) (fg_id (rq_guard q)))
      \<and> (rq_phase q \<in> {Checked, Armed, Notified, Waiting} \<longrightarrow> \<not> fg_leader (rq_guard q))"
      using ok rd by (auto simp: advance_apply phase_ok_def split: if_splits)
  qed
  then show ?case using notify by (simp add: fan_ok_def)
next
  case (drop f r)
  let ?i = "fg_id (rq_guard r)" let ?rs = "advance t Leaving (fn_reqs f)"
  have adv: "\<forall>u q. ?rs u = Some q \<longrightarrow> phase_ok (gt_ready (fn_gate f)) ?rs q"
    by (rule phases_advance[where r = r]) (use drop in \<open>auto simp: fan_ok_def phase_ok_def\<close>)
  moreover have "\<forall>u q. notify_waiters ?i ?rs u = Some q \<longrightarrow> phase_ok (gt_ready (fn_gate f)) (notify_waiters ?i ?rs) q"
    by (rule phases_notify) (use adv in \<open>unfold phase_ok_def, blast+\<close>)
  ultimately show ?case using drop by (simp add: fan_ok_def)
next
  case (leave f r)
  let ?rs = "(fn_reqs f)(t := None)"
  have fit: "gate_fits (fn_gate f) (guards_of (fn_reqs f))" using leave by (simp add: fan_ok_def)
  have gt: "guards_of (fn_reqs f) t = Some (rq_guard r)" using leave by (simp add: guards_of_def)
  have sig: "signalling (fn_reqs f) i \<Longrightarrow> signalling ?rs i" for i
    by (erule signalling_keep) (use leave(1,2) in auto)
  have "phase_ok (gt_ready (fn_gate f)) ?rs q" if "?rs u = Some q" for u q
    using that leave sig by (auto simp: fan_ok_def phase_ok_def split: if_splits)
  then show ?case using gate_leave_fits[OF fit gt] by (simp add: fan_ok_def guards_upd)
qed

lemma fan_reachable_ok: "fan_reachable f \<Longrightarrow> fan_ok f"
proof (induction rule: fan_reachable.induct)
  case init
  have "guards_of (\<lambda>_. None) = (\<lambda>_. None)" by (rule ext) (simp add: guards_of_def)
  then show ?case by (simp add: fan_ok_def fan_init_def gate_empty_def gate_fits_def)
next
  case (step f t f')
  then show ?case using fan_step_ok by blast
qed

lemma slot_iff_joined:
  assumes "gate_fits g gs"
  shows "gt_slots g k = None \<longleftrightarrow> joined gs k = {}"
proof
  assume "gt_slots g k = None"
  then show "joined gs k = {}" using gate_fitsD(3)[OF assms] by (fastforce simp: joined_def)
next
  assume "joined gs k = {}"
  then show "gt_slots g k = None" using gate_fitsD(4)[OF assms, of k] by (cases "gt_slots g k") auto
qed

section \<open>The keep-alive budget\<close>

text \<open>A sequence of \<open>due\<close> calls, each with its key and time.\<close>

fun ka_run :: "u64 \<Rightarrow> (string \<times> u64) list \<Rightarrow> keep_alive \<Rightarrow> (string \<times> template option) list" where
  "ka_run idle [] ka = []"
| "ka_run idle ((k, now) # cs) ka = (case ka_due k idle now ka of (ka', r) \<Rightarrow> (k, r) # ka_run idle cs ka')"

definition fires :: "string \<Rightarrow> (string \<times> template option) list \<Rightarrow> template list" where
  "fires key rs = [t. (k, Some t) \<leftarrow> rs, k = key]"

lemma ka_run_fires:
  assumes "ka key = Some e" "ke_fired e \<le> ke_max e"
  shows "fires key (ka_run idle cs ka) = replicate
    (min (unat (ke_max e) - unat (ke_fired e)) (length (filter (\<lambda>(k, now). k = key \<and> saturating_sub now (ke_last_seen_unix e) \<ge> idle) cs)))
    (ke_template e)"
  using assms
proof (induction cs arbitrary: ka e)
  case Nil
  then show ?case by (simp add: fires_def)
next
  case (Cons c cs)
  obtain k now where c: "c = (k, now)" by fastforce
  show ?case
  proof (cases "k = key")
    case False
    obtain ka' r where d: "ka_due k idle now ka = (ka', r)" by fastforce
    then have "ka' key = Some e" using Cons.prems(1) False by (auto simp: ka_due_def split: option.splits if_splits)
    then show ?thesis using Cons.IH[of ka' e] Cons.prems(2) c d False by (auto simp: fires_def split: option.splits)
  next
    case True
    let ?idle = "saturating_sub now (ke_last_seen_unix e) \<ge> idle"
    show ?thesis
    proof (cases "?idle \<and> ke_fired e < ke_max e")
      case fire: True
      let ?e = "e\<lparr>ke_fired := ke_fired e + 1\<rparr>"
      have d: "ka_due k idle now ka = (ka(key := Some ?e), Some (ke_template e))"
        using fire Cons.prems(1) True by (simp add: ka_due_def)
      have "unat (ke_max e) < 2 ^ 32" using unsigned_less[of "ke_max e"] by simp
      then have u: "unat (ke_fired e + 1) = unat (ke_fired e) + 1"
        using fire by (intro unat_inc) (simp add: word_less_nat_alt)
      have le: "ke_fired ?e \<le> ke_max ?e" using fire u by (simp add: word_le_nat_alt word_less_nat_alt)
      have "fires key (ka_run idle (c # cs) ka) = ke_template e # fires key (ka_run idle cs (ka(key := Some ?e)))"
        using c True d by (simp add: fires_def)
      also have "\<dots> = replicate (Suc (min (unat (ke_max e) - unat (ke_fired e) - 1)
          (length (filter (\<lambda>(k, now). k = key \<and> saturating_sub now (ke_last_seen_unix e) \<ge> idle) cs)))) (ke_template e)"
        using Cons.IH[of "ka(key := Some ?e)" ?e] le u by (simp add: fun_upd_def)
      also have "Suc (min (unat (ke_max e) - unat (ke_fired e) - 1)
          (length (filter (\<lambda>(k, now). k = key \<and> saturating_sub now (ke_last_seen_unix e) \<ge> idle) cs)))
        = min (unat (ke_max e) - unat (ke_fired e))
          (length (filter (\<lambda>(k, now). k = key \<and> saturating_sub now (ke_last_seen_unix e) \<ge> idle) (c # cs)))"
        using c True fire by (simp add: word_less_nat_alt min_def) linarith
      finally show ?thesis .
    next
      case False
      then have d: "ka_due k idle now ka = (ka, None)" using Cons.prems(1) True by (simp add: ka_due_def)
      have z: "\<not> ke_fired e < ke_max e \<Longrightarrow> unat (ke_max e) - unat (ke_fired e) = 0" by (simp add: word_less_nat_alt)
      show ?thesis using Cons.IH[of ka e] Cons.prems c True d False z by (auto simp: fires_def)
    qed
  qed
qed

section \<open>Claims\<close>

text \<open>C28: whatever the interleaving of requests entering, waiting, answering, failing and leaving, at most one of
  the requests that share a prefix is the leader at a time, and a slot exists exactly as long as a request
  of its prefix is in flight, so the gate does not grow.\<close>

theorem fanout_one_leader:
  assumes "fan_reachable f"
  shows "(\<forall>t u a b. fn_reqs f t = Some a \<and> fn_reqs f u = Some b \<and> fg_leader (rq_guard a) \<and> fg_leader (rq_guard b)
      \<and> fg_key (rq_guard a) = fg_key (rq_guard b) \<longrightarrow> t = u)
    \<and> (\<forall>k. (gt_slots (fn_gate f) k \<noteq> None) = (\<exists>t a. fn_reqs f t = Some a \<and> fg_key (rq_guard a) = k))"
proof -
  have fit: "gate_fits (fn_gate f) (guards_of (fn_reqs f))" using fan_reachable_ok[OF assms] by (simp add: fan_ok_def)
  show ?thesis
  proof (intro conjI allI impI)
    fix t u a b
    assume "fn_reqs f t = Some a \<and> fn_reqs f u = Some b \<and> fg_leader (rq_guard a) \<and> fg_leader (rq_guard b)
      \<and> fg_key (rq_guard a) = fg_key (rq_guard b)"
    then show "t = u" using gate_fitsD(8)[OF fit, of t "rq_guard a" u "rq_guard b"] by (simp add: guards_of_def)
  next
    fix k
    show "(gt_slots (fn_gate f) k \<noteq> None) = (\<exists>t a. fn_reqs f t = Some a \<and> fg_key (rq_guard a) = k)"
      using slot_iff_joined[OF fit, of k] by (auto simp: joined_def guards_of_def)
  qed
qed

definition two_requests :: fan where
  "two_requests = \<lparr>fn_gate = fst (gate_enter ''p'' (fst (gate_enter ''p'' gate_empty))),
     fn_reqs = (\<lambda>_. None)(1 := Some \<lparr>rq_guard = snd (gate_enter ''p'' gate_empty), rq_phase = Entered\<rparr>,
       2 := Some \<lparr>rq_guard = snd (gate_enter ''p'' (fst (gate_enter ''p'' gate_empty))), rq_phase = Entered\<rparr>)\<rparr>"

lemma two_requests_reachable: "fan_reachable two_requests"
proof -
  let ?f = "\<lparr>fn_gate = fst (gate_enter ''p'' gate_empty),
     fn_reqs = (\<lambda>_. None)(1 := Some \<lparr>rq_guard = snd (gate_enter ''p'' gate_empty), rq_phase = Entered\<rparr>)\<rparr>"
  have "fan_step 1 fan_init ?f"
    using fan_step.enter[of fan_init 1 "''p''" "fst (gate_enter ''p'' gate_empty)" "snd (gate_enter ''p'' gate_empty)"]
    by (simp add: fan_init_def)
  then have r: "fan_reachable ?f" by (rule fan_reachable.step[OF fan_reachable.init])
  have "fan_step 2 ?f \<lparr>fn_gate = fst (gate_enter ''p'' (fn_gate ?f)),
      fn_reqs = (fn_reqs ?f)(2 := Some \<lparr>rq_guard = snd (gate_enter ''p'' (fn_gate ?f)), rq_phase = Entered\<rparr>)\<rparr>"
    by (rule fan_step.enter[where key = "''p''"]) (simp_all add: dom_def)
  from fan_reachable.step[OF r this] show ?thesis by (simp add: two_requests_def)
qed

theorem fanout_one_leader_witness:
  "\<exists>f. fan_reachable f \<and> gt_slots (fn_gate f) ''p'' \<noteq> None \<and> gt_slots (fn_gate f) ''q'' = None
     \<and> fn_reqs f 1 \<noteq> None \<and> fn_reqs f 2 \<noteq> None"
proof -
  note c = fanout_one_leader[OF two_requests_reachable, THEN conjunct2, rule_format]
  have "gt_slots (fn_gate two_requests) ''p'' \<noteq> None" "gt_slots (fn_gate two_requests) ''q'' = None"
    using c[of "''p''"] c[of "''q''"] by (auto simp: two_requests_def gate_enter_def gate_empty_def split: if_splits)
  then show ?thesis using two_requests_reachable by (intro exI[of _ two_requests]) (simp add: two_requests_def)
qed

text \<open>C29: a leader that answered wakes every sibling. If a request waits on its notification although the leader of its prefix has already
  marked the prefix ready, the leader is between the mark and its notification, where nothing can stop it (only the request's own next step is
  possible); and when it sends the notification, no request of the prefix waits any more. So no interleaving of registering,
  checking and notifying lets a sibling sleep through the notification. (A leader that fails before it
  answers is another case, which a finding describes.)\<close>

theorem fanout_no_lost_wakeup:
  assumes "fan_reachable f"
  shows "(\<forall>t r. fn_reqs f t = Some r \<and> rq_phase r = Waiting \<and> gt_ready (fn_gate f) (fg_id (rq_guard r))
        \<longrightarrow> (\<exists>u q. fn_reqs f u = Some q \<and> fg_id (rq_guard q) = fg_id (rq_guard r) \<and> fg_leader (rq_guard q)
              \<and> (rq_phase q = Stored \<or> rq_phase q = Cleared)
              \<and> (\<forall>f'. fan_step u f f' \<longrightarrow> (\<exists>q'. fn_reqs f' u = Some q' \<and> rq_guard q' = rq_guard q
                   \<and> rq_phase q' = (if rq_phase q = Stored then Cleared else Answered)))))
    \<and> (\<forall>u q f'. fn_reqs f u = Some q \<and> rq_phase q = Cleared \<and> fan_step u f f'
        \<longrightarrow> (\<forall>t r. fn_reqs f' t = Some r \<and> fg_id (rq_guard r) = fg_id (rq_guard q) \<longrightarrow> rq_phase r \<noteq> Waiting))"
proof (intro conjI allI impI)
  fix t r assume "fn_reqs f t = Some r \<and> rq_phase r = Waiting \<and> gt_ready (fn_gate f) (fg_id (rq_guard r))"
  then have "signalling (fn_reqs f) (fg_id (rq_guard r))" using fan_reachable_ok[OF assms] by (auto simp: fan_ok_def phase_ok_def)
  then obtain u q where u: "fn_reqs f u = Some q" "fg_id (rq_guard q) = fg_id (rq_guard r)" "rq_phase q \<in> {Stored, Cleared}"
    by (auto simp: signalling_def)
  have l: "fg_leader (rq_guard q)" using fan_reachable_ok[OF assms] u by (auto simp: fan_ok_def phase_ok_def)
  have "\<exists>q'. fn_reqs f' u = Some q' \<and> rq_guard q' = rq_guard q \<and> rq_phase q' = (if rq_phase q = Stored then Cleared else Answered)"
    if "fan_step u f f'" for f'
    using that by (cases rule: fan_step.cases) (use u in \<open>auto simp: advance_apply notify_waiters_def wake_def\<close>)
  with u l show "\<exists>u q. fn_reqs f u = Some q \<and> fg_id (rq_guard q) = fg_id (rq_guard r) \<and> fg_leader (rq_guard q)
      \<and> (rq_phase q = Stored \<or> rq_phase q = Cleared)
      \<and> (\<forall>f'. fan_step u f f' \<longrightarrow> (\<exists>q'. fn_reqs f' u = Some q' \<and> rq_guard q' = rq_guard q
           \<and> rq_phase q' = (if rq_phase q = Stored then Cleared else Answered)))" by blast
next
  fix u q f' t r
  assume q: "fn_reqs f u = Some q \<and> rq_phase q = Cleared \<and> fan_step u f f'" and r: "fn_reqs f' t = Some r \<and> fg_id (rq_guard r) = fg_id (rq_guard q)"
  from q have "fan_step u f f'" by blast
  then have "fn_reqs f' = notify_waiters (fg_id (rq_guard q)) (advance u Answered (fn_reqs f))"
    by (cases rule: fan_step.cases) (use q in auto)
  with r show "rq_phase r \<noteq> Waiting" using wake_phases(2) by (auto simp: notify_waiters_def split: option.splits if_splits)
qed

text \<open>The two requests when the second one waits and the first one has just marked the prefix ready.\<close>

definition two_at :: "gate \<Rightarrow> phase \<Rightarrow> phase \<Rightarrow> fan" where
  "two_at g p q = \<lparr>fn_gate = g, fn_reqs = (\<lambda>_. None)(1 := Some \<lparr>rq_guard = snd (gate_enter ''p'' gate_empty), rq_phase = p\<rparr>,
     2 := Some \<lparr>rq_guard = snd (gate_enter ''p'' (fst (gate_enter ''p'' gate_empty))), rq_phase = q\<rparr>)\<rparr>"

lemma two_at_advance:
  "(two_at g p q)\<lparr>fn_reqs := advance 1 p' (fn_reqs (two_at g p q))\<rparr> = two_at g p' q"
  "(two_at g p q)\<lparr>fn_reqs := advance 2 q' (fn_reqs (two_at g p q))\<rparr> = two_at g p q'"
  "\<lparr>fn_gate = g', fn_reqs = advance 1 p' (fn_reqs (two_at g p q))\<rparr> = two_at g' p' q"
  by (auto simp: two_at_def advance_apply fun_eq_iff)

lemma two_at_reachable:
  "fan_reachable (two_at (ready_store (snd (gate_enter ''p'' gate_empty)) (fst (gate_enter ''p'' (fst (gate_enter ''p'' gate_empty))))) Stored Waiting)"
proof -
  let ?g = "fst (gate_enter ''p'' (fst (gate_enter ''p'' gate_empty)))"
  let ?a = "snd (gate_enter ''p'' gate_empty)" and ?b = "snd (gate_enter ''p'' (fst (gate_enter ''p'' gate_empty)))"
  have r1: "fn_reqs (two_at g p q) 1 = Some \<lparr>rq_guard = ?a, rq_phase = p\<rparr>" for g p q by (simp add: two_at_def)
  have r2: "fn_reqs (two_at g p q) 2 = Some \<lparr>rq_guard = ?b, rq_phase = q\<rparr>" for g p q by (simp add: two_at_def)
  have l: "fg_leader ?a" "\<not> fg_leader ?b" "\<not> gt_ready ?g (fg_id ?b)" by (simp_all add: gate_enter_def gate_empty_def Let_def)
  have g: "fn_gate (two_at g p q) = g" for g p q by (simp add: two_at_def)
  have s0: "fan_reachable (two_at ?g Entered Entered)" using two_requests_reachable by (simp add: two_requests_def two_at_def)
  have s1: "fan_reachable (two_at ?g Sending Entered)"
    using fan_reachable.step[OF s0 fan_step.lead[OF r1]] l by (simp add: two_at_advance del: One_nat_def)
  have s2: "fan_reachable (two_at ?g Sending Checked)"
    using fan_reachable.step[OF s1 fan_step.check[OF r2]] l by (simp add: two_at_advance g del: One_nat_def)
  have s3: "fan_reachable (two_at ?g Sending Armed)"
    using fan_reachable.step[OF s2 fan_step.arm[OF r2]] by (simp add: two_at_advance del: One_nat_def)
  have s4: "fan_reachable (two_at ?g Sending Waiting)"
    using fan_reachable.step[OF s3 fan_step.recheck[OF r2]] l by (simp add: two_at_advance g del: One_nat_def)
  show ?thesis
    using fan_reachable.step[OF s4 fan_step.store[OF r1]] l by (simp add: two_at_advance g del: One_nat_def)
qed

theorem fanout_no_lost_wakeup_witness:
  "\<exists>f r. fan_reachable f \<and> fn_reqs f 2 = Some r \<and> rq_phase r = Waiting \<and> gt_ready (fn_gate f) (fg_id (rq_guard r))
    \<and> (\<exists>u q. fn_reqs f u = Some q \<and> fg_id (rq_guard q) = fg_id (rq_guard r) \<and> fg_leader (rq_guard q))"
proof -
  let ?f = "two_at (ready_store (snd (gate_enter ''p'' gate_empty)) (fst (gate_enter ''p'' (fst (gate_enter ''p'' gate_empty))))) Stored Waiting"
  let ?r = "\<lparr>rq_guard = snd (gate_enter ''p'' (fst (gate_enter ''p'' gate_empty))), rq_phase = Waiting\<rparr>"
  have r: "fn_reqs ?f 2 = Some ?r \<and> rq_phase ?r = Waiting \<and> gt_ready (fn_gate ?f) (fg_id (rq_guard ?r))"
    by (simp add: two_at_def ready_store_def gate_enter_def gate_empty_def Let_def)
  from fanout_no_lost_wakeup[OF two_at_reachable, THEN conjunct1, rule_format, OF r] r two_at_reachable show ?thesis by blast
qed

text \<open>Pre-warms are bounded. After a real request, however often the watchers ask and for whichever keys, a key
  fires once for each of its own calls that finds it idle long enough, up to the maximum of the last
  request and no further, always with that request's template; and a second request starts no second
  watcher.\<close>

theorem keepalive_bounded:
  "fires key (ka_run idle cs (fst (ka_arm key tmpl mx now ka))) =
     replicate (min (unat mx) (length (filter (\<lambda>(k, t). k = key \<and> saturating_sub t now \<ge> idle) cs))) tmpl
   \<and> \<not> snd (ka_arm key tmpl' mx' now' (fst (ka_arm key tmpl mx now ka)))"
proof -
  define e where "e = the (fst (ka_arm key tmpl mx now ka) key)"
  have e: "fst (ka_arm key tmpl mx now ka) key = Some e" "ke_template e = tmpl" "ke_last_seen_unix e = now"
      "ke_fired e = 0" "ke_max e = mx" "ke_watching e"
    by (simp_all add: e_def ka_arm_def Let_def)
  have "snd (ka_arm key tmpl' mx' now' k) = (\<not> ke_watching e)" if "k key = Some e" for k
    using that by (simp add: ka_arm_def Let_def)
  then show ?thesis using ka_run_fires[where ka = "fst (ka_arm key tmpl mx now ka)" and key = key and e = e, of idle cs] e by simp
qed

end
