(* ===== verification/Text_Ops.thy ===== *)
theory Text_Ops
  imports Rail_Prelude
begin

text \<open>
  What the proxy uses of Rust's text operations beyond the prelude: lossy decoding of UTF-8, the first
  line, splitting and trimming at Unicode white space, and parsing a port.
\<close>

section \<open>Lossy decoding\<close>

text \<open>\<open>String::from_utf8_lossy\<close>: the next character of a byte string, or the longest piece that starts
  one and cannot be continued, with its length.\<close>

definition utf8_second :: "nat \<Rightarrow> char \<Rightarrow> bool" where
  "utf8_second x b \<longleftrightarrow> is_utf8_cont b \<and> (x = 224 \<longrightarrow> 160 \<le> bval b) \<and> (x = 237 \<longrightarrow> bval b \<le> 159)
     \<and> (x = 240 \<longrightarrow> 144 \<le> bval b) \<and> (x = 244 \<longrightarrow> bval b \<le> 143)"

definition utf8_width :: "nat \<Rightarrow> nat" where
  "utf8_width x = (if x < 128 then 1 else if 194 \<le> x \<and> x \<le> 223 then 2 else if 224 \<le> x \<and> x \<le> 239 then 3
     else if 240 \<le> x \<and> x \<le> 244 then 4 else 0)"

fun utf8_tail :: "nat \<Rightarrow> bytes \<Rightarrow> nat" where
  "utf8_tail (Suc n) (b # s) = (if is_utf8_cont b then Suc (utf8_tail n s) else 0)"
| "utf8_tail n s = 0"

definition utf8_piece :: "char \<Rightarrow> bytes \<Rightarrow> bool \<times> nat" where
  "utf8_piece a s =
     (let w = utf8_width (bval a);
          k = (if w \<le> 1 then 0
               else (case s of b # _ \<Rightarrow> if utf8_second (bval a) b then utf8_tail (w - 1) s else 0 | [] \<Rightarrow> 0))
      in (w > 0 \<and> k = w - 1, Suc k))"

definition REPLACEMENT :: bytes where
  "REPLACEMENT = [CHR 0xEF, CHR 0xBF, CHR 0xBD]"

function utf8_lossy :: "bytes \<Rightarrow> string" where
  "utf8_lossy [] = []"
| "utf8_lossy (a # s) = (case utf8_piece a s of (ok, n) \<Rightarrow>
     (if ok then take n (a # s) else REPLACEMENT) @ utf8_lossy (drop n (a # s)))"
  by pat_completeness auto
termination
  by (relation "measure length") (auto simp: utf8_piece_def Let_def)

declare utf8_lossy.simps(2) [simp del]

text \<open>\<open>lines().next()\<close>.\<close>

definition first_line :: "string \<Rightarrow> string" where
  "first_line s =
     (let l = takeWhile (\<lambda>c. c \<noteq> CHR 0x0A) s in
      if CHR 0x0A \<in> set s then (case strip_suffix [CHR 0x0D] l of Some t \<Rightarrow> t | None \<Rightarrow> l) else l)"

text \<open>\<open>split_whitespace\<close>: the length of the Unicode white space a text starts with, if it does.\<close>

definition ws_width :: "string \<Rightarrow> nat" where
  "ws_width s = (case s of [] \<Rightarrow> 0 | a # t \<Rightarrow>
     (let x = bval a in
      if x = 32 \<or> 9 \<le> x \<and> x \<le> 13 then 1
      else (case t of [] \<Rightarrow> 0 | b # u \<Rightarrow>
        if x = 194 \<and> (bval b = 133 \<or> bval b = 160) then 2
        else (case u of [] \<Rightarrow> 0 | c # _ \<Rightarrow>
          if (x, bval b, bval c) = (225, 154, 128) \<or> (x, bval b, bval c) = (227, 128, 128)
             \<or> (x, bval b, bval c) = (226, 129, 159)
             \<or> (x = 226 \<and> bval b = 128 \<and> (128 \<le> bval c \<and> bval c \<le> 138 \<or> bval c \<in> {168, 169, 175}))
          then 3 else 0))))"

function split_ws_from :: "string \<Rightarrow> string \<Rightarrow> string list" where
  "split_ws_from cur [] = (if cur = [] then [] else [cur])"
| "split_ws_from cur (c # s) =
     (let n = ws_width (c # s) in
      if n = 0 then split_ws_from (cur @ [c]) s
      else (if cur = [] then [] else [cur]) @ split_ws_from [] (drop n (c # s)))"
  by pat_completeness auto
termination
  by (relation "measure (\<lambda>(cur, s). length s)") auto

declare split_ws_from.simps(2) [simp del]

definition split_whitespace :: "string \<Rightarrow> string list" where
  "split_whitespace s = split_ws_from [] s"

text \<open>\<open>parse::<u16>\<close>: an optional plus sign and decimal digits that fit.\<close>

definition parse_u16 :: "string \<Rightarrow> u16 option" where
  "parse_u16 s =
     (let ds = (case strip_prefix ''+'' s of Some t \<Rightarrow> t | None \<Rightarrow> s);
          n = foldl (\<lambda>n c. n * 10 + (bval c - 48)) 0 ds
      in if ds \<noteq> [] \<and> list_all is_ascii_digit ds \<and> n < 2 ^ 16 then Some (word_of_nat n) else None)"

text \<open>\<open>str::trim\<close>.\<close>

lemma ws_width_le: "ws_width s \<le> length s"
  by (auto simp: ws_width_def Let_def split: list.split)

function trim_start :: "string \<Rightarrow> string" where
  "trim_start s = (if ws_width s = 0 then s else trim_start (drop (ws_width s) s))"
  by pat_completeness auto
termination
proof (relation "measure length", goal_cases)
  case (2 s)
  then show ?case using ws_width_le[of s] by auto
qed simp

declare trim_start.simps [simp del]

fun trim_end :: "string \<Rightarrow> string" where
  "trim_end [] = []"
| "trim_end (c # s) = (if trim_start (c # s) = [] then [] else c # trim_end s)"

definition str_trim :: "string \<Rightarrow> string" where
  "str_trim s = trim_end (trim_start s)"

section \<open>Lossy text\<close>

lemma utf8_tail_le: "utf8_tail n s \<le> n" "utf8_tail n s \<le> length s"
  by (induction n s rule: utf8_tail.induct) auto

lemma utf8_valid_piece:
  assumes "utf8_valid (a # s)"
  shows "\<exists>n. utf8_piece a s = (True, n) \<and> utf8_valid (drop n (a # s)) \<and> n \<le> length (a # s)"
  using assms
  by (auto simp: utf8_piece_def utf8_width_def utf8_second_def Let_def numeral_2_eq_2 numeral_3_eq_3 split: if_splits list.splits)

lemma utf8_lossy_valid: "utf8_valid s \<Longrightarrow> utf8_lossy s = s"
proof (induction s rule: utf8_lossy.induct)
  case (2 a s)
  obtain n where n: "utf8_piece a s = (True, n)" "utf8_valid (drop n (a # s))" "n \<le> length (a # s)"
    using utf8_valid_piece[OF "2.prems"] by blast
  then have "utf8_lossy (drop n (a # s)) = drop n (a # s)" using "2.IH"[of True n] by simp
  then show ?case using n by (simp add: utf8_lossy.simps(2))
qed simp

lemma utf8_tail_full: "utf8_tail (Suc n) s = Suc n \<longleftrightarrow> (\<exists>b t. s = b # t \<and> is_utf8_cont b \<and> utf8_tail n t = n)"
  by (cases s) auto

lemma utf8_piece_valid:
  assumes "utf8_piece a s = (True, n)" "utf8_valid t"
  shows "utf8_valid (take n (a # s) @ t)"
  using assms
  by (auto simp: utf8_piece_def utf8_width_def utf8_second_def utf8_tail_full Let_def numeral_2_eq_2 numeral_3_eq_3
      split: if_splits list.splits)

lemma replacement_valid: "utf8_valid t \<Longrightarrow> utf8_valid (REPLACEMENT @ t)"
  by (simp add: REPLACEMENT_def is_utf8_cont_def)

lemma utf8_lossy_is_valid: "utf8_valid (utf8_lossy s)"
proof (induction s rule: utf8_lossy.induct)
  case (2 a s)
  obtain ok n where p: "utf8_piece a s = (ok, n)" by fastforce
  then have "utf8_valid (utf8_lossy (drop n (a # s)))" using "2.IH"[of ok n] by simp
  then show ?case using p utf8_piece_valid[of a s n] replacement_valid by (cases ok) (auto simp: utf8_lossy.simps(2))
qed simp

lemma utf8_lossy_ascii: "bval a < 128 \<Longrightarrow> utf8_lossy (a # s) = a # utf8_lossy s"
  by (simp add: utf8_lossy.simps(2) utf8_piece_def utf8_width_def Let_def)

lemma utf8_lossy_ascii_append: "list_all (\<lambda>c. bval c < 128) p \<Longrightarrow> utf8_lossy (p @ s) = p @ utf8_lossy s"
  by (induction p) (simp_all add: utf8_lossy_ascii)

section \<open>Splitting\<close>

definition visible :: "char \<Rightarrow> bool" where
  "visible c \<longleftrightarrow> 33 \<le> bval c \<and> bval c \<le> 126"

lemma ws_width_visible: "visible c \<Longrightarrow> ws_width (c # s) = 0"
  by (auto simp: ws_width_def visible_def Let_def split: list.split)

lemma split_ws_visible: "list_all visible w \<Longrightarrow> split_ws_from cur (w @ s) = split_ws_from (cur @ w) s"
  by (induction w arbitrary: cur) (simp_all add: split_ws_from.simps(2) ws_width_visible)

lemma split_ws_space: "split_ws_from cur (CHR '' '' # s) = (if cur = [] then [] else [cur]) @ split_ws_from [] s"
  by (simp add: split_ws_from.simps(2) ws_width_def)

lemma split_whitespace_word: "list_all visible w \<Longrightarrow> w \<noteq> [] \<Longrightarrow> split_whitespace (w @ CHR '' '' # s) = w # split_whitespace s"
  by (simp add: split_whitespace_def split_ws_visible split_ws_space)

lemma split_whitespace_last: "list_all visible w \<Longrightarrow> w \<noteq> [] \<Longrightarrow> split_whitespace w = [w]"
  using split_ws_visible[of w "[]" "[]"] by (simp add: split_whitespace_def)

lemma first_line_crlf:
  assumes "CHR 0x0A \<notin> set l"
  shows "first_line (l @ CHR 0x0D # CHR 0x0A # s) = l"
proof -
  have "takeWhile (\<lambda>c. c \<noteq> CHR 0x0A) (l @ CHR 0x0D # CHR 0x0A # s) = l @ [CHR 0x0D]"
    using assms by (subst takeWhile_append2) auto
  then show ?thesis by (simp add: first_line_def strip_suffix_def suffix_def)
qed

lemma rsplit_once_last: "k \<notin> set p \<Longrightarrow> rsplit_once k (h @ k # p) = Some (h, p)"
proof -
  assume "k \<notin> set p"
  then have "dropWhile (\<lambda>c. c \<noteq> k) (rev p @ k # rev h) = k # rev h" "takeWhile (\<lambda>c. c \<noteq> k) (rev p @ k # rev h) = rev p"
    by (auto intro!: dropWhile_append2[THEN trans] takeWhile_append2[THEN trans])
  then show ?thesis by (simp add: rsplit_once_def)
qed

lemma show_nat_digits: "list_all is_ascii_digit (show_nat n)"
proof (induction n rule: show_nat.induct)
  case (1 n)
  then show ?case by (subst show_nat.simps) (cases "n < 10"; simp; simp add: is_ascii_digit_def)
qed

lemma show_nat_nonempty: "show_nat n \<noteq> []"
  by (subst show_nat.simps) simp

lemma show_nat_value: "foldl (\<lambda>n c. n * 10 + (bval c - 48)) 0 (show_nat n) = n"
proof (induction n rule: show_nat.induct)
  case (1 n)
  then show ?case by (subst show_nat.simps) auto
qed

lemma parse_u16_show: "parse_u16 (show_nat (unat p)) = Some p"
proof -
  have "\<not> prefix ''+'' (show_nat (unat p))"
    using show_nat_digits[of "unat p"] show_nat_nonempty[of "unat p"]
    by (cases "show_nat (unat p)") (auto simp: is_ascii_digit_def)
  moreover have "unat p < 2 ^ 16" using unsigned_less[of p] by simp
  ultimately show ?thesis
    by (simp add: parse_u16_def strip_prefix_def show_nat_digits show_nat_nonempty show_nat_value)
qed


lemma trim_start_visible: "s = [] \<or> visible (hd s) \<Longrightarrow> trim_start s = s"
  by (subst trim_start.simps, cases s) (auto simp: ws_width_visible, simp add: ws_width_def)

lemma trim_end_visible: "list_all visible s \<Longrightarrow> trim_end s = s"
  by (induction s) (auto simp: trim_start_visible)

lemma str_trim_visible: "list_all visible s \<Longrightarrow> str_trim s = s"
  by (cases s) (simp_all add: str_trim_def trim_start_visible trim_end_visible)

end
