(* ===== verification/Connection.thy ===== *)
theory Connection
  imports Text_Ops
begin

text \<open>
  How a client connection enters the proxy, \<^verbatim>\<open>src/src/proxy.rs\<close> from \<open>HeadRoute\<close> to
  \<open>serve_plain_http\<close> with \<open>read_request_head\<close> and \<open>Rewind\<close>: reading the request head, the route
  it names, the tunnel or the plain service, and the replay of the head's bytes to the HTTP parser. The
  socket is the list of what its reads deliver. The HTTP parser is outside; what it reports of a URI is
  an argument.
\<close>

section \<open>The route\<close>

record head_route =
  hr_method :: string
  hr_target :: string
  hr_host :: string
  hr_port :: u16

definition parse_head :: "bytes \<Rightarrow> head_route" where
  "parse_head head =
     (let parts = split_whitespace (first_line (utf8_lossy head));
          method = (case parts of m # _ \<Rightarrow> m | _ \<Rightarrow> []);
          target = (case parts of _ # t # _ \<Rightarrow> t | _ \<Rightarrow> []);
          (host, port) = (case rsplit_once (CHR '':'') target of
              Some (h, p) \<Rightarrow> (to_ascii_lowercase h, case parse_u16 p of Some n \<Rightarrow> n | None \<Rightarrow> 443)
            | None \<Rightarrow> (to_ascii_lowercase target, 443))
      in \<lparr>hr_method = method, hr_target = target, hr_host = host, hr_port = port\<rparr>)"

section \<open>The head\<close>

text \<open>What the reads of a socket deliver, one byte at a time: bytes, an error, or (at the end of the
  list) the end of the stream.\<close>

datatype read_event = Got char | ReadErr

datatype conn_error = ReadFailed | HeadTooLarge

definition HEAD_CAP :: nat where "HEAD_CAP = 16 * 1024"

abbreviation crlf2 :: bytes where "crlf2 \<equiv> [CHR 0x0D, CHR 0x0A, CHR 0x0D, CHR 0x0A]"

fun read_head_from :: "bytes \<Rightarrow> read_event list \<Rightarrow> (conn_error + bytes) \<times> read_event list" where
  "read_head_from buf [] = (Inr buf, [])"
| "read_head_from buf (ReadErr # es) = (Inl ReadFailed, es)"
| "read_head_from buf (Got c # es) =
     (let b = buf @ [c] in
      if ends_with b crlf2 then (Inr b, es)
      else if length b > HEAD_CAP then (Inl HeadTooLarge, es)
      else read_head_from b es)"

definition read_request_head :: "read_event list \<Rightarrow> (conn_error + bytes) \<times> read_event list" where
  "read_request_head es = read_head_from [] es"

section \<open>Replaying the head\<close>

text \<open>\<open>poll_read\<close> into a buffer with room for \<open>room\<close> bytes; \<open>avail\<close> is what the socket would deliver by
  itself at this moment.\<close>

record rewind =
  rw_prefix :: bytes
  rw_pos :: nat
  rw_inner :: bytes

definition rewind_new :: "bytes \<Rightarrow> bytes \<Rightarrow> rewind" where
  "rewind_new head inner = \<lparr>rw_prefix = head, rw_pos = 0, rw_inner = inner\<rparr>"

definition rewind_read :: "nat \<Rightarrow> nat \<Rightarrow> rewind \<Rightarrow> bytes \<times> rewind" where
  "rewind_read room avail r =
     (if rw_pos r < length (rw_prefix r) then
        (let n = min room (length (rw_prefix r) - rw_pos r)
         in (take n (drop (rw_pos r) (rw_prefix r)), r\<lparr>rw_pos := rw_pos r + n\<rparr>))
      else (let n = min room avail in (take n (rw_inner r), r\<lparr>rw_inner := drop n (rw_inner r)\<rparr>)))"

fun rewind_reads :: "(nat \<times> nat) list \<Rightarrow> rewind \<Rightarrow> bytes \<times> rewind" where
  "rewind_reads [] r = ([], r)"
| "rewind_reads ((room, avail) # cs) r =
     (let (x, r1) = rewind_read room avail r; (y, r2) = rewind_reads cs r1 in (x @ y, r2))"

section \<open>Connections\<close>

text \<open>What a connection becomes: a tunnel to one host and port, or a plain service that replays the head.\<close>

datatype conn = Tunnel string u16 | PlainService rewind

fun got_bytes :: "read_event list \<Rightarrow> bytes" where
  "got_bytes (Got c # es) = c # got_bytes es"
| "got_bytes _ = []"

definition handle_conn :: "read_event list \<Rightarrow> conn_error + conn" where
  "handle_conn es = (case read_request_head es of
     (Inl e, _) \<Rightarrow> Inl e
   | (Inr head, rest) \<Rightarrow>
       (let route = parse_head head in
        if \<not> eq_ignore_ascii_case (hr_method route) ''CONNECT'' then Inr (PlainService (rewind_new head (got_bytes rest)))
        else Inr (Tunnel (hr_host route) (hr_port route))))"

text \<open>The destination of one plain request, from the host and port its URI carries; \<open>None\<close> is the answer
  400.\<close>

definition plain_route :: "string option \<Rightarrow> u16 option \<Rightarrow> (string \<times> u16) option" where
  "plain_route uri_host uri_port =
     map_option (\<lambda>h. (to_ascii_lowercase h, case uri_port of Some p \<Rightarrow> p | None \<Rightarrow> 80)) uri_host"

section \<open>Reading the head\<close>

lemma read_head_ok:
  assumes "read_head_from buf es = (Inr head, rest)" "length buf \<le> HEAD_CAP"
  shows "\<exists>xs. head = buf @ xs \<and> es = map Got xs @ rest \<and> length head \<le> HEAD_CAP + 1
    \<and> (ends_with head crlf2 \<or> rest = []) \<and> (\<forall>k < length xs. 0 < k \<longrightarrow> \<not> ends_with (buf @ take k xs) crlf2)"
  using assms
proof (induction buf es rule: read_head_from.induct)
  case (3 buf c es)
  show ?case
  proof (cases "ends_with (buf @ [c]) crlf2")
    case True
    then show ?thesis using "3.prems" by (intro exI[of _ "[c]"]) (auto simp: Let_def)
  next
    case False
    then have l: "length (buf @ [c]) \<le> HEAD_CAP" using "3.prems" by (auto simp: Let_def split: if_splits)
    then have "read_head_from (buf @ [c]) es = (Inr head, rest)" using "3.prems" False by (simp add: Let_def)
    from "3.IH"[OF refl False _ this l] l obtain xs where xs: "head = (buf @ [c]) @ xs" "es = map Got xs @ rest"
      "length head \<le> HEAD_CAP + 1" "ends_with head crlf2 \<or> rest = []"
      "\<forall>k < length xs. 0 < k \<longrightarrow> \<not> ends_with ((buf @ [c]) @ take k xs) crlf2" by auto
    have "\<not> ends_with (buf @ take k (c # xs)) crlf2" if "k < length (c # xs)" "0 < k" for k
      using that xs(5) False by (cases k; cases "k - 1") auto
    then show ?thesis using xs(1-4) by (intro exI[of _ "c # xs"]) simp
  qed
qed auto

lemma take_snoc_cases: "P (buf @ [c]) \<Longrightarrow> P buf \<Longrightarrow> (\<And>k. P ((buf @ [c]) @ take k xs)) \<Longrightarrow> P (buf @ take k (c # xs))"
  by (cases k) auto

lemma read_head_error:
  assumes "read_head_from buf es = (Inl e, rest)" "length buf \<le> HEAD_CAP" "\<not> ends_with buf crlf2"
  shows "\<exists>xs. es = map Got xs @ (if e = ReadFailed then ReadErr # rest else rest)
    \<and> (length (buf @ xs) = HEAD_CAP + 1 \<and> e = HeadTooLarge \<or> length (buf @ xs) \<le> HEAD_CAP \<and> e = ReadFailed)
    \<and> (\<forall>k. \<not> ends_with (buf @ take k xs) crlf2)"
  using assms
proof (induction buf es rule: read_head_from.induct)
  case (2 buf es)
  then show ?case by (intro exI[of _ "[]"]) auto
next
  case (3 buf c es)
  have f: "\<not> ends_with (buf @ [c]) crlf2" using "3.prems" by (auto simp: Let_def split: if_splits)
  show ?case
  proof (cases "length (buf @ [c]) > HEAD_CAP")
    case True
    then have "rest = es" "e = HeadTooLarge" using "3.prems" f by (auto simp: Let_def)
    moreover have "\<not> ends_with (buf @ take k [c]) crlf2" for k using f "3.prems"(3) by (cases k) auto
    ultimately show ?thesis using True "3.prems"(2) by (intro exI[of _ "[c]"]) auto
  next
    case False
    then have "read_head_from (buf @ [c]) es = (Inl e, rest)" using "3.prems" f by (simp add: Let_def)
    from "3.IH"[OF refl f False this _ f] False obtain xs where xs: "es = map Got xs @ (if e = ReadFailed then ReadErr # rest else rest)"
      "length ((buf @ [c]) @ xs) = HEAD_CAP + 1 \<and> e = HeadTooLarge \<or> length ((buf @ [c]) @ xs) \<le> HEAD_CAP \<and> e = ReadFailed"
      "\<forall>k. \<not> ends_with ((buf @ [c]) @ take k xs) crlf2" by auto
    have "\<not> ends_with (buf @ take k (c # xs)) crlf2" for k
      using take_snoc_cases[of "\<lambda>x. \<not> ends_with x crlf2"] f "3.prems"(3) xs(3) by blast
    then show ?thesis using xs(1,2) by (intro exI[of _ "c # xs"]) auto
  qed
qed simp

text \<open>A head without a line feed of its own, closed by an empty line.\<close>

lemma read_head_plain:
  "CHR 0x0A \<notin> set h \<Longrightarrow> length (buf @ h) \<le> HEAD_CAP \<Longrightarrow> read_head_from buf (map Got h @ es) = read_head_from (buf @ h) es"
proof (induction h arbitrary: buf)
  case (Cons c h)
  have "\<not> ends_with (buf @ [c]) crlf2"
    using Cons.prems(1) by (auto simp: ends_with_def suffix_def append_eq_append_conv2 Cons_eq_append_conv)
  then show ?case using Cons by simp
qed simp

lemma read_request_head_crlf2:
  assumes "CHR 0x0A \<notin> set h" "length h + 4 \<le> HEAD_CAP"
  shows "read_request_head (map Got (h @ crlf2) @ es) = (Inr (h @ crlf2), es)"
proof -
  have l: "length h \<le> HEAD_CAP - 4" "HEAD_CAP \<ge> 4" using assms(2) by auto
  have n: "\<not> ends_with (h @ [CHR 0x0D]) crlf2" "\<not> ends_with (h @ [CHR 0x0D, CHR 0x0A]) crlf2"
    "\<not> ends_with (h @ [CHR 0x0D, CHR 0x0A, CHR 0x0D]) crlf2" "ends_with (h @ crlf2) crlf2"
    using assms(1) by (auto simp: ends_with_def suffix_def append_eq_append_conv2 Cons_eq_append_conv append_eq_Cons_conv)
  show ?thesis using read_head_plain[of h "[]" "map Got crlf2 @ es"] assms n by (simp add: read_request_head_def)
qed

lemma got_bytes_append: "got_bytes (map Got xs @ es) = xs @ got_bytes es"
  by (induction xs) simp_all

lemma rewind_read_conserves:
  assumes "rewind_read room avail r = (x, r')" "rw_pos r \<le> length (rw_prefix r)"
  shows "x @ drop (rw_pos r') (rw_prefix r') @ rw_inner r' = drop (rw_pos r) (rw_prefix r) @ rw_inner r"
    and "rw_pos r' \<le> length (rw_prefix r')" and "rw_prefix r' = rw_prefix r"
proof -
  have "take n (drop p xs) @ drop (p + n) xs = drop p xs" for n p and xs :: bytes
    by (metis add.commute append_take_drop_id drop_drop)
  then show "x @ drop (rw_pos r') (rw_prefix r') @ rw_inner r' = drop (rw_pos r) (rw_prefix r) @ rw_inner r"
    "rw_pos r' \<le> length (rw_prefix r')" "rw_prefix r' = rw_prefix r"
    using assms by (auto simp: rewind_read_def Let_def simp flip: append_assoc split: if_splits)
qed

lemma rewind_reads_conserve:
  assumes "rewind_reads cs r = (x, r')" "rw_pos r \<le> length (rw_prefix r)"
  shows "x @ drop (rw_pos r') (rw_prefix r') @ rw_inner r' = drop (rw_pos r) (rw_prefix r) @ rw_inner r"
  using assms
proof (induction cs r arbitrary: x rule: rewind_reads.induct)
  case (2 room avail cs r)
  obtain y r1 where y: "rewind_read room avail r = (y, r1)" by fastforce
  obtain z where z: "rewind_reads cs r1 = (z, r')" "x = y @ z" using "2.prems"(1) y by (auto split: prod.splits)
  show ?case
    using "2.IH"[OF y[symmetric] refl z(1) rewind_read_conserves(2)[OF y "2.prems"(2)]]
      rewind_read_conserves(1)[OF y "2.prems"(2)] z(2) by simp
qed simp

lemma handle_conn_plain:
  assumes "handle_conn es = Inr (PlainService r)"
  obtains head rest where "read_request_head es = (Inr head, rest)" "r = rewind_new head (got_bytes rest)"
  using assms by (auto simp: handle_conn_def Let_def split: prod.splits sum.splits if_splits)

section \<open>Claims\<close>

text \<open>Peeking at the head for routing is invisible. When a connection is not a tunnel, the HTTP parser reads
  exactly the bytes the client sent, the head included, whatever the sizes of its buffers and however the
  socket cuts up the rest.\<close>

theorem head_replayed:
  assumes "handle_conn es = Inr (PlainService r)" "rewind_reads cs r = (x, r')"
  shows "x @ drop (rw_pos r') (rw_prefix r') @ rw_inner r' = got_bytes es"
proof -
  obtain head rest where h: "read_request_head es = (Inr head, rest)" "r = rewind_new head (got_bytes rest)"
    using handle_conn_plain[OF assms(1)] .
  have "es = map Got head @ rest"
    using read_head_ok[of "[]" es head rest] h(1) by (auto simp: read_request_head_def)
  then show ?thesis using rewind_reads_conserve[OF assms(2)] h(2) by (simp add: rewind_new_def got_bytes_append)
qed

theorem head_replayed_witness:
  "let es = map Got (''GET http://a/ HTTP/1.1'' @ crlf2 @ ''body'') in
   \<exists>r r'. handle_conn es = Inr (PlainService r) \<and> rewind_reads [(5, 9), (9, 1), (40, 40), (9, 2)] r = (''GET http://a/ HTTP/1.1'' @ crlf2 @ ''bo'', r')
     \<and> (''GET http://a/ HTTP/1.1'' @ crlf2 @ ''bo'') @ drop (rw_pos r') (rw_prefix r') @ rw_inner r' = got_bytes es"
proof -
  let ?es = "map Got (''GET http://a/ HTTP/1.1'' @ crlf2 @ ''body'')"
  let ?r = "rewind_new (''GET http://a/ HTTP/1.1'' @ crlf2) ''body''"
  have h: "read_request_head ?es = (Inr (''GET http://a/ HTTP/1.1'' @ crlf2), map Got ''body'')"
    using read_request_head_crlf2[of "''GET http://a/ HTTP/1.1''" "map Got ''body''"] by (simp add: HEAD_CAP_def)
  have "hr_method (parse_head (''GET http://a/ HTTP/1.1'' @ crlf2)) = ''GET''" by code_simp
  then have c: "handle_conn ?es = Inr (PlainService ?r)" unfolding handle_conn_def h
    by (simp add: eq_ignore_ascii_case_def to_ascii_lowercase_def ascii_lower_def is_ascii_upper_def)
  obtain r' where r: "rewind_reads [(5, 9), (9, 1), (40, 40), (9, 2)] ?r = (''GET http://a/ HTTP/1.1'' @ crlf2 @ ''bo'', r')"
    by (simp add: rewind_new_def rewind_read_def)
  show ?thesis unfolding Let_def using head_replayed[OF c r] c r by blast
qed

text \<open>The head is bounded and cut at the right place. A head that is accepted is the beginning of the stream,
  has at most one byte more than the cap, and ends at the first empty line or with the stream; a stream is
  refused exactly when its first bytes pass the cap, or a read fails, before there was an empty line.\<close>

theorem request_head_bounded:
  "case read_request_head es of
     (Inr head, rest) \<Rightarrow> es = map Got head @ rest \<and> length head \<le> HEAD_CAP + 1
       \<and> (ends_with head crlf2 \<or> rest = []) \<and> \<not> (\<exists>k. k < length head \<and> ends_with (take k head) crlf2)
   | (Inl HeadTooLarge, rest) \<Rightarrow> \<exists>xs. es = map Got xs @ rest \<and> length xs = HEAD_CAP + 1 \<and> \<not> (\<exists>k. ends_with (take k xs) crlf2)
   | (Inl ReadFailed, rest) \<Rightarrow> \<exists>xs. es = map Got xs @ ReadErr # rest \<and> length xs \<le> HEAD_CAP \<and> \<not> (\<exists>k. ends_with (take k xs) crlf2)"
proof -
  have n: "\<not> ends_with [] crlf2" by (simp add: ends_with_def)
  obtain res rest where r: "read_request_head es = (res, rest)" by fastforce
  show ?thesis
  proof (cases res)
    case (Inr head)
    then have "es = map Got head @ rest" "length head \<le> HEAD_CAP + 1" "ends_with head crlf2 \<or> rest = []"
      "\<And>k. k < length head \<Longrightarrow> 0 < k \<Longrightarrow> \<not> ends_with (take k head) crlf2"
      using read_head_ok[of "[]" es head rest] r by (auto simp: read_request_head_def)
    moreover have "\<not> ends_with (take k head) crlf2" if "k < length head" for k
      using calculation(4)[OF that] n by (cases k) simp_all
    ultimately show ?thesis using r Inr by auto
  next
    case (Inl e)
    obtain xs where "es = map Got xs @ (if e = ReadFailed then ReadErr # rest else rest)"
      "length xs = HEAD_CAP + 1 \<and> e = HeadTooLarge \<or> length xs \<le> HEAD_CAP \<and> e = ReadFailed"
      "\<not> (\<exists>k. ends_with (take k xs) crlf2)"
      using read_head_error[of "[]" es e rest] r Inl n by (auto simp: read_request_head_def)
    then show ?thesis using r Inl by (cases e) auto
  qed
qed

lemma lowercase_idem: "to_ascii_lowercase (to_ascii_lowercase s) = to_ascii_lowercase s"
  by (simp add: to_ascii_lowercase_def)

lemma digits_visible: "list_all is_ascii_digit s \<Longrightarrow> list_all visible s \<and> CHR '':'' \<notin> set s"
  by (auto simp: list_all_iff is_ascii_digit_def visible_def)

text \<open>Every head yields a route, and the host in it is lower case, the one form that policy, certificates and
  audit see; a tunnel request for a host and port, followed by anything, is routed to that host and port.\<close>

theorem connect_route:
  assumes "list_all visible host"
    and "read_request_head es = (Inr (''CONNECT '' @ host @ '':'' @ show_nat (unat port) @ '' HTTP/1.1'' @ [CHR 0x0D, CHR 0x0A] @ hdrs), rest)"
  shows "handle_conn es = Inr (Tunnel (to_ascii_lowercase host) port)
    \<and> to_ascii_lowercase (hr_host (parse_head head)) = hr_host (parse_head head)"
proof
  let ?t = "host @ '':'' @ show_nat (unat port)"
  have p: "list_all visible (show_nat (unat port))" "CHR '':'' \<notin> set (show_nat (unat port))"
    using digits_visible[OF show_nat_digits] by auto
  have t: "list_all visible ?t" using assms(1) p(1) by (simp add: visible_def)
  let ?l = "''CONNECT'' @ CHR '' '' # ?t @ CHR '' '' # ''HTTP/1.1''"
  have a: "list_all (\<lambda>c. bval c < 128) ?t" by (rule list.pred_mono_strong[OF t]) (auto simp: visible_def)
  have "\<not> visible (CHR 0x0A)" by (simp add: visible_def)
  then have "CHR 0x0A \<notin> set ?t" using t unfolding list_all_iff by blast
  then have l: "CHR 0x0A \<notin> set ?l" by simp
  have "utf8_lossy (?l @ CHR 0x0D # CHR 0x0A # hdrs) = ?l @ CHR 0x0D # CHR 0x0A # utf8_lossy hdrs"
    using utf8_lossy_ascii_append[of "?l @ [CHR 0x0D, CHR 0x0A]" hdrs] a by simp
  then have f: "first_line (utf8_lossy (?l @ CHR 0x0D # CHR 0x0A # hdrs)) = ?l" using first_line_crlf[OF l] by simp
  have "split_whitespace ?l = [''CONNECT'', ?t, ''HTTP/1.1'']"
    using split_whitespace_word[of "''CONNECT''" "?t @ CHR '' '' # ''HTTP/1.1''"] split_whitespace_word[OF t, of "''HTTP/1.1''"]
      split_whitespace_last[of "''HTTP/1.1''"] by (simp add: visible_def)
  then have "parse_head (?l @ CHR 0x0D # CHR 0x0A # hdrs) =
      \<lparr>hr_method = ''CONNECT'', hr_target = ?t, hr_host = to_ascii_lowercase host, hr_port = port\<rparr>"
    unfolding parse_head_def f Let_def using rsplit_once_last[OF p(2), of host] by (simp add: parse_u16_show)
  then show "handle_conn es = Inr (Tunnel (to_ascii_lowercase host) port)"
    using assms(2) by (simp add: handle_conn_def eq_ignore_ascii_case_def)
  show "to_ascii_lowercase (hr_host (parse_head head)) = hr_host (parse_head head)"
    by (auto simp: parse_head_def Let_def lowercase_idem split: prod.splits option.splits)
qed

theorem connect_route_witness:
  "let es = map Got (''CONNECT Api.Example.COM:8443 HTTP/1.1'' @ crlf2) in
   read_request_head es = (Inr (''CONNECT '' @ ''Api.Example.COM'' @ '':'' @ show_nat (unat (8443 :: u16)) @ '' HTTP/1.1'' @ [CHR 0x0D, CHR 0x0A] @ [CHR 0x0D, CHR 0x0A]), [])
   \<and> handle_conn es = Inr (Tunnel ''api.example.com'' 8443)"
proof -
  let ?es = "map Got (''CONNECT Api.Example.COM:8443 HTTP/1.1'' @ crlf2)"
  have s: "show_nat (unat (8443 :: u16)) = ''8443''"
    by (simp add: show_nat.simps[of 8443] show_nat.simps[of 844] show_nat.simps[of 84] show_nat.simps[of 8]) code_simp
  have r: "read_request_head ?es = (Inr (''CONNECT '' @ ''Api.Example.COM'' @ '':'' @ show_nat (unat (8443 :: u16)) @ '' HTTP/1.1'' @ [CHR 0x0D, CHR 0x0A] @ [CHR 0x0D, CHR 0x0A]), [])"
    unfolding s using read_request_head_crlf2[of "''CONNECT Api.Example.COM:8443 HTTP/1.1''" "[]"] by (simp add: HEAD_CAP_def)
  have v: "list_all visible ''Api.Example.COM''" by (simp add: visible_def)
  have "to_ascii_lowercase ''Api.Example.COM'' = ''api.example.com''" by code_simp
  then show ?thesis unfolding Let_def using connect_route[OF v r] r by (simp only: simp_thms)
qed

end
