(* ===== verification/License.thy ===== *)
theory License
  imports Text_Ops
begin

text \<open>
  \<^verbatim>\<open>src/src/license.rs\<close>: the signed licence file, its validity at a date, and the tier it unlocks. TOML,
  base64 and Ed25519 are third-party code: the parameters in \<open>license_env\<close>. Dates are day numbers, of
  which \<open>date_max\<close> is the last the calendar library represents.
\<close>

section \<open>Tiers\<close>

datatype tier = Free | Pro | Team | Enterprise

definition tier_rank :: "tier \<Rightarrow> nat" where
  "tier_rank t = (case t of Free \<Rightarrow> 0 | Pro \<Rightarrow> 1 | Team \<Rightarrow> 2 | Enterprise \<Rightarrow> 3)"

lemma tier_rank_inj: "tier_rank a = tier_rank b \<Longrightarrow> a = b"
  by (cases a; cases b) (simp_all add: tier_rank_def)

instantiation tier :: linorder
begin

definition less_eq_tier :: "tier \<Rightarrow> tier \<Rightarrow> bool" where
  "a \<le> b \<longleftrightarrow> tier_rank a \<le> tier_rank b"

definition less_tier :: "tier \<Rightarrow> tier \<Rightarrow> bool" where
  "a < b \<longleftrightarrow> tier_rank a < tier_rank b"

instance
  by standard (auto simp: less_eq_tier_def less_tier_def dest: tier_rank_inj)

end

definition tier_display :: "tier \<Rightarrow> string" where
  "tier_display t = (case t of Free \<Rightarrow> ''free'' | Pro \<Rightarrow> ''pro'' | Team \<Rightarrow> ''team'' | Enterprise \<Rightarrow> ''enterprise'')"

record license_doc =
  ld_licensee :: string
  ld_tier :: string
  ld_rank :: "u32 option"
  ld_seats :: u32
  ld_issued :: int
  ld_expires :: int
  ld_grace_days :: u32

definition default_grace_days :: u32 where "default_grace_days = 14"

datatype validity = NotYetValid | Valid | Grace int | Expired

section \<open>The file\<close>

record file_doc =
  fd_license :: license_doc
  fd_algorithm :: string
  fd_value :: string

record license_env =
  le_parse :: "string \<Rightarrow> file_doc option"
  le_render :: "license_doc \<Rightarrow> string option"
  le_b64_decode :: "string \<Rightarrow> bytes option"
  le_b64_encode :: "bytes \<Rightarrow> string"
  le_verify :: "bytes \<Rightarrow> bytes \<Rightarrow> bytes \<Rightarrow> bool"
  le_sign :: "bytes \<Rightarrow> bytes \<Rightarrow> bytes option"
  le_hex_decode :: "string \<Rightarrow> bytes option"

datatype license_error = NoSignature | ParseFailed | UnsupportedAlgorithm string | BadSignatureText | NoKeys
  | DoesNotVerify | Unreadable

definition RELEASE_KEYS_HEX :: "string list" where
  "RELEASE_KEYS_HEX = [''9dfcb03ae6bb4813c9843ab80971c1af9e3f5c94cd75404be64ac6c7ee524459'']"

definition SIG_MARKER :: string where
  "SIG_MARKER = CHR 0x0A # ''[signature]''"

text \<open>\<open>extra\<close> is the environment variable, when it is set; a key that is not hex is left out.\<close>

definition trust_keys :: "license_env \<Rightarrow> string option \<Rightarrow> bytes list" where
  "trust_keys le extra =
     List.map_filter (le_hex_decode le) RELEASE_KEYS_HEX
     @ (case extra of None \<Rightarrow> [] | Some v \<Rightarrow> (case le_hex_decode le (str_trim v) of Some k \<Rightarrow> [k] | None \<Rightarrow> []))"

definition parse_and_verify :: "license_env \<Rightarrow> string \<Rightarrow> bytes list \<Rightarrow> license_error + license_doc" where
  "parse_and_verify le text0 keys =
     (let t = str_replace [CHR 0x0D, CHR 0x0A] [CHR 0x0A] text0 in
      case split_once SIG_MARKER t of
        None \<Rightarrow> Inl NoSignature
      | Some (before, _) \<Rightarrow>
          (let payload = before @ [CHR 0x0A] in
           case le_parse le t of
             None \<Rightarrow> Inl ParseFailed
           | Some doc \<Rightarrow>
               if fd_algorithm doc \<noteq> ''ed25519'' then Inl (UnsupportedAlgorithm (fd_algorithm doc))
               else (case le_b64_decode le (str_trim (fd_value doc)) of
                   None \<Rightarrow> Inl BadSignatureText
                 | Some sig \<Rightarrow>
                     if keys = [] then Inl NoKeys
                     else if list_ex (\<lambda>k. le_verify le k payload sig) keys then Inr (fd_license doc)
                     else Inl DoesNotVerify)))"

definition license_evaluate :: "int \<Rightarrow> license_doc \<Rightarrow> int \<Rightarrow> validity" where
  "license_evaluate date_max doc today =
     (if today < ld_issued doc then NotYetValid
      else if today \<le> ld_expires doc then Valid
      else
        let e = ld_expires doc + int (unat (ld_grace_days doc));
            grace_end = (if e \<le> date_max then e else date_max) in
        if today \<le> grace_end then Grace (grace_end - today) else Expired)"

definition tier_of :: "license_doc \<Rightarrow> tier" where
  "tier_of doc =
     (let t = to_ascii_lowercase (ld_tier doc) in
      if t = ''free'' then Free else if t = ''pro'' then Pro else if t = ''team'' then Team
      else if t = ''enterprise'' then Enterprise
      else (case ld_rank doc of
          Some n \<Rightarrow> if n = 0 then Free else if n = 1 then Pro else if n = 2 then Team else Enterprise
        | None \<Rightarrow> Pro))"

definition effective_tier :: "int \<Rightarrow> license_doc \<Rightarrow> int \<Rightarrow> tier" where
  "effective_tier date_max doc today = (case license_evaluate date_max doc today of Expired \<Rightarrow> Free | _ \<Rightarrow> tier_of doc)"

definition current_tier :: "int \<Rightarrow> int \<Rightarrow> license_doc option \<Rightarrow> tier" where
  "current_tier date_max today doc = (case doc of None \<Rightarrow> Free | Some d \<Rightarrow> effective_tier date_max d today)"

datatype license_file = NoLicense | UnreadableLicense | LicenseText string

definition load_installed :: "license_env \<Rightarrow> string option \<Rightarrow> license_file \<Rightarrow> license_error + license_doc option" where
  "load_installed le extra f = (case f of
     NoLicense \<Rightarrow> Inr None
   | UnreadableLicense \<Rightarrow> Inl Unreadable
   | LicenseText s \<Rightarrow> (case parse_and_verify le s (trust_keys le extra) of Inl e \<Rightarrow> Inl e | Inr d \<Rightarrow> Inr (Some d)))"

definition signature_section :: "string \<Rightarrow> string" where
  "signature_section v = ''[signature]'' @ [CHR 0x0A] @ ''algorithm = '' @ [CHR 0x22] @ ''ed25519'' @ [CHR 0x22, CHR 0x0A]
     @ ''value = '' @ [CHR 0x22] @ v @ [CHR 0x22, CHR 0x0A]"

definition sign_document :: "license_env \<Rightarrow> license_doc \<Rightarrow> bytes \<Rightarrow> string option" where
  "sign_document le doc pkcs8 = (case le_render le doc of
     None \<Rightarrow> None
   | Some body \<Rightarrow>
       (let payload = body @ [CHR 0x0A] in
        map_option (\<lambda>sig. payload @ signature_section (le_b64_encode le sig)) (le_sign le pkcs8 payload)))"

definition describe_validity :: "validity \<Rightarrow> string" where
  "describe_validity v = (case v of
     NotYetValid \<Rightarrow> ''not yet valid (issued in the future; check this machine's clock)''
   | Valid \<Rightarrow> ''valid''
   | Grace days_left \<Rightarrow> ''expired; in the grace window ('' @ show_nat (nat days_left) @ '' day(s) left, then the free tier)''
   | Expired \<Rightarrow> ''expired past grace; running the free tier'')"

section \<open>Round trip\<close>

text \<open>What is used of the libraries: base64 decodes what it encodes, and encodes to its alphabet; a signature made
  with a key pair verifies under its public key; and for a document whose strings are single lines, the TOML writer's table followed by a
  signature section with a base64 value reads back as both, contains no carriage return and no line that starts a signature section.\<close>

definition b64_text :: "string \<Rightarrow> bool" where
  "b64_text s \<longleftrightarrow> list_all (\<lambda>c. is_ascii_alnum c \<or> c = CHR ''+'' \<or> c = CHR ''/'' \<or> c = CHR ''='') s"

definition single_line :: "string \<Rightarrow> bool" where
  "single_line s \<longleftrightarrow> CHR 0x0A \<notin> set s \<and> CHR 0x0D \<notin> set s"

definition license_env_ok :: "license_env \<Rightarrow> (bytes \<Rightarrow> bytes) \<Rightarrow> bool" where
  "license_env_ok le public \<longleftrightarrow>
     (\<forall>x. le_b64_decode le (le_b64_encode le x) = Some x \<and> b64_text (le_b64_encode le x))
   \<and> (\<forall>k p s. le_sign le k p = Some s \<longrightarrow> le_verify le (public k) p s)
   \<and> (\<forall>doc body v. le_render le doc = Some body \<and> single_line (ld_licensee doc) \<and> single_line (ld_tier doc) \<and> b64_text v
        \<longrightarrow> CHR 0x0D \<notin> set body
          \<and> split_once SIG_MARKER (body @ [CHR 0x0A] @ signature_section v) = Some (body, drop (length SIG_MARKER) ([CHR 0x0A] @ signature_section v))
          \<and> le_parse le (body @ [CHR 0x0A] @ signature_section v) = Some \<lparr>fd_license = doc, fd_algorithm = ''ed25519'', fd_value = v\<rparr>)"

lemma b64_visible: "b64_text s \<Longrightarrow> list_all visible s"
  by (auto simp: b64_text_def list_all_iff visible_def ascii_class_defs)

lemma replace_single: "replace_from [a] r s = concat (map (\<lambda>c. if c = a then r else [c]) s)"
  by (induction s) (subst replace_from.simps, auto)+

lemma replace_absent: "d \<noteq> [] \<Longrightarrow> hd d \<notin> set s \<Longrightarrow> replace_from d r s = s"
  by (induction s) (subst replace_from.simps, auto simp: prefix_Cons neq_Nil_conv)+

lemma replace_crlf_back:
  assumes "CHR 0x0D \<notin> set s"
  shows "replace_from [CHR 0x0D, CHR 0x0A] [CHR 0x0A] (concat (map (\<lambda>c. if c = CHR 0x0A then [CHR 0x0D, CHR 0x0A] else [c]) s)) = s"
  using assms
proof (induction s)
  case (Cons c s)
  then show ?case by (subst replace_from.simps) (auto split: if_splits)
qed (simp add: replace_from.simps)

lemma signature_section_lf: "list_all visible v \<Longrightarrow> CHR 0x0D \<notin> set (signature_section v)"
  by (auto simp: signature_section_def list_all_iff visible_def)

text \<open>C39: a licence that was issued verifies. If licensee and tier are single lines, the file that signing a document produces, unchanged or after
  every line ending was turned into a carriage return and a line feed on its way, is accepted under any
  set of keys with the issuer's, and gives the document back. It is assumed of the libraries (license_env_ok) that base64 and signatures work, and that TOML
  reads back what it wrote for such a document and a base64 signature, without a signature heading among its own lines.\<close>

theorem license_roundtrip:
  assumes "license_env_ok le public" "sign_document le doc pkcs8 = Some file" "public pkcs8 \<in> set keys"
    and "single_line (ld_licensee doc)" "single_line (ld_tier doc)"
  shows "parse_and_verify le file keys = Inr doc
    \<and> parse_and_verify le (str_replace [CHR 0x0A] [CHR 0x0D, CHR 0x0A] file) keys = Inr doc"
proof -
  obtain body sig where b: "le_render le doc = Some body" "le_sign le pkcs8 (body @ [CHR 0x0A]) = Some sig"
    "file = body @ [CHR 0x0A] @ signature_section (le_b64_encode le sig)"
    using assms(2) by (auto simp: sign_document_def Let_def split: option.splits)
  let ?v = "le_b64_encode le sig"
  have t: "b64_text ?v" "le_b64_decode le ?v = Some sig" using assms(1) by (simp_all add: license_env_ok_def)
  note v = b64_visible[OF t(1)] t(2)
  have law: "CHR 0x0D \<notin> set body \<and> split_once SIG_MARKER (body @ [CHR 0x0A] @ signature_section ?v)
        = Some (body, drop (length SIG_MARKER) ([CHR 0x0A] @ signature_section ?v))
      \<and> le_parse le (body @ [CHR 0x0A] @ signature_section ?v) = Some \<lparr>fd_license = doc, fd_algorithm = ''ed25519'', fd_value = ?v\<rparr>"
    using assms(1,4,5) b(1) t(1) unfolding license_env_ok_def by blast
  have cr: "CHR 0x0D \<notin> set file" using law b(3) signature_section_lf[OF v(1)] by simp
  have s: "split_once SIG_MARKER file = Some (body, drop (length SIG_MARKER) ([CHR 0x0A] @ signature_section ?v))"
    and p: "le_parse le file = Some \<lparr>fd_license = doc, fd_algorithm = ''ed25519'', fd_value = ?v\<rparr>"
    using law b(3) by simp_all
  have k: "le_verify le (public pkcs8) (body @ [CHR 0x0A]) sig" using assms(1) b(2) by (simp add: license_env_ok_def)
  have "keys \<noteq> []" "list_ex (\<lambda>k. le_verify le k (body @ [CHR 0x0A]) sig) keys" using assms(3) k by (auto simp: list_ex_iff)
  then have "parse_and_verify le x keys = Inr doc" if "str_replace [CHR 0x0D, CHR 0x0A] [CHR 0x0A] x = file" for x
    using that s p v by (simp add: parse_and_verify_def str_trim_visible)
  then show ?thesis using cr by (simp add: str_replace_def replace_absent replace_single replace_crlf_back)
qed

definition demo_license :: license_doc where
  "demo_license = \<lparr>ld_licensee = ''Acme'', ld_tier = ''team'', ld_rank = None, ld_seats = 25, ld_issued = 0, ld_expires = 100, ld_grace_days = 14\<rparr>"

definition demo_encode :: "bytes \<Rightarrow> string" where
  "demo_encode s = concat (map (\<lambda>c. [char_of (97 + bval c div 16), char_of (97 + bval c mod 16)]) s)"

fun demo_decode :: "string \<Rightarrow> bytes" where
  "demo_decode (a # b # s) = char_of (16 * (bval a - 97) + (bval b - 97)) # demo_decode s"
| "demo_decode _ = []"

definition demo_open :: string where
  "demo_open = ''lic'' @ [CHR 0x0A] @ ''[signature]'' @ [CHR 0x0A] @ ''algorithm = '' @ [CHR 0x22] @ ''ed25519'' @ [CHR 0x22, CHR 0x0A]
     @ ''value = '' @ [CHR 0x22]"

definition demo_license_env :: license_env where
  "demo_license_env = \<lparr>
     le_parse = (\<lambda>t. case strip_prefix demo_open t of None \<Rightarrow> None
       | Some u \<Rightarrow> map_option (\<lambda>v. \<lparr>fd_license = demo_license, fd_algorithm = ''ed25519'', fd_value = v\<rparr>) (strip_suffix [CHR 0x22, CHR 0x0A] u)),
     le_render = (\<lambda>d. if d = demo_license then Some ''lic'' else None),
     le_b64_decode = (\<lambda>s. Some (demo_decode s)), le_b64_encode = demo_encode,
     le_verify = (\<lambda>k p s. s = k @ p), le_sign = (\<lambda>k p. Some (k @ p)), le_hex_decode = (\<lambda>s. Some s)\<rparr>"

lemma demo_decode_encode: "demo_decode (demo_encode s) = s"
proof (induction s)
  case (Cons c s)
  have "char_of (16 * (bval c div 16) + bval c mod 16) = c" by simp
  then show ?case using Cons nibbles[of c] by (simp add: demo_encode_def)
qed (simp add: demo_encode_def)

lemma demo_encode_b64: "b64_text (demo_encode s)"
proof (induction s)
  case (Cons c s)
  have "is_ascii_alnum (char_of (97 + n))" if "n < 16" for n :: nat using that by (simp add: ascii_class_defs)
  from this[OF nibbles(1)[of c]] this[OF nibbles(2)[of c]] show ?case using Cons by (simp add: demo_encode_def b64_text_def)
qed (simp add: demo_encode_def b64_text_def)

lemma demo_license_env_ok: "license_env_ok demo_license_env (\<lambda>k. k)"
  unfolding license_env_ok_def
proof (intro conjI allI impI)
  fix doc body v
  assume "le_render demo_license_env doc = Some body \<and> single_line (ld_licensee doc) \<and> single_line (ld_tier doc) \<and> b64_text v"
  then have b: "doc = demo_license" "body = ''lic''" by (auto simp: demo_license_env_def split: if_splits)
  show "CHR 0x0D \<notin> set body" by (simp add: b)
  show "split_once SIG_MARKER (body @ [CHR 0x0A] @ signature_section v) = Some (body, drop (length SIG_MARKER) ([CHR 0x0A] @ signature_section v))"
    by (simp add: b SIG_MARKER_def signature_section_def)
  have "body @ [CHR 0x0A] @ signature_section v = demo_open @ v @ [CHR 0x22, CHR 0x0A]"
    by (simp add: b demo_open_def signature_section_def)
  then show "le_parse demo_license_env (body @ [CHR 0x0A] @ signature_section v) = Some \<lparr>fd_license = doc, fd_algorithm = ''ed25519'', fd_value = v\<rparr>"
    by (simp add: demo_license_env_def strip_prefix_def strip_suffix_def suffix_def b)
qed (auto simp: demo_license_env_def demo_decode_encode demo_encode_b64)

theorem license_roundtrip_witness:
  "\<exists>file. license_env_ok demo_license_env (\<lambda>k. k) \<and> sign_document demo_license_env demo_license ''key'' = Some file
     \<and> parse_and_verify demo_license_env file [''other'', ''key''] = Inr demo_license
     \<and> parse_and_verify demo_license_env (str_replace [CHR 0x0A] [CHR 0x0D, CHR 0x0A] file) [''other'', ''key''] = Inr demo_license"
proof -
  obtain fl where f: "sign_document demo_license_env demo_license ''key'' = Some fl"
    by (simp add: sign_document_def demo_license_env_def)
  have l: "single_line (ld_licensee demo_license)" "single_line (ld_tier demo_license)" by (simp_all add: demo_license_def single_line_def)
  show ?thesis using license_roundtrip[OF demo_license_env_ok f _ l, of "[''other'', ''key'']"] f demo_license_env_ok by auto
qed

text \<open>Licensing only ever unlocks. Whatever is on disk and whatever the clock says, a tier above the free one is in
  force exactly when the file verifies under a trusted key, names such a tier, and its grace period (cut at the
  end of the calendar) is not over; in every other case, errors included, the free tier runs.\<close>

theorem license_fails_open:
  "(current_tier date_max today (case load_installed le extra f of Inr d \<Rightarrow> d | Inl e \<Rightarrow> None) > Free) =
   (\<exists>s doc. f = LicenseText s \<and> parse_and_verify le s (trust_keys le extra) = Inr doc \<and> tier_of doc > Free
      \<and> (today < ld_issued doc \<or> today \<le> ld_expires doc
          \<or> today \<le> min date_max (ld_expires doc + int (unat (ld_grace_days doc)))))"
proof (cases "\<exists>s doc. f = LicenseText s \<and> parse_and_verify le s (trust_keys le extra) = Inr doc")
  case True
  then obtain s doc where d: "f = LicenseText s" "parse_and_verify le s (trust_keys le extra) = Inr doc" by blast
  have n: "\<not> Free < Free" by simp
  show ?thesis using d n
    by (auto simp: load_installed_def current_tier_def effective_tier_def license_evaluate_def Let_def min_def simp del: less_irrefl)
next
  case False
  then show ?thesis
    by (cases f) (auto simp: load_installed_def current_tier_def split: sum.splits)
qed

end
