(* ===== verification/Pipeline.thy ===== *)
theory Pipeline
  imports Proxy Cache Fanout Connection License
begin

text \<open>
  \<^verbatim>\<open>src/src/proxy.rs\<close>: the whole handler of one request, \<open>pipeline_inner\<close>, composed of the steps in
  \<open>Proxy\<close> and the steps that rewrite the body before the swap (soft landing, router, cache repair), the
  debug dump, the buffering and delivery of the response, and the replay of a keep-alive template. The
  engine's shared state is a record that the handler returns updated, as between two requests that do not
  overlap; the gate that delays overlapping ones is in \<open>Fanout\<close>. The clock is read once per request here,
  several times in the code. What the outside world does is in \<open>world\<close>.
\<close>

section \<open>The engine and the world\<close>

record upstream_request =
  us_method :: string
  us_url :: string
  us_headers :: "(string \<times> string) list"
  us_body :: "bytes option"

text \<open>What \<open>send\<close> gives: an error, or status, headers, the chunks of the body and the error after them.\<close>

datatype upstream_result = SendFailed string | Reply u16 "(string \<times> bytes) list" "bytes list" "string option"

datatype dump_io = DumpDirFails string | DumpWriteFails string | DumpOk string

record world =
  wd_crypto :: crypto
  wd_codecs :: codecs
  wd_decoders :: decoders
  wd_audit :: audit_codec
  wd_from_json :: "bytes \<Rightarrow> json option"
  wd_to_json :: "string \<Rightarrow> bytes option"
  wd_to_vec :: "json \<Rightarrow> bytes"
  wd_method_ok :: "string \<Rightarrow> bool"
  wd_upstream :: "upstream_request \<Rightarrow> upstream_result"
  wd_append_ok :: "entry \<Rightarrow> bool"
  wd_anchor_ok :: bool
  wd_flush :: flush_io
  wd_cache_flush :: cache_io
  wd_trip_saved :: bool
  wd_dump :: dump_io
  wd_period :: string
  wd_now :: u64
  wd_ts :: string
  wd_elapsed :: u64
  wd_today :: int
  wd_date_max :: int
  wd_pid :: u32

text \<open>\<open>eg_trail\<close> (a ghost) lists the entries handed to the audit log.\<close>

record engine =
  eg_policy :: policy
  eg_vault :: vault
  eg_session :: vault
  eg_pricing :: pricing
  eg_license :: "license_doc option"
  eg_meter :: session_meter
  eg_meter_file :: meter_file
  eg_watch :: watch
  eg_trip_file :: trip_file
  eg_doctor :: doctor
  eg_cache_file :: cache_file
  eg_keepalive :: keep_alive
  eg_auditor :: auditor
  eg_audit_disk :: audit_disk
  eg_session_id :: string
  eg_dlp_salt :: bytes
  eg_dumps :: "(string \<times> string) list"
  eg_dump_seq :: u64
  eg_trail :: "entry list"

definition engine_tier :: "world \<Rightarrow> engine \<Rightarrow> tier" where
  "engine_tier w e = current_tier (wd_date_max w) (wd_today w) (eg_license e)"

definition audit :: "world \<Rightarrow> entry \<Rightarrow> engine \<Rightarrow> engine \<times> u64 option" where
  "audit w en0 e0 =
     (let en = en0\<lparr>en_sid := eg_session_id e0\<rparr>; e = e0\<lparr>eg_trail := eg_trail e0 @ [en]\<rparr> in
      if \<not> wd_append_ok w en then (e, None)
      else (case append_event (wd_crypto w) (wd_audit w) (wd_pid w) (wd_anchor_ok w) en (wd_ts w) (eg_auditor e) (eg_audit_disk e) of
          (a, d, r) \<Rightarrow> (e\<lparr>eg_auditor := a, eg_audit_disk := d\<rparr>, case r of Inl _ \<Rightarrow> None | Inr ev \<Rightarrow> Some (ev_seq ev))))"

definition audit_all :: "world \<Rightarrow> entry list \<Rightarrow> engine \<Rightarrow> engine" where
  "audit_all w ens e = fold (\<lambda>en e. fst (audit w en e)) ens e"

section \<open>The request\<close>

definition SCAN_CAP :: nat where "SCAN_CAP = 2 ^ 20"
definition REQ_BODY_CAP :: nat where "REQ_BODY_CAP = 32 * 2 ^ 20"

text \<open>A request as the HTTP parser hands it over; \<open>ib_clean\<close> says that its body ends without an error.\<close>

record inbound =
  ib_host :: string
  ib_port :: u16
  ib_tls :: bool
  ib_method :: string
  ib_path_query :: "string option"
  ib_headers :: "(string \<times> bytes) list"
  ib_body :: bytes
  ib_clean :: bool

definition ib_path :: "inbound \<Rightarrow> string" where
  "ib_path r = (case ib_path_query r of Some p \<Rightarrow> p | None \<Rightarrow> ''/'')"

definition header_char :: "char \<Rightarrow> bool" where
  "header_char c \<longleftrightarrow> 32 \<le> bval c \<and> bval c < 127 \<or> bval c = 9"

definition collect_headers :: "(string \<times> bytes) list \<Rightarrow> (string \<times> string) list" where
  "collect_headers hs = filter (\<lambda>(_, v). list_all header_char v) hs"

datatype body_read = BodyOk bytes | BodyTooLarge | BodyFailed

definition collect_body :: "inbound \<Rightarrow> body_read" where
  "collect_body r = (if length (ib_body r) > REQ_BODY_CAP then BodyTooLarge
     else if \<not> ib_clean r then BodyFailed else BodyOk (ib_body r))"

definition oversize_entry :: "inbound \<Rightarrow> decision \<Rightarrow> u64 \<Rightarrow> entry" where
  "oversize_entry r d dur = entry_default\<lparr>en_host := ib_host r, en_path := ib_path r, en_method := ib_method r,
     en_action := ''deny'', en_rule := dc_rule d, en_escalated := dc_escalated d, en_status := 413,
     en_note := ''request body exceeds '' @ show_nat REQ_BODY_CAP @ '' byte inspection cap'', en_dur_ms := Some dur\<rparr>"

section \<open>Responses\<close>

datatype response_body = JsonBody json | FullBody bytes | ChunkBody "bytes list" "string option"

record response =
  rs_status :: u16
  rs_headers :: "(string \<times> bytes) list"
  rs_body :: response_body

definition refuse :: "u16 \<Rightarrow> json \<Rightarrow> response" where
  "refuse status body = \<lparr>rs_status = status, rs_headers = [(''content-type'', ''application/json'')], rs_body = JsonBody body\<rparr>"

datatype pipeline_result = Answered response | Erred string | Panicked

text \<open>What one run of the handler did: the engine after it, the request that went upstream, the stream that
  is still being delivered, the key it was serialized under, and its result.\<close>

record passage =
  ps_engine :: engine
  ps_sent :: "upstream_request option"
  ps_stream :: "metered_stream option"
  ps_fanout_key :: "string option"
  ps_result :: pipeline_result

definition stopped :: "engine \<Rightarrow> pipeline_result \<Rightarrow> passage" where
  "stopped e r = \<lparr>ps_engine = e, ps_sent = None, ps_stream = None, ps_fanout_key = None, ps_result = r\<rparr>"

section \<open>Steps that rewrite the body\<close>

definition fmt0 :: "real \<Rightarrow> string" where
  "fmt0 x = show_nat (nat (round_half_even x))"

definition pad4 :: "nat \<Rightarrow> string" where
  "pad4 n = replicate (4 - length (show_nat n)) (CHR ''0'') @ show_nat n"

definition fmt4 :: "real \<Rightarrow> string" where
  "fmt4 x = (let n = nat (round_half_even (10000 * x)) in show_nat (n div 10000) @ ''.'' @ pad4 (n mod 10000))"

definition request_note :: "inbound \<Rightarrow> decision \<Rightarrow> string \<Rightarrow> string \<Rightarrow> entry" where
  "request_note r d action note = entry_default\<lparr>en_host := ib_host r, en_path := ib_path r, en_method := ib_method r,
     en_action := action, en_rule := dc_rule d, en_note := note\<rparr>"

definition arrow :: "model_rewrite \<Rightarrow> string" where
  "arrow rw = rw_from rw @ '' -> '' @ rw_to rw"

definition unknown_target :: "pricing \<Rightarrow> model_rewrite \<Rightarrow> string" where
  "unknown_target prices rw = (if knows_model prices (rw_to rw) then [] else ''; target model not in the pricing table'')"

text \<open>Step 3.4. The result is the engine, the body and the response header.\<close>

definition soft_landing_step :: "world \<Rightarrow> inbound \<Rightarrow> decision \<Rightarrow> provider option \<Rightarrow> bool \<Rightarrow> real option \<Rightarrow> bool
    \<Rightarrow> engine \<Rightarrow> bytes \<Rightarrow> engine \<times> bytes \<times> string option" where
  "soft_landing_step w r d prov over_budget budget_pct blocked e body =
     (let cfg = p_soft_landing (eg_policy e) in
      if soft_landing_enabled cfg \<and> prov \<noteq> None \<and> \<not> over_budget \<and> \<not> blocked
         \<and> dc_action d \<in> {Allow, Warn, Route}
         \<and> (case budget_pct of Some pct \<Rightarrow> pct \<ge> sl_threshold_pct cfg | None \<Rightarrow> False)
         \<and> engine_tier w e \<ge> Pro
      then (case rewrite_model (wd_from_json w) (wd_to_json w) body (sl_map cfg) of
          None \<Rightarrow> (e, body, None)
        | Some rw \<Rightarrow>
            (let pct = (case budget_pct of Some pct \<Rightarrow> pct | None \<Rightarrow> 0);
                 note = ''budget soft-landing: model '' @ arrow rw @ '' at '' @ fmt0 pct
                   @ ''% of budget; provider prompt cache invalidated (caches are model-scoped)''
                   @ unknown_target (eg_pricing e) rw
             in (fst (audit w (request_note r d ''downgrade'' note) e), rw_body rw, Some (arrow rw))))
      else (e, body, None))"

text \<open>Step 3.45.\<close>

definition forfeit_note :: "world \<Rightarrow> inbound \<Rightarrow> provider \<Rightarrow> engine \<Rightarrow> model_rewrite \<Rightarrow> string" where
  "forfeit_note w r p e rw =
     (case warm_prefix_bytes (ib_host r) (rw_from rw) (wd_now w) (eg_doctor e) of
        None \<Rightarrow> []
      | Some n \<Rightarrow>
          ''; forfeits a warm '' @ show_nat (unat n) @ ''-byte cached prefix for '' @ rw_from rw @ '' (~$''
          @ fmt4 (repairable_waste_usd n (rate_for (eg_pricing e) p (Some (rw_from rw)))) @ '' re-bills at the full input rate)'')"

definition route_step :: "world \<Rightarrow> inbound \<Rightarrow> decision \<Rightarrow> provider option \<Rightarrow> bool \<Rightarrow> bool
    \<Rightarrow> engine \<Rightarrow> bytes \<Rightarrow> engine \<times> bytes \<times> string option" where
  "route_step w r d prov over_budget blocked e body =
     (case (dc_action d, prov) of
        (Route, Some p) \<Rightarrow>
          if \<not> over_budget \<and> \<not> blocked \<and> engine_tier w e \<ge> Pro
          then (case rewrite_model (wd_from_json w) (wd_to_json w) body (dc_route d) of
              None \<Rightarrow> (e, body, None)
            | Some rw \<Rightarrow>
                (let note = ''route: model '' @ arrow rw
                       @ ''; provider prompt cache invalidated (caches are model-scoped)''
                       @ forfeit_note w r p e rw @ unknown_target (eg_pricing e) rw
                 in (fst (audit w (request_note r d ''route'' note) e), rw_body rw, Some (arrow rw))))
          else (e, body, None)
      | _ \<Rightarrow> (e, body, None))"

fun add_beta_header :: "(string \<times> string) list \<Rightarrow> string \<Rightarrow> (string \<times> string) list" where
  "add_beta_header [] tok = [(''anthropic-beta'', tok)]"
| "add_beta_header ((n, v) # hs) tok =
     (if eq_ignore_ascii_case n ''anthropic-beta''
      then (n, if list_ex (\<lambda>t. str_trim t = tok) (split_char (CHR '','') v) then v else v @ '','' @ tok) # hs
      else (n, v) # add_beta_header hs tok)"

text \<open>Step 3.5: the doctor, the repair, the keep-alive template and the gate's key.\<close>

record cache_pass =
  cp_engine :: engine
  cp_body :: bytes
  cp_headers :: "(string \<times> string) list"
  cp_header :: "string option"
  cp_template :: "template option"
  cp_model :: "string option"

definition cache_active :: "decision \<Rightarrow> provider option \<Rightarrow> bool \<Rightarrow> bool \<Rightarrow> bool" where
  "cache_active d prov over_budget blocked \<longleftrightarrow>
     prov = Some Anthropic \<and> dc_action d \<in> {Allow, Route} \<and> \<not> over_budget \<and> \<not> blocked"

definition cache_pro :: "world \<Rightarrow> decision \<Rightarrow> provider option \<Rightarrow> bool \<Rightarrow> bool \<Rightarrow> engine \<Rightarrow> bool" where
  "cache_pro w d prov over_budget blocked e \<longleftrightarrow>
     (let c = p_cache (eg_policy e) in
      cache_active d prov over_budget blocked \<and> (c_repair c \<or> c_keep_alive c \<or> c_serialize_fanout c)
      \<and> engine_tier w e \<ge> Pro)"

definition repair_step :: "world \<Rightarrow> inbound \<Rightarrow> decision \<Rightarrow> observation \<Rightarrow> cache_pass \<Rightarrow> cache_pass" where
  "repair_step w r d obs cp = (case ob_repair obs of
     None \<Rightarrow> cp
   | Some plan \<Rightarrow>
       (case splice_marker (wd_from_json w) (cp_body cp) (rp_ttl_1h plan) of
          None \<Rightarrow> cp
        | Some spliced \<Rightarrow>
            (let e = cp_engine cp;
                 e1 = e\<lparr>eg_doctor := note_repaired (wd_period w) (ib_host r) (ob_model obs) (eg_doctor e)\<rparr>;
                 note = ''injected ephemeral'' @ (if rp_ttl_1h plan then '' 1h'' else []) @ '' marker in '' @ rp_section plan
             in cp\<lparr>cp_engine := fst (audit w (request_note r d ''cache'' note) e1), cp_body := spliced,
                  cp_headers := (if rp_ttl_1h plan then add_beta_header (cp_headers cp) ''extended-cache-ttl-2025-04-11''
                                 else cp_headers cp),
                  cp_header := Some (''repaired '' @ rp_section plan)\<rparr>)))"

definition template_of :: "inbound \<Rightarrow> cache_pass \<Rightarrow> template" where
  "template_of r cp = \<lparr>ka_method = ib_method r, ka_path = ib_path r, ka_port = ib_port r,
     ka_headers = cp_headers cp, ka_body = cp_body cp\<rparr>"

definition flush_cache :: "world \<Rightarrow> engine \<Rightarrow> engine" where
  "flush_cache w e = (case doctor_flush (wd_cache_flush w) (wd_period w) (eg_cache_file e) (eg_doctor e) of
     (f, d, _) \<Rightarrow> e\<lparr>eg_cache_file := f, eg_doctor := d\<rparr>)"

definition doctor_step :: "world \<Rightarrow> inbound \<Rightarrow> decision \<Rightarrow> provider option \<Rightarrow> bool \<Rightarrow> bool
    \<Rightarrow> engine \<Rightarrow> bytes \<Rightarrow> (string \<times> string) list \<Rightarrow> cache_pass" where
  "doctor_step w r d prov over_budget blocked e body headers =
     (let cp = \<lparr>cp_engine = e, cp_body = body, cp_headers = headers, cp_header = None, cp_template = None, cp_model = None\<rparr>;
          pro = cache_pro w d prov over_budget blocked e; c = p_cache (eg_policy e) in
      if \<not> cache_active d prov over_budget blocked then cp
      else (case doctor_observe (wd_from_json w) (wd_to_vec w) (wd_period w) (wd_ts w) (ib_host r) body (wd_now w) (eg_doctor e) of
          (dr, obs) \<Rightarrow>
            (let cp1 = cp\<lparr>cp_engine := e\<lparr>eg_doctor := dr\<rparr>\<rparr>;
                 cp2 = (case obs of
                     None \<Rightarrow> cp1
                   | Some ob \<Rightarrow>
                       (let cp' = (if pro \<and> c_repair c then repair_step w r d ob cp1 else cp1)
                        in cp'\<lparr>cp_template := (if pro \<and> c_keep_alive c \<and> ib_tls r then Some (template_of r cp') else None)\<rparr>))
             in cp2\<lparr>cp_engine := flush_cache w (cp_engine cp2), cp_model := map_option ob_model obs\<rparr>)))"

definition fanout_key_for :: "world \<Rightarrow> inbound \<Rightarrow> bool \<Rightarrow> cache_config \<Rightarrow> cache_pass \<Rightarrow> string option" where
  "fanout_key_for w r pro c cp =
     (if pro \<and> c_serialize_fanout c
      then Option.bind (cp_model cp) (\<lambda>m. cacheable_key (wd_crypto w) (wd_from_json w) (wd_to_vec w) (ib_host r) m (cp_body cp))
      else None)"

section \<open>The debug dump\<close>

abbreviation nl :: string where "nl \<equiv> [CHR 0x0A]"

definition dump_hit :: "hit \<Rightarrow> string" where
  "dump_hit h = ''#   '' @ dlp_mode_name (h_mode h) @ '' '' @ h_detector h @ ''@'' @ h_seen_in h @ '' off=''
     @ show_nat (h_offset h) @ '' fp='' @ h_fingerprint h @ nl
     @ (case h_context h of Some c \<Rightarrow> ''#     '' @ c @ nl | None \<Rightarrow> [])"

definition dump_text :: "string \<Rightarrow> request_ctx \<Rightarrow> dlp_outcome \<Rightarrow> string" where
  "dump_text ts q dlp =
     ''# decoyrail dlp debug dump  '' @ ts @ nl @ ''# '' @ q_method q @ '' '' @ q_host q @ q_path q @ nl @ ''# hits:'' @ nl
     @ concat (map dump_hit (hits dlp))
     @ (if truncated dlp then ''# encoded-scan bound reached; later hits may be missing'' @ nl else [])
     @ nl @ concat (map (\<lambda>(name, val). name @ '': '' @ val @ nl) (q_headers q)) @ nl @ utf8_lossy (q_body q)"

definition scrub_placeholder :: "secret \<Rightarrow> string" where
  "scrub_placeholder s = ''[decoyrail:scrubbed:'' @ sec_name s @ '']''"

definition scrub_secret :: "secret \<Rightarrow> string \<Rightarrow> string" where
  "scrub_secret s t = (if sec_real s \<noteq> [] \<and> str_contains t (sec_real s)
     then str_replace (sec_real s) (scrub_placeholder s) t else t)"

definition dump_content :: "string \<Rightarrow> request_ctx \<Rightarrow> dlp_outcome \<Rightarrow> vault \<Rightarrow> vault \<Rightarrow> string" where
  "dump_content ts q dlp v session = fold scrub_secret (secrets v @ secrets session) (dump_text ts q dlp)"

definition dump_name :: "string \<Rightarrow> u64 \<Rightarrow> string \<Rightarrow> string" where
  "dump_name ts seq host =
     filter is_ascii_digit ts @ ''-'' @ pad4 (unat seq) @ ''-''
     @ concat (map (\<lambda>c. if is_utf8_cont c then []
          else if is_ascii_alnum c \<or> c = CHR ''.'' \<or> c = CHR ''-'' then [c] else ''_'') host) @ ''.txt''"

text \<open>\<open>write_dlp_dump\<close>; the directory is part of the outcome of the file operations.\<close>

definition write_dlp_dump :: "world \<Rightarrow> request_ctx \<Rightarrow> dlp_outcome \<Rightarrow> engine \<Rightarrow> engine \<times> string option" where
  "write_dlp_dump w q dlp e = (case wd_dump w of
     DumpDirFails _ \<Rightarrow> (e, None)
   | DumpWriteFails _ \<Rightarrow> (e\<lparr>eg_dump_seq := eg_dump_seq e + 1\<rparr>, None)
   | DumpOk dir \<Rightarrow>
       (let path = dir @ ''/'' @ dump_name (wd_ts w) (eg_dump_seq e) (q_host q)
        in (e\<lparr>eg_dump_seq := eg_dump_seq e + 1,
              eg_dumps := eg_dumps e @ [(path, dump_content (wd_ts w) q dlp (eg_vault e) (eg_session e))]\<rparr>, Some path)))"

definition dump_step :: "world \<Rightarrow> dlp_config \<Rightarrow> request_ctx \<Rightarrow> dlp_outcome \<Rightarrow> engine \<Rightarrow> engine \<times> string" where
  "dump_step w cfg q dlp e =
     (if d_debug cfg \<and> hits dlp \<noteq> [] then
        (case write_dlp_dump w q dlp e of
           (e', Some p) \<Rightarrow> (e', '' payload='' @ p)
         | (e', None) \<Rightarrow> (e', []))
      else (e, []))"

section \<open>Forwarding and the response\<close>

definition upstream_for :: "world \<Rightarrow> inbound \<Rightarrow> provider option \<Rightarrow> request_ctx \<Rightarrow> upstream_request" where
  "upstream_for w r prov q =
     \<lparr>us_method = (if wd_method_ok w (ib_method r) then ib_method r else ''GET''),
      us_url = upstream_url (ib_tls r) (ib_host r) (ib_port r) (ib_path r),
      us_headers = forward_headers prov (q_headers q),
      us_body = (if q_body q = [] then None else Some (q_body q))\<rparr>"

definition is_event_stream :: "(string \<times> bytes) list \<Rightarrow> bool" where
  "is_event_stream hs = (case find (\<lambda>(n, _). eq_ignore_ascii_case n ''content-type'') hs of
     None \<Rightarrow> False
   | Some (_, v) \<Rightarrow> list_all header_char v \<and> str_contains v ''text/event-stream'')"

definition decoyrail_headers :: "string option \<Rightarrow> string option \<Rightarrow> string option \<Rightarrow> (string \<times> bytes) list" where
  "decoyrail_headers cache_header downgrade_header route_header =
     (case cache_header of Some h \<Rightarrow> [(''x-decoyrail-cache'', h)] | None \<Rightarrow> [])
     @ (case downgrade_header of Some h \<Rightarrow> [(''x-decoyrail-downgrade'', h)] | None \<Rightarrow> [])
     @ (case route_header of Some h \<Rightarrow> [(''x-decoyrail-route'', h)] | None \<Rightarrow> [])"

text \<open>A header value that the response builder accepts.\<close>

definition header_value_ok :: "bytes \<Rightarrow> bool" where
  "header_value_ok v \<longleftrightarrow> list_all (\<lambda>c. 32 \<le> bval c \<and> bval c \<noteq> 127 \<or> bval c = 9) v"

definition response_headers :: "(string \<times> bytes) list \<Rightarrow> (string \<times> bytes) list" where
  "response_headers hs = filter (\<lambda>(n, _). \<not> is_hop_by_hop n) hs"

definition build_response :: "u16 \<Rightarrow> (string \<times> bytes) list \<Rightarrow> (string \<times> bytes) list \<Rightarrow> response_body \<Rightarrow> response" where
  "build_response status hs own body =
     (if list_all (\<lambda>(_, v). header_value_ok v) own
      then \<lparr>rs_status = status, rs_headers = response_headers hs @ own, rs_body = body\<rparr>
      else refuse 500 (deny_response ''decoyrail: response build failed''))"

text \<open>The buffering loop: the chunks taken, whether they passed the cap, and the chunks left.\<close>

fun buffer_chunks :: "nat \<Rightarrow> bytes list \<Rightarrow> bytes list \<times> bool \<times> bytes list" where
  "buffer_chunks n [] = ([], False, [])"
| "buffer_chunks n (c # cs) =
     (if n + length c > SCAN_CAP then ([c], True, cs)
      else (case buffer_chunks (n + length c) cs of (p, over, rest) \<Rightarrow> (c # p, over, rest)))"

definition body_usage :: "world \<Rightarrow> provider option \<Rightarrow> bytes \<Rightarrow> token_usage option" where
  "body_usage w prov body = Option.bind prov (\<lambda>p.
     case parse_usage_json (wd_from_json w) p body of
       Some u \<Rightarrow> Some u
     | None \<Rightarrow> scan_usage_sse (wd_from_json w) p body)"

text \<open>What the rest of the handler knows of a request that was forwarded.\<close>

record forwarded =
  fw_decision :: decision
  fw_provider :: "provider option"
  fw_model :: "string option"
  fw_billing :: billing
  fw_outcome :: outcome
  fw_action :: action
  fw_bytes_up :: u64
  fw_fp :: "string option"
  fw_own :: "(string \<times> bytes) list"
  fw_template :: "template option"

definition scan_alert_step :: "world \<Rightarrow> inbound \<Rightarrow> forwarded \<Rightarrow> u16 \<Rightarrow> bytes \<Rightarrow> engine \<Rightarrow> engine" where
  "scan_alert_step w r fw status body e =
     (case scan_and_alert body (eg_vault e) (eg_session e) (ib_host r) (ib_path r) (ib_method r) (fw_decision fw)
         (swap_names (fw_outcome fw)) status of
        None \<Rightarrow> e
      | Some en \<Rightarrow> fst (audit w en e))"

definition metered_for :: "inbound \<Rightarrow> forwarded \<Rightarrow> metered_stream" where
  "metered_for r fw = \<lparr>ms_host = ib_host r, ms_counted = 0, ms_recorded = False, ms_bytes_up = fw_bytes_up fw,
     ms_scanner = map_option sse_new (fw_provider fw), ms_provider = fw_provider fw, ms_model = fw_model fw,
     ms_billing = fw_billing fw, ms_path = ib_path r, ms_method = ib_method r, ms_req_seq = None\<rparr>"

definition meter_step :: "world \<Rightarrow> inbound \<Rightarrow> token_record option \<Rightarrow> bool \<Rightarrow> u64 \<Rightarrow> u64 \<Rightarrow> engine \<Rightarrow> engine" where
  "meter_step w r tr streamed up down e =
     (case account_request (wd_flush w) (wd_period w) (wd_now w) (ib_host r) tr streamed up down
         (eg_meter_file e, eg_meter e, eg_watch e) of
        (f, s, wt) \<Rightarrow> e\<lparr>eg_meter_file := f, eg_meter := s, eg_watch := wt\<rparr>)"

definition arm_step :: "world \<Rightarrow> inbound \<Rightarrow> template option \<Rightarrow> string option \<Rightarrow> engine \<Rightarrow> engine" where
  "arm_step w r tmpl model e = (case (tmpl, model) of
     (Some t, Some m) \<Rightarrow>
       e\<lparr>eg_keepalive := fst (ka_arm (cache_key (ib_host r) m) t (c_keep_alive_max (p_cache (eg_policy e))) (wd_now w) (eg_keepalive e))\<rparr>
   | _ \<Rightarrow> e)"

text \<open>From the response headers on: buffering, the scan for echoed secrets, metering, the audit entry of the
  request, the keep-alive, and the response; the result is the engine, the open stream and the answer.\<close>

definition deliver :: "world \<Rightarrow> inbound \<Rightarrow> forwarded \<Rightarrow> u16 \<Rightarrow> (string \<times> bytes) list \<Rightarrow> bytes list \<Rightarrow> string option
    \<Rightarrow> engine \<Rightarrow> engine \<times> metered_stream option \<times> pipeline_result" where
  "deliver w r fw status hs chunks err e =
     (let sse = is_event_stream hs;
          (taken, over, rest) = (if sse then ([], False, chunks) else buffer_chunks 0 chunks);
          streamed = (sse \<or> over) in
      if \<not> streamed \<and> err \<noteq> None then (e, None, Erred (case err of Some x \<Rightarrow> x | None \<Rightarrow> []))
      else
        let body = concat taken;
            e1 = (if streamed \<and> taken = [] then e else scan_alert_step w r fw status body e);
            down = (if streamed then 0 else word_of_nat (length body));
            usage = (if streamed then None else body_usage w (fw_provider fw) body);
            tr = token_record_for (eg_pricing e1) (fw_provider fw) (fw_model fw) (fw_billing fw) usage;
            e2 = meter_step w r tr streamed (fw_bytes_up fw) down e1;
            q = \<lparr>q_host = ib_host r, q_path = ib_path r, q_method = ib_method r, q_headers = [], q_body = []\<rparr>;
            en = forward_entry (fw_decision fw) (fw_outcome fw) (fw_action fw) q streamed (wd_elapsed w) (fw_bytes_up fw) down
              status (fw_fp fw) (case tr of Some (key, u, _, _) \<Rightarrow> usage_note_for key u | None \<Rightarrow> [])
              (map_option (\<lambda>(key, u, cost, ref_cost). usage_rec_for key u cost ref_cost) tr)
        in (case audit w en e2 of
            (e3, None) \<Rightarrow>
              (e3, if streamed then Some (metered_for r fw) else None,
               Answered (refuse 503 (deny_response ''decoyrail: audit log unavailable; failing closed'')))
          | (e3, Some seq) \<Rightarrow>
              (arm_step w r (fw_template fw) (fw_model fw) e3,
               if streamed then Some ((metered_for r fw)\<lparr>ms_req_seq := Some seq\<rparr>) else None,
               Answered (build_response status hs (fw_own fw)
                 (if streamed then ChunkBody (taken @ rest) err else FullBody body)))))"

section \<open>The handler\<close>

text \<open>Everything before the swap: budget, spend tripwire and the steps that rewrite the body.\<close>

record prepared =
  pp_decision :: decision
  pp_over_budget :: bool
  pp_provider :: "provider option"
  pp_spend :: spend_result
  pp_blocked :: bool
  pp_downgrade :: "string option"
  pp_route :: "string option"
  pp_pro :: bool
  pp_cache :: cache_pass

definition decide :: "inbound \<Rightarrow> engine \<Rightarrow> decision" where
  "decide r e = evaluate (eg_policy e) (ib_host r) (ib_path r) (ib_method r)"

definition check_budget :: "world \<Rightarrow> engine \<Rightarrow> engine \<times> bool \<times> real option" where
  "check_budget w e =
     (let (m1, ob) = session_over_budget (wd_period w) (eg_meter e); (m2, pct) = budget_used_pct (wd_period w) m1
      in (e\<lparr>eg_meter := m2\<rparr>, ob, pct))"

definition tripwire_step :: "world \<Rightarrow> inbound \<Rightarrow> decision \<Rightarrow> bytes \<Rightarrow> engine \<Rightarrow> engine \<times> spend_result" where
  "tripwire_step w r d body e =
     (let cfg = p_spend_tripwire (eg_policy e);
          sr = spend_step (wd_crypto w) (eg_dlp_salt e) (eg_pricing e) cfg (wd_now w) (wd_ts w) (eg_session_id e)
            (wd_trip_saved w) (ib_host r) (ib_path r) (ib_method r) body (eg_trip_file e) (eg_watch e);
          e1 = e\<lparr>eg_watch := sr_watch sr, eg_trip_file := sr_file sr\<rparr>
      in (case spend_alert cfg d (ib_host r) (ib_path r) (ib_method r) sr of
            None \<Rightarrow> e1 | Some en \<Rightarrow> fst (audit w en e1), sr))"

definition prepare :: "world \<Rightarrow> inbound \<Rightarrow> bool \<Rightarrow> real option \<Rightarrow> bytes \<Rightarrow> engine \<Rightarrow> prepared" where
  "prepare w r ob pct body e =
     (let d = decide r e; prov = provider_for_host (eg_pricing e) (ib_host r);
          (e1, sr) = tripwire_step w r d body e;
          blk = spend_block (p_spend_tripwire (eg_policy e)) sr;
          (e2, body1, down) = soft_landing_step w r d prov ob pct blk e1 body;
          (e3, body2, rt) = route_step w r d prov ob blk e2 body1;
          cp = doctor_step w r d prov ob blk e3 body2 (collect_headers (ib_headers r))
      in \<lparr>pp_decision = d, pp_over_budget = ob, pp_provider = prov, pp_spend = sr, pp_blocked = blk,
          pp_downgrade = down, pp_route = rt, pp_pro = cache_pro w d prov ob blk e3, pp_cache = cp\<rparr>)"

definition swap_input :: "inbound \<Rightarrow> prepared \<Rightarrow> request_ctx" where
  "swap_input r pp = \<lparr>q_host = ib_host r, q_path = ib_path r, q_method = ib_method r,
     q_headers = cp_headers (pp_cache pp), q_body = cp_body (pp_cache pp)\<rparr>"

text \<open>Steps 4 to 5 on the prepared request: the engine after the dump, the note on it, and the verdict.\<close>

definition judge :: "world \<Rightarrow> inbound \<Rightarrow> prepared \<Rightarrow> engine \<times> string \<times> u64 \<times> request_verdict \<times> outcome \<times> dlp_outcome" where
  "judge w r pp =
     (let e = cp_engine (pp_cache pp); q = swap_input r pp; d = pp_decision pp; cfg = p_dlp (eg_policy e);
          q1 = fst (swap_step (wd_codecs w) q (eg_vault e) (eg_session e) d (ib_tls r));
          (q2, dlp) = detect_apply (wd_crypto w) (wd_decoders w) q1 cfg (eg_dlp_salt e);
          (e1, dump_note) = dump_step w cfg q2 dlp e
      in (e1, dump_note, word_of_nat (length (q_body q2)),
          inspect_request (wd_crypto w) (wd_codecs w) (wd_decoders w) (eg_dlp_salt e) (eg_vault e) (eg_session e) d cfg
            (ib_tls r) (pp_over_budget pp) (if pp_blocked pp then sr_trip (pp_spend pp) else None) dump_note q))"

definition forward_step :: "world \<Rightarrow> inbound \<Rightarrow> prepared \<Rightarrow> outcome \<Rightarrow> action \<Rightarrow> request_ctx \<Rightarrow> engine \<Rightarrow> passage" where
  "forward_step w r pp oc act q e =
     (let prov = pp_provider pp;
          model = (case prov of None \<Rightarrow> None
            | Some _ \<Rightarrow> (case cp_model (pp_cache pp) of Some m \<Rightarrow> Some m | None \<Rightarrow> parse_model (wd_from_json w) (q_body q)));
          up = upstream_for w r prov q
      in case (case prov of None \<Rightarrow> Some Usage | Some p \<Rightarrow> billing_for (eg_pricing e) p (ib_host r) (q_headers q)) of
           None \<Rightarrow> stopped e Panicked
         | Some billing \<Rightarrow>
             (let fw = \<lparr>fw_decision = pp_decision pp, fw_provider = prov, fw_model = model, fw_billing = billing,
                    fw_outcome = oc, fw_action = act, fw_bytes_up = word_of_nat (length (q_body q)), fw_fp = sr_fp (pp_spend pp),
                    fw_own = decoyrail_headers (cp_header (pp_cache pp)) (pp_downgrade pp) (pp_route pp),
                    fw_template = cp_template (pp_cache pp)\<rparr>;
                  key = fanout_key_for w r (pp_pro pp) (p_cache (eg_policy e)) (pp_cache pp)
              in case wd_upstream w up of
                   SendFailed err \<Rightarrow> \<lparr>ps_engine = e, ps_sent = Some up, ps_stream = None, ps_fanout_key = key, ps_result = Erred err\<rparr>
                 | Reply status hs chunks err \<Rightarrow>
                     (case deliver w r fw status hs chunks err e of
                        (e1, ms, res) \<Rightarrow> \<lparr>ps_engine = e1, ps_sent = Some up, ps_stream = ms, ps_fanout_key = key, ps_result = res\<rparr>)))"

definition pipeline_inner :: "world \<Rightarrow> inbound \<Rightarrow> engine \<Rightarrow> passage" where
  "pipeline_inner w r e0 =
     (case check_budget w e0 of (e, ob, pct) \<Rightarrow>
        (case collect_body r of
           BodyTooLarge \<Rightarrow>
             stopped (fst (audit w (oversize_entry r (decide r e0) (wd_elapsed w)) e))
               (Answered (refuse 413 (deny_response ''decoyrail: request body exceeds the inspection cap'')))
         | BodyFailed \<Rightarrow> stopped e (Erred ''reading request body'')
         | BodyOk body \<Rightarrow>
             (let pp = prepare w r ob pct body e in
              case judge w r pp of (e1, dump_note, sent, verdict, oc, dlp) \<Rightarrow>
                (let e2 = audit_all w (request_entries (pp_decision pp) (swap_input r pp) (wd_elapsed w) sent
                       (sr_fp (pp_spend pp)) dump_note (verdict, oc, dlp)) e1
                 in case verdict of
                      Denied body note \<Rightarrow> stopped e2 (Answered (refuse 403 body))
                    | Forwarded act q \<Rightarrow> forward_step w r pp oc act q e2))))"

definition pipeline :: "world \<Rightarrow> inbound \<Rightarrow> engine \<Rightarrow> passage" where
  "pipeline w r e =
     (let p = pipeline_inner w r e in
      case ps_result p of
        Erred err \<Rightarrow> p\<lparr>ps_result := Answered (refuse 502 (deny_response (''decoyrail: upstream error: '' @ err)))\<rparr>
      | _ \<Rightarrow> p)"

section \<open>Keep-alive\<close>

definition minimize_body :: "(bytes \<Rightarrow> json option) \<Rightarrow> (json \<Rightarrow> bytes) \<Rightarrow> bytes \<Rightarrow> bytes option" where
  "minimize_body from_json to_vec body = (case from_json body of
     Some (JObj ms) \<Rightarrow> Some (to_vec (JObj (btm_remove ''stream'' (btm_insert ''max_tokens'' (JPos 1) ms))))
   | _ \<Rightarrow> None)"

definition prewarm_headers :: "(string \<times> string) list \<Rightarrow> (string \<times> string) list" where
  "prewarm_headers hs = filter (\<lambda>(name, _). \<not> (is_hop_by_hop name \<or> eq_ignore_ascii_case name ''host''
     \<or> eq_ignore_ascii_case name ''accept-encoding'')) hs"

definition prewarm_request :: "world \<Rightarrow> string \<Rightarrow> template \<Rightarrow> request_ctx \<Rightarrow> upstream_request" where
  "prewarm_request w host tmpl q =
     \<lparr>us_method = (if wd_method_ok w (ka_method tmpl) then ka_method tmpl else ''POST''),
      us_url = upstream_url True host (ka_port tmpl) (ka_path tmpl),
      us_headers = prewarm_headers (q_headers q), us_body = Some (q_body q)\<rparr>"

definition prewarm_token_record :: "pricing \<Rightarrow> (bytes \<Rightarrow> json option) \<Rightarrow> string \<Rightarrow> string \<Rightarrow> billing \<Rightarrow> bytes \<Rightarrow> token_record option" where
  "prewarm_token_record prices from_json host model b body =
     token_record_for prices (provider_for_host prices host) (Some model) b
       (Option.bind (provider_for_host prices host) (\<lambda>p. parse_usage_json from_json p body))"

definition prewarm_entry :: "string \<Rightarrow> template \<Rightarrow> decision \<Rightarrow> outcome \<Rightarrow> u16 \<Rightarrow> u64 \<Rightarrow> u64 \<Rightarrow> u64 \<Rightarrow> token_record option \<Rightarrow> entry" where
  "prewarm_entry host tmpl d oc status dur up down tr = entry_default\<lparr>en_host := host, en_path := ka_path tmpl,
     en_method := ka_method tmpl, en_action := ''keepalive'', en_rule := dc_rule d, en_swaps := swap_names oc,
     en_status := status,
     en_note := (case tr of Some (key, u, _, _) \<Rightarrow> ''proxy-initiated pre-warm; '' @ usage_note_for key u
       | None \<Rightarrow> ''proxy-initiated pre-warm''),
     en_dur_ms := Some dur, en_bytes_up := up, en_bytes_down := down,
     en_usage := map_option (\<lambda>(key, u, cost, ref_cost). usage_rec_for key u cost ref_cost) tr\<rparr>"

definition prewarm_meter :: "world \<Rightarrow> string \<Rightarrow> token_record option \<Rightarrow> u64 \<Rightarrow> u64 \<Rightarrow> engine \<Rightarrow> engine" where
  "prewarm_meter w host tr up down e =
     (let s1 = session_record_traffic (wd_period w) host up down (eg_meter e);
          s2 = (case tr of
              Some (key, u, cost, ref_cost) \<Rightarrow> session_record_tokens (wd_period w) host key u cost ref_cost s1
            | None \<Rightarrow> session_add_estimated (wd_period w) host (up + down) s1);
          (f, s3, _) = session_flush (wd_flush w) (wd_period w) (eg_meter_file e) s2
      in e\<lparr>eg_meter_file := f, eg_meter := s3\<rparr>)"

definition keepalive_fire :: "world \<Rightarrow> string \<Rightarrow> string \<Rightarrow> template \<Rightarrow> engine \<Rightarrow> engine \<times> upstream_request option" where
  "keepalive_fire w host model tmpl e =
     (case minimize_body (wd_from_json w) (wd_to_vec w) (ka_body tmpl) of
        None \<Rightarrow> (e, None)
      | Some body \<Rightarrow>
          (let d = evaluate (eg_policy e) host (ka_path tmpl) (ka_method tmpl) in
           if dc_action d \<notin> {Allow, Route} then (e, None)
           else if st_mode (p_spend_tripwire (eg_policy e)) = TripBlock \<and> w_tripped (eg_watch e) \<noteq> None then (e, None)
           else
             (let q0 = \<lparr>q_host = host, q_path = ka_path tmpl, q_method = ka_method tmpl, q_headers = ka_headers tmpl, q_body = body\<rparr>;
                  (q, oc) = swap_step (wd_codecs w) q0 (eg_vault e) (eg_session e) d True in
              if tripped oc then (e, None)
              else
                (let up = prewarm_request w host tmpl q in
                 case wd_upstream w up of
                   SendFailed _ \<Rightarrow> (e, Some up)
                 | Reply status hs chunks (Some err) \<Rightarrow> (e, Some up)
                 | Reply status hs chunks None \<Rightarrow>
                     (case (case provider_for_host (eg_pricing e) host of None \<Rightarrow> Some Usage
                            | Some p \<Rightarrow> billing_for (eg_pricing e) p host (q_headers q)) of
                        None \<Rightarrow> (e, Some up)
                      | Some b \<Rightarrow>
                          (let bytes_up = word_of_nat (length (q_body q)); bytes_down = word_of_nat (length (concat chunks));
                               tr = prewarm_token_record (eg_pricing e) (wd_from_json w) host model b (concat chunks);
                               e1 = prewarm_meter w host tr bytes_up bytes_down e
                           in (fst (audit w (prewarm_entry host tmpl d oc status (wd_elapsed w) bytes_up bytes_down tr) e1), Some up)))))))"

text \<open>One turn of the watcher.\<close>

definition watcher_turn :: "world \<Rightarrow> string \<Rightarrow> string \<Rightarrow> u64 \<Rightarrow> engine \<Rightarrow> engine \<times> upstream_request option" where
  "watcher_turn w host model idle_secs e =
     (case ka_due (cache_key host model) idle_secs (wd_now w) (eg_keepalive e) of
        (ka, None) \<Rightarrow> (e\<lparr>eg_keepalive := ka\<rparr>, None)
      | (ka, Some tmpl) \<Rightarrow> keepalive_fire w host model tmpl (e\<lparr>eg_keepalive := ka\<rparr>))"

section \<open>What the steps leave alone\<close>

text \<open>Replacing the two vaults. No step before the swap reads them, so they can be replaced before or after it.\<close>

definition with_vaults :: "vault \<Rightarrow> vault \<Rightarrow> engine \<Rightarrow> engine" where
  "with_vaults v s e = e\<lparr>eg_vault := v, eg_session := s\<rparr>"

lemma with_vaults_fields [simp]:
  "eg_policy (with_vaults v s e) = eg_policy e" "eg_pricing (with_vaults v s e) = eg_pricing e"
  "eg_license (with_vaults v s e) = eg_license e" "eg_meter (with_vaults v s e) = eg_meter e"
  "eg_meter_file (with_vaults v s e) = eg_meter_file e" "eg_watch (with_vaults v s e) = eg_watch e"
  "eg_trip_file (with_vaults v s e) = eg_trip_file e" "eg_doctor (with_vaults v s e) = eg_doctor e"
  "eg_cache_file (with_vaults v s e) = eg_cache_file e" "eg_session_id (with_vaults v s e) = eg_session_id e"
  "eg_dlp_salt (with_vaults v s e) = eg_dlp_salt e" "eg_auditor (with_vaults v s e) = eg_auditor e"
  "eg_audit_disk (with_vaults v s e) = eg_audit_disk e" "eg_trail (with_vaults v s e) = eg_trail e"
  "eg_dump_seq (with_vaults v s e) = eg_dump_seq e" "eg_vault (with_vaults v s e) = v" "eg_session (with_vaults v s e) = s"
  by (simp_all add: with_vaults_def)

lemma engine_tier_vaults [simp]: "engine_tier w (with_vaults v s e) = engine_tier w e"
  by (simp add: engine_tier_def)

lemma audit_vaults: "audit w en (with_vaults v s e) = map_prod (with_vaults v s) id (audit w en e)"
  by (simp add: audit_def Let_def with_vaults_def split: prod.split)

lemma audit_vaults_fst [simp]: "fst (audit w en (with_vaults v s e)) = with_vaults v s (fst (audit w en e))"
  by (simp add: audit_vaults)

lemma audit_fields [simp]:
  "eg_policy (fst (audit w en e)) = eg_policy e" "eg_vault (fst (audit w en e)) = eg_vault e"
  "eg_session (fst (audit w en e)) = eg_session e" "eg_pricing (fst (audit w en e)) = eg_pricing e"
  "eg_license (fst (audit w en e)) = eg_license e" "eg_session_id (fst (audit w en e)) = eg_session_id e"
  "eg_dlp_salt (fst (audit w en e)) = eg_dlp_salt e" "eg_meter (fst (audit w en e)) = eg_meter e"
  "eg_meter_file (fst (audit w en e)) = eg_meter_file e" "eg_watch (fst (audit w en e)) = eg_watch e"
  "eg_doctor (fst (audit w en e)) = eg_doctor e" "eg_cache_file (fst (audit w en e)) = eg_cache_file e"
  "eg_dumps (fst (audit w en e)) = eg_dumps e" "eg_dump_seq (fst (audit w en e)) = eg_dump_seq e"
  "eg_keepalive (fst (audit w en e)) = eg_keepalive e" "eg_trip_file (fst (audit w en e)) = eg_trip_file e"
  "eg_trail (fst (audit w en e)) = eg_trail e @ [en\<lparr>en_sid := eg_session_id e\<rparr>]"
  by (simp_all add: audit_def Let_def split: prod.split)

lemma engine_tier_license: "eg_license e = eg_license e' \<Longrightarrow> engine_tier w e = engine_tier w e'"
  by (simp add: engine_tier_def)

lemma engine_tier_audit [simp]: "engine_tier w (fst (audit w' en e)) = engine_tier w e"
  by (rule engine_tier_license) simp

text \<open>The configuration of a session: what no request changes.\<close>

definition same_config :: "engine \<Rightarrow> engine \<Rightarrow> bool" where
  "same_config e e' \<longleftrightarrow> eg_policy e' = eg_policy e \<and> eg_vault e' = eg_vault e \<and> eg_session e' = eg_session e
     \<and> eg_pricing e' = eg_pricing e \<and> eg_license e' = eg_license e \<and> eg_session_id e' = eg_session_id e \<and> eg_dlp_salt e' = eg_dlp_salt e"

lemma same_config_refl [simp]: "same_config e e"
  by (simp add: same_config_def)

lemma same_config_trans: "same_config a b \<Longrightarrow> same_config b c \<Longrightarrow> same_config a c"
  by (simp add: same_config_def)

lemma same_config_audit [simp]: "same_config a (fst (audit w en b)) = same_config a b"
  by (simp add: same_config_def)

lemma same_config_audit_all: "same_config a (audit_all w ens b) = same_config a b"
  by (induction ens arbitrary: b) (simp_all add: audit_all_def)

lemma same_config_updates [simp]:
  "same_config a (b\<lparr>eg_watch := x\<rparr>) = same_config a b" "same_config a (b\<lparr>eg_trip_file := t\<rparr>) = same_config a b"
  "same_config a (b\<lparr>eg_doctor := d\<rparr>) = same_config a b" "same_config a (b\<lparr>eg_cache_file := cf\<rparr>) = same_config a b"
  "same_config a (b\<lparr>eg_meter := m\<rparr>) = same_config a b" "same_config a (b\<lparr>eg_meter_file := mf\<rparr>) = same_config a b"
  "same_config a (b\<lparr>eg_dumps := ds\<rparr>) = same_config a b" "same_config a (b\<lparr>eg_dump_seq := n\<rparr>) = same_config a b"
  "same_config a (b\<lparr>eg_keepalive := ka\<rparr>) = same_config a b"
  by (simp_all add: same_config_def)

lemma check_budget_config: "check_budget w e = (e1, ob, pct) \<Longrightarrow> same_config e e1"
  by (auto simp: check_budget_def Let_def split: prod.splits)

lemma tripwire_step_config: "same_config e (fst (tripwire_step w r d body e))"
  by (simp add: tripwire_step_def Let_def split: option.split)

lemma soft_landing_keeps_config: "same_config e (fst (soft_landing_step w r d prov ob pct blk e body))"
  by (simp add: soft_landing_step_def Let_def split: option.split)

lemma route_config: "same_config e (fst (route_step w r d prov ob blk e body))"
  by (simp add: route_step_def Let_def split: option.split action.split)

lemma flush_cache_config [simp]: "same_config a (flush_cache w b) = same_config a b"
  by (simp add: flush_cache_def split: prod.split)

lemma repair_config: "same_config a (cp_engine (repair_step w r d obs cp)) = same_config a (cp_engine cp)"
  by (simp add: repair_step_def Let_def split: option.split)

lemma doctor_config: "same_config e (cp_engine (doctor_step w r d prov ob blk e body hs))"
  by (simp add: doctor_step_def Let_def repair_config split: option.split prod.split)

lemma prepare_config: "same_config e (cp_engine (pp_cache (prepare w r ob pct body e)))"
proof -
  obtain e1 sr where 1: "tripwire_step w r (decide r e) body e = (e1, sr)" by fastforce
  let ?prov = "provider_for_host (eg_pricing e) (ib_host r)" and ?blk = "spend_block (p_spend_tripwire (eg_policy e)) sr"
  obtain e2 b2 h2 where 2: "soft_landing_step w r (decide r e) ?prov ob pct ?blk e1 body = (e2, b2, h2)" by (metis prod_cases3)
  obtain e3 b3 h3 where 3: "route_step w r (decide r e) ?prov ob ?blk e2 b2 = (e3, b3, h3)" by (metis prod_cases3)
  have "same_config e e1" "same_config e1 e2" "same_config e2 e3"
    using tripwire_step_config[of e w r "decide r e" body] soft_landing_keeps_config[of e1 w r "decide r e" ?prov ob pct ?blk body]
      route_config[of e2 w r "decide r e" ?prov ob ?blk b2] 1 2 3 by simp_all
  moreover have "same_config e3 (cp_engine (pp_cache (prepare w r ob pct body e)))"
    by (simp add: prepare_def 1 2 3 Let_def doctor_config)
  ultimately show ?thesis by (blast intro: same_config_trans)
qed

section \<open>Replacing vaults commutes with every step before the swap\<close>

lemma check_budget_vaults: "check_budget w (with_vaults v s e) = map_prod (with_vaults v s) id (check_budget w e)"
  by (simp add: check_budget_def Let_def with_vaults_def split: prod.split)

lemma decide_vaults [simp]: "decide r (with_vaults v s e) = decide r e"
  by (simp add: decide_def)

lemma with_vaults_updates:
  "(with_vaults v s e)\<lparr>eg_watch := x\<rparr> = with_vaults v s (e\<lparr>eg_watch := x\<rparr>)"
  "(with_vaults v s e)\<lparr>eg_trip_file := t\<rparr> = with_vaults v s (e\<lparr>eg_trip_file := t\<rparr>)"
  "(with_vaults v s e)\<lparr>eg_doctor := dd\<rparr> = with_vaults v s (e\<lparr>eg_doctor := dd\<rparr>)"
  "(with_vaults v s e)\<lparr>eg_cache_file := cf\<rparr> = with_vaults v s (e\<lparr>eg_cache_file := cf\<rparr>)"
  by (simp_all add: with_vaults_def)

lemma tripwire_step_vaults: "tripwire_step w r d body (with_vaults v s e) = map_prod (with_vaults v s) id (tripwire_step w r d body e)"
  by (simp add: tripwire_step_def Let_def with_vaults_updates split: option.split)

lemma soft_landing_vaults:
  "soft_landing_step w r d prov ob pct blk (with_vaults v s e) body = map_prod (with_vaults v s) id (soft_landing_step w r d prov ob pct blk e body)"
  by (simp add: soft_landing_step_def Let_def split: option.split)

lemma route_vaults:
  "route_step w r d prov ob blk (with_vaults v s e) body = map_prod (with_vaults v s) id (route_step w r d prov ob blk e body)"
  by (simp add: route_step_def Let_def forfeit_note_def split: option.split action.split)

definition cp_vaults :: "vault \<Rightarrow> vault \<Rightarrow> cache_pass \<Rightarrow> cache_pass" where
  "cp_vaults v s cp = cp\<lparr>cp_engine := with_vaults v s (cp_engine cp)\<rparr>"

lemma repair_vaults: "repair_step w r d obs (cp_vaults v s cp) = cp_vaults v s (repair_step w r d obs cp)"
  by (simp add: repair_step_def cp_vaults_def Let_def with_vaults_updates split: option.split)

lemma flush_cache_vaults [simp]: "flush_cache w (with_vaults v s e) = with_vaults v s (flush_cache w e)"
  by (simp add: flush_cache_def with_vaults_updates split: prod.split)

lemma doctor_vaults:
  "doctor_step w r d prov ob blk (with_vaults v s e) body hs = cp_vaults v s (doctor_step w r d prov ob blk e body hs)"
proof -
  have f: "cp_engine (cp_vaults v s cp) = with_vaults v s (cp_engine cp)" "template_of r (cp_vaults v s cp) = template_of r cp" for cp
    by (simp_all add: cp_vaults_def template_of_def)
  have u: "(cp_vaults v s cp)\<lparr>cp_template := t\<rparr> = cp_vaults v s (cp\<lparr>cp_template := t\<rparr>)"
    "(cp_vaults v s cp)\<lparr>cp_model := m\<rparr> = cp_vaults v s (cp\<lparr>cp_model := m\<rparr>)" for cp t m
    by (simp_all add: cp_vaults_def)
  have g: "(cp_vaults v s cp)\<lparr>cp_engine := with_vaults v s x\<rparr> = cp_vaults v s (cp\<lparr>cp_engine := x\<rparr>)" for cp x
    by (simp add: cp_vaults_def)
  have c: "\<lparr>cp_engine = with_vaults v s x, cp_body = b, cp_headers = h, cp_header = None, cp_template = None, cp_model = None\<rparr>
      = cp_vaults v s \<lparr>cp_engine = x, cp_body = b, cp_headers = h, cp_header = None, cp_template = None, cp_model = None\<rparr>" for x b h
    by (simp add: cp_vaults_def)
  show ?thesis
    by (auto simp: doctor_step_def cache_pro_def Let_def with_vaults_updates c g u f repair_vaults split: option.split prod.split)
qed

definition pp_vaults :: "vault \<Rightarrow> vault \<Rightarrow> prepared \<Rightarrow> prepared" where
  "pp_vaults v s pp = pp\<lparr>pp_cache := cp_vaults v s (pp_cache pp)\<rparr>"

lemma prepare_vaults: "prepare w r ob pct body (with_vaults v s e) = pp_vaults v s (prepare w r ob pct body e)"
  by (simp add: prepare_def Let_def tripwire_step_vaults soft_landing_vaults route_vaults doctor_vaults pp_vaults_def
      cache_pro_def split_beta)

end
