(* ===== verification/Pipeline_Props.thy ===== *)
theory Pipeline_Props
  imports Pipeline
begin

text \<open>
  What the handler of \<open>Pipeline\<close> guarantees, composed from the guarantees of its parts: which requests are
  sent and what they can carry, that rewrites are announced, what is delivered and recorded, how it fails, what
  a pre-warm may do, and what the debug dump may contain. The end holds a small session as an example.
\<close>

section \<open>The verdict of the handler\<close>

lemma judge_vaults:
  assumes "swap_step (wd_codecs w) (swap_input r pp) v s (pp_decision pp) (ib_tls r)
      = swap_step (wd_codecs w) (swap_input r pp) (eg_vault (cp_engine (pp_cache pp))) (eg_session (cp_engine (pp_cache pp))) (pp_decision pp) (ib_tls r)"
  shows "snd (judge w r (pp_vaults v s pp)) = snd (judge w r pp)"
proof -
  have i: "swap_input r (pp_vaults v s pp) = swap_input r pp" "pp_decision (pp_vaults v s pp) = pp_decision pp"
    "cp_engine (pp_cache (pp_vaults v s pp)) = with_vaults v s (cp_engine (pp_cache pp))"
    "pp_over_budget (pp_vaults v s pp) = pp_over_budget pp" "pp_blocked (pp_vaults v s pp) = pp_blocked pp"
    "pp_spend (pp_vaults v s pp) = pp_spend pp"
    by (simp_all add: pp_vaults_def cp_vaults_def swap_input_def)
  have d: "snd (dump_step w cfg q dlp (with_vaults v s e)) = snd (dump_step w cfg q dlp e)" for cfg q dlp e
    by (simp add: dump_step_def write_dlp_dump_def Let_def split: dump_io.split)
  show ?thesis
    by (simp add: judge_def i assms inspect_request_def Let_def split_beta d)
qed

lemma dump_step_config: "same_config e (fst (dump_step w cfg q dlp e))"
  by (simp add: dump_step_def write_dlp_dump_def Let_def split: dump_io.split)

lemma judge_config: "same_config (cp_engine (pp_cache pp)) (fst (judge w r pp))"
  by (simp add: judge_def Let_def split_beta dump_step_config)

text \<open>What the handler answers without sending anything.\<close>

definition refusal :: "passage \<Rightarrow> pipeline_result option" where
  "refusal p = (if ps_sent p = None then Some (ps_result p) else None)"

lemma forward_step_sent:
  assumes "eg_pricing e = eg_pricing e'"
  shows "ps_sent (forward_step w r (pp_vaults v s pp) oc act q e) = ps_sent (forward_step w r pp oc act q e')
    \<and> refusal (forward_step w r (pp_vaults v s pp) oc act q e) = refusal (forward_step w r pp oc act q e')"
  using assms
  by (simp add: forward_step_def Let_def pp_vaults_def cp_vaults_def stopped_def refusal_def split_beta split: option.split upstream_result.split)

lemma pipeline_sent [simp]: "ps_sent (pipeline w r e) = ps_sent (pipeline_inner w r e)"
  by (simp add: pipeline_def Let_def split: pipeline_result.split)

lemma pipeline_refusal: "refusal (pipeline_inner w r e) = refusal (pipeline_inner w r e') \<Longrightarrow> refusal (pipeline w r e) = refusal (pipeline w r e')"
  by (auto simp: pipeline_def Let_def refusal_def split: pipeline_result.split if_splits)

lemma stopped_fields [simp]: "ps_sent (stopped e x) = None" "ps_result (stopped e x) = x" "ps_engine (stopped e x) = e"
  by (simp_all add: stopped_def)

definition hide_engine :: "inbound \<Rightarrow> (secret \<Rightarrow> string) \<Rightarrow> engine \<Rightarrow> engine" where
  "hide_engine r f e = with_vaults (hide_unreleased (decide r e) (ib_tls r) f (eg_vault e))
     (hide_unreleased (decide r e) (ib_tls r) f (eg_session e)) e"

text \<open>Vaults that the swap cannot tell from the engine's own make no difference to what is sent or refused.\<close>

lemma pipeline_vaults:
  assumes swap: "\<And>q. swap_step (wd_codecs w) q v s (decide r e) (ib_tls r)
      = swap_step (wd_codecs w) q (eg_vault e) (eg_session e) (decide r e) (ib_tls r)"
  shows "ps_sent (pipeline w r (with_vaults v s e)) = ps_sent (pipeline w r e)
   \<and> refusal (pipeline w r (with_vaults v s e)) = refusal (pipeline w r e)"
proof -
  obtain e1 ob pct where b: "check_budget w e = (e1, ob, pct)" by (metis prod_cases3)
  have c1: "same_config e e1" using check_budget_config[OF b] .
  have b': "check_budget w (with_vaults v s e) = (with_vaults v s e1, ob, pct)" by (simp add: check_budget_vaults b)
  have "ps_sent (pipeline_inner w r (with_vaults v s e)) = ps_sent (pipeline_inner w r e)
      \<and> refusal (pipeline_inner w r (with_vaults v s e)) = refusal (pipeline_inner w r e)"
  proof (cases "collect_body r")
    case (BodyOk body)
    let ?pp = "prepare w r ob pct body e1"
    let ?ce = "cp_engine (pp_cache ?pp)"
    have c2: "same_config e ?ce" using same_config_trans[OF c1 prepare_config] .
    have d: "pp_decision ?pp = decide r e"
      using c1 by (simp add: prepare_def Let_def split_beta decide_def same_config_def)
    have sw: "swap_step (wd_codecs w) (swap_input r ?pp) v s (pp_decision ?pp) (ib_tls r)
        = swap_step (wd_codecs w) (swap_input r ?pp) (eg_vault ?ce) (eg_session ?ce) (pp_decision ?pp) (ib_tls r)"
      using c2 by (simp add: d swap same_config_def)
    obtain e2 dn n verdict oc dlp where j: "judge w r ?pp = (e2, dn, n, verdict, oc, dlp)" by (metis prod_cases3)
    obtain e2' where j': "judge w r (pp_vaults v s ?pp) = (e2', dn, n, verdict, oc, dlp)"
      using judge_vaults[OF sw] j by (metis prod.collapse snd_conv)
    have p: "eg_pricing e2' = eg_pricing e2"
      using judge_config[of "pp_vaults v s ?pp" w r] judge_config[of ?pp w r] j j'
      by (simp add: same_config_def pp_vaults_def cp_vaults_def)
    have a: "eg_pricing (audit_all w ens e2') = eg_pricing (audit_all w ens e2)" for ens
      using same_config_audit_all[of e2' w ens e2'] same_config_audit_all[of e2 w ens e2] p by (simp add: same_config_def)
    have f: "pp_decision (pp_vaults v s ?pp) = pp_decision ?pp" "swap_input r (pp_vaults v s ?pp) = swap_input r ?pp"
      "pp_spend (pp_vaults v s ?pp) = pp_spend ?pp"
      by (simp_all add: pp_vaults_def cp_vaults_def swap_input_def)
    show ?thesis
    proof (cases verdict)
      case (Denied js why)
      then show ?thesis by (simp add: pipeline_inner_def b b' BodyOk prepare_vaults Let_def j j' f refusal_def)
    next
      case (Forwarded act q)
      let ?ens = "request_entries (pp_decision ?pp) (swap_input r ?pp) (wd_elapsed w) n (sr_fp (pp_spend ?pp)) dn (verdict, oc, dlp)"
      have "pipeline_inner w r (with_vaults v s e) = forward_step w r (pp_vaults v s ?pp) oc act q (audit_all w ?ens e2')"
        "pipeline_inner w r e = forward_step w r ?pp oc act q (audit_all w ?ens e2)"
        by (simp_all add: pipeline_inner_def b b' BodyOk prepare_vaults Let_def j j' f Forwarded)
      then show ?thesis using forward_step_sent[OF a] by simp
    qed
  qed (simp_all add: pipeline_inner_def b b' refusal_def)
  then have 1: "ps_sent (pipeline_inner w r (with_vaults v s e)) = ps_sent (pipeline_inner w r e)"
    and 2: "refusal (pipeline_inner w r (with_vaults v s e)) = refusal (pipeline_inner w r e)" by blast+
  from 1 pipeline_refusal[OF 2] show ?thesis unfolding pipeline_sent by (rule conjI)
qed

text \<open>C1: end to end, real values that the decision does not release stay on the machine. Whatever the real
  values of the secrets are that the matching rule does not release over this transport, the handler sends
  the same request upstream, or sends nothing and gives the agent the same answer: no rewriting step, error
  path or explanation in a refusal carries a bit of them.\<close>

theorem pipeline_confines_secrets:
  "ps_sent (pipeline w r (hide_engine r f e)) = ps_sent (pipeline w r e)
   \<and> refusal (pipeline w r (hide_engine r f e)) = refusal (pipeline w r e)"
  unfolding hide_engine_def by (rule pipeline_vaults) (rule swap_step_hide)

text \<open>The cases of a run of the handler.\<close>

lemma pipeline_inner_cases:
  obtains (too_large) e1 ob pct where "check_budget w e = (e1, ob, pct)" "collect_body r = BodyTooLarge"
    "pipeline_inner w r e = stopped (fst (audit w (oversize_entry r (decide r e) (wd_elapsed w)) e1))
       (Answered (refuse 413 (deny_response ''decoyrail: request body exceeds the inspection cap'')))"
  | (failed) e1 where "collect_body r = BodyFailed" "pipeline_inner w r e = stopped e1 (Erred ''reading request body'')"
  | (denied) e1 ob pct body e2 dn n js why oc dlp where "check_budget w e = (e1, ob, pct)" "collect_body r = BodyOk body"
    "judge w r (prepare w r ob pct body e1) = (e2, dn, n, Denied js why, oc, dlp)"
    "pipeline_inner w r e = stopped (audit_all w [deny_entry (pp_decision (prepare w r ob pct body e1)) oc (swap_input r (prepare w r ob pct body e1))
        (wd_elapsed w) n (sr_fp (pp_spend (prepare w r ob pct body e1))) why] e2) (Answered (refuse 403 js))"
  | (sent) e1 ob pct body e2 dn n act q oc dlp ens where "check_budget w e = (e1, ob, pct)" "collect_body r = BodyOk body"
    "judge w r (prepare w r ob pct body e1) = (e2, dn, n, Forwarded act q, oc, dlp)"
    "ens = request_entries (pp_decision (prepare w r ob pct body e1)) (swap_input r (prepare w r ob pct body e1)) (wd_elapsed w) n
       (sr_fp (pp_spend (prepare w r ob pct body e1))) dn (Forwarded act q, oc, dlp)"
    "pipeline_inner w r e = forward_step w r (prepare w r ob pct body e1) oc act q (audit_all w ens e2)"
proof -
  obtain e1 ob pct where b: "check_budget w e = (e1, ob, pct)" by (metis prod_cases3)
  show thesis
  proof (cases "collect_body r")
    case BodyTooLarge
    then show thesis using too_large[OF b] by (simp add: pipeline_inner_def b)
  next
    case BodyFailed
    then show thesis using failed[of e1] by (simp add: pipeline_inner_def b)
  next
    case (BodyOk body)
    obtain e2 dn n verdict oc dlp where j: "judge w r (prepare w r ob pct body e1) = (e2, dn, n, verdict, oc, dlp)" by (metis prod_cases3)
    show thesis
    proof (cases verdict)
      case (Denied js why)
      then show thesis using denied[OF b BodyOk, of e2 dn n js why oc dlp] j
        by (simp add: pipeline_inner_def b BodyOk request_entries_def Let_def)
    next
      case (Forwarded act q)
      then show thesis using sent[OF b BodyOk, of e2 dn n act q oc dlp] j by (simp add: pipeline_inner_def b BodyOk Let_def)
    qed
  qed
qed

lemma judge_verdict:
  "judge w r pp = (e2, dn, n, verdict, oc, dlp) \<Longrightarrow>
   inspect_request (wd_crypto w) (wd_codecs w) (wd_decoders w) (eg_dlp_salt (cp_engine (pp_cache pp))) (eg_vault (cp_engine (pp_cache pp)))
     (eg_session (cp_engine (pp_cache pp))) (pp_decision pp) (p_dlp (eg_policy (cp_engine (pp_cache pp)))) (ib_tls r) (pp_over_budget pp)
     (if pp_blocked pp then sr_trip (pp_spend pp) else None) dn (swap_input r pp) = (verdict, oc, dlp)"
  by (auto simp: judge_def Let_def split: prod.splits)

lemma forward_step_upstream:
  "ps_sent (forward_step w r pp oc act q e) = Some u \<Longrightarrow> u = upstream_for w r (pp_provider pp) q"
  by (auto simp: forward_step_def Let_def split: option.splits upstream_result.splits prod.splits)

lemma prepare_fields [simp]:
  "pp_over_budget (prepare w r ob pct body e) = ob" "pp_decision (prepare w r ob pct body e) = decide r e"
  "pp_provider (prepare w r ob pct body e) = provider_for_host (eg_pricing e) (ib_host r)"
  "pp_spend (prepare w r ob pct body e) = snd (tripwire_step w r (decide r e) body e)"
  "pp_blocked (prepare w r ob pct body e) = spend_block (p_spend_tripwire (eg_policy e)) (snd (tripwire_step w r (decide r e) body e))"
  by (simp_all add: prepare_def Let_def split_beta)

definition billing_panics :: "inbound \<Rightarrow> engine \<Rightarrow> request_ctx \<Rightarrow> bool" where
  "billing_panics r e q \<longleftrightarrow> (case provider_for_host (eg_pricing e) (ib_host r) of None \<Rightarrow> False
     | Some p \<Rightarrow> billing_for (eg_pricing e) p (ib_host r) (q_headers q) = None)"

text \<open>The request as it would leave, and what was found in it on the way.\<close>

definition outgoing :: "world \<Rightarrow> inbound \<Rightarrow> engine \<Rightarrow> prepared \<Rightarrow> request_ctx \<times> outcome \<times> dlp_outcome" where
  "outgoing w r e pp =
     (let (q1, oc) = swap_step (wd_codecs w) (swap_input r pp) (eg_vault e) (eg_session e) (decide r e) (ib_tls r);
          (q2, dlp) = detect_apply (wd_crypto w) (wd_decoders w) q1 (p_dlp (eg_policy e)) (eg_dlp_salt e)
      in (q2, oc, dlp))"

lemma spend_none: "(if spend_block cfg sr then sr_trip sr else None) = None \<longleftrightarrow> \<not> spend_block cfg sr"
  by (auto simp: spend_block_def)

lemma same_config_fields:
  "same_config e e' \<Longrightarrow> eg_vault e' = eg_vault e \<and> eg_session e' = eg_session e \<and> eg_policy e' = eg_policy e
    \<and> eg_dlp_salt e' = eg_dlp_salt e \<and> eg_pricing e' = eg_pricing e \<and> eg_license e' = eg_license e"
  by (simp add: same_config_def)

lemma judge_prepared:
  assumes "check_budget w e = (e1, ob, pct)" "judge w r (prepare w r ob pct body e1) = (e2, dn, n, verdict, oc, dlp)"
  shows "(oc, dlp) = snd (outgoing w r e (prepare w r ob pct body e1))"
    and "(\<exists>act q. verdict = Forwarded act q) \<longleftrightarrow> \<not> tripped oc \<and> \<not> has_blocking dlp \<and> \<not> ob
      \<and> \<not> spend_block (p_spend_tripwire (eg_policy e)) (snd (tripwire_step w r (decide r e) body e1)) \<and> dc_action (decide r e) \<noteq> Deny"
    and "verdict = Forwarded act q \<Longrightarrow> q = fst (outgoing w r e (prepare w r ob pct body e1))
      \<and> act = fst (final_action oc dlp ob None (decide r e) (ib_host r) dn)"
    and "same_config e e2"
proof -
  let ?pp = "prepare w r ob pct body e1"
  have c1: "same_config e e1" using check_budget_config[OF assms(1)] .
  have c2: "same_config e (cp_engine (pp_cache ?pp))" using same_config_trans[OF c1 prepare_config] .
  note f = same_config_fields[OF c1] same_config_fields[OF c2]
  have d: "decide r e1 = decide r e" using f by (simp add: decide_def)
  note v = judge_verdict[OF assms(2)]
  let ?s = "swap_step (wd_codecs w) (swap_input r ?pp) (eg_vault e) (eg_session e) (decide r e) (ib_tls r)"
  let ?x = "detect_apply (wd_crypto w) (wd_decoders w) (fst ?s) (p_dlp (eg_policy e)) (eg_dlp_salt e)"
  have o: "outgoing w r e ?pp = (fst ?x, snd ?s, snd ?x)" by (simp add: outgoing_def Let_def split_beta)
  have od: "oc = snd ?s" "dlp = snd ?x"
    using arg_cong[OF v, of snd] by (simp_all add: inspect_request_parts f d)
  show "(oc, dlp) = snd (outgoing w r e ?pp)" by (simp add: o od)
  let ?sp = "if spend_block (p_spend_tripwire (eg_policy e)) (snd (tripwire_step w r (decide r e) body e1))
    then sr_trip (snd (tripwire_step w r (decide r e) body e1)) else None"
  let ?fa = "final_action oc dlp ob ?sp (decide r e) (ib_host r) dn"
  have ver: "verdict = (if fst ?fa = Deny then Denied (deny_body oc dlp ob ?sp (snd ?fa)) (snd ?fa) else Forwarded (fst ?fa) (fst ?x))"
    using arg_cong[OF v, of fst] by (simp add: inspect_request_verdict f d od Let_def swap_input_def cong: if_cong)
  show "(\<exists>act q. verdict = Forwarded act q) \<longleftrightarrow> \<not> tripped oc \<and> \<not> has_blocking dlp \<and> \<not> ob
      \<and> \<not> spend_block (p_spend_tripwire (eg_policy e)) (snd (tripwire_step w r (decide r e) body e1)) \<and> dc_action (decide r e) \<noteq> Deny"
    using final_action_forward[of oc dlp ob ?sp "decide r e" "ib_host r" dn] spend_none ver by auto
  show "verdict = Forwarded act q \<Longrightarrow> q = fst (outgoing w r e ?pp) \<and> act = fst (final_action oc dlp ob None (decide r e) (ib_host r) dn)"
    using final_action_forward[of oc dlp ob ?sp "decide r e" "ib_host r" dn] spend_none ver o by (auto split: if_splits)
  show "same_config e e2" using same_config_trans[OF c2 judge_config[of ?pp w r]] assms(2) by simp
qed

lemma forward_step_sent_iff:
  "ps_sent (forward_step w r pp oc act q e) =
     (if (case pp_provider pp of None \<Rightarrow> False | Some p \<Rightarrow> billing_for (eg_pricing e) p (ib_host r) (q_headers q) = None)
      then None else Some (upstream_for w r (pp_provider pp) q))"
  by (auto simp: forward_step_def Let_def split: option.splits upstream_result.splits prod.splits)

text \<open>Which requests leave. Looking up how a host bills can panic on a header value; then nothing is sent.\<close>

lemma sent_or_panics:
  "ps_sent (pipeline w r e) =
     (case check_budget w e of (e1, ob, pct) \<Rightarrow>
        let pp = prepare w r ob pct (ib_body r) e1 in
        (case outgoing w r e pp of (q, oc, dlp) \<Rightarrow>
           if length (ib_body r) \<le> REQ_BODY_CAP \<and> ib_clean r \<and> dc_action (decide r e) \<noteq> Deny \<and> \<not> ob
              \<and> \<not> spend_block (p_spend_tripwire (eg_policy e)) (pp_spend pp)
              \<and> \<not> tripped oc \<and> \<not> has_blocking dlp \<and> \<not> billing_panics r e q
           then Some (upstream_for w r (provider_for_host (eg_pricing e) (ib_host r)) q) else None))"
proof (cases rule: pipeline_inner_cases[of w e r])
  case (too_large e1 ob pct)
  then show ?thesis by (auto simp: collect_body_def Let_def split: if_splits prod.splits)
next
  case (failed e1)
  then show ?thesis by (auto simp: collect_body_def Let_def split: if_splits prod.splits)
next
  case (denied e1 ob pct body e2 dn n js why oc dlp)
  have b: "body = ib_body r" using denied(2) by (auto simp: collect_body_def split: if_splits)
  have d: "decide r e1 = decide r e" using same_config_fields[OF check_budget_config[OF denied(1)]] by (simp add: decide_def)
  obtain q where o: "outgoing w r e (prepare w r ob pct body e1) = (q, oc, dlp)"
    using judge_prepared(1)[OF denied(1,3)] by (metis prod.collapse)
  show ?thesis using judge_prepared(2)[OF denied(1,3)] o b d by (auto simp: denied(1,4) Let_def)
next
  case (sent e1 ob pct body e2 dn n act q oc dlp ens)
  have b: "body = ib_body r" "length (ib_body r) \<le> REQ_BODY_CAP" "ib_clean r"
    using sent(2) by (auto simp: collect_body_def split: if_splits)
  note c1 = same_config_fields[OF check_budget_config[OF sent(1)]]
  have d: "decide r e1 = decide r e" using c1 by (simp add: decide_def)
  have o: "outgoing w r e (prepare w r ob pct body e1) = (q, oc, dlp)"
    using judge_prepared(1)[OF sent(1,3)] judge_prepared(3)[OF sent(1,3) refl] by (metis prod.collapse)
  have "same_config e (audit_all w ens e2)" using judge_prepared(4)[OF sent(1,3)] same_config_audit_all by blast
  then have p: "eg_pricing (audit_all w ens e2) = eg_pricing e" using same_config_fields by blast
  show ?thesis using judge_prepared(2)[OF sent(1,3)] o b d c1
    by (simp add: sent(1,5) Let_def forward_step_sent_iff p billing_panics_def cong: option.case_cong)
qed

text \<open>C4: exactly which requests leave, and as what. Provided that looking up the billing of the provider does not panic on the
  \<open>Authorization\<close> header of the request that is to leave (it slices the value after seven bytes, which fails inside a multi-byte
  character, as a real value that the swap put there may contain), a request is sent upstream if and only if its body was read in full within the cap, the policy does not deny it,
  the budget is not exhausted, no spend trip blocks it, the swap raised no tripwire and no detector blocks; what is sent is the request
  after rewriting, swap and masking, to the host and port it was addressed to.\<close>

theorem sent_iff_cleared:
  assumes "check_budget w e = (e1, ob, pct)" "outgoing w r e (prepare w r ob pct (ib_body r) e1) = (q, oc, dlp)" "\<not> billing_panics r e q"
  shows "ps_sent (pipeline w r e) =
     (if length (ib_body r) \<le> REQ_BODY_CAP \<and> ib_clean r \<and> dc_action (decide r e) \<noteq> Deny \<and> \<not> ob
         \<and> \<not> spend_block (p_spend_tripwire (eg_policy e)) (pp_spend (prepare w r ob pct (ib_body r) e1))
         \<and> \<not> tripped oc \<and> \<not> has_blocking dlp
      then Some (upstream_for w r (provider_for_host (eg_pricing e) (ib_host r)) q) else None)"
  using sent_or_panics[of w r e] assms by (simp add: Let_def del: pipeline_sent prepare_fields)

section \<open>Rewrites\<close>

text \<open>What the steps before the swap did, as the audit actions they are recorded under.\<close>

definition rewrite_actions :: "prepared \<Rightarrow> string list" where
  "rewrite_actions pp =
     (if pp_downgrade pp = None then [] else [''downgrade'']) @ (if pp_route pp = None then [] else [''route''])
     @ (if cp_header (pp_cache pp) = None then [] else [''cache''])"

definition rewrites_in :: "entry list \<Rightarrow> string list" where
  "rewrites_in ens = filter (\<lambda>a. a \<in> {''downgrade'', ''route'', ''cache''}) (map en_action ens)"

lemma rewrites_in_append: "rewrites_in (xs @ ys) = rewrites_in xs @ rewrites_in ys"
  by (simp add: rewrites_in_def)

definition new_entries :: "engine \<Rightarrow> engine \<Rightarrow> entry list \<Rightarrow> bool" where
  "new_entries e e' new \<longleftrightarrow> eg_trail e' = eg_trail e @ new"

lemma new_entries_trans: "new_entries a b xs \<Longrightarrow> new_entries b c ys \<Longrightarrow> new_entries a c (xs @ ys)"
  by (simp add: new_entries_def)

text \<open>The actions of the entries that can precede the verdict's own.\<close>

definition interim :: "entry list \<Rightarrow> bool" where
  "interim ens \<longleftrightarrow> list_all (\<lambda>en. en_action en \<in> {''alert'', ''downgrade'', ''route'', ''cache''}) ens"

lemma tripwire_step_trail: "\<exists>new. new_entries e (fst (tripwire_step w r d body e)) new \<and> interim new \<and> rewrites_in new = []"
  by (auto simp: tripwire_step_def interim_def Let_def new_entries_def rewrites_in_def spend_alert_def entry_default_def split: option.splits)

lemma soft_landing_trail:
  "soft_landing_step w r d prov ob pct blk e body = (e', body', h) \<Longrightarrow>
    \<exists>new. new_entries e e' new \<and> interim new \<and> rewrites_in new = (if h = None then [] else [''downgrade'']) \<and> (h = None \<longrightarrow> body' = body)"
  by (auto simp: soft_landing_step_def interim_def Let_def new_entries_def rewrites_in_def request_note_def entry_default_def split: option.splits if_splits)

lemma route_trail:
  "route_step w r d prov ob blk e body = (e', body', h) \<Longrightarrow>
    \<exists>new. new_entries e e' new \<and> interim new \<and> rewrites_in new = (if h = None then [] else [''route'']) \<and> (h = None \<longrightarrow> body' = body)"
  by (auto simp: route_step_def interim_def Let_def new_entries_def rewrites_in_def request_note_def entry_default_def
      split: option.splits if_splits action.splits)

lemma repair_trail:
  "cp_header cp = None \<Longrightarrow> \<exists>new. new_entries (cp_engine cp) (cp_engine (repair_step w r d obs cp)) new \<and> interim new
    \<and> rewrites_in new = (if cp_header (repair_step w r d obs cp) = None then [] else [''cache''])
    \<and> (cp_header (repair_step w r d obs cp) = None \<longrightarrow> cp_body (repair_step w r d obs cp) = cp_body cp \<and> cp_headers (repair_step w r d obs cp) = cp_headers cp)"
  by (auto simp: repair_step_def interim_def Let_def new_entries_def rewrites_in_def request_note_def entry_default_def split: option.splits)

lemma flush_cache_trail [simp]: "eg_trail (flush_cache w e) = eg_trail e"
  by (simp add: flush_cache_def split: prod.split)

lemma doctor_trail:
  "\<exists>new. new_entries e (cp_engine (doctor_step w r d prov ob blk e body hs)) new \<and> interim new
    \<and> rewrites_in new = (if cp_header (doctor_step w r d prov ob blk e body hs) = None then [] else [''cache''])
    \<and> (cp_header (doctor_step w r d prov ob blk e body hs) = None \<longrightarrow>
        cp_body (doctor_step w r d prov ob blk e body hs) = body \<and> cp_headers (doctor_step w r d prov ob blk e body hs) = hs)"
proof -
  obtain dr obs where o: "doctor_observe (wd_from_json w) (wd_to_vec w) (wd_period w) (wd_ts w) (ib_host r) body (wd_now w) (eg_doctor e) = (dr, obs)"
    by fastforce
  show ?thesis
  proof (cases "cache_active d prov ob blk \<and> obs \<noteq> None \<and> cache_pro w d prov ob blk e \<and> c_repair (p_cache (eg_policy e))")
    case True
    then obtain ob1 where ob1: "obs = Some ob1" by blast
    let ?cp = "\<lparr>cp_engine = e\<lparr>eg_doctor := dr\<rparr>, cp_body = body, cp_headers = hs, cp_header = None, cp_template = None, cp_model = None\<rparr>"
    have "\<exists>new. new_entries (cp_engine ?cp) (cp_engine (repair_step w r d ob1 ?cp)) new \<and> interim new
      \<and> rewrites_in new = (if cp_header (repair_step w r d ob1 ?cp) = None then [] else [''cache''])
      \<and> (cp_header (repair_step w r d ob1 ?cp) = None \<longrightarrow> cp_body (repair_step w r d ob1 ?cp) = body \<and> cp_headers (repair_step w r d ob1 ?cp) = hs)"
      using repair_trail[of ?cp w r d ob1] by simp
    then show ?thesis using True o ob1 by (simp add: doctor_step_def Let_def new_entries_def)
  next
    case False
    then show ?thesis using o by (auto simp: doctor_step_def interim_def Let_def new_entries_def rewrites_in_def split: option.split)
  qed
qed

lemma prepare_trail:
  "\<exists>new. new_entries e (cp_engine (pp_cache (prepare w r ob pct body e))) new \<and> interim new
    \<and> rewrites_in new = rewrite_actions (prepare w r ob pct body e)
    \<and> length (rewrites_in new) = length (decoyrail_headers (cp_header (pp_cache (prepare w r ob pct body e)))
        (pp_downgrade (prepare w r ob pct body e)) (pp_route (prepare w r ob pct body e)))
    \<and> (rewrites_in new = [] \<longrightarrow> swap_input r (prepare w r ob pct body e) = \<lparr>q_host = ib_host r, q_path = ib_path r, q_method = ib_method r,
        q_headers = collect_headers (ib_headers r), q_body = body\<rparr>)"
proof -
  obtain e1 sr where 1: "tripwire_step w r (decide r e) body e = (e1, sr)" by fastforce
  let ?prov = "provider_for_host (eg_pricing e) (ib_host r)" and ?blk = "spend_block (p_spend_tripwire (eg_policy e)) sr"
  obtain e2 b2 h2 where 2: "soft_landing_step w r (decide r e) ?prov ob pct ?blk e1 body = (e2, b2, h2)" by (metis prod_cases3)
  obtain e3 b3 h3 where 3: "route_step w r (decide r e) ?prov ob ?blk e2 b2 = (e3, b3, h3)" by (metis prod_cases3)
  let ?cp = "doctor_step w r (decide r e) ?prov ob ?blk e3 b3 (collect_headers (ib_headers r))"
  obtain n1 where n1: "new_entries e e1 n1" "interim n1" "rewrites_in n1 = []" using tripwire_step_trail[of e w r "decide r e" body] 1 by auto
  obtain n2 where n2: "new_entries e1 e2 n2" "interim n2" "rewrites_in n2 = (if h2 = None then [] else [''downgrade''])" "h2 = None \<longrightarrow> b2 = body"
    using soft_landing_trail[OF 2] by blast
  obtain n3 where n3: "new_entries e2 e3 n3" "interim n3" "rewrites_in n3 = (if h3 = None then [] else [''route''])" "h3 = None \<longrightarrow> b3 = b2"
    using route_trail[OF 3] by blast
  obtain n4 where n4: "new_entries e3 (cp_engine ?cp) n4" "interim n4" "rewrites_in n4 = (if cp_header ?cp = None then [] else [''cache''])"
    "cp_header ?cp = None \<longrightarrow> cp_body ?cp = b3 \<and> cp_headers ?cp = collect_headers (ib_headers r)"
    using doctor_trail[of e3 w r "decide r e" ?prov ob ?blk b3] by blast
  have p: "pp_cache (prepare w r ob pct body e) = ?cp" "pp_downgrade (prepare w r ob pct body e) = h2" "pp_route (prepare w r ob pct body e) = h3"
    by (simp_all add: prepare_def 1 2 3 Let_def)
  have "new_entries e (cp_engine ?cp) (n1 @ n2 @ n3 @ n4)" using n1(1) n2(1) n3(1) n4(1) by (simp add: new_entries_def)
  then show ?thesis
    by (intro exI[of _ "n1 @ n2 @ n3 @ n4"])
      (use n1(2,3) n2(2-4) n3(2-4) n4(2-4) in \<open>auto simp: new_entries_def interim_def p rewrite_actions_def rewrites_in_append swap_input_def decoyrail_headers_def split: if_splits option.splits\<close>)
qed

text \<open>C8: no rewrite is silent. The steps before the swap hand the audit log one entry for each rewrite they make,
  in order, and each has its response header; when they make none, the bytes and headers that reach the swap
  are the client's.\<close>

theorem rewrites_never_silent:
  "\<exists>new. eg_trail (cp_engine (pp_cache (prepare w r ob pct body e))) = eg_trail e @ new
    \<and> rewrites_in new = rewrite_actions (prepare w r ob pct body e)
    \<and> length (rewrites_in new) = length (decoyrail_headers (cp_header (pp_cache (prepare w r ob pct body e)))
        (pp_downgrade (prepare w r ob pct body e)) (pp_route (prepare w r ob pct body e)))
    \<and> (case rewrites_in new of
        [] \<Rightarrow> swap_input r (prepare w r ob pct body e) = \<lparr>q_host = ib_host r, q_path = ib_path r, q_method = ib_method r,
          q_headers = collect_headers (ib_headers r), q_body = body\<rparr>
      | _ # _ \<Rightarrow> True)"
proof -
  obtain new where "new_entries e (cp_engine (pp_cache (prepare w r ob pct body e))) new"
    "rewrites_in new = rewrite_actions (prepare w r ob pct body e)"
    "length (rewrites_in new) = length (decoyrail_headers (cp_header (pp_cache (prepare w r ob pct body e)))
        (pp_downgrade (prepare w r ob pct body e)) (pp_route (prepare w r ob pct body e)))"
    "rewrites_in new = [] \<longrightarrow> swap_input r (prepare w r ob pct body e) = \<lparr>q_host = ib_host r, q_path = ib_path r, q_method = ib_method r,
        q_headers = collect_headers (ib_headers r), q_body = body\<rparr>"
    using prepare_trail by blast
  then show ?thesis by (intro exI[of _ new]) (auto simp: new_entries_def split: list.split)
qed


text \<open>C18: paid features are off unless paid for and permitted. Without a tier of at least Pro, or when the request is
  denied by the policy, is over budget, is blocked by a spend trip or does not go to a known provider, the
  client's bytes and headers reach the swap unchanged, no keep-alive template is kept and the request is not
  serialized.\<close>

theorem unpaid_untouched:
  assumes "\<not> engine_tier w e \<ge> Pro \<or> ob \<or> spend_block (p_spend_tripwire (eg_policy e)) (snd (tripwire_step w r (decide r e) body e))
    \<or> dc_action (decide r e) = Deny \<or> provider_for_host (eg_pricing e) (ib_host r) = None"
  shows "swap_input r (prepare w r ob pct body e) = \<lparr>q_host = ib_host r, q_path = ib_path r, q_method = ib_method r,
        q_headers = collect_headers (ib_headers r), q_body = body\<rparr>
    \<and> decoyrail_headers (cp_header (pp_cache (prepare w r ob pct body e))) (pp_downgrade (prepare w r ob pct body e)) (pp_route (prepare w r ob pct body e)) = []
    \<and> cp_template (pp_cache (prepare w r ob pct body e)) = None
    \<and> fanout_key_for w r (pp_pro (prepare w r ob pct body e)) (p_cache (eg_policy e)) (pp_cache (prepare w r ob pct body e)) = None"
proof -
  obtain e1 sr where 1: "tripwire_step w r (decide r e) body e = (e1, sr)" by fastforce
  let ?prov = "provider_for_host (eg_pricing e) (ib_host r)" and ?blk = "spend_block (p_spend_tripwire (eg_policy e)) sr"
  have t: "engine_tier w e1 = engine_tier w e"
    using tripwire_step_config[of e w r "decide r e" body] 1 by (auto simp: same_config_def intro: engine_tier_license)
  have a: "\<not> engine_tier w e1 \<ge> Pro \<or> ob \<or> ?blk \<or> dc_action (decide r e) = Deny \<or> ?prov = None" using assms 1 t by auto
  have 2: "soft_landing_step w r (decide r e) ?prov ob pct ?blk e1 body = (e1, body, None)"
    using a by (auto simp: soft_landing_step_def Let_def)
  have 3: "route_step w r (decide r e) ?prov ob ?blk e1 body = (e1, body, None)"
    using a by (auto simp: route_step_def Let_def split: action.split option.split)
  have pro: "\<not> cache_pro w (decide r e) ?prov ob ?blk e1" using a by (auto simp: cache_pro_def cache_active_def Let_def)
  show ?thesis using pro
    by (simp add: prepare_def 1 2 3 Let_def swap_input_def decoyrail_headers_def fanout_key_for_def doctor_step_def split: option.split prod.split)
qed

section \<open>Delivery\<close>

lemma buffer_chunks_all: "buffer_chunks n cs = (p, over, rest) \<Longrightarrow> p @ rest = cs \<and> (over \<or> rest = [])"
  by (induction n cs arbitrary: p rule: buffer_chunks.induct) (auto split: if_splits prod.splits)

lemma append_event_recorded:
  assumes "append_event cr ac pid ok en ts a d = (a', d', Inr ev)"
  shows "(\<exists>f. dk_log d' = Some (f @ event_line ac ev @ nl)) \<and> ev_host ev = en_host en \<and> ev_path ev = en_path en
    \<and> ev_method ev = en_method en \<and> ev_status ev = en_status en \<and> ev_action ev = en_action en \<and> ev_swaps ev = en_swaps en"
  using assms by (auto simp: append_event_def Let_def seal_def write_head_anchor_def split: sum.splits)

lemma audit_recorded:
  assumes "audit w en e = (e', Some seq)"
  shows "\<exists>ev f. dk_log (eg_audit_disk e') = Some (f @ event_line (wd_audit w) ev @ nl) \<and> ev_host ev = en_host en \<and> ev_path ev = en_path en
    \<and> ev_method ev = en_method en \<and> ev_status ev = en_status en \<and> ev_action ev = en_action en \<and> ev_swaps ev = en_swaps en"
proof -
  let ?en = "en\<lparr>en_sid := eg_session_id e\<rparr>"
  obtain a d res where ap: "append_event (wd_crypto w) (wd_audit w) (wd_pid w) (wd_anchor_ok w) ?en (wd_ts w) (eg_auditor e) (eg_audit_disk e) = (a, d, res)"
    by (metis prod_cases3)
  then obtain ev where ev: "res = Inr ev" "eg_audit_disk e' = d"
    using assms by (auto simp: audit_def Let_def split: if_splits sum.splits)
  show ?thesis using append_event_recorded[OF ap[unfolded ev(1)]] ev(2) by auto
qed

lemma arm_step_disk [simp]: "eg_audit_disk (arm_step w r t m e) = eg_audit_disk e"
  by (simp add: arm_step_def split: option.split)

text \<open>The body of a response as the client receives it, when it is the upstream's.\<close>

definition relayed :: "response_body \<Rightarrow> bytes option" where
  "relayed b = (case b of JsonBody _ \<Rightarrow> None | FullBody x \<Rightarrow> Some x | ChunkBody cs _ \<Rightarrow> Some (concat cs))"

lemma refuse_relayed [simp]: "relayed (rs_body (refuse s j)) = None"
  by (simp add: refuse_def relayed_def)

lemma build_response_relayed:
  assumes "relayed (rs_body (build_response status hs own body)) = Some x"
  shows "relayed body = Some x" "rs_status (build_response status hs own body) = status"
    "rs_headers (build_response status hs own body) = response_headers hs @ own"
  using assms by (auto simp: build_response_def split: if_splits)

lemma deliver_recorded:
  assumes "deliver w r fw status hs chunks err e = (e', ms, Answered resp)" "relayed (rs_body resp) = Some x"
  shows "x = concat chunks \<and> rs_status resp = status \<and> rs_headers resp = response_headers hs @ fw_own fw
    \<and> (\<exists>ev f. dk_log (eg_audit_disk e') = Some (f @ event_line (wd_audit w) ev @ nl) \<and> ev_host ev = ib_host r \<and> ev_path ev = ib_path r
        \<and> ev_method ev = ib_method r \<and> ev_status ev = status \<and> ev_action ev = action_as_str (fw_action fw)
        \<and> ev_swaps ev = swap_names (fw_outcome fw))"
proof -
  let ?sse = "is_event_stream hs"
  obtain taken over rest where t: "(if ?sse then ([], False, chunks) else buffer_chunks 0 chunks) = (taken, over, rest)" by (metis prod_cases3)
  have all: "taken @ rest = chunks" "?sse \<or> over \<or> rest = []"
    using t buffer_chunks_all[of 0 chunks] by (auto split: if_splits)
  let ?st = "?sse \<or> over"
  define e1 where "e1 = (if ?st \<and> taken = [] then e else scan_alert_step w r fw status (concat taken) e)"
  define down where "down = (if ?st then 0 else word_of_nat (length (concat taken)) :: u64)"
  define tr where "tr = token_record_for (eg_pricing e1) (fw_provider fw) (fw_model fw) (fw_billing fw)
      (if ?st then None else body_usage w (fw_provider fw) (concat taken))"
  define e2 where "e2 = meter_step w r tr ?st (fw_bytes_up fw) down e1"
  define en where "en = forward_entry (fw_decision fw) (fw_outcome fw) (fw_action fw)
      \<lparr>q_host = ib_host r, q_path = ib_path r, q_method = ib_method r, q_headers = [], q_body = []\<rparr> ?st (wd_elapsed w) (fw_bytes_up fw) down
      status (fw_fp fw) (case tr of Some (key, u, _, _) \<Rightarrow> usage_note_for key u | None \<Rightarrow> [])
      (map_option (\<lambda>(key, u, cost, ref_cost). usage_rec_for key u cost ref_cost) tr)"
  have ne: "\<not> (\<not> ?st \<and> err \<noteq> None)"
  proof
    assume c: "\<not> ?st \<and> err \<noteq> None"
    have "deliver w r fw status hs chunks err e = (e, None, Erred (case err of Some x \<Rightarrow> x | None \<Rightarrow> []))"
      unfolding deliver_def Let_def t prod.case using c by (rule if_P)
    then show False using assms(1) by simp
  qed
  obtain e3 res where a: "audit w en e2 = (e3, res)" by fastforce
  have d: "deliver w r fw status hs chunks err e = (case res of
      None \<Rightarrow> (e3, if ?st then Some (metered_for r fw) else None,
               Answered (refuse 503 (deny_response ''decoyrail: audit log unavailable; failing closed'')))
    | Some seq \<Rightarrow> (arm_step w r (fw_template fw) (fw_model fw) e3,
               if ?st then Some ((metered_for r fw)\<lparr>ms_req_seq := Some seq\<rparr>) else None,
               Answered (build_response status hs (fw_own fw) (if ?st then ChunkBody (taken @ rest) err else FullBody (concat taken)))))"
    unfolding deliver_def Let_def t prod.case if_not_P[OF ne]
    by (simp only: e1_def[symmetric] down_def[symmetric] tr_def[symmetric] e2_def[symmetric] en_def[symmetric] a prod.case)
  obtain seq where s: "res = Some seq" using d assms by (cases res) auto
  have r: "resp = build_response status hs (fw_own fw) (if ?st then ChunkBody (taken @ rest) err else FullBody (concat taken))"
    and e': "eg_audit_disk e' = eg_audit_disk e3"
    using d assms(1) s by auto
  note b = build_response_relayed[OF assms(2)[unfolded r]]
  have "x = concat chunks" using b(1) all by (auto simp: relayed_def split: if_splits)
  moreover have "en_host en = ib_host r" "en_path en = ib_path r" "en_method en = ib_method r" "en_status en = status"
    "en_action en = action_as_str (fw_action fw)" "en_swaps en = swap_names (fw_outcome fw)"
    by (simp_all add: en_def forward_entry_def)
  ultimately show ?thesis using b(2,3) r e' audit_recorded[OF a[unfolded s]] by auto
qed

lemma forward_step_reply:
  assumes "wd_upstream w (upstream_for w r (pp_provider pp) q) = Reply status hs chunks err"
    and "(case pp_provider pp of None \<Rightarrow> Some Usage | Some p \<Rightarrow> billing_for (eg_pricing e) p (ib_host r) (q_headers q)) = Some b"
  shows "\<exists>fw e1 ms res. deliver w r fw status hs chunks err e = (e1, ms, res)
    \<and> ps_sent (forward_step w r pp oc act q e) = Some (upstream_for w r (pp_provider pp) q)
    \<and> ps_engine (forward_step w r pp oc act q e) = e1 \<and> ps_result (forward_step w r pp oc act q e) = res
    \<and> fw_own fw = decoyrail_headers (cp_header (pp_cache pp)) (pp_downgrade pp) (pp_route pp) \<and> fw_action fw = act \<and> fw_outcome fw = oc"
proof -
  define fw where "fw = \<lparr>fw_decision = pp_decision pp, fw_provider = pp_provider pp,
      fw_model = (case pp_provider pp of None \<Rightarrow> None
          | Some _ \<Rightarrow> (case cp_model (pp_cache pp) of Some m \<Rightarrow> Some m | None \<Rightarrow> parse_model (wd_from_json w) (q_body q))),
      fw_billing = b, fw_outcome = oc, fw_action = act, fw_bytes_up = word_of_nat (length (q_body q)), fw_fp = sr_fp (pp_spend pp),
      fw_own = decoyrail_headers (cp_header (pp_cache pp)) (pp_downgrade pp) (pp_route pp), fw_template = cp_template (pp_cache pp)\<rparr>"
  obtain e1 ms res where dl: "deliver w r fw status hs chunks err e = (e1, ms, res)" by (metis prod_cases3)
  have f: "forward_step w r pp oc act q e = \<lparr>ps_engine = e1, ps_sent = Some (upstream_for w r (pp_provider pp) q), ps_stream = ms,
      ps_fanout_key = fanout_key_for w r (pp_pro pp) (p_cache (eg_policy e)) (pp_cache pp), ps_result = res\<rparr>"
    unfolding forward_step_def Let_def assms option.case upstream_result.case fw_def[symmetric] dl prod.case ..
  show ?thesis using dl unfolding f by (intro exI conjI) (auto simp: fw_def)
qed

text \<open>The secrets that the swap column of an event names, as \<open>name@location\<close>.\<close>

definition recorded_in :: "string list \<Rightarrow> vault \<Rightarrow> vault" where
  "recorded_in names v = \<lparr>secrets = filter (\<lambda>s. list_ex (\<lambda>n. starts_with n (sec_name s @ ''@'')) names) (secrets v)\<rparr>"

lemma outgoing_recorded:
  assumes "outgoing w r e pp = (q, oc, dlp)"
  shows "q = fst (outgoing w r (e\<lparr>eg_vault := recorded_in (swap_names oc) (eg_vault e), eg_session := recorded_in (swap_names oc) (eg_session e)\<rparr>) pp)"
    and "list_all (\<lambda>n. \<exists>s\<in>set (secrets (eg_vault e) @ secrets (eg_session e)). \<exists>loc. n = sec_name s @ ''@'' @ loc
           \<and> ib_tls r \<and> releases (decide r e) s) (swap_names oc)"
proof -
  let ?P = "\<lambda>s. list_ex (\<lambda>n. starts_with n (sec_name s @ ''@'')) (swap_names oc)"
  let ?s = "swap_step (wd_codecs w) (swap_input r pp) (eg_vault e) (eg_session e) (decide r e) (ib_tls r)"
  have oc: "oc = snd ?s" and q: "q = fst (detect_apply (wd_crypto w) (wd_decoders w) (fst ?s) (p_dlp (eg_policy e)) (eg_dlp_salt e))"
    using assms by (auto simp: outgoing_def Let_def split: prod.splits)
  have "?P s" if "x \<in> set (o_swaps (snd ?s))" "sec_name s = sw_secret_name x" for x s
  proof -
    have "starts_with (sw_secret_name x @ ''@'' @ sw_location x) (sec_name s @ ''@'')" by (simp add: that(2) starts_with_def)
    then show ?thesis using that(1) unfolding list_ex_iff swap_names_def oc by (metis (no_types, lifting) image_eqI list.set_map)
  qed
  then have "fst ?s = fst (swap_step (wd_codecs w) (swap_input r pp) (recorded_in (swap_names oc) (eg_vault e)) (recorded_in (swap_names oc) (eg_session e))
      (decide r e) (ib_tls r))"
    unfolding recorded_in_def by (rule swap_step_recorded)
  then show "q = fst (outgoing w r (e\<lparr>eg_vault := recorded_in (swap_names oc) (eg_vault e), eg_session := recorded_in (swap_names oc) (eg_session e)\<rparr>) pp)"
    by (simp add: q outgoing_def Let_def split_beta decide_def)
  show "list_all (\<lambda>n. \<exists>s\<in>set (secrets (eg_vault e) @ secrets (eg_session e)). \<exists>loc. n = sec_name s @ ''@'' @ loc
           \<and> ib_tls r \<and> releases (decide r e) s) (swap_names oc)"
    using swap_step_swaps[of "eg_vault e" "eg_session e" "decide r e" "ib_tls r" "wd_codecs w" "swap_input r pp"]
    by (auto simp: swap_names_def oc list_all_iff approved_def dest!: bspec)
qed

text \<open>C17: what is delivered is the upstream's response, and it is on record. When the client is given a response body
  that the proxy did not write itself, a request was sent, the body is the upstream's byte for byte, status and
  headers are the upstream's but for hop-by-hop headers and the marks of the rewrites, and the audit log on disk
  ends with an event that names the request, the status and the secrets placed in the request: every secret it names is one of the
  vault or the session that the decision releases, the request came over TLS, and the request that was sent is the one
  that the named secrets alone would have given, so no secret that is not named had a part in it.\<close>

theorem delivered_is_recorded:
  assumes "ps_result (pipeline w r e) = Answered resp" "relayed (rs_body resp) = Some x"
    and "check_budget w e = (e1, ob, pct)"
  shows "\<exists>u status hs chunks err own ev f. ps_sent (pipeline w r e) = Some u \<and> wd_upstream w u = Reply status hs chunks err
    \<and> x = concat chunks \<and> rs_status resp = status \<and> rs_headers resp = response_headers hs @ own
    \<and> set (map fst own) \<subseteq> {''x-decoyrail-cache'', ''x-decoyrail-downgrade'', ''x-decoyrail-route''}
    \<and> dk_log (eg_audit_disk (ps_engine (pipeline w r e))) = Some (f @ event_line (wd_audit w) ev @ nl)
    \<and> ev_host ev = ib_host r \<and> ev_path ev = ib_path r \<and> ev_method ev = ib_method r \<and> ev_status ev = status
    \<and> (ev_action ev = ''allow'' \<or> ev_action ev = ''warn'')
    \<and> list_all (\<lambda>n. \<exists>s\<in>set (secrets (eg_vault e) @ secrets (eg_session e)). \<exists>loc. n = sec_name s @ ''@'' @ loc
         \<and> ib_tls r \<and> releases (decide r e) s) (ev_swaps ev)
    \<and> u = upstream_for w r (provider_for_host (eg_pricing e) (ib_host r)) (fst (outgoing w r
         (e\<lparr>eg_vault := recorded_in (ev_swaps ev) (eg_vault e), eg_session := recorded_in (ev_swaps ev) (eg_session e)\<rparr>)
         (prepare w r ob pct (ib_body r) e1)))"
proof -
  have inner: "ps_result (pipeline_inner w r e) = Answered resp"
    using assms by (auto simp: pipeline_def Let_def split: pipeline_result.splits)
  have eng: "pipeline w r e = pipeline_inner w r e" using inner by (simp add: pipeline_def)
  show ?thesis
  proof (cases rule: pipeline_inner_cases[of w e r])
    case (too_large f1 ob' pct')
    then show ?thesis using inner assms(2) by auto
  next
    case (failed f1)
    then show ?thesis using inner by simp
  next
    case (denied f1 ob' pct' body e2 dn n js why oc dlp)
    then show ?thesis using inner assms(2) by auto
  next
    case (sent f1 ob' pct' body e2 dn n act q oc dlp ens)
    let ?pp = "prepare w r ob pct (ib_body r) e1" and ?e = "audit_all w ens e2"
    let ?up = "upstream_for w r (pp_provider ?pp) q"
    have eqs: "f1 = e1" "ob' = ob" "pct' = pct" using sent(1) assms(3) by simp_all
    have body: "body = ib_body r" using sent(2) by (auto simp: collect_body_def split: if_splits)
    note sent = sent[unfolded eqs body]
    have act: "act = Allow \<or> act = Warn"
    proof -
      note j = judge_prepared(3)[OF sent(1,3) refl, THEN conjunct2] judge_prepared(2)[OF sent(1,3)]
      have "dc_action (decide r e) \<noteq> Deny" "\<not> tripped oc" "\<not> has_blocking dlp" "\<not> ob" using j(2) by blast+
      then have "act \<noteq> Deny" using j(1) final_action_forward[of oc dlp ob None "decide r e" "ib_host r" dn] by simp
      then show ?thesis using final_action_value[of oc dlp ob None "decide r e" "ib_host r" dn] j(1) by (simp add: decide_def evaluate_action)
    qed
    obtain b status hs chunks err where b: "wd_upstream w ?up = Reply status hs chunks err"
      "(case pp_provider ?pp of None \<Rightarrow> Some Usage | Some p \<Rightarrow> billing_for (eg_pricing ?e) p (ib_host r) (q_headers q)) = Some b"
      using inner unfolding sent(5) forward_step_def Let_def by (auto split: option.splits upstream_result.splits)
    obtain fw e3 ms res where dl: "deliver w r fw status hs chunks err ?e = (e3, ms, res)"
      and p: "ps_sent (pipeline_inner w r e) = Some ?up" "ps_engine (pipeline_inner w r e) = e3" "ps_result (pipeline_inner w r e) = res"
      and fw: "fw_own fw = decoyrail_headers (cp_header (pp_cache ?pp)) (pp_downgrade ?pp) (pp_route ?pp)" "fw_action fw = act" "fw_outcome fw = oc"
      using forward_step_reply[OF b] unfolding sent(5) by metis
    have "set (map fst (fw_own fw)) \<subseteq> {''x-decoyrail-cache'', ''x-decoyrail-downgrade'', ''x-decoyrail-route''}"
      by (auto simp: fw(1) decoyrail_headers_def split: option.splits)
    moreover have "action_as_str (fw_action fw) = ''allow'' \<or> action_as_str (fw_action fw) = ''warn''"
      using act by (auto simp: fw(2) action_as_str_def)
    moreover obtain ev f where ev: "x = concat chunks \<and> rs_status resp = status \<and> rs_headers resp = response_headers hs @ fw_own fw"
      "dk_log (eg_audit_disk e3) = Some (f @ event_line (wd_audit w) ev @ nl)" "ev_host ev = ib_host r" "ev_path ev = ib_path r"
      "ev_method ev = ib_method r" "ev_status ev = status" "ev_action ev = action_as_str (fw_action fw)" "ev_swaps ev = swap_names (fw_outcome fw)"
      using deliver_recorded[OF dl[unfolded p(3)[symmetric] inner] assms(2)] by blast
    have o: "outgoing w r e ?pp = (q, oc, dlp)"
      using judge_prepared(1)[OF sent(1,3)] judge_prepared(3)[OF sent(1,3) refl] by (metis prod.collapse)
    have up: "?up = upstream_for w r (provider_for_host (eg_pricing e) (ib_host r)) q"
      using same_config_fields[OF check_budget_config[OF assms(3)]] by simp
    note rec = outgoing_recorded[OF o, folded fw(3) ev(8)]
    ultimately show ?thesis unfolding eng p using ev b(1) up rec fw(3)
      by (intro exI[of _ ?up] exI[of _ status] exI[of _ hs] exI[of _ chunks] exI[of _ err] exI[of _ "fw_own fw"] exI[of _ ev] exI[of _ f] conjI)
        (simp_all del: pipeline_sent prepare_fields)
  qed
qed

section \<open>Failures on the way up\<close>

lemma audit_all_trail: "eg_trail (audit_all w ens e) = eg_trail e @ map (\<lambda>en. en\<lparr>en_sid := eg_session_id e\<rparr>) ens"
  by (induction ens arbitrary: e) (simp_all add: audit_all_def)

lemma judge_trail: "judge w r pp = (e2, x) \<Longrightarrow> eg_trail e2 = eg_trail (cp_engine (pp_cache pp))"
  by (auto simp: judge_def Let_def dump_step_def write_dlp_dump_def split: prod.splits if_splits dump_io.splits)

lemma check_budget_trail: "check_budget w e = (e1, x) \<Longrightarrow> eg_trail e1 = eg_trail e"
  by (auto simp: check_budget_def Let_def split: prod.splits)

lemma deliver_erred: "deliver w r fw status hs chunks err e = (e', ms, Erred x) \<Longrightarrow> e' = e"
  by (auto simp: deliver_def Let_def build_response_def split: prod.splits option.splits if_splits)

text \<open>When a request was sent and the upstream fails, the audit log has been handed only the advisory and rewrite entries that
  preceded the request: none says that the request was let through. This is what the code does, and a finding: the documents promise
  a record of every request.\<close>

lemma failed_request_unrecorded:
  assumes "ps_sent (pipeline_inner w r e) = Some u" "ps_result (pipeline_inner w r e) = Erred x"
  shows "ps_result (pipeline w r e) = Answered (refuse 502 (deny_response (''decoyrail: upstream error: '' @ x)))
    \<and> (\<exists>new. eg_trail (ps_engine (pipeline w r e)) = eg_trail e @ new \<and> interim new)"
proof -
  have eng: "ps_engine (pipeline w r e) = ps_engine (pipeline_inner w r e)"
    by (simp add: pipeline_def Let_def split: pipeline_result.split)
  have "\<exists>new. eg_trail (ps_engine (pipeline_inner w r e)) = eg_trail e @ new \<and> interim new"
  proof (cases rule: pipeline_inner_cases[of w e r])
    case (sent e1 ob pct body e2 dn n act q oc dlp ens)
    let ?pp = "prepare w r ob pct body e1" and ?e = "audit_all w ens e2"
    have eq: "ps_engine (pipeline_inner w r e) = ?e"
    proof (cases "wd_upstream w (upstream_for w r (pp_provider ?pp) q)")
      case (SendFailed err)
      then show ?thesis unfolding sent(5) forward_step_def Let_def by (simp add: stopped_def split: option.split)
    next
      case (Reply status hs chunks err)
      obtain b where b: "(case pp_provider ?pp of None \<Rightarrow> Some Usage | Some p \<Rightarrow> billing_for (eg_pricing ?e) p (ib_host r) (q_headers q)) = Some b"
        using assms(2) unfolding sent(5) forward_step_def Let_def by (auto split: option.splits)
      show ?thesis using forward_step_reply[OF Reply b, of oc act] assms(2) deliver_erred unfolding sent(5) by metis
    qed
    obtain new where new: "eg_trail (cp_engine (pp_cache ?pp)) = eg_trail e1 @ new" "interim new"
      using prepare_trail[of e1 w r ob pct body] by (auto simp: new_entries_def)
    have "interim ens" using sent(4) by (auto simp: request_entries_def dlp_alert_entry_def interim_def entry_default_def)
    then have i: "interim (new @ map (\<lambda>en. en\<lparr>en_sid := eg_session_id e2\<rparr>) ens)" using new(2) by (auto simp: interim_def list_all_iff)
    show ?thesis unfolding eq audit_all_trail judge_trail[OF sent(3)] new(1) check_budget_trail[OF sent(1)]
      by (intro exI[of _ "new @ map (\<lambda>en. en\<lparr>en_sid := eg_session_id e2\<rparr>) ens"] conjI i) simp
  qed (use assms in auto)
  then show ?thesis unfolding eng using assms(2) by (simp add: pipeline_def)
qed





section \<open>Pre-warms\<close>

lemma keepalive_fire_sent:
  "snd (keepalive_fire w host model t e) =
     (case minimize_body (wd_from_json w) (wd_to_vec w) (ka_body t) of
        None \<Rightarrow> None
      | Some body \<Rightarrow>
          (let d = evaluate (eg_policy e) host (ka_path t) (ka_method t);
               s = swap_step (wd_codecs w) \<lparr>q_host = host, q_path = ka_path t, q_method = ka_method t, q_headers = ka_headers t, q_body = body\<rparr>
                 (eg_vault e) (eg_session e) d True in
           if dc_action d \<notin> {Allow, Route} \<or> st_mode (p_spend_tripwire (eg_policy e)) = TripBlock \<and> w_tripped (eg_watch e) \<noteq> None
              \<or> tripped (snd s)
           then None else Some (prewarm_request w host t (fst s))))"
proof (cases "minimize_body (wd_from_json w) (wd_to_vec w) (ka_body t)")
  case None
  then show ?thesis by (simp add: keepalive_fire_def)
next
  case (Some body)
  let ?d = "evaluate (eg_policy e) host (ka_path t) (ka_method t)"
  obtain q oc where s: "swap_step (wd_codecs w) \<lparr>q_host = host, q_path = ka_path t, q_method = ka_method t, q_headers = ka_headers t, q_body = body\<rparr>
      (eg_vault e) (eg_session e) ?d True = (q, oc)" by fastforce
  show ?thesis
  proof (cases "dc_action ?d \<notin> {Allow, Route} \<or> st_mode (p_spend_tripwire (eg_policy e)) = TripBlock \<and> w_tripped (eg_watch e) \<noteq> None \<or> tripped oc")
    case True
    then show ?thesis by (auto simp: keepalive_fire_def Some s Let_def)
  next
    case False
    then show ?thesis unfolding keepalive_fire_def Some s Let_def option.case prod.case
      by (cases "wd_upstream w (prewarm_request w host t q)") (simp_all split: option.split)
  qed
qed

text \<open>The budget is not consulted: the same pre-warm is sent whatever the meter says.\<close>

lemma prewarm_ignores_meter:
  "snd (keepalive_fire w host model t (e\<lparr>eg_meter := m, eg_meter_file := mf\<rparr>)) = snd (keepalive_fire w host model t e)"
  by (simp add: keepalive_fire_sent cong: option.case_cong)


section \<open>The dump\<close>

text \<open>What replacing one secret's value by its placeholder can leave behind: an occurrence of another value is in
  the text between the replaced occurrences, or inside a placeholder, when it has no bracket of its own.\<close>

lemma str_contains_iff: "str_contains s d \<longleftrightarrow> (\<exists>x y. s = x @ d @ y)"
proof (induction s)
  case (Cons c s)
  have "str_contains (c # s) d \<longleftrightarrow> (\<exists>y. c # s = d @ y) \<or> (\<exists>x y. s = x @ d @ y)" using Cons by (simp add: prefix_def)
  also have "\<dots> \<longleftrightarrow> (\<exists>x y. c # s = x @ d @ y)"
    by (metis append_Cons append_Nil list.exhaust list.inject)
  finally show ?case .
qed simp

definition bracketed :: "string \<Rightarrow> string" where
  "bracketed n = CHR ''['' # n @ '']''"

lemma append_split_left: "a @ b = c @ e \<Longrightarrow> length c \<le> length a \<Longrightarrow> \<exists>z. a = c @ z \<and> e = z @ b"
  by (auto simp: append_eq_append_conv2)

text \<open>A word without brackets that occurs across a bracketed insert occurs in one of the parts.\<close>

lemma word_across:
  assumes "CHR ''['' \<notin> set d" "CHR '']'' \<notin> set d" "d \<noteq> []" "u @ bracketed n @ v = x @ d @ y"
  shows "str_contains u d \<or> str_contains n d \<or> (\<exists>x'. v = x' @ d @ y)"
proof (cases "length (x @ d) \<le> length u")
  case True
  then obtain z where "u = (x @ d) @ z" using append_split_left[of u "bracketed n @ v" "x @ d" y] assms(4) by auto
  then show ?thesis by (auto simp: str_contains_iff)
next
  case False
  show ?thesis
  proof (cases "length u < length x")
    case False
    then obtain z where z: "u = x @ z" "d @ y = z @ bracketed n @ v" using append_split_left[of u "bracketed n @ v" x "d @ y"] assms(4) by auto
    then have "length z < length d" using \<open>\<not> length (x @ d) \<le> length u\<close> by simp
    then obtain z' where "d = z @ z'" "bracketed n @ v = z' @ y" "z' \<noteq> []"
      using append_split_left[of d y z "bracketed n @ v"] z(2) by auto
    then show ?thesis using assms(1) by (cases z') (auto simp: bracketed_def)
  next
    case True
    then obtain z where z: "x = u @ z" "bracketed n @ v = z @ d @ y" "z \<noteq> []"
      using append_split_left[of x "d @ y" u "bracketed n @ v"] assms(4) by auto
    then obtain z' where z': "z = CHR ''['' # z'" "n @ '']'' @ v = z' @ d @ y" by (cases z) (auto simp: bracketed_def)
    show ?thesis
    proof (cases "length (z' @ d) \<le> length n")
      case True
      then obtain m where "n = (z' @ d) @ m" using append_split_left[of n "'']'' @ v" "z' @ d" y] z'(2) by auto
      then show ?thesis by (auto simp: str_contains_iff)
    next
      case l: False
      show ?thesis
      proof (cases "length n < length z'")
        case True
        then obtain m where m: "z' = n @ m" "'']'' @ v = m @ d @ y" "m \<noteq> []"
          using append_split_left[of z' "d @ y" n "'']'' @ v"] z'(2) by auto
        then show ?thesis by (cases m) auto
      next
        case False
        then obtain m where m: "n = z' @ m" "d @ y = m @ '']'' @ v" using append_split_left[of n "'']'' @ v" z' "d @ y"] z'(2) by auto
        then have "length m < length d" using l by simp
        then obtain m' where "d = m @ m'" "'']'' @ v = m' @ y" "m' \<noteq> []" using append_split_left[of d y m "'']'' @ v"] m(2) by auto
        then show ?thesis using assms(2) by (cases m') auto
      qed
    qed
  qed
qed

lemma str_contains_sub: "str_contains s d \<Longrightarrow> str_contains (a @ s @ b) d"
  unfolding str_contains_iff by (metis append_assoc)

lemma replace_no_new:
  assumes "CHR ''['' \<notin> set d" "CHR '']'' \<notin> set d" "d \<noteq> []" "\<not> str_contains n d"
  shows "str_contains (u @ replace_from k (bracketed n) s) d \<Longrightarrow> str_contains (u @ s) d"
proof (induction k "bracketed n" s arbitrary: u rule: replace_from.induct)
  case (1 k s)
  show ?case
  proof (cases "k = [] \<or> s = [] \<and> \<not> prefix k s")
    case True
    then show ?thesis using "1.prems" by (subst (asm) replace_from.simps) (auto split: if_splits)
  next
    case False
    show ?thesis
    proof (cases "prefix k s")
      case True
      then obtain z where z: "s = k @ z" by (auto simp: prefix_def)
      have "str_contains (u @ bracketed n @ replace_from k (bracketed n) z) d"
        using "1.prems" False True z by (subst (asm) replace_from.simps) simp
      then consider "str_contains u d" | "str_contains (replace_from k (bracketed n) z) d"
        using word_across[OF assms(1-3), of u n "replace_from k (bracketed n) z"] assms(4) unfolding str_contains_iff by metis
      then show ?thesis
      proof cases
        case 1
        then show ?thesis using str_contains_sub[of u d "[]" s] by simp
      next
        case 2
        then have "str_contains ([] @ z) d" using "1.hyps"(1)[of "[]"] False True z by simp
        then show ?thesis using str_contains_sub[of z d "u @ k" "[]"] z by simp
      qed
    next
      case np: False
      then obtain c t where s: "s = c # t" using False by (cases s) auto
      have "str_contains ((u @ [c]) @ replace_from k (bracketed n) t) d"
        using "1.prems" False np s by (subst (asm) replace_from.simps) simp
      then show ?thesis using "1.hyps"(2)[of c t "u @ [c]"] False np s by simp
    qed
  qed
qed

lemma replace_removes:
  assumes "CHR ''['' \<notin> set d" "CHR '']'' \<notin> set d" "d \<noteq> []" "\<not> str_contains n d"
    and "\<forall>x y. u @ s = x @ d @ y \<longrightarrow> length u \<le> length x"
  shows "\<not> str_contains (u @ replace_from d (bracketed n) s) d"
  using assms
proof (induction d "bracketed n" s arbitrary: u rule: replace_from.induct)
  case (1 k s)
  have nu: "\<not> str_contains u k"
  proof
    assume "str_contains u k"
    then obtain x y where "u = x @ k @ y" by (auto simp: str_contains_iff)
    then show False using "1.prems"(3) "1.prems"(5)[rule_format, of x "y @ s"] by simp
  qed
  show ?case
  proof (cases "prefix k s")
    case True
    then obtain z where z: "s = k @ z" by (auto simp: prefix_def)
    have "\<not> str_contains ([] @ replace_from k (bracketed n) z) k"
      using "1.hyps"(1)[of "[]"] "1.prems"(1-4) True z by simp
    then have "\<not> str_contains (u @ bracketed n @ replace_from k (bracketed n) z) k"
      using word_across[OF "1.prems"(1-3), of u n "replace_from k (bracketed n) z"] "1.prems"(4) nu unfolding str_contains_iff by auto
    then show ?thesis using "1.prems"(3) True z by (subst replace_from.simps) simp
  next
    case np: False
    show ?thesis
    proof (cases s)
      case Nil
      then show ?thesis using nu np "1.prems"(3) by (subst replace_from.simps) simp
    next
      case (Cons c t)
      have "\<forall>x y. (u @ [c]) @ t = x @ k @ y \<longrightarrow> length (u @ [c]) \<le> length x"
      proof (intro allI impI)
        fix x y assume e: "(u @ [c]) @ t = x @ k @ y"
        then have "length u \<le> length x" using "1.prems"(5) Cons by simp
        moreover have "length u \<noteq> length x"
        proof
          assume "length u = length x"
          then have "c # t = k @ y" using e by simp
          then show False using np Cons by (auto simp: prefix_def)
        qed
        ultimately show "length (u @ [c]) \<le> length x" by simp
      qed
      then have "\<not> str_contains ((u @ [c]) @ replace_from k (bracketed n) t) k"
        using "1.hyps"(2)[of c t "u @ [c]"] "1.prems"(1-4) np Cons by simp
      then show ?thesis using np "1.prems"(3) Cons by (subst replace_from.simps) simp
    qed
  qed
qed

text \<open>A value that can be told from the placeholders around it.\<close>

definition scrubbable :: "secret list \<Rightarrow> string \<Rightarrow> bool" where
  "scrubbable ss d \<longleftrightarrow> d \<noteq> [] \<and> CHR ''['' \<notin> set d \<and> CHR '']'' \<notin> set d
     \<and> list_all (\<lambda>s. \<not> str_contains (''decoyrail:scrubbed:'' @ sec_name s) d) ss"

lemma scrub_keeps:
  assumes "scrubbable ss d" "s \<in> set ss" "\<not> str_contains t d"
  shows "\<not> str_contains (scrub_secret s t) d"
proof -
  have p: "scrub_placeholder s = bracketed (''decoyrail:scrubbed:'' @ sec_name s)" by (simp add: scrub_placeholder_def bracketed_def)
  have "\<not> str_contains (replace_from (sec_real s) (scrub_placeholder s) t) d"
    unfolding p using replace_no_new[of d "''decoyrail:scrubbed:'' @ sec_name s" "[]" "sec_real s" t] assms
    by (auto simp: scrubbable_def list_all_iff)
  then show ?thesis using assms(3) by (simp add: scrub_secret_def str_replace_def)
qed

lemma scrub_removes:
  assumes "scrubbable ss (sec_real s)" "s \<in> set ss"
  shows "\<not> str_contains (scrub_secret s t) (sec_real s)"
proof -
  have p: "scrub_placeholder s = bracketed (''decoyrail:scrubbed:'' @ sec_name s)" by (simp add: scrub_placeholder_def bracketed_def)
  have "\<not> str_contains (replace_from (sec_real s) (scrub_placeholder s) t) (sec_real s)"
    unfolding p using replace_removes[of "sec_real s" "''decoyrail:scrubbed:'' @ sec_name s" "[]" t] assms
    by (auto simp: scrubbable_def list_all_iff)
  then show ?thesis using assms by (simp add: scrub_secret_def str_replace_def scrubbable_def)
qed

lemma scrub_all_keeps: "scrubbable ss d \<Longrightarrow> set xs \<subseteq> set ss \<Longrightarrow> \<not> str_contains t d \<Longrightarrow> \<not> str_contains (fold scrub_secret xs t) d"
  by (induction xs arbitrary: t) (simp_all add: scrub_keeps)

text \<open>C34: the debug dump does not contain a secret. Whatever the request, the detections and their snippets, and
  whatever the other secrets are, the file written for a request holds no occurrence of a real value of either
  vault that has no brackets and does not occur inside a placeholder itself, and the engine's own audit note
  names only the file.\<close>

theorem dump_scrubbed:
  assumes "s \<in> set (secrets (eg_vault e) @ secrets (eg_session e))"
    and "scrubbable (secrets (eg_vault e) @ secrets (eg_session e)) (sec_real s)"
    and "dump_step w cfg q dlp e = (e', why)" "(path, content) \<in> set (eg_dumps e') - set (eg_dumps e)"
  shows "\<not> str_contains content (sec_real s) \<and> why = '' payload='' @ path"
proof -
  let ?ss = "secrets (eg_vault e) @ secrets (eg_session e)"
  obtain xs ys where l: "?ss = xs @ s # ys" using split_list[OF assms(1)] by blast
  have "content = dump_content (wd_ts w) q dlp (eg_vault e) (eg_session e)" "why = '' payload='' @ path"
    using assms(3,4) by (auto simp: dump_step_def write_dlp_dump_def Let_def split: if_splits dump_io.splits)
  moreover have "\<not> str_contains (scrub_secret s (fold scrub_secret xs (dump_text (wd_ts w) q dlp))) (sec_real s)"
    by (rule scrub_removes[OF assms(2,1)])
  then have "\<not> str_contains (fold scrub_secret ys (scrub_secret s (fold scrub_secret xs (dump_text (wd_ts w) q dlp)))) (sec_real s)"
    by (intro scrub_all_keeps[OF assms(2)]) (use l in auto)
  ultimately show ?thesis by (simp add: dump_content_def l)
qed

section \<open>A run\<close>

text \<open>A session with one secret under a policy that allows every host, and an upstream that answers \<open>ok\<close>.\<close>

definition demo_world :: "upstream_result \<Rightarrow> world" where
  "demo_world reply = \<lparr>wd_crypto = demo_crypto, wd_codecs = demo_codecs, wd_decoders = demo_decoders, wd_audit = demo_codec,
     wd_from_json = (\<lambda>_. None), wd_to_json = (\<lambda>_. None), wd_to_vec = (\<lambda>_. []), wd_method_ok = (\<lambda>_. True),
     wd_upstream = (\<lambda>_. reply), wd_append_ok = (\<lambda>_. True), wd_anchor_ok = True, wd_flush = FlushOk None,
     wd_cache_flush = CacheFlushOk, wd_trip_saved = True, wd_dump = DumpOk ''dlp'', wd_period = ''2026-01'', wd_now = 0,
     wd_ts = ''t'', wd_elapsed = 1, wd_today = 0, wd_date_max = 1000, wd_pid = 7\<rparr>"

definition demo_policy :: policy where
  "demo_policy = \<lparr>p_default_action = Allow, p_escalate_fallback = Deny, p_rules = [],
     p_dlp = dlp_config_default\<lparr>d_pan := DlpOff, d_ssn := DlpOff, d_iban := DlpOff, d_aba := DlpOff, d_debug := True\<rparr>,
     p_cache = cache_config_default, p_soft_landing = soft_landing_default, p_spend_tripwire = spend_tripwire_default\<rparr>"

definition demo_engine :: "vault \<Rightarrow> engine" where
  "demo_engine v = \<lparr>eg_policy = demo_policy, eg_vault = v, eg_session = \<lparr>secrets = []\<rparr>,
     eg_pricing = \<lparr>pr_hosts = [], pr_billing_overrides = [], pr_models = []\<rparr>, eg_license = None,
     eg_meter = session_load NoMeterFile 0 None, eg_meter_file = NoMeterFile, eg_watch = watch_new 0 None, eg_trip_file = NoTripFile,
     eg_doctor = doctor_default, eg_cache_file = NoCacheFile, eg_keepalive = (\<lambda>_. None),
     eg_auditor = \<lparr>au_seq = 0, au_prev_hash = ZERO_HASH, au_known_len = 0\<rparr>, eg_audit_disk = \<lparr>dk_log = None, dk_head = None\<rparr>,
     eg_session_id = ''s'', eg_dlp_salt = [], eg_dumps = [], eg_dump_seq = 0, eg_trail = []\<rparr>"

definition demo_inbound :: inbound where
  "demo_inbound = \<lparr>ib_host = ''a.example'', ib_port = 443, ib_tls = True, ib_method = ''GET'', ib_path_query = None,
     ib_headers = [], ib_body = [], ib_clean = True\<rparr>"

lemma demo_no_provider: "provider_for_host (eg_pricing (demo_engine v)) h = None"
  by (simp add: demo_engine_def provider_for_host_def btm_get_def)

lemma demo_decide: "decide demo_inbound (demo_engine v) = \<lparr>dc_action = Allow, dc_rule = ''default'', dc_escalated = False, dc_allow_secrets = [], dc_route = []\<rparr>"
  by (simp add: decide_def demo_engine_def demo_policy_def evaluate_def resolve_def)

definition demo_checked :: engine where
  "demo_checked = (demo_engine \<lparr>secrets = []\<rparr>)\<lparr>eg_meter := session_roll ''2026-01'' (session_load NoMeterFile 0 None)\<rparr>"

lemma demo_budget: "check_budget (demo_world x) (demo_engine \<lparr>secrets = []\<rparr>) = (demo_checked, False, None)"
  by (simp add: check_budget_def session_over_budget_def budget_used_pct_def session_roll_def roll_period_def Let_def
      demo_engine_def session_load_def demo_world_def demo_checked_def)

lemma demo_body: "collect_body demo_inbound = BodyOk []"
  by (simp add: collect_body_def demo_inbound_def)

definition demo_prepared :: prepared where
  "demo_prepared = \<lparr>pp_decision = decide demo_inbound (demo_engine \<lparr>secrets = []\<rparr>), pp_over_budget = False, pp_provider = None,
     pp_spend = \<lparr>sr_watch = watch_new 0 None, sr_file = NoTripFile, sr_trip = None, sr_onset = False, sr_fp = None\<rparr>, pp_blocked = False,
     pp_downgrade = None, pp_route = None, pp_pro = False,
     pp_cache = \<lparr>cp_engine = demo_checked, cp_body = [], cp_headers = [], cp_header = None, cp_template = None, cp_model = None\<rparr>\<rparr>"

lemma demo_prepare: "prepare (demo_world x) demo_inbound False None [] demo_checked = demo_prepared"
proof -
  let ?d = "\<lparr>dc_action = Allow, dc_rule = ''default'', dc_escalated = False, dc_allow_secrets = [], dc_route = []\<rparr>"
  have d: "decide demo_inbound demo_checked = ?d"
    using demo_decide[of "\<lparr>secrets = []\<rparr>"] by (simp add: decide_def demo_checked_def)
  have p: "provider_for_host (eg_pricing demo_checked) h = None" for h by (simp add: demo_checked_def demo_no_provider)
  have t: "tripwire_step (demo_world x) demo_inbound ?d [] demo_checked =
      (demo_checked, \<lparr>sr_watch = watch_new 0 None, sr_file = NoTripFile, sr_trip = None, sr_onset = False, sr_fp = None\<rparr>)"
    by (simp add: tripwire_step_def spend_step_def p Let_def spend_alert_def) (simp add: demo_checked_def demo_engine_def)
  have h: "collect_headers (ib_headers demo_inbound) = []" by (simp add: demo_inbound_def collect_headers_def)
  show ?thesis
    by (simp add: prepare_def d t p h Let_def spend_block_def soft_landing_step_def route_step_def doctor_step_def
        cache_active_def cache_pro_def demo_decide demo_prepared_def)
qed

lemma demo_judge: "judge (demo_world x) demo_inbound demo_prepared =
    (demo_checked, [], 0, Forwarded Allow (swap_input demo_inbound demo_prepared), \<lparr>o_swaps = [], o_tripwires = []\<rparr>, \<lparr>hits = [], truncated = False\<rparr>)"
proof -
  have s: "swap_step cx q \<lparr>secrets = []\<rparr> \<lparr>secrets = []\<rparr> d tls = (q, \<lparr>o_swaps = [], o_tripwires = []\<rparr>)" for cx q d tls
    by (simp add: swap_step_def swap_apply_def)
  have o: "detect_apply cr dec q (p_dlp demo_policy) salt = (q, \<lparr>hits = [], truncated = False\<rparr>)" for cr dec q salt
    by (simp add: detect_apply_def demo_policy_def ALL_DETECTORS_def mode_for_def dlp_config_default_def)
  have e: "eg_vault demo_checked = \<lparr>secrets = []\<rparr>" "eg_session demo_checked = \<lparr>secrets = []\<rparr>" "eg_policy demo_checked = demo_policy"
    by (simp_all add: demo_checked_def demo_engine_def)
  have c: "cp_engine (pp_cache demo_prepared) = demo_checked" "pp_over_budget demo_prepared = False" "pp_blocked demo_prepared = False"
    "dc_action (pp_decision demo_prepared) = Allow" "cp_body (pp_cache demo_prepared) = []" by (simp_all add: demo_prepared_def demo_decide)
  show ?thesis
    by (simp add: judge_def c[unfolded demo_prepared_def] c e s o Let_def inspect_request_def final_action_def dump_step_def tripped_def has_blocking_def
        swap_input_def)
qed

lemma demo_runs: "pipeline_inner (demo_world x) demo_inbound (demo_engine \<lparr>secrets = []\<rparr>) =
    forward_step (demo_world x) demo_inbound demo_prepared \<lparr>o_swaps = [], o_tripwires = []\<rparr> Allow (swap_input demo_inbound demo_prepared) demo_checked"
  by (simp add: pipeline_inner_def demo_budget demo_body demo_prepare demo_judge Let_def request_entries_def audit_all_def has_advisory_def)

lemma demo_upstream:
  "wd_upstream (demo_world x) u = x" "pp_provider demo_prepared = None"
  by (simp_all add: demo_world_def demo_prepared_def)

lemma demo_not_billed: "\<not> billing_panics r (demo_engine v) q"
  by (simp add: billing_panics_def demo_no_provider)

theorem sent_iff_cleared_witness:
  "\<exists>q. ps_sent (pipeline (demo_world (SendFailed ''gone'')) demo_inbound (demo_engine \<lparr>secrets = []\<rparr>))
     = Some (upstream_for (demo_world (SendFailed ''gone'')) demo_inbound None q)"
proof -
  let ?w = "demo_world (SendFailed ''gone'')" and ?e = "demo_engine \<lparr>secrets = []\<rparr>"
  have b: "ib_body demo_inbound = []" "ib_clean demo_inbound" "length ([] :: bytes) \<le> REQ_BODY_CAP" by (simp_all add: demo_inbound_def)
  have pp: "prepare ?w demo_inbound False None (ib_body demo_inbound) demo_checked = demo_prepared" unfolding b(1) by (rule demo_prepare)
  obtain q oc dlp where o: "outgoing ?w demo_inbound ?e demo_prepared = (q, oc, dlp)" by (metis prod_cases3)
  have j: "judge ?w demo_inbound (prepare ?w demo_inbound False None [] demo_checked)
      = (demo_checked, [], 0, Forwarded Allow (swap_input demo_inbound demo_prepared), \<lparr>o_swaps = [], o_tripwires = []\<rparr>, \<lparr>hits = [], truncated = False\<rparr>)"
    by (simp only: demo_prepare demo_judge)
  have c: "oc = \<lparr>o_swaps = [], o_tripwires = []\<rparr>" "dlp = \<lparr>hits = [], truncated = False\<rparr>"
    using judge_prepared(1)[OF demo_budget j] o by (simp_all add: demo_prepare)
  have d: "dc_action (decide demo_inbound ?e) \<noteq> Deny" by (simp add: demo_decide)
  have s: "\<not> spend_block (p_spend_tripwire (eg_policy ?e)) (pp_spend demo_prepared)"
    by (simp add: demo_prepared_def spend_block_def)
  have "ps_sent (pipeline ?w demo_inbound ?e) = Some (upstream_for ?w demo_inbound None q)"
    using sent_iff_cleared[OF demo_budget o[folded pp] demo_not_billed, unfolded pp] b d s
    by (simp add: c demo_no_provider tripped_def has_blocking_def del: pipeline_sent prepare_fields)
  then show ?thesis by (rule exI)
qed


theorem delivered_is_recorded_witness:
  "\<exists>resp u ev f. ps_result (pipeline (demo_world (Reply 200 [] [''ok''] None)) demo_inbound (demo_engine \<lparr>secrets = []\<rparr>)) = Answered resp
    \<and> relayed (rs_body resp) = Some ''ok'' \<and> ps_sent (pipeline (demo_world (Reply 200 [] [''ok''] None)) demo_inbound (demo_engine \<lparr>secrets = []\<rparr>)) = Some u
    \<and> dk_log (eg_audit_disk (ps_engine (pipeline (demo_world (Reply 200 [] [''ok''] None)) demo_inbound (demo_engine \<lparr>secrets = []\<rparr>))))
        = Some (f @ event_line demo_codec ev @ nl) \<and> ev_host ev = ''a.example''"
proof -
  let ?w = "demo_world (Reply 200 [] [''ok''] None)"
  have a: "audit ?w en (meter_step ?w demo_inbound tr st up down demo_checked) \<noteq> (x, None)" for en tr st up down x
    by (auto simp: audit_def Let_def meter_step_def append_event_def resync_def log_len_def demo_checked_def demo_engine_def demo_world_def split: prod.split)
  have s: "scan_alert_step ?w demo_inbound fw st b demo_checked = demo_checked" for fw st b
    by (simp add: scan_alert_step_def scan_and_alert_def scan_response_for_real_def demo_checked_def demo_engine_def)
  have n: "\<not> is_event_stream []" by (simp add: is_event_stream_def)
  have dl: "\<exists>e1 ms resp. deliver ?w demo_inbound fw 200 [] [''ok''] None demo_checked = (e1, ms, Answered resp) \<and> relayed (rs_body resp) = Some ''ok''"
    if "fw_own fw = []" for fw
    using that by (auto simp: deliver_def SCAN_CAP_def s a Let_def n build_response_def relayed_def split: prod.split option.split)
  have r: "wd_upstream ?w (upstream_for ?w demo_inbound (pp_provider demo_prepared) q) = Reply 200 [] [''ok''] None" for q
    by (simp add: demo_upstream)
  have o: "decoyrail_headers (cp_header (pp_cache demo_prepared)) (pp_downgrade demo_prepared) (pp_route demo_prepared) = []"
    by (simp add: demo_prepared_def decoyrail_headers_def)
  let ?oc = "\<lparr>o_swaps = [], o_tripwires = []\<rparr>" and ?q = "swap_input demo_inbound demo_prepared"
  have b: "(case pp_provider demo_prepared of None \<Rightarrow> Some Usage
      | Some p \<Rightarrow> billing_for (eg_pricing demo_checked) p (ib_host demo_inbound) (q_headers ?q)) = Some Usage"
    by (simp add: demo_upstream)
  obtain fw e1 ms res where f: "deliver ?w demo_inbound fw 200 [] [''ok''] None demo_checked = (e1, ms, res)"
      "ps_result (forward_step ?w demo_inbound demo_prepared ?oc Allow ?q demo_checked) = res" "fw_own fw = []"
    using forward_step_reply[OF r b, of ?oc Allow] o by auto
  obtain resp where i: "ps_result (pipeline_inner ?w demo_inbound (demo_engine \<lparr>secrets = []\<rparr>)) = Answered resp" "relayed (rs_body resp) = Some ''ok''"
    using dl[OF f(3)] f(1,2) unfolding demo_runs by auto
  then have "ps_result (pipeline ?w demo_inbound (demo_engine \<lparr>secrets = []\<rparr>)) = Answered resp" by (simp add: pipeline_def)
  moreover obtain e1 ob pct where c: "check_budget ?w (demo_engine \<lparr>secrets = []\<rparr>) = (e1, ob, pct)" by (metis prod_cases3)
  ultimately obtain u ev f where d: "ps_sent (pipeline ?w demo_inbound (demo_engine \<lparr>secrets = []\<rparr>)) = Some u"
      "dk_log (eg_audit_disk (ps_engine (pipeline ?w demo_inbound (demo_engine \<lparr>secrets = []\<rparr>)))) = Some (f @ event_line (wd_audit ?w) ev @ nl)"
      "ev_host ev = ib_host demo_inbound"
    using delivered_is_recorded[OF _ i(2) c] by blast
  have h: "ib_host demo_inbound = ''a.example''" "wd_audit ?w = demo_codec" by (simp_all add: demo_inbound_def demo_world_def)
  show ?thesis using \<open>ps_result (pipeline ?w demo_inbound (demo_engine \<lparr>secrets = []\<rparr>)) = Answered resp\<close> i(2) d unfolding h by blast
qed

definition demo_hit :: hit where
  "demo_hit = \<lparr>h_detector = ''email'', h_seen_in = ''body'', h_offset = 0, h_fingerprint = ''f'', h_mode = DlpWarn, h_context = Some ''near sk-ant-1''\<rparr>"

theorem dump_scrubbed_witness:
  "\<exists>e' path content. dump_step (demo_world (SendFailed [])) (p_dlp demo_policy) (sample_leak ''/'' ''sk-ant-1'')
       \<lparr>hits = [demo_hit], truncated = False\<rparr> (demo_engine \<lparr>secrets = [sample_secret]\<rparr>) = (e', '' payload='' @ path)
     \<and> eg_dumps e' = [(path, content)] \<and> \<not> str_contains content ''sk-ant-1''"
proof -
  let ?e = "demo_engine \<lparr>secrets = [sample_secret]\<rparr>"
  let ?dlp = "\<lparr>hits = [demo_hit], truncated = False\<rparr>" and ?q = "sample_leak ''/'' ''sk-ant-1''"
  have v: "secrets (eg_vault ?e) @ secrets (eg_session ?e) = [sample_secret]" "eg_dumps ?e = []" by (simp_all add: demo_engine_def)
  have r: "sec_real sample_secret = ''sk-ant-1''" by (simp add: sample_secret_def)
  have s: "scrubbable [sample_secret] (sec_real sample_secret)" by (simp add: scrubbable_def sample_secret_def)
  obtain e' path content where d: "dump_step (demo_world (SendFailed [])) (p_dlp demo_policy) ?q ?dlp ?e = (e', '' payload='' @ path)"
      "eg_dumps e' = [(path, content)]"
    by (simp add: dump_step_def write_dlp_dump_def demo_world_def demo_policy_def Let_def v)
  show ?thesis using dump_scrubbed[of sample_secret ?e, OF _ _ d(1), of path content] s d unfolding v r by auto
qed

theorem unpaid_untouched_witness:
  "\<not> engine_tier (demo_world (SendFailed [])) (demo_engine \<lparr>secrets = []\<rparr>) \<ge> Pro
   \<and> cp_body (pp_cache (prepare (demo_world (SendFailed [])) demo_inbound False None ''payload'' (demo_engine \<lparr>secrets = []\<rparr>))) = ''payload''"
proof -
  have "\<not> engine_tier (demo_world (SendFailed [])) (demo_engine \<lparr>secrets = []\<rparr>) \<ge> Pro"
    by (simp add: engine_tier_def demo_engine_def current_tier_def less_eq_tier_def tier_rank_def)
  with unpaid_untouched[of "demo_world (SendFailed [])" "demo_engine \<lparr>secrets = []\<rparr>" False demo_inbound "''payload''" None]
  show ?thesis by (simp add: swap_input_def)
qed

end
