(* ===== verification/Integrity.thy ===== *)
theory Integrity
  imports Policy Audit_Log
begin

text \<open>
  \<^verbatim>\<open>src/src/integrity.rs\<close> and the trusted load of \<^verbatim>\<open>src/src/policy.rs\<close>: the
  integrity record of the policy file, blessing and installing, the fail-closed load, and the
  line diff shown before a bless. HMAC, hex decoding, the TOML reader and the key derivation
  are parameters (\<open>integrity_env\<close>); a file is a value. Writes succeed in the model.
\<close>

section \<open>Data\<close>

record sig_record =
  sg_version :: u32
  sg_sha256 :: string
  sg_mac :: string
  sg_blessed_at :: string
  sg_trusted_text :: string

datatype sig_file = NoSig | UnreadableSig | GarbledSig | Sig sig_record

datatype verdict = Trusted | NoRecord | Mismatch

datatype integrity_error = KeyUnavailable | ReadFailed | NotAPolicy | AuditFailed audit_error
  | Untrusted string

record integrity_env =
  ie_hmac :: "bytes \<Rightarrow> bytes \<Rightarrow> bytes"
  ie_hex_decode :: "string \<Rightarrow> bytes option"
  ie_mac_key :: "bytes option"
  ie_toml :: "string \<Rightarrow> policy option"
  ie_crypto :: crypto
  ie_codec :: audit_codec
  ie_pid :: u32
  ie_now :: string
  ie_policy_path :: string
  ie_backup_path :: string
  ie_default_toml :: string

record policy_home =
  ph_policy :: "string option"
  ph_sig :: sig_file
  ph_backup :: "string option"
  ph_audit :: audit_disk

definition RECORD_VERSION :: u32 where "RECORD_VERSION = 1"

section \<open>The record\<close>

definition policy_fingerprint :: "integrity_env \<Rightarrow> string \<Rightarrow> string" where
  "policy_fingerprint e text = hex_encode (ie_crypto e) (sha256 (ie_crypto e) text)"

definition mac_over :: "integrity_env \<Rightarrow> string \<Rightarrow> integrity_error + bytes" where
  "mac_over e text = (case ie_mac_key e of None \<Rightarrow> Inl KeyUnavailable | Some k \<Rightarrow> Inr (ie_hmac e k text))"

definition mac_matches :: "integrity_env \<Rightarrow> string \<Rightarrow> string \<Rightarrow> integrity_error + bool" where
  "mac_matches e text expected_hex = (case ie_hex_decode e expected_hex of
     None \<Rightarrow> Inr False
   | Some expected \<Rightarrow>
       (case mac_over e text of Inl er \<Rightarrow> Inl er | Inr m \<Rightarrow> Inr (m = expected)))"

definition integrity_verify :: "integrity_env \<Rightarrow> sig_file \<Rightarrow> string \<Rightarrow> integrity_error + verdict" where
  "integrity_verify e sg text = (case sg of
     NoSig \<Rightarrow> Inr NoRecord
   | UnreadableSig \<Rightarrow> Inl ReadFailed
   | GarbledSig \<Rightarrow> Inr Mismatch
   | Sig rec \<Rightarrow>
       (case mac_matches e text (sg_mac rec) of
          Inl er \<Rightarrow> Inl er
        | Inr True \<Rightarrow> Inr Trusted
        | Inr False \<Rightarrow> Inr Mismatch))"

definition baseline :: "integrity_env \<Rightarrow> sig_file \<Rightarrow> integrity_error + (string \<times> string) option" where
  "baseline e sg = (case sg of
     NoSig \<Rightarrow> Inr None
   | UnreadableSig \<Rightarrow> Inl ReadFailed
   | GarbledSig \<Rightarrow> Inr None
   | Sig rec \<Rightarrow>
       (case mac_matches e (sg_trusted_text rec) (sg_mac rec) of
          Inl er \<Rightarrow> Inl er
        | Inr True \<Rightarrow> Inr (Some (sg_trusted_text rec, sg_blessed_at rec))
        | Inr False \<Rightarrow> Inr None))"

definition write_record :: "integrity_env \<Rightarrow> string \<Rightarrow> policy_home \<Rightarrow> integrity_error + policy_home" where
  "write_record e text h = (case mac_over e text of
     Inl er \<Rightarrow> Inl er
   | Inr m \<Rightarrow> Inr (h\<lparr>ph_sig := Sig \<lparr>sg_version = RECORD_VERSION, sg_sha256 = policy_fingerprint e text,
       sg_mac = hex_encode (ie_crypto e) m, sg_blessed_at = ie_now e, sg_trusted_text = text\<rparr>\<rparr>))"

definition audit_policy_event :: "integrity_env \<Rightarrow> string \<Rightarrow> policy_home \<Rightarrow> policy_home \<times> audit_error option" where
  "audit_policy_event e note h = (case auditor_open (ie_codec e) (ph_audit h) of
     Inl er \<Rightarrow> (h, Some er)
   | Inr a \<Rightarrow>
       (case append_event (ie_crypto e) (ie_codec e) (ie_pid e) True (entry_note ''policy'' note) (ie_now e)
               a (ph_audit h) of
          (_, d, Inl er) \<Rightarrow> (h\<lparr>ph_audit := d\<rparr>, Some er)
        | (_, d, Inr _) \<Rightarrow> (h\<lparr>ph_audit := d\<rparr>, None)))"

text \<open>\<open>install\<close>: validate, back up, record, replace, audit. The result is the new home and the
  error, if any, that ended it.\<close>

definition install :: "integrity_env \<Rightarrow> string \<Rightarrow> string \<Rightarrow> policy_home \<Rightarrow> policy_home \<times> integrity_error option" where
  "install e new_text source h =
     (if ie_toml e new_text = None then (h, Some NotAPolicy)
      else
        let h1 = (case ph_policy h of None \<Rightarrow> h | Some old \<Rightarrow> h\<lparr>ph_backup := Some old\<rparr>) in
        case write_record e new_text h1 of
          Inl er \<Rightarrow> (h1, Some er)
        | Inr h2 \<Rightarrow>
            (case audit_policy_event e (''policy updated ('' @ source @ ''); sha256='' @ policy_fingerprint e new_text)
                    (h2\<lparr>ph_policy := Some new_text\<rparr>) of
               (h3, Some er) \<Rightarrow> (h3, Some (AuditFailed er))
             | (h3, None) \<Rightarrow> (h3, None)))"

definition bless_current :: "integrity_env \<Rightarrow> policy_home \<Rightarrow> policy_home \<times> (integrity_error + string)" where
  "bless_current e h = (case ph_policy h of
     None \<Rightarrow> (h, Inl ReadFailed)
   | Some text \<Rightarrow>
       (if ie_toml e text = None then (h, Inl NotAPolicy)
        else (case write_record e text h of
            Inl er \<Rightarrow> (h, Inl er)
          | Inr h1 \<Rightarrow>
              (case audit_policy_event e (''policy blessed (policy sign); sha256='' @ policy_fingerprint e text) h1 of
                 (h2, Some er) \<Rightarrow> (h2, Inl (AuditFailed er))
               | (h2, None) \<Rightarrow> (h2, Inr (policy_fingerprint e text))))))"

definition untrusted_message :: "integrity_env \<Rightarrow> verdict \<Rightarrow> string" where
  "untrusted_message e v =
     ie_policy_path e @ '' ''
     @ (case v of NoRecord \<Rightarrow> ''has no integrity record (first start after an upgrade, or a file dropped in from outside)''
        | _ \<Rightarrow> ''was changed outside decoyrail'')
     @ ''. Review the file, then bless it with `decoyrail policy sign`. Decoyrail does not load a policy it cannot verify.''"

section \<open>The trusted load\<close>

definition read_or_materialize :: "integrity_env \<Rightarrow> policy_home \<Rightarrow> policy_home \<times> (integrity_error + string)" where
  "read_or_materialize e h = (case ph_policy h of
     Some text \<Rightarrow> (h, Inr text)
   | None \<Rightarrow>
       (if ph_sig h \<noteq> NoSig then
          (h, Inl (Untrusted (ie_policy_path e
             @ '' is missing but its integrity record exists; a deleted policy is an edit. Restore the file (last backup: ''
             @ ie_backup_path e @ ''), or start over with `decoyrail policy reset`.'')))
        else (case install e (ie_default_toml e) ''default policy'' h of
            (h1, Some er) \<Rightarrow> (h1, Inl er)
          | (h1, None) \<Rightarrow>
              (h1, case ph_policy h1 of Some text \<Rightarrow> Inr text | None \<Rightarrow> Inl ReadFailed))))"

definition load_trusted :: "integrity_env \<Rightarrow> policy_home \<Rightarrow> policy_home \<times> (integrity_error + policy)" where
  "load_trusted e h = (case read_or_materialize e h of
     (h1, Inl er) \<Rightarrow> (h1, Inl er)
   | (h1, Inr text) \<Rightarrow>
       (h1, case integrity_verify e (ph_sig h1) text of
          Inl er \<Rightarrow> Inl er
        | Inr Trusted \<Rightarrow> (case ie_toml e text of Some p \<Rightarrow> Inr p | None \<Rightarrow> Inl NotAPolicy)
        | Inr v \<Rightarrow> Inl (Untrusted (untrusted_message e v))))"

section \<open>The line diff\<close>

text \<open>The table is built bottom-up, one row per old line, each row right to left.\<close>

fun lcs_row :: "'a \<Rightarrow> 'a list \<Rightarrow> nat list \<Rightarrow> nat list" where
  "lcs_row x (y # ys) (p # ps) =
     (let r = lcs_row x ys ps in (if x = y then hd ps + 1 else max p (hd r)) # r)"
| "lcs_row x _ _ = [0]"

definition lcs_table :: "'a list \<Rightarrow> 'a list \<Rightarrow> nat list list" where
  "lcs_table a b = foldr (\<lambda>x t. lcs_row x b (hd t) # t) a [replicate (length b + 1) 0]"

datatype diff_line = Removed string | Added string

function diff_walk :: "string list \<Rightarrow> string list \<Rightarrow> nat list list \<Rightarrow> nat \<Rightarrow> nat \<Rightarrow> diff_line list" where
  "diff_walk a b t i j =
     (if i < length a \<and> j < length b then
        (if a ! i = b ! j then diff_walk a b t (Suc i) (Suc j)
         else if t ! (Suc i) ! j \<ge> t ! i ! (Suc j) then Removed (a ! i) # diff_walk a b t (Suc i) j
         else Added (b ! j) # diff_walk a b t i (Suc j))
      else map Removed (drop i a) @ map Added (drop j b))"
  by pat_completeness auto
termination
  by (relation "measure (\<lambda>(a, b, t, i, j). (length a - i) + (length b - j))") auto

declare diff_walk.simps [simp del]

definition render_diff_line :: "diff_line \<Rightarrow> string" where
  "render_diff_line l = (case l of Removed s \<Rightarrow> ''- '' @ s | Added s \<Rightarrow> ''+ '' @ s)"

definition diff_lines :: "string \<Rightarrow> string \<Rightarrow> diff_line list" where
  "diff_lines old new =
     (let a = file_lines old; b = file_lines new in diff_walk a b (lcs_table a b) 0 0)"

definition diff :: "string \<Rightarrow> string \<Rightarrow> string list" where
  "diff old new = map render_diff_line (diff_lines old new)"

section \<open>Frames\<close>

lemma audit_policy_event_frame [keep_simps]:
  "ph_policy (fst (audit_policy_event e note h)) = ph_policy h"
  "ph_sig (fst (audit_policy_event e note h)) = ph_sig h"
  by (auto simp: audit_policy_event_def split: sum.splits prod.splits)

text \<open>When the record on disk vouches for a text: it parses, and its MAC is the one of that text under
  the home's key.\<close>

definition vouched :: "integrity_env \<Rightarrow> sig_file \<Rightarrow> string \<Rightarrow> bool" where
  "vouched e sg text = (case sg of Sig rec \<Rightarrow>
     (case (ie_mac_key e, ie_hex_decode e (sg_mac rec)) of (Some k, Some m) \<Rightarrow> ie_hmac e k text = m | _ \<Rightarrow> False)
   | _ \<Rightarrow> False)"

lemma integrity_verify_Trusted: "integrity_verify e sg text = Inr Trusted \<longleftrightarrow> vouched e sg text"
  by (auto simp: integrity_verify_def vouched_def mac_matches_def mac_over_def
      split: sig_file.splits option.splits sum.splits bool.splits)

text \<open>What is used of the hex crate here: decoding inverts encoding.\<close>

definition hex_ok :: "integrity_env \<Rightarrow> bool" where
  "hex_ok e \<longleftrightarrow> (\<forall>x. ie_hex_decode e (hex_encode (ie_crypto e) x) = Some x)"

lemma write_record_vouched:
  assumes "hex_ok e" "write_record e text h = Inr h'"
  shows "\<exists>k rec. ie_mac_key e = Some k \<and> h' = h\<lparr>ph_sig := Sig rec\<rparr> \<and> ie_hex_decode e (sg_mac rec) = Some (ie_hmac e k text)"
  using assms by (auto simp: write_record_def mac_over_def hex_ok_def split: option.splits)

lemma install_home:
  assumes "hex_ok e" "install e text src h = (h', None)"
  shows "ph_policy h' = Some text \<and> (\<exists>p. ie_toml e text = Some p)
    \<and> (\<exists>k rec. ie_mac_key e = Some k \<and> ph_sig h' = Sig rec \<and> ie_hex_decode e (sg_mac rec) = Some (ie_hmac e k text))"
proof -
  let ?h1 = "case ph_policy h of None \<Rightarrow> h | Some old \<Rightarrow> h\<lparr>ph_backup := Some old\<rparr>"
  let ?note = "''policy updated ('' @ src @ ''); sha256='' @ policy_fingerprint e text"
  obtain p where p: "ie_toml e text = Some p" using assms(2) by (auto simp: install_def split: if_splits)
  then obtain h2 where h2: "write_record e text ?h1 = Inr h2"
    and h': "h' = fst (audit_policy_event e ?note (h2\<lparr>ph_policy := Some text\<rparr>))"
    using assms(2) by (auto simp: install_def Let_def split: sum.splits prod.splits option.splits)
  from write_record_vouched[OF assms(1) h2] obtain k rec where
    "ie_mac_key e = Some k" "h2 = ?h1\<lparr>ph_sig := Sig rec\<rparr>" "ie_hex_decode e (sg_mac rec) = Some (ie_hmac e k text)" by blast
  then show ?thesis using p unfolding h' by (simp add: keep_simps)
qed

lemma load_trusted_present:
  assumes "ph_policy h = Some text"
  shows "load_trusted e h = (h, case integrity_verify e (ph_sig h) text of
          Inl er \<Rightarrow> Inl er
        | Inr Trusted \<Rightarrow> (case ie_toml e text of Some p \<Rightarrow> Inr p | None \<Rightarrow> Inl NotAPolicy)
        | Inr v \<Rightarrow> Inl (Untrusted (untrusted_message e v)))"
  using assms by (simp add: load_trusted_def read_or_materialize_def)

section \<open>Longest common subsequences\<close>

fun lcs :: "'a list \<Rightarrow> 'a list \<Rightarrow> nat" where
  "lcs (x # xs) (y # ys) = (if x = y then Suc (lcs xs ys) else max (lcs xs (y # ys)) (lcs (x # xs) ys))"
| "lcs _ _ = 0"

lemma lcs_Nil [simp]: "lcs [] b = 0" "lcs a [] = 0"
  by (cases b; simp) (cases a; simp)

lemma lcs_upper: "subseq c a \<Longrightarrow> subseq c b \<Longrightarrow> length c \<le> lcs a b"
proof (induction a b arbitrary: c rule: lcs.induct)
  case (1 x xs y ys)
  show ?case
  proof (cases c)
    case (Cons z c')
    consider "x = y" "z = x" | "x = y" "z \<noteq> x" | "x \<noteq> y" "z \<noteq> x" | "x \<noteq> y" "z \<noteq> y" by blast
    then show ?thesis
    proof cases
      case 1 then show ?thesis using "1.prems" "1.IH"(1)[of c'] Cons by auto
    next
      case 2 then show ?thesis using "1.prems" "1.IH"(1)[of c] Cons by (auto dest: subseq_Cons2_neq)
    next
      case 3
      then have "length c \<le> lcs xs (y # ys)" using "1.prems" "1.IH"(2)[of c] Cons by (auto dest: subseq_Cons2_neq)
      then show ?thesis using 3 by simp
    next
      case 4
      then have "length c \<le> lcs (x # xs) ys" using "1.prems" "1.IH"(3)[of c] Cons by (auto dest: subseq_Cons2_neq)
      then show ?thesis using 4 by simp
    qed
  qed simp
qed auto

text \<open>The row the table holds for a suffix of the old lines.\<close>

definition lcs_suffixes :: "'a list \<Rightarrow> 'a list \<Rightarrow> nat list" where
  "lcs_suffixes a b = map (\<lambda>j. lcs a (drop j b)) [0..<Suc (length b)]"

lemma lcs_suffixes_Cons: "lcs_suffixes a (y # ys) = lcs a (y # ys) # lcs_suffixes a ys"
  unfolding lcs_suffixes_def by (simp add: upt_rec[of 0] map_Suc_upt[symmetric] del: upt_Suc)

lemma hd_lcs_suffixes: "hd (lcs_suffixes a b) = lcs a b"
  by (cases b) (simp_all add: lcs_suffixes_Cons, simp add: lcs_suffixes_def)

lemma lcs_row_correct: "lcs_row x b (lcs_suffixes a b) = lcs_suffixes (x # a) b"
proof (induction b)
  case (Cons y ys)
  then show ?case by (simp add: lcs_suffixes_Cons hd_lcs_suffixes Let_def)
qed (simp add: lcs_suffixes_def)

lemma lcs_table_Cons: "lcs_table (x # a) b = lcs_row x b (hd (lcs_table a b)) # lcs_table a b"
  by (simp add: lcs_table_def)

lemma lcs_table_correct: "lcs_table a b = map (\<lambda>i. lcs_suffixes (drop i a) b) [0..<Suc (length a)]"
proof (induction a)
  case Nil
  show ?case by (simp add: lcs_table_def lcs_suffixes_def map_replicate_const replicate_append_same)
next
  case (Cons x a)
  have "hd (lcs_table a b) = lcs_suffixes a b" using Cons by (simp add: upt_rec[of 0] del: upt_Suc)
  then show ?case using Cons
    by (simp add: lcs_table_Cons lcs_row_correct upt_rec[of 0] map_Suc_upt[symmetric] del: upt_Suc)
qed

lemma lcs_table_entry:
  "i \<le> length a \<Longrightarrow> j \<le> length b \<Longrightarrow> lcs_table a b ! i ! j = lcs (drop i a) (drop j b)"
  by (simp add: lcs_table_correct lcs_suffixes_def del: upt_Suc)

section \<open>The diff\<close>

definition removed_lines :: "diff_line list \<Rightarrow> string list" where
  "removed_lines d = concat (map (\<lambda>l. case l of Removed s \<Rightarrow> [s] | Added _ \<Rightarrow> []) d)"

definition added_lines :: "diff_line list \<Rightarrow> string list" where
  "added_lines d = concat (map (\<lambda>l. case l of Added s \<Rightarrow> [s] | Removed _ \<Rightarrow> []) d)"

lemma diff_line_lists [simp]:
  "removed_lines (Removed s # d) = s # removed_lines d" "removed_lines (Added s # d) = removed_lines d"
  "added_lines (Removed s # d) = added_lines d" "added_lines (Added s # d) = s # added_lines d"
  "removed_lines (map Removed xs @ map Added ys) = xs" "added_lines (map Removed xs @ map Added ys) = ys"
  by (auto simp: removed_lines_def added_lines_def) (induction xs; simp; induction ys; simp)+

lemma shuffles_subseq: "zs \<in> shuffles xs ys \<Longrightarrow> subseq xs zs"
  by (induction xs ys arbitrary: zs rule: shuffles.induct) auto

lemma diff_walk_correct:
  assumes "t = lcs_table a b" "i \<le> length a" "j \<le> length b"
  shows "\<exists>c. length c = lcs (drop i a) (drop j b) \<and> drop i a \<in> shuffles c (removed_lines (diff_walk a b t i j))
     \<and> drop j b \<in> shuffles c (added_lines (diff_walk a b t i j))"
  using assms(2,3)
proof (induction "(length a - i) + (length b - j)" arbitrary: i j rule: less_induct)
  case less
  show ?case
  proof (cases "i < length a \<and> j < length b")
    case False
    then have "drop i a = [] \<or> drop j b = []" by auto
    then show ?thesis using False by (intro exI[of _ "[]"]) (auto simp: diff_walk.simps[of a b t i j])
  next
    case True
    then have di: "drop i a = a ! i # drop (Suc i) a" and dj: "drop j b = b ! j # drop (Suc j) b"
      by (simp_all add: Cons_nth_drop_Suc)
    have m: "length a - Suc i + (length b - Suc j) < length a - i + (length b - j)"
      "length a - Suc i + (length b - j) < length a - i + (length b - j)"
      "length a - i + (length b - Suc j) < length a - i + (length b - j)" using True by linarith+
    have ti: "t ! Suc i ! j = lcs (drop (Suc i) a) (drop j b)" "t ! i ! Suc j = lcs (drop i a) (drop (Suc j) b)"
      using True unfolding assms(1) by (simp_all add: lcs_table_entry)
    consider (same) "a ! i = b ! j" | (del) "a ! i \<noteq> b ! j" "t ! Suc i ! j \<ge> t ! i ! Suc j"
      | (add) "a ! i \<noteq> b ! j" "\<not> t ! Suc i ! j \<ge> t ! i ! Suc j" by blast
    then show ?thesis
    proof cases
      case same
      obtain c where c: "length c = lcs (drop (Suc i) a) (drop (Suc j) b)"
        "drop (Suc i) a \<in> shuffles c (removed_lines (diff_walk a b t (Suc i) (Suc j)))"
        "drop (Suc j) b \<in> shuffles c (added_lines (diff_walk a b t (Suc i) (Suc j)))"
        using less(1)[OF m(1)] True by auto
      have w: "diff_walk a b t i j = diff_walk a b t (Suc i) (Suc j)" using same True by (simp add: diff_walk.simps[of a b t i j])
      have "length (a ! i # c) = lcs (drop i a) (drop j b)" using c(1) same by (simp add: di dj)
      moreover have "drop i a \<in> shuffles (a ! i # c) (removed_lines (diff_walk a b t i j))"
        unfolding di w using c(2) by (rule Cons_in_shuffles_leftI)
      moreover have "drop j b \<in> shuffles (a ! i # c) (added_lines (diff_walk a b t i j))"
        unfolding dj w same using c(3) by (rule Cons_in_shuffles_leftI)
      ultimately show ?thesis by blast
    next
      case del
      obtain c where c: "length c = lcs (drop (Suc i) a) (drop j b)"
        "drop (Suc i) a \<in> shuffles c (removed_lines (diff_walk a b t (Suc i) j))"
        "drop j b \<in> shuffles c (added_lines (diff_walk a b t (Suc i) j))"
        using less(1)[OF m(2)] True by auto
      have w: "diff_walk a b t i j = Removed (a ! i) # diff_walk a b t (Suc i) j" using del True by (simp add: diff_walk.simps[of a b t i j])
      have "length c = lcs (drop i a) (drop j b)" using c(1) del ti by (simp add: di dj)
      then show ?thesis using c(2,3) unfolding w di by (intro exI[of _ c]) (simp add: Cons_in_shuffles_rightI)
    next
      case add
      obtain c where c: "length c = lcs (drop i a) (drop (Suc j) b)"
        "drop i a \<in> shuffles c (removed_lines (diff_walk a b t i (Suc j)))"
        "drop (Suc j) b \<in> shuffles c (added_lines (diff_walk a b t i (Suc j)))"
        using less(1)[OF m(3)] True by auto
      have w: "diff_walk a b t i j = Added (b ! j) # diff_walk a b t i (Suc j)" using add True by (simp add: diff_walk.simps[of a b t i j])
      have "length c = lcs (drop i a) (drop j b)" using c(1) add ti by (simp add: di dj)
      then show ?thesis using c(2,3) unfolding w dj by (intro exI[of _ c]) (simp add: Cons_in_shuffles_rightI)
    qed
  qed
qed


section \<open>Claims\<close>

text \<open>The proxy never runs on a policy that was not blessed for this home: whenever the trusted
  load returns a policy, that policy is what the text on disk parses to, and the integrity record on
  disk carries the MAC of exactly that text under the home's key.\<close>

theorem load_trusted_only_vouched:
  assumes "load_trusted e h = (h', Inr p)"
  shows "\<exists>text. ph_policy h' = Some text \<and> ie_toml e text = Some p \<and> vouched e (ph_sig h') text"
proof -
  obtain tx where r: "read_or_materialize e h = (h', Inr tx)"
    and t: "integrity_verify e (ph_sig h') tx = Inr Trusted" "ie_toml e tx = Some p"
    using assms by (auto simp: load_trusted_def split: prod.splits sum.splits verdict.splits option.splits)
  have "ph_policy h' = Some tx"
    using r by (auto simp: read_or_materialize_def split: option.splits if_splits prod.splits)
  with t show ?thesis by (auto simp: integrity_verify_Trusted)
qed

text \<open>A policy that was installed loads; and until the next install or bless no other text does:
  an edit whose MAC differs, a deleted file and a deleted record are each refused as untrusted.\<close>

theorem installed_policy_guarded:
  assumes "hex_ok e" and "install e text src h = (h', None)" and "ie_mac_key e = Some k"
    and "ie_hmac e k text' \<noteq> ie_hmac e k text"
  shows "snd (load_trusted e h') = Inr (the (ie_toml e text))
    \<and> snd (load_trusted e (h'\<lparr>ph_policy := Some text'\<rparr>)) = Inl (Untrusted (untrusted_message e Mismatch))
    \<and> snd (load_trusted e (h'\<lparr>ph_sig := NoSig\<rparr>)) = Inl (Untrusted (untrusted_message e NoRecord))
    \<and> (\<exists>msg. snd (load_trusted e (h'\<lparr>ph_policy := None\<rparr>)) = Inl (Untrusted msg))"
proof -
  from install_home[OF assms(1,2)] assms(3) obtain p rec where p: "ie_toml e text = Some p" and pol: "ph_policy h' = Some text"
    and rec: "ph_sig h' = Sig rec" "ie_hex_decode e (sg_mac rec) = Some (ie_hmac e k text)" by auto
  have v: "integrity_verify e (ph_sig h') text = Inr Trusted" "integrity_verify e (ph_sig h') text' = Inr Mismatch"
    using rec assms(3,4) by (simp_all add: integrity_verify_def mac_matches_def mac_over_def)
  have "snd (load_trusted e h') = Inr (the (ie_toml e text))" using pol v(1) p by (simp add: load_trusted_present)
  moreover have "snd (load_trusted e (h'\<lparr>ph_policy := Some text'\<rparr>)) = Inl (Untrusted (untrusted_message e Mismatch))"
    using v(2) by (simp add: load_trusted_present)
  moreover have "snd (load_trusted e (h'\<lparr>ph_sig := NoSig\<rparr>)) = Inl (Untrusted (untrusted_message e NoRecord))"
    using pol by (simp add: load_trusted_present integrity_verify_def)
  moreover have "\<exists>msg. snd (load_trusted e (h'\<lparr>ph_policy := None\<rparr>)) = Inl (Untrusted msg)"
    using rec(1) by (simp add: load_trusted_def read_or_materialize_def)
  ultimately show ?thesis by blast
qed

text \<open>An environment with an identity hex coder and a MAC that appends the key.\<close>

definition demo_env :: integrity_env where
  "demo_env = \<lparr>ie_hmac = (\<lambda>k t. t @ k), ie_hex_decode = Some, ie_mac_key = Some ''key'',
     ie_toml = (\<lambda>t. Some default_policy), ie_crypto = \<lparr>sha256 = (\<lambda>x. x), hex_encode = (\<lambda>x. x)\<rparr>,
     ie_codec = demo_codec, ie_pid = 1, ie_now = [], ie_policy_path = ''policy.toml'',
     ie_backup_path = ''policy.toml.bak'', ie_default_toml = ''x''\<rparr>"

definition fresh_home :: policy_home where
  "fresh_home = \<lparr>ph_policy = None, ph_sig = NoSig, ph_backup = None, ph_audit = \<lparr>dk_log = None, dk_head = None\<rparr>\<rparr>"

lemma demo_install: "\<exists>h'. install demo_env ''a'' ''cli'' fresh_home = (h', None)"
  by (simp add: install_def demo_env_def fresh_home_def write_record_def mac_over_def audit_policy_event_def
      auditor_open_def recover_tail_def append_event_def resync_def log_len_def Let_def)

lemma demo_env_facts: "hex_ok demo_env" "ie_mac_key demo_env = Some ''key''" "ie_hmac demo_env ''key'' ''b'' \<noteq> ie_hmac demo_env ''key'' ''a''"
  by (simp_all add: hex_ok_def demo_env_def)

theorem load_trusted_only_vouched_witness:
  "\<exists>h h' p. load_trusted demo_env h = (h', Inr p) \<and>
     (\<exists>text. ph_policy h' = Some text \<and> ie_toml demo_env text = Some p \<and> vouched demo_env (ph_sig h') text)"
proof -
  let ?h = "fresh_home\<lparr>ph_policy := Some ''a'', ph_sig := Sig \<lparr>sg_version = 1, sg_sha256 = [], sg_mac = ''akey'', sg_blessed_at = [], sg_trusted_text = []\<rparr>\<rparr>"
  have "load_trusted demo_env ?h = (?h, Inr default_policy)"
    by (simp add: load_trusted_present integrity_verify_def mac_matches_def mac_over_def demo_env_def)
  with load_trusted_only_vouched[OF this] show ?thesis by blast
qed

theorem installed_policy_guarded_witness:
  "\<exists>h'. install demo_env ''a'' ''cli'' fresh_home = (h', None) \<and> hex_ok demo_env
     \<and> snd (load_trusted demo_env (h'\<lparr>ph_policy := Some ''b''\<rparr>)) = Inl (Untrusted (untrusted_message demo_env Mismatch))"
  using demo_install installed_policy_guarded[OF demo_env_facts(1) _ demo_env_facts(2,3)] demo_env_facts(1) by blast

text \<open>The diff shown before a policy is blessed is exact and minimal. The old text is the kept
  lines shuffled with the lines marked as removed, the new text the same kept lines shuffled with the
  lines marked as added, and the kept lines are as many as any common subsequence of the two can have.\<close>

theorem diff_exact_minimal:
  "\<exists>c. file_lines old \<in> shuffles c (removed_lines (diff_lines old new))
     \<and> file_lines new \<in> shuffles c (added_lines (diff_lines old new))
     \<and> length c = Max {length d |d. subseq d (file_lines old) \<and> subseq d (file_lines new)}"
proof -
  let ?a = "file_lines old" and ?b = "file_lines new"
  obtain c where c: "length c = lcs ?a ?b" "?a \<in> shuffles c (removed_lines (diff_lines old new))"
    "?b \<in> shuffles c (added_lines (diff_lines old new))"
    using diff_walk_correct[of "lcs_table ?a ?b" ?a ?b 0 0] by (auto simp: diff_lines_def Let_def)
  have s: "subseq c ?a" "subseq c ?b" using c(2,3) shuffles_subseq by blast+
  have "finite {length d |d. subseq d ?a \<and> subseq d ?b}"
    by (rule finite_subset[of _ "{0..length ?a}"]) (auto dest: list_emb_length)
  then have "Max {length d |d. subseq d ?a \<and> subseq d ?b} = length c"
    using s lcs_upper[of _ ?a ?b] c(1) by (intro Max_eqI) (auto intro!: exI[of _ c])
  with c(2,3) show ?thesis by metis
qed

end
