(* ===== verification/Guard.thy ===== *)
theory Guard
  imports Vault "HOL-Library.Multiset"
begin

text \<open>
  \<^verbatim>\<open>src/src/guard.rs\<close>: the session vault. \<open>detect_env\<close> turns the sensitive-looking
  variables of an inherited environment into session secrets with decoys.
\<close>

definition NAME_FRAGMENTS :: "string list" where
  "NAME_FRAGMENTS = [''TOKEN'', ''SECRET'', ''PASSWORD'', ''PASSWD'', ''APIKEY'', ''API_KEY'',
     ''ACCESS_KEY'', ''PRIVATE_KEY'', ''CREDENTIAL'']"

definition NAME_SEGMENTS :: "string list" where
  "NAME_SEGMENTS = [''AUTH'']"

definition SHAPE_ONLY :: "string list" where
  "SHAPE_ONLY = [''AKIA'', ''AIza'', ''glsa_'', ''dop_v1_'', ''pypi-'']"

definition name_sensitive :: "string \<Rightarrow> bool" where
  "name_sensitive name =
     (let upper = to_ascii_uppercase name in
      list_ex (str_contains upper) NAME_FRAGMENTS
      \<or> list_ex (\<lambda>seg. list_ex (\<lambda>part. part = seg) (split_char (CHR ''_'') upper)) NAME_SEGMENTS)"

definition connection_string_with_password :: "string \<Rightarrow> bool" where
  "connection_string_with_password val =
     (case split_once ''://'' val of
        None \<Rightarrow> False
      | Some (_, rest) \<Rightarrow>
          (case split_once ''@'' rest of
             None \<Rightarrow> False
           | Some (userinfo, _) \<Rightarrow> CHR '':'' \<in> set userinfo))"

definition value_sensitive :: "string \<Rightarrow> bool" where
  "value_sensitive val =
     (if infer_provider val \<noteq> None \<or> list_ex (starts_with val) SHAPE_ONLY then True
      else if str_contains val ''-----BEGIN'' \<and> str_contains val ''PRIVATE KEY'' then True
      else connection_string_with_password val)"

definition value_exempt :: "string \<Rightarrow> bool" where
  "value_exempt val \<longleftrightarrow>
     length val < 8 \<or> starts_with val ''/'' \<or> starts_with val ''./'' \<or> starts_with val ''~''"

text \<open>Whether the loop reaches the point where a session secret is built.\<close>

definition env_guarded :: "vault \<Rightarrow> string list \<Rightarrow> string \<times> string \<Rightarrow> bool" where
  "env_guarded v pass nv = (case nv of (name, val) \<Rightarrow>
     name \<notin> set pass \<and> \<not> value_exempt val \<and> (name_sensitive name \<or> value_sensitive val)
     \<and> \<not> list_ex (\<lambda>s. sec_env s = Some name) (secrets v)
     \<and> \<not> list_ex (\<lambda>s. sec_real s = val \<or> sec_decoy s = val) (secrets v))"

definition session_secret :: "crypto \<Rightarrow> string \<times> string \<Rightarrow> secret option" where
  "session_secret cr nv = (case nv of (name, val) \<Rightarrow>
     map_option (\<lambda>decoy. \<lparr>sec_name = ''env:'' @ name, sec_real = val, sec_decoy = decoy,
        sec_env = Some name, sec_location = Any, sec_provider = infer_provider val\<rparr>)
       (make_decoy cr (''env:'' @ name) val))"

fun collect_env :: "crypto \<Rightarrow> vault \<Rightarrow> string list \<Rightarrow> (string \<times> string) list \<Rightarrow> secret list option" where
  "collect_env cr v pass [] = Some []"
| "collect_env cr v pass (nv # env) =
     (if env_guarded v pass nv
      then (case session_secret cr nv of
          None \<Rightarrow> None
        | Some s \<Rightarrow> map_option ((#) s) (collect_env cr v pass env))
      else collect_env cr v pass env)"

definition detect_env :: "crypto \<Rightarrow> (string \<times> string) list \<Rightarrow> vault \<Rightarrow> string list \<Rightarrow> secret list option" where
  "detect_env cr env v pass = map_option (sort_key sec_name) (collect_env cr v pass env)"

section \<open>Properties\<close>

definition session_secret_of :: "string \<times> string \<Rightarrow> string \<Rightarrow> secret" where
  "session_secret_of nv decoy = \<lparr>sec_name = ''env:'' @ fst nv, sec_real = snd nv, sec_decoy = decoy,
     sec_env = Some (fst nv), sec_location = Any, sec_provider = infer_provider (snd nv)\<rparr>"

text \<open>A session secret is built from one variable, with a decoy in shape.\<close>

definition guards :: "string \<times> string \<Rightarrow> secret \<Rightarrow> bool" where
  "guards nv s \<longleftrightarrow> s = session_secret_of nv (sec_decoy s) \<and> decoy_shape (snd nv) (sec_decoy s)"

lemma session_secret_total:
  assumes "crypto_ok cr"
  shows "\<exists>s. session_secret cr nv = Some s \<and> guards nv s"
proof -
  obtain n v where nv: "nv = (n, v)" by fastforce
  from make_decoy_shape[OF assms, of "''env:'' @ n" v] show ?thesis
    by (auto simp: nv session_secret_def guards_def session_secret_of_def)
qed

lemma collect_env_total:
  assumes "crypto_ok cr"
  shows "\<exists>ss. collect_env cr v pass env = Some ss \<and> list_all2 guards (filter (env_guarded v pass) env) ss"
proof (induction env)
  case (Cons nv env)
  then show ?case using session_secret_total[OF assms, of nv] by auto
qed simp

lemma guards_image:
  "list_all2 guards xs ss \<Longrightarrow> mset (map (\<lambda>s. (the (sec_env s), sec_real s)) ss) = mset xs"
proof (induction rule: list_all2_induct)
  case (Cons x xs s ss)
  have "(the (sec_env s), sec_real s) = x"
    using Cons(1) unfolding guards_def session_secret_of_def by (metis option.sel prod.collapse secret.select_convs(2,4))
  then show ?case using Cons by simp
qed simp

section \<open>Claims\<close>

text \<open>Scanning the environment never fails and gives exactly one session secret per variable that
  looks sensitive, is not on the pass list, not exempt and not yet in the vault, carrying that
  variable's value behind a well-formed decoy; the secrets come sorted by name.\<close>

theorem detect_env_exact:
  assumes "crypto_ok cr"
  shows "\<exists>ss. detect_env cr env v pass = Some ss \<and> sorted (map sec_name ss)
    \<and> mset (map (\<lambda>s. (the (sec_env s), sec_real s)) ss) = mset (filter (env_guarded v pass) env)
    \<and> list_all (\<lambda>s. guards (the (sec_env s), sec_real s) s) ss"
proof -
  obtain ss where ss: "collect_env cr v pass env = Some ss" "list_all2 guards (filter (env_guarded v pass) env) ss"
    using collect_env_total[OF assms] by blast
  have g: "guards (the (sec_env s), sec_real s) s" if "s \<in> set ss" for s
  proof -
    obtain i where i: "i < length ss" "s = ss ! i" using \<open>s \<in> set ss\<close> by (auto simp: in_set_conv_nth)
    have gi: "guards (filter (env_guarded v pass) env ! i) s" using ss(2) i by (simp add: list_all2_conv_all_nth)
    then have "sec_env s = Some (fst (filter (env_guarded v pass) env ! i))" "sec_real s = snd (filter (env_guarded v pass) env ! i)"
      unfolding guards_def session_secret_of_def by (metis secret.select_convs(4), metis secret.select_convs(2))
    then show ?thesis using gi by simp
  qed
  have "mset (map (\<lambda>s. (the (sec_env s), sec_real s)) (sort_key sec_name ss)) = mset (filter (env_guarded v pass) env)"
    using guards_image[OF ss(2)] by (simp add: mset_map)
  then show ?thesis using ss(1) g by (intro exI[of _ "sort_key sec_name ss"]) (simp add: detect_env_def list_all_iff)
qed

lemma mset_single_list: "mset xs = mset [x] \<Longrightarrow> xs = [x]"
  by simp

theorem detect_env_exact_witness:
  "crypto_ok demo_crypto \<and> env_guarded \<lparr>secrets = []\<rparr> [] (''A_TOKEN'', ''ghp_0123456789'')
   \<and> (\<exists>ss. detect_env demo_crypto [(''A_TOKEN'', ''ghp_0123456789''), (''HOME'', ''/root'')] \<lparr>secrets = []\<rparr> [] = Some ss
        \<and> map sec_real ss = [''ghp_0123456789''])"
proof -
  have e: "env_guarded \<lparr>secrets = []\<rparr> [] (''A_TOKEN'', ''ghp_0123456789'')"
    and n: "\<not> env_guarded \<lparr>secrets = []\<rparr> [] (''HOME'', ''/root'')"
    by (simp_all add: env_guarded_def value_exempt_def starts_with_def name_sensitive_def NAME_FRAGMENTS_def
        to_ascii_uppercase_def ascii_upper_def is_ascii_lower_def Let_def)
  have f: "filter (env_guarded \<lparr>secrets = []\<rparr> []) [(''A_TOKEN'', ''ghp_0123456789''), (''HOME'', ''/root'')]
      = [(''A_TOKEN'', ''ghp_0123456789'')]" using e n by (simp only: filter.simps if_True if_False)
  obtain ss where d: "detect_env demo_crypto [(''A_TOKEN'', ''ghp_0123456789''), (''HOME'', ''/root'')] \<lparr>secrets = []\<rparr> [] = Some ss"
    and m: "mset (map (\<lambda>s. (the (sec_env s), sec_real s)) ss) = mset (filter (env_guarded \<lparr>secrets = []\<rparr> []) [(''A_TOKEN'', ''ghp_0123456789''), (''HOME'', ''/root'')])"
    using detect_env_exact[OF demo_crypto_ok] by blast
  from mset_single_list[OF m[unfolded f]]
  have "map (\<lambda>s. (the (sec_env s), sec_real s)) ss = [(''A_TOKEN'', ''ghp_0123456789'')]" .
  from arg_cong[OF this, of "map snd"] have "map sec_real ss = [''ghp_0123456789'']" by (simp add: o_def)
  with d e demo_crypto_ok show ?thesis by (intro conjI exI[of _ ss])
qed

end
