(* ===== verification/Stats.thy ===== *)
theory Stats
  imports Audit_Log Text_Ops Merge "HOL-Library.Product_Lexorder"
begin

text \<open>
  \<^verbatim>\<open>src/src/stats.rs\<close>: analytics over the audit log. Events are rolled up into hourly rows, a streamed
  request is moved to its model's row when its usage arrives, and the rows are cached together with the
  offset of the log that they cover. File offsets are naturals; counters are words that wrap; the local
  calendar is a parameter. A slice that cuts a character, which panics, is \<open>None\<close>.
\<close>

section \<open>Durations\<close>

definition DUR_BUCKETS :: nat where "DUR_BUCKETS = 22"
definition PENDING_CAP :: nat where "PENDING_CAP = 4096"
definition STATS_CACHE_VERSION :: u32 where "STATS_CACHE_VERSION = 2"
definition SCHEMA_VERSION :: u32 where "SCHEMA_VERSION = 1"

record dur_stat =
  ds_count :: u64
  ds_sum_ms :: u64
  ds_max_ms :: u64
  ds_buckets :: "u64 list"

definition dur_default :: dur_stat where
  "dur_default = \<lparr>ds_count = 0, ds_sum_ms = 0, ds_max_ms = 0, ds_buckets = []\<rparr>"

definition leading_zeros :: "u64 \<Rightarrow> nat" where
  "leading_zeros x = length (takeWhile (\<lambda>i. \<not> bit x i) (rev [0..<64]))"

definition dur_bucket :: "u64 \<Rightarrow> nat" where
  "dur_bucket ms = min (64 - leading_zeros ms) (DUR_BUCKETS - 1)"

definition dur_resized :: "dur_stat \<Rightarrow> u64 list" where
  "dur_resized d = (if length (ds_buckets d) \<noteq> DUR_BUCKETS then replicate DUR_BUCKETS 0 else ds_buckets d)"

definition dur_observe :: "u64 \<Rightarrow> dur_stat \<Rightarrow> dur_stat" where
  "dur_observe ms d = (let b = dur_resized d; i = dur_bucket ms in
     \<lparr>ds_count = ds_count d + 1, ds_sum_ms = ds_sum_ms d + ms, ds_max_ms = max (ds_max_ms d) ms,
      ds_buckets = b[i := b ! i + 1]\<rparr>)"

text \<open>The loop over the other's first \<open>DUR_BUCKETS\<close> buckets, where this one has exactly as many.\<close>

fun add_buckets :: "u64 list \<Rightarrow> u64 list \<Rightarrow> u64 list" where
  "add_buckets (x # xs) (y # ys) = (x + y) # add_buckets xs ys"
| "add_buckets xs ys = xs"

definition dur_merge :: "dur_stat \<Rightarrow> dur_stat \<Rightarrow> dur_stat" where
  "dur_merge d other = (if ds_count other = 0 then d else
     \<lparr>ds_count = ds_count d + ds_count other, ds_sum_ms = ds_sum_ms d + ds_sum_ms other,
      ds_max_ms = max (ds_max_ms d) (ds_max_ms other), ds_buckets = add_buckets (dur_resized d) (ds_buckets other)\<rparr>)"

definition avg_ms :: "dur_stat \<Rightarrow> u64 option" where
  "avg_ms d = (if ds_count d > 0 then Some (ds_sum_ms d div ds_count d) else None)"

definition div_ceil :: "u64 \<Rightarrow> u64 \<Rightarrow> u64" where
  "div_ceil a b = (if a mod b = 0 then a div b else a div b + 1)"

fun p95_from :: "u64 \<Rightarrow> u64 \<Rightarrow> u64 \<Rightarrow> nat \<Rightarrow> u64 list \<Rightarrow> u64" where
  "p95_from threshold mx cumulative i [] = mx"
| "p95_from threshold mx cumulative i (n # ns) =
     (if cumulative + n \<ge> threshold then min (if i = 0 then 0 else push_bit i 1 - 1) mx
      else p95_from threshold mx (cumulative + n) (i + 1) ns)"

definition p95_ms :: "dur_stat \<Rightarrow> u64 option" where
  "p95_ms d = (if ds_count d = 0 then None
     else Some (p95_from (div_ceil (ds_count d * 95) 100) (ds_max_ms d) 0 0 (ds_buckets d)))"

section \<open>Buckets\<close>

record bucket =
  bk_requests :: u64
  bk_allows :: u64
  bk_warns :: u64
  bk_denies :: u64
  bk_deny_policy :: u64
  bk_deny_tripwire :: u64
  bk_deny_dlp :: u64
  bk_deny_budget :: u64
  bk_tripwires :: u64
  bk_dlp_alerts :: u64
  bk_policy_tamper :: u64
  bk_policy_changes :: u64
  bk_input_tokens :: u64
  bk_output_tokens :: u64
  bk_cache_read_tokens :: u64
  bk_cache_write_tokens :: u64
  bk_cost_usd :: usd
  bk_ref_cost_usd :: usd
  bk_no_usage :: u64
  bk_bytes_up :: u64
  bk_bytes_down :: u64
  bk_dur :: dur_stat

definition bucket_default :: bucket where
  "bucket_default = \<lparr>bk_requests = 0, bk_allows = 0, bk_warns = 0, bk_denies = 0, bk_deny_policy = 0,
     bk_deny_tripwire = 0, bk_deny_dlp = 0, bk_deny_budget = 0, bk_tripwires = 0, bk_dlp_alerts = 0,
     bk_policy_tamper = 0, bk_policy_changes = 0, bk_input_tokens = 0, bk_output_tokens = 0,
     bk_cache_read_tokens = 0, bk_cache_write_tokens = 0, bk_cost_usd = 0, bk_ref_cost_usd = 0,
     bk_no_usage = 0, bk_bytes_up = 0, bk_bytes_down = 0, bk_dur = dur_default\<rparr>"

definition merge_bucket :: "bucket \<Rightarrow> bucket \<Rightarrow> bucket" where
  "merge_bucket x b = \<lparr>bk_requests = bk_requests b + bk_requests x, bk_allows = bk_allows b + bk_allows x,
     bk_warns = bk_warns b + bk_warns x, bk_denies = bk_denies b + bk_denies x,
     bk_deny_policy = bk_deny_policy b + bk_deny_policy x, bk_deny_tripwire = bk_deny_tripwire b + bk_deny_tripwire x,
     bk_deny_dlp = bk_deny_dlp b + bk_deny_dlp x, bk_deny_budget = bk_deny_budget b + bk_deny_budget x,
     bk_tripwires = bk_tripwires b + bk_tripwires x, bk_dlp_alerts = bk_dlp_alerts b + bk_dlp_alerts x,
     bk_policy_tamper = bk_policy_tamper b + bk_policy_tamper x,
     bk_policy_changes = bk_policy_changes b + bk_policy_changes x,
     bk_input_tokens = bk_input_tokens b + bk_input_tokens x,
     bk_output_tokens = bk_output_tokens b + bk_output_tokens x,
     bk_cache_read_tokens = bk_cache_read_tokens b + bk_cache_read_tokens x,
     bk_cache_write_tokens = bk_cache_write_tokens b + bk_cache_write_tokens x,
     bk_cost_usd = bk_cost_usd b + bk_cost_usd x, bk_ref_cost_usd = bk_ref_cost_usd b + bk_ref_cost_usd x,
     bk_no_usage = bk_no_usage b + bk_no_usage x, bk_bytes_up = bk_bytes_up b + bk_bytes_up x,
     bk_bytes_down = bk_bytes_down b + bk_bytes_down x, bk_dur = dur_merge (bk_dur b) (bk_dur x)\<rparr>"

section \<open>The aggregator\<close>

datatype row_key = RowKey (rk_hour: string) (rk_sid: string) (rk_host: string) (rk_model: string)

definition row_tuple :: "row_key \<Rightarrow> string \<times> string \<times> string \<times> string" where
  "row_tuple k = (rk_hour k, rk_sid k, rk_host k, rk_model k)"

lemma row_tuple_inj: "row_tuple a = row_tuple b \<Longrightarrow> a = b"
  by (cases a; cases b) (simp add: row_tuple_def)

text \<open>The derived order compares the fields in turn.\<close>

instantiation row_key :: linorder
begin

definition less_eq_row_key :: "row_key \<Rightarrow> row_key \<Rightarrow> bool" where
  "a \<le> b \<longleftrightarrow> row_tuple a \<le> row_tuple b"

definition less_row_key :: "row_key \<Rightarrow> row_key \<Rightarrow> bool" where
  "a < b \<longleftrightarrow> row_tuple a < row_tuple b"

instance
  by standard (auto simp: less_eq_row_key_def less_row_key_def dest: row_tuple_inj)

end

record session_info =
  si_label :: string
  si_started :: string
  si_pid :: u32

definition session_info_default :: session_info where
  "session_info_default = \<lparr>si_label = [], si_started = [], si_pid = 0\<rparr>"

record pending_req =
  pr_hour :: string
  pr_sid :: string
  pr_host :: string
  pr_bytes_up :: u64
  pr_warn :: bool

record stats_cache =
  sc_version :: u32
  sc_offset :: nat
  sc_last_seq :: "u64 option"
  sc_last_hash :: string
  sc_integrity :: "string option"
  sc_rows :: "(row_key \<times> bucket) list"
  sc_sessions :: "session_info btmap"
  sc_pending :: "(u64, pending_req) ordmap"

definition stats_cache_default :: stats_cache where
  "stats_cache_default = \<lparr>sc_version = STATS_CACHE_VERSION, sc_offset = 0, sc_last_seq = None, sc_last_hash = [],
     sc_integrity = None, sc_rows = [], sc_sessions = [], sc_pending = []\<rparr>"

record aggregator =
  ag_rows :: "(row_key, bucket) ordmap"
  ag_sessions :: "session_info btmap"
  ag_pending :: "(u64, pending_req) ordmap"
  ag_integrity :: "string option"
  ag_offset :: nat
  ag_last_seq :: "u64 option"
  ag_last_hash :: string

definition from_cache :: "stats_cache \<Rightarrow> aggregator" where
  "from_cache c = \<lparr>ag_rows = fold (\<lambda>(k, b). btm_insert k b) (sc_rows c) [], ag_sessions = sc_sessions c,
     ag_pending = sc_pending c, ag_integrity = sc_integrity c, ag_offset = sc_offset c,
     ag_last_seq = sc_last_seq c, ag_last_hash = sc_last_hash c\<rparr>"

definition to_cache :: "aggregator \<Rightarrow> stats_cache" where
  "to_cache a = \<lparr>sc_version = STATS_CACHE_VERSION, sc_offset = ag_offset a, sc_last_seq = ag_last_seq a,
     sc_last_hash = ag_last_hash a, sc_integrity = ag_integrity a, sc_rows = ag_rows a,
     sc_sessions = ag_sessions a, sc_pending = ag_pending a\<rparr>"

definition flag :: "string \<Rightarrow> aggregator \<Rightarrow> aggregator" where
  "flag detail a = (if ag_integrity a = None then a\<lparr>ag_integrity := Some detail\<rparr> else a)"

definition with_bucket :: "string \<Rightarrow> string \<Rightarrow> string \<Rightarrow> string \<Rightarrow> (bucket \<Rightarrow> bucket) \<Rightarrow> aggregator \<Rightarrow> aggregator" where
  "with_bucket hour sid host model f a = a\<lparr>ag_rows := btm_upsert bucket_default (RowKey hour sid host model) f (ag_rows a)\<rparr>"

definition hour_of :: "string \<Rightarrow> string option" where
  "hour_of ts = (if length ts \<ge> 13 \<and> ts ! 10 = CHR ''T'' then (if is_char_boundary ts 13 then Some (take 13 ts) else None)
     else Some ts)"

definition measure_dur :: "u64 option \<Rightarrow> bucket \<Rightarrow> bucket" where
  "measure_dur ms b = (case ms of None \<Rightarrow> b | Some x \<Rightarrow> b\<lparr>bk_dur := dur_observe x (bk_dur b)\<rparr>)"

definition add_usage :: "usage_rec \<Rightarrow> bucket \<Rightarrow> bucket" where
  "add_usage u b = b\<lparr>bk_input_tokens := bk_input_tokens b + ur_input u, bk_output_tokens := bk_output_tokens b + ur_output u,
     bk_cache_read_tokens := bk_cache_read_tokens b + ur_cache_read u,
     bk_cache_write_tokens := bk_cache_write_tokens b + ur_cache_write u,
     bk_cost_usd := bk_cost_usd b + ur_cost_usd u, bk_ref_cost_usd := bk_ref_cost_usd b + ur_ref_cost_usd u\<rparr>"

definition bucket_count_request :: "bool \<Rightarrow> bucket \<Rightarrow> bucket" where
  "bucket_count_request warn b = (let b1 = b\<lparr>bk_requests := bk_requests b + 1\<rparr> in
     if warn then b1\<lparr>bk_warns := bk_warns b1 + 1\<rparr> else b1\<lparr>bk_allows := bk_allows b1 + 1\<rparr>)"

definition bucket_uncount_request :: "bool \<Rightarrow> bucket \<Rightarrow> bucket" where
  "bucket_uncount_request warn b = (let b1 = b\<lparr>bk_requests := saturating_sub (bk_requests b) 1\<rparr> in
     if warn then b1\<lparr>bk_warns := saturating_sub (bk_warns b1) 1\<rparr> else b1\<lparr>bk_allows := saturating_sub (bk_allows b1) 1\<rparr>)"

definition usage_model :: "usage_rec option \<Rightarrow> string" where
  "usage_model u = (case u of None \<Rightarrow> [] | Some x \<Rightarrow> ur_model x)"

function prune_pending :: "(u64, pending_req) ordmap \<Rightarrow> (u64, pending_req) ordmap" where
  "prune_pending m = (if length m > PENDING_CAP then prune_pending (tl m) else m)"
  by pat_completeness auto
termination
  by (relation "measure length") (auto simp: PENDING_CAP_def)

declare prune_pending.simps [simp del]

definition forward_bucket :: "audit_event \<Rightarrow> bucket \<Rightarrow> bucket" where
  "forward_bucket ev b =
     (let b1 = bucket_count_request (ev_action ev = ''warn'') b;
          b2 = b1\<lparr>bk_bytes_up := bk_bytes_up b1 + ev_bytes_up ev, bk_bytes_down := bk_bytes_down b1 + ev_bytes_down ev\<rparr>;
          b3 = measure_dur (ev_dur_ms ev) b2
      in case ev_usage ev of Some u \<Rightarrow> add_usage u b3 | None \<Rightarrow> b3\<lparr>bk_no_usage := bk_no_usage b3 + 1\<rparr>)"

definition pending_of :: "audit_event \<Rightarrow> string \<Rightarrow> pending_req" where
  "pending_of ev hour = \<lparr>pr_hour = hour, pr_sid = ev_sid ev, pr_host = ev_host ev, pr_bytes_up = ev_bytes_up ev,
     pr_warn = (ev_action ev = ''warn'')\<rparr>"

definition apply_forward :: "audit_event \<Rightarrow> string \<Rightarrow> aggregator \<Rightarrow> aggregator" where
  "apply_forward ev hour a =
     (let a1 = with_bucket hour (ev_sid ev) (ev_host ev) (usage_model (ev_usage ev)) (forward_bucket ev) a
      in if ev_usage ev = None \<and> ev_dur_ms ev = None
         then a1\<lparr>ag_pending := prune_pending (btm_insert (ev_seq ev) (pending_of ev hour) (ag_pending a1))\<rparr>
         else a1)"

definition deny_bucket :: "audit_event \<Rightarrow> bucket \<Rightarrow> bucket" where
  "deny_bucket ev b =
     (let b1 = measure_dur (ev_dur_ms ev) (b\<lparr>bk_requests := bk_requests b + 1, bk_denies := bk_denies b + 1,
           bk_bytes_up := bk_bytes_up b + ev_bytes_up ev\<rparr>)
      in if ev_tripwires ev \<noteq> [] \<or> starts_with (ev_note ev) ''tripwire:''
         then b1\<lparr>bk_deny_tripwire := bk_deny_tripwire b1 + 1, bk_tripwires := bk_tripwires b1 + 1\<rparr>
         else if starts_with (ev_note ev) ''dlp:'' then b1\<lparr>bk_deny_dlp := bk_deny_dlp b1 + 1\<rparr>
         else if starts_with (ev_note ev) ''budget'' then b1\<lparr>bk_deny_budget := bk_deny_budget b1 + 1\<rparr>
         else b1\<lparr>bk_deny_policy := bk_deny_policy b1 + 1\<rparr>)"

definition apply_deny :: "audit_event \<Rightarrow> string \<Rightarrow> aggregator \<Rightarrow> aggregator" where
  "apply_deny ev hour a = with_bucket hour (ev_sid ev) (ev_host ev) [] (deny_bucket ev) a"

definition apply_alert :: "audit_event \<Rightarrow> string \<Rightarrow> aggregator \<Rightarrow> aggregator" where
  "apply_alert ev hour a =
     (if ev_tripwires ev \<noteq> [] then with_bucket hour (ev_sid ev) (ev_host ev) [] (\<lambda>b. b\<lparr>bk_tripwires := bk_tripwires b + 1\<rparr>) a
      else if starts_with (ev_note ev) ''dlp:''
      then with_bucket hour (ev_sid ev) (ev_host ev) [] (\<lambda>b. b\<lparr>bk_dlp_alerts := bk_dlp_alerts b + 1\<rparr>) a
      else a)"

definition take_pending :: "u64 option \<Rightarrow> aggregator \<Rightarrow> pending_req option \<times> aggregator" where
  "take_pending req_seq a = (case req_seq of
     None \<Rightarrow> (None, a)
   | Some s \<Rightarrow> (btm_get (ag_pending a) s, a\<lparr>ag_pending := btm_remove s (ag_pending a)\<rparr>))"

text \<open>A request leaves the cell where it waited, and settles in its model's.\<close>

definition settle_from :: "pending_req \<Rightarrow> bucket \<Rightarrow> bucket" where
  "settle_from p b = (let b1 = bucket_uncount_request (pr_warn p) b
     in b1\<lparr>bk_no_usage := saturating_sub (bk_no_usage b1) 1, bk_bytes_up := saturating_sub (bk_bytes_up b1) (pr_bytes_up p)\<rparr>)"

definition settle_to :: "pending_req \<Rightarrow> usage_rec \<Rightarrow> audit_event \<Rightarrow> bucket \<Rightarrow> bucket" where
  "settle_to p u ev b =
     (let b1 = bucket_count_request (pr_warn p) b;
          b2 = add_usage u (b1\<lparr>bk_bytes_up := bk_bytes_up b1 + pr_bytes_up p\<rparr>)
      in measure_dur (ev_dur_ms ev) (b2\<lparr>bk_bytes_down := bk_bytes_down b2 + ev_bytes_down ev\<rparr>))"

definition add_down :: "audit_event \<Rightarrow> bucket \<Rightarrow> bucket" where
  "add_down ev b = b\<lparr>bk_bytes_down := bk_bytes_down b + ev_bytes_down ev\<rparr>"

definition apply_usage :: "audit_event \<Rightarrow> string \<Rightarrow> aggregator \<Rightarrow> aggregator" where
  "apply_usage ev own_hour a0 = (case take_pending (ev_req_seq ev) a0 of (base, a) \<Rightarrow>
     (case (base, ev_usage ev) of
        (Some p, Some u) \<Rightarrow> with_bucket (pr_hour p) (pr_sid p) (pr_host p) (ur_model u) (settle_to p u ev)
            (with_bucket (pr_hour p) (pr_sid p) (pr_host p) [] (settle_from p) a)
      | (Some p, None) \<Rightarrow> with_bucket (pr_hour p) (pr_sid p) (pr_host p) [] (\<lambda>b. measure_dur (ev_dur_ms ev) (add_down ev b)) a
      | (None, Some u) \<Rightarrow> with_bucket own_hour (ev_sid ev) (ev_host ev) (ur_model u) (\<lambda>b. add_down ev (add_usage u b)) a
      | (None, None) \<Rightarrow>
          if ev_bytes_down ev > 0 then with_bucket own_hour (ev_sid ev) (ev_host ev) [] (add_down ev) a else a))"

definition apply_at :: "audit_event \<Rightarrow> string \<Rightarrow> aggregator \<Rightarrow> aggregator" where
  "apply_at ev hour a =
     (if ev_action ev = ''session'' then
        (if ev_sid ev \<noteq> [] then a\<lparr>ag_sessions := btm_insert (ev_sid ev)
            \<lparr>si_label = ev_note ev, si_started = ev_ts ev, si_pid = ev_pid ev\<rparr> (ag_sessions a)\<rparr> else a)
      else if ev_action ev = ''allow'' \<or> ev_action ev = ''warn'' then apply_forward ev hour a
      else if ev_action ev = ''deny'' then apply_deny ev hour a
      else if ev_action ev = ''alert'' then apply_alert ev hour a
      else if ev_action ev = ''tamper'' then
        with_bucket hour (ev_sid ev) (ev_host ev) [] (\<lambda>b. b\<lparr>bk_policy_tamper := bk_policy_tamper b + 1\<rparr>) a
      else if ev_action ev = ''policy'' then
        with_bucket hour (ev_sid ev) (ev_host ev) [] (\<lambda>b. b\<lparr>bk_policy_changes := bk_policy_changes b + 1\<rparr>) a
      else if ev_action ev = ''usage'' then apply_usage ev hour a
      else a)"

definition apply_event :: "audit_event \<Rightarrow> aggregator \<Rightarrow> aggregator option" where
  "apply_event ev a = map_option (\<lambda>hour. apply_at ev hour a) (hour_of (ev_ts ev))"

definition ingest_line :: "crypto \<Rightarrow> audit_codec \<Rightarrow> string \<Rightarrow> aggregator \<Rightarrow> aggregator option" where
  "ingest_line cr ac line a = (case line_event ac line of
     None \<Rightarrow> Some (flag ''unparseable audit line'' a)
   | Some ev \<Rightarrow>
       (let a1 = (if ag_integrity a = None \<and> \<not> verify_link cr ac (if ag_last_hash a = [] then ZERO_HASH else ag_last_hash a) ev
                  then flag (''audit chain broken at seq '' @ show_nat (unat (ev_seq ev)) @ '' (tampering or truncation)'') a else a)
        in apply_event ev (a1\<lparr>ag_last_hash := ev_hash ev, ag_last_seq := Some (ev_seq ev)\<rparr>)))"

section \<open>Catching up with the log\<close>

datatype stats_error = StatsPanicked | LogNotText | LogNotOpened | CacheNotSaved

text \<open>The reading loop from the current offset. A line is a piece up to a newline; the piece after the last
  one is left for the next query, but \<open>read_line\<close> fails when it is not text.\<close>

fun next_line :: "bytes \<Rightarrow> (bytes \<times> bytes) option" where
  "next_line [] = None"
| "next_line (c # cs) = (if c = CHR 0x0A then Some ([c], cs) else map_option (map_prod (Cons c) id) (next_line cs))"

lemma next_line_length: "next_line s = Some (l, r) \<Longrightarrow> length s = length l + length r \<and> l \<noteq> []"
  by (induction s arbitrary: l r) (auto split: if_splits)

function ingest_log :: "crypto \<Rightarrow> audit_codec \<Rightarrow> bytes \<Rightarrow> aggregator \<Rightarrow> stats_error + aggregator" where
  "ingest_log cr ac s a = (case next_line s of
     None \<Rightarrow> if utf8_valid s then Inr a else Inl LogNotText
   | Some (line, rest) \<Rightarrow>
       if \<not> utf8_valid line then Inl LogNotText
       else (let a1 = a\<lparr>ag_offset := ag_offset a + length line\<rparr>; trimmed = str_trim line in
         if trimmed = [] then ingest_log cr ac rest a1
         else (case ingest_line cr ac trimmed a1 of
             None \<Rightarrow> Inl StatsPanicked
           | Some a2 \<Rightarrow> ingest_log cr ac rest a2)))"
  by pat_completeness auto
termination
  by (relation "measure (\<lambda>(cr, ac, s, a). length s)") (auto dest: next_line_length)

declare ingest_log.simps [simp del]

record stats_io =
  st_opens :: bool
  st_saves :: bool

definition usable_cache :: "stats_cache option \<Rightarrow> stats_cache" where
  "usable_cache c = (case c of None \<Rightarrow> stats_cache_default
     | Some x \<Rightarrow> if sc_version x = STATS_CACHE_VERSION then x else stats_cache_default)"

text \<open>\<open>load_and_catch_up\<close>: the cache file after it, and the aggregator.\<close>

definition catch_up :: "stats_io \<Rightarrow> crypto \<Rightarrow> audit_codec \<Rightarrow> bytes option \<Rightarrow> stats_cache option
    \<Rightarrow> stats_cache option \<times> (stats_error + aggregator)" where
  "catch_up io cr ac lg cf =
     (let cache = usable_cache cf;
          a = from_cache (if log_len lg < sc_offset cache then stats_cache_default else cache) in
      if log_len lg > ag_offset a then
        (if \<not> st_opens io then (cf, Inl LogNotOpened)
         else (case ingest_log cr ac (drop (ag_offset a) (case lg of None \<Rightarrow> [] | Some f \<Rightarrow> f)) a of
             Inl e \<Rightarrow> (cf, Inl e)
           | Inr a1 \<Rightarrow> if st_saves io then (Some (to_cache a1), Inr a1) else (cf, Inl CacheNotSaved)))
      else (cf, Inr a))"

section \<open>Windows\<close>

text \<open>The local calendar: days are numbered from 1970-01-01, a Thursday.\<close>

record calendar =
  cal_first_of_month :: "int \<Rightarrow> int"
  cal_midnight_hour :: "int \<Rightarrow> string"
  cal_local_day :: "string \<Rightarrow> string"

datatype window = Today | Week | Month | AllTime | Range int int

definition window_kind :: "window \<Rightarrow> string" where
  "window_kind wn = (case wn of Today \<Rightarrow> ''today'' | Week \<Rightarrow> ''week'' | Month \<Rightarrow> ''month'' | AllTime \<Rightarrow> ''all'' | Range _ _ \<Rightarrow> ''range'')"

definition days_from_monday :: "int \<Rightarrow> int" where
  "days_from_monday day = (day + 3) mod 7"

definition window_bounds :: "calendar \<Rightarrow> int \<Rightarrow> window \<Rightarrow> string option \<times> string option" where
  "window_bounds cal today wn =
     (let keys = (\<lambda>from to. (Some (cal_midnight_hour cal from), Some (cal_midnight_hour cal to))) in
      case wn of
        AllTime \<Rightarrow> (None, None)
      | Today \<Rightarrow> keys today (today + 1)
      | Week \<Rightarrow> keys (today - days_from_monday today) (today + 1)
      | Month \<Rightarrow> keys (cal_first_of_month cal today) (today + 1)
      | Range since until \<Rightarrow> keys since (until + 1))"

definition in_window :: "string option \<times> string option \<Rightarrow> string \<Rightarrow> bool" where
  "in_window b hour \<longleftrightarrow> (case fst b of None \<Rightarrow> True | Some f \<Rightarrow> f \<le> hour) \<and> (case snd b of None \<Rightarrow> True | Some t \<Rightarrow> hour < t)"

section \<open>The report\<close>

record denies_out =
  dn_total :: u64
  dn_policy :: u64
  dn_tripwire :: u64
  dn_dlp :: u64
  dn_budget :: u64

record tokens_out =
  tk_input :: u64
  tk_output :: u64
  tk_cache_read :: u64
  tk_cache_write :: u64
  tk_total :: u64

record dur_out =
  du_avg :: u64
  du_p95 :: u64
  du_max :: u64
  du_measured :: u64

record bucket_out =
  bo_requests :: u64
  bo_allows :: u64
  bo_warns :: u64
  bo_denies :: denies_out
  bo_tripwires :: u64
  bo_dlp_alerts :: u64
  bo_policy_tamper :: u64
  bo_policy_changes :: u64
  bo_tokens :: tokens_out
  bo_cache_hit_ratio :: "real option"
  bo_cost_usd :: usd
  bo_plan_absorbed_usd :: usd
  bo_no_usage_requests :: u64
  bo_bytes_up :: u64
  bo_bytes_down :: u64
  bo_duration_ms :: "dur_out option"

definition from_bucket :: "bucket \<Rightarrow> bucket_out" where
  "from_bucket b = (let context = bk_input_tokens b + bk_cache_read_tokens b in
     \<lparr>bo_requests = bk_requests b, bo_allows = bk_allows b, bo_warns = bk_warns b,
      bo_denies = \<lparr>dn_total = bk_denies b, dn_policy = bk_deny_policy b, dn_tripwire = bk_deny_tripwire b,
        dn_dlp = bk_deny_dlp b, dn_budget = bk_deny_budget b\<rparr>,
      bo_tripwires = bk_tripwires b, bo_dlp_alerts = bk_dlp_alerts b, bo_policy_tamper = bk_policy_tamper b,
      bo_policy_changes = bk_policy_changes b,
      bo_tokens = \<lparr>tk_input = bk_input_tokens b, tk_output = bk_output_tokens b, tk_cache_read = bk_cache_read_tokens b,
        tk_cache_write = bk_cache_write_tokens b,
        tk_total = bk_input_tokens b + bk_output_tokens b + bk_cache_read_tokens b + bk_cache_write_tokens b\<rparr>,
      bo_cache_hit_ratio = (if context > 0 then Some (real (unat (bk_cache_read_tokens b)) / real (unat context)) else None),
      bo_cost_usd = bk_cost_usd b, bo_plan_absorbed_usd = bk_ref_cost_usd b, bo_no_usage_requests = bk_no_usage b,
      bo_bytes_up = bk_bytes_up b, bo_bytes_down = bk_bytes_down b,
      bo_duration_ms = map_option (\<lambda>avg. \<lparr>du_avg = avg, du_p95 = (case p95_ms (bk_dur b) of Some p \<Rightarrow> p | None \<Rightarrow> 0),
        du_max = ds_max_ms (bk_dur b), du_measured = ds_count (bk_dur b)\<rparr>) (avg_ms (bk_dur b))\<rparr>)"

definition alert_count :: "bucket_out \<Rightarrow> u64" where
  "alert_count b = dn_total (bo_denies b) + bo_dlp_alerts b + bo_policy_tamper b + bo_warns b
     + saturating_sub (bo_tripwires b) (dn_tripwire (bo_denies b))"

record named_out =
  no_name :: string
  no_stats :: bucket_out

record session_out =
  so_sid :: string
  so_label :: string
  so_started :: string
  so_pid :: u32
  so_stats :: bucket_out

record report =
  rp_schema :: u32
  rp_window :: "string \<times> string option \<times> string option"
  rp_integrity :: "string option"
  rp_totals :: bucket_out
  rp_by_session :: "session_out list"
  rp_by_model :: "named_out list"
  rp_by_host :: "named_out list"
  rp_by_day :: "named_out list"

definition truncated_log :: "(u64 \<times> string) option \<Rightarrow> aggregator \<Rightarrow> string option" where
  "truncated_log anchor a = (case ag_integrity a of
     Some x \<Rightarrow> Some x
   | None \<Rightarrow>
       (case anchor of
          None \<Rightarrow> None
        | Some (anchor_seq, _) \<Rightarrow>
            if (case ag_last_seq a of None \<Rightarrow> True | Some s \<Rightarrow> s < anchor_seq)
            then Some (''audit log truncated: head anchor expects seq '' @ show_nat (unat anchor_seq) @ '' but log ends at ''
              @ (case ag_last_seq a of None \<Rightarrow> ''empty'' | Some s \<Rightarrow> show_nat (unat s)))
            else None))"

text \<open>One breakdown: the rows that have a name, merged by name.\<close>

definition breakdown :: "(row_key \<Rightarrow> bucket \<Rightarrow> string option) \<Rightarrow> (row_key \<times> bucket) list \<Rightarrow> bucket btmap" where
  "breakdown name rows = fold (\<lambda>(k, b) m. case name k b of None \<Rightarrow> m
     | Some n \<Rightarrow> btm_upsert bucket_default n (merge_bucket b) m) rows []"

definition session_name :: "row_key \<Rightarrow> bucket \<Rightarrow> string option" where
  "session_name k b = (if rk_sid k \<noteq> [] \<or> bk_requests b > 0 \<or> bk_bytes_up b > 0 then Some (rk_sid k) else None)"

definition model_name :: "row_key \<Rightarrow> bucket \<Rightarrow> string option" where
  "model_name k b = (if rk_model k \<noteq> [] then Some (rk_model k)
     else if bk_requests b > 0 \<or> bk_bytes_up b > 0 \<or> bk_bytes_down b > 0 then Some ''(no usage data)'' else None)"

definition host_name :: "row_key \<Rightarrow> bucket \<Rightarrow> string option" where
  "host_name k b = Some (rk_host k)"

definition day_name :: "calendar \<Rightarrow> row_key \<Rightarrow> bucket \<Rightarrow> string option" where
  "day_name cal k b = Some (cal_local_day cal (rk_hour k))"

text \<open>Sorting by descending cost, descending requests and name; the costs are totally ordered.\<close>

definition cost_order :: "bucket_out \<Rightarrow> real \<times> int" where
  "cost_order s = (- bo_cost_usd s, - uint (bo_requests s))"

definition named :: "bool \<Rightarrow> bucket btmap \<Rightarrow> named_out list" where
  "named by_cost m =
     (let v = map (\<lambda>(n, b). \<lparr>no_name = n, no_stats = from_bucket b\<rparr>) m
      in if by_cost then sort_key (\<lambda>x. (cost_order (no_stats x), no_name x)) v else v)"

definition session_rows :: "session_info btmap \<Rightarrow> bucket btmap \<Rightarrow> session_out list" where
  "session_rows infos m = sort_key (\<lambda>x. (cost_order (so_stats x), so_sid x)) (map (\<lambda>(sid, b).
     let info = (case btm_get infos sid of Some i \<Rightarrow> i | None \<Rightarrow> session_info_default) in
     \<lparr>so_sid = sid,
      so_label = (if si_label info \<noteq> [] then si_label info
        else if sid = [] then ''(before session tracking)'' else ''(unlabeled)''),
      so_started = si_started info, so_pid = si_pid info, so_stats = from_bucket b\<rparr>) m)"

definition window_rows :: "string option \<times> string option \<Rightarrow> aggregator \<Rightarrow> (row_key \<times> bucket) list" where
  "window_rows bounds a = filter (\<lambda>(k, _). in_window bounds (rk_hour k)) (ag_rows a)"

definition totals_of :: "(row_key \<times> bucket) list \<Rightarrow> bucket" where
  "totals_of rows = fold (\<lambda>(_, b) t. merge_bucket b t) rows bucket_default"

definition make_report :: "calendar \<Rightarrow> int \<Rightarrow> window \<Rightarrow> (u64 \<times> string) option \<Rightarrow> aggregator \<Rightarrow> report" where
  "make_report cal today wn anchor a =
     (let bounds = window_bounds cal today wn; rows = window_rows bounds a in
      \<lparr>rp_schema = SCHEMA_VERSION, rp_window = (window_kind wn, bounds), rp_integrity = truncated_log anchor a,
       rp_totals = from_bucket (totals_of rows),
       rp_by_session = session_rows (ag_sessions a) (breakdown session_name rows),
       rp_by_model = named True (breakdown model_name rows),
       rp_by_host = named True (breakdown host_name rows),
       rp_by_day = named False (breakdown (day_name cal) rows)\<rparr>)"

definition stats_query :: "stats_io \<Rightarrow> crypto \<Rightarrow> audit_codec \<Rightarrow> calendar \<Rightarrow> int \<Rightarrow> window \<Rightarrow> audit_disk \<Rightarrow> stats_cache option
    \<Rightarrow> stats_cache option \<times> (stats_error + report)" where
  "stats_query io cr ac cal today wn d cf = (case catch_up io cr ac (dk_log d) cf of
     (cf', Inl e) \<Rightarrow> (cf', Inl e)
   | (cf', Inr a) \<Rightarrow> (cf', Inr (make_report cal today wn (dk_head d) a)))"

section \<open>Rendering\<close>

definition fmt_tokens :: "u64 \<Rightarrow> string" where
  "fmt_tokens w = (let n = real (unat w) in
     if n < 10 ^ 3 then fmt_fixed 0 n
     else if n < 10 ^ 6 then fmt_fixed 1 (n / 10 ^ 3) @ ''k''
     else if n < 10 ^ 9 then fmt_fixed 1 (n / 10 ^ 6) @ ''M''
     else fmt_fixed 2 (n / 10 ^ 9) @ ''B'')"

definition fmt_bytes :: "u64 \<Rightarrow> string" where
  "fmt_bytes w = (let n = real (unat w) in
     if n < 10 ^ 3 then fmt_fixed 0 n @ '' B''
     else if n < 10 ^ 6 then fmt_fixed 1 (n / 10 ^ 3) @ '' KB''
     else if n < 10 ^ 9 then fmt_fixed 1 (n / 10 ^ 6) @ '' MB''
     else fmt_fixed 2 (n / 10 ^ 9) @ '' GB'')"

definition fmt_ms :: "u64 \<Rightarrow> string" where
  "fmt_ms ms = (if ms < 1000 then show_nat (unat ms) @ ''ms'' else fmt_fixed 1 (real (unat ms) / 1000) @ ''s'')"

definition show_u64 :: "u64 \<Rightarrow> string" where
  "show_u64 x = show_nat (unat x)"

definition render_line :: "report \<Rightarrow> string" where
  "render_line r = (let t = rp_totals r in
     (case rp_integrity r of None \<Rightarrow> [] | Some _ \<Rightarrow> ''[audit integrity FAILED] '')
     @ fmt_tokens (tk_total (bo_tokens t)) @ '' tok  $'' @ fmt_fixed 2 (bo_cost_usd t) @ ''  ''
     @ show_u64 (alert_count t) @ '' alerts'')"

abbreviation eol :: string where "eol \<equiv> [CHR 0x0A]"

text \<open>Padding counts characters, while the width of the name column counts bytes.\<close>

definition char_count :: "string \<Rightarrow> nat" where
  "char_count s = length (filter (\<lambda>c. \<not> is_utf8_cont c) s)"

definition pad_right :: "nat \<Rightarrow> string \<Rightarrow> string" where
  "pad_right w s = s @ replicate (w - char_count s) (CHR '' '')"

definition pad_left :: "nat \<Rightarrow> string \<Rightarrow> string" where
  "pad_left w s = replicate (w - char_count s) (CHR '' '') @ s"

datatype breakdown_kind = BySession | ByModel | ByHost | ByDay

definition breakdown_rows :: "report \<Rightarrow> breakdown_kind \<Rightarrow> string \<times> (string \<times> bucket_out) list" where
  "breakdown_rows r by_kind = (let plain = map (\<lambda>n. (no_name n, no_stats n)) in
     case by_kind of
       BySession \<Rightarrow> (''By session:'', map (\<lambda>s. (so_label s @ (if so_started s = [] then [] else ''  ['' @ so_started s @ '']''), so_stats s))
         (rp_by_session r))
     | ByModel \<Rightarrow> (''By model:'', plain (rp_by_model r))
     | ByHost \<Rightarrow> (''By host:'', plain (rp_by_host r))
     | ByDay \<Rightarrow> (''By day:'', plain (rp_by_day r)))"

definition cached_chip :: "bucket_out \<Rightarrow> string" where
  "cached_chip s = (case bo_cache_hit_ratio s of Some x \<Rightarrow> ''  cached '' @ fmt_fixed 0 (x * 100) @ ''%'' | None \<Rightarrow> [])"

definition render_row :: "nat \<Rightarrow> string \<times> bucket_out \<Rightarrow> string" where
  "render_row name_w p = (case p of (name, s) \<Rightarrow>
     let alerts = alert_count s; tk = bo_tokens s;
         plan = (if bo_plan_absorbed_usd s > 0 then ''  plan-absorbed ~$'' @ fmt_fixed 4 (bo_plan_absorbed_usd s) else []);
         chip = (if alerts > 0 \<and> bo_warns s > 0 then ''  ['' @ show_u64 alerts @ '' alerts, '' @ show_u64 (bo_warns s) @ '' warned]''
           else if alerts > 0 then ''  ['' @ show_u64 alerts @ '' alerts]'' else [])
     in ''  '' @ pad_right name_w name @ ''  '' @ pad_left 5 (show_u64 (bo_requests s)) @ '' req  in ''
        @ pad_left 8 (fmt_tokens (tk_input tk + tk_cache_read tk + tk_cache_write tk)) @ ''  out ''
        @ pad_left 8 (fmt_tokens (tk_output tk)) @ ''  $'' @ fmt_fixed 4 (bo_cost_usd s) @ plan @ cached_chip s @ chip @ eol)"

definition render_summary :: "report \<Rightarrow> string" where
  "render_summary r = (let t = rp_totals r; d = bo_denies t; tk = bo_tokens t in
     (case rp_integrity r of None \<Rightarrow> []
      | Some detail \<Rightarrow> ''AUDIT INTEGRITY FAILED: '' @ detail @ eol @ ''The numbers below cover what could still be read.'' @ eol @ eol)
     @ ''Window: '' @ (case rp_window r of (kind, Some f, Some t) \<Rightarrow> kind @ '' ('' @ f @ '' to '' @ t @ '' UTC)'' | (kind, _) \<Rightarrow> kind) @ eol
     @ ''Requests: '' @ show_u64 (bo_requests t) @ '' ('' @ show_u64 (bo_allows t) @ '' allowed, '' @ show_u64 (bo_warns t) @ '' warned, ''
     @ show_u64 (dn_total d) @ '' denied: '' @ show_u64 (dn_policy d) @ '' policy, '' @ show_u64 (dn_tripwire d) @ '' tripwire, ''
     @ show_u64 (dn_dlp d) @ '' dlp, '' @ show_u64 (dn_budget d) @ '' budget)'' @ eol
     @ ''Security: '' @ show_u64 (bo_tripwires t) @ '' tripwire hits, '' @ show_u64 (bo_dlp_alerts t) @ '' DLP alerts, ''
     @ show_u64 (bo_policy_tamper t) @ '' policy tampers'' @ eol
     @ (if bo_policy_changes t > 0 then ''Policy: '' @ show_u64 (bo_policy_changes t) @ '' change(s) through decoyrail surfaces'' @ eol else [])
     @ ''Tokens: in '' @ fmt_tokens (tk_input tk) @ ''  out '' @ fmt_tokens (tk_output tk) @ ''  cache read '' @ fmt_tokens (tk_cache_read tk)
     @ ''  cache write '' @ fmt_tokens (tk_cache_write tk) @ cached_chip t @ eol
     @ ''Spend: $'' @ fmt_fixed 4 (bo_cost_usd t)
     @ (if bo_no_usage_requests t > 0 then ''  ('' @ show_u64 (bo_no_usage_requests t) @ '' requests with no provider usage)'' else []) @ eol
     @ (if bo_plan_absorbed_usd t > 0
        then ''Plan-absorbed: ~$'' @ fmt_fixed 4 (bo_plan_absorbed_usd t) @ '' API-equivalent (subscription traffic, not billed)'' @ eol else [])
     @ ''Bytes: up '' @ fmt_bytes (bo_bytes_up t) @ ''  down '' @ fmt_bytes (bo_bytes_down t) @ eol
     @ (case bo_duration_ms t of
          Some x \<Rightarrow> ''Latency: avg '' @ fmt_ms (du_avg x) @ ''  p95 ~'' @ fmt_ms (du_p95 x) @ ''  max '' @ fmt_ms (du_max x) @ ''  (''
            @ show_u64 (du_measured x) @ '' measured)'' @ eol
        | None \<Rightarrow> ''Latency: (no measured requests)'' @ eol))"

definition render_human :: "report \<Rightarrow> breakdown_kind \<Rightarrow> string" where
  "render_human r by_kind = (case breakdown_rows r by_kind of (title, rows) \<Rightarrow>
     if rows = [] then render_summary r @ eol @ title @ '' (nothing in this window)'' @ eol
     else render_summary r @ eol @ title @ eol
       @ concat (map (render_row (max (foldr max (map (length \<circ> fst) rows) 0) 8)) rows))"

end
