(* ===== verification/Stats_Props.thy ===== *)
theory Stats_Props
  imports Stats "HOL-Library.Multiset"
begin

text \<open>What a report of \<open>src/stats.rs\<close> is worth. First that incremental queries equal a reading of the whole log
  (\<open>stats_history\<close>). Then that every counter of the rows is the sum of what each event is worth on its own: the
  locale \<open>waiting_counter\<close> says that the requests that still wait for their usage are counted in the cell that the
  later subtraction will hit, so the subtraction never saturates; \<open>tallied_field\<close> lifts that to a field of the
  rows, and the contract \<open>additive_merge\<close> of the model merge carries it to totals and breakdowns. Last, the
  integrity flag against the chain of \<open>Audit_Log\<close>.\<close>

section \<open>Incremental queries\<close>

lemma btm_insert_last: "btm_sorted (m @ [(k, v)]) \<Longrightarrow> btm_insert k v m = m @ [(k, v)]"
proof (induction m)
  case (Cons p m)
  obtain a b where p: "p = (a, b)" by fastforce
  have "a < k" "btm_sorted (m @ [(k, v)])" using Cons.prems p by (auto simp: btm_sorted_def)
  then show ?case using Cons.IH p by auto
qed simp

lemma btm_collect_sorted: "btm_sorted (m @ xs) \<Longrightarrow> fold (\<lambda>(k, b). btm_insert k b) xs m = m @ xs"
proof (induction xs arbitrary: m)
  case (Cons p xs)
  obtain k v where p: "p = (k, v)" by fastforce
  have "btm_sorted (m @ [(k, v)])" using Cons.prems p by (auto simp: btm_sorted_def sorted_wrt_append)
  then show ?case using Cons.IH[of "m @ [(k, v)]"] Cons.prems p by (simp add: btm_insert_last)
qed simp

lemma from_to_cache: "btm_sorted (ag_rows a) \<Longrightarrow> from_cache (to_cache a) = a"
  using btm_collect_sorted[of "[]" "ag_rows a"] by (simp add: from_cache_def to_cache_def)

lemma flag_fields [simp]: "ag_rows (flag d a) = ag_rows a" "ag_offset (flag d a) = ag_offset a"
  "ag_pending (flag d a) = ag_pending a" "ag_sessions (flag d a) = ag_sessions a"
  "ag_last_hash (flag d a) = ag_last_hash a" "ag_last_seq (flag d a) = ag_last_seq a"
  by (simp_all add: flag_def)

lemma with_bucket_fields [simp]:
  "ag_offset (with_bucket h s ho m f a) = ag_offset a" "ag_pending (with_bucket h s ho m f a) = ag_pending a"
  "ag_integrity (with_bucket h s ho m f a) = ag_integrity a" "ag_last_hash (with_bucket h s ho m f a) = ag_last_hash a"
  "ag_last_seq (with_bucket h s ho m f a) = ag_last_seq a" "ag_sessions (with_bucket h s ho m f a) = ag_sessions a"
  by (simp_all add: with_bucket_def)

lemma with_bucket_sorted: "btm_sorted (ag_rows a) \<Longrightarrow> btm_sorted (ag_rows (with_bucket h s ho m f a))"
  by (simp add: with_bucket_def btm_sorted_upsert)

lemma apply_at_frame:
  "ag_offset (apply_at ev h a) = ag_offset a" "ag_integrity (apply_at ev h a) = ag_integrity a"
  "ag_last_hash (apply_at ev h a) = ag_last_hash a" "ag_last_seq (apply_at ev h a) = ag_last_seq a"
  by (auto simp: apply_at_def apply_forward_def apply_deny_def apply_alert_def apply_usage_def take_pending_def Let_def split: option.split)

lemma apply_at_sorted: "btm_sorted (ag_rows a) \<Longrightarrow> btm_sorted (ag_rows (apply_at ev h a))"
  by (auto simp: apply_at_def apply_forward_def apply_deny_def apply_alert_def apply_usage_def take_pending_def Let_def
      intro!: with_bucket_sorted split: option.split)

lemma ingest_line_props:
  assumes "ingest_line cr ac l a = Some a'"
  shows "ag_offset a' = ag_offset a" and "btm_sorted (ag_rows a) \<Longrightarrow> btm_sorted (ag_rows a')"
  using assms
  by (auto simp: ingest_line_def apply_event_def Let_def apply_at_frame intro!: apply_at_sorted split: option.splits if_splits)

lemma next_line_append: "next_line s = Some (l, r) \<Longrightarrow> next_line (s @ t) = Some (l, r @ t)"
  by (induction s arbitrary: l r) (auto split: if_splits)

lemma next_line_split: "next_line s = Some (l, r) \<Longrightarrow> s = l @ r"
  by (induction s arbitrary: l r) (auto split: if_splits)

text \<open>A successful pass stops in front of the unfinished piece, and reading on from there is the same as
  reading all again.\<close>

lemma ingest_log_resume:
  assumes "ingest_log cr ac s a = Inr a'"
  shows "\<exists>c rest. s = c @ rest \<and> ag_offset a' = ag_offset a + length c
    \<and> (\<forall>t. ingest_log cr ac (s @ t) a = ingest_log cr ac (rest @ t) a') \<and> (btm_sorted (ag_rows a) \<longrightarrow> btm_sorted (ag_rows a'))"
  using assms
proof (induction cr ac s a rule: ingest_log.induct)
  case (1 cr ac s a)
  show ?case
  proof (cases "next_line s")
    case None
    then have "a' = a" using "1.prems" by (simp add: ingest_log.simps[of cr ac s] split: if_splits)
    then show ?thesis by (intro exI[of _ "[]"] exI[of _ s]) simp
  next
    case (Some p)
    obtain l r where p: "p = (l, r)" by fastforce
    let ?a1 = "a\<lparr>ag_offset := ag_offset a + length l\<rparr>"
    have nl: "next_line s = Some (l, r)" using Some p by simp
    have u: "utf8_valid l" using "1.prems" nl by (simp add: ingest_log.simps[of cr ac s] split: if_splits)
    have s: "s = l @ r" using next_line_split[OF nl] .
    have step: "ingest_log cr ac (s @ t) a =
        (if str_trim l = [] then ingest_log cr ac (r @ t) ?a1
         else case ingest_line cr ac (str_trim l) ?a1 of None \<Rightarrow> Inl StatsPanicked | Some a2 \<Rightarrow> ingest_log cr ac (r @ t) a2)" for t
      using next_line_append[OF nl, of t] u by (simp add: ingest_log.simps[of cr ac "s @ t"] Let_def)
    show ?thesis
    proof (cases "str_trim l = []")
      case True
      have "ingest_log cr ac r ?a1 = Inr a'" using "1.prems" step[of "[]"] True by simp
      then obtain c rest where "r = c @ rest" "ag_offset a' = ag_offset ?a1 + length c"
        "\<forall>t. ingest_log cr ac (r @ t) ?a1 = ingest_log cr ac (rest @ t) a'"
        "btm_sorted (ag_rows ?a1) \<longrightarrow> btm_sorted (ag_rows a')"
        using "1.IH"(1)[OF nl refl _ refl refl True] u by blast
      then show ?thesis using True step s by (intro exI[of _ "l @ c"] exI[of _ rest]) simp
    next
      case False
      obtain a2 where a2: "ingest_line cr ac (str_trim l) ?a1 = Some a2" "ingest_log cr ac r a2 = Inr a'"
        using "1.prems" step[of "[]"] False by (auto split: option.splits)
      then obtain c rest where "r = c @ rest" "ag_offset a' = ag_offset a2 + length c"
        "\<forall>t. ingest_log cr ac (r @ t) a2 = ingest_log cr ac (rest @ t) a'"
        "btm_sorted (ag_rows a2) \<longrightarrow> btm_sorted (ag_rows a')"
        using "1.IH"(2)[OF nl refl _ refl refl False] u by blast
      then show ?thesis using False step s a2 ingest_line_props[OF a2(1)]
        by (intro exI[of _ "l @ c"] exI[of _ rest]) simp
    qed
  qed
qed

abbreviation fresh :: aggregator where "fresh \<equiv> from_cache stats_cache_default"

lemma fresh_fields [simp]: "ag_rows fresh = []" "ag_offset fresh = 0" "ag_pending fresh = []"
  by (simp_all add: from_cache_def stats_cache_default_def)

definition log_text :: "bytes option \<Rightarrow> bytes" where
  "log_text lg = (case lg of None \<Rightarrow> [] | Some f \<Rightarrow> f)"

text \<open>What happens to the log and the cache file: the log grows, queries run (their file operations may
  fail), and the cache may be lost.\<close>

inductive stats_history :: "crypto \<Rightarrow> audit_codec \<Rightarrow> bytes option \<Rightarrow> stats_cache option \<Rightarrow> bool" for cr ac where
  start: "stats_history cr ac lg None"
| grow: "stats_history cr ac lg c \<Longrightarrow> stats_history cr ac (Some (log_text lg @ x)) c"
| query: "stats_history cr ac lg c \<Longrightarrow> stats_history cr ac lg (fst (catch_up io cr ac lg c))"

definition cache_covers :: "crypto \<Rightarrow> audit_codec \<Rightarrow> bytes option \<Rightarrow> stats_cache option \<Rightarrow> bool" where
  "cache_covers cr ac lg c \<longleftrightarrow> (let a = from_cache (usable_cache c) in
     btm_sorted (ag_rows a) \<and> ag_offset a \<le> length (log_text lg)
     \<and> (\<forall>t. ingest_log cr ac (log_text lg @ t) fresh = ingest_log cr ac (drop (ag_offset a) (log_text lg) @ t) a))"

lemma sc_offset_from_cache: "ag_offset (from_cache c) = sc_offset c"
  by (simp add: from_cache_def)

lemma log_len_text: "log_len lg = length (log_text lg)"
  by (simp add: log_len_def log_text_def split: option.split)

lemma cache_covers_None: "cache_covers cr ac lg None"
  by (simp add: cache_covers_def usable_cache_def btm_sorted_def)

lemma cache_covers_catch_up:
  assumes "cache_covers cr ac lg c"
  shows "catch_up io cr ac lg c =
     (let a = from_cache (usable_cache c) in
      if length (log_text lg) > ag_offset a then
        (if \<not> st_opens io then (c, Inl LogNotOpened)
         else (case ingest_log cr ac (log_text lg) fresh of
             Inl e \<Rightarrow> (c, Inl e)
           | Inr a1 \<Rightarrow> if st_saves io then (Some (to_cache a1), Inr a1) else (c, Inl CacheNotSaved)))
      else (c, Inr a))"
proof -
  let ?a = "from_cache (usable_cache c)"
  have "\<not> length (log_text lg) < sc_offset (usable_cache c)"
    using assms by (simp add: cache_covers_def Let_def sc_offset_from_cache)
  moreover have "ingest_log cr ac (log_text lg) fresh = ingest_log cr ac (drop (ag_offset ?a) (log_text lg)) ?a"
    using assms unfolding cache_covers_def Let_def by (metis append_Nil2)
  ultimately show ?thesis by (simp add: catch_up_def Let_def log_len_text log_text_def)
qed

lemma history_cache_covers: "stats_history cr ac lg c \<Longrightarrow> cache_covers cr ac lg c"
proof (induction rule: stats_history.induct)
  case (start lg)
  show ?case by (rule cache_covers_None)
next
  case (grow lg c x)
  then have "length (log_text lg @ x) \<ge> length (log_text lg)" by simp
  then show ?case using grow.IH by (simp add: cache_covers_def Let_def log_text_def[of "Some _"])
next
  case (query lg c io)
  show ?case
  proof (cases "length (log_text lg) > ag_offset (from_cache (usable_cache c)) \<and> st_opens io \<and> st_saves io")
    case True
    show ?thesis
    proof (cases "ingest_log cr ac (log_text lg) fresh")
      case (Inr a1)
      obtain k rest where r: "log_text lg = k @ rest" "ag_offset a1 = ag_offset fresh + length k"
        "\<forall>t. ingest_log cr ac (log_text lg @ t) fresh = ingest_log cr ac (rest @ t) a1"
        "btm_sorted (ag_rows fresh) \<longrightarrow> btm_sorted (ag_rows a1)"
        using ingest_log_resume[OF Inr] by blast
      have s: "btm_sorted (ag_rows a1)" using r(4) by (simp add: btm_sorted_def)
      have "usable_cache (Some (to_cache a1)) = to_cache a1" by (simp add: usable_cache_def to_cache_def)
      then have "cache_covers cr ac lg (Some (to_cache a1))"
        using r s from_to_cache[OF s] by (simp add: cache_covers_def Let_def)
      then show ?thesis using True Inr cache_covers_catch_up[OF query.IH, of io] by (simp add: Let_def)
    qed (use query.IH cache_covers_catch_up[OF query.IH, of io] True in \<open>simp add: Let_def\<close>)
  next
    case False
    then have "fst (catch_up io cr ac lg c) = c"
      using cache_covers_catch_up[OF query.IH, of io] by (auto simp: Let_def split: sum.split)
    then show ?thesis using query.IH by simp
  qed
qed

definition files_work :: stats_io where
  "files_work = \<lparr>st_opens = True, st_saves = True\<rparr>"

lemma cache_covers_result:
  assumes "cache_covers cr ac lg c"
  shows "snd (catch_up files_work cr ac lg c) = snd (catch_up files_work cr ac lg None)"
    and "snd (catch_up io cr ac lg c) = Inr a \<Longrightarrow> snd (catch_up files_work cr ac lg None) = Inr a"
proof -
  have n: "snd (catch_up files_work cr ac lg None) = (if length (log_text lg) > 0 then ingest_log cr ac (log_text lg) fresh else Inr fresh)"
    unfolding cache_covers_catch_up[OF cache_covers_None] by (simp add: files_work_def Let_def usable_cache_def split: sum.split)
  have e: "ingest_log cr ac [] a = Inr a" for a by (simp add: ingest_log.simps[of cr ac "[]"])
  let ?a = "from_cache (usable_cache c)"
  have f: "ingest_log cr ac (log_text lg) fresh = ingest_log cr ac (drop (ag_offset ?a) (log_text lg)) ?a"
    using assms unfolding cache_covers_def Let_def by (metis append_Nil2)
  have o: "length (log_text lg) \<le> ag_offset ?a \<Longrightarrow> ingest_log cr ac (log_text lg) fresh = Inr ?a" using f e by simp
  have z: "log_text lg = [] \<Longrightarrow> fresh = ?a" using o e[of fresh] by simp
  show "snd (catch_up files_work cr ac lg c) = snd (catch_up files_work cr ac lg None)"
    unfolding n unfolding cache_covers_catch_up[OF assms] using o z by (auto simp: files_work_def Let_def split: sum.split)
  show "snd (catch_up io cr ac lg c) = Inr a \<Longrightarrow> snd (catch_up files_work cr ac lg None) = Inr a"
    unfolding n unfolding cache_covers_catch_up[OF assms] using o z by (auto simp: Let_def split: sum.splits if_splits)
qed

lemma stats_query_report:
  "snd (stats_query io cr ac cal today wn d cf) = map_sum id (make_report cal today wn (dk_head d)) (snd (catch_up io cr ac (dk_log d) cf))"
  by (simp add: stats_query_def split: prod.split sum.split)

text \<open>C22: incremental queries are exact. However the log grew, whatever queries ran in between and whichever of
  their file operations failed, a query that catches the cache up reports what a query without any cache
  computes from the whole log, and a query whose own files fail reports that or an error.\<close>

theorem incremental_query_exact:
  assumes "stats_history cr ac (dk_log d) cf"
  shows "snd (stats_query files_work cr ac cal today wn d cf) = snd (stats_query files_work cr ac cal today wn d None)
    \<and> (case snd (stats_query io cr ac cal today wn d cf) of
        Inr r \<Rightarrow> snd (stats_query files_work cr ac cal today wn d None) = Inr r
      | Inl e \<Rightarrow> \<not> (st_opens io \<and> st_saves io) \<or> snd (stats_query files_work cr ac cal today wn d None) = Inl e)"
proof -
  note c = history_cache_covers[OF assms]
  let ?full = "snd (catch_up files_work cr ac (dk_log d) None)"
  let ?res = "snd (catch_up io cr ac (dk_log d) cf)"
  have io: "st_opens io \<Longrightarrow> st_saves io \<Longrightarrow> io = files_work" by (cases io) (simp add: files_work_def)
  have r: "?res = Inr a \<Longrightarrow> ?full = Inr a" for a by (rule cache_covers_result(2)[OF c])
  show ?thesis unfolding stats_query_report cache_covers_result(1)[OF c]
  proof (cases ?res)
    case (Inr a)
    then show "map_sum id (make_report cal today wn (dk_head d)) ?full = map_sum id (make_report cal today wn (dk_head d)) ?full
      \<and> (case map_sum id (make_report cal today wn (dk_head d)) ?res of
        Inr r \<Rightarrow> map_sum id (make_report cal today wn (dk_head d)) ?full = Inr r
      | Inl e \<Rightarrow> \<not> (st_opens io \<and> st_saves io) \<or> map_sum id (make_report cal today wn (dk_head d)) ?full = Inl e)"
      using r[OF Inr] by simp
  next
    case (Inl e)
    then have "st_opens io \<Longrightarrow> st_saves io \<Longrightarrow> ?full = Inl e" using io cache_covers_result(1)[OF c] by simp
    then show "map_sum id (make_report cal today wn (dk_head d)) ?full = map_sum id (make_report cal today wn (dk_head d)) ?full
      \<and> (case map_sum id (make_report cal today wn (dk_head d)) ?res of
        Inr r \<Rightarrow> map_sum id (make_report cal today wn (dk_head d)) ?full = Inr r
      | Inl e \<Rightarrow> \<not> (st_opens io \<and> st_saves io) \<or> map_sum id (make_report cal today wn (dk_head d)) ?full = Inl e)"
      using Inl by auto
  qed
qed

section \<open>Sums over rows\<close>

definition row_at :: "(row_key, bucket) ordmap \<Rightarrow> row_key \<Rightarrow> bucket" where
  "row_at rows k = (case btm_get rows k of None \<Rightarrow> bucket_default | Some b \<Rightarrow> b)"

lemma row_at_upsert: "row_at (btm_upsert bucket_default k g rows) j = (if j = k then g (row_at rows k) else row_at rows j)"
  by (simp add: row_at_def btm_get_upsert)

lemma row_at_Nil [simp]: "row_at [] k = bucket_default"
  by (simp add: row_at_def btm_get_def)

lemma btm_insert_less: "\<forall>j \<in> fst ` set m. k < j \<Longrightarrow> btm_insert k v m = (k, v) # m"
  by (cases m) auto

lemma filter_btm_insert:
  "btm_sorted m \<Longrightarrow> filter (\<lambda>(k, _). P k) (btm_insert k v m) =
     (if P k then btm_insert k v (filter (\<lambda>(k, _). P k) m) else filter (\<lambda>(k, _). P k) m)"
proof (induction m)
  case (Cons p m)
  obtain a b where p: "p = (a, b)" by fastforce
  have s: "btm_sorted m" "\<forall>j \<in> fst ` set m. a < j" using Cons.prems p by (auto simp: btm_sorted_def)
  consider "k < a" | "k = a" | "a < k" by fastforce
  then show ?case
  proof cases
    case 1
    then have "\<forall>j \<in> fst ` set (filter (\<lambda>(k, _). P k) m). k < j" using s(2) by auto
    then show ?thesis using 1 p btm_insert_less[of "filter (\<lambda>(k, _). P k) m" k v] by simp
  next
    case 2
    then have "\<forall>j \<in> fst ` set (filter (\<lambda>(k, _). P k) m). k < j" using s(2) by auto
    then show ?thesis using 2 p by (simp add: btm_insert_less)
  next
    case 3
    then have "\<not> k < a" "k \<noteq> a" by auto
    then show ?thesis using Cons.IH[OF s(1)] p by auto
  qed
qed simp

lemma btm_get_filter: "P k \<Longrightarrow> btm_get (filter (\<lambda>(k, _). P k) m) k = btm_get m k"
  by (induction m) (auto simp: btm_get_def)

lemma btm_sorted_filter: "btm_sorted m \<Longrightarrow> btm_sorted (filter (\<lambda>(k, _). P k) m)"
  by (induction m) (auto simp: btm_sorted_def)

text \<open>The amount \<open>f\<close> over the rows of the hours \<open>H\<close>.\<close>

definition hour_sum :: "(string \<Rightarrow> bool) \<Rightarrow> (bucket \<Rightarrow> 'm::ab_group_add) \<Rightarrow> (row_key, bucket) ordmap \<Rightarrow> 'm" where
  "hour_sum H f rows = btm_sum f (filter (\<lambda>(k, _). H (rk_hour k)) rows)"

lemma hour_sum_upsert:
  assumes "btm_sorted rows" "f bucket_default = 0"
  shows "hour_sum H f (btm_upsert bucket_default k g rows) =
    hour_sum H f rows + (if H (rk_hour k) then f (g (row_at rows k)) - f (row_at rows k) else 0)"
  using assms(2) btm_sum_insert[OF btm_sorted_filter[OF assms(1), where P = "\<lambda>k. H (rk_hour k)"], of f k "g (row_at rows k)"]
  by (auto simp: hour_sum_def btm_upsert_def filter_btm_insert[OF assms(1), where P = "\<lambda>k. H (rk_hour k)"] row_at_def
      btm_get_filter[where P = "\<lambda>k. H (rk_hour k)"] split: option.splits)

lemma hour_sum_with_bucket:
  assumes "btm_sorted (ag_rows a)" "f bucket_default = 0"
  shows "hour_sum H f (ag_rows (with_bucket h s ho m g a)) = hour_sum H f (ag_rows a)
    + (if H h then f (g (row_at (ag_rows a) (RowKey h s ho m))) - f (row_at (ag_rows a) (RowKey h s ho m)) else 0)"
  using hour_sum_upsert[where f = f and H = H and k = "RowKey h s ho m" and g = g, OF assms] by (simp add: with_bucket_def)

section \<open>Requests that wait for their usage\<close>

lemmas bucket_updates = forward_bucket_def deny_bucket_def settle_from_def settle_to_def add_down_def bucket_count_request_def
  bucket_uncount_request_def add_usage_def measure_dur_def pending_of_def

definition pend_at :: "string \<times> string \<times> string \<Rightarrow> (pending_req \<Rightarrow> nat) \<Rightarrow> (u64, pending_req) ordmap \<Rightarrow> nat" where
  "pend_at t g pend = sum_list (map (\<lambda>(_, p). if (pr_hour p, pr_sid p, pr_host p) = t then g p else 0) pend)"

lemma pend_at_insert: "pend_at t g (btm_insert k p pend) \<le> pend_at t g pend + (if (pr_hour p, pr_sid p, pr_host p) = t then g p else 0)"
  by (induction pend) (auto simp: pend_at_def)

lemma pend_at_tl: "pend_at t g (tl pend) \<le> pend_at t g pend"
  by (cases pend) (auto simp: pend_at_def)

lemma pend_at_prune: "pend_at t g (prune_pending pend) \<le> pend_at t g pend"
  by (induction pend rule: prune_pending.induct) (subst prune_pending.simps, use pend_at_tl le_trans in fastforce)

lemma pend_at_remove:
  "btm_get pend k = Some p \<Longrightarrow> pend_at t g (btm_remove k pend) + (if (pr_hour p, pr_sid p, pr_host p) = t then g p else 0) \<le> pend_at t g pend"
proof (induction pend)
  case (Cons q pend)
  obtain a b where q: "q = (a, b)" by fastforce
  have r: "pend_at t g (btm_remove k pend) \<le> pend_at t g pend" for pend
    by (induction pend) (auto simp: pend_at_def btm_remove_def)
  show ?case using Cons r[of pend] q by (auto simp: btm_get_def pend_at_def btm_remove_def split: if_splits)
qed (simp add: btm_get_def)

lemma pend_at_remove_le: "pend_at t g (btm_remove k pend) \<le> pend_at t g pend"
  by (induction pend) (auto simp: pend_at_def btm_remove_def)

text \<open>A counter that a waiting request holds a share of, \<open>share\<close>, and that an event raises by at most \<open>inc\<close>.
  While it cannot overflow, the cell where requests wait always holds at least their shares, so taking one
  out again never saturates.\<close>

locale waiting_counter =
  fixes count :: "bucket \<Rightarrow> u64" and share :: "pending_req \<Rightarrow> nat" and inc :: "audit_event \<Rightarrow> nat"
  assumes count_default: "count bucket_default = 0"
    and share_word: "share p < 2 ^ 64"
    and forward: "\<exists>n. count (forward_bucket ev b) = count b + of_nat n \<and> n \<le> inc ev \<and> (ev_usage ev = None \<longrightarrow> n = share (pending_of ev h))"
    and deny: "\<exists>n. count (deny_bucket ev b) = count b + of_nat n \<and> n \<le> inc ev"
    and settle_from: "count (settle_from p b) = saturating_sub (count b) (of_nat (share p))"
    and settle_to: "\<exists>n. count (settle_to p u ev b) = count b + of_nat n \<and> n \<le> share p"
    and neutral: "count (b\<lparr>bk_tripwires := x\<rparr>) = count b" "count (b\<lparr>bk_dlp_alerts := x\<rparr>) = count b"
      "count (b\<lparr>bk_policy_tamper := x\<rparr>) = count b" "count (b\<lparr>bk_policy_changes := x\<rparr>) = count b"
      "count (add_down ev b) = count b" "count (measure_dur d b) = count b" "count (add_usage u b) = count b"
begin

definition held :: "nat \<Rightarrow> (row_key, bucket) ordmap \<Rightarrow> (u64, pending_req) ordmap \<Rightarrow> bool" where
  "held N rows pend \<longleftrightarrow> (\<forall>h s ho. pend_at (h, s, ho) share pend \<le> unat (count (row_at rows (RowKey h s ho [])))
     \<and> unat (count (row_at rows (RowKey h s ho []))) \<le> N)"

lemma heldI:
  assumes "\<And>h s ho. pend_at (h, s, ho) share pend \<le> unat (count (row_at rows (RowKey h s ho [])))
    \<and> unat (count (row_at rows (RowKey h s ho []))) \<le> N"
  shows "held N rows pend"
  using assms by (simp add: held_def)

lemma held_mono: "held N rows pend \<Longrightarrow> N \<le> M \<Longrightarrow> held M rows pend"
  unfolding held_def by (meson le_trans)

lemma held_fewer: "held N rows pend \<Longrightarrow> (\<And>t. pend_at t share pend' \<le> pend_at t share pend) \<Longrightarrow> held N rows pend'"
  unfolding held_def by (meson le_trans)

lemma held_neutral:
  assumes "held N rows pend" "\<And>b. count (g b) = count b"
  shows "held N (btm_upsert bucket_default k g rows) pend"
  using assms(1) unfolding held_def by (auto simp: row_at_upsert assms(2))

lemma unat_add_exact: "unat (x :: u64) + n < 2 ^ 64 \<Longrightarrow> unat (x + of_nat n) = unat x + n"
  by (simp add: unat_word_ariths unat_of_nat)

lemma held_add:
  assumes "held N rows pend" "N + M < 2 ^ 64" "\<And>b. \<exists>n. count (g b) = count b + of_nat n \<and> n \<le> M"
  shows "held (N + M) (btm_upsert bucket_default k g rows) pend"
proof (rule heldI)
  fix h s ho
  let ?b = "row_at rows (RowKey h s ho [])"
  have b: "pend_at (h, s, ho) share pend \<le> unat (count ?b)" "unat (count ?b) \<le> N" using assms(1) by (auto simp: held_def)
  obtain n where n: "count (g ?b) = count ?b + of_nat n" "n \<le> M" using assms(3) by blast
  have "unat (count (g ?b)) = unat (count ?b) + n" unfolding n(1) by (rule unat_add_exact) (use b n assms(2) in linarith)
  then show "pend_at (h, s, ho) share pend \<le> unat (count (row_at (btm_upsert bucket_default k g rows) (RowKey h s ho [])))
    \<and> unat (count (row_at (btm_upsert bucket_default k g rows) (RowKey h s ho []))) \<le> N + M"
    using b n by (auto simp: row_at_upsert)
qed

lemma held_wait:
  assumes "held N rows pend" "N + inc ev < 2 ^ 64" "ev_usage ev = None"
  shows "held (N + inc ev) (btm_upsert bucket_default (RowKey h (ev_sid ev) (ev_host ev) []) (forward_bucket ev) rows)
    (btm_insert q (pending_of ev h) pend)"
proof (rule heldI)
  fix h' s' ho'
  let ?b = "row_at rows (RowKey h' s' ho' [])"
  have b: "pend_at (h', s', ho') share pend \<le> unat (count ?b)" "unat (count ?b) \<le> N" using assms(1) by (auto simp: held_def)
  obtain n where n: "count (forward_bucket ev ?b) = count ?b + of_nat n" "n \<le> inc ev" "n = share (pending_of ev h)"
    using forward[of ev ?b h] assms(3) by blast
  have u: "unat (count (forward_bucket ev ?b)) = unat (count ?b) + n"
    unfolding n(1) by (rule unat_add_exact) (use b n assms(2) in linarith)
  show "pend_at (h', s', ho') share (btm_insert q (pending_of ev h) pend)
      \<le> unat (count (row_at (btm_upsert bucket_default (RowKey h (ev_sid ev) (ev_host ev) []) (forward_bucket ev) rows) (RowKey h' s' ho' [])))
    \<and> unat (count (row_at (btm_upsert bucket_default (RowKey h (ev_sid ev) (ev_host ev) []) (forward_bucket ev) rows) (RowKey h' s' ho' [])))
      \<le> N + inc ev"
    using b n(2,3) u pend_at_insert[of "(h', s', ho')" share q "pending_of ev h" pend]
    by (auto simp: row_at_upsert pending_of_def)
qed

lemma taken_share:
  assumes "held N rows pend" "btm_get pend k = Some p"
  shows "share p \<le> unat (count (row_at rows (RowKey (pr_hour p) (pr_sid p) (pr_host p) [])))"
    and "count (settle_from p (row_at rows (RowKey (pr_hour p) (pr_sid p) (pr_host p) [])))
      = count (row_at rows (RowKey (pr_hour p) (pr_sid p) (pr_host p) [])) - of_nat (share p)"
proof -
  let ?t = "(pr_hour p, pr_sid p, pr_host p)" and ?b = "row_at rows (RowKey (pr_hour p) (pr_sid p) (pr_host p) [])"
  show le: "share p \<le> unat (count ?b)"
    using pend_at_remove[OF assms(2), of ?t share] assms(1)[unfolded held_def, rule_format, of "pr_hour p" "pr_sid p" "pr_host p"] by simp
  have "\<not> count ?b < of_nat (share p)" using le share_word[of p] by (simp add: word_less_nat_alt unat_of_nat)
  then show "count (settle_from p ?b) = count ?b - of_nat (share p)" by (simp add: settle_from saturating_sub_def)
qed

lemma held_settle:
  assumes "held N rows pend" "btm_get pend k = Some p" "N < 2 ^ 64"
  shows "held N (btm_upsert bucket_default (RowKey (pr_hour p) (pr_sid p) (pr_host p) m) (settle_to p u ev)
      (btm_upsert bucket_default (RowKey (pr_hour p) (pr_sid p) (pr_host p) []) (settle_from p) rows)) (btm_remove k pend)"
proof (rule heldI)
  fix h s ho
  let ?K = "RowKey (pr_hour p) (pr_sid p) (pr_host p) []" and ?M = "RowKey (pr_hour p) (pr_sid p) (pr_host p) m"
  let ?rows = "btm_upsert bucket_default ?M (settle_to p u ev) (btm_upsert bucket_default ?K (settle_from p) rows)"
  let ?k = "RowKey h s ho []" and ?b = "row_at rows ?K"
  have b: "pend_at (h, s, ho) share pend \<le> unat (count (row_at rows ?k))" "unat (count (row_at rows ?k)) \<le> N"
    using assms(1) by (auto simp: held_def)
  note r = pend_at_remove[OF assms(2), of "(h, s, ho)" share]
  have "(pr_hour p, pr_sid p, pr_host p) = (h, s, ho) \<longleftrightarrow> ?k = ?K" by auto
  note r = r[unfolded this]
  have f: "unat (count (settle_from p ?b)) = unat (count ?b) - share p"
    using share_word[of p] by (simp add: settle_from unat_saturating_sub unat_of_nat)
  note le = taken_share(1)[OF assms(1,2)]
  show "pend_at (h, s, ho) share (btm_remove k pend) \<le> unat (count (row_at ?rows ?k)) \<and> unat (count (row_at ?rows ?k)) \<le> N"
  proof (cases "?k = ?K")
    case True
    show ?thesis
    proof (cases "m = []")
      case m: True
      obtain n where n: "count (settle_to p u ev (settle_from p ?b)) = count (settle_from p ?b) + of_nat n" "n \<le> share p"
        using settle_to by blast
      have "unat (count ?b) < 2 ^ 64" using unsigned_less[of "count ?b"] by simp
      then have "unat (count (settle_to p u ev (settle_from p ?b))) = unat (count ?b) - share p + n"
        unfolding n(1) f[symmetric] by (intro unat_add_exact) (use f n(2) le in linarith)
      then show ?thesis using b r True m n(2) le by (simp add: row_at_upsert, intro conjI; linarith)
    next
      case False
      then show ?thesis using b r True f le by (simp add: row_at_upsert, intro conjI; linarith)
    qed
  next
    case False
    then have "?k \<noteq> ?M" by auto
    then show ?thesis using False b r by (auto simp: row_at_upsert)
  qed
qed

lemma held_apply:
  assumes "held N (ag_rows a) (ag_pending a)" "N + inc ev < 2 ^ 64"
  shows "held (N + inc ev) (ag_rows (apply_at ev h a)) (ag_pending (apply_at ev h a))"
proof -
  have add: "held (N + inc ev) (ag_rows (with_bucket hh s ho m g a)) (ag_pending a)"
    if "\<And>b. \<exists>n. count (g b) = count b + of_nat n \<and> n \<le> inc ev" for hh s ho m g
    unfolding with_bucket_def using held_add[OF assms that] by simp
  have keep: "held (N + inc ev) (ag_rows (with_bucket hh s ho m g a)) (ag_pending a)" if "\<And>b. count (g b) = count b" for hh s ho m g
    by (rule add) (auto simp: that intro!: exI[of _ 0])
  have id: "held (N + inc ev) (ag_rows a) (ag_pending a)" by (rule held_mono[OF assms(1)]) simp
  have fwd: "held (N + inc ev) (ag_rows (apply_forward ev h a)) (ag_pending (apply_forward ev h a))"
  proof (cases "ev_usage ev = None \<and> ev_dur_ms ev = None")
    case True
    have "held (N + inc ev) (btm_upsert bucket_default (RowKey h (ev_sid ev) (ev_host ev) []) (forward_bucket ev) (ag_rows a))
        (btm_insert (ev_seq ev) (pending_of ev h) (ag_pending a))"
      using held_wait[OF assms] True by blast
    then show ?thesis using True held_fewer pend_at_prune
      by (simp add: apply_forward_def with_bucket_def usage_model_def)
  next
    case False
    have "\<exists>n. count (forward_bucket ev b) = count b + of_nat n \<and> n \<le> inc ev" for b using forward by blast
    then show ?thesis using False add by (auto simp: apply_forward_def Let_def)
  qed
  have use: "held (N + inc ev) (ag_rows (apply_usage ev h a)) (ag_pending (apply_usage ev h a))"
  proof (cases "Option.bind (ev_req_seq ev) (btm_get (ag_pending a))")
    case (Some p)
    then obtain k where k: "ev_req_seq ev = Some k" "btm_get (ag_pending a) k = Some p" by (cases "ev_req_seq ev") auto
    show ?thesis
    proof (cases "ev_usage ev")
      case None
      show ?thesis using k None held_fewer[OF keep pend_at_remove_le]
        by (simp add: apply_usage_def take_pending_def with_bucket_def neutral)
    next
      case (Some u)
      show ?thesis using k Some held_mono[OF held_settle[OF assms(1) k(2)]] assms(2)
        by (simp add: apply_usage_def take_pending_def with_bucket_def)
    qed
  next
    case None
    define a' where "a' = snd (take_pending (ev_req_seq ev) a)"
    have t: "take_pending (ev_req_seq ev) a = (None, a')" "ag_rows a' = ag_rows a"
      "\<And>t. pend_at t share (ag_pending a') \<le> pend_at t share (ag_pending a)"
      using None by (auto simp: a'_def take_pending_def pend_at_remove_le split: option.splits)
    have k': "held (N + inc ev) (ag_rows (with_bucket hh s ho m g a')) (ag_pending a')" if "\<And>b. count (g b) = count b" for hh s ho m g
      using held_fewer[OF keep[OF that] t(3)] t(2) by (simp add: with_bucket_def)
    show ?thesis using held_fewer[OF id t(3)] t(2)
      by (auto simp: apply_usage_def t(1) neutral intro!: k' split: option.split)
  qed
  show ?thesis unfolding apply_at_def
    using fwd use id add[of "deny_bucket ev"] deny
    by (auto simp: apply_deny_def apply_alert_def neutral intro!: keep)
qed

end

lemma own_amount: "\<exists>n. (x :: u64) = of_nat n \<and> n \<le> unat x"
  by (intro exI[of _ "unat x"]) simp

lemma byte_amount: "unat (x :: u64) < 2 ^ 64"
  using unsigned_less[of x] by simp

interpretation c_requests: waiting_counter bk_requests "\<lambda>_. 1" "\<lambda>_. 1"
  by unfold_locales (auto simp: bucket_default_def bucket_updates Let_def split: option.split intro: exI[of _ "1 :: nat"])

interpretation c_no_usage: waiting_counter bk_no_usage "\<lambda>_. 1" "\<lambda>_. 1"
  by unfold_locales (auto simp: bucket_default_def bucket_updates Let_def split: option.split
    intro: exI[of _ "1 :: nat"] exI[of _ "0 :: nat"])

interpretation c_warns: waiting_counter bk_warns "\<lambda>p. of_bool (pr_warn p)" "\<lambda>_. 1"
  by unfold_locales (auto simp: bucket_default_def bucket_updates Let_def saturating_sub_def split: option.split
    intro: exI[of _ "1 :: nat"] exI[of _ "0 :: nat"])

interpretation c_allows: waiting_counter bk_allows "\<lambda>p. of_bool (\<not> pr_warn p)" "\<lambda>_. 1"
  by unfold_locales (auto simp: bucket_default_def bucket_updates Let_def saturating_sub_def split: option.split
    intro: exI[of _ "1 :: nat"] exI[of _ "0 :: nat"])

interpretation c_bytes_up: waiting_counter bk_bytes_up "\<lambda>p. unat (pr_bytes_up p)" "\<lambda>ev. unat (ev_bytes_up ev)"
  by unfold_locales (use byte_amount in \<open>auto simp: bucket_default_def bucket_updates Let_def own_amount split: option.split
    intro: exI[of _ "unat x" for x]\<close>)

section \<open>Every event counts once\<close>

text \<open>What one event is worth, on its own: the reference for the totals. A \<open>usage\<close> event brings tokens, cost
  and size; the request it completes was counted by its own event.\<close>

definition priced :: "usage_rec option \<Rightarrow> bucket \<Rightarrow> bucket" where
  "priced u b = (case u of None \<Rightarrow> b | Some x \<Rightarrow> add_usage x b)"

definition event_share :: "audit_event \<Rightarrow> bucket" where
  "event_share ev = (let z = bucket_default in
     if ev_action ev = ''allow'' then priced (ev_usage ev) (z\<lparr>bk_requests := 1, bk_allows := 1, bk_bytes_up := ev_bytes_up ev, bk_bytes_down := ev_bytes_down ev\<rparr>)
     else if ev_action ev = ''warn'' then priced (ev_usage ev) (z\<lparr>bk_requests := 1, bk_warns := 1, bk_bytes_up := ev_bytes_up ev, bk_bytes_down := ev_bytes_down ev\<rparr>)
     else if ev_action ev = ''deny'' then
       (let d = z\<lparr>bk_requests := 1, bk_denies := 1, bk_bytes_up := ev_bytes_up ev\<rparr> in
        if ev_tripwires ev \<noteq> [] \<or> starts_with (ev_note ev) ''tripwire:'' then d\<lparr>bk_deny_tripwire := 1, bk_tripwires := 1\<rparr>
        else if starts_with (ev_note ev) ''dlp:'' then d\<lparr>bk_deny_dlp := 1\<rparr>
        else if starts_with (ev_note ev) ''budget'' then d\<lparr>bk_deny_budget := 1\<rparr>
        else d\<lparr>bk_deny_policy := 1\<rparr>)
     else if ev_action ev = ''alert'' then
       (if ev_tripwires ev \<noteq> [] then z\<lparr>bk_tripwires := 1\<rparr>
        else if starts_with (ev_note ev) ''dlp:'' then z\<lparr>bk_dlp_alerts := 1\<rparr> else z)
     else if ev_action ev = ''tamper'' then z\<lparr>bk_policy_tamper := 1\<rparr>
     else if ev_action ev = ''policy'' then z\<lparr>bk_policy_changes := 1\<rparr>
     else if ev_action ev = ''usage'' then priced (ev_usage ev) (z\<lparr>bk_bytes_down := ev_bytes_down ev\<rparr>)
     else z)"

text \<open>The counters that stay in the hour of their event, those that may arrive in the hour of the request, and
  the dollars.\<close>

definition hour_fields :: "(bucket \<Rightarrow> u64) list" where
  "hour_fields = [bk_requests, bk_allows, bk_warns, bk_denies, bk_deny_policy, bk_deny_tripwire, bk_deny_dlp, bk_deny_budget,
     bk_tripwires, bk_dlp_alerts, bk_policy_tamper, bk_policy_changes, bk_bytes_up]"

definition flow_fields :: "(bucket \<Rightarrow> u64) list" where
  "flow_fields = [bk_input_tokens, bk_output_tokens, bk_cache_read_tokens, bk_cache_write_tokens, bk_bytes_down]"

definition usd_fields :: "(bucket \<Rightarrow> usd) list" where
  "usd_fields = [bk_cost_usd, bk_ref_cost_usd]"

lemmas field_lists = hour_fields_def flow_fields_def usd_fields_def

lemma fields_default: "f \<in> set hour_fields \<Longrightarrow> f bucket_default = 0" "f \<in> set flow_fields \<Longrightarrow> f bucket_default = 0"
  "c \<in> set usd_fields \<Longrightarrow> c bucket_default = 0"
  by (auto simp: field_lists bucket_default_def)

text \<open>What each update of a cell adds.\<close>

lemma hour_fieldsE:
  assumes "f \<in> set hour_fields"
  obtains "f = bk_requests" | "f = bk_allows" | "f = bk_warns" | "f = bk_denies" | "f = bk_deny_policy" | "f = bk_deny_tripwire"
    | "f = bk_deny_dlp" | "f = bk_deny_budget" | "f = bk_tripwires" | "f = bk_dlp_alerts" | "f = bk_policy_tamper"
    | "f = bk_policy_changes" | "f = bk_bytes_up"
  using assms unfolding hour_fields_def list.set insert_iff empty_iff by (elim disjE FalseE)

lemma flow_fieldsE:
  assumes "f \<in> set flow_fields"
  obtains "f = bk_input_tokens" | "f = bk_output_tokens" | "f = bk_cache_read_tokens" | "f = bk_cache_write_tokens" | "f = bk_bytes_down"
  using assms unfolding flow_fields_def list.set insert_iff empty_iff by (elim disjE FalseE)

lemma usd_fieldsE:
  assumes "c \<in> set usd_fields"
  obtains "c = bk_cost_usd" | "c = bk_ref_cost_usd"
  using assms unfolding usd_fields_def list.set insert_iff empty_iff by (elim disjE FalseE)

lemmas share_simps = event_share_def priced_def Let_def bucket_default_def

lemma forward_delta:
  assumes "ev_action ev = ''allow'' \<or> ev_action ev = ''warn''"
  shows "f \<in> set hour_fields \<Longrightarrow> f (forward_bucket ev b) = f b + f (event_share ev)"
    and "g \<in> set flow_fields \<Longrightarrow> g (forward_bucket ev b) = g b + g (event_share ev)"
    and "c \<in> set usd_fields \<Longrightarrow> c (forward_bucket ev b) = c b + c (event_share ev)"
  using assms
  by (elim disjE hour_fieldsE flow_fieldsE usd_fieldsE; simp add: share_simps bucket_updates split: option.split)+

lemma deny_delta:
  assumes "ev_action ev = ''deny''"
  shows "f \<in> set hour_fields \<Longrightarrow> f (deny_bucket ev b) = f b + f (event_share ev)"
    and "g \<in> set flow_fields \<Longrightarrow> g (deny_bucket ev b) = g b + g (event_share ev)"
    and "c \<in> set usd_fields \<Longrightarrow> c (deny_bucket ev b) = c b + c (event_share ev)"
  using assms
  by (elim hour_fieldsE flow_fieldsE usd_fieldsE; simp add: share_simps bucket_updates split: option.split)+

lemma settle_delta:
  assumes "ev_action ev = ''usage''" "ev_usage ev = Some u"
  shows "g \<in> set flow_fields \<Longrightarrow> g (settle_to p u ev b) = g b + g (event_share ev)"
    and "c \<in> set usd_fields \<Longrightarrow> c (settle_to p u ev b) = c b + c (event_share ev)"
  using assms
  by (elim flow_fieldsE usd_fieldsE; simp add: share_simps bucket_updates split: option.split)+

lemma settle_from_keeps:
  "g \<in> set flow_fields \<Longrightarrow> g (settle_from p b) = g b" "c \<in> set usd_fields \<Longrightarrow> c (settle_from p b) = c b"
  by (elim flow_fieldsE usd_fieldsE; simp add: bucket_updates Let_def)+

lemma usage_delta:
  assumes "ev_action ev = ''usage''"
  shows "f \<in> set hour_fields \<Longrightarrow> f (event_share ev) = 0" "f \<in> set hour_fields \<Longrightarrow> f (measure_dur d (add_down ev b)) = f b"
    "f \<in> set hour_fields \<Longrightarrow> f (add_down ev (add_usage u b)) = f b" "f \<in> set hour_fields \<Longrightarrow> f (add_down ev b) = f b"
    and "ev_usage ev = None \<Longrightarrow> g \<in> set flow_fields \<Longrightarrow> g (measure_dur d (add_down ev b)) = g b + g (event_share ev)"
    "ev_usage ev = None \<Longrightarrow> g \<in> set flow_fields \<Longrightarrow> g (add_down ev b) = g b + g (event_share ev)"
    "ev_usage ev = None \<Longrightarrow> ev_bytes_down ev = 0 \<Longrightarrow> g \<in> set flow_fields \<Longrightarrow> g (event_share ev) = 0"
    "ev_usage ev = Some u \<Longrightarrow> g \<in> set flow_fields \<Longrightarrow> g (add_down ev (add_usage u b)) = g b + g (event_share ev)"
    and "ev_usage ev = None \<Longrightarrow> c \<in> set usd_fields \<Longrightarrow> c (measure_dur d (add_down ev b)) = c b + c (event_share ev)"
    "ev_usage ev = None \<Longrightarrow> c \<in> set usd_fields \<Longrightarrow> c (add_down ev b) = c b + c (event_share ev)"
    "ev_usage ev = None \<Longrightarrow> c \<in> set usd_fields \<Longrightarrow> c (event_share ev) = 0"
    "ev_usage ev = Some u \<Longrightarrow> c \<in> set usd_fields \<Longrightarrow> c (add_down ev (add_usage u b)) = c b + c (event_share ev)"
  using assms
  by (elim hour_fieldsE flow_fieldsE usd_fieldsE; simp add: share_simps bucket_updates split: option.split)+

text \<open>The state after some events: rows are sorted, and the waiting counters are covered.\<close>

definition tallied :: "nat \<Rightarrow> nat \<Rightarrow> aggregator \<Rightarrow> bool" where
  "tallied n up a \<longleftrightarrow> btm_sorted (ag_rows a) \<and> n < 2 ^ 64 \<and> up < 2 ^ 64
     \<and> c_requests.held n (ag_rows a) (ag_pending a) \<and> c_no_usage.held n (ag_rows a) (ag_pending a)
     \<and> c_warns.held n (ag_rows a) (ag_pending a) \<and> c_allows.held n (ag_rows a) (ag_pending a)
     \<and> c_bytes_up.held up (ag_rows a) (ag_pending a)"

lemma tallied_apply:
  assumes "tallied n up a" "n + 1 < 2 ^ 64" "up + unat (ev_bytes_up ev) < 2 ^ 64"
  shows "tallied (n + 1) (up + unat (ev_bytes_up ev)) (apply_at ev h a)"
  using assms c_requests.held_apply[of n a ev h] c_no_usage.held_apply[of n a ev h] c_warns.held_apply[of n a ev h]
    c_allows.held_apply[of n a ev h] c_bytes_up.held_apply[of up a ev h]
  unfolding tallied_def by (auto intro: apply_at_sorted)

lemma settle_from_exact:
  assumes "tallied n up a" "btm_get (ag_pending a) k = Some p"
    and b: "b = row_at (ag_rows a) (RowKey (pr_hour p) (pr_sid p) (pr_host p) [])"
  shows "bk_requests (settle_from p b) = bk_requests b - 1" "bk_warns (settle_from p b) = bk_warns b - of_bool (pr_warn p)"
    "bk_allows (settle_from p b) = bk_allows b - of_bool (\<not> pr_warn p)" "bk_bytes_up (settle_from p b) = bk_bytes_up b - pr_bytes_up p"
  using assms(1) c_requests.taken_share(2)[OF _ assms(2)] c_warns.taken_share(2)[OF _ assms(2)]
    c_allows.taken_share(2)[OF _ assms(2)] c_bytes_up.taken_share(2)[OF _ assms(2)]
  unfolding tallied_def b by (auto simp: of_bool_def)

text \<open>The move of a settled request takes from one cell what it gives to the other.\<close>

lemma settle_moves:
  assumes "tallied n up a" "btm_get (ag_pending a) k = Some p" "f \<in> set hour_fields"
    and b: "b = row_at (ag_rows a) (RowKey (pr_hour p) (pr_sid p) (pr_host p) [])"
  shows "(f (settle_from p b) - f b) + (f (settle_to p u ev b') - f b') = 0"
proof -
  note ex = settle_from_exact[OF assms(1,2) b]
  have n: "bk_denies (settle_from p b) = bk_denies b" "bk_deny_policy (settle_from p b) = bk_deny_policy b"
    "bk_deny_tripwire (settle_from p b) = bk_deny_tripwire b" "bk_deny_dlp (settle_from p b) = bk_deny_dlp b"
    "bk_deny_budget (settle_from p b) = bk_deny_budget b" "bk_tripwires (settle_from p b) = bk_tripwires b"
    "bk_dlp_alerts (settle_from p b) = bk_dlp_alerts b" "bk_policy_tamper (settle_from p b) = bk_policy_tamper b"
    "bk_policy_changes (settle_from p b) = bk_policy_changes b"
    by (simp_all add: settle_from_def bucket_uncount_request_def Let_def)
  show ?thesis using assms(3)
    by (elim hour_fieldsE; simp add: ex n; simp add: settle_to_def bucket_count_request_def add_usage_def measure_dur_def Let_def split: option.split)
qed

text \<open>The pending request that a \<open>usage\<close> event completes.\<close>

lemma take_pending_cases:
  obtains k p where "ev_req_seq ev = Some k" "btm_get (ag_pending a) k = Some p"
    "take_pending (ev_req_seq ev) a = (Some p, a\<lparr>ag_pending := btm_remove k (ag_pending a)\<rparr>)"
  | a' where "take_pending (ev_req_seq ev) a = (None, a')" "ag_rows a' = ag_rows a"
proof (cases "ev_req_seq ev")
  case None
  then show ?thesis using that(2)[of a] by (simp add: take_pending_def)
next
  case (Some k)
  then show ?thesis
    using that(1)[of k] that(2)[of "a\<lparr>ag_pending := btm_remove k (ag_pending a)\<rparr>"]
    by (cases "btm_get (ag_pending a) k") (simp_all add: take_pending_def)
qed

text \<open>A field that every update of a cell, settling apart, raises by the event's share.\<close>

locale tallied_field =
  fixes f :: "bucket \<Rightarrow> 'm::ab_group_add"
  assumes zero: "f bucket_default = 0"
    and forward: "ev_action ev = ''allow'' \<or> ev_action ev = ''warn'' \<Longrightarrow> f (forward_bucket ev b) = f b + f (event_share ev)"
    and deny: "ev_action ev = ''deny'' \<Longrightarrow> f (deny_bucket ev b) = f b + f (event_share ev)"
    and tripwire: "f (b\<lparr>bk_tripwires := bk_tripwires b + 1\<rparr>) = f b + f (bucket_default\<lparr>bk_tripwires := 1\<rparr>)"
    and dlp_alert: "f (b\<lparr>bk_dlp_alerts := bk_dlp_alerts b + 1\<rparr>) = f b + f (bucket_default\<lparr>bk_dlp_alerts := 1\<rparr>)"
    and tamper: "f (b\<lparr>bk_policy_tamper := bk_policy_tamper b + 1\<rparr>) = f b + f (bucket_default\<lparr>bk_policy_tamper := 1\<rparr>)"
    and policy_change: "f (b\<lparr>bk_policy_changes := bk_policy_changes b + 1\<rparr>) = f b + f (bucket_default\<lparr>bk_policy_changes := 1\<rparr>)"
begin

lemma with_bucket_sum:
  assumes "btm_sorted (ag_rows a)" "\<And>b. f (g b) = f b + x"
  shows "hour_sum H f (ag_rows (with_bucket h s ho m g a)) = hour_sum H f (ag_rows a) + (if H h then x else 0)"
  using hour_sum_with_bucket[where f = f and H = H and h = h and s = s and ho = ho and m = m and g = g, OF assms(1) zero] assms(2) by simp

lemma sum_not_usage:
  assumes "btm_sorted (ag_rows a)" "ev_action ev \<noteq> ''usage''"
  shows "hour_sum H f (ag_rows (apply_at ev h a)) = hour_sum H f (ag_rows a) + (if H h then f (event_share ev) else 0)"
proof -
  note w = with_bucket_sum[OF assms(1)]
  consider "ev_action ev = ''allow'' \<or> ev_action ev = ''warn''" | "ev_action ev = ''deny''" | "ev_action ev = ''alert''"
    | "ev_action ev = ''tamper''" | "ev_action ev = ''policy''"
    | "ev_action ev \<notin> {''allow'', ''warn'', ''deny'', ''alert'', ''tamper'', ''policy'', ''usage''}"
    using assms(2) by blast
  then show ?thesis
  proof cases
    case 1
    then have "ag_rows (apply_at ev h a) = ag_rows (with_bucket h (ev_sid ev) (ev_host ev) (usage_model (ev_usage ev)) (forward_bucket ev) a)"
      by (auto simp: apply_at_def apply_forward_def Let_def)
    then show ?thesis using w[OF forward[OF 1]] by simp
  next
    case 2
    then show ?thesis using w[OF deny[OF 2]] by (simp add: apply_at_def apply_deny_def)
  next
    case 3
    then show ?thesis using w[OF tripwire] w[OF dlp_alert] zero by (simp add: apply_at_def apply_alert_def event_share_def Let_def)
  next
    case 4
    then show ?thesis using w[OF tamper] by (simp add: apply_at_def event_share_def Let_def)
  next
    case 5
    then show ?thesis using w[OF policy_change] by (simp add: apply_at_def event_share_def Let_def)
  next
    case 6
    then have "event_share ev = bucket_default" "ag_rows (apply_at ev h a) = ag_rows a"
      by (simp_all add: apply_at_def event_share_def Let_def)
    then show ?thesis using zero by simp
  qed
qed

lemma sum_usage:
  assumes "btm_sorted (ag_rows a)" "\<And>p b. f (settle_from p b) = f b"
    "\<And>p u b. ev_usage ev = Some u \<Longrightarrow> f (settle_to p u ev b) = f b + f (event_share ev)"
    "\<And>b d. ev_usage ev = None \<Longrightarrow> f (measure_dur d (add_down ev b)) = f b + f (event_share ev)"
    "\<And>b. ev_usage ev = None \<Longrightarrow> f (add_down ev b) = f b + f (event_share ev)"
    "ev_usage ev = None \<Longrightarrow> ev_bytes_down ev = 0 \<Longrightarrow> f (event_share ev) = 0"
    "\<And>b u. ev_usage ev = Some u \<Longrightarrow> f (add_down ev (add_usage u b)) = f b + f (event_share ev)"
  shows "hour_sum (\<lambda>_. True) f (ag_rows (apply_usage ev h a)) = hour_sum (\<lambda>_. True) f (ag_rows a) + f (event_share ev)"
proof -
  note w = with_bucket_sum[where H = "\<lambda>_. True"]
  show ?thesis
  proof (cases rule: take_pending_cases[of ev a])
    case (1 k p)
    let ?a = "a\<lparr>ag_pending := btm_remove k (ag_pending a)\<rparr>"
    have s: "btm_sorted (ag_rows ?a)" using assms(1) by simp
    show ?thesis
      using w[OF s assms(4)] w[OF with_bucket_sorted[OF s] assms(3)] w[OF s, of "settle_from p" 0] assms(2)
      by (cases "ev_usage ev") (simp_all add: apply_usage_def 1(3))
  next
    case (2 a')
    then have s: "btm_sorted (ag_rows a')" using assms(1) by simp
    show ?thesis
      using w[OF s assms(5)] w[OF s assms(7)] assms(6) 2(2)
      by (cases "ev_usage ev") (auto simp: apply_usage_def 2(1) word_gt_0)
  qed
qed

end

lemma tallied_fields:
  "f \<in> set hour_fields \<Longrightarrow> tallied_field f" "g \<in> set flow_fields \<Longrightarrow> tallied_field g" "c \<in> set usd_fields \<Longrightarrow> tallied_field c"
proof -
  show "tallied_field f" if f: "f \<in> set hour_fields"
    by unfold_locales (use forward_delta(1)[OF _ f] deny_delta(1)[OF _ f] fields_default(1)[OF f] in \<open>simp_all\<close>,
      (use f in \<open>elim hour_fieldsE; simp add: bucket_default_def\<close>)+)
  show "tallied_field g" if f: "g \<in> set flow_fields"
    by unfold_locales (use forward_delta(2)[OF _ f] deny_delta(2)[OF _ f] fields_default(2)[OF f] in \<open>simp_all\<close>,
      (use f in \<open>elim flow_fieldsE; simp add: bucket_default_def\<close>)+)
  show "tallied_field c" if f: "c \<in> set usd_fields"
    by unfold_locales (use forward_delta(3)[OF _ f] deny_delta(3)[OF _ f] fields_default(3)[OF f] in \<open>simp_all\<close>,
      (use f in \<open>elim usd_fieldsE; simp add: bucket_default_def\<close>)+)
qed

interpretation requests_field: tallied_field bk_requests
  by (rule tallied_fields(1)) (simp add: hour_fields_def)

lemma usage_sum_total:
  assumes "btm_sorted (ag_rows a)" "ev_action ev = ''usage''"
  shows "g \<in> set flow_fields \<Longrightarrow> hour_sum (\<lambda>_. True) g (ag_rows (apply_usage ev h a)) = hour_sum (\<lambda>_. True) g (ag_rows a) + g (event_share ev)"
    and "c \<in> set usd_fields \<Longrightarrow> hour_sum (\<lambda>_. True) c (ag_rows (apply_usage ev h a)) = hour_sum (\<lambda>_. True) c (ag_rows a) + c (event_share ev)"
proof -
  note u = usage_delta[OF assms(2)] settle_delta[OF assms(2)]
  show "g \<in> set flow_fields \<Longrightarrow> hour_sum (\<lambda>_. True) g (ag_rows (apply_usage ev h a)) = hour_sum (\<lambda>_. True) g (ag_rows a) + g (event_share ev)"
    by (rule tallied_field.sum_usage[OF tallied_fields(2) assms(1)]) (simp_all add: settle_from_keeps u)
  show "c \<in> set usd_fields \<Longrightarrow> hour_sum (\<lambda>_. True) c (ag_rows (apply_usage ev h a)) = hour_sum (\<lambda>_. True) c (ag_rows a) + c (event_share ev)"
    by (rule tallied_field.sum_usage[OF tallied_fields(3) assms(1)]) (simp_all add: settle_from_keeps u)
qed

lemma usage_sum_hour:
  assumes "tallied n up a" "ev_action ev = ''usage''" "f \<in> set hour_fields"
  shows "hour_sum H f (ag_rows (apply_usage ev h a)) = hour_sum H f (ag_rows a)"
proof -
  have s0: "btm_sorted (ag_rows a)" using assms(1) by (simp add: tallied_def)
  note w = tallied_field.with_bucket_sum[OF tallied_fields(1)[OF assms(3)], where x = 0 and H = H, simplified]
  note u = usage_delta(2-4)[OF assms(2,3)]
  show ?thesis
  proof (cases rule: take_pending_cases[of ev a])
    case (1 k p)
    let ?a = "a\<lparr>ag_pending := btm_remove k (ag_pending a)\<rparr>" and ?K = "RowKey (pr_hour p) (pr_sid p) (pr_host p) []"
    have s: "btm_sorted (ag_rows ?a)" using s0 by simp
    show ?thesis
    proof (cases "ev_usage ev")
      case None
      then show ?thesis using w[OF s u(1)] by (simp add: apply_usage_def 1(3))
    next
      case (Some x)
      let ?a1 = "with_bucket (pr_hour p) (pr_sid p) (pr_host p) [] (settle_from p) ?a"
      let ?b = "row_at (ag_rows a) ?K" and ?b' = "row_at (ag_rows ?a1) (RowKey (pr_hour p) (pr_sid p) (pr_host p) (ur_model x))"
      note z = fields_default(1)[OF assms(3)]
      have "hour_sum H f (ag_rows (apply_usage ev h a)) = hour_sum H f (ag_rows ?a1)
          + (if H (pr_hour p) then f (settle_to p x ev ?b') - f ?b' else 0)"
        using hour_sum_with_bucket[where f = f and H = H, OF with_bucket_sorted[OF s] z] Some by (simp add: apply_usage_def 1(3))
      moreover have "hour_sum H f (ag_rows ?a1) = hour_sum H f (ag_rows a) + (if H (pr_hour p) then f (settle_from p ?b) - f ?b else 0)"
        using hour_sum_with_bucket[where f = f and H = H, OF s z] by simp
      ultimately show ?thesis using settle_moves[OF assms(1) 1(2) assms(3) refl, of x ev ?b'] by simp
    qed
  next
    case (2 a')
    then have s: "btm_sorted (ag_rows a')" using s0 by simp
    show ?thesis using w[OF s u(2)] w[OF s u(3)] 2(2) by (cases "ev_usage ev") (simp_all add: apply_usage_def 2(1))
  qed
qed

text \<open>One event adds its share.\<close>

lemma apply_at_sums:
  assumes "tallied n up a"
  shows "f \<in> set hour_fields \<Longrightarrow> hour_sum H f (ag_rows (apply_at ev h a)) = hour_sum H f (ag_rows a) + (if H h then f (event_share ev) else 0)"
    and "g \<in> set flow_fields \<Longrightarrow> hour_sum (\<lambda>_. True) g (ag_rows (apply_at ev h a)) = hour_sum (\<lambda>_. True) g (ag_rows a) + g (event_share ev)"
    and "c \<in> set usd_fields \<Longrightarrow> hour_sum (\<lambda>_. True) c (ag_rows (apply_at ev h a)) = hour_sum (\<lambda>_. True) c (ag_rows a) + c (event_share ev)"
proof -
  have s: "btm_sorted (ag_rows a)" using assms by (simp add: tallied_def)
  have u: "apply_at ev h a = apply_usage ev h a" if "ev_action ev = ''usage''" using that by (simp add: apply_at_def)
  note n = tallied_field.sum_not_usage[OF _ s]
  show "f \<in> set hour_fields \<Longrightarrow> hour_sum H f (ag_rows (apply_at ev h a)) = hour_sum H f (ag_rows a) + (if H h then f (event_share ev) else 0)"
    using n[OF tallied_fields(1)] usage_sum_hour[OF assms] u usage_delta(1) by (cases "ev_action ev = ''usage''") simp_all
  show "g \<in> set flow_fields \<Longrightarrow> hour_sum (\<lambda>_. True) g (ag_rows (apply_at ev h a)) = hour_sum (\<lambda>_. True) g (ag_rows a) + g (event_share ev)"
    using n[OF tallied_fields(2)] usage_sum_total(1)[OF s] u by (cases "ev_action ev = ''usage''") simp_all
  show "c \<in> set usd_fields \<Longrightarrow> hour_sum (\<lambda>_. True) c (ag_rows (apply_at ev h a)) = hour_sum (\<lambda>_. True) c (ag_rows a) + c (event_share ev)"
    using n[OF tallied_fields(3)] usage_sum_total(2)[OF s] u by (cases "ev_action ev = ''usage''") simp_all
qed

section \<open>A well-formed log\<close>

lemma ws_width_bytes: "list_all (\<lambda>c. bval c \<noteq> 125) (take (ws_width s) s)"
proof (cases s)
  case (Cons a t)
  show ?thesis
  proof (cases "bval a = 32 \<or> 9 \<le> bval a \<and> bval a \<le> 13")
    case True
    then show ?thesis using Cons by (auto simp: ws_width_def Let_def)
  next
    case False
    show ?thesis
    proof (cases t)
      case Nil
      then show ?thesis using Cons False by (auto simp: ws_width_def Let_def)
    next
      case t: (Cons b u)
      show ?thesis
      proof (cases "bval a = 194 \<and> (bval b = 133 \<or> bval b = 160)")
        case True
        then show ?thesis using Cons False t by (auto simp: ws_width_def Let_def)
      next
        case two: False
        show ?thesis using Cons False two t by (cases u) (simp_all add: ws_width_def Let_def, auto)
      qed
    qed
  qed
qed (simp add: ws_width_def)

lemma brace_no_space: "CHR ''}'' \<in> set s \<Longrightarrow> CHR ''}'' \<in> set (trim_start s)"
proof (induction s rule: trim_start.induct)
  case (1 s)
  have "bval (CHR ''}'') = 125" by simp
  then have "CHR ''}'' \<notin> set (take (ws_width s) s)" using ws_width_bytes[of s] unfolding list_all_iff by metis
  moreover have "set s = set (take (ws_width s) s) \<union> set (drop (ws_width s) s)" by (metis append_take_drop_id set_append)
  ultimately have "CHR ''}'' \<in> set (drop (ws_width s) s)" using "1.prems" by blast
  then show ?case using 1 by (subst trim_start.simps) simp
qed

lemma trim_end_brace: "trim_end (s @ [CHR ''}'', CHR 0x0A]) = s @ ''}''"
proof (induction s)
  case Nil
  have "trim_start [CHR 0x0A] = []" by (subst trim_start.simps) (simp add: ws_width_def trim_start.simps[of "[]"])
  then show ?case using brace_no_space[of "[CHR ''}'', CHR 0x0A]"] by auto
next
  case (Cons c s)
  have "trim_start (c # s @ [CHR ''}'', CHR 0x0A]) \<noteq> []" using brace_no_space[of "c # s @ [CHR ''}'', CHR 0x0A]"] by auto
  then show ?case using Cons by simp
qed

lemma trim_line:
  assumes "line_shaped l"
  shows "str_trim (l @ [CHR 0x0A]) = l"
proof -
  obtain t where t: "l = CHR ''{'' # t" using assms by (auto simp: line_shaped_def starts_with_def prefix_def)
  obtain s where s: "l = s @ ''}''" using assms by (auto simp: line_shaped_def ends_with_def suffix_def)
  have "trim_start (l @ [CHR 0x0A]) = l @ [CHR 0x0A]"
    unfolding t by (rule trim_start_visible) (simp add: visible_def)
  then show ?thesis using trim_end_brace[of s] s by (simp add: str_trim_def)
qed

lemma utf8_valid_append: "utf8_valid l \<Longrightarrow> utf8_valid r \<Longrightarrow> utf8_valid (l @ r)"
proof (induction l rule: utf8_valid.induct)
  case (2 a s)
  consider "bval a < 128" | "194 \<le> bval a" "bval a \<le> 223" | "224 \<le> bval a" "bval a \<le> 239" | "240 \<le> bval a" "bval a \<le> 244"
    using "2.prems"(1) by (fastforce simp: Let_def split: if_splits)
  then show ?case
  proof cases
    case 1
    then show ?thesis using 2 by (simp add: Let_def)
  next
    case two: 2
    then obtain b t where "s = b # t" using "2.prems"(1) by (cases s) (simp_all add: Let_def)
    then show ?thesis using 2 two by (simp add: Let_def)
  next
    case three: 3
    then obtain b c t where "s = b # c # t" using "2.prems"(1) by (cases s; cases "tl s") (simp_all add: Let_def)
    then show ?thesis using 2 three by (simp add: Let_def)
  next
    case four: 4
    then obtain b c d t where "s = b # c # d # t" using "2.prems"(1) by (cases s; cases "tl s"; cases "tl (tl s)") (simp_all add: Let_def)
    then show ?thesis using 2 four by (simp add: Let_def)
  qed
qed simp

lemma utf8_valid_line: "utf8_valid l \<Longrightarrow> utf8_valid (l @ [CHR 0x0A])"
  by (simp add: utf8_valid_append)

lemma next_line_first: "CHR 0x0A \<notin> set l \<Longrightarrow> next_line (l @ CHR 0x0A # rest) = Some (l @ [CHR 0x0A], rest)"
  by (induction l) auto

lemma ingest_log_event:
  assumes "line_event ac (event_line ac ev) = Some ev" "line_shaped (event_line ac ev)" "hour_of (ev_ts ev) = Some h"
  obtains a1 where "ingest_log cr ac (event_line ac ev @ CHR 0x0A # rest) a = ingest_log cr ac rest (apply_at ev h a1)"
    "ag_rows a1 = ag_rows a" "ag_pending a1 = ag_pending a" "ag_last_hash a1 = ev_hash ev" "ag_last_seq a1 = Some (ev_seq ev)"
    "(ag_integrity a1 = None) = (ag_integrity a = None \<and> verify_link cr ac (if ag_last_hash a = [] then ZERO_HASH else ag_last_hash a) ev)"
proof -
  let ?l = "event_line ac ev"
  have n: "next_line (?l @ CHR 0x0A # rest) = Some (?l @ [CHR 0x0A], rest)" "utf8_valid (?l @ [CHR 0x0A])"
    using assms(2) next_line_first utf8_valid_line by (auto simp: line_shaped_def)
  have e: "?l \<noteq> []" using line_shaped_facts(3)[OF assms(2)] .
  let ?a0 = "a\<lparr>ag_offset := ag_offset a + length (?l @ [CHR 0x0A])\<rparr>"
  let ?f = "if ag_integrity ?a0 = None \<and> \<not> verify_link cr ac (if ag_last_hash ?a0 = [] then ZERO_HASH else ag_last_hash ?a0) ev
    then flag (''audit chain broken at seq '' @ show_nat (unat (ev_seq ev)) @ '' (tampering or truncation)'') ?a0 else ?a0"
  let ?a1 = "?f\<lparr>ag_last_hash := ev_hash ev, ag_last_seq := Some (ev_seq ev)\<rparr>"
  have "ingest_line cr ac ?l ?a0 = Some (apply_at ev h ?a1)"
    using assms(1,3) by (simp add: ingest_line_def apply_event_def Let_def)
  then have "ingest_log cr ac (?l @ CHR 0x0A # rest) a = ingest_log cr ac rest (apply_at ev h ?a1)"
    using n e trim_line[OF assms(2)] by (subst ingest_log.simps) (simp add: Let_def)
  then show ?thesis by (rule that) (auto simp: flag_def)
qed

definition event_hour :: "audit_event \<Rightarrow> string" where
  "event_hour ev = (case hour_of (ev_ts ev) of Some h \<Rightarrow> h | None \<Rightarrow> [])"

definition log_ok :: "(usd \<Rightarrow> bool) \<Rightarrow> audit_codec \<Rightarrow> audit_event list \<Rightarrow> bool" where
  "log_ok fx ac evs \<longleftrightarrow> codec_ok fx ac \<and> list_all (\<lambda>ev. event_exact fx ev \<and> hour_of (ev_ts ev) \<noteq> None) evs
     \<and> length evs < 2 ^ 64 \<and> sum_list (map (\<lambda>ev. unat (ev_bytes_up ev)) evs) < 2 ^ 64"

lemma ingest_log_sums:
  assumes "codec_ok fx ac" "list_all (\<lambda>ev. event_exact fx ev \<and> hour_of (ev_ts ev) \<noteq> None) evs"
    "tallied n up a" "n + length evs < 2 ^ 64" "up + sum_list (map (\<lambda>ev. unat (ev_bytes_up ev)) evs) < 2 ^ 64"
  shows "\<exists>a'. ingest_log cr ac (log_bytes ac evs) a = Inr a'
    \<and> (\<forall>f \<in> set hour_fields. \<forall>H. hour_sum H f (ag_rows a') = hour_sum H f (ag_rows a)
          + sum_list (map (\<lambda>ev. f (event_share ev)) (filter (\<lambda>ev. H (event_hour ev)) evs)))
    \<and> (\<forall>g \<in> set flow_fields. hour_sum (\<lambda>_. True) g (ag_rows a') = hour_sum (\<lambda>_. True) g (ag_rows a) + sum_list (map (\<lambda>ev. g (event_share ev)) evs))
    \<and> (\<forall>c \<in> set usd_fields. hour_sum (\<lambda>_. True) c (ag_rows a') = hour_sum (\<lambda>_. True) c (ag_rows a) + sum_list (map (\<lambda>ev. c (event_share ev)) evs))"
  using assms(2-5)
proof (induction evs arbitrary: n up a)
  case Nil
  then show ?case by (simp add: log_bytes_def ingest_log.simps[of cr ac "[]"])
next
  case (Cons ev evs)
  have x: "line_event ac (event_line ac ev) = Some ev" "line_shaped (event_line ac ev)"
    using Cons.prems(1) assms(1) by (simp_all add: codec_ok_def)
  obtain h where h: "hour_of (ev_ts ev) = Some h" using Cons.prems(1) by auto
  obtain a1 where a1: "ingest_log cr ac (event_line ac ev @ CHR 0x0A # log_bytes ac evs) a = ingest_log cr ac (log_bytes ac evs) (apply_at ev h a1)"
    "ag_rows a1 = ag_rows a" "ag_pending a1 = ag_pending a"
    using ingest_log_event[OF x h] by metis
  have t: "tallied n up a1" using Cons.prems(2) a1(2,3) by (simp add: tallied_def)
  have t2: "tallied (n + 1) (up + unat (ev_bytes_up ev)) (apply_at ev h a1)"
    by (rule tallied_apply[OF t]) (use Cons.prems(3,4) in simp_all)
  have l: "log_bytes ac (ev # evs) = event_line ac ev @ CHR 0x0A # log_bytes ac evs" by (simp add: log_bytes_def)
  have e: "event_hour ev = h" using h by (simp add: event_hour_def)
  obtain a' where a': "ingest_log cr ac (log_bytes ac evs) (apply_at ev h a1) = Inr a'"
    "\<And>f H. f \<in> set hour_fields \<Longrightarrow> hour_sum H f (ag_rows a') = hour_sum H f (ag_rows (apply_at ev h a1))
          + sum_list (map (\<lambda>ev. f (event_share ev)) (filter (\<lambda>ev. H (event_hour ev)) evs))"
    "\<And>g. g \<in> set flow_fields \<Longrightarrow> hour_sum (\<lambda>_. True) g (ag_rows a') = hour_sum (\<lambda>_. True) g (ag_rows (apply_at ev h a1)) + sum_list (map (\<lambda>ev. g (event_share ev)) evs)"
    "\<And>c. c \<in> set usd_fields \<Longrightarrow> hour_sum (\<lambda>_. True) c (ag_rows a') = hour_sum (\<lambda>_. True) c (ag_rows (apply_at ev h a1)) + sum_list (map (\<lambda>ev. c (event_share ev)) evs)"
    using Cons.IH[OF _ t2] Cons.prems(1,3,4) by fastforce
  show ?case
    using a1(1) a' apply_at_sums[OF t] a1(2) l e by (intro exI[of _ a']) (simp add: add.assoc)
qed

lemma tallied_fresh: "tallied 0 0 fresh"
  unfolding tallied_def c_requests.held_def c_no_usage.held_def c_warns.held_def c_allows.held_def c_bytes_up.held_def
  by (simp add: pend_at_def btm_sorted_def bucket_default_def)

section \<open>Totals and breakdowns\<close>

lemma additive_bucket:
  "f \<in> set hour_fields \<Longrightarrow> additive_merge (\<lambda>_. True) f bucket_default merge_bucket"
  "g \<in> set flow_fields \<Longrightarrow> additive_merge (\<lambda>_. True) g bucket_default merge_bucket"
  "c \<in> set usd_fields \<Longrightarrow> additive_merge (\<lambda>_. True) c bucket_default merge_bucket"
  unfolding additive_merge_def
  by (elim hour_fieldsE flow_fieldsE usd_fieldsE; simp add: bucket_default_def merge_bucket_def)+

interpretation requests_merge: additive_merge "\<lambda>_. True" bk_requests bucket_default merge_bucket
  by (rule additive_bucket(1)) (simp add: hour_fields_def)

lemma totals_sum:
  assumes "additive_merge (\<lambda>_. True) f bucket_default merge_bucket"
  shows "f (totals_of rows) = btm_sum f rows"
proof -
  have "f (fold (\<lambda>(_, b) t. merge_bucket b t) rows b0) = f b0 + btm_sum f rows" for b0
    using assms by (induction rows arbitrary: b0) (auto simp: additive_merge_def)
  then show ?thesis using assms by (simp add: totals_of_def additive_merge_def)
qed

lemma breakdown_sum:
  assumes "additive_merge (\<lambda>_. True) f bucket_default merge_bucket"
  shows "btm_sum f (breakdown name rows) = sum_list (map (\<lambda>(k, b). if name k b = None then 0 else f b) rows)"
    and "btm_sorted (breakdown name rows)"
proof -
  let ?step = "\<lambda>(k, b) m. case name k b of None \<Rightarrow> m | Some n \<Rightarrow> btm_upsert bucket_default n (merge_bucket b) m"
  have u: "btm_sorted m \<Longrightarrow> btm_sum f (btm_upsert bucket_default n (merge_bucket b) m) = btm_sum f m + f b" for n b m
    using btm_upsert_sum(1)[where P = "\<lambda>_. True" and f = f and g = "merge_bucket b" and x = "f b" and d = bucket_default] assms
    by (simp add: additive_merge_def)
  have "btm_sorted m \<Longrightarrow> btm_sum f (fold ?step rows m) = btm_sum f m + sum_list (map (\<lambda>(k, b). if name k b = None then 0 else f b) rows)
      \<and> btm_sorted (fold ?step rows m)" for m
    by (induction rows arbitrary: m) (auto simp: u btm_sorted_upsert add.assoc split: option.split)
  then show "btm_sum f (breakdown name rows) = sum_list (map (\<lambda>(k, b). if name k b = None then 0 else f b) rows)"
    "btm_sorted (breakdown name rows)"
    by (simp_all add: breakdown_def btm_sorted_def)
qed

lemma log_ok_ingest:
  assumes "log_ok fx ac evs"
  shows "\<exists>a. ingest_log cr ac (log_bytes ac evs) fresh = Inr a
    \<and> (\<forall>f \<in> set hour_fields. \<forall>b. f (totals_of (window_rows b a)) = sum_list (map (\<lambda>ev. f (event_share ev)) (filter (\<lambda>ev. in_window b (event_hour ev)) evs)))
    \<and> (\<forall>g \<in> set flow_fields. g (totals_of (window_rows (None, None) a)) = sum_list (map (\<lambda>ev. g (event_share ev)) evs))
    \<and> (\<forall>c \<in> set usd_fields. c (totals_of (window_rows (None, None) a)) = sum_list (map (\<lambda>ev. c (event_share ev)) evs))"
proof -
  obtain a where a: "ingest_log cr ac (log_bytes ac evs) fresh = Inr a"
    "\<And>f H. f \<in> set hour_fields \<Longrightarrow> hour_sum H f (ag_rows a) = hour_sum H f (ag_rows fresh)
          + sum_list (map (\<lambda>ev. f (event_share ev)) (filter (\<lambda>ev. H (event_hour ev)) evs))"
    "\<And>g. g \<in> set flow_fields \<Longrightarrow> hour_sum (\<lambda>_. True) g (ag_rows a) = hour_sum (\<lambda>_. True) g (ag_rows fresh) + sum_list (map (\<lambda>ev. g (event_share ev)) evs)"
    "\<And>c. c \<in> set usd_fields \<Longrightarrow> hour_sum (\<lambda>_. True) c (ag_rows a) = hour_sum (\<lambda>_. True) c (ag_rows fresh) + sum_list (map (\<lambda>ev. c (event_share ev)) evs)"
    using ingest_log_sums[OF _ _ tallied_fresh, of fx ac evs cr] assms unfolding log_ok_def by auto
  have w: "hour_sum (in_window b) f (ag_rows a) = btm_sum f (window_rows b a)" for b and f :: "bucket \<Rightarrow> 'x::ab_group_add"
    by (simp add: hour_sum_def window_rows_def)
  have t: "in_window (None, None) = (\<lambda>_. True)" by (rule ext) (simp add: in_window_def)
  have z: "hour_sum H f (ag_rows fresh) = 0" for H and f :: "bucket \<Rightarrow> 'x::ab_group_add" by (simp add: hour_sum_def)
  show ?thesis
  proof (intro exI[of _ a] conjI ballI allI a(1))
    show "f (totals_of (window_rows b a)) = sum_list (map (\<lambda>ev. f (event_share ev)) (filter (\<lambda>ev. in_window b (event_hour ev)) evs))"
      if f: "f \<in> set hour_fields" for f b
      unfolding totals_sum[OF additive_bucket(1)[OF f]] using a(2)[OF f, of "in_window b"] by (simp add: hour_sum_def window_rows_def)
    show "g (totals_of (window_rows (None, None) a)) = sum_list (map (\<lambda>ev. g (event_share ev)) evs)" if g: "g \<in> set flow_fields" for g
      unfolding totals_sum[OF additive_bucket(2)[OF g]] using a(3)[OF g] by (simp add: hour_sum_def window_rows_def t)
    show "c (totals_of (window_rows (None, None) a)) = sum_list (map (\<lambda>ev. c (event_share ev)) evs)" if c: "c \<in> set usd_fields" for c
      unfolding totals_sum[OF additive_bucket(3)[OF c]] using a(4)[OF c] by (simp add: hour_sum_def window_rows_def t)
  qed
qed

lemma query_fresh:
  assumes "ingest_log cr ac (log_bytes ac evs) fresh = Inr a" "dk_log d = Some (log_bytes ac evs)"
  shows "snd (stats_query files_work cr ac cal today wn d None) = Inr (make_report cal today wn (dk_head d) a)"
proof -
  have "log_bytes ac evs = [] \<Longrightarrow> a = fresh" using assms(1) by (simp add: ingest_log.simps[of cr ac "[]"])
  then show ?thesis unfolding stats_query_report cache_covers_catch_up[OF cache_covers_None]
    using assms by (auto simp: log_text_def files_work_def Let_def usable_cache_def)
qed

section \<open>Alerts\<close>

text \<open>The security events: denied requests, forwarded ones that were warned about, data-loss advisories, echoed
  secrets and rejected policies.\<close>

definition is_alert :: "audit_event \<Rightarrow> bool" where
  "is_alert ev \<longleftrightarrow> ev_action ev \<in> {''deny'', ''warn'', ''tamper''}
     \<or> ev_action ev = ''alert'' \<and> (ev_tripwires ev \<noteq> [] \<or> starts_with (ev_note ev) ''dlp:'')"

lemma sum_of_bool: "(\<And>ev. f ev = of_bool (P ev)) \<Longrightarrow> sum_list (map f evs) = (of_nat (length (filter P evs)) :: u64)"
  by (induction evs) auto

lemma alerts_split:
  "length (filter (\<lambda>ev. ev_action ev = ''deny'') evs)
   + length (filter (\<lambda>ev. ev_action ev = ''alert'' \<and> ev_tripwires ev = [] \<and> starts_with (ev_note ev) ''dlp:'') evs)
   + length (filter (\<lambda>ev. ev_action ev = ''tamper'') evs) + length (filter (\<lambda>ev. ev_action ev = ''warn'') evs)
   + length (filter (\<lambda>ev. ev_action ev = ''alert'' \<and> ev_tripwires ev \<noteq> []) evs) = length (filter is_alert evs)"
  by (induction evs) (auto simp: is_alert_def)

lemma alert_count_exact:
  assumes "\<And>f. f \<in> set hour_fields \<Longrightarrow> f t = sum_list (map (\<lambda>ev. f (event_share ev)) evs)" "length evs < 2 ^ 64"
  shows "unat (alert_count (from_bucket t)) = length (filter is_alert evs)"
proof -
  let ?n = "\<lambda>P. length (filter P evs)"
  let ?trip = "\<lambda>ev. ev_action ev = ''deny'' \<and> (ev_tripwires ev \<noteq> [] \<or> starts_with (ev_note ev) ''tripwire:'')"
    and ?echo = "\<lambda>ev. ev_action ev = ''alert'' \<and> ev_tripwires ev \<noteq> []"
  have c: "bk_denies t = of_nat (?n (\<lambda>ev. ev_action ev = ''deny''))"
    "bk_dlp_alerts t = of_nat (?n (\<lambda>ev. ev_action ev = ''alert'' \<and> ev_tripwires ev = [] \<and> starts_with (ev_note ev) ''dlp:''))"
    "bk_policy_tamper t = of_nat (?n (\<lambda>ev. ev_action ev = ''tamper''))" "bk_warns t = of_nat (?n (\<lambda>ev. ev_action ev = ''warn''))"
    "bk_deny_tripwire t = of_nat (?n ?trip)" "bk_tripwires t = of_nat (?n (\<lambda>ev. ?trip ev \<or> ?echo ev))"
    by (subst assms(1), simp add: hour_fields_def, rule sum_of_bool,
        simp add: event_share_def priced_def add_usage_def Let_def bucket_default_def split: option.split)+
  have e: "?n (\<lambda>ev. ?trip ev \<or> ?echo ev) = ?n ?trip + ?n ?echo" by (induction evs) auto
  have le: "?n P < 2 ^ 64" for P using assms(2) length_filter_le[of P evs] by linarith
  have u: "unat (of_nat (?n P) :: u64) = ?n P" for P using le[of P] by (simp add: unat_of_nat)
  have trip: "unat (bk_tripwires t) = ?n ?trip + ?n ?echo" unfolding c(6) u by (rule e)
  have "unat (saturating_sub (bk_tripwires t) (bk_deny_tripwire t)) = ?n ?echo"
    using trip unfolding unat_saturating_sub c(5) u by simp
  then have s: "saturating_sub (bk_tripwires t) (bk_deny_tripwire t) = of_nat (?n ?echo)"
    using u by (simp add: word_unat_eq_iff)
  have "alert_count (from_bucket t) = of_nat (length (filter is_alert evs))"
    unfolding alerts_split[symmetric] by (simp add: alert_count_def from_bucket_def Let_def s c(1-4))
  then show ?thesis using u by simp
qed

text \<open>C21: every event counts, once, in the window of its hour. On a well-formed log of fewer than 2^64 events and
  bytes, the totals of a report over any window are the sums of what each event in the window is worth on its
  own (\<open>event_share\<close>), although requests move between cells when their usage arrives and old ones are
  forgotten; over all time that also holds of tokens, sizes and dollars. The number of alerts is the number of
  security events in the window.\<close>

theorem report_counts_every_event:
  assumes "log_ok fx ac evs" and "dk_log d = Some (log_bytes ac evs)"
  shows "\<exists>r t. snd (stats_query files_work cr ac cal today wn d None) = Inr r \<and> rp_totals r = from_bucket t
    \<and> (\<forall>f \<in> set hour_fields. f t = sum_list (map (\<lambda>ev. f (event_share ev))
          (filter (\<lambda>ev. in_window (window_bounds cal today wn) (event_hour ev)) evs)))
    \<and> (wn = AllTime \<longrightarrow> (\<forall>g \<in> set flow_fields. g t = sum_list (map (\<lambda>ev. g (event_share ev)) evs))
          \<and> (\<forall>c \<in> set usd_fields. c t = sum_list (map (\<lambda>ev. c (event_share ev)) evs)))
    \<and> unat (alert_count (rp_totals r)) = length (filter (\<lambda>ev. in_window (window_bounds cal today wn) (event_hour ev) \<and> is_alert ev) evs)"
proof -
  let ?b = "window_bounds cal today wn"
  obtain a where a: "ingest_log cr ac (log_bytes ac evs) fresh = Inr a"
    and h: "\<And>f b. f \<in> set hour_fields \<Longrightarrow> f (totals_of (window_rows b a)) = sum_list (map (\<lambda>ev. f (event_share ev)) (filter (\<lambda>ev. in_window b (event_hour ev)) evs))"
    and fl: "\<And>g. g \<in> set flow_fields \<Longrightarrow> g (totals_of (window_rows (None, None) a)) = sum_list (map (\<lambda>ev. g (event_share ev)) evs)"
    and us: "\<And>c. c \<in> set usd_fields \<Longrightarrow> c (totals_of (window_rows (None, None) a)) = sum_list (map (\<lambda>ev. c (event_share ev)) evs)"
    using log_ok_ingest[OF assms(1), of cr] by blast
  have all: "wn = AllTime \<Longrightarrow> ?b = (None, None)" by (simp add: window_bounds_def Let_def)
  have "length (filter (\<lambda>ev. in_window ?b (event_hour ev)) evs) < 2 ^ 64"
    using assms(1) length_filter_le[of "\<lambda>ev. in_window ?b (event_hour ev)" evs] unfolding log_ok_def by linarith
  from alert_count_exact[OF h this]
  have al: "unat (alert_count (from_bucket (totals_of (window_rows ?b a)))) = length (filter (\<lambda>ev. in_window ?b (event_hour ev) \<and> is_alert ev) evs)"
    by (simp add: conj_commute)
  have t: "rp_totals (make_report cal today wn (dk_head d) a) = from_bucket (totals_of (window_rows ?b a))"
    by (simp add: make_report_def Let_def)
  show ?thesis
    by (intro exI[of _ "make_report cal today wn (dk_head d) a"] exI[of _ "totals_of (window_rows ?b a)"] conjI t)
       (use query_fresh[OF a assms(2)] h fl us al t all in \<open>auto\<close>)
qed

lemma sum_sort_key: "sum_list (map g (sort_key k xs)) = (sum_list (map g xs) :: 'a::comm_monoid_add)"
  by (metis mset_map mset_sort sum_mset_sum_list)

lemma named_sum: "sum_list (map (\<lambda>x. f (no_stats x)) (named by_cost m)) = (btm_sum (\<lambda>b. f (from_bucket b)) m :: 'a::ab_group_add)"
  by (simp add: named_def Let_def sum_sort_key btm_sum_def o_def split_def)

lemma session_sum: "sum_list (map (\<lambda>x. f (so_stats x)) (session_rows infos m)) = (btm_sum (\<lambda>b. f (from_bucket b)) m :: 'a::ab_group_add)"
  by (simp add: session_rows_def sum_sort_key btm_sum_def o_def split_def Let_def)

lemma named_names: "distinct (map no_name (named by_cost m))" if "btm_sorted m"
proof -
  have "distinct (map fst m)" using that by (simp add: btm_sorted_def strict_sorted_iff)
  moreover have "mset (map no_name (named by_cost m)) = mset (map fst m)"
    by (simp add: named_def Let_def split_def multiset.map_comp o_def)
  ultimately show ?thesis by (metis mset_eq_imp_distinct_iff)
qed

text \<open>What a report shows of a cell that adds up.\<close>

definition shown_counts :: "(bucket_out \<Rightarrow> u64) list" where
  "shown_counts = [bo_requests, bo_allows, bo_warns, (\<lambda>s. dn_total (bo_denies s)), (\<lambda>s. dn_policy (bo_denies s)),
     (\<lambda>s. dn_tripwire (bo_denies s)), (\<lambda>s. dn_dlp (bo_denies s)), (\<lambda>s. dn_budget (bo_denies s)), bo_tripwires, bo_dlp_alerts,
     bo_policy_tamper, bo_policy_changes, (\<lambda>s. tk_total (bo_tokens s)), bo_bytes_up, bo_bytes_down]"

lemma shown_additive:
  assumes "f \<in> set shown_counts"
  shows "additive_merge (\<lambda>_. True) (\<lambda>b. f (from_bucket b)) bucket_default merge_bucket"
  using assms unfolding shown_counts_def list.set insert_iff empty_iff additive_merge_def
  by (elim disjE FalseE; simp add: from_bucket_def bucket_default_def merge_bucket_def Let_def)

lemma cost_additive:
  "additive_merge (\<lambda>_. True) (\<lambda>b. bo_cost_usd (from_bucket b)) bucket_default merge_bucket"
  "additive_merge (\<lambda>_. True) (\<lambda>b. bo_plan_absorbed_usd (from_bucket b)) bucket_default merge_bucket"
  unfolding additive_merge_def by (simp_all add: from_bucket_def bucket_default_def merge_bucket_def Let_def)

lemma total_breakdown:
  assumes "additive_merge (\<lambda>_. True) f bucket_default merge_bucket" "\<And>k b. name k b \<noteq> None"
  shows "btm_sum f (breakdown name rows) = f (totals_of rows)"
proof -
  have "(\<lambda>(k, b). if name k b = None then 0 else f b) = (\<lambda>(_, b). f b)" by (rule ext) (simp add: assms(2) split: prod.split)
  then show ?thesis unfolding breakdown_sum(1)[OF assms(1)] totals_sum[OF assms(1)] by (simp add: btm_sum_def)
qed

lemma partial_breakdown:
  assumes "additive_merge (\<lambda>_. True) f bucket_default merge_bucket" "\<And>k b. name k b = None \<Longrightarrow> f b = 0"
  shows "btm_sum f (breakdown name rows) = f (totals_of rows)"
proof -
  have "(\<lambda>(k, b). if name k b = None then 0 else f b) = (\<lambda>(_, b). f b)" using assms(2) by auto
  then show ?thesis unfolding breakdown_sum(1)[OF assms(1)] totals_sum[OF assms(1)] by (simp add: btm_sum_def)
qed

text \<open>The breakdowns of a report agree with its totals. For any rows, in any window, every counter and the
  dollars add up over the hosts and over the days to the total, and requests and uploaded bytes also over the
  sessions and over the models; no name is listed twice.\<close>

theorem breakdowns_add_up:
  "let r = make_report cal today wn anchor a in
   list_all (\<lambda>f. sum_list (map (\<lambda>x. f (no_stats x)) (rp_by_host r)) = f (rp_totals r)
       \<and> sum_list (map (\<lambda>x. f (no_stats x)) (rp_by_day r)) = f (rp_totals r)) shown_counts
   \<and> list_all (\<lambda>c. sum_list (map (\<lambda>x. c (no_stats x)) (rp_by_host r)) = c (rp_totals r)
       \<and> sum_list (map (\<lambda>x. c (no_stats x)) (rp_by_day r)) = c (rp_totals r)) [bo_cost_usd, bo_plan_absorbed_usd]
   \<and> list_all (\<lambda>f. sum_list (map (\<lambda>x. f (no_stats x)) (rp_by_model r)) = f (rp_totals r)
       \<and> sum_list (map (\<lambda>x. f (so_stats x)) (rp_by_session r)) = f (rp_totals r)) [bo_requests, bo_bytes_up]
   \<and> list_all (\<lambda>l. distinct (map no_name l)) [rp_by_host r, rp_by_day r, rp_by_model r]"
proof -
  define r where "r = make_report cal today wn anchor a"
  define rows where "rows = window_rows (window_bounds cal today wn) a"
  have r: "rp_totals r = from_bucket (totals_of rows)" "rp_by_host r = named True (breakdown host_name rows)"
    "rp_by_day r = named False (breakdown (day_name cal) rows)" "rp_by_model r = named True (breakdown model_name rows)"
    "rp_by_session r = session_rows (ag_sessions a) (breakdown session_name rows)"
    by (simp_all add: r_def rows_def make_report_def Let_def)
  have n: "host_name k b \<noteq> None" "day_name cal k b \<noteq> None" for k b by (simp_all add: host_name_def day_name_def)
  have s: "btm_sorted (breakdown name rows)" for name
    using breakdown_sum(2)[OF cost_additive(1)] .
  have p: "model_name k b = None \<Longrightarrow> bk_requests b = 0 \<and> bk_bytes_up b = 0" "session_name k b = None \<Longrightarrow> bk_requests b = 0 \<and> bk_bytes_up b = 0" for k b
    by (auto simp: model_name_def session_name_def word_gt_0 split: if_splits)
  have q: "bo_requests (from_bucket b) = bk_requests b" "bo_bytes_up (from_bucket b) = bk_bytes_up b" for b
    by (simp_all add: from_bucket_def Let_def)
  have m: "bo_requests \<in> set shown_counts" "bo_bytes_up \<in> set shown_counts" by (simp_all add: shown_counts_def)
  show ?thesis unfolding r_def[symmetric] Let_def
  proof (intro conjI)
    show "list_all (\<lambda>f. sum_list (map (\<lambda>x. f (no_stats x)) (rp_by_host r)) = f (rp_totals r)
       \<and> sum_list (map (\<lambda>x. f (no_stats x)) (rp_by_day r)) = f (rp_totals r)) shown_counts"
      unfolding list_all_iff r named_sum using total_breakdown[where name = host_name, OF shown_additive n(1)] total_breakdown[where name = "day_name cal", OF shown_additive n(2)] by blast
    show "list_all (\<lambda>c. sum_list (map (\<lambda>x. c (no_stats x)) (rp_by_host r)) = c (rp_totals r)
       \<and> sum_list (map (\<lambda>x. c (no_stats x)) (rp_by_day r)) = c (rp_totals r)) [bo_cost_usd, bo_plan_absorbed_usd]"
      unfolding r named_sum by (simp add: total_breakdown[where name = host_name, OF cost_additive(1) n(1)] total_breakdown[where name = "day_name cal", OF cost_additive(1) n(2)]
        total_breakdown[where name = host_name, OF cost_additive(2) n(1)] total_breakdown[where name = "day_name cal", OF cost_additive(2) n(2)])
    show "list_all (\<lambda>f. sum_list (map (\<lambda>x. f (no_stats x)) (rp_by_model r)) = f (rp_totals r)
       \<and> sum_list (map (\<lambda>x. f (so_stats x)) (rp_by_session r)) = f (rp_totals r)) [bo_requests, bo_bytes_up]"
      unfolding r named_sum session_sum
      using partial_breakdown[OF shown_additive[OF m(1)], of model_name rows] partial_breakdown[OF shown_additive[OF m(2)], of model_name rows]
        partial_breakdown[OF shown_additive[OF m(1)], of session_name rows] partial_breakdown[OF shown_additive[OF m(2)], of session_name rows] p q
      by simp
    show "list_all (\<lambda>l. distinct (map no_name l)) [rp_by_host r, rp_by_day r, rp_by_model r]"
      unfolding r using named_names[OF s] by simp
  qed
qed

section \<open>The integrity flag\<close>

lemma verify_link_hash: "verify_link cr ac p ev \<Longrightarrow> \<exists>v. ev_hash ev = chain_hash cr ac p ev v"
  by (auto simp: verify_link_def split: if_splits)

lemma ingest_log_integrity:
  assumes "codec_ok fx ac" "crypto_ok cr" "list_all (\<lambda>ev. event_exact fx ev \<and> hour_of (ev_ts ev) \<noteq> None) evs"
    "ingest_log cr ac (log_bytes ac evs) a = Inr a'"
  shows "(ag_integrity a' = None) = (ag_integrity a = None \<and> chain_ok cr ac (if ag_last_hash a = [] then ZERO_HASH else ag_last_hash a) evs)
    \<and> ag_last_seq a' = (if evs = [] then ag_last_seq a else Some (ev_seq (last evs)))"
  using assms(3,4)
proof (induction evs arbitrary: a)
  case Nil
  then show ?case by (simp add: log_bytes_def ingest_log.simps[of cr ac "[]"])
next
  case (Cons ev evs)
  have x: "line_event ac (event_line ac ev) = Some ev" "line_shaped (event_line ac ev)"
    using Cons.prems(1) assms(1) by (simp_all add: codec_ok_def)
  obtain h where h: "hour_of (ev_ts ev) = Some h" using Cons.prems(1) by auto
  let ?prev = "if ag_last_hash a = [] then ZERO_HASH else ag_last_hash a"
  obtain a1 where a1: "ingest_log cr ac (event_line ac ev @ CHR 0x0A # log_bytes ac evs) a = ingest_log cr ac (log_bytes ac evs) (apply_at ev h a1)"
    "ag_rows a1 = ag_rows a" "ag_pending a1 = ag_pending a" "ag_last_hash a1 = ev_hash ev" "ag_last_seq a1 = Some (ev_seq ev)"
    "(ag_integrity a1 = None) = (ag_integrity a = None \<and> verify_link cr ac ?prev ev)"
    by (rule ingest_log_event[OF x h, where cr = cr and a = a and rest = "log_bytes ac evs"])
  have "ingest_log cr ac (log_bytes ac evs) (apply_at ev h a1) = Inr a'" using Cons.prems(2) a1(1) by (simp add: log_bytes_def)
  from Cons.IH[OF _ this] Cons.prems(1)
  have i: "(ag_integrity a' = None) = (ag_integrity a1 = None \<and> chain_ok cr ac (if ev_hash ev = [] then ZERO_HASH else ev_hash ev) evs)"
    "ag_last_seq a' = (if evs = [] then Some (ev_seq ev) else Some (ev_seq (last evs)))"
    by (simp_all add: apply_at_frame a1(4,5))
  have ne: "ev_hash ev \<noteq> []" if v: "verify_link cr ac ?prev ev"
  proof -
    have "length (chain_hash cr ac ?prev ev v) = 64" for v using assms(2) by (simp add: chain_hash_def crypto_ok_def)
    moreover obtain v where "ev_hash ev = chain_hash cr ac ?prev ev v" using verify_link_hash[OF v] by blast
    ultimately have "length (ev_hash ev) = 64" by simp
    then show ?thesis by auto
  qed
  show ?case
  proof (cases "verify_link cr ac ?prev ev")
    case True
    then show ?thesis using i a1(6) ne by simp
  next
    case False
    then show ?thesis using i a1(6) by simp
  qed
qed

lemma verify_lines_chain:
  assumes "codec_ok fx ac" "list_all (event_exact fx) evs" "verify_lines cr ac prev n lst (map (event_line ac) evs) = Inr x"
  shows "chain_ok cr ac prev evs \<and> snd x = tail_mark lst evs"
  using assms(2,3)
proof (induction evs arbitrary: prev n lst)
  case (Cons ev evs)
  have "line_event ac (event_line ac ev) = Some ev" and s: "line_shaped (event_line ac ev)"
    using Cons.prems(1) assms(1) by (simp_all add: codec_ok_def)
  then have "verify_link cr ac prev ev" "verify_lines cr ac (ev_hash ev) (n + 1) (Some (ev_seq ev, ev_hash ev)) (map (event_line ac) evs) = Inr x"
    using Cons.prems(2) line_shaped_facts(2)[OF s] by (auto simp: line_shaped_def split: if_splits)
  with Cons.IH[OF _ this(2)] Cons.prems(1) show ?case by (auto simp: tail_mark_def)
qed (auto simp: tail_mark_def)

text \<open>The integrity flag of a report is exact. On a log of whole events, a report is flagged exactly when the
  hash chain is broken somewhere or the log ends before the event that the head anchor names; a log that
  \<open>verify\<close> accepts is never flagged.\<close>

theorem report_integrity_exact:
  assumes "log_ok fx ac evs" and "crypto_ok cr" and "dk_log d = Some (log_bytes ac evs)"
  shows "\<exists>r. snd (stats_query files_work cr ac cal today wn d None) = Inr r
    \<and> (rp_integrity r = None) = (chain_ok cr ac ZERO_HASH evs
        \<and> (case dk_head d of None \<Rightarrow> True | Some (s, _) \<Rightarrow> evs \<noteq> [] \<and> s \<le> ev_seq (last evs)))
    \<and> (\<forall>n. audit_verify cr ac d = Inr n \<longrightarrow> rp_integrity r = None)"
proof -
  have ok: "codec_ok fx ac" "list_all (\<lambda>ev. event_exact fx ev \<and> hour_of (ev_ts ev) \<noteq> None) evs" "list_all (event_exact fx) evs"
    using assms(1) by (auto simp: log_ok_def list_all_iff)
  obtain a where a: "ingest_log cr ac (log_bytes ac evs) fresh = Inr a" using log_ok_ingest[OF assms(1), of cr] by blast
  have f: "ag_integrity fresh = None" "ag_last_hash fresh = []" "ag_last_seq fresh = None"
    by (simp_all add: from_cache_def stats_cache_default_def)
  have i: "(ag_integrity a = None) = chain_ok cr ac ZERO_HASH evs" "ag_last_seq a = (if evs = [] then None else Some (ev_seq (last evs)))"
    using ingest_log_integrity[OF ok(1) assms(2) ok(2) a] f by simp_all
  let ?r = "make_report cal today wn (dk_head d) a"
  have r: "rp_integrity ?r = truncated_log (dk_head d) a" by (simp add: make_report_def Let_def)
  have iff: "(rp_integrity ?r = None) = (chain_ok cr ac ZERO_HASH evs
        \<and> (case dk_head d of None \<Rightarrow> True | Some (s, _) \<Rightarrow> evs \<noteq> [] \<and> s \<le> ev_seq (last evs)))"
  proof (cases "ag_integrity a")
    case None
    then show ?thesis unfolding r truncated_log_def using i by (cases "dk_head d") (auto simp: not_less split: if_splits)
  next
    case (Some x)
    then show ?thesis unfolding r truncated_log_def using i by simp
  qed
  have "rp_integrity ?r = None" if v: "audit_verify cr ac d = Inr n" for n
  proof -
    obtain x where x: "verify_lines cr ac ZERO_HASH 0 None (map (event_line ac) evs) = Inr x" "check_anchor (dk_head d) (snd x) (fst x) = Inr n"
      using v assms(3) file_lines_log[OF ok(1,3)] by (auto simp: audit_verify_def split: sum.splits prod.splits)
    from verify_lines_chain[OF ok(1,3) x(1)] x(2) show ?thesis
      unfolding iff by (auto simp: check_anchor_def tail_mark_def split: option.splits if_splits)
  qed
  then show ?thesis
    by (intro exI[of _ ?r] conjI allI impI query_fresh[OF a assms(3)] iff)
qed

definition demo_usage :: usage_rec where
  "demo_usage = \<lparr>ur_model = ''m'', ur_input = 40, ur_output = 2, ur_cache_read = 0, ur_cache_write = 0,
     ur_cost_usd = 0, ur_ref_cost_usd = 0\<rparr>"

definition demo_logged :: "string \<Rightarrow> u64 option \<Rightarrow> usage_rec option \<Rightarrow> audit_event" where
  "demo_logged action seq u = \<lparr>ev_seq = 0, ev_ts = ''2026-07-01T10:00:00Z'', ev_host = ''api'', ev_path = [], ev_method = [],
     ev_action = action, ev_rule = ''default'', ev_escalated = False, ev_swaps = [], ev_tripwires = [], ev_status = 200,
     ev_note = [], ev_pid = 7, ev_sid = [], ev_dur_ms = None, ev_bytes_up = 3, ev_bytes_down = 5, ev_usage = u, ev_req_seq = seq,
     ev_fp = None, ev_prev_hash = ZERO_HASH, ev_hash = ZERO_HASH\<rparr>"

text \<open>A streamed request, the usage that arrives for it later, and a denied request.\<close>

definition demo_log :: "audit_event list" where
  "demo_log = [demo_logged ''allow'' None None, demo_logged ''usage'' (Some 0) (Some demo_usage), demo_logged ''deny'' None None]"

definition demo_calendar :: calendar where
  "demo_calendar = \<lparr>cal_first_of_month = (\<lambda>d. d - 3), cal_midnight_hour = (\<lambda>d. ''2026-07-0'' @ show_nat (nat d) @ ''T00''),
     cal_local_day = take 10\<rparr>"

lemma demo_log_ok: "log_ok zero_usd demo_codec demo_log"
  using demo_codec_ok
  by (simp add: log_ok_def demo_log_def demo_logged_def demo_usage_def event_exact_def hour_of_def is_char_boundary_def is_utf8_cont_def)

lemma demo_log_hours: "event_hour (demo_logged x y z) = ''2026-07-01T10''"
  by (simp add: event_hour_def demo_logged_def hour_of_def is_char_boundary_def is_utf8_cont_def)

theorem incremental_query_exact_witness:
  "snd (stats_query files_work length_crypto demo_codec demo_calendar 7 AllTime
       \<lparr>dk_log = Some (log_bytes demo_codec demo_log @ ''x''), dk_head = None\<rparr>
       (fst (catch_up files_work length_crypto demo_codec (Some (log_bytes demo_codec demo_log)) None)))
   = snd (stats_query files_work length_crypto demo_codec demo_calendar 7 AllTime
       \<lparr>dk_log = Some (log_bytes demo_codec demo_log @ ''x''), dk_head = None\<rparr> None)"
proof -
  have "stats_history length_crypto demo_codec (Some (log_text (Some (log_bytes demo_codec demo_log)) @ ''x''))
     (fst (catch_up files_work length_crypto demo_codec (Some (log_bytes demo_codec demo_log)) None))"
    by (intro stats_history.grow stats_history.query stats_history.start)
  then show ?thesis by (intro incremental_query_exact[THEN conjunct1]) (simp add: log_text_def)
qed

theorem report_counts_every_event_witness:
  "\<exists>r. snd (stats_query files_work length_crypto demo_codec demo_calendar 7 AllTime
       \<lparr>dk_log = Some (log_bytes demo_codec demo_log), dk_head = None\<rparr> None) = Inr r
   \<and> bo_requests (rp_totals r) = 2 \<and> bo_bytes_up (rp_totals r) = 6 \<and> tk_input (bo_tokens (rp_totals r)) = 40
   \<and> unat (alert_count (rp_totals r)) = 1"
proof -
  obtain r t where q: "snd (stats_query files_work length_crypto demo_codec demo_calendar 7 AllTime
       \<lparr>dk_log = Some (log_bytes demo_codec demo_log), dk_head = None\<rparr> None) = Inr r" and r: "rp_totals r = from_bucket t"
    and h: "\<And>f. f \<in> set hour_fields \<Longrightarrow> f t = sum_list (map (\<lambda>ev. f (event_share ev)) (filter (\<lambda>ev. in_window (window_bounds demo_calendar 7 AllTime) (event_hour ev)) demo_log))"
    and g: "\<And>g. g \<in> set flow_fields \<Longrightarrow> g t = sum_list (map (\<lambda>ev. g (event_share ev)) demo_log)"
    and a: "unat (alert_count (rp_totals r)) = length (filter (\<lambda>ev. in_window (window_bounds demo_calendar 7 AllTime) (event_hour ev) \<and> is_alert ev) demo_log)"
    using report_counts_every_event[OF demo_log_ok, of "\<lparr>dk_log = Some (log_bytes demo_codec demo_log), dk_head = None\<rparr>" length_crypto demo_calendar 7 AllTime]
    by auto
  have w: "in_window (window_bounds demo_calendar 7 AllTime) x" for x by (simp add: window_bounds_def in_window_def)
  have "bk_requests t = 2" "bk_bytes_up t = 6"
    using h[of bk_requests] h[of bk_bytes_up] by (simp_all add: hour_fields_def w demo_log_def event_share_def demo_logged_def starts_with_def priced_def add_usage_def demo_usage_def bucket_default_def Let_def)
  moreover have "bk_input_tokens t = 40"
    using g[of bk_input_tokens] by (simp add: flow_fields_def demo_log_def event_share_def demo_logged_def starts_with_def priced_def add_usage_def demo_usage_def bucket_default_def Let_def)
  moreover have "unat (alert_count (rp_totals r)) = 1"
    unfolding a by (simp add: w demo_log_def demo_logged_def is_alert_def starts_with_def)
  ultimately show ?thesis using q r by (intro exI[of _ r]) (simp add: from_bucket_def Let_def)
qed

theorem report_integrity_exact_witness:
  "\<exists>r. snd (stats_query files_work length_crypto demo_codec demo_calendar 7 AllTime
       \<lparr>dk_log = Some (log_bytes demo_codec demo_log), dk_head = Some (5, ZERO_HASH)\<rparr> None) = Inr r
   \<and> rp_integrity r \<noteq> None"
proof -
  have "ev_seq (last demo_log) = 0" by (simp add: demo_log_def demo_logged_def)
  then show ?thesis
    using report_integrity_exact[OF demo_log_ok length_crypto_ok, of "\<lparr>dk_log = Some (log_bytes demo_codec demo_log), dk_head = Some (5, ZERO_HASH)\<rparr>" demo_calendar 7 AllTime]
    by auto
qed

end
