(* ===== verification/Stats_Latency.thy ===== *)
theory Stats_Latency
  imports Stats
begin

text \<open>The latency cells of \<open>src/stats.rs\<close>: observing and merging them, the buckets by bit length, and how close the
  reported percentile is to the exact one.\<close>

section \<open>Latencies\<close>

definition dur_of :: "u64 list \<Rightarrow> dur_stat" where
  "dur_of xs = fold dur_observe xs dur_default"

abbreviation in_bucket :: "nat \<Rightarrow> u64 list \<Rightarrow> nat" where
  "in_bucket i xs \<equiv> length (filter (\<lambda>x. dur_bucket x = i) xs)"

lemma bucket_lt: "dur_bucket x < DUR_BUCKETS"
  by (simp add: dur_bucket_def DUR_BUCKETS_def)

lemma dur_of_fields:
  "ds_count (dur_of xs) = of_nat (length xs) \<and> ds_sum_ms (dur_of xs) = sum_list xs \<and> ds_max_ms (dur_of xs) = fold max xs 0
   \<and> length (ds_buckets (dur_of xs)) = (if xs = [] then 0 else DUR_BUCKETS)
   \<and> dur_resized (dur_of xs) = map (\<lambda>i. of_nat (in_bucket i xs)) [0..<DUR_BUCKETS]"
proof (induction xs rule: rev_induct)
  case Nil
  show ?case by (simp add: dur_of_def dur_default_def dur_resized_def DUR_BUCKETS_def map_replicate_trivial)
next
  case (snoc x xs)
  have r: "dur_resized (dur_observe x d) = (dur_resized d)[dur_bucket x := dur_resized d ! dur_bucket x + 1]" for d
    by (simp add: dur_observe_def dur_resized_def Let_def)
  have "(map (\<lambda>i. of_nat (in_bucket i xs)) [0..<DUR_BUCKETS])[dur_bucket x := of_nat (in_bucket (dur_bucket x) xs) + 1]
      = map (\<lambda>i. of_nat (in_bucket i (xs @ [x])) :: u64) [0..<DUR_BUCKETS]"
    by (rule nth_equalityI) (auto simp: nth_list_update)
  then have "dur_resized (dur_of (xs @ [x])) = map (\<lambda>i. of_nat (in_bucket i (xs @ [x]))) [0..<DUR_BUCKETS]"
    using snoc.IH bucket_lt[of x] r[of "dur_of xs"] by (simp add: dur_of_def)
  moreover have "length (dur_resized (dur_of xs)) = DUR_BUCKETS" using snoc.IH by simp
  ultimately show ?case
    using snoc.IH by (simp add: dur_of_def) (simp add: dur_observe_def Let_def add.commute max.commute)
qed

lemma add_buckets_map: "add_buckets (map f is) (map g is) = map (\<lambda>i. f i + g i) is"
  by (induction "is") simp_all

lemma dur_buckets_of: "xs \<noteq> [] \<Longrightarrow> ds_buckets (dur_of xs) = map (\<lambda>i. of_nat (in_bucket i xs)) [0..<DUR_BUCKETS]"
  using dur_of_fields[of xs] by (auto simp: dur_resized_def split: if_splits)

lemma fold_max_append: "fold max ys (a :: u64) = max a (fold max ys 0)"
proof (induction ys arbitrary: a)
  case (Cons y ys)
  show ?case using Cons[of "max y a"] Cons[of "max y 0"] by (simp add: max.assoc max.commute max.left_commute)
qed simp

text \<open>Merging two latency cells is observing both sequences.\<close>

lemma dur_merge_of:
  assumes "length ys < 2 ^ 64"
  shows "dur_merge (dur_of xs) (dur_of ys) = dur_of (xs @ ys)"
proof (cases "ys = []")
  case True
  then show ?thesis by (simp add: dur_merge_def dur_of_def dur_default_def)
next
  case False
  have "unat (of_nat (length ys) :: u64) = length ys" using assms by (simp add: unat_of_nat)
  then have "ds_count (dur_of ys) \<noteq> 0" using False dur_of_fields[of ys] by auto
  then show ?thesis
    using dur_of_fields[of xs] dur_of_fields[of ys] dur_of_fields[of "xs @ ys"] dur_buckets_of[OF False] dur_buckets_of[of "xs @ ys"] False
    by (intro dur_stat.equality) (simp_all add: dur_merge_def add_buckets_map fold_max_append[of ys "fold max xs 0"])
qed

section \<open>Buckets by bit length\<close>

abbreviation bit_len :: "u64 \<Rightarrow> nat" where
  "bit_len x \<equiv> 64 - leading_zeros x"

lemma bit_len_bits:
  shows "64 - leading_zeros x \<le> k \<Longrightarrow> k < 64 \<Longrightarrow> \<not> bit x k" and "0 < bit_len x \<Longrightarrow> bit x (bit_len x - 1)"
proof -
  let ?l = "rev [0..<64]" and ?P = "\<lambda>i. \<not> bit x i"
  have n: "k < 64 \<Longrightarrow> ?l ! (63 - k) = k" for k by (simp add: rev_nth)
  show "\<not> bit x k" if "64 - leading_zeros x \<le> k" "k < 64"
  proof -
    have "63 - k < length (takeWhile ?P ?l)" using that by (simp add: leading_zeros_def)
    then have "?P (takeWhile ?P ?l ! (63 - k))" using set_takeWhileD nth_mem by fastforce
    then show ?thesis using takeWhile_nth[of "63 - k" ?P ?l] n[OF that(2)] \<open>63 - k < length (takeWhile ?P ?l)\<close> by simp
  qed
  show "bit x (bit_len x - 1)" if "0 < bit_len x"
  proof -
    have "length (takeWhile ?P ?l) < length ?l" using that by (simp add: leading_zeros_def)
    from nth_length_takeWhile[OF this] have "bit x (?l ! leading_zeros x)" by (simp add: leading_zeros_def)
    moreover have "?l ! leading_zeros x = 63 - leading_zeros x" using that by (simp add: rev_nth)
    ultimately show ?thesis by (simp add: diff_right_commute)
  qed
qed

lemma bit_len_bounds: "unat x < 2 ^ bit_len x" "0 < bit_len x \<Longrightarrow> 2 ^ (bit_len x - 1) \<le> unat x"
proof -
  have "take_bit (bit_len x) x = x"
  proof (rule bit_eqI)
    fix k assume "possible_bit TYPE(64 word) k"
    then have "k < 64" by simp
    then show "bit (take_bit (bit_len x) x) k = bit x k" using bit_len_bits(1)[of x k] by (cases "bit_len x \<le> k") (simp_all add: bit_take_bit_iff)
  qed
  then have "unat x = take_bit (bit_len x) (unat x)" by (metis unsigned_take_bit_eq)
  then show "unat x < 2 ^ bit_len x" by (metis take_bit_nat_less_exp)
  show "2 ^ (bit_len x - 1) \<le> unat x" if "0 < bit_len x"
  proof -
    have "bit (unat x) (bit_len x - 1)" using bit_len_bits(2)[OF that] by (simp add: bit_unsigned_iff)
    then have "odd (unat x div 2 ^ (bit_len x - 1))" by (simp add: bit_iff_odd)
    then have "unat x div 2 ^ (bit_len x - 1) \<noteq> 0" by (metis even_zero)
    then show ?thesis by (simp add: div_eq_0_iff not_less)
  qed
qed

lemma unat_pow2_minus1: "j < 64 \<Longrightarrow> unat (2 ^ j - 1 :: u64) = 2 ^ j - 1"
proof -
  assume "j < 64"
  then have "(2 :: nat) ^ j < 2 ^ 64" by (intro power_strict_increasing) simp_all
  then have "unat (of_nat (2 ^ j) :: u64) = 2 ^ j" unfolding unat_of_nat by simp
  then have "unat (2 ^ j :: u64) = 2 ^ j" by simp
  moreover have "(1 :: u64) \<le> 2 ^ j" using calculation by (simp add: word_le_nat_alt)
  ultimately show ?thesis by (simp add: unat_sub)
qed

lemma dur_bucket_range:
  "dur_bucket x = 0 \<Longrightarrow> unat x = 0" "0 < dur_bucket x \<Longrightarrow> 2 ^ (dur_bucket x - 1) \<le> unat x"
  "dur_bucket x < 21 \<Longrightarrow> unat x < 2 ^ dur_bucket x"
proof -
  note b = bit_len_bounds[of x]
  show "dur_bucket x = 0 \<Longrightarrow> unat x = 0" using b(1) by (simp add: dur_bucket_def DUR_BUCKETS_def)
  show "0 < dur_bucket x \<Longrightarrow> 2 ^ (dur_bucket x - 1) \<le> unat x"
  proof -
    assume "0 < dur_bucket x"
    then have "0 < bit_len x" "dur_bucket x - 1 \<le> bit_len x - 1" by (simp_all add: dur_bucket_def)
    then have "(2 :: nat) ^ (dur_bucket x - 1) \<le> 2 ^ (bit_len x - 1)" by (intro power_increasing) simp_all
    then show ?thesis using b(2) \<open>0 < bit_len x\<close> by linarith
  qed
  show "dur_bucket x < 21 \<Longrightarrow> unat x < 2 ^ dur_bucket x" using b(1) by (auto simp: dur_bucket_def DUR_BUCKETS_def min_def split: if_splits)
qed

lemma dur_bucket_mono: "unat x \<le> unat y \<Longrightarrow> dur_bucket x \<le> dur_bucket y"
proof (rule ccontr)
  assume a: "unat x \<le> unat y" "\<not> dur_bucket x \<le> dur_bucket y"
  then have "dur_bucket y < 21" "dur_bucket y \<le> dur_bucket x - 1" "0 < dur_bucket x"
    using bucket_lt[of x] by (simp_all add: DUR_BUCKETS_def)
  then have "unat y < 2 ^ dur_bucket y" "(2 :: nat) ^ dur_bucket y \<le> 2 ^ (dur_bucket x - 1)" "2 ^ (dur_bucket x - 1) \<le> unat x"
    using dur_bucket_range by (auto intro: power_increasing)
  then show False using a(1) by linarith
qed

section \<open>The percentile\<close>

abbreviation below :: "nat \<Rightarrow> u64 list \<Rightarrow> nat" where
  "below i xs \<equiv> length (filter (\<lambda>x. dur_bucket x < i) xs)"

lemma below_Suc: "below (Suc i) xs = below i xs + in_bucket i xs"
  by (induction xs) (auto simp: less_Suc_eq)

lemma p95_search:
  assumes "length xs < 2 ^ 64" "t \<le> length xs" "i \<le> DUR_BUCKETS" "below i xs < t"
  shows "\<exists>j < DUR_BUCKETS. below j xs < t \<and> t \<le> below (Suc j) xs
    \<and> p95_from (of_nat t) mx (of_nat (below i xs)) i (map (\<lambda>i. of_nat (in_bucket i xs)) [i..<DUR_BUCKETS])
      = min (if j = 0 then 0 else push_bit j 1 - 1) mx"
  using assms(3,4)
proof (induction i rule: inc_induct)
  case base
  have "below DUR_BUCKETS xs = length xs" using bucket_lt by simp
  then show ?case using base assms(2) by simp
next
  case (step i)
  have w: "unat (of_nat n :: u64) = n" if "n \<le> length xs" for n using that assms(1) by (simp add: unat_of_nat)
  have le: "below j xs \<le> length xs" for j by simp
  have m: "map (\<lambda>i. of_nat (in_bucket i xs) :: u64) [i..<DUR_BUCKETS]
      = of_nat (in_bucket i xs) # map (\<lambda>i. of_nat (in_bucket i xs)) [Suc i..<DUR_BUCKETS]"
    using step.hyps(2) by (simp add: upt_conv_Cons)
  have s: "(of_nat (below i xs) :: u64) + of_nat (in_bucket i xs) = of_nat (below (Suc i) xs)" by (simp add: below_Suc)
  have c: "(of_nat t :: u64) \<le> of_nat (below (Suc i) xs) \<longleftrightarrow> t \<le> below (Suc i) xs"
    unfolding word_le_nat_alt w[OF assms(2)] w[OF le] ..
  show ?case
  proof (cases "t \<le> below (Suc i) xs")
    case True
    then show ?thesis using step.hyps(2) step.prems c by (intro exI[of _ i]) (simp add: m s)
  next
    case False
    then obtain j where j: "j < DUR_BUCKETS" "below j xs < t" "t \<le> below (Suc j) xs"
      "p95_from (of_nat t) mx (of_nat (below (Suc i) xs)) (Suc i) (map (\<lambda>i. of_nat (in_bucket i xs)) [Suc i..<DUR_BUCKETS])
        = min (if j = 0 then 0 else push_bit j 1 - 1) mx"
      using step.IH by (auto simp: not_le)
    have e: "p95_from (of_nat t) mx (of_nat (below i xs)) i (map (\<lambda>i. of_nat (in_bucket i xs)) [i..<DUR_BUCKETS])
      = p95_from (of_nat t) mx (of_nat (below (Suc i) xs)) (Suc i) (map (\<lambda>i. of_nat (in_bucket i xs)) [Suc i..<DUR_BUCKETS])"
      unfolding m p95_from.simps s using False by (simp only: c if_False Suc_eq_plus1[symmetric])
    show ?thesis unfolding e by (intro exI[of _ j] conjI) (rule j)+
  qed
qed

lemma sorted_filter_nth:
  assumes "sorted s" "\<And>a b. a \<in> set s \<Longrightarrow> b \<in> set s \<Longrightarrow> a \<le> b \<Longrightarrow> P b \<Longrightarrow> P a" "i < length s"
  shows "P (s ! i) \<longleftrightarrow> i < length (filter P s)"
  using assms
proof (induction s arbitrary: i)
  case (Cons a s)
  show ?case
  proof (cases "P a")
    case True
    have "P (s ! k) \<longleftrightarrow> k < length (filter P s)" if "k < length s" for k
      using Cons.prems(1) that by (intro Cons.IH) (auto intro: Cons.prems(2))
    then show ?thesis using True Cons.prems(3) by (cases i) auto
  next
    case False
    then have "\<forall>b \<in> set (a # s). \<not> P b" using Cons.prems(1) Cons.prems(2)[of a] by auto
    moreover have "(a # s) ! i \<in> set (a # s)" using Cons.prems(3) nth_mem by blast
    ultimately show ?thesis by auto
  qed
qed simp

text \<open>The exact 95th percentile of a sequence: its value at the rank that is 95 percent of the count, rounded up.\<close>

definition rank95 :: "nat \<Rightarrow> nat" where
  "rank95 n = (95 * n + 99) div 100"

definition exact_p95 :: "u64 list \<Rightarrow> nat" where
  "exact_p95 xs = sort (map unat xs) ! (rank95 (length xs) - 1)"

lemma div_ceil_unat:
  fixes a b :: u64
  assumes "unat a + 1 < 2 ^ 64" "unat b \<noteq> 0"
  shows "unat (div_ceil a b) = unat a div unat b + (if unat a mod unat b = 0 then 0 else 1)"
proof (cases "a mod b = 0")
  case True
  then have "unat (a mod b) = 0" by simp
  then show ?thesis using True unfolding unat_mod by (simp add: div_ceil_def unat_div)
next
  case False
  then have "unat (a mod b) \<noteq> 0" by (simp add: unat_eq_0)
  moreover have "unat (a div b) + 1 < 2 ^ 64" using assms(1) div_le_dividend[of "unat a" "unat b"] unfolding unat_div by linarith
  then have "unat (a div b + 1) = unat (a div b) + 1" by (simp add: unat_word_ariths)
  ultimately show ?thesis using False by (simp add: div_ceil_def unat_div unat_mod)
qed

lemma rank95_alt: "rank95 n = 95 * n div 100 + (if 95 * n mod 100 = 0 then 0 else 1)"
proof -
  have a: "rank95 n = 95 * n div 100 + (95 * n mod 100 + 99) div 100" unfolding rank95_def by (subst div_add1_eq) simp
  have b: "(r + 99) div 100 = 1" if "r \<noteq> 0" "r < 100" for r :: nat using that by (intro div_nat_eqI) simp_all
  show ?thesis
  proof (cases "95 * n mod 100 = 0")
    case False
    then show ?thesis using a b[OF False] by simp
  qed (simp add: a)
qed

lemma p95_threshold:
  assumes "95 * n + 1 < 2 ^ 64"
  shows "div_ceil (of_nat n * 95) 100 = (of_nat (rank95 n) :: u64)"
proof -
  have u: "unat (of_nat n * 95 :: u64) = 95 * n" using assms by (simp add: unat_word_ariths unat_of_nat mult.commute)
  have "rank95 n \<le> n" by (simp add: rank95_def)
  then have "rank95 n < 2 ^ 64" using assms by linarith
  then have l: "unat (of_nat (rank95 n) :: u64) = rank95 n" by (simp add: unat_of_nat)
  have h: "unat (100 :: u64) = 100" by simp
  have "unat (div_ceil (of_nat n * 95) 100 :: u64) = rank95 n"
    using div_ceil_unat[of "of_nat n * 95" 100] assms unfolding u h rank95_alt by simp
  then show ?thesis unfolding word_unat_eq_iff l .
qed

lemma fold_max_ge: "x \<in> set xs \<Longrightarrow> unat x \<le> unat (fold max xs (a :: u64))"
proof (induction xs arbitrary: a)
  case (Cons y xs)
  have "unat y \<le> unat (max y a)" by (simp add: max_def word_le_nat_alt)
  moreover have "unat (max y a) \<le> unat (fold max xs (max y a))"
    unfolding fold_max_append[of xs "max y a"] by (simp add: max_def word_le_nat_alt)
  ultimately show ?case using Cons by auto
qed simp


text \<open>C37: The latency percentile of the report, read from power-of-two buckets, brackets the exact 95th percentile of
  the observed times: it is at least that value (up to the end of the last bucket, about 35 minutes) and at most twice
  it, and never above the largest observation. Merging the cells of two halves of the history loses nothing.\<close>

theorem p95_near_exact:
  assumes "xs \<noteq> []" and "95 * length xs + 1 < 2 ^ 64"
  shows "(\<exists>p. p95_ms (dur_of xs) = Some p \<and> min (exact_p95 xs) (2 ^ 21 - 1) \<le> unat p
      \<and> unat p \<le> 2 * exact_p95 xs \<and> p \<le> ds_max_ms (dur_of xs))
    \<and> dur_merge (dur_of (take k xs)) (dur_of (drop k xs)) = dur_of xs"
proof (rule conjI)
  let ?n = "length xs" and ?s = "sort (map unat xs)" and ?t = "rank95 (length xs)"
  have n: "?n < 2 ^ 64" using assms(2) by linarith
  show "dur_merge (dur_of (take k xs)) (dur_of (drop k xs)) = dur_of xs"
    using dur_merge_of[of "drop k xs" "take k xs"] n by simp
  have t: "0 < ?t" "?t \<le> ?n" using assms(1) by (cases xs; simp add: rank95_def div_greater_zero_iff)+
  have z: "below 0 xs = 0" by simp
  obtain j where j: "j < DUR_BUCKETS" "below j xs < ?t" "?t \<le> below (Suc j) xs"
    and p: "p95_from (of_nat ?t) (ds_max_ms (dur_of xs)) 0 0 (ds_buckets (dur_of xs)) = min (if j = 0 then 0 else push_bit j 1 - 1) (ds_max_ms (dur_of xs))"
    using p95_search[OF n t(2), of 0 "ds_max_ms (dur_of xs)"] t(1) unfolding dur_buckets_of[OF assms(1)] z by auto
  have c: "ds_count (dur_of xs) = of_nat ?n" using dur_of_fields[of xs] by simp
  have "unat (of_nat ?n :: u64) = ?n" using n by (simp add: unat_of_nat)
  then have "(of_nat ?n :: u64) \<noteq> 0" using assms(1) by auto
  then have ps: "p95_ms (dur_of xs) = Some (min (if j = 0 then 0 else push_bit j 1 - 1) (ds_max_ms (dur_of xs)))"
    using p p95_threshold[OF assms(2)] by (simp add: p95_ms_def c)
  have len: "?t - 1 < length ?s" using t by simp
  then obtain x where x: "x \<in> set xs" "exact_p95 xs = unat x" unfolding exact_p95_def using nth_mem[OF len] by auto
  have w: "dur_bucket x < i \<longleftrightarrow> ?t - 1 < below i xs" for i
  proof -
    let ?P = "\<lambda>v. dur_bucket (of_nat v) < i"
    have "?P (?s ! (?t - 1)) \<longleftrightarrow> ?t - 1 < length (filter ?P ?s)"
      using dur_bucket_mono by (intro sorted_filter_nth len) (auto, meson le_less_trans)
    moreover have "length (filter ?P ?s) = below i xs" by (simp add: filter_sort filter_map comp_def)
    ultimately show ?thesis using x(2) by (simp add: exact_p95_def)
  qed
  have b: "dur_bucket x = j" using w[of j] w[of "Suc j"] j t(1) by linarith
  have mx: "unat x \<le> unat (ds_max_ms (dur_of xs))" using fold_max_ge[OF x(1)] dur_of_fields[of xs] by simp
  have pw: "unat (push_bit j 1 - 1 :: u64) = 2 ^ j - 1" using j(1) unat_pow2_minus1[of j] by (simp add: DUR_BUCKETS_def push_bit_eq_mult)
  show "\<exists>p. p95_ms (dur_of xs) = Some p \<and> min (exact_p95 xs) (2 ^ 21 - 1) \<le> unat p
      \<and> unat p \<le> 2 * exact_p95 xs \<and> p \<le> ds_max_ms (dur_of xs)"
  proof (cases "j = 0")
    case True
    then show ?thesis using ps x(2) dur_bucket_range(1)[of x] b by simp
  next
    case False
    have lo: "2 ^ (j - 1) \<le> unat x" using dur_bucket_range(2)[of x] b False by simp
    have d: "(2 :: nat) ^ j = 2 * 2 ^ (j - 1)" using False by (cases j) simp_all
    have hi: "min (unat x) (2 ^ 21 - 1) \<le> 2 ^ j - 1"
    proof (cases "j < 21")
      case True
      then show ?thesis using dur_bucket_range(3)[of x] b by simp
    next
      case False
      then have "j = 21" using j(1) by (simp add: DUR_BUCKETS_def)
      then show ?thesis by simp
    qed
    let ?p = "min (push_bit j 1 - 1) (ds_max_ms (dur_of xs))"
    have u: "unat ?p = min (2 ^ j - 1) (unat (ds_max_ms (dur_of xs)))" unfolding pw[symmetric] by (simp add: min_def word_le_nat_alt)
    have "p95_ms (dur_of xs) = Some ?p" using ps False by simp
    moreover have "min (unat x) (2 ^ 21 - 1) \<le> unat ?p" unfolding u using hi mx by linarith
    moreover have "unat ?p \<le> 2 * unat x" unfolding u using lo d by linarith
    ultimately show ?thesis unfolding x(2) by auto
  qed
qed

theorem p95_near_exact_witness:
  "p95_ms (dur_of [3, 5, 9]) = Some 9 \<and> exact_p95 [3, 5, 9] = 9
   \<and> dur_merge (dur_of (take 1 [3, 5, 9])) (dur_of (drop 1 [3, 5, 9])) = dur_of [3, 5, 9]"
proof -
  have e: "exact_p95 [3, 5, 9] = 9" by (simp add: exact_p95_def rank95_def)
  obtain p where "p95_ms (dur_of [3, 5, 9]) = Some p" "9 \<le> unat p" "p \<le> ds_max_ms (dur_of [3, 5, 9])"
    using p95_near_exact[of "[3, 5, 9]" 1] e by auto
  moreover have "ds_max_ms (dur_of [3, 5, 9]) = 9" using dur_of_fields[of "[3, 5, 9]"] by simp
  ultimately show ?thesis using e p95_near_exact[of "[3, 5, 9]" 1] by (auto simp: word_le_nat_alt word_unat_eq_iff)
qed

end
