(* ===== verification/Waste.thy ===== *)
theory Waste
  imports Stats Cache Policy
begin

text \<open>
  \<^verbatim>\<open>src/src/waste.rs\<close>: what was spent for nothing. Requests of the audit log with the same fingerprint that follow each
  other within a gap form a chain; all but the first are waste, as retries or, from a threshold on, as a runaway
  loop. Time stamps come from a parser of RFC 3339 that is a parameter; the log, the policy, the cache statistics and
  the prices are read before and passed in, \<open>None\<close> where reading fails.
\<close>

section \<open>Requests\<close>

record waste_req =
  wq_ts :: int
  wq_host :: string
  wq_path :: string
  wq_method :: string
  wq_fp :: string
  wq_cost :: usd
  wq_ref :: usd
  wq_priced :: bool

record waste_scan =
  ws_reqs :: "waste_req list"
  ws_by_seq :: "(u64, nat) ordmap"
  ws_blocked :: "u64 btmap"

definition waste_hour :: "string \<Rightarrow> string" where
  "waste_hour ts = (if length ts \<ge> 13 \<and> is_char_boundary ts 13 then take 13 ts else ts)"

definition req_of :: "(string \<Rightarrow> int option) \<Rightarrow> audit_event \<Rightarrow> string \<Rightarrow> waste_req" where
  "req_of unix ev fp = (case (case ev_usage ev of Some u \<Rightarrow> (ur_cost_usd u, ur_ref_cost_usd u, True) | None \<Rightarrow> (0, 0, False)) of
     (cost, ref_cost, priced) \<Rightarrow>
       \<lparr>wq_ts = (case unix (ev_ts ev) of Some t \<Rightarrow> t | None \<Rightarrow> 0), wq_host = ev_host ev, wq_path = ev_path ev, wq_method = ev_method ev,
        wq_fp = fp, wq_cost = cost, wq_ref = ref_cost, wq_priced = priced\<rparr>)"

definition price_req :: "usage_rec \<Rightarrow> waste_req \<Rightarrow> waste_req" where
  "price_req u q = q\<lparr>wq_cost := wq_cost q + ur_cost_usd u, wq_ref := wq_ref q + ur_ref_cost_usd u, wq_priced := True\<rparr>"

definition waste_event :: "(string \<Rightarrow> int option) \<Rightarrow> string option \<times> string option \<Rightarrow> audit_event \<Rightarrow> waste_scan \<Rightarrow> waste_scan" where
  "waste_event unix bounds ev s =
     (if \<not> in_window bounds (waste_hour (ev_ts ev)) then s
      else if ev_action ev = ''allow'' \<or> ev_action ev = ''warn'' then
        (case ev_fp ev of
           None \<Rightarrow> s
         | Some fp \<Rightarrow> s\<lparr>ws_by_seq := btm_insert (ev_seq ev) (length (ws_reqs s)) (ws_by_seq s),
             ws_reqs := ws_reqs s @ [req_of unix ev fp]\<rparr>)
      else if ev_action ev = ''usage'' then
        (case ev_req_seq ev of
           None \<Rightarrow> s
         | Some seq \<Rightarrow>
             (case (btm_get (ws_by_seq s) seq, ev_usage ev) of
                (Some i, Some u) \<Rightarrow> s\<lparr>ws_reqs := (ws_reqs s)[i := price_req u (ws_reqs s ! i)]\<rparr>
              | _ \<Rightarrow> s))
      else if ev_action ev = ''deny'' then
        (case ev_fp ev of
           None \<Rightarrow> s
         | Some fp \<Rightarrow> if starts_with (ev_note ev) ''spend tripwire''
             then s\<lparr>ws_blocked := btm_upsert 0 fp (\<lambda>n. n + 1) (ws_blocked s)\<rparr> else s)
      else s)"

definition waste_line :: "(string \<Rightarrow> int option) \<Rightarrow> audit_codec \<Rightarrow> string option \<times> string option \<Rightarrow> string \<Rightarrow> waste_scan \<Rightarrow> waste_scan" where
  "waste_line unix ac bounds line s = (case line_event ac line of None \<Rightarrow> s | Some ev \<Rightarrow> waste_event unix bounds ev s)"

definition waste_start :: waste_scan where
  "waste_start = \<lparr>ws_reqs = [], ws_by_seq = [], ws_blocked = []\<rparr>"

definition log_string :: "bytes option \<Rightarrow> string" where
  "log_string lg = (case lg of None \<Rightarrow> [] | Some f \<Rightarrow> if utf8_valid f then f else [])"

definition scan_requests :: "(string \<Rightarrow> int option) \<Rightarrow> audit_codec \<Rightarrow> string option \<times> string option \<Rightarrow> bytes option \<Rightarrow> waste_scan" where
  "scan_requests unix ac bounds lg = fold (waste_line unix ac bounds) (file_lines (log_string lg)) waste_start"

definition group_requests :: "waste_req list \<Rightarrow> nat list btmap" where
  "group_requests reqs = fold (\<lambda>i. btm_upsert [] (wq_fp (reqs ! i)) (\<lambda>is. is @ [i])) [0..<length reqs] []"

section \<open>Chains\<close>

record chain =
  ch_fingerprint :: string
  ch_host :: string
  ch_path :: string
  ch_method :: string
  ch_count :: u64
  ch_wasted_usd :: usd
  ch_wasted_ref :: usd
  ch_unpriced :: u64
  ch_blocked :: u64
  ch_is_loop :: bool

record bucket_totals =
  bt_chains :: u64
  bt_wasted_requests :: u64
  bt_wasted_usd :: usd
  bt_wasted_ref :: usd
  bt_unpriced :: u64

definition bucket_totals_default :: bucket_totals where
  "bucket_totals_default = \<lparr>bt_chains = 0, bt_wasted_requests = 0, bt_wasted_usd = 0, bt_wasted_ref = 0, bt_unpriced = 0\<rparr>"

definition totals_add :: "chain \<Rightarrow> bucket_totals \<Rightarrow> bucket_totals" where
  "totals_add c t = \<lparr>bt_chains = bt_chains t + 1, bt_wasted_requests = bt_wasted_requests t + (ch_count c - 1),
     bt_wasted_usd = bt_wasted_usd t + ch_wasted_usd c, bt_wasted_ref = bt_wasted_ref t + ch_wasted_ref c,
     bt_unpriced = bt_unpriced t + ch_unpriced c\<rparr>"

definition near_next :: "waste_req list \<Rightarrow> int \<Rightarrow> nat list \<Rightarrow> nat \<Rightarrow> bool" where
  "near_next reqs gap idxs e \<longleftrightarrow> e + 1 < length idxs \<and> wq_ts (reqs ! (idxs ! (e + 1))) - wq_ts (reqs ! (idxs ! e)) \<le> gap"

function chain_end :: "waste_req list \<Rightarrow> int \<Rightarrow> nat list \<Rightarrow> nat \<Rightarrow> nat" where
  "chain_end reqs gap idxs e = (if near_next reqs gap idxs e then chain_end reqs gap idxs (e + 1) else e)"
  by pat_completeness auto
termination
  by (relation "measure (\<lambda>(_, _, idxs, e). length idxs - e)") (auto simp: near_next_def)

declare chain_end.simps [simp del]

definition waste_resend :: "waste_req \<Rightarrow> chain \<Rightarrow> chain" where
  "waste_resend q c = c\<lparr>ch_wasted_usd := ch_wasted_usd c + wq_cost q, ch_wasted_ref := ch_wasted_ref c + wq_ref q,
     ch_unpriced := (if wq_priced q then ch_unpriced c else ch_unpriced c + 1)\<rparr>"

definition make_chain :: "waste_req list \<Rightarrow> u32 \<Rightarrow> u64 btmap \<Rightarrow> string \<Rightarrow> nat list \<Rightarrow> nat \<Rightarrow> nat \<Rightarrow> chain" where
  "make_chain reqs threshold blocked_by_fp fp idxs start e =
     (let members = drop start (take (e + 1) idxs);
          first = reqs ! hd members;
          blocked = (if e = length idxs - 1 then (case btm_get blocked_by_fp fp of Some n \<Rightarrow> n | None \<Rightarrow> 0) else 0)
      in fold (\<lambda>i. waste_resend (reqs ! i)) (tl members)
           \<lparr>ch_fingerprint = fp, ch_host = wq_host first, ch_path = wq_path first, ch_method = wq_method first,
            ch_count = of_nat (length members), ch_wasted_usd = 0, ch_wasted_ref = 0, ch_unpriced = 0, ch_blocked = blocked,
            ch_is_loop = (of_nat (length members) + blocked \<ge> ucast threshold)\<rparr>)"

record waste_acc =
  wa_retries :: bucket_totals
  wa_loops :: bucket_totals
  wa_blocked :: u64
  wa_chains :: "chain list"

definition waste_acc_start :: waste_acc where
  "waste_acc_start = \<lparr>wa_retries = bucket_totals_default, wa_loops = bucket_totals_default, wa_blocked = 0, wa_chains = []\<rparr>"

definition add_chain :: "chain \<Rightarrow> waste_acc \<Rightarrow> waste_acc" where
  "add_chain c a = (let a1 = (if ch_is_loop c then a\<lparr>wa_loops := totals_add c (wa_loops a)\<rparr> else a\<lparr>wa_retries := totals_add c (wa_retries a)\<rparr>)
     in a1\<lparr>wa_blocked := wa_blocked a1 + ch_blocked c, wa_chains := wa_chains a1 @ [c]\<rparr>)"

lemma chain_end_ge: "e \<le> chain_end reqs gap idxs e"
  by (induction reqs gap idxs e rule: chain_end.induct) (subst chain_end.simps, auto)

function split_chains :: "waste_req list \<Rightarrow> int \<Rightarrow> u32 \<Rightarrow> u64 btmap \<Rightarrow> string \<Rightarrow> nat list \<Rightarrow> nat \<Rightarrow> waste_acc \<Rightarrow> waste_acc" where
  "split_chains reqs gap threshold blocked_by_fp fp idxs start a =
     (if start < length idxs
      then (let e = chain_end reqs gap idxs start
            in split_chains reqs gap threshold blocked_by_fp fp idxs (e + 1)
                 (if e > start then add_chain (make_chain reqs threshold blocked_by_fp fp idxs start e) a else a))
      else a)"
  by pat_completeness auto
termination
  by (relation "measure (\<lambda>(_, _, _, _, _, idxs, start, _). length idxs - start)") (use chain_end_ge in \<open>auto simp: le_imp_less_Suc diff_less_mono2\<close>)

declare split_chains.simps [simp del]

definition all_chains :: "int \<Rightarrow> u32 \<Rightarrow> waste_scan \<Rightarrow> waste_acc" where
  "all_chains gap threshold s =
     fold (\<lambda>(fp, idxs). split_chains (ws_reqs s) gap threshold (ws_blocked s) fp idxs 0) (group_requests (ws_reqs s)) waste_acc_start"

text \<open>The order of the worst chains: descending cost, descending length, fingerprint.\<close>

definition chain_order :: "chain \<Rightarrow> real \<times> int \<times> string" where
  "chain_order c = (- (ch_wasted_usd c + ch_wasted_ref c), - uint (ch_count c), ch_fingerprint c)"

section \<open>The report\<close>

record waste_report =
  wr_schema :: u32
  wr_window :: string
  wr_gap_secs :: u64
  wr_loop_threshold :: u32
  wr_fingerprinted :: u64
  wr_retries :: bucket_totals
  wr_loops :: bucket_totals
  wr_blocked_repeats :: u64
  wr_top :: "chain list"
  wr_cache_repairable :: usd

definition total_usd :: "waste_report \<Rightarrow> usd" where
  "total_usd r = bt_wasted_usd (wr_retries r) + bt_wasted_usd (wr_loops r) + wr_cache_repairable r"

definition total_ref_usd :: "waste_report \<Rightarrow> usd" where
  "total_ref_usd r = bt_wasted_ref (wr_retries r) + bt_wasted_ref (wr_loops r)"

definition waste_tripwire :: "policy option \<Rightarrow> spend_tripwire_config" where
  "waste_tripwire p = (case p of Some x \<Rightarrow> p_spend_tripwire x | None \<Rightarrow> spend_tripwire_default)"

definition waste_gap :: "policy option \<Rightarrow> u64" where
  "waste_gap p = max (st_window_secs (waste_tripwire p)) 1"

definition waste_threshold :: "policy option \<Rightarrow> u32" where
  "waste_threshold p = (if st_repeats (waste_tripwire p) > 0 then st_repeats (waste_tripwire p) else st_repeats spend_tripwire_default)"

text \<open>\<open>cache_repairable_usd().unwrap_or(0.0)\<close>.\<close>

definition add_repairable :: "pricing \<Rightarrow> string \<times> key_stats \<Rightarrow> usd \<Rightarrow> usd" where
  "add_repairable pr ks x = (case ks of (key, s) \<Rightarrow>
     if ks_repairable_bytes s = 0 then x
     else (case split_once '' '' key of
         None \<Rightarrow> x
       | Some (host, model) \<Rightarrow>
           (case provider_for_host pr host of
              None \<Rightarrow> x
            | Some p \<Rightarrow> x + repairable_waste_usd (ks_repairable_bytes s) (rate_for pr p (Some model)))))"

definition cache_repairable_usd :: "string \<Rightarrow> cache_file option \<Rightarrow> pricing option \<Rightarrow> usd" where
  "cache_repairable_usd now_period cf pr = (case (cf, pr) of
     (Some f, Some p) \<Rightarrow>
       (let stats = load_cache f
        in fold (add_repairable p) (if cs_period stats \<noteq> now_period then [] else cs_per_key stats) 0)
   | _ \<Rightarrow> 0)"

definition report_waste :: "(string \<Rightarrow> int option) \<Rightarrow> audit_codec \<Rightarrow> calendar \<Rightarrow> int \<Rightarrow> string \<Rightarrow> window \<Rightarrow> policy option \<Rightarrow> bytes option
    \<Rightarrow> cache_file option \<Rightarrow> pricing option \<Rightarrow> waste_report" where
  "report_waste unix ac cal today now_period wn p lg cf pr =
     (let s = scan_requests unix ac (window_bounds cal today wn) lg;
          a = all_chains (sint (waste_gap p)) (waste_threshold p) s
      in \<lparr>wr_schema = 1, wr_window = window_kind wn, wr_gap_secs = waste_gap p, wr_loop_threshold = waste_threshold p,
          wr_fingerprinted = of_nat (length (ws_reqs s)), wr_retries = wa_retries a, wr_loops = wa_loops a,
          wr_blocked_repeats = wa_blocked a, wr_top = take 5 (sort_key chain_order (wa_chains a)),
          wr_cache_repairable = cache_repairable_usd now_period cf pr\<rparr>)"

section \<open>Rendering\<close>

definition render_bucket :: "string \<Rightarrow> bucket_totals \<Rightarrow> string" where
  "render_bucket name b = (if bt_chains b = 0 then []
     else name @ '': $'' @ fmt_fixed 4 (bt_wasted_usd b) @ '' wasted across '' @ show_u64 (bt_wasted_requests b)
       @ '' re-sent request(s) in '' @ show_u64 (bt_chains b) @ '' chain(s)''
       @ (if bt_wasted_ref b > 0 then '' (+ ~$'' @ fmt_fixed 4 (bt_wasted_ref b) @ '' plan-absorbed API-equivalent)'' else [])
       @ (if bt_unpriced b > 0
          then ''; '' @ show_u64 (bt_unpriced b) @ '' re-send(s) carried no parseable usage and are counted unpriced'' else [])
       @ eol)"

definition render_chain :: "chain \<Rightarrow> string" where
  "render_chain c = ''  '' @ ch_method c @ '' '' @ ch_host c @ ch_path c @ ''  '' @ show_u64 (ch_count c) @ ''x''
     @ (if ch_blocked c > 0 then '' (+'' @ show_u64 (ch_blocked c) @ '' blocked)'' else [])
     @ ''  $'' @ fmt_fixed 4 (ch_wasted_usd c + ch_wasted_ref c) @ '' wasted  (fingerprint '' @ ch_fingerprint c @ '')'' @ eol"

definition render_waste :: "waste_report \<Rightarrow> string" where
  "render_waste r =
     ''Waste report: '' @ wr_window r @ eol
     @ (if wr_fingerprinted r = 0
        then ''No fingerprinted LLM requests in this window (events written before the spend tripwire shipped carry no fingerprint).'' @ eol
        else [])
     @ render_bucket (''Retried identical requests (re-sent within '' @ show_u64 (wr_gap_secs r) @ ''s)'') (wr_retries r)
     @ render_bucket (''Runaway loops ('' @ show_nat (unat (wr_loop_threshold r)) @ ''+ repeats)'') (wr_loops r)
     @ (if wr_blocked_repeats r > 0
        then ''The spend tripwire blocked '' @ show_u64 (wr_blocked_repeats r) @ '' further repeat(s); those cost nothing.'' @ eol else [])
     @ (if wr_top r \<noteq> [] then ''Worst offenders:'' @ eol @ concat (map render_chain (wr_top r)) else [])
     @ (if wr_cache_repairable r > 0
        then ''Prompt-cache waste (this billing period): ~$'' @ fmt_fixed 4 (wr_cache_repairable r)
          @ '' of repeating context re-billed at the full input rate for want of a cache marker; `decoyrail cache` has the per-model breakdown.'' @ eol
        else [])
     @ (if total_usd r > 0 \<or> total_ref_usd r > 0
        then ''Identified waste: $'' @ fmt_fixed 4 (total_usd r)
          @ (if total_ref_usd r > 0 then '' (+ ~$'' @ fmt_fixed 4 (total_ref_usd r) @ '' plan-absorbed API-equivalent)'' else []) @ eol
        else ''No identifiable waste in this window.'' @ eol)"

end
