(* ===== verification/Waste_Props.thy ===== *)
theory Waste_Props
  imports Waste Stats_Props
begin

text \<open>What the waste report of \<open>src/waste.rs\<close> is worth: its chains are the maximal runs (\<open>runs\<close>), the groups hold every
  request once, so its totals are sums over the requests that were sent again (locale \<open>chain_sum\<close>, interpreted for
  the count, both amounts and the unpriced), and they stay below the spend that \<open>Stats\<close> reports.\<close>

section \<open>Runs\<close>

text \<open>The chains of one fingerprint by position: first and last member.\<close>

function runs :: "waste_req list \<Rightarrow> int \<Rightarrow> nat list \<Rightarrow> nat \<Rightarrow> (nat \<times> nat) list" where
  "runs reqs gap idxs start =
     (if start < length idxs
      then (let e = chain_end reqs gap idxs start in (if e > start then [(start, e)] else []) @ runs reqs gap idxs (e + 1))
      else [])"
  by pat_completeness auto
termination
  by (relation "measure (\<lambda>(_, _, idxs, start). length idxs - start)") (use chain_end_ge in \<open>auto simp: le_imp_less_Suc diff_less_mono2\<close>)

declare runs.simps [simp del]

lemma chain_end_run:
  assumes "s < length idxs"
  shows "chain_end reqs gap idxs s < length idxs" and "s < k \<Longrightarrow> k \<le> chain_end reqs gap idxs s \<Longrightarrow> near_next reqs gap idxs (k - 1)"
    and "\<not> near_next reqs gap idxs (chain_end reqs gap idxs s)"
proof -
  have "chain_end reqs gap idxs s < length idxs \<and> (\<forall>k. s < k \<longrightarrow> k \<le> chain_end reqs gap idxs s \<longrightarrow> near_next reqs gap idxs (k - 1))
     \<and> \<not> near_next reqs gap idxs (chain_end reqs gap idxs s)"
    using assms
  proof (induction reqs gap idxs s rule: chain_end.induct)
    case (1 reqs gap idxs e)
    show ?case
    proof (cases "near_next reqs gap idxs e")
      case True
      then have "e + 1 < length idxs" by (simp add: near_next_def)
      note IH = 1(1)[OF True this]
      have "near_next reqs gap idxs (k - 1)" if "e < k" "k \<le> chain_end reqs gap idxs (e + 1)" for k
        using IH that True by (cases "k = e + 1") auto
      then show ?thesis using IH True by (simp add: chain_end.simps[of reqs gap idxs e])
    next
      case False
      then show ?thesis using 1(2) by (simp add: chain_end.simps[of reqs gap idxs e])
    qed
  qed
  then show "chain_end reqs gap idxs s < length idxs" and "s < k \<Longrightarrow> k \<le> chain_end reqs gap idxs s \<Longrightarrow> near_next reqs gap idxs (k - 1)"
    and "\<not> near_next reqs gap idxs (chain_end reqs gap idxs s)" by blast+
qed

lemma split_chains_runs:
  "split_chains reqs gap thr bl fp idxs s a = fold add_chain (map (\<lambda>(s, e). make_chain reqs thr bl fp idxs s e) (runs reqs gap idxs s)) a"
proof (induction reqs gap thr bl fp idxs s a rule: split_chains.induct)
  case (1 reqs gap thr bl fp idxs s a)
  show ?case
    by (subst split_chains.simps, subst runs.simps) (use 1 in \<open>auto simp: Let_def\<close>)
qed

lemma runs_bounds: "(x, y) \<in> set (runs reqs gap idxs s) \<Longrightarrow> s \<le> x \<and> x < y \<and> y < length idxs"
proof (induction reqs gap idxs s rule: runs.induct)
  case (1 reqs gap idxs s)
  show ?case
  proof (cases "s < length idxs")
    case True
    have "s \<le> chain_end reqs gap idxs s" by (rule chain_end_ge)
    moreover have "(x, y) \<in> set (runs reqs gap idxs (chain_end reqs gap idxs s + 1)) \<Longrightarrow> chain_end reqs gap idxs s + 1 \<le> x \<and> x < y \<and> y < length idxs"
      using 1(1)[OF True refl] .
    ultimately show ?thesis using 1(2) True chain_end_run(1)[OF True] by (subst (asm) runs.simps) (auto simp: Let_def split: if_splits)
  qed (use 1(2) in \<open>simp add: runs.simps[of reqs gap idxs s]\<close>)
qed

lemma upt_split: "i \<le> j \<Longrightarrow> j \<le> k \<Longrightarrow> [i..<k] = [i..<j] @ [j..<k]"
  using upt_add_eq_append[of i j "k - j"] by simp

text \<open>The members after the first ones are the positions that follow their predecessor within the gap.\<close>

lemma runs_members: "concat (map (\<lambda>(x, y). [x + 1..<y + 1]) (runs reqs gap idxs s)) = filter (\<lambda>k. near_next reqs gap idxs (k - 1)) [s + 1..<length idxs]"
proof (induction reqs gap idxs s rule: runs.induct)
  case (1 reqs gap idxs s)
  show ?case
  proof (cases "s < length idxs")
    case True
    let ?e = "chain_end reqs gap idxs s" and ?N = "\<lambda>k. near_next reqs gap idxs (k - 1)"
    note c = chain_end_run[OF True, where reqs = reqs and gap = gap] chain_end_ge[of s reqs gap idxs]
    have "[s + 1..<length idxs] = [s + 1..<?e + 1] @ [?e + 1..<length idxs]" by (rule upt_split) (use c in simp_all)
    moreover have "filter ?N [s + 1..<?e + 1] = [s + 1..<?e + 1]" using c(2) by (intro filter_True) auto
    moreover have "filter ?N [?e + 1..<length idxs] = filter ?N [?e + 1 + 1..<length idxs]"
      using c(3) by (cases "?e + 1 < length idxs") (simp_all add: upt_conv_Cons del: upt_Suc)
    ultimately have "filter ?N [s + 1..<length idxs] = [s + 1..<?e + 1] @ filter ?N [?e + 1 + 1..<length idxs]" by simp
    also have "filter ?N [?e + 1 + 1..<length idxs] = concat (map (\<lambda>(x, y). [x + 1..<y + 1]) (runs reqs gap idxs (?e + 1)))"
      using 1[OF True refl] by simp
    finally show ?thesis using True c(4) by (subst runs.simps) (auto simp: Let_def)
  qed (simp add: runs.simps[of reqs gap idxs s])
qed

section \<open>Groups\<close>

text \<open>A request is sent again when the last one before it with its fingerprint is within the gap.\<close>

definition same_before :: "waste_req list \<Rightarrow> nat \<Rightarrow> nat list" where
  "same_before reqs i = filter (\<lambda>j. wq_fp (reqs ! j) = wq_fp (reqs ! i)) [0..<i]"

definition resent :: "waste_req list \<Rightarrow> int \<Rightarrow> nat \<Rightarrow> bool" where
  "resent reqs gap i \<longleftrightarrow> same_before reqs i \<noteq> [] \<and> wq_ts (reqs ! i) - wq_ts (reqs ! last (same_before reqs i)) \<le> gap"

definition group_of :: "waste_req list \<Rightarrow> string \<Rightarrow> nat list" where
  "group_of reqs fp = filter (\<lambda>i. wq_fp (reqs ! i) = fp) [0..<length reqs]"

lemma filter_upt_take: "k < length (filter P [0..<n]) \<Longrightarrow> filter P [0..<filter P [0..<n] ! k] = take k (filter P [0..<n]) \<and> P (filter P [0..<n] ! k)"
proof (induction n)
  case (Suc n)
  then show ?case by (cases "k < length (filter P [0..<n])") (auto simp: nth_append split: if_splits)
qed simp

lemma resent_group:
  assumes "k < length (group_of reqs fp)"
  shows "resent reqs gap (group_of reqs fp ! k) \<longleftrightarrow> 0 < k \<and> near_next reqs gap (group_of reqs fp) (k - 1)"
proof -
  have "same_before reqs (group_of reqs fp ! k) = take k (group_of reqs fp)" and "wq_fp (reqs ! (group_of reqs fp ! k)) = fp"
    using filter_upt_take[of k "\<lambda>i. wq_fp (reqs ! i) = fp" "length reqs"] assms by (simp_all add: group_of_def same_before_def)
  moreover have "0 < k \<Longrightarrow> last (take k (group_of reqs fp)) = group_of reqs fp ! (k - 1)" using assms by (subst last_conv_nth) (auto simp: min_def)
  ultimately show ?thesis using assms by (auto simp: resent_def near_next_def)
qed

lemma resent_members:
  "map ((!) (group_of reqs fp)) (filter (\<lambda>k. near_next reqs gap (group_of reqs fp) (k - 1)) [1..<length (group_of reqs fp)])
   = filter (resent reqs gap) (group_of reqs fp)"
proof -
  let ?g = "group_of reqs fp"
  have "filter (resent reqs gap) ?g = map ((!) ?g) (filter (\<lambda>k. resent reqs gap (?g ! k)) [0..<length ?g])"
    by (subst (1) map_nth[of ?g, symmetric]) (simp only: filter_map comp_def)
  also have "filter (\<lambda>k. resent reqs gap (?g ! k)) [0..<length ?g] = filter (\<lambda>k. 0 < k \<and> near_next reqs gap ?g (k - 1)) [0..<length ?g]"
    by (rule filter_cong[OF refl]) (simp add: resent_group)
  also have "\<dots> = filter (\<lambda>k. near_next reqs gap ?g (k - 1)) [1..<length ?g]"
    by (cases "length ?g") (auto simp: upt_conv_Cons intro!: filter_cong simp del: upt_Suc)
  finally show ?thesis ..
qed

lemma group_requests_groups:
  assumes "n \<le> length reqs"
  defines "G \<equiv> fold (\<lambda>i. btm_upsert [] (wq_fp (reqs ! i)) (\<lambda>is. is @ [i])) [0..<n] []"
  shows "btm_sorted G" and "btm_get G fp = (let g = filter (\<lambda>i. wq_fp (reqs ! i) = fp) [0..<n] in if g = [] then None else Some g)"
    and "btm_sum (\<lambda>is. sum_list (map f is)) G = sum_list (map f [0..<n])"
proof -
  have *: "btm_sorted G \<and> btm_get G fp = (let g = filter (\<lambda>i. wq_fp (reqs ! i) = fp) [0..<n] in if g = [] then None else Some g)
    \<and> btm_sum (\<lambda>is. sum_list (map f is)) G = sum_list (map f [0..<n])" for fp
    unfolding G_def
  proof (induction n)
    case 0
    then show ?case by (simp add: btm_sorted_def btm_get_def)
  next
    case (Suc n)
    let ?m = "fold (\<lambda>i. btm_upsert [] (wq_fp (reqs ! i)) (\<lambda>is. is @ [i])) [0..<n] []"
    have "btm_sum (\<lambda>is. sum_list (map f is)) (btm_upsert [] (wq_fp (reqs ! n)) (\<lambda>is. is @ [n]) ?m) = btm_sum (\<lambda>is. sum_list (map f is)) ?m + f n"
      by (rule btm_upsert_sum(1)[where P = "\<lambda>_. True"]) (use Suc in simp_all)
    then show ?case using Suc by (auto simp: btm_sorted_upsert btm_get_upsert Let_def)
  qed
  then show "btm_sorted G" and "btm_get G fp = (let g = filter (\<lambda>i. wq_fp (reqs ! i) = fp) [0..<n] in if g = [] then None else Some g)"
    and "btm_sum (\<lambda>is. sum_list (map f is)) G = sum_list (map f [0..<n])" by blast+
qed

lemma group_requests_entry:
  "(fp, is) \<in> set (group_requests reqs) \<longleftrightarrow> is = group_of reqs fp \<and> is \<noteq> []"
proof -
  have "distinct (map fst (group_requests reqs))"
    using group_requests_groups(1)[of "length reqs" reqs] by (simp add: group_requests_def btm_sorted_def strict_sorted_iff)
  then have "(fp, is) \<in> set (group_requests reqs) \<longleftrightarrow> btm_get (group_requests reqs) fp = Some is" by (simp add: btm_get_def)
  then show ?thesis
    using group_requests_groups(2)[of "length reqs" reqs fp] by (auto simp: group_requests_def group_of_def Let_def split: if_splits)
qed

section \<open>Sums over the chains\<close>

lemma resends_fold:
  "ch_wasted_usd (fold (\<lambda>i. waste_resend (reqs ! i)) is c) = ch_wasted_usd c + sum_list (map (\<lambda>i. wq_cost (reqs ! i)) is)"
  "ch_wasted_ref (fold (\<lambda>i. waste_resend (reqs ! i)) is c) = ch_wasted_ref c + sum_list (map (\<lambda>i. wq_ref (reqs ! i)) is)"
  "ch_unpriced (fold (\<lambda>i. waste_resend (reqs ! i)) is c) = ch_unpriced c + sum_list (map (\<lambda>i. if wq_priced (reqs ! i) then 0 else 1) is)"
  "ch_count (fold (\<lambda>i. waste_resend (reqs ! i)) is c) = ch_count c"
  "ch_blocked (fold (\<lambda>i. waste_resend (reqs ! i)) is c) = ch_blocked c"
  "ch_is_loop (fold (\<lambda>i. waste_resend (reqs ! i)) is c) = ch_is_loop c"
  "ch_fingerprint (fold (\<lambda>i. waste_resend (reqs ! i)) is c) = ch_fingerprint c"
  by (induction "is" arbitrary: c) (simp_all add: waste_resend_def)

lemma tl_members: "y < length idxs \<Longrightarrow> tl (drop x (take (Suc y) idxs)) = map ((!) idxs) [Suc x..<Suc y]"
  by (rule nth_equalityI) (auto simp: nth_tl simp del: upt_Suc)

lemma make_chain_fields:
  assumes "x < y" "y < length idxs"
  shows "ch_wasted_usd (make_chain reqs thr bl fp idxs x y) = sum_list (map (\<lambda>k. wq_cost (reqs ! (idxs ! k))) [x + 1..<y + 1])"
    and "ch_wasted_ref (make_chain reqs thr bl fp idxs x y) = sum_list (map (\<lambda>k. wq_ref (reqs ! (idxs ! k))) [x + 1..<y + 1])"
    and "ch_unpriced (make_chain reqs thr bl fp idxs x y) = sum_list (map (\<lambda>k. if wq_priced (reqs ! (idxs ! k)) then 0 else 1) [x + 1..<y + 1])"
    and "ch_count (make_chain reqs thr bl fp idxs x y) = of_nat (y + 1 - x)"
    and "ch_fingerprint (make_chain reqs thr bl fp idxs x y) = fp"
    and "ch_is_loop (make_chain reqs thr bl fp idxs x y)
      \<longleftrightarrow> ch_count (make_chain reqs thr bl fp idxs x y) + ch_blocked (make_chain reqs thr bl fp idxs x y) \<ge> ucast thr"
    and "ch_blocked (make_chain reqs thr bl fp idxs x y)
      = (if y + 1 = length idxs then (case btm_get bl fp of Some n \<Rightarrow> n | None \<Rightarrow> 0) else 0)"
  using assms by (auto simp: make_chain_def Let_def resends_fold tl_members comp_def simp del: upt_Suc split: option.split)

text \<open>The contract of a quantity of the totals: a chain adds what its members after the first one are worth.\<close>

locale chain_sum =
  fixes amount :: "waste_acc \<Rightarrow> 'm::ab_group_add" and worth :: "waste_req \<Rightarrow> 'm"
  assumes start: "amount waste_acc_start = 0"
    and adds: "x < y \<Longrightarrow> y < length idxs \<Longrightarrow> amount (add_chain (make_chain reqs thr bl fp idxs x y) a)
      = amount a + sum_list (map (\<lambda>k. worth (reqs ! (idxs ! k))) [x + 1..<y + 1])"
begin

lemma group_sum:
  "amount (split_chains reqs gap thr bl fp (group_of reqs fp) 0 a)
   = amount a + sum_list (map (\<lambda>i. worth (reqs ! i)) (filter (resent reqs gap) (group_of reqs fp)))"
proof -
  let ?g = "group_of reqs fp"
  have b: "x < y \<and> y < length ?g" if "(x, y) \<in> set (runs reqs gap ?g 0)" for x y using runs_bounds[OF that] by simp
  have "amount (fold add_chain (map (\<lambda>(x, y). make_chain reqs thr bl fp ?g x y) rs) a)
      = amount a + sum_list (map (\<lambda>k. worth (reqs ! (?g ! k))) (concat (map (\<lambda>(x, y). [x + 1..<y + 1]) rs)))"
    if "\<And>x y. (x, y) \<in> set rs \<Longrightarrow> x < y \<and> y < length ?g" for rs
    using that
  proof (induction rs arbitrary: a)
    case (Cons r rs)
    obtain x y where r: "r = (x, y)" by fastforce
    have "x < y" "y < length ?g" using Cons.prems[of x y] r by simp_all
    moreover have "x' < y' \<and> y' < length ?g" if "(x', y') \<in> set rs" for x' y' using Cons.prems[of x' y'] that by simp
    note IH = Cons.IH[OF this, of "add_chain (make_chain reqs thr bl fp ?g x y) a"]
    ultimately show ?case using IH unfolding r by (simp add: adds add.assoc del: upt_Suc)
  qed simp
  from this[of "runs reqs gap ?g 0", OF b] show ?thesis
    unfolding split_chains_runs runs_members resent_members[symmetric] by (simp add: comp_def del: upt_Suc)
qed

lemma groups_sum:
  assumes "\<And>fp is. (fp, is) \<in> set gs \<Longrightarrow> is = group_of reqs fp"
  shows "amount (fold (\<lambda>(fp, idxs). split_chains reqs gap thr bl fp idxs 0) gs a)
    = amount a + btm_sum (\<lambda>is. sum_list (map (\<lambda>i. if resent reqs gap i then worth (reqs ! i) else 0) is)) gs"
  using assms
proof (induction gs arbitrary: a)
  case (Cons p gs)
  obtain fp "is" where p: "p = (fp, is)" by fastforce
  have g: "is = group_of reqs fp" using Cons.prems p by simp
  have "is' = group_of reqs fp'" if "(fp', is') \<in> set gs" for fp' is' using Cons.prems[of fp' is'] that by simp
  note IH = Cons.IH[OF this, of "split_chains reqs gap thr bl fp is 0 a"]
  show ?case using IH group_sum[of reqs gap thr bl fp a] unfolding p g by (simp add: sum_list_map_filter' add.assoc)
qed simp

lemma all_sum:
  "amount (all_chains gap thr s) = sum_list (map (\<lambda>i. worth (ws_reqs s ! i)) (filter (resent (ws_reqs s) gap) [0..<length (ws_reqs s)]))"
  using groups_sum[of "group_requests (ws_reqs s)" "ws_reqs s" gap thr "ws_blocked s" waste_acc_start] group_requests_entry[of _ _ "ws_reqs s"]
    group_requests_groups(3)[of "length (ws_reqs s)" "ws_reqs s" "\<lambda>i. if resent (ws_reqs s) gap i then worth (ws_reqs s ! i) else 0"]
  by (simp add: all_chains_def start group_requests_def sum_list_map_filter')

end

interpretation resent_requests: chain_sum "\<lambda>a. bt_wasted_requests (wa_retries a) + bt_wasted_requests (wa_loops a)" "\<lambda>_. 1"
  by unfold_locales (simp_all add: waste_acc_start_def bucket_totals_default_def add_chain_def totals_add_def make_chain_fields Let_def sum_list_triv of_nat_diff del: upt_Suc)

interpretation resent_usd: chain_sum "\<lambda>a. bt_wasted_usd (wa_retries a) + bt_wasted_usd (wa_loops a)" wq_cost
  by unfold_locales (simp_all add: waste_acc_start_def bucket_totals_default_def add_chain_def totals_add_def make_chain_fields Let_def del: upt_Suc)

interpretation resent_ref: chain_sum "\<lambda>a. bt_wasted_ref (wa_retries a) + bt_wasted_ref (wa_loops a)" wq_ref
  by unfold_locales (simp_all add: waste_acc_start_def bucket_totals_default_def add_chain_def totals_add_def make_chain_fields Let_def del: upt_Suc)

interpretation resent_unpriced: chain_sum "\<lambda>a. bt_unpriced (wa_retries a) + bt_unpriced (wa_loops a)" "\<lambda>q. if wq_priced q then 0 else 1"
  by unfold_locales (simp_all add: waste_acc_start_def bucket_totals_default_def add_chain_def totals_add_def make_chain_fields Let_def del: upt_Suc)

section \<open>What is reported as wasted\<close>

text \<open>The requests of a window as a specification over the events of the log: every let-through request with a fingerprint, with the
  usage of its own event and of all later usage events that name its number, up to the next request of the window with that number.\<close>

definition counted :: "string option \<times> string option \<Rightarrow> audit_event \<Rightarrow> bool" where
  "counted b ev \<longleftrightarrow> in_window b (waste_hour (ev_ts ev)) \<and> (ev_action ev = ''allow'' \<or> ev_action ev = ''warn'') \<and> ev_fp ev \<noteq> None"

definition later_usage :: "string option \<times> string option \<Rightarrow> u64 \<Rightarrow> audit_event list \<Rightarrow> audit_event list" where
  "later_usage b seq evs = filter (\<lambda>ev. ev_action ev = ''usage'' \<and> ev_req_seq ev = Some seq)
     (takeWhile (\<lambda>ev. \<not> (counted b ev \<and> ev_seq ev = seq)) evs)"

definition usages :: "audit_event list \<Rightarrow> usage_rec list" where
  "usages evs = concat (map (\<lambda>ev. case ev_usage ev of Some u \<Rightarrow> [u] | None \<Rightarrow> []) evs)"

fun requests_of :: "(string \<Rightarrow> int option) \<Rightarrow> string option \<times> string option \<Rightarrow> audit_event list \<Rightarrow> waste_req list" where
  "requests_of unix b [] = []"
| "requests_of unix b (ev # evs) =
     (if counted b ev
      then (let us = usages (ev # later_usage b (ev_seq ev) evs) in
        [\<lparr>wq_ts = (case unix (ev_ts ev) of Some t \<Rightarrow> t | None \<Rightarrow> 0), wq_host = ev_host ev, wq_path = ev_path ev, wq_method = ev_method ev,
          wq_fp = the (ev_fp ev), wq_cost = sum_list (map ur_cost_usd us), wq_ref = sum_list (map ur_ref_cost_usd us), wq_priced = (us \<noteq> [])\<rparr>])
      else [])
     @ requests_of unix b evs"

text \<open>That no usage event of a request of the window lies outside it.\<close>

fun usage_inside :: "string option \<times> string option \<Rightarrow> audit_event list \<Rightarrow> bool" where
  "usage_inside b [] = True"
| "usage_inside b (ev # evs) \<longleftrightarrow>
     (counted b ev \<longrightarrow> list_all (\<lambda>x. in_window b (waste_hour (ev_ts x))) (later_usage b (ev_seq ev) evs)) \<and> usage_inside b evs"

definition topup :: "usage_rec list \<Rightarrow> waste_req \<Rightarrow> waste_req" where
  "topup us q = q\<lparr>wq_cost := wq_cost q + sum_list (map ur_cost_usd us), wq_ref := wq_ref q + sum_list (map ur_ref_cost_usd us),
     wq_priced := wq_priced q \<or> us \<noteq> []\<rparr>"

lemma topup_Nil [simp]: "topup [] q = q"
  by (simp add: topup_def)

lemma topup_Cons: "topup (u # us) q = topup us (price_req u q)"
  by (simp add: topup_def price_req_def)

lemma usages_simps [simp]: "usages [] = []" "usages (ev # evs) = (case ev_usage ev of Some u \<Rightarrow> [u] | None \<Rightarrow> []) @ usages evs"
  by (simp_all add: usages_def)

lemma later_usage_Cons:
  "later_usage b seq (ev # evs) =
     (if counted b ev \<and> ev_seq ev = seq then []
      else (if ev_action ev = ''usage'' \<and> ev_req_seq ev = Some seq then [ev] else []) @ later_usage b seq evs)"
  by (simp add: later_usage_def)

text \<open>The scan against the specification: \<open>key\<close> is the number under which a request found so far is still priced.\<close>

definition keyed :: "waste_scan \<Rightarrow> (nat \<Rightarrow> u64 option) \<Rightarrow> bool" where
  "keyed s key \<longleftrightarrow> (\<forall>seq i. btm_get (ws_by_seq s) seq = Some i \<longleftrightarrow> i < length (ws_reqs s) \<and> key i = Some seq)"

definition settle :: "string option \<times> string option \<Rightarrow> audit_event list \<Rightarrow> (nat \<Rightarrow> u64 option) \<Rightarrow> waste_req list \<Rightarrow> waste_req list" where
  "settle b evs key reqs = map (\<lambda>i. case key i of None \<Rightarrow> reqs ! i | Some seq \<Rightarrow> topup (usages (later_usage b seq evs)) (reqs ! i)) [0..<length reqs]"

lemma settle_cong:
  assumes "length reqs = length reqs'"
    and "\<And>i. i < length reqs \<Longrightarrow> (case key i of None \<Rightarrow> reqs ! i | Some seq \<Rightarrow> topup (usages (later_usage b seq evs)) (reqs ! i))
        = (case key' i of None \<Rightarrow> reqs' ! i | Some seq \<Rightarrow> topup (usages (later_usage b seq evs')) (reqs' ! i))"
  shows "settle b evs key reqs = settle b evs' key' reqs'"
  unfolding settle_def using assms by (intro map_cong) auto

lemma settle_snoc: "settle b evs key (reqs @ [q]) = settle b evs key reqs
    @ [case key (length reqs) of None \<Rightarrow> q | Some seq \<Rightarrow> topup (usages (later_usage b seq evs)) q]"
  by (auto simp: settle_def nth_append intro!: map_cong split: option.split)

definition inside :: "string option \<times> string option \<Rightarrow> audit_event list \<Rightarrow> waste_scan \<Rightarrow> (nat \<Rightarrow> u64 option) \<Rightarrow> bool" where
  "inside b evs s key \<longleftrightarrow> (\<forall>i seq. i < length (ws_reqs s) \<and> key i = Some seq
     \<longrightarrow> list_all (\<lambda>x. in_window b (waste_hour (ev_ts x))) (later_usage b seq evs))"

lemma scan_step:
  fixes unix b
  assumes k: "keyed s key" and w: "inside b (ev # evs) s key" and u: "usage_inside b (ev # evs)"
  shows "\<exists>key'. keyed (waste_event unix b ev s) key' \<and> inside b evs (waste_event unix b ev s) key'
    \<and> settle b evs key' (ws_reqs (waste_event unix b ev s)) @ requests_of unix b evs
      = settle b (ev # evs) key (ws_reqs s) @ requests_of unix b (ev # evs)"
proof (cases "counted b ev")
  case True
  then obtain fp where fp: "ev_fp ev = Some fp" by (auto simp: counted_def)
  let ?n = "length (ws_reqs s)" and ?key = "\<lambda>i. if i = length (ws_reqs s) then Some (ev_seq ev) else if key i = Some (ev_seq ev) then None else key i"
  have e: "waste_event unix b ev s = s\<lparr>ws_by_seq := btm_insert (ev_seq ev) ?n (ws_by_seq s), ws_reqs := ws_reqs s @ [req_of unix ev fp]\<rparr>"
    using True fp by (auto simp: waste_event_def counted_def)
  have act: "ev_action ev \<noteq> ''usage''" using True by (auto simp: counted_def)
  have "keyed (waste_event unix b ev s) ?key" using k by (auto simp: e keyed_def)
  moreover have "inside b evs (waste_event unix b ev s) ?key"
    using w u True act by (auto simp: e inside_def later_usage_Cons less_Suc_eq split: if_splits)
  moreover have "settle b evs ?key (ws_reqs s) = settle b (ev # evs) key (ws_reqs s)"
    by (rule settle_cong) (auto simp: later_usage_Cons True act split: option.split)
  moreover have "requests_of unix b (ev # evs) = topup (usages (later_usage b (ev_seq ev) evs)) (req_of unix ev fp) # requests_of unix b evs"
    using True fp by (auto simp: Let_def topup_def req_of_def split: option.split)
  ultimately show ?thesis by (intro exI[of _ ?key]) (simp add: e settle_snoc del: requests_of.simps)
next
  case F: False
  have same: "\<exists>key'. keyed (waste_event unix b ev s) key' \<and> inside b evs (waste_event unix b ev s) key'
      \<and> settle b evs key' (ws_reqs (waste_event unix b ev s)) @ requests_of unix b evs
        = settle b (ev # evs) key (ws_reqs s) @ requests_of unix b (ev # evs)"
    if e: "ws_by_seq (waste_event unix b ev s) = ws_by_seq s" "length (ws_reqs (waste_event unix b ev s)) = length (ws_reqs s)"
      and r: "\<And>i. i < length (ws_reqs s) \<Longrightarrow> key i = None \<Longrightarrow> ws_reqs (waste_event unix b ev s) ! i = ws_reqs s ! i"
        "\<And>i seq. i < length (ws_reqs s) \<Longrightarrow> key i = Some seq \<Longrightarrow> topup (usages (later_usage b seq evs)) (ws_reqs (waste_event unix b ev s) ! i)
          = topup (usages (later_usage b seq (ev # evs))) (ws_reqs s ! i)"
  proof (intro exI[of _ key] conjI)
    show "keyed (waste_event unix b ev s) key" using k by (simp add: keyed_def e)
    show "inside b evs (waste_event unix b ev s) key" using w F by (auto simp: inside_def e later_usage_Cons)
    have "settle b evs key (ws_reqs (waste_event unix b ev s)) = settle b (ev # evs) key (ws_reqs s)"
      by (rule settle_cong) (use e r in \<open>auto split: option.split\<close>)
    then show "settle b evs key (ws_reqs (waste_event unix b ev s)) @ requests_of unix b evs
        = settle b (ev # evs) key (ws_reqs s) @ requests_of unix b (ev # evs)" using F by simp
  qed
  show ?thesis
  proof (cases "in_window b (waste_hour (ev_ts ev)) \<and> ev_action ev = ''usage''")
    case True
    show ?thesis
    proof (cases "\<exists>seq i x. ev_req_seq ev = Some seq \<and> btm_get (ws_by_seq s) seq = Some i \<and> ev_usage ev = Some x")
      case t: True
      then obtain seq i x where x: "ev_req_seq ev = Some seq" "btm_get (ws_by_seq s) seq = Some i" "ev_usage ev = Some x" by blast
      have i: "i < length (ws_reqs s)" "key i = Some seq" using k x(2) by (auto simp: keyed_def)
      have e: "waste_event unix b ev s = s\<lparr>ws_reqs := (ws_reqs s)[i := price_req x (ws_reqs s ! i)]\<rparr>"
        using True x by (simp add: waste_event_def)
      have inj: "key j = Some seq \<Longrightarrow> j < length (ws_reqs s) \<Longrightarrow> j = i" for j
        using k x(2) unfolding keyed_def by (metis option.inject)
      show ?thesis
      proof (rule same)
        fix j seq' assume j: "j < length (ws_reqs s)" "key j = Some seq'"
        show "topup (usages (later_usage b seq' evs)) (ws_reqs (waste_event unix b ev s) ! j)
          = topup (usages (later_usage b seq' (ev # evs))) (ws_reqs s ! j)"
        proof (cases "j = i")
          case True
          then show ?thesis using i j F x \<open>in_window b (waste_hour (ev_ts ev)) \<and> ev_action ev = ''usage''\<close>
            by (simp add: e later_usage_Cons topup_Cons)
        next
          case False
          then have "seq' \<noteq> seq" using inj j by blast
          then show ?thesis using False F x by (simp add: e later_usage_Cons)
        qed
      next
        fix j assume "j < length (ws_reqs s)" "key j = None"
        then show "ws_reqs (waste_event unix b ev s) ! j = ws_reqs s ! j" using i by (cases "j = i") (simp_all add: e)
      qed (simp_all add: e)
    next
      case f: False
      have e: "waste_event unix b ev s = s" using f by (auto simp: waste_event_def True split: option.split)
      show ?thesis
      proof (rule same)
        fix j seq' assume j: "j < length (ws_reqs s)" "key j = Some seq'"
        then have "btm_get (ws_by_seq s) seq' = Some j" using k by (simp add: keyed_def)
        then have "ev_req_seq ev = Some seq' \<longrightarrow> ev_usage ev = None" using f by auto
        then show "topup (usages (later_usage b seq' evs)) (ws_reqs (waste_event unix b ev s) ! j)
          = topup (usages (later_usage b seq' (ev # evs))) (ws_reqs s ! j)" using F by (simp add: e later_usage_Cons)
      qed (simp_all add: e)
    qed
  next
    case o: False
    have e: "ws_reqs (waste_event unix b ev s) = ws_reqs s" "ws_by_seq (waste_event unix b ev s) = ws_by_seq s"
      using o F by (auto simp: waste_event_def counted_def split: option.split)
    show ?thesis
    proof (rule same)
      fix j seq' assume j: "j < length (ws_reqs s)" "key j = Some seq'"
      then have "list_all (\<lambda>x. in_window b (waste_hour (ev_ts x))) (later_usage b seq' (ev # evs))" using w by (simp add: inside_def)
      then have "later_usage b seq' (ev # evs) = later_usage b seq' evs" using F o by (auto simp: later_usage_Cons split: if_splits)
      then show "topup (usages (later_usage b seq' evs)) (ws_reqs (waste_event unix b ev s) ! j)
          = topup (usages (later_usage b seq' (ev # evs))) (ws_reqs s ! j)" by (simp add: e)
    qed (simp_all add: e)
  qed
qed

lemma scan_events:
  fixes unix b
  assumes "keyed s key" "inside b evs s key" "usage_inside b evs"
  shows "ws_reqs (fold (waste_event unix b) evs s) = settle b evs key (ws_reqs s) @ requests_of unix b evs"
  using assms
proof (induction evs arbitrary: s key)
  case Nil
  show ?case by (auto simp: settle_def later_usage_def intro!: nth_equalityI split: option.split)
next
  case (Cons ev evs)
  obtain key' where k: "keyed (waste_event unix b ev s) key'" "inside b evs (waste_event unix b ev s) key'"
    "settle b evs key' (ws_reqs (waste_event unix b ev s)) @ requests_of unix b evs = settle b (ev # evs) key (ws_reqs s) @ requests_of unix b (ev # evs)"
    using scan_step[OF Cons.prems] by blast
  show ?case using Cons.IH[OF k(1,2)] Cons.prems(3) k(3) by simp
qed

definition logged_events :: "audit_codec \<Rightarrow> bytes option \<Rightarrow> audit_event list" where
  "logged_events ac lg = List.map_filter (line_event ac) (file_lines (log_string lg))"

lemma scan_requests_of:
  assumes "usage_inside b (logged_events ac lg)"
  shows "ws_reqs (scan_requests unix ac b lg) = requests_of unix b (logged_events ac lg)"
proof -
  have f: "fold (waste_line unix ac b) ls s = fold (waste_event unix b) (List.map_filter (line_event ac) ls) s" for ls s
    by (induction ls arbitrary: s) (simp_all add: waste_line_def map_filter_simps split: option.split)
  have "keyed waste_start (\<lambda>_. None)" "inside b (logged_events ac lg) waste_start (\<lambda>_. None)"
    by (simp_all add: keyed_def inside_def waste_start_def btm_get_def)
  from scan_events[OF this assms, of unix] show ?thesis
    by (simp add: scan_requests_def f logged_events_def settle_def waste_start_def)
qed

text \<open>C23: the waste is exactly the requests that were sent again. In every window that no usage event of its requests falls
  out of (for all time always; a finding says what happens to a stream that ends after the window) and under every policy, the
  retries and loops of the report together count the requests whose previous request with the same fingerprint lies
  within the gap, once each, with the dollars the log records for those requests (in their own events and in the usage events that
  name them) and the number of those without known usage; the grouping into chains loses and repeats nothing.\<close>

theorem waste_is_resends:
  assumes "usage_inside (window_bounds cal today wn) (logged_events ac lg)"
  shows "let reqs = requests_of unix (window_bounds cal today wn) (logged_events ac lg);
        again = filter (resent reqs (sint (waste_gap p))) [0..<length reqs];
        r = report_waste unix ac cal today now_period wn p lg cf pr
    in bt_wasted_requests (wr_retries r) + bt_wasted_requests (wr_loops r) = of_nat (length again)
     \<and> bt_wasted_usd (wr_retries r) + bt_wasted_usd (wr_loops r) = sum_list (map (\<lambda>i. wq_cost (reqs ! i)) again)
     \<and> bt_wasted_ref (wr_retries r) + bt_wasted_ref (wr_loops r) = sum_list (map (\<lambda>i. wq_ref (reqs ! i)) again)
     \<and> bt_unpriced (wr_retries r) + bt_unpriced (wr_loops r) = of_nat (length (filter (\<lambda>i. \<not> wq_priced (reqs ! i)) again))"
proof -
  have u: "sum_list (map (\<lambda>i. if P i then 0 else 1 :: u64) is) = of_nat (length (filter (\<lambda>i. \<not> P i) is))" for P and "is" :: "nat list"
    by (induction "is") simp_all
  show ?thesis unfolding scan_requests_of[OF assms, of unix, symmetric]
    by (simp add: report_waste_def Let_def resent_requests.all_sum resent_usd.all_sum resent_ref.all_sum resent_unpriced.all_sum u sum_list_triv)
qed

text \<open>A log of four lines: a request, its usage, and both again. The second request is a re-send, and costs what its usage event says.\<close>

definition note_codec :: audit_codec where
  "note_codec = \<lparr>json_bytes = (\<lambda>_. []), event_line = (\<lambda>_. []), line_event = (\<lambda>l.
     if l = ''a'' then Some ((demo_logged ''allow'' None None)\<lparr>ev_fp := Some ''f''\<rparr>)
     else if l = ''u'' then Some (demo_logged ''usage'' (Some 0) (Some (demo_usage\<lparr>ur_cost_usd := 5\<rparr>))) else None)\<rparr>"

definition note_log :: bytes where
  "note_log = [CHR ''a'', CHR 0x0A, CHR ''u'', CHR 0x0A, CHR ''a'', CHR 0x0A, CHR ''u'', CHR 0x0A]"

lemma note_events: "logged_events note_codec (Some note_log) =
   [(demo_logged ''allow'' None None)\<lparr>ev_fp := Some ''f''\<rparr>, demo_logged ''usage'' (Some 0) (Some (demo_usage\<lparr>ur_cost_usd := 5\<rparr>)),
    (demo_logged ''allow'' None None)\<lparr>ev_fp := Some ''f''\<rparr>, demo_logged ''usage'' (Some 0) (Some (demo_usage\<lparr>ur_cost_usd := 5\<rparr>))]"
proof -
  have "utf8_valid note_log"    "file_lines note_log = [''a'', ''u'', ''a'', ''u'']" by code_simp+
  then show ?thesis by (simp add: logged_events_def log_string_def map_filter_simps note_codec_def)
qed

theorem waste_is_resends_witness:
  "let r = report_waste (\<lambda>_. Some 0) note_codec demo_calendar 7 ''2026-07'' AllTime None (Some note_log) None None
   in bt_wasted_requests (wr_retries r) + bt_wasted_requests (wr_loops r) = 1
     \<and> bt_wasted_usd (wr_retries r) + bt_wasted_usd (wr_loops r) = 5
     \<and> bt_unpriced (wr_retries r) + bt_unpriced (wr_loops r) = 0"
proof -
  let ?lg = "Some note_log" and ?b = "window_bounds demo_calendar 7 AllTime"
  have w: "in_window ?b h" for h by (simp add: window_bounds_def in_window_def)
  have i: "usage_inside ?b (logged_events note_codec ?lg)"
    by (simp add: note_events later_usage_def counted_def w list_all_iff)
  have r: "requests_of (\<lambda>_. Some 0) ?b (logged_events note_codec ?lg) =
      replicate 2 \<lparr>wq_ts = 0, wq_host = ''api'', wq_path = [], wq_method = [], wq_fp = ''f'', wq_cost = 5, wq_ref = 0, wq_priced = True\<rparr>"
    by (simp add: note_events later_usage_def counted_def w demo_logged_def demo_usage_def numeral_2_eq_2)
  have g: "filter (resent (replicate 2 q) (sint (waste_gap None))) [0..<2] = [1]" for q
  proof -
    have "sint (waste_gap None) \<ge> 0" by code_simp
    then show ?thesis by (simp add: numeral_2_eq_2 resent_def same_before_def)
  qed
  show ?thesis
    using waste_is_resends[OF i, of "\<lambda>_. Some 0" None "''2026-07''" None None] unfolding r Let_def length_replicate g by simp
qed

section \<open>The chains\<close>






definition span_chain :: "waste_req list \<Rightarrow> u32 \<Rightarrow> u64 btmap \<Rightarrow> string \<times> nat \<times> nat \<Rightarrow> chain" where
  "span_chain reqs thr bl t = (case t of (fp, x, y) \<Rightarrow> make_chain reqs thr bl fp (group_of reqs fp) x y)"





text \<open>A repeat that was blocked counts towards the threshold of the chain it is attached to.\<close>

lemma chain_loop_blocked:
  assumes "x < y" "y < length (group_of reqs fp)"
  shows "ch_is_loop (span_chain reqs thr bl (fp, x, y))
    \<longleftrightarrow> ucast thr \<le> ch_count (span_chain reqs thr bl (fp, x, y)) + ch_blocked (span_chain reqs thr bl (fp, x, y))"
  by (simp add: span_chain_def make_chain_fields(6)[OF assms])

section \<open>Waste and spend\<close>

definition usage_nonneg :: "audit_event \<Rightarrow> bool" where
  "usage_nonneg ev = (case ev_usage ev of None \<Rightarrow> True | Some u \<Rightarrow> 0 \<le> ur_cost_usd u \<and> 0 \<le> ur_ref_cost_usd u)"

definition scan_ok :: "waste_scan \<Rightarrow> bool" where
  "scan_ok s \<longleftrightarrow> vals_ok (\<lambda>i. i < length (ws_reqs s)) (ws_by_seq s) \<and> list_all (\<lambda>q. 0 \<le> wq_cost q \<and> 0 \<le> wq_ref q) (ws_reqs s)"

lemma sum_update: "i < length xs \<Longrightarrow> sum_list (map f (xs[i := v])) = sum_list (map f xs) - f (xs ! i) + (f v :: real)"
  by (induction xs arbitrary: i) (auto split: nat.split)

lemma vals_ok_mono: "vals_ok P m \<Longrightarrow> (\<And>v. P v \<Longrightarrow> Q v) \<Longrightarrow> vals_ok Q m"
  by (auto simp: vals_ok_def list_all_iff)

lemma share_cost:
  "bk_cost_usd (event_share ev) = (if ev_action ev \<in> {''allow'', ''warn'', ''usage''} then (case ev_usage ev of None \<Rightarrow> 0 | Some u \<Rightarrow> ur_cost_usd u) else 0)"
  "bk_ref_cost_usd (event_share ev) = (if ev_action ev \<in> {''allow'', ''warn'', ''usage''} then (case ev_usage ev of None \<Rightarrow> 0 | Some u \<Rightarrow> ur_ref_cost_usd u) else 0)"
  by (simp_all add: event_share_def priced_def add_usage_def bucket_default_def Let_def split: option.split)

lemma req_of_cost:
  "wq_cost (req_of unix ev fp) = (case ev_usage ev of None \<Rightarrow> 0 | Some u \<Rightarrow> ur_cost_usd u)"
  "wq_ref (req_of unix ev fp) = (case ev_usage ev of None \<Rightarrow> 0 | Some u \<Rightarrow> ur_ref_cost_usd u)"
  by (simp_all add: req_of_def split: option.split)

lemma waste_event_cases:
  obtains (same) "waste_event unix b ev s = s"
  | (new) fp where "ev_action ev = ''allow'' \<or> ev_action ev = ''warn''"
      "waste_event unix b ev s = s\<lparr>ws_by_seq := btm_insert (ev_seq ev) (length (ws_reqs s)) (ws_by_seq s), ws_reqs := ws_reqs s @ [req_of unix ev fp]\<rparr>"
  | (price) seq i u where "ev_action ev = ''usage''" "btm_get (ws_by_seq s) seq = Some i" "ev_usage ev = Some u"
      "waste_event unix b ev s = s\<lparr>ws_reqs := (ws_reqs s)[i := price_req u (ws_reqs s ! i)]\<rparr>"
  | (blocked) m where "waste_event unix b ev s = s\<lparr>ws_blocked := m\<rparr>"
proof -
  consider "ev_action ev = ''allow'' \<or> ev_action ev = ''warn''" | "ev_action ev = ''usage''" | "ev_action ev = ''deny''"
    | "ev_action ev \<notin> {''allow'', ''warn'', ''usage'', ''deny''}" by auto
  then show thesis
  proof cases
    case 1
    then show thesis using same new by (cases "ev_fp ev"; cases "in_window b (waste_hour (ev_ts ev))") (simp_all add: waste_event_def)
  next
    case 2
    show thesis
    proof (cases "\<exists>seq i u. ev_req_seq ev = Some seq \<and> btm_get (ws_by_seq s) seq = Some i \<and> ev_usage ev = Some u")
      case True
      then show thesis using 2 same price by (cases "in_window b (waste_hour (ev_ts ev))") (auto simp: waste_event_def)
    next
      case False
      then have "waste_event unix b ev s = s" using 2 by (auto simp: waste_event_def split: option.split)
      then show thesis by (rule same)
    qed
  next
    case 3
    then show thesis using same blocked
      by (cases "ev_fp ev"; cases "in_window b (waste_hour (ev_ts ev))"; cases "starts_with (ev_note ev) ''spend tripwire''") (simp_all add: waste_event_def)
  next
    case 4
    then have "waste_event unix b ev s = s" by (simp add: waste_event_def)
    then show thesis by (rule same)
  qed
qed

lemma waste_event_cost:
  fixes unix b
  assumes "scan_ok s" "usage_nonneg ev"
  shows "scan_ok (waste_event unix b ev s) \<and> sum_list (map wq_cost (ws_reqs (waste_event unix b ev s))) \<le> sum_list (map wq_cost (ws_reqs s)) + bk_cost_usd (event_share ev)
    \<and> sum_list (map wq_ref (ws_reqs (waste_event unix b ev s))) \<le> sum_list (map wq_ref (ws_reqs s)) + bk_ref_cost_usd (event_share ev)"
proof -
  have n: "0 \<le> bk_cost_usd (event_share ev)" "0 \<le> bk_ref_cost_usd (event_share ev)"
    using assms(2) by (auto simp: share_cost usage_nonneg_def split: option.split)
  show ?thesis
  proof (cases rule: waste_event_cases[of unix b ev s])
    case same
    then show ?thesis using assms(1) n by simp
  next
    case (new fp)
    have "vals_ok (\<lambda>i. i < length (ws_reqs s) + 1) (btm_insert (ev_seq ev) (length (ws_reqs s)) (ws_by_seq s))"
      using assms(1) by (intro vals_ok_insert) (auto simp: scan_ok_def elim: vals_ok_mono)
    then show ?thesis
      using assms new(1) by (auto simp: new(2) scan_ok_def usage_nonneg_def req_of_cost share_cost split: option.splits)
  next
    case (price seq i u)
    have i: "i < length (ws_reqs s)" using assms(1) price(2) vals_ok_get by (fastforce simp: scan_ok_def)
    have "0 \<le> wq_cost (price_req u (ws_reqs s ! i)) \<and> 0 \<le> wq_ref (price_req u (ws_reqs s ! i))"
      using assms(1,2) i price(3) by (auto simp: scan_ok_def usage_nonneg_def price_req_def list_all_length)
    then have "list_all (\<lambda>q. 0 \<le> wq_cost q \<and> 0 \<le> wq_ref q) ((ws_reqs s)[i := price_req u (ws_reqs s ! i)])"
      using assms(1) by (auto simp: scan_ok_def list_all_iff dest!: set_update_subset_insert[THEN subsetD])
    then show ?thesis
      using assms(1) price(1,3) i by (auto simp: price(4) scan_ok_def sum_update price_req_def share_cost)
  next
    case (blocked m)
    then show ?thesis using assms(1) n by (simp add: scan_ok_def)
  qed
qed

lemma scan_cost:
  fixes unix b
  assumes "codec_ok fx ac" "list_all (event_exact fx) evs" "list_all usage_nonneg evs" "scan_ok s"
  defines "s' \<equiv> fold (waste_line unix ac b) (map (event_line ac) evs) s"
  shows "scan_ok s' \<and> sum_list (map wq_cost (ws_reqs s')) \<le> sum_list (map wq_cost (ws_reqs s)) + sum_list (map (\<lambda>ev. bk_cost_usd (event_share ev)) evs)
    \<and> sum_list (map wq_ref (ws_reqs s')) \<le> sum_list (map wq_ref (ws_reqs s)) + sum_list (map (\<lambda>ev. bk_ref_cost_usd (event_share ev)) evs)"
  unfolding s'_def using assms(2-4)
proof (induction evs arbitrary: s)
  case (Cons ev evs)
  have "waste_line unix ac b (event_line ac ev) s = waste_event unix b ev s"
    using assms(1) Cons.prems(1) by (simp add: waste_line_def codec_ok_def)
  then show ?case
    using Cons.IH[of "waste_event unix b ev s"] waste_event_cost[of s ev unix b] Cons.prems by fastforce
qed simp

lemma resent_cost:
  assumes "list_all (\<lambda>q. 0 \<le> f q) reqs"
  shows "sum_list (map (\<lambda>i. f (reqs ! i)) (filter P [0..<length reqs])) \<le> (sum_list (map f reqs) :: real)"
proof -
  have "sum_list (map (\<lambda>i. f (reqs ! i)) (filter P is)) \<le> sum_list (map (\<lambda>i. f (reqs ! i)) is)" if "\<forall>i \<in> set is. 0 \<le> f (reqs ! i)" for "is"
    using that by (induction "is") auto
  from this[of "[0..<length reqs]"] show ?thesis using assms by (simp add: list_all_length map_nth[of reqs, symmetric, THEN arg_cong[of _ _ "map f"]] comp_def)
qed

text \<open>The waste report never claims more than was spent. On a well-formed log without negative costs, the dollars
  of retries and loops over any window are at most the spend that the statistics of the same log show over all time,
  and likewise for the plan-absorbed reference dollars, which are never mixed with the first.\<close>

theorem waste_within_spend:
  assumes "log_ok fx ac evs" and "list_all usage_nonneg evs" and "dk_log d = Some (log_bytes ac evs)"
  shows "\<exists>r. snd (stats_query files_work cr ac cal today AllTime d None) = Inr r
    \<and> (let w = report_waste unix ac cal today now_period wn p (dk_log d) cf pr
       in total_usd w \<le> bo_cost_usd (rp_totals r) + wr_cache_repairable w \<and> total_ref_usd w \<le> bo_plan_absorbed_usd (rp_totals r))"
proof -
  have ok: "codec_ok fx ac" "list_all (event_exact fx) evs" using assms(1) by (auto simp: log_ok_def list_all_iff)
  obtain a where a: "ingest_log cr ac (log_bytes ac evs) fresh = Inr a"
    and us: "\<And>c. c \<in> set usd_fields \<Longrightarrow> c (totals_of (window_rows (None, None) a)) = sum_list (map (\<lambda>ev. c (event_share ev)) evs)"
    using log_ok_ingest[OF assms(1), of cr] by blast
  let ?r = "make_report cal today AllTime (dk_head d) a"
  have t: "bo_cost_usd (rp_totals ?r) = sum_list (map (\<lambda>ev. bk_cost_usd (event_share ev)) evs)"
    "bo_plan_absorbed_usd (rp_totals ?r) = sum_list (map (\<lambda>ev. bk_ref_cost_usd (event_share ev)) evs)"
    using us[of bk_cost_usd] us[of bk_ref_cost_usd] by (simp_all add: make_report_def from_bucket_def window_bounds_def Let_def usd_fields_def)
  let ?s = "scan_requests unix ac (window_bounds cal today wn) (dk_log d)"
  have s0: "scan_ok waste_start" "sum_list (map wq_cost (ws_reqs waste_start)) = 0" "sum_list (map wq_ref (ws_reqs waste_start)) = 0"
    by (simp_all add: scan_ok_def waste_start_def)
  have z: "0 \<le> bo_cost_usd (rp_totals ?r) \<and> 0 \<le> bo_plan_absorbed_usd (rp_totals ?r)"
    using assms(2) unfolding t by (induction evs) (auto simp: share_cost usage_nonneg_def split: option.splits)
  have c: "scan_ok ?s \<and> sum_list (map wq_cost (ws_reqs ?s)) \<le> bo_cost_usd (rp_totals ?r) \<and> sum_list (map wq_ref (ws_reqs ?s)) \<le> bo_plan_absorbed_usd (rp_totals ?r)"
  proof (cases "utf8_valid (log_bytes ac evs)")
    case True
    then show ?thesis
      using scan_cost[OF ok assms(2) s0(1), of unix "window_bounds cal today wn"] s0(2,3) file_lines_log[OF ok]
      by (simp add: scan_requests_def log_string_def assms(3) t)
  next
    case False
    then show ?thesis using s0 z by (simp add: scan_requests_def log_string_def assms(3) file_lines_def)
  qed
  then have n: "list_all (\<lambda>q. 0 \<le> wq_cost q) (ws_reqs ?s)" "list_all (\<lambda>q. 0 \<le> wq_ref q) (ws_reqs ?s)" by (auto simp: scan_ok_def list_all_iff)
  show ?thesis
    using c resent_cost[OF n(1), of "resent (ws_reqs ?s) (sint (waste_gap p))"] resent_cost[OF n(2), of "resent (ws_reqs ?s) (sint (waste_gap p))"]
    by (intro exI[of _ ?r] conjI query_fresh[OF a assms(3)])
      (simp add: report_waste_def Let_def total_usd_def total_ref_usd_def resent_usd.all_sum resent_ref.all_sum)
qed

theorem waste_within_spend_witness:
  "\<exists>r. snd (stats_query files_work length_crypto demo_codec demo_calendar 7 AllTime
       \<lparr>dk_log = Some (log_bytes demo_codec demo_log), dk_head = None\<rparr> None) = Inr r
    \<and> (let w = report_waste (\<lambda>_. Some 0) demo_codec demo_calendar 7 ''2026-07'' Today None (Some (log_bytes demo_codec demo_log)) None None
       in total_usd w \<le> bo_cost_usd (rp_totals r) + wr_cache_repairable w \<and> total_ref_usd w \<le> bo_plan_absorbed_usd (rp_totals r))"
proof -
  have "list_all usage_nonneg demo_log" by (simp add: demo_log_def demo_logged_def demo_usage_def usage_nonneg_def)
  then show ?thesis
    using waste_within_spend[OF demo_log_ok, of "\<lparr>dk_log = Some (log_bytes demo_codec demo_log), dk_head = None\<rparr>" length_crypto demo_calendar 7
      "\<lambda>_. Some 0" "''2026-07''" Today None None None] by simp
qed

end
