(* ===== verification/Vault_Keys.thy ===== *)
theory Vault_Keys
  imports Vault
begin

text \<open>
  \<^verbatim>\<open>src/src/vault.rs\<close> from \<open>KeyBackend\<close> on: where the vault key lives, the migrations between the key file and the login
  keychain (\<^verbatim>\<open>src/src/keyring.rs\<close>), the encrypted vault file and the key of the policy record. A program returns
  every state of the disk it goes through, since it can be interrupted in any of them: a file is written and
  overwritten byte by byte. The keychain is what its interface promises, each call with its outcome as an
  argument; the cipher and HMAC are parameters.
\<close>

section \<open>Key file and keychain item\<close>

record key_disk =
  kd_file :: "bytes option"
  kd_item :: "bytes option"

datatype key_error = HomeFailed | KeychainFailed | DuplicateItem | CorruptItem | ReadFailed | WriteFailed | CorruptFile
  | RemoveFailed | ItemVanished | CopiesDiffer | RoundTripFailed | Truncated | EncryptFailed | DecryptFailed | BadJson

datatype write_outcome = Written | Unopened | Partial nat

text \<open>How the calls of one run end: those of the file system, those of the keychain (what a successful
  \<open>store\<close> really keeps is \<open>ki_store\<close>), and the random bytes it draws.\<close>

record key_io =
  ki_home :: bool
  ki_read :: bool
  ki_write :: write_outcome
  ki_opens :: bool
  ki_overwrites :: nat
  ki_removes :: bool
  ki_exists :: bool
  ki_fetch :: bool
  ki_store :: "bytes \<Rightarrow> bytes option"
  ki_delete :: bool
  ki_random :: "nat \<Rightarrow> char"

type_synonym 'a key_prog = "key_disk \<Rightarrow> key_disk list \<times> key_disk \<times> (key_error + 'a)"

definition key_return :: "'a \<Rightarrow> 'a key_prog" where
  "key_return x d = ([], d, Inr x)"

definition key_fail :: "key_error \<Rightarrow> 'a key_prog" where
  "key_fail e d = ([], d, Inl e)"

definition key_bind :: "'a key_prog \<Rightarrow> ('a \<Rightarrow> 'b key_prog) \<Rightarrow> 'b key_prog" where
  "key_bind m f d = (case m d of
     (tr, d1, Inl e) \<Rightarrow> (tr, d1, Inl e)
   | (tr, d1, Inr x) \<Rightarrow> (case f x d1 of (tr', d2, r) \<Rightarrow> (tr @ tr', d2, r)))"

text \<open>Recovering from an error, as a \<open>match\<close> on the result does.\<close>

definition key_try :: "'a key_prog \<Rightarrow> (key_error + 'a) key_prog" where
  "key_try m d = (case m d of (tr, d1, r) \<Rightarrow> (tr, d1, Inr r))"

definition file_exists :: "bool key_prog" where
  "file_exists d = ([], d, Inr (kd_file d \<noteq> None))"

definition ensure_home :: "key_io \<Rightarrow> unit key_prog" where
  "ensure_home io = (if ki_home io then key_return () else key_fail HomeFailed)"

text \<open>\<open>config::write_private\<close>.\<close>

definition write_private :: "key_io \<Rightarrow> bytes \<Rightarrow> unit key_prog" where
  "write_private io bs d =
     (let upto = (\<lambda>n. d\<lparr>kd_file := Some (take n bs)\<rparr>) in
      case ki_write io of
        Unopened \<Rightarrow> ([], d, Inl WriteFailed)
      | Partial n \<Rightarrow> (map upto [0..<n + 1], upto n, Inl WriteFailed)
      | Written \<Rightarrow> (map upto [0..<length bs + 1], upto (length bs), Inr ()))"

definition random_bytes :: "key_io \<Rightarrow> nat \<Rightarrow> bytes" where
  "random_bytes io n = map (ki_random io) [0..<n]"

definition load_or_create_file_key :: "key_io \<Rightarrow> bytes key_prog" where
  "load_or_create_file_key io d = (case kd_file d of
     Some f \<Rightarrow>
       if \<not> ki_read io then key_fail ReadFailed d
       else if length f \<noteq> 32 then key_fail CorruptFile d
       else key_return f d
   | None \<Rightarrow> (let key = random_bytes io 32 in key_bind (write_private io key) (\<lambda>_. key_return key) d))"

text \<open>\<open>shred\<close>: what could be overwritten is, then the file is removed.\<close>

definition shred :: "key_io \<Rightarrow> unit key_prog" where
  "shred io d = (case kd_file d of
     None \<Rightarrow> ([], d, Inl RemoveFailed)
   | Some old \<Rightarrow>
       (let junk = random_bytes io (length old);
            over = (\<lambda>n. d\<lparr>kd_file := Some (take n junk @ drop n old)\<rparr>);
            n = (if ki_opens io then ki_overwrites io else 0)
        in (map over [0..<n + 1], if ki_removes io then (d\<lparr>kd_file := None\<rparr>, Inr ()) else (over n, Inl RemoveFailed))))"

section \<open>The keychain\<close>

definition keyring_exists :: "key_io \<Rightarrow> bool key_prog" where
  "keyring_exists io d = (if ki_exists io then key_return (kd_item d \<noteq> None) d else key_fail KeychainFailed d)"

definition keyring_fetch :: "key_io \<Rightarrow> bytes option key_prog" where
  "keyring_fetch io d = (case kd_item d of
     None \<Rightarrow> if ki_fetch io then key_return None d else key_fail KeychainFailed d
   | Some k \<Rightarrow>
       if \<not> ki_fetch io then key_fail KeychainFailed d
       else if length k = 32 then key_return (Some k) d else key_fail CorruptItem d)"

definition keyring_store :: "key_io \<Rightarrow> bytes \<Rightarrow> unit key_prog" where
  "keyring_store io key d = (case kd_item d of
     Some _ \<Rightarrow> key_fail DuplicateItem d
   | None \<Rightarrow> (case ki_store io key of
         None \<Rightarrow> key_fail KeychainFailed d
       | Some k \<Rightarrow> ([d\<lparr>kd_item := Some k\<rparr>], d\<lparr>kd_item := Some k\<rparr>, Inr ())))"

definition keyring_delete :: "key_io \<Rightarrow> bool key_prog" where
  "keyring_delete io d = (if \<not> ki_delete io then key_fail KeychainFailed d
     else case kd_item d of None \<Rightarrow> key_return False d | Some _ \<Rightarrow> ([d\<lparr>kd_item := None\<rparr>], d\<lparr>kd_item := None\<rparr>, Inr True))"

section \<open>Choosing the backend\<close>

datatype key_backend = FileKey | KeychainKey

text \<open>What a run is: the platform, the build, and the override of the home directory with the resolution of
  paths (\<open>canonicalize\<close>) and the default home.\<close>

record key_site =
  ks_macos :: bool
  ks_release :: bool
  ks_override :: "string option"
  ks_default :: "string option"
  ks_canonical :: "string \<Rightarrow> string option"

definition is_default_home :: "key_site \<Rightarrow> bool" where
  "is_default_home st = (case ks_override st of
     None \<Rightarrow> True
   | Some overridden \<Rightarrow>
       (case ks_default st of
          None \<Rightarrow> False
        | Some dflt \<Rightarrow>
            (case (ks_canonical st overridden, ks_canonical st dflt) of (Some a, Some b) \<Rightarrow> a = b | _ \<Rightarrow> False)))"

definition resolve_backend :: "key_io \<Rightarrow> key_site \<Rightarrow> key_backend key_prog" where
  "resolve_backend io st =
     (if \<not> is_default_home st then key_return FileKey
      else if ks_macos st
      then key_bind (ensure_home io) (\<lambda>_. key_bind (keyring_exists io) (\<lambda>e. key_return (if e then KeychainKey else FileKey)))
      else key_return FileKey)"

definition keychain_is_first_run_default :: "bool \<Rightarrow> bool \<Rightarrow> bool \<Rightarrow> bool \<Rightarrow> bool" where
  "keychain_is_first_run_default macos default_home release_build file_key_exists
     \<longleftrightarrow> macos \<and> default_home \<and> release_build \<and> \<not> file_key_exists"

definition first_run_keychain_default :: "key_site \<Rightarrow> bool key_prog" where
  "first_run_keychain_default st = key_bind file_exists (\<lambda>f. key_return
     (keychain_is_first_run_default (ks_macos st) (is_default_home st) (ks_release st) f))"

definition create_default_key :: "key_io \<Rightarrow> bytes key_prog" where
  "create_default_key io =
     (let key = random_bytes io 32 in
      key_bind (key_try (keyring_store io key)) (\<lambda>stored.
      key_bind (key_try (keyring_fetch io)) (\<lambda>back.
        case stored of
          Inr _ \<Rightarrow> if back = Inr (Some key) then key_return key
            else key_bind (key_try (keyring_delete io)) (\<lambda>_. load_or_create_file_key io)
        | Inl _ \<Rightarrow> (case back of Inr (Some existing) \<Rightarrow> key_return existing | _ \<Rightarrow> load_or_create_file_key io))))"

definition keychain_key_from :: "key_io \<Rightarrow> bytes key_prog" where
  "keychain_key_from io = key_bind (keyring_fetch io) (\<lambda>k. case k of Some key \<Rightarrow> key_return key | None \<Rightarrow> key_fail ItemVanished)"

definition load_or_create_key :: "key_io \<Rightarrow> key_site \<Rightarrow> bytes key_prog" where
  "load_or_create_key io st =
     key_bind (ensure_home io) (\<lambda>_. key_bind (resolve_backend io st) (\<lambda>b. case b of
       FileKey \<Rightarrow> key_bind (first_run_keychain_default st)
         (\<lambda>first. if first then key_bind (ensure_home io) (\<lambda>_. create_default_key io) else load_or_create_file_key io)
     | KeychainKey \<Rightarrow> key_bind (ensure_home io) (\<lambda>_. keychain_key_from io)))"

section \<open>Migration\<close>

definition migrate_key_to_store :: "key_io \<Rightarrow> bool key_prog" where
  "migrate_key_to_store io =
     key_bind (ensure_home io) (\<lambda>_. key_bind (keyring_exists io) (\<lambda>there.
       if there then key_bind file_exists (\<lambda>f.
         if \<not> f then key_return False
         else key_bind (load_or_create_file_key io) (\<lambda>file_key. key_bind (keyring_fetch io) (\<lambda>fetched. case fetched of
             None \<Rightarrow> key_fail ItemVanished
           | Some item_key \<Rightarrow>
               if file_key \<noteq> item_key then key_fail CopiesDiffer
               else key_bind (shred io) (\<lambda>_. key_return True))))
       else key_bind (load_or_create_file_key io) (\<lambda>key. key_bind (keyring_store io key) (\<lambda>_.
         key_bind (key_try (keyring_fetch io)) (\<lambda>back.
           if back \<noteq> Inr (Some key) then key_fail RoundTripFailed
           else key_bind (shred io) (\<lambda>_. key_return True))))))"

definition migrate_key_to_file :: "key_io \<Rightarrow> bool key_prog" where
  "migrate_key_to_file io =
     key_bind (ensure_home io) (\<lambda>_. key_bind (keyring_fetch io) (\<lambda>fetched. case fetched of
       None \<Rightarrow> key_return False
     | Some key \<Rightarrow> key_bind file_exists (\<lambda>f.
         key_bind (if f then key_bind (load_or_create_file_key io) (\<lambda>existing.
                       if existing \<noteq> key then key_fail CopiesDiffer else key_return ())
                   else write_private io key)
           (\<lambda>_. key_bind (keyring_delete io) (\<lambda>_. key_return True)))))"

text \<open>The command \<open>key migrate\<close> runs on macOS against the default home only. Its argument is already parsed, and the audit
  event it writes after a migration is left out.\<close>

definition key_migrate :: "key_io \<Rightarrow> key_site \<Rightarrow> bool \<Rightarrow> bool key_prog" where
  "key_migrate io st to_keychain =
     (if \<not> ks_macos st then key_fail KeychainFailed
      else if \<not> is_default_home st then key_fail HomeFailed
      else key_bind (ensure_home io) (\<lambda>_. if to_keychain then migrate_key_to_store io else migrate_key_to_file io))"

section \<open>The encrypted vault\<close>

text \<open>The cipher (key, nonce, text), HMAC-SHA-256, and the JSON form of a vault.\<close>

record vault_codec =
  vc_seal :: "bytes \<Rightarrow> bytes \<Rightarrow> bytes \<Rightarrow> bytes option"
  vc_open :: "bytes \<Rightarrow> bytes \<Rightarrow> bytes \<Rightarrow> bytes option"
  vc_hmac :: "bytes \<Rightarrow> bytes \<Rightarrow> bytes"
  vc_print :: "vault \<Rightarrow> bytes"
  vc_parse :: "bytes \<Rightarrow> vault option"

definition vault_codec_ok :: "vault_codec \<Rightarrow> vault \<Rightarrow> bool" where
  "vault_codec_ok vc v \<longleftrightarrow> (\<forall>k n p c. vc_seal vc k n p = Some c \<longrightarrow> vc_open vc k n c = Some p) \<and> vc_parse vc (vc_print vc v) = Some v"

definition policy_mac_key :: "key_io \<Rightarrow> key_site \<Rightarrow> vault_codec \<Rightarrow> bytes key_prog" where
  "policy_mac_key io st vc = key_bind (load_or_create_key io st) (\<lambda>k. key_return (vc_hmac vc k ''decoyrail-policy-integrity-v1''))"

definition vault_encrypt :: "key_io \<Rightarrow> key_site \<Rightarrow> vault_codec \<Rightarrow> bytes \<Rightarrow> bytes \<Rightarrow> bytes key_prog" where
  "vault_encrypt io st vc nonce plaintext = key_bind (load_or_create_key io st) (\<lambda>k.
     case vc_seal vc k nonce plaintext of None \<Rightarrow> key_fail EncryptFailed | Some ct \<Rightarrow> key_return (nonce @ ct))"

definition vault_decrypt :: "key_io \<Rightarrow> key_site \<Rightarrow> vault_codec \<Rightarrow> bytes \<Rightarrow> bytes key_prog" where
  "vault_decrypt io st vc blob =
     (if length blob < 12 then key_fail Truncated
      else key_bind (load_or_create_key io st) (\<lambda>k.
        case vc_open vc k (take 12 blob) (drop 12 blob) of None \<Rightarrow> key_fail DecryptFailed | Some p \<Rightarrow> key_return p))"

text \<open>\<open>save\<close> returns the contents of the vault file.\<close>

definition vault_save :: "key_io \<Rightarrow> key_site \<Rightarrow> vault_codec \<Rightarrow> bytes \<Rightarrow> vault \<Rightarrow> bytes key_prog" where
  "vault_save io st vc nonce v = key_bind (ensure_home io) (\<lambda>_. vault_encrypt io st vc nonce (vc_print vc v))"

definition vault_load :: "key_io \<Rightarrow> key_site \<Rightarrow> vault_codec \<Rightarrow> bytes option \<Rightarrow> vault key_prog" where
  "vault_load io st vc vault_file =
     key_bind (ensure_home io) (\<lambda>_. case vault_file of
       None \<Rightarrow> key_return \<lparr>secrets = []\<rparr>
     | Some blob \<Rightarrow>
         if \<not> ki_read io then key_fail ReadFailed
         else key_bind (vault_decrypt io st vc blob) (\<lambda>p. case vc_parse vc p of None \<Rightarrow> key_fail BadJson | Some v \<Rightarrow> key_return v))"

end
