(* ===== verification/Vault_Keys_Props.thy ===== *)
theory Vault_Keys_Props
  imports Vault_Keys
begin

text \<open>The safety of the vault key: a small Hoare logic whose triples speak about every state a program goes through
  (\<open>key_triple\<close>), one rule per primitive, the invariant of the migrations and of reading the key, and the histories
  of an installation (\<open>key_history\<close>) with failures and interruptions anywhere.\<close>

section \<open>Triples\<close>

text \<open>From a state with \<open>P\<close>, every state on the way and the last one have \<open>I\<close>, and a result has \<open>Q\<close>.\<close>

definition key_triple :: "(key_disk \<Rightarrow> bool) \<Rightarrow> 'a key_prog \<Rightarrow> ('a \<Rightarrow> key_disk \<Rightarrow> bool) \<Rightarrow> (key_disk \<Rightarrow> bool) \<Rightarrow> bool" where
  "key_triple P m Q I \<longleftrightarrow> (\<forall>d. P d \<longrightarrow> (case m d of (tr, d', r) \<Rightarrow> list_all I tr \<and> I d' \<and> (case r of Inl _ \<Rightarrow> True | Inr x \<Rightarrow> Q x d')))"

lemma triple_bind:
  assumes "key_triple P m Q I" "\<And>x. key_triple (Q x) (f x) R I"
  shows "key_triple P (key_bind m f) R I"
  unfolding key_triple_def
proof (intro allI impI)
  fix d assume "P d"
  then have m: "case m d of (tr, d', r) \<Rightarrow> list_all I tr \<and> I d' \<and> (case r of Inl _ \<Rightarrow> True | Inr x \<Rightarrow> Q x d')"
    using assms(1) by (simp add: key_triple_def)
  obtain tr d1 r where e: "m d = (tr, d1, r)" by (metis prod_cases3)
  show "case key_bind m f d of (tr, d', r) \<Rightarrow> list_all I tr \<and> I d' \<and> (case r of Inl _ \<Rightarrow> True | Inr x \<Rightarrow> R x d')"
  proof (cases r)
    case (Inr x)
    then have "case f x d1 of (tr, d', r) \<Rightarrow> list_all I tr \<and> I d' \<and> (case r of Inl _ \<Rightarrow> True | Inr x \<Rightarrow> R x d')"
      using m e assms(2)[of x] by (simp add: key_triple_def)
    then show ?thesis using m e Inr by (auto simp: key_bind_def split: prod.split)
  qed (use m e in \<open>simp add: key_bind_def\<close>)
qed

lemma triple_try: "key_triple P m Q I \<Longrightarrow> key_triple P (key_try m) (\<lambda>r d. I d \<and> (case r of Inl _ \<Rightarrow> True | Inr x \<Rightarrow> Q x d)) I"
  unfolding key_triple_def key_try_def by (auto split: prod.split)

lemma triple_return: "(\<And>d. P d \<Longrightarrow> Q x d \<and> I d) \<Longrightarrow> key_triple P (key_return x) Q I"
  by (simp add: key_triple_def key_return_def)

lemma triple_fail: "(\<And>d. P d \<Longrightarrow> I d) \<Longrightarrow> key_triple P (key_fail e) Q I"
  by (simp add: key_triple_def key_fail_def)

lemma triple_weaken: "key_triple P m Q I \<Longrightarrow> (\<And>d. P' d \<Longrightarrow> P d) \<Longrightarrow> (\<And>x d. Q x d \<Longrightarrow> Q' x d) \<Longrightarrow> key_triple P' m Q' I"
  unfolding key_triple_def
proof (intro allI impI)
  fix d
  assume a: "\<forall>d. P d \<longrightarrow> (case m d of (tr, d', r) \<Rightarrow> list_all I tr \<and> I d' \<and> (case r of Inl _ \<Rightarrow> True | Inr x \<Rightarrow> Q x d'))"
    and p: "\<And>d. P' d \<Longrightarrow> P d" and q: "\<And>x d. Q x d \<Longrightarrow> Q' x d" and d: "P' d"
  obtain tr d1 r where m: "m d = (tr, d1, r)" by (metis prod_cases3)
  have "list_all I tr \<and> I d1 \<and> (case r of Inl _ \<Rightarrow> True | Inr x \<Rightarrow> Q x d1)" using spec[OF a, THEN mp, OF p[OF d]] unfolding m by simp
  then show "case m d of (tr, d', r) \<Rightarrow> list_all I tr \<and> I d' \<and> (case r of Inl _ \<Rightarrow> True | Inr x \<Rightarrow> Q' x d')"
    unfolding m by (cases r) (simp_all add: q)
qed

lemma triple_if: "(b \<Longrightarrow> key_triple P m Q I) \<Longrightarrow> (\<not> b \<Longrightarrow> key_triple P n Q I) \<Longrightarrow> key_triple P (if b then m else n) Q I"
  by simp

lemmas triple_rules = triple_return triple_fail triple_if

section \<open>The primitive programs\<close>

lemma triple_home: "(\<And>d. P d \<Longrightarrow> I d) \<Longrightarrow> key_triple P (ensure_home io) (\<lambda>_. P) I"
  by (simp add: ensure_home_def triple_return triple_fail)

lemma triple_file_exists: "(\<And>d. P d \<Longrightarrow> I d) \<Longrightarrow> key_triple P file_exists (\<lambda>f d. P d \<and> f = (kd_file d \<noteq> None)) I"
  by (simp add: key_triple_def file_exists_def)

lemma triple_exists: "(\<And>d. P d \<Longrightarrow> I d) \<Longrightarrow> key_triple P (keyring_exists io) (\<lambda>e d. P d \<and> e = (kd_item d \<noteq> None)) I"
  by (simp add: key_triple_def keyring_exists_def key_return_def key_fail_def)

lemma triple_fetch: "(\<And>d. P d \<Longrightarrow> I d) \<Longrightarrow> key_triple P (keyring_fetch io) (\<lambda>k d. P d \<and> k = kd_item d) I"
  by (auto simp: key_triple_def keyring_fetch_def key_return_def key_fail_def split: option.split)

lemma triple_load_file:
  assumes "\<And>d. P d \<Longrightarrow> I d" "\<And>d. P d \<Longrightarrow> kd_file d \<noteq> None"
  shows "key_triple P (load_or_create_file_key io) (\<lambda>k d. P d \<and> kd_file d = Some k) I"
  unfolding key_triple_def
proof (intro allI impI)
  fix d assume p: "P d"
  then obtain f where "kd_file d = Some f" using assms(2) by blast
  then show "case load_or_create_file_key io d of (tr, d', r) \<Rightarrow> list_all I tr \<and> I d' \<and> (case r of Inl _ \<Rightarrow> True | Inr k \<Rightarrow> P d' \<and> kd_file d' = Some k)"
    using p assms(1) by (simp add: load_or_create_file_key_def key_return_def key_fail_def)
qed

text \<open>What writes: the file only, or the item only.\<close>

lemma triple_write:
  assumes "\<And>d f. P d \<Longrightarrow> I (d\<lparr>kd_file := Some f\<rparr>)" "\<And>d. P d \<Longrightarrow> I d"
  shows "key_triple P (write_private io bs) (\<lambda>_ d. I d \<and> kd_file d = Some bs) I"
  using assms by (auto simp: key_triple_def write_private_def Let_def list_all_iff split: write_outcome.split)

lemma triple_shred:
  assumes "\<And>d f. P d \<Longrightarrow> I (d\<lparr>kd_file := f\<rparr>)"
  shows "key_triple P (shred io) (\<lambda>_. I) I"
proof -
  have "I d" if "P d" for d using assms[of d "kd_file d"] that by simp
  then show ?thesis using assms by (auto simp: key_triple_def shred_def Let_def list_all_iff split: option.split)
qed

lemma triple_store:
  assumes "\<And>d k. P d \<Longrightarrow> kd_item d = None \<Longrightarrow> ki_store io key = Some k \<Longrightarrow> I (d\<lparr>kd_item := Some k\<rparr>) \<and> Q (d\<lparr>kd_item := Some k\<rparr>)" "\<And>d. P d \<Longrightarrow> I d"
  shows "key_triple P (keyring_store io key) (\<lambda>_. Q) I"
  using assms by (auto simp: key_triple_def keyring_store_def key_fail_def split: option.split)

lemma triple_delete:
  assumes "\<And>d. P d \<Longrightarrow> I d \<and> I (d\<lparr>kd_item := None\<rparr>)"
  shows "key_triple P (keyring_delete io) (\<lambda>_. I) I"
  using assms by (auto simp: key_triple_def keyring_delete_def key_return_def key_fail_def split: option.split)

section \<open>The key is kept\<close>

definition key_site_keychain :: "key_site \<Rightarrow> bool" where
  "key_site_keychain st \<longleftrightarrow> ks_macos st \<and> is_default_home st"

definition faithful_store :: "key_io \<Rightarrow> bool" where
  "faithful_store io \<longleftrightarrow> (\<forall>k. ki_store io k \<in> {None, Some k})"

lemma faithful_storeD: "faithful_store io \<Longrightarrow> ki_store io k = Some k' \<Longrightarrow> k' = k"
  unfolding faithful_store_def by (metis insertE option.distinct(1) option.inject singletonD)

definition key_inv :: "bool \<Rightarrow> key_site \<Rightarrow> bytes \<Rightarrow> key_disk \<Rightarrow> bool" where
  "key_inv exact st K d \<longleftrightarrow> (kd_file d = Some K \<or> key_site_keychain st \<and> kd_item d = Some K) \<and> (exact \<longrightarrow> kd_item d \<in> {None, Some K})"

lemma migrate_to_store_keeps:
  assumes "exact \<longrightarrow> faithful_store io" "key_site_keychain st"
  shows "key_triple (key_inv exact st K) (migrate_key_to_store io) (\<lambda>_. key_inv exact st K) (key_inv exact st K)"
proof -
  let ?I = "key_inv exact st K"
  have shredded: "key_triple P (key_bind (shred io) (\<lambda>_. key_return True)) (\<lambda>_. ?I) ?I" if "\<And>d. P d \<Longrightarrow> kd_item d = Some K" for P
    by (rule triple_bind[OF triple_shred[where P = P and I = ?I]]) (use that assms(2) in \<open>auto simp: key_inv_def intro: triple_return\<close>)
  have both: "key_triple (\<lambda>d. (?I d \<and> kd_file d = Some fk) \<and> kd_item d = Some ik)
      (if fk \<noteq> ik then key_fail CopiesDiffer else key_bind (shred io) (\<lambda>_. key_return True)) (\<lambda>_. ?I) ?I" for fk ik
  proof (rule triple_if)
    assume "\<not> fk \<noteq> ik"
    then show "key_triple (\<lambda>d. (?I d \<and> kd_file d = Some fk) \<and> kd_item d = Some ik) (key_bind (shred io) (\<lambda>_. key_return True)) (\<lambda>_. ?I) ?I"
      by (intro shredded) (auto simp: key_inv_def)
  qed (auto intro: triple_fail)
  have there: "key_triple (\<lambda>d. ?I d \<and> kd_file d \<noteq> None) (key_bind (load_or_create_file_key io) (\<lambda>file_key. key_bind (keyring_fetch io) (\<lambda>fetched. case fetched of
             None \<Rightarrow> key_fail ItemVanished
           | Some item_key \<Rightarrow>
               if file_key \<noteq> item_key then key_fail CopiesDiffer
               else key_bind (shred io) (\<lambda>_. key_return True)))) (\<lambda>_. ?I) ?I"
    apply (rule triple_bind[OF triple_load_file])
      apply simp_all[2]
    apply (rule triple_bind[OF triple_fetch])
     apply simp
    subgoal for fk x
      apply (cases x)
       apply (simp only: option.case, rule triple_fail, simp)
      apply (simp only: option.case)
      apply (rule triple_weaken[OF both])
       apply auto
      done
    done
  have absent: "key_triple (\<lambda>d. ?I d \<and> kd_item d = None) (key_bind (load_or_create_file_key io) (\<lambda>key. key_bind (keyring_store io key) (\<lambda>_.
         key_bind (key_try (keyring_fetch io)) (\<lambda>back.
           if back \<noteq> Inr (Some key) then key_fail RoundTripFailed
           else key_bind (shred io) (\<lambda>_. key_return True))))) (\<lambda>_. ?I) ?I"
    apply (rule triple_bind[OF triple_load_file])
      apply (auto simp: key_inv_def)[2]
    subgoal for key
      apply (rule triple_bind[OF triple_store[where Q = "\<lambda>d. ?I d \<and> kd_file d = Some key \<and> kd_file d = Some K"]])
        apply (use assms(1) in \<open>auto simp: key_inv_def dest: faithful_storeD\<close>)[2]
      apply (rule triple_bind[OF triple_try[OF triple_fetch]])
       apply simp
      apply (rule triple_if)
       apply (rule triple_fail, simp)
      apply (rule shredded)
      apply auto
      done
    done
  show ?thesis
    unfolding migrate_key_to_store_def
    apply (rule triple_bind[OF triple_home], assumption)
    apply (rule triple_bind[OF triple_exists], assumption)
    apply (rule triple_if)
     apply (rule triple_bind[OF triple_file_exists], blast)
     apply (rule triple_if)
      apply (rule triple_return, blast)
     apply (rule triple_weaken[OF there], blast, blast)
    apply (rule triple_weaken[OF absent], blast, blast)
    done
qed

lemma migrate_to_file_keeps:
  assumes "key_site_keychain st"
  shows "key_triple (key_inv exact st K) (migrate_key_to_file io) (\<lambda>_. key_inv exact st K) (key_inv exact st K)"
proof -
  let ?I = "key_inv exact st K"
  have deleted: "key_triple (\<lambda>d. ?I d \<and> kd_file d = Some K) (key_bind (keyring_delete io) (\<lambda>_. key_return True)) (\<lambda>_. ?I) ?I"
    by (rule triple_bind[OF triple_delete[where I = ?I]]) (auto simp: key_inv_def intro: triple_return)
  have same: "key_triple (\<lambda>d. ?I d \<and> kd_item d = Some key \<and> kd_file d \<noteq> None)
      (key_bind (load_or_create_file_key io) (\<lambda>existing. if existing \<noteq> key then key_fail CopiesDiffer else key_return ()))
      (\<lambda>_ d. ?I d \<and> kd_file d = Some K) ?I" for key
    by (rule triple_bind[OF triple_load_file]) (auto simp: key_inv_def intro!: triple_fail triple_return)
  have fresh: "key_triple (\<lambda>d. ?I d \<and> kd_item d = Some key \<and> kd_file d = None) (write_private io key) (\<lambda>_ d. ?I d \<and> kd_file d = Some K) ?I" for key
  proof (cases "key = K")
    case True
    then show ?thesis by (intro triple_weaken[OF triple_write[where P = "\<lambda>d. ?I d \<and> kd_item d = Some K" and I = ?I]]) (use assms in \<open>auto simp: key_inv_def\<close>)
  next
    case False
    then show ?thesis unfolding key_triple_def by (auto simp: key_inv_def)
  qed
  have step: "key_triple (\<lambda>d. (?I d \<and> kd_item d = Some key) \<and> f = (kd_file d \<noteq> None))
      (key_bind (if f then key_bind (load_or_create_file_key io) (\<lambda>existing. if existing \<noteq> key then key_fail CopiesDiffer else key_return ())
         else write_private io key) (\<lambda>_. key_bind (keyring_delete io) (\<lambda>_. key_return True))) (\<lambda>_. ?I) ?I" for f key
    by (rule triple_bind[OF _ deleted], rule triple_if) (auto intro: triple_weaken[OF same] triple_weaken[OF fresh])
  show ?thesis
    unfolding migrate_key_to_file_def
    apply (rule triple_bind[OF triple_home], assumption)
    apply (rule triple_bind[OF triple_fetch], assumption)
    subgoal for u x
      apply (cases x)
       apply (simp only: option.case, rule triple_return, simp)
      apply (simp only: option.case)
      apply (rule triple_bind[OF triple_file_exists], blast)
      apply (rule triple_weaken[OF step], auto)
      done
    done
qed

lemma load_key_keeps:
  "key_triple (key_inv exact st K) (load_or_create_key io st) (\<lambda>k d. key_inv exact st K d \<and> (exact \<longrightarrow> k = K)) (key_inv exact st K)"
proof -
  let ?I = "key_inv exact st K"
  have choose: "key_triple ?I (resolve_backend io st) (\<lambda>b d. ?I d \<and> (case b of FileKey \<Rightarrow> kd_file d = Some K | KeychainKey \<Rightarrow> kd_item d \<noteq> None)) ?I"
    unfolding resolve_backend_def
    apply (rule triple_if)
     apply (rule triple_return, simp add: key_inv_def key_site_keychain_def)
    apply (rule triple_if)
     apply (rule triple_bind[OF triple_home], assumption)
     apply (rule triple_bind[OF triple_exists], assumption)
     apply (rule triple_return, auto simp: key_inv_def)[1]
    apply (rule triple_return, simp add: key_inv_def key_site_keychain_def)
    done
  have from_file: "key_triple (\<lambda>d. ?I d \<and> kd_file d = Some K)
      (key_bind (first_run_keychain_default st) (\<lambda>first. if first then key_bind (ensure_home io) (\<lambda>_. create_default_key io) else load_or_create_file_key io))
      (\<lambda>k d. ?I d \<and> (exact \<longrightarrow> k = K)) ?I"
    apply (rule triple_bind[where Q = "\<lambda>first d. (?I d \<and> kd_file d = Some K) \<and> \<not> first"])
     apply (unfold first_run_keychain_default_def)
     apply (rule triple_bind[OF triple_file_exists], blast)
     apply (rule triple_return, simp add: keychain_is_first_run_default_def)
    apply (rule triple_if)
     apply (simp add: key_triple_def)
    apply (rule triple_weaken[OF triple_load_file[where P = "\<lambda>d. ?I d \<and> kd_file d = Some K"]], auto)
    done
  have from_item: "key_triple ?I (key_bind (ensure_home io) (\<lambda>_. keychain_key_from io)) (\<lambda>k d. ?I d \<and> (exact \<longrightarrow> k = K)) ?I"
    unfolding keychain_key_from_def
    apply (rule triple_bind[OF triple_home], assumption)
    apply (rule triple_bind[OF triple_fetch], assumption)
    subgoal for u x by (cases x) (auto simp: key_inv_def intro!: triple_fail triple_return)
    done
  show ?thesis
    unfolding load_or_create_key_def
    apply (rule triple_bind[OF triple_home], assumption)
    apply (rule triple_bind[OF choose])
    subgoal for u b by (cases b) (auto intro: triple_weaken[OF from_file] triple_weaken[OF from_item])
    done
qed

lemma key_migrate_keeps:
  assumes "exact \<longrightarrow> faithful_store io"
  shows "key_triple (key_inv exact st K) (key_migrate io st to_keychain) (\<lambda>_. key_inv exact st K) (key_inv exact st K)"
  unfolding key_migrate_def
  apply (rule triple_if)
   apply (rule triple_fail, assumption)
  apply (rule triple_if)
   apply (rule triple_fail, assumption)
  apply (rule triple_bind[OF triple_home], assumption)
  apply (rule triple_if)
   apply (rule migrate_to_store_keeps[OF assms], simp add: key_site_keychain_def)
  apply (rule migrate_to_file_keeps, simp add: key_site_keychain_def)
  done

section \<open>Histories\<close>

text \<open>What happens to an installation with a key: migrations in both directions and reads of the key, in which every
  call may fail and every program may be interrupted anywhere. With \<open>exact\<close>, a keychain keeps the bytes it is given.\<close>

inductive key_history :: "bool \<Rightarrow> key_site \<Rightarrow> bytes \<Rightarrow> key_disk \<Rightarrow> bool" for exact st K where
  installed: "key_history exact st K \<lparr>kd_file = Some K, kd_item = None\<rparr>"
| migrated: "key_history exact st K d \<Longrightarrow> exact \<longrightarrow> faithful_store io \<Longrightarrow> key_migrate io st to_keychain d = (tr, d', r)
    \<Longrightarrow> d1 \<in> set (tr @ [d']) \<Longrightarrow> key_history exact st K d1"
| loaded: "key_history exact st K d \<Longrightarrow> load_or_create_key io st d = (tr, d', r) \<Longrightarrow> d1 \<in> set (tr @ [d']) \<Longrightarrow> key_history exact st K d1"

lemma triple_states:
  assumes "key_triple P m Q I" "P d" "m d = (tr, d', r)"
  shows "d1 \<in> set (tr @ [d']) \<Longrightarrow> I d1" and "r = Inr x \<Longrightarrow> Q x d'"
  using assms unfolding key_triple_def by (fastforce simp: list_all_iff)+

lemma key_history_inv: "key_history exact st K d \<Longrightarrow> key_inv exact st K d"
proof (induction rule: key_history.induct)
  case installed
  show ?case by (simp add: key_inv_def)
next
  case (migrated d io to_keychain tr d' r d1)
  show ?case by (rule triple_states(1)[OF key_migrate_keeps[OF migrated.hyps(2)] migrated.IH migrated.hyps(3,4)])
next
  case (loaded d io tr d' r d1)
  show ?case by (rule triple_states(1)[OF load_key_keeps loaded.IH loaded.hyps(2,3)])
qed

text \<open>C11: the vault key is never lost. Whatever migrations run in whatever order, whichever of their file and keychain
  calls fail, whatever the keychain stores instead of the key, and wherever a run is interrupted (also in the middle
  of writing or shredding the file), the original key is in the file or in the keychain item.\<close>

theorem key_never_lost:
  assumes "key_history exact st K d"
  shows "kd_file d = Some K \<or> kd_item d = Some K"
  using key_history_inv[OF assms] by (auto simp: key_inv_def)

definition demo_key_io :: key_io where
  "demo_key_io = \<lparr>ki_home = True, ki_read = True, ki_write = Written, ki_opens = True, ki_overwrites = 32, ki_removes = True,
     ki_exists = True, ki_fetch = True, ki_store = Some, ki_delete = True, ki_random = (\<lambda>_. CHR ''r'')\<rparr>"

definition demo_key_site :: key_site where
  "demo_key_site = \<lparr>ks_macos = True, ks_release = True, ks_override = None, ks_default = Some ''h'', ks_canonical = Some\<rparr>"

definition demo_key :: bytes where
  "demo_key = replicate 32 CHR ''k''"

lemma demo_migration:
  "case key_migrate demo_key_io demo_key_site True \<lparr>kd_file = Some demo_key, kd_item = None\<rparr> of
     (tr, d', r) \<Rightarrow> d' = \<lparr>kd_file = None, kd_item = Some demo_key\<rparr> \<and> r = Inr True"
  by (simp add: key_migrate_def demo_key_site_def demo_key_io_def is_default_home_def ensure_home_def key_bind_def key_return_def
      migrate_key_to_store_def keyring_exists_def load_or_create_file_key_def demo_key_def keyring_store_def key_try_def keyring_fetch_def
      shred_def Let_def)

lemma demo_migrated: "key_history True demo_key_site demo_key \<lparr>kd_file = None, kd_item = Some demo_key\<rparr>"
proof -
  obtain tr r where "key_migrate demo_key_io demo_key_site True \<lparr>kd_file = Some demo_key, kd_item = None\<rparr> = (tr, \<lparr>kd_file = None, kd_item = Some demo_key\<rparr>, r)"
    using demo_migration by (auto split: prod.splits)
  from key_history.migrated[OF key_history.installed _ this] show ?thesis by (simp add: faithful_store_def demo_key_io_def)
qed

theorem key_never_lost_witness:
  "kd_file \<lparr>kd_file = None, kd_item = Some demo_key\<rparr> = Some demo_key \<or> kd_item \<lparr>kd_file = None, kd_item = Some demo_key\<rparr> = Some demo_key"
  using key_never_lost[OF demo_migrated] .

section \<open>The vault and the policy record\<close>

lemma history_key:
  assumes "key_history True st K d" "load_or_create_key io st d = (tr, d', Inr k)"
  shows "k = K"
  using triple_states(2)[OF load_key_keeps key_history_inv[OF assms(1)] assms(2) refl] by simp

lemma key_bind_Inr:
  "key_bind m f d = (tr, d', Inr y) \<longleftrightarrow> (\<exists>tr1 d1 x tr2. m d = (tr1, d1, Inr x) \<and> f x d1 = (tr2, d', Inr y) \<and> tr = tr1 @ tr2)"
  by (auto simp: key_bind_def split: prod.splits sum.splits)

lemma ensure_home_Inr: "ensure_home io d = (tr, d', Inr x) \<longleftrightarrow> ki_home io \<and> tr = [] \<and> d' = d"
  by (auto simp: ensure_home_def key_return_def key_fail_def)

text \<open>Reading the key from a disk of a history fails only when a call does.\<close>

definition call_failed :: "key_io \<Rightarrow> key_error \<Rightarrow> bool" where
  "call_failed io x \<longleftrightarrow> x = HomeFailed \<and> \<not> ki_home io \<or> x = ReadFailed \<and> \<not> ki_read io
     \<or> x = KeychainFailed \<and> (\<not> ki_exists io \<or> \<not> ki_fetch io)"

definition yields :: "('a \<Rightarrow> bool) \<Rightarrow> 'a key_prog \<Rightarrow> bool" where
  "yields P m \<longleftrightarrow> (\<forall>d tr d' x. m d = (tr, d', Inr x) \<longrightarrow> P x)"

lemma yieldsD: "yields P m \<Longrightarrow> m d = (tr, d', Inr x) \<Longrightarrow> P x"
  by (simp add: yields_def)

lemma yields_bind: "yields Q m \<Longrightarrow> (\<And>x. Q x \<Longrightarrow> yields P (f x)) \<Longrightarrow> yields P (key_bind m f)"
  by (fastforce simp: yields_def key_bind_Inr)

lemma yields_return: "P x \<Longrightarrow> yields P (key_return x)"
  by (simp add: yields_def key_return_def)

lemma yields_fail: "yields P (key_fail er)"
  by (simp add: yields_def key_fail_def)

lemma yields_any: "yields (\<lambda>_. True) m"
  by (simp add: yields_def)

lemma file_key_length: "yields (\<lambda>k. length k = 32) (load_or_create_file_key io)"
  by (auto simp: yields_def load_or_create_file_key_def key_bind_Inr key_fail_def key_return_def random_bytes_def Let_def
      split: option.splits if_splits)

lemma fetched_length: "yields (\<lambda>f. case f of None \<Rightarrow> True | Some k \<Rightarrow> length k = 32) (keyring_fetch io)"
  by (auto simp: yields_def keyring_fetch_def key_fail_def key_return_def split: option.splits if_splits)

lemma tried_length: "yields (\<lambda>b. \<forall>k. b = Inr (Some k) \<longrightarrow> length k = 32) (key_try (keyring_fetch io))"
  using fetched_length[of io] by (fastforce simp: yields_def key_try_def split: prod.splits)

lemma default_key_length: "yields (\<lambda>k. length k = 32) (create_default_key io)"
  unfolding create_default_key_def Let_def
  by (intro yields_bind[OF yields_any] yields_bind[OF tried_length])
     (auto split: sum.split option.split intro!: yields_return yields_bind[OF yields_any] file_key_length simp: random_bytes_def)

lemma keychain_key_length: "yields (\<lambda>k. length k = 32) (keychain_key_from io)"
  unfolding keychain_key_from_def
  by (rule yields_bind[OF fetched_length]) (auto split: option.split intro: yields_return yields_fail)

lemma load_key_length: "yields (\<lambda>k. length k = 32) (load_or_create_key io st)"
  unfolding load_or_create_key_def
  by (intro yields_bind[OF yields_any])
     (auto split: key_backend.split intro!: yields_bind[OF yields_any] default_key_length file_key_length keychain_key_length)

lemma load_key_outcome:
  assumes "key_inv True st K d" "length K = 32"
  shows "case snd (snd (load_or_create_key io st d)) of Inr k \<Rightarrow> k = K | Inl x \<Rightarrow> call_failed io x"
proof -
  have f: "snd (snd (load_or_create_file_key io d)) = (if ki_read io then Inr K else Inl ReadFailed)" if "kd_file d = Some K"
    using that assms(2) by (simp add: load_or_create_file_key_def key_return_def key_fail_def)
  note defs = load_or_create_key_def resolve_backend_def first_run_keychain_default_def keychain_is_first_run_default_def file_exists_def
    keyring_exists_def keychain_key_from_def keyring_fetch_def key_bind_def key_return_def key_fail_def ensure_home_def call_failed_def
  consider (written) "kd_file d = Some K" "kd_item d = None" | (both) "kd_file d = Some K" "kd_item d = Some K"
    | (item) "is_default_home st" "ks_macos st" "kd_item d = Some K"
    using assms(1) by (auto simp: key_inv_def key_site_keychain_def)
  then show ?thesis
  proof cases
    case written
    then show ?thesis using f[OF written(1)] by (auto simp: defs split: prod.split sum.split)
  next
    case both
    then show ?thesis using f[OF both(1)] assms(2) by (auto simp: defs split: prod.split sum.split)
  next
    case item
    then show ?thesis using assms(2) by (auto simp: defs split: prod.split sum.split)
  qed
qed

text \<open>C13: the vault survives the migrations. With a cipher and a JSON form that give back what they are given, and with a keychain that
  keeps what it is given, a vault saved at any point of any such history is read back at any other as it was, unless one of
  the calls of the reading run itself fails: creating the home, reading a file, or asking the keychain; the error is then
  that call's. It is never empty, never another vault and never undecryptable. The key of the policy record
  stays the same too, so a blessed policy stays blessed.\<close>

theorem vault_survives_migration:
  assumes "vault_codec_ok vc v" and "length nonce = 12" and "key_history True st K d" and "key_history True st K e"
    and "vault_save io st vc nonce v d = (tr, d', Inr blob)"
  shows "(case snd (snd (vault_load io' st vc (Some blob) e)) of Inr w \<Rightarrow> w = v | Inl x \<Rightarrow> call_failed io' x)
     \<and> (case snd (snd (policy_mac_key io' st vc e)) of Inr m \<Rightarrow> m = vc_hmac vc K ''decoyrail-policy-integrity-v1'' | Inl x \<Rightarrow> call_failed io' x)"
proof -
  obtain tr0 d0 k0 where k0: "load_or_create_key io st d = (tr0, d0, Inr k0)"
    using assms(5) by (auto simp: vault_save_def vault_encrypt_def key_bind_Inr ensure_home_Inr)
  have len: "length K = 32" using yieldsD[OF load_key_length k0] history_key[OF assms(3) k0] by simp
  obtain ct where ct: "vc_seal vc K nonce (vc_print vc v) = Some ct" "blob = nonce @ ct"
    using assms(5) history_key[OF assms(3)]
    by (auto simp: vault_save_def vault_encrypt_def key_bind_Inr ensure_home_Inr key_fail_def key_return_def split: option.splits)
  have op: "vc_open vc K (take 12 blob) (drop 12 blob) = Some (vc_print vc v)" "vc_parse vc (vc_print vc v) = Some v"
    using assms(1,2) ct by (simp_all add: vault_codec_ok_def)
  obtain tr1 e1 r where l: "load_or_create_key io' st e = (tr1, e1, r)" by (metis prod_cases3)
  have out: "case r of Inr k \<Rightarrow> k = K | Inl x \<Rightarrow> call_failed io' x"
    using load_key_outcome[OF key_history_inv[OF assms(4)] len, of io'] l by simp
  show ?thesis
  proof (cases r)
    case (Inr k)
    then show ?thesis using l out op ct assms(2)
      by (simp add: vault_load_def vault_decrypt_def policy_mac_key_def key_bind_def ensure_home_def key_return_def key_fail_def call_failed_def)
  next
    case (Inl x)
    then show ?thesis using l out ct assms(2)
      by (auto simp: vault_load_def vault_decrypt_def policy_mac_key_def key_bind_def ensure_home_def key_return_def key_fail_def call_failed_def)
  qed
qed

definition demo_vault_codec :: "vault \<Rightarrow> vault_codec" where
  "demo_vault_codec v = \<lparr>vc_seal = (\<lambda>k n p. Some p), vc_open = (\<lambda>k n c. Some c), vc_hmac = (\<lambda>k m. k @ m), vc_print = (\<lambda>_. ''{}''),
     vc_parse = (\<lambda>b. if b = ''{}'' then Some v else None)\<rparr>"

definition demo_stored :: vault where
  "demo_stored = \<lparr>secrets = [\<lparr>sec_name = ''npm'', sec_real = ''npm_abc'', sec_decoy = ''npm_xyz'', sec_env = None, sec_location = Any, sec_provider = None\<rparr>]\<rparr>"

theorem vault_survives_migration_witness:
  "snd (snd (vault_load demo_key_io demo_key_site (demo_vault_codec demo_stored) (Some (replicate 12 CHR ''n'' @ ''{}''))
     \<lparr>kd_file = None, kd_item = Some demo_key\<rparr>)) = Inr demo_stored
   \<and> map sec_name (secrets demo_stored) = [''npm'']"
proof -
  let ?vc = "demo_vault_codec demo_stored" and ?e = "\<lparr>kd_file = None, kd_item = Some demo_key\<rparr>"
  let ?l = "snd (snd (vault_load demo_key_io demo_key_site ?vc (Some (replicate 12 CHR ''n'' @ ''{}'')) ?e))"
  have vc: "vault_codec_ok ?vc demo_stored" by (simp add: vault_codec_ok_def demo_vault_codec_def)
  obtain tr d' where "vault_save demo_key_io demo_key_site ?vc (replicate 12 CHR ''n'') demo_stored \<lparr>kd_file = Some demo_key, kd_item = None\<rparr>
      = (tr, d', Inr (replicate 12 CHR ''n'' @ ''{}''))"
    by (simp add: vault_save_def vault_encrypt_def load_or_create_key_def resolve_backend_def demo_key_site_def demo_key_io_def is_default_home_def
        ensure_home_def key_bind_def key_return_def keyring_exists_def first_run_keychain_default_def file_exists_def
        keychain_is_first_run_default_def load_or_create_file_key_def demo_key_def demo_vault_codec_def)
  from vault_survives_migration[OF vc _ key_history.installed demo_migrated this, of demo_key_io]
  have "case ?l of Inr w \<Rightarrow> w = demo_stored | Inl x \<Rightarrow> call_failed demo_key_io x" by simp
  moreover have "\<not> call_failed demo_key_io x" for x by (simp add: call_failed_def demo_key_io_def)
  ultimately have "?l = Inr demo_stored" by (cases ?l) simp_all
  then show ?thesis by (simp add: demo_stored_def)
qed

section \<open>Other homes\<close>

definition with_item :: "bytes option \<Rightarrow> 'a key_prog \<Rightarrow> 'a key_prog" where
  "with_item i m d = (case m d of (tr, d', r) \<Rightarrow> (map (\<lambda>x. x\<lparr>kd_item := i\<rparr>) tr, d'\<lparr>kd_item := i\<rparr>, r))"

lemma file_key_ignores_item: "load_or_create_file_key io (d\<lparr>kd_item := i\<rparr>) = with_item i (load_or_create_file_key io) d"
  by (auto simp: load_or_create_file_key_def with_item_def key_fail_def key_return_def key_bind_def write_private_def Let_def
      split: option.split write_outcome.split)

text \<open>The keychain key is bound to the default home. A run with another home directory, such as a copied one with
  an attacker's policy, neither reads nor changes the keychain item: the key it gets, the states it goes through and
  its errors are the same whatever the item is, and its migrations do nothing.\<close>

theorem keychain_home_bound:
  assumes "\<not> is_default_home st"
  shows "load_or_create_key io st (d\<lparr>kd_item := i\<rparr>) = with_item i (load_or_create_key io st) d
    \<and> (\<exists>e. key_migrate io st to_keychain d = ([], d, Inl e))"
proof -
  have "load_or_create_key io st d = key_bind (ensure_home io) (\<lambda>_. load_or_create_file_key io) d" for d
    using assms by (simp add: load_or_create_key_def resolve_backend_def first_run_keychain_default_def keychain_is_first_run_default_def
        key_bind_def key_return_def file_exists_def ensure_home_def key_fail_def split: prod.split sum.split)
  then show ?thesis
    using file_key_ignores_item[where io = io and d = d and i = i] assms
    by (auto simp: with_item_def key_bind_def ensure_home_def key_return_def key_fail_def key_migrate_def split: prod.splits)
qed

theorem keychain_home_bound_witness:
  "let st = demo_key_site\<lparr>ks_override := Some ''copied''\<rparr> in
   \<not> is_default_home st \<and> snd (snd (load_or_create_key demo_key_io st \<lparr>kd_file = Some (replicate 32 CHR ''o''), kd_item = Some demo_key\<rparr>))
     = snd (snd (load_or_create_key demo_key_io st \<lparr>kd_file = Some (replicate 32 CHR ''o''), kd_item = None\<rparr>))"
proof -
  let ?st = "demo_key_site\<lparr>ks_override := Some ''copied''\<rparr>" and ?d = "\<lparr>kd_file = Some (replicate 32 CHR ''o''), kd_item = None\<rparr>"
  have n: "\<not> is_default_home ?st" by (simp add: is_default_home_def demo_key_site_def)
  then show ?thesis
    using keychain_home_bound[OF n, where io = demo_key_io and d = ?d and i = "Some demo_key"] by (simp add: Let_def with_item_def split: prod.split)
qed

end
