(* ===== verification/Policy_Edit.thy ===== *)
theory Policy_Edit
  imports Integrity Detect Text_Ops
begin

text \<open>
  \<^verbatim>\<open>src/src/policy_edit.rs\<close> and the commands of \<^verbatim>\<open>src/src/main.rs\<close> that change the policy file: edits of the TOML tree,
  addresses and anchors, and the write path, which edits only a trusted file. The TOML tree belongs to a third-party
  editor: it is the parameter \<open>toml_editor\<close>, with the calls the code makes. A command reads the home, may wait for a person
  or an editor, and writes; what other programs do to the home meanwhile is an argument. Printing is left out.
\<close>

section \<open>The TOML tree\<close>

text \<open>\<open>te_position\<close> is \<open>set_position\<close>: tables are rendered in the order of their positions. \<open>te_root\<close> sets a key of the document,
  \<open>te_dlp_position\<close> the position of the table \<open>[dlp]\<close>, if there is one, and \<open>te_dlp\<close> a key in it.\<close>

record ('t, 'd) toml_editor =
  te_parse :: "string \<Rightarrow> 'd option"
  te_render :: "'d \<Rightarrow> string"
  te_rules :: "'d \<Rightarrow> 't list option"
  te_put_rules :: "'t list \<Rightarrow> 'd \<Rightarrow> 'd"
  te_root :: "string \<Rightarrow> string \<Rightarrow> 'd \<Rightarrow> 'd"
  te_dlp_position :: "nat \<Rightarrow> 'd \<Rightarrow> 'd"
  te_dlp :: "string \<Rightarrow> bool + string \<Rightarrow> 'd \<Rightarrow> 'd"
  te_new :: 't
  te_str :: "string \<Rightarrow> 't \<Rightarrow> string option"
  te_set_str :: "string \<Rightarrow> string \<Rightarrow> 't \<Rightarrow> 't"
  te_set_list :: "string \<Rightarrow> string list \<Rightarrow> 't \<Rightarrow> 't"
  te_remove :: "string \<Rightarrow> 't \<Rightarrow> 't"
  te_position :: "nat \<Rightarrow> 't \<Rightarrow> 't"

record rule_edit =
  ed_name :: "string option"
  ed_hosts :: "string list option"
  ed_methods :: "string list option"
  ed_path_prefixes :: "string list option"
  ed_action :: "string option"
  ed_allow_secrets :: "string list option"

datatype anchor = AtEnd | At nat | Before string | After string

datatype edit_error = Store integrity_error | NotADocument | InvalidResult | RefusedUntrusted string
  | NoName | NoHosts string | NoAction string | BadAction string | BadFallback | RuleExists string
  | NoPosition nat nat | NoRule string | Ambiguous string "nat list" | ZeroPosition | NoTarget string
  | NotConfirmed string | EditorFailed | BadDetector string | BadMode string

section \<open>Addresses\<close>

text \<open>\<open>parse::<usize>\<close>.\<close>

definition parse_usize :: "string \<Rightarrow> nat option" where
  "parse_usize s =
     (let ds = (case strip_prefix ''+'' s of Some t \<Rightarrow> t | None \<Rightarrow> s);
          n = foldl (\<lambda>n c. n * 10 + (bval c - 48)) 0 ds
      in if ds \<noteq> [] \<and> list_all is_ascii_digit ds \<and> n < 2 ^ 64 then Some n else None)"

definition rule_name :: "('t, 'd) toml_editor \<Rightarrow> 't \<Rightarrow> string" where
  "rule_name te t = (case te_str te ''name'' t of Some n \<Rightarrow> n | None \<Rightarrow> [])"

definition index_of :: "('t, 'd) toml_editor \<Rightarrow> 't list \<Rightarrow> string \<Rightarrow> edit_error + nat" where
  "index_of te tables addr = (case parse_usize addr of
     Some pos \<Rightarrow> if pos = 0 \<or> pos > length tables then Inl (NoPosition pos (length tables)) else Inr (pos - 1)
   | None \<Rightarrow> (case filter (\<lambda>i. rule_name te (tables ! i) = addr) [0..<length tables] of
       [] \<Rightarrow> Inl (NoRule addr)
     | [i] \<Rightarrow> Inr i
     | many \<Rightarrow> Inl (Ambiguous addr (map Suc many))))"

definition resolve_anchor :: "('t, 'd) toml_editor \<Rightarrow> anchor \<Rightarrow> 't list \<Rightarrow> edit_error + nat" where
  "resolve_anchor te a tables = (case a of
     AtEnd \<Rightarrow> Inr (length tables)
   | At pos \<Rightarrow> if pos = 0 then Inl ZeroPosition else Inr (min (pos - 1) (length tables))
   | Before x \<Rightarrow> index_of te tables x
   | After x \<Rightarrow> (case index_of te tables x of Inl er \<Rightarrow> Inl er | Inr i \<Rightarrow> Inr (i + 1)))"

section \<open>Edits of the document\<close>

definition doc_tables :: "('t, 'd) toml_editor \<Rightarrow> 'd \<Rightarrow> 't list" where
  "doc_tables te d = (case te_rules te d of Some ts \<Rightarrow> ts | None \<Rightarrow> [])"

definition doc_names :: "('t, 'd) toml_editor \<Rightarrow> 'd \<Rightarrow> string list" where
  "doc_names te d = map (rule_name te) (doc_tables te d)"

text \<open>\<open>renumber\<close>: the rules get the positions from 1 on, \<open>[dlp]\<close> the one after them.\<close>

definition renumber :: "('t, 'd) toml_editor \<Rightarrow> 'd \<Rightarrow> 'd" where
  "renumber te d = (let n = length (doc_tables te d) in te_dlp_position te (n + 1)
     (case te_rules te d of None \<Rightarrow> d | Some ts \<Rightarrow> te_put_rules te (map (\<lambda>(i, t). te_position te (i + 1) t) (enumerate 0 ts)) d))"

definition rebuild :: "('t, 'd) toml_editor \<Rightarrow> 't list \<Rightarrow> 'd \<Rightarrow> 'd" where
  "rebuild te tables d = renumber te (te_put_rules te tables d)"

definition set_nonempty :: "('t, 'd) toml_editor \<Rightarrow> string \<Rightarrow> string list option \<Rightarrow> 't \<Rightarrow> 't" where
  "set_nonempty te key v t = (case v of None \<Rightarrow> t | Some items \<Rightarrow> if items = [] then t else te_set_list te key items t)"

definition build_table :: "('t, 'd) toml_editor \<Rightarrow> rule_edit \<Rightarrow> edit_error + 't" where
  "build_table te ed = (case ed_name ed of None \<Rightarrow> Inl NoName | Some name \<Rightarrow>
     (let hosts = (case ed_hosts ed of Some hs \<Rightarrow> hs | None \<Rightarrow> []) in
      if hosts = [] then Inl (NoHosts name)
      else case ed_action ed of None \<Rightarrow> Inl (NoAction name) | Some act \<Rightarrow>
      (case action_parse act of Inl msg \<Rightarrow> Inl (BadAction msg) | Inr _ \<Rightarrow>
         Inr (set_nonempty te ''allow_secrets'' (ed_allow_secrets ed)
           (te_set_str te ''action'' (to_ascii_lowercase act)
           (set_nonempty te ''path_prefixes'' (ed_path_prefixes ed)
           (set_nonempty te ''methods'' (ed_methods ed)
           (te_set_list te ''hosts'' hosts (te_set_str te ''name'' name (te_new te))))))))))"

definition set_list :: "('t, 'd) toml_editor \<Rightarrow> string \<Rightarrow> string list option \<Rightarrow> 't \<Rightarrow> 't" where
  "set_list te key v t = (case v of None \<Rightarrow> t
   | Some items \<Rightarrow> if items = [] then te_remove te key t else te_set_list te key items t)"

definition insert_at :: "nat \<Rightarrow> 'a \<Rightarrow> 'a list \<Rightarrow> 'a list" where
  "insert_at i x xs = take i xs @ x # drop i xs"

definition remove_at :: "nat \<Rightarrow> 'a list \<Rightarrow> 'a list" where
  "remove_at i xs = take i xs @ drop (i + 1) xs"

definition doc_add :: "('t, 'd) toml_editor \<Rightarrow> rule_edit \<Rightarrow> anchor \<Rightarrow> 'd \<Rightarrow> edit_error + 'd" where
  "doc_add te ed a d = (case build_table te ed of Inl er \<Rightarrow> Inl er | Inr new \<Rightarrow>
     (let name = rule_name te new; tables = doc_tables te d in
      if list_ex (\<lambda>t. rule_name te t = name) tables then Inl (RuleExists name)
      else case resolve_anchor te a tables of Inl er \<Rightarrow> Inl er | Inr i \<Rightarrow> Inr (rebuild te (insert_at i new tables) d)))"

definition apply_edit :: "('t, 'd) toml_editor \<Rightarrow> rule_edit \<Rightarrow> 't \<Rightarrow> 't" where
  "apply_edit te ed t =
     (let t1 = (case ed_name ed of Some v \<Rightarrow> te_set_str te ''name'' v t | None \<Rightarrow> t);
          t2 = (case ed_hosts ed of Some v \<Rightarrow> te_set_list te ''hosts'' v t1 | None \<Rightarrow> t1);
          t3 = set_list te ''path_prefixes'' (ed_path_prefixes ed) (set_list te ''methods'' (ed_methods ed) t2);
          t4 = (case ed_action ed of Some v \<Rightarrow> te_set_str te ''action'' v t3 | None \<Rightarrow> t3)
      in set_list te ''allow_secrets'' (ed_allow_secrets ed) t4)"

text \<open>Renaming to the name of another rule and a bad action are refused before the tree is touched.\<close>

definition set_refusal :: "rule_edit \<Rightarrow> string list \<Rightarrow> nat \<Rightarrow> edit_error option" where
  "set_refusal ed names i = (case (case ed_name ed of Some v \<Rightarrow> if v \<noteq> names ! i \<and> v \<in> set names then Some (RuleExists v) else None | None \<Rightarrow> None) of
     Some er \<Rightarrow> Some er
   | None \<Rightarrow> (case ed_action ed of None \<Rightarrow> None
       | Some a \<Rightarrow> (case action_parse a of Inl msg \<Rightarrow> Some (BadAction msg) | Inr _ \<Rightarrow> None)))"

definition doc_set :: "('t, 'd) toml_editor \<Rightarrow> string \<Rightarrow> rule_edit \<Rightarrow> 'd \<Rightarrow> edit_error + 'd" where
  "doc_set te addr ed d = (let tables = doc_tables te d in case index_of te tables addr of Inl er \<Rightarrow> Inl er | Inr i \<Rightarrow>
     (case set_refusal ed (doc_names te d) i of
        Some er \<Rightarrow> Inl er
      | None \<Rightarrow> Inr (te_put_rules te (tables[i := apply_edit te ed (tables ! i)]) d)))"

definition doc_remove :: "('t, 'd) toml_editor \<Rightarrow> string \<Rightarrow> 'd \<Rightarrow> edit_error + 'd" where
  "doc_remove te addr d = (let tables = doc_tables te d in
     case index_of te tables addr of Inl er \<Rightarrow> Inl er | Inr i \<Rightarrow> Inr (rebuild te (remove_at i tables) d))"

definition doc_move :: "('t, 'd) toml_editor \<Rightarrow> string \<Rightarrow> anchor \<Rightarrow> 'd \<Rightarrow> edit_error + 'd" where
  "doc_move te addr a d = (let tables = doc_tables te d in
     case index_of te tables addr of Inl er \<Rightarrow> Inl er | Inr i \<Rightarrow>
     (let rest = remove_at i tables in
      case resolve_anchor te a rest of Inl er \<Rightarrow> Inl er | Inr j \<Rightarrow> Inr (rebuild te (insert_at j (tables ! i) rest) d)))"

definition doc_flush :: "('t, 'd) toml_editor \<Rightarrow> 'd \<Rightarrow> 'd" where
  "doc_flush te d = renumber te (case te_rules te d of None \<Rightarrow> d | Some _ \<Rightarrow> te_put_rules te [] d)"

definition set_default :: "('t, 'd) toml_editor \<Rightarrow> string \<Rightarrow> 'd \<Rightarrow> edit_error + 'd" where
  "set_default te act d = (case action_parse act of Inl msg \<Rightarrow> Inl (BadAction msg)
     | Inr a \<Rightarrow> Inr (te_root te ''default_action'' (action_as_str a) d))"

definition set_escalate_fallback :: "('t, 'd) toml_editor \<Rightarrow> string \<Rightarrow> 'd \<Rightarrow> edit_error + 'd" where
  "set_escalate_fallback te act d = (case action_parse act of Inl msg \<Rightarrow> Inl (BadAction msg)
     | Inr a \<Rightarrow> if a \<notin> {Allow, Deny, Warn} then Inl BadFallback else Inr (te_root te ''escalate_fallback'' (action_as_str a) d))"

section \<open>Reading and writing the file\<close>

text \<open>\<open>Policy::load_or_default\<close>, the load of the command line, checks nothing.\<close>

definition load_or_default :: "integrity_env \<Rightarrow> policy_home \<Rightarrow> policy_home \<times> (integrity_error + policy)" where
  "load_or_default e h = (case read_or_materialize e h of
     (h1, Inl er) \<Rightarrow> (h1, Inl er)
   | (h1, Inr doc) \<Rightarrow> (h1, case ie_toml e doc of Some p \<Rightarrow> Inr p | None \<Rightarrow> Inl NotAPolicy))"

definition read_policy :: "policy_home \<Rightarrow> edit_error + string" where
  "read_policy h = (case ph_policy h of Some doc \<Rightarrow> Inr doc | None \<Rightarrow> Inl (Store ReadFailed))"

definition load_doc :: "integrity_env \<Rightarrow> ('t, 'd) toml_editor \<Rightarrow> policy_home \<Rightarrow> policy_home \<times> (edit_error + 'd)" where
  "load_doc e te h = (case load_or_default e h of
     (h1, Inl er) \<Rightarrow> (h1, Inl (Store er))
   | (h1, Inr _) \<Rightarrow> (h1, case read_policy h1 of Inl er \<Rightarrow> Inl er
       | Inr doc \<Rightarrow> (case te_parse te doc of Some d \<Rightarrow> Inr d | None \<Rightarrow> Inl NotADocument)))"

definition install_edit :: "integrity_env \<Rightarrow> string \<Rightarrow> string \<Rightarrow> policy_home \<Rightarrow> policy_home \<times> (edit_error + unit)" where
  "install_edit e new_text source h = (case install e new_text source h of
     (h1, Some er) \<Rightarrow> (h1, Inl (Store er)) | (h1, None) \<Rightarrow> (h1, Inr ()))"

definition write_policy :: "integrity_env \<Rightarrow> string \<Rightarrow> string \<Rightarrow> policy_home \<Rightarrow> policy_home \<times> (edit_error + unit)" where
  "write_policy e new_text source h =
     (if ie_toml e new_text = None then (h, Inl InvalidResult)
      else case ph_policy h of
        None \<Rightarrow> install_edit e new_text source h
      | Some current \<Rightarrow>
          (case integrity_verify e (ph_sig h) current of
             Inl er \<Rightarrow> (h, Inl (Store er))
           | Inr Trusted \<Rightarrow> install_edit e new_text source h
           | Inr v \<Rightarrow> (h, Inl (RefusedUntrusted (untrusted_message e v)))))"

section \<open>The commands\<close>

text \<open>Arguments as parsed; the detector and its mode are already in lower case.\<close>

datatype policy_command =
    CmdAdd rule_edit "nat option" "string option" "string option"
  | CmdSet string rule_edit
  | CmdRm string
  | CmdMv string "nat option" "string option" "string option"
  | CmdDefault string bool
  | CmdFlush
  | CmdReset
  | CmdEdit
  | CmdSign
  | CmdDlp string string
  | CmdRelease string "string list"

text \<open>What is outside a run: the answer of \<open>confirm\<close> (\<open>None\<close> when it cannot ask), what the editor makes of the scratch copy, and
  what other programs do to the home between reading and writing.\<close>

record cmd_world =
  cw_confirm :: "bool option"
  cw_editor :: "string \<Rightarrow> string option"
  cw_between :: "policy_home \<Rightarrow> policy_home"

definition opt_list :: "string list \<Rightarrow> string list option" where
  "opt_list v = (if v = [] then None else Some v)"

definition list_or_clear :: "string list \<Rightarrow> bool \<Rightarrow> string list option" where
  "list_or_clear v clear = (if clear then Some [] else opt_list v)"

definition anchor_of :: "nat option \<Rightarrow> string option \<Rightarrow> string option \<Rightarrow> anchor option" where
  "anchor_of pos b a = (case (pos, b, a) of
     (Some n, _, _) \<Rightarrow> Some (At n) | (_, Some x, _) \<Rightarrow> Some (Before x) | (_, _, Some x) \<Rightarrow> Some (After x) | _ \<Rightarrow> None)"

text \<open>A command that edits the document: load, edit, ask where it asks, and save what it rendered.\<close>

definition edit_cmd :: "integrity_env \<Rightarrow> ('t, 'd) toml_editor \<Rightarrow> cmd_world \<Rightarrow> ('d \<Rightarrow> edit_error + 'd) \<Rightarrow> bool \<Rightarrow> string
    \<Rightarrow> policy_home \<Rightarrow> policy_home \<times> (edit_error + unit)" where
  "edit_cmd e te cw f asks source h = (case load_doc e te h of
     (h1, Inl er) \<Rightarrow> (h1, Inl er)
   | (h1, Inr d) \<Rightarrow> (case f d of
         Inl er \<Rightarrow> (h1, Inl er)
       | Inr d1 \<Rightarrow> (let h2 = cw_between cw h1 in
           if asks \<and> cw_confirm cw = None then (h2, Inl (NotConfirmed source))
           else if asks \<and> cw_confirm cw = Some False then (h2, Inr ())
           else write_policy e (te_render te d1) source h2)))"

definition policy_edit :: "integrity_env \<Rightarrow> cmd_world \<Rightarrow> policy_home \<Rightarrow> policy_home \<times> (edit_error + unit)" where
  "policy_edit e cw h = (case load_or_default e h of
     (h1, Inl er) \<Rightarrow> (h1, Inl (Store er))
   | (h1, Inr _) \<Rightarrow> (case read_policy h1 of Inl er \<Rightarrow> (h1, Inl er) | Inr scratch \<Rightarrow>
       (let h2 = cw_between cw h1 in
        case cw_editor cw scratch of None \<Rightarrow> (h2, Inl EditorFailed) | Some edited \<Rightarrow>
        (case read_policy h2 of Inl er \<Rightarrow> (h2, Inl er) | Inr live \<Rightarrow>
           if edited = live then (h2, Inr ()) else write_policy e edited ''policy edit'' h2))))"

definition policy_sign :: "integrity_env \<Rightarrow> cmd_world \<Rightarrow> policy_home \<Rightarrow> policy_home \<times> (edit_error + unit)" where
  "policy_sign e cw h = (case load_or_default e h of
     (h1, Inl er) \<Rightarrow> (h1, Inl (Store er))
   | (h1, Inr _) \<Rightarrow> (case read_policy h1 of Inl er \<Rightarrow> (h1, Inl er) | Inr doc \<Rightarrow>
       (case integrity_verify e (ph_sig h1) doc of
          Inl er \<Rightarrow> (h1, Inl (Store er))
        | Inr Trusted \<Rightarrow> (h1, Inr ())
        | Inr _ \<Rightarrow> (case baseline e (ph_sig h1) of
              Inl er \<Rightarrow> (h1, Inl (Store er))
            | Inr _ \<Rightarrow> (let h2 = cw_between cw h1 in
                if cw_confirm cw = None then (h2, Inl (NotConfirmed ''policy sign''))
                else if cw_confirm cw = Some False then (h2, Inr ())
                else (case bless_current e h2 of (h3, Inl er) \<Rightarrow> (h3, Inl (Store er)) | (h3, Inr _) \<Rightarrow> (h3, Inr ())))))))"

definition dlp_value :: "string \<Rightarrow> string \<Rightarrow> edit_error + (bool + string)" where
  "dlp_value detector mode =
     (if detector = ''debug'' then
        (if mode \<in> {''on'', ''true''} then Inr (Inl True) else if mode \<in> {''off'', ''false''} then Inr (Inl False) else Inl (BadMode mode))
      else if detector \<notin> set (map detector_name ALL_DETECTORS) then Inl (BadDetector detector)
      else if mode \<notin> {''off'', ''warn'', ''block'', ''mask''} then Inl (BadMode mode)
      else Inr (Inr mode))"

definition release_rule :: "string \<Rightarrow> string list \<Rightarrow> string" where
  "release_rule name hosts =
     (let q = [CHR 0x22]; nl = [CHR 0x0A];
          hosts_toml = (case hosts of [] \<Rightarrow> [] | h # hs \<Rightarrow> concat ((q @ h @ q) # map (\<lambda>x. '', '' @ q @ x @ q) hs))
      in nl @ ''# Added by `decoyrail vault add --name '' @ name @ ''`.'' @ nl @ ''[[rule]]'' @ nl
        @ ''name = '' @ q @ name @ q @ nl @ ''hosts = ['' @ hosts_toml @ '']'' @ nl
        @ ''action = '' @ q @ ''allow'' @ q @ nl @ ''allow_secrets = ['' @ q @ name @ q @ '']'' @ nl)"

definition append_release_rule :: "integrity_env \<Rightarrow> cmd_world \<Rightarrow> string \<Rightarrow> string list \<Rightarrow> policy_home \<Rightarrow> policy_home \<times> (edit_error + unit)" where
  "append_release_rule e cw name hosts h = (case load_or_default e h of
     (h1, Inl er) \<Rightarrow> (h1, Inl (Store er))
   | (h1, Inr _) \<Rightarrow> (case read_policy h1 of Inl er \<Rightarrow> (h1, Inl er) | Inr doc \<Rightarrow>
       (let new = doc @ release_rule name hosts in
        if ie_toml e new = None then (h1, Inl InvalidResult)
        else write_policy e new ''vault add --allow-host'' (cw_between cw h1))))"

definition policy_cmd :: "integrity_env \<Rightarrow> ('t, 'd) toml_editor \<Rightarrow> cmd_world \<Rightarrow> policy_command \<Rightarrow> policy_home \<Rightarrow> policy_home \<times> (edit_error + unit)" where
  "policy_cmd e te cw c h = (case c of
     CmdAdd ed pos b a \<Rightarrow>
       edit_cmd e te cw (doc_add te ed (case anchor_of pos b a of Some x \<Rightarrow> x | None \<Rightarrow> AtEnd)) False ''policy add'' h
   | CmdSet addr ed \<Rightarrow> edit_cmd e te cw (doc_set te addr ed) False ''policy set'' h
   | CmdRm addr \<Rightarrow> edit_cmd e te cw (doc_remove te addr) True ''policy rm'' h
   | CmdMv addr pos b a \<Rightarrow> (case anchor_of pos b a of None \<Rightarrow> (h, Inl (NoTarget addr))
       | Some x \<Rightarrow> edit_cmd e te cw (doc_move te addr x) False ''policy mv'' h)
   | CmdDefault act fallback \<Rightarrow>
       (if fallback then edit_cmd e te cw (set_escalate_fallback te act) False ''policy default --fallback'' h
        else edit_cmd e te cw (set_default te act) False ''policy default'' h)
   | CmdFlush \<Rightarrow> edit_cmd e te cw (\<lambda>d. Inr (doc_flush te d)) True ''policy flush'' h
   | CmdReset \<Rightarrow>
       (if cw_confirm cw = None then (h, Inl (NotConfirmed ''policy reset'')) else if cw_confirm cw = Some False then (h, Inr ())
        else install_edit e (ie_default_toml e) ''policy reset'' h)
   | CmdEdit \<Rightarrow> policy_edit e cw h
   | CmdSign \<Rightarrow> policy_sign e cw h
   | CmdDlp detector mode \<Rightarrow> (case load_or_default e h of
         (h1, Inl er) \<Rightarrow> (h1, Inl (Store er))
       | (h1, Inr _) \<Rightarrow> (case dlp_value detector mode of Inl er \<Rightarrow> (h1, Inl er)
           | Inr v \<Rightarrow> edit_cmd e te cw (\<lambda>d. Inr (te_dlp te detector v d)) False ''dlp set'' h1))
   | CmdRelease name hosts \<Rightarrow> append_release_rule e cw name hosts h)"

end
