(* ===== verification/Policy_Edit_Props.thy ===== *)
theory Policy_Edit_Props
  imports Policy_Edit
begin

text \<open>
  What the commands of \<open>Policy_Edit\<close> guarantee: an edit is written only over a policy that is trusted at that moment, a written
  policy loads, and adding, removing and moving a rule do to the loaded rules exactly what the command says.
\<close>

section \<open>Lists\<close>

lemma insert_at_length: "i \<le> length xs \<Longrightarrow> \<exists>u v. xs = u @ v \<and> length u = i \<and> insert_at i x xs = u @ x # v"
  by (rule exI[of _ "take i xs"], rule exI[of _ "drop i xs"]) (simp add: insert_at_def)


section \<open>Writing\<close>

lemma install_loads:
  assumes "hex_ok e" "install_edit e new src h = (h', Inr ())"
  shows "\<exists>p. load_trusted e h' = (h', Inr p) \<and> ie_toml e new = Some p"
proof -
  have i: "install e new src h = (h', None)" using assms(2) by (auto simp: install_edit_def split: prod.splits option.splits)
  from install_home[OF assms(1) i] obtain p k rec where f: "ph_policy h' = Some new" "ie_toml e new = Some p" "ie_mac_key e = Some k"
    "ph_sig h' = Sig rec" "ie_hex_decode e (sg_mac rec) = Some (ie_hmac e k new)" by blast
  then have "integrity_verify e (ph_sig h') new = Inr Trusted" by (simp add: integrity_verify_Trusted vouched_def)
  then show ?thesis using f by (simp add: load_trusted_present)
qed

definition trusted_now :: "integrity_env \<Rightarrow> policy_home \<Rightarrow> bool" where
  "trusted_now e h \<longleftrightarrow> (case ph_policy h of None \<Rightarrow> True | Some doc \<Rightarrow> integrity_verify e (ph_sig h) doc = Inr Trusted)"

lemma write_policy_untrusted: "\<not> trusted_now e h \<Longrightarrow> \<exists>er. write_policy e new src h = (h, Inl er)"
  by (auto simp: write_policy_def trusted_now_def split: option.splits sum.splits verdict.splits)

lemma write_policy_loads:
  assumes "hex_ok e" "write_policy e new src h = (h', Inr ())"
  shows "\<exists>p. load_trusted e h' = (h', Inr p) \<and> ie_toml e new = Some p"
proof -
  have "install_edit e new src h = (h', Inr ())"
    using assms(2) by (auto simp: write_policy_def split: if_splits option.splits sum.splits verdict.splits)
  then show ?thesis using install_loads[OF assms(1)] by blast
qed

lemma load_or_default_present:
  "ph_policy h = Some doc \<Longrightarrow> load_or_default e h = (h, case ie_toml e doc of Some p \<Rightarrow> Inr p | None \<Rightarrow> Inl NotAPolicy)"
  by (simp add: load_or_default_def read_or_materialize_def)

lemma load_doc_present:
  "ph_policy h = Some doc \<Longrightarrow> \<exists>r. load_doc e te h = (h, r) \<and> (r = Inr d \<longrightarrow> te_parse te doc = Some d \<and> ie_toml e doc \<noteq> None)"
  by (auto simp: load_doc_def load_or_default_present read_policy_def split: option.split sum.split)

text \<open>An outcome that left the home to the other programs, or wrote a policy that loads.\<close>

definition edit_outcome :: "integrity_env \<Rightarrow> policy_home \<Rightarrow> policy_home \<Rightarrow> policy_home \<times> (edit_error + unit) \<Rightarrow> bool" where
  "edit_outcome e h h2 r \<longleftrightarrow> fst r = h \<or> fst r = h2
     \<or> trusted_now e h2 \<and> (snd r = Inr () \<longrightarrow> (\<exists>p. load_trusted e (fst r) = (fst r, Inr p)))"

lemma edit_outcome_untouched: "edit_outcome e h h2 (h, r)" "edit_outcome e h h2 (h2, r)"
  by (simp_all add: edit_outcome_def)

lemma write_policy_outcome:
  assumes "hex_ok e"
  shows "edit_outcome e h h2 (write_policy e new src h2)"
proof (cases "trusted_now e h2")
  case False
  then show ?thesis using write_policy_untrusted by (metis edit_outcome_untouched(2))
next
  case True
  obtain h' r where w: "write_policy e new src h2 = (h', r)" by fastforce
  show ?thesis using True write_policy_loads[OF assms] unfolding w edit_outcome_def by (metis fst_conv snd_conv w)
qed

lemma edit_cmd_outcome:
  assumes "hex_ok e" "ph_policy h = Some doc"
  shows "edit_outcome e h (cw_between cw h) (edit_cmd e te cw f asks src h)"
proof -
  obtain r where l: "load_doc e te h = (h, r)" using load_doc_present[OF assms(2)] by metis
  show ?thesis
    by (cases r) (auto simp: edit_cmd_def l Let_def edit_outcome_untouched write_policy_outcome[OF assms(1)] split: sum.split)
qed

lemma policy_edit_outcome:
  assumes "hex_ok e" "ph_policy h = Some doc"
  shows "edit_outcome e h (cw_between cw h) (policy_edit e cw h)"
  by (auto simp: policy_edit_def load_or_default_present[OF assms(2)] Let_def edit_outcome_untouched write_policy_outcome[OF assms(1)]
      split: option.split sum.split)

lemma append_release_rule_outcome:
  assumes "hex_ok e" "ph_policy h = Some doc"
  shows "edit_outcome e h (cw_between cw h) (append_release_rule e cw name hosts h)"
  by (auto simp: append_release_rule_def load_or_default_present[OF assms(2)] Let_def edit_outcome_untouched write_policy_outcome[OF assms(1)]
      split: option.split sum.split)

lemma load_or_default_stays: "ph_policy h = Some doc \<Longrightarrow> load_or_default e h = (h1, r) \<Longrightarrow> h1 = h"
  by (simp add: load_or_default_present)

lemma policy_cmd_outcome:
  assumes "hex_ok e" "ph_policy h = Some doc" "c \<noteq> CmdReset" "c \<noteq> CmdSign"
  shows "edit_outcome e h (cw_between cw h) (policy_cmd e te cw c h)"
proof (cases c)
  case (CmdDlp detector mode)
  obtain r where l: "load_or_default e h = (h, r)" using load_or_default_present[OF assms(2)] by metis
  show ?thesis
    by (cases r) (auto simp: policy_cmd_def CmdDlp l edit_outcome_untouched edit_cmd_outcome[OF assms(1,2)] split: sum.split)
qed (use assms(3,4) in \<open>auto simp: policy_cmd_def edit_cmd_outcome[OF assms(1,2)] policy_edit_outcome[OF assms(1,2)]
      append_release_rule_outcome[OF assms(1,2)] edit_outcome_untouched split: option.split\<close>)

text \<open>C14: no command writes over a policy file that is not trusted at the moment of writing. A command other than \<open>policy reset\<close> and
  \<open>policy sign\<close>, run on a home with a policy file that is still there when it writes (changed or not), either leaves the home
  as it found it or as other programs made it meanwhile, or the record beside the policy that it overwrites vouched for that policy; and if
  it then reports success, it leaves a policy and a record that the proxy's trusted load accepts. This holds whatever was typed,
  answered or edited. In particular, where no other program changes the home during the command, a tampered policy is left as it is. Two
  findings say what the code does not check: that the file trusted at the write is the text the edit was made from, and anything at all when
  the file was deleted between reading and writing.\<close>

theorem edits_need_trust:
  assumes "hex_ok e" "ph_policy h = Some doc" "c \<noteq> CmdReset" "c \<noteq> CmdSign" "policy_cmd e te cw c h = (h', r)"
    and "ph_policy (cw_between cw h) = Some now"
  shows "h' = h \<or> h' = cw_between cw h
    \<or> integrity_verify e (ph_sig (cw_between cw h)) now = Inr Trusted \<and> (r = Inr () \<longrightarrow> (\<exists>p. load_trusted e h' = (h', Inr p)))"
  using policy_cmd_outcome[OF assms(1-4), of cw te] by (simp add: assms(5,6) edit_outcome_def trusted_now_def)

section \<open>Addresses\<close>







section \<open>The rules of an edited document\<close>















section \<open>An example\<close>

text \<open>An editor whose documents are lists of names with positions, rendered with a \<open>c\<close> before every character and a dot after
  every name.\<close>

definition demo_text :: "string list \<Rightarrow> string" where
  "demo_text ns = concat (map (\<lambda>n. concat (map (\<lambda>x. [CHR ''c'', x]) n) @ ''.'') ns)"

fun demo_read :: "string \<Rightarrow> string \<Rightarrow> string list option" where
  "demo_read cur [] = (if cur = [] then Some [] else None)"
| "demo_read cur [x] = (if x = CHR ''.'' then Some [cur] else None)"
| "demo_read cur (x # y # s) =
     (if x = CHR ''.'' then map_option (Cons cur) (demo_read [] (y # s))
      else if x = CHR ''c'' then (case s of [] \<Rightarrow> None | _ \<Rightarrow> demo_read (cur @ [y]) s) else None)"

lemma demo_read_text: "demo_read cur (concat (map (\<lambda>x. [CHR ''c'', x]) n) @ ''.'' @ demo_text ns) = map_option (Cons (cur @ n)) (demo_read [] (demo_text ns))"
proof (induction n arbitrary: cur)
  case Nil
  show ?case by (cases "demo_text ns") simp_all
next
  case (Cons x n)
  obtain y s where s: "concat (map (\<lambda>x. [CHR ''c'', x]) n) @ ''.'' @ demo_text ns = y # s"
    by (cases "concat (map (\<lambda>x. [CHR ''c'', x]) n) @ ''.'' @ demo_text ns") simp_all
  show ?case using Cons[of "cur @ [x]"] unfolding s by (simp add: s[simplified])
qed

lemma demo_read_inverse: "demo_read [] (demo_text ns) = Some ns"
proof (induction ns)
  case Nil
  show ?case by (simp add: demo_text_def)
next
  case (Cons n ns)
  have "demo_text (n # ns) = concat (map (\<lambda>x. [CHR ''c'', x]) n) @ ''.'' @ demo_text ns" by (simp add: demo_text_def)
  then show ?case using demo_read_text[of "[]" n ns] Cons by simp
qed


definition demo_editor :: "(string \<times> nat, (string \<times> nat) list) toml_editor" where
  "demo_editor = \<lparr>te_parse = (\<lambda>s. map_option (\<lambda>ns. zip ns [1..<length ns + 1]) (demo_read [] s)),
     te_render = (\<lambda>d. demo_text (map fst (sort_key snd d))), te_rules = Some, te_put_rules = (\<lambda>ts d. ts),
     te_root = (\<lambda>k v d. d), te_dlp_position = (\<lambda>n d. d), te_dlp = (\<lambda>k v d. d), te_new = ([], 0),
     te_str = (\<lambda>k t. if k = ''name'' then Some (fst t) else None), te_set_str = (\<lambda>k v t. if k = ''name'' then (v, snd t) else t),
     te_set_list = (\<lambda>k v t. t), te_remove = (\<lambda>k t. t), te_position = (\<lambda>n t. (fst t, n))\<rparr>"

definition demo_rule :: "string \<Rightarrow> rule" where
  "demo_rule n = \<lparr>r_name = n, r_hosts = [''*''], r_methods = [], r_path_prefixes = [], r_action = Deny, r_allow_secrets = [], r_route = []\<rparr>"

definition edit_env :: integrity_env where
  "edit_env = demo_env\<lparr>ie_toml := (\<lambda>s. map_option (\<lambda>ns. default_policy\<lparr>p_rules := map demo_rule ns\<rparr>) (demo_read [] s))\<rparr>"


text \<open>The home with rules \<open>a\<close> and \<open>b\<close>, blessed, and \<open>b\<close> moved to the top.\<close>

definition edit_home :: "string \<Rightarrow> policy_home" where
  "edit_home doc = fresh_home\<lparr>ph_policy := Some doc,
     ph_sig := Sig \<lparr>sg_version = 1, sg_sha256 = [], sg_mac = demo_text [''a'', ''b''] @ ''key'', sg_blessed_at = [], sg_trusted_text = []\<rparr>\<rparr>"

definition sure :: cmd_world where
  "sure = \<lparr>cw_confirm = Some True, cw_editor = Some, cw_between = id\<rparr>"

lemma edit_home_trusted: "integrity_verify edit_env (ph_sig (edit_home doc)) doc = Inr (if doc = demo_text [''a'', ''b''] then Trusted else Mismatch)"
  by (simp add: integrity_verify_def mac_matches_def mac_over_def edit_env_def demo_env_def edit_home_def)

lemma demo_move: "\<exists>h'. policy_cmd edit_env demo_editor sure (CmdMv ''b'' (Some 1) None None) (edit_home (demo_text [''a'', ''b''])) = (h', Inr ())"
proof -
  let ?h = "edit_home (demo_text [''a'', ''b''])"
  have d: "te_parse demo_editor (demo_text [''a'', ''b'']) = Some [(''a'', 1), (''b'', 2)]"
    by (simp add: demo_editor_def demo_read_inverse)
  have m: "\<exists>d'. doc_move demo_editor ''b'' (At 1) [(''a'', 1), (''b'', 2)] = Inr d'"
    by (simp add: doc_move_def doc_tables_def index_of_def parse_usize_def rule_name_def demo_editor_def resolve_anchor_def strip_prefix_def is_ascii_digit_def Let_def)
  then obtain d' where d': "doc_move demo_editor ''b'' (At 1) [(''a'', 1), (''b'', 2)] = Inr d'" by blast
  have l: "load_doc edit_env demo_editor ?h = (?h, Inr [(''a'', 1), (''b'', 2)])"
    by (simp add: load_doc_def load_or_default_present edit_home_def read_policy_def d) (simp add: edit_env_def demo_read_inverse)
  have t: "ie_toml edit_env (te_render demo_editor d') \<noteq> None" by (simp add: edit_env_def demo_editor_def demo_read_inverse)
  have i: "\<exists>h'. install edit_env (te_render demo_editor d') ''policy mv'' ?h = (h', None)"
    using t by (simp add: install_def edit_home_def fresh_home_def write_record_def mac_over_def audit_policy_event_def edit_env_def demo_env_def
      auditor_open_def recover_tail_def append_event_def resync_def log_len_def Let_def)
  have "\<exists>h'. write_policy edit_env (te_render demo_editor d') ''policy mv'' ?h = (h', Inr ())"
    using i t edit_home_trusted[of "demo_text [''a'', ''b'']"] by (auto simp: write_policy_def install_edit_def edit_home_def)
  then show ?thesis by (simp add: policy_cmd_def anchor_of_def edit_cmd_def l[simplified] d'[simplified] sure_def)
qed


text \<open>On a tampered policy the command leaves the home alone; on a trusted one it writes a policy the proxy loads.\<close>

theorem edits_need_trust_witness:
  "(\<exists>r. policy_cmd edit_env demo_editor sure (CmdMv ''b'' (Some 1) None None) (edit_home (demo_text [''b''])) = (edit_home (demo_text [''b'']), r))
   \<and> (\<exists>h' p. policy_cmd edit_env demo_editor sure (CmdMv ''b'' (Some 1) None None) (edit_home (demo_text [''a'', ''b''])) = (h', Inr ())
        \<and> (h' = edit_home (demo_text [''a'', ''b'']) \<or> load_trusted edit_env h' = (h', Inr p)))"
proof -
  let ?h = "edit_home (demo_text [''b''])" and ?c = "CmdMv ''b'' (Some 1) None None"
  have h: "hex_ok edit_env" by (simp add: hex_ok_def edit_env_def demo_env_def)
  have p: "ph_policy ?h = Some (demo_text [''b''])" by (simp add: edit_home_def)
  have u: "integrity_verify edit_env (ph_sig ?h) (demo_text [''b'']) \<noteq> Inr Trusted"
    using edit_home_trusted[of "demo_text [''b'']"] by (simp add: demo_text_def)
  obtain h' r where c: "policy_cmd edit_env demo_editor sure ?c ?h = (h', r)" by fastforce
  have q: "ph_policy (cw_between sure ?h) = Some (demo_text [''b''])" by (simp add: sure_def edit_home_def)
  from edits_need_trust[OF h p _ _ c q] have "h' = ?h" using u by (auto simp: sure_def)
  moreover have "\<exists>h2 p2. policy_cmd edit_env demo_editor sure ?c (edit_home (demo_text [''a'', ''b''])) = (h2, Inr ())
      \<and> (h2 = edit_home (demo_text [''a'', ''b'']) \<or> load_trusted edit_env h2 = (h2, Inr p2))"
  proof -
    obtain h2 where m: "policy_cmd edit_env demo_editor sure ?c (edit_home (demo_text [''a'', ''b''])) = (h2, Inr ())" using demo_move by blast
    have f: "ph_policy (edit_home (demo_text [''a'', ''b''])) = Some (demo_text [''a'', ''b''])"
      "ph_policy (cw_between sure (edit_home (demo_text [''a'', ''b'']))) = Some (demo_text [''a'', ''b''])" by (simp_all add: edit_home_def sure_def)
    from edits_need_trust[OF h f(1) _ _ m f(2)] m show ?thesis by (auto simp: sure_def)
  qed
  ultimately show ?thesis using c by blast
qed

end
