(* ===== verification/Policy_Report.thy ===== *)
theory Policy_Report
  imports Policy_Edit_Props Pipeline_Props
begin

text \<open>
  \<open>decoyrail policy test\<close> and the trust flag of \<open>policy ls\<close> (\<^verbatim>\<open>src/src/main.rs\<close>): what the command line tells the user of a
  URL is the decision that the proxy takes on a request to it.
\<close>

definition split_url :: "string \<Rightarrow> string \<times> string" where
  "split_url input =
     (let after_scheme = (case split_once ''://'' input of Some (_, r) \<Rightarrow> r | None \<Rightarrow> input);
          (hostport, path) = (case split_once ''/'' after_scheme of Some (h, p) \<Rightarrow> (h, ''/'' @ p) | None \<Rightarrow> (after_scheme, ''/''));
          host = (case rsplit_once (CHR ''@'') hostport of Some (_, h) \<Rightarrow> h | None \<Rightarrow> hostport);
          bare = (case rsplit_once (CHR '':'') host of Some (h, _) \<Rightarrow> h | None \<Rightarrow> host)
      in (to_ascii_lowercase bare, path))"

text \<open>The report: the decision, and the vault secrets it releases, when its rule lists any.\<close>

record test_report =
  tr_host :: string
  tr_path :: string
  tr_method :: string
  tr_decision :: decision
  tr_released :: "string list option"

definition policy_test :: "integrity_env \<Rightarrow> (string + vault) \<Rightarrow> string \<Rightarrow> string \<Rightarrow> policy_home \<Rightarrow> policy_home \<times> (string + test_report)" where
  "policy_test e vault_load_result url method0 h =
     (let (host, path) = split_url url; method1 = to_ascii_uppercase method0 in
      case load_or_default e h of
        (h1, Inl _) \<Rightarrow> (h1, Inl ''policy'')
      | (h1, Inr p) \<Rightarrow>
          (let d = evaluate p host path method1; rep = \<lparr>tr_host = host, tr_path = path, tr_method = method1, tr_decision = d, tr_released = None\<rparr> in
           if dc_allow_secrets d = [] then (h1, Inr rep)
           else case vault_load_result of
             Inl _ \<Rightarrow> (h1, Inl ''vault'')
           | Inr v \<Rightarrow> (h1, Inr (rep\<lparr>tr_released := Some (map sec_name (filter (releases d) (secrets v)))\<rparr>))))"

definition policy_trusted :: "integrity_env \<Rightarrow> policy_home \<Rightarrow> policy_home \<times> (edit_error + bool)" where
  "policy_trusted e h = (case load_or_default e h of
     (h1, Inl er) \<Rightarrow> (h1, Inl (Store er))
   | (h1, Inr _) \<Rightarrow> (h1, case read_policy h1 of Inl er \<Rightarrow> Inl er
       | Inr doc \<Rightarrow> (case integrity_verify e (ph_sig h1) doc of Inl er \<Rightarrow> Inl (Store er) | Inr v \<Rightarrow> Inr (v = Trusted))))"

section \<open>URLs\<close>

lemma split_once_char:
  "k \<notin> set a \<Longrightarrow> split_once [k] (a @ k # b) = Some (a, b)"
  by (induction a) auto

lemma split_once_scheme:
  "CHR '':'' \<notin> set a \<Longrightarrow> split_once ''://'' (a @ ''://'' @ b) = Some (a, b)"
  by (induction a) auto

lemma rsplit_once_none: "k \<notin> set s \<Longrightarrow> rsplit_once k s = None"
  by (simp add: rsplit_once_def)

definition url_of :: "string \<Rightarrow> string \<Rightarrow> string option \<Rightarrow> string \<Rightarrow> string" where
  "url_of scheme host port path = scheme @ ''://'' @ host @ (case port of None \<Rightarrow> [] | Some n \<Rightarrow> '':'' @ n) @ ''/'' @ path"

definition plain_url :: "string \<Rightarrow> string \<Rightarrow> string option \<Rightarrow> bool" where
  "plain_url scheme host port \<longleftrightarrow> CHR '':'' \<notin> set scheme \<and> list_all (\<lambda>c. c \<noteq> CHR ''/'' \<and> c \<noteq> CHR ''@'' \<and> c \<noteq> CHR '':'') host
     \<and> (case port of None \<Rightarrow> True | Some n \<Rightarrow> list_all is_ascii_digit n)"

lemma split_url_of:
  assumes "plain_url scheme host port"
  shows "split_url (url_of scheme host port path) = (to_ascii_lowercase host, ''/'' @ path)"
proof -
  let ?hp = "host @ (case port of None \<Rightarrow> [] | Some n \<Rightarrow> '':'' @ n)"
  have h: "CHR ''/'' \<notin> set host" "CHR ''@'' \<notin> set host" "CHR '':'' \<notin> set host"
    using assms by (auto simp: plain_url_def list_all_iff)
  have n: "CHR ''/'' \<notin> set n" "CHR ''@'' \<notin> set n" "CHR '':'' \<notin> set n" if "port = Some n" for n
  proof -
    have dg: "\<forall>c\<in>set n. is_ascii_digit c" using assms that by (simp add: plain_url_def list_all_iff)
    have nd: "\<not> is_ascii_digit (CHR ''/'')" "\<not> is_ascii_digit (CHR ''@'')" "\<not> is_ascii_digit (CHR '':'')" by (simp_all add: is_ascii_digit_def)
    show "CHR ''/'' \<notin> set n" "CHR ''@'' \<notin> set n" "CHR '':'' \<notin> set n" using dg nd by blast+
  qed
  define hp where "hp = ?hp"
  have sl: "CHR ''/'' \<notin> set hp" "CHR ''@'' \<notin> set hp" unfolding hp_def using h n by (auto split: option.split)
  have u: "url_of scheme host port path = scheme @ ''://'' @ (hp @ CHR ''/'' # path)" by (simp add: url_of_def hp_def)
  have s: "split_once ''://'' (url_of scheme host port path) = Some (scheme, hp @ CHR ''/'' # path)"
    unfolding u using assms by (intro split_once_scheme) (simp add: plain_url_def)
  have c: "(case rsplit_once (CHR '':'') hp of Some (x, _) \<Rightarrow> x | None \<Rightarrow> hp) = host"
  proof (cases port)
    case None
    then show ?thesis using h by (simp add: hp_def rsplit_once_none)
  next
    case (Some m)
    then show ?thesis using rsplit_once_last[OF n(3)[OF Some], of host] by (simp add: hp_def)
  qed
  show ?thesis
    by (simp only: split_url_def s split_once_char[OF sl(1)] rsplit_once_none[OF sl(2)] c option.case prod.case Let_def)
qed

lemma lower_upper: "ascii_lower (ascii_upper c) = ascii_lower c"
proof (cases "is_ascii_lower c")
  case True
  then have b: "97 \<le> bval c" "bval c \<le> 122" by (simp_all add: is_ascii_lower_def)
  then have u: "bval (char_of (bval c - 32) :: char) = bval c - 32" by simp
  then have "is_ascii_upper (char_of (bval c - 32))" unfolding is_ascii_upper_def u using b by arith
  moreover have "\<not> is_ascii_upper c" using b by (simp add: is_ascii_upper_def)
  ultimately show ?thesis using True u b by (simp add: ascii_lower_def ascii_upper_def)
qed (simp add: ascii_upper_def)

lemma eq_ignore_upper: "eq_ignore_ascii_case m (to_ascii_uppercase x) = eq_ignore_ascii_case m x"
  by (simp add: eq_ignore_ascii_case_def to_ascii_lowercase_def to_ascii_uppercase_def lower_upper comp_def)

lemma evaluate_upper: "evaluate p h pa (to_ascii_uppercase m) = evaluate p h pa m"
proof -
  have "evaluate_rules p rs h pa (to_ascii_uppercase m) = evaluate_rules p rs h pa m" for rs
    by (induction rs) (simp_all only: evaluate_rules.simps rule_matches_def eq_ignore_upper)
  then show ?thesis by (simp add: evaluate_def)
qed

text \<open>C25: \<open>policy test\<close> tells the truth. For a URL of the form \<open>scheme://host/path\<close> or \<open>scheme://host:port/path\<close>, its host a name or an IPv4 address
  (no user, and no colon in the host, which leaves out IPv6 literals), and a proxy that runs with the policy the trusted load takes from this home
  (so not one whose default \<open>run --watch\<close> has overridden), it reports the very decision the proxy takes on a request with that method to that
  host and path, on either transport, and lists exactly the vault secrets which that decision releases; testing changes nothing on disk.
  URLs without a path and IPv6 literals are split wrongly, which are findings.\<close>

theorem policy_test_agrees:
  assumes "plain_url scheme host port" "ph_policy h = Some doc" "load_trusted e h = (h, Inr (eg_policy eng))"
    and "ib_host r = to_ascii_lowercase host" "ib_path r = ''/'' @ path" "ib_method r = m"
  shows "\<exists>rep. policy_test e (Inr v) (url_of scheme host port path) m h = (h, Inr rep) \<and> tr_decision rep = decide r eng
      \<and> set (case tr_released rep of None \<Rightarrow> [] | Some ns \<Rightarrow> ns) = sec_name ` {s \<in> set (secrets v). releases (decide r eng) s}"
proof -
  have "ie_toml e doc = Some (eg_policy eng)"
    using assms(2,3) by (auto simp: load_trusted_present split: sum.splits verdict.splits option.splits)
  then have l: "load_or_default e h = (h, Inr (eg_policy eng))" using load_or_default_present[OF assms(2)] by simp
  have d: "evaluate (eg_policy eng) (to_ascii_lowercase host) (''/'' @ path) (to_ascii_uppercase m) = decide r eng"
    by (simp only: evaluate_upper decide_def assms(4-6))
  have n: "dc_allow_secrets (decide r eng) = [] \<Longrightarrow> \<not> releases (decide r eng) s" for s
    by (simp add: releases_def lists_secret_def)
  show ?thesis
    using n by (auto simp: policy_test_def split_url_of[OF assms(1)] l d[simplified] Let_def)
qed

definition report_engine :: engine where
  "report_engine = (demo_engine \<lparr>secrets = []\<rparr>)\<lparr>eg_policy := default_policy\<lparr>p_rules := map demo_rule [''a'', ''b'']\<rparr>\<rparr>"

definition report_inbound :: inbound where
  "report_inbound = demo_inbound\<lparr>ib_host := ''api.test'', ib_path_query := Some ''/v1'', ib_method := ''get''\<rparr>"

theorem policy_test_agrees_witness:
  "\<exists>rep. policy_test edit_env (Inr \<lparr>secrets = []\<rparr>) (url_of ''https'' ''API.test'' (Some ''8443'') ''v1'') ''get'' (edit_home (demo_text [''a'', ''b'']))
      = (edit_home (demo_text [''a'', ''b'']), Inr rep) \<and> tr_decision rep = decide report_inbound report_engine"
proof -
  have u: "plain_url ''https'' ''API.test'' (Some ''8443'')" by (simp add: plain_url_def is_ascii_digit_def)
  have p: "ph_policy (edit_home (demo_text [''a'', ''b''])) = Some (demo_text [''a'', ''b''])" by (simp add: edit_home_def)
  have l: "load_trusted edit_env (edit_home (demo_text [''a'', ''b''])) = (edit_home (demo_text [''a'', ''b'']), Inr (eg_policy report_engine))"
    using edit_home_trusted[of "demo_text [''a'', ''b'']"]
    by (simp add: load_trusted_present[OF p] report_engine_def) (simp add: edit_env_def demo_read_inverse)
  have lo: "to_ascii_lowercase ''API.test'' = ''api.test''" by code_simp
  have h: "ib_host report_inbound = to_ascii_lowercase ''API.test''" "ib_path report_inbound = ''/'' @ ''v1''" "ib_method report_inbound = ''get''"
    using lo by (simp_all add: report_inbound_def ib_path_def)
  from policy_test_agrees[OF u p l h, of "\<lparr>secrets = []\<rparr>"] show ?thesis by blast
qed

end
