(* ===== verification/Engine.thy ===== *)
theory Engine
  imports Pipeline Integrity
begin

text \<open>
  \<^verbatim>\<open>src/src/engine.rs\<close>: starting the engine, and the reload at the start of every request, which follows the files of the
  home directory by their modification times. A file is its time stamp and what loading it yields; the policy file and
  its record go through the trusted load of \<open>Integrity\<close>. The locks are taken one after the other, a reload is one
  step here. What is only printed is left out, except the warnings of the policy lints.
\<close>

section \<open>State\<close>

record reload_state =
  rs_vault :: "nat option"
  rs_policy :: "nat option"
  rs_policy_sig :: "nat option"
  rs_budget :: "nat option"
  rs_pricing :: "nat option"
  rs_license :: "nat option"
  rs_trip :: "nat option"
  rs_tier :: tier

record runtime =
  rt_engine :: engine
  rt_override :: "action option"
  rt_reload :: reload_state
  rt_warned :: "string list"

text \<open>\<open>budget.json\<close>: absent, unreadable (with the error), not parseable, or a budget.\<close>

datatype budget_file = NoBudgetFile | UnreadableBudget string | GarbledBudget | SavedBudget usd

definition load_budget :: "budget_file \<Rightarrow> string + usd" where
  "load_budget f = (case f of NoBudgetFile \<Rightarrow> Inr 0 | UnreadableBudget x \<Rightarrow> Inl x | GarbledBudget \<Rightarrow> Inr 0 | SavedBudget b \<Rightarrow> Inr b)"

text \<open>The home directory as a reload finds it. \<open>hf_paths\<close> says whether it can be determined; errors are texts.
  The files of the meter and of the trip are part of the engine of \<open>Pipeline\<close>.\<close>

record home_files =
  hf_paths :: bool
  hf_vault_mtime :: "nat option"
  hf_vault :: "string + vault"
  hf_policy_mtime :: "nat option"
  hf_sig_mtime :: "nat option"
  hf_policy :: policy_home
  hf_budget_mtime :: "nat option"
  hf_budget :: budget_file
  hf_pricing_mtime :: "nat option"
  hf_pricing :: "string + pricing_file option"
  hf_license_mtime :: "nat option"
  hf_license :: license_file
  hf_trip_mtime :: "nat option"
  hf_meter_mtime :: "nat option"
  hf_meter_readable :: bool

record reload_env =
  re_integrity :: integrity_env
  re_license :: license_env
  re_extra_key :: "string option"
  re_policy_text :: "integrity_error \<Rightarrow> string"
  re_license_text :: "license_error \<Rightarrow> string"

section \<open>Reloading\<close>

definition audit_note :: "world \<Rightarrow> string \<Rightarrow> string \<Rightarrow> runtime \<Rightarrow> runtime" where
  "audit_note w action note r = r\<lparr>rt_engine := fst (audit w (entry_note action note) (rt_engine r))\<rparr>"

definition failed_note :: "string \<Rightarrow> string \<Rightarrow> string" where
  "failed_note what err = what @ '' reload failed; previous '' @ what @ '' stays active: '' @ err"

definition reload_failed :: "world \<Rightarrow> string \<Rightarrow> string \<Rightarrow> runtime \<Rightarrow> runtime" where
  "reload_failed w what err r = audit_note w ''alert'' (failed_note what err) r"

definition reload_vault :: "world \<Rightarrow> home_files \<Rightarrow> runtime \<Rightarrow> runtime" where
  "reload_vault w f r =
     (if hf_paths f \<and> hf_vault_mtime f \<noteq> rs_vault (rt_reload r) then
        (let r1 = r\<lparr>rt_reload := (rt_reload r)\<lparr>rs_vault := hf_vault_mtime f\<rparr>\<rparr> in
         case hf_vault f of
           Inr v \<Rightarrow> r1\<lparr>rt_engine := (rt_engine r1)\<lparr>eg_vault := v\<rparr>\<rparr>
         | Inl err \<Rightarrow> reload_failed w ''vault'' err r1)
      else r)"

definition pin_default :: "action option \<Rightarrow> policy \<Rightarrow> policy" where
  "pin_default override p = (case override of None \<Rightarrow> p | Some a \<Rightarrow> p\<lparr>p_default_action := a\<rparr>)"

definition policy_warnings :: "engine \<Rightarrow> policy \<Rightarrow> string list" where
  "policy_warnings e p = lint p (secrets (eg_vault e) @ secrets (eg_session e)) @ lint_routes p (eg_pricing e)"

definition reload_policy :: "world \<Rightarrow> reload_env \<Rightarrow> home_files \<Rightarrow> runtime \<Rightarrow> home_files \<times> runtime" where
  "reload_policy w env f r =
     (if hf_paths f \<and> (hf_policy_mtime f \<noteq> rs_policy (rt_reload r) \<or> hf_sig_mtime f \<noteq> rs_policy_sig (rt_reload r)) then
        (let r1 = r\<lparr>rt_reload := (rt_reload r)\<lparr>rs_policy := hf_policy_mtime f, rs_policy_sig := hf_sig_mtime f\<rparr>\<rparr> in
         case load_trusted (re_integrity env) ((hf_policy f)\<lparr>ph_audit := eg_audit_disk (rt_engine r1)\<rparr>) of (h, res) \<Rightarrow>
           (let r2 = r1\<lparr>rt_engine := (rt_engine r1)\<lparr>eg_audit_disk := ph_audit h\<rparr>\<rparr> in
            (f\<lparr>hf_policy := h\<rparr>,
             case res of
               Inr p0 \<Rightarrow>
                 (let p = pin_default (rt_override r2) p0
                  in r2\<lparr>rt_warned := rt_warned r2 @ policy_warnings (rt_engine r2) p, rt_engine := (rt_engine r2)\<lparr>eg_policy := p\<rparr>\<rparr>)
             | Inl (Untrusted msg) \<Rightarrow> audit_note w ''tamper'' (''policy rejected; previous policy stays active: '' @ msg) r2
             | Inl err \<Rightarrow> reload_failed w ''policy'' (re_policy_text env err) r2)))
      else (f, r))"

definition reload_budget :: "world \<Rightarrow> home_files \<Rightarrow> runtime \<Rightarrow> runtime" where
  "reload_budget w f r =
     (if hf_paths f \<and> hf_budget_mtime f \<noteq> rs_budget (rt_reload r) then
        (let r1 = r\<lparr>rt_reload := (rt_reload r)\<lparr>rs_budget := hf_budget_mtime f\<rparr>\<rparr> in
         case load_budget (hf_budget f) of
           Inr b \<Rightarrow> r1\<lparr>rt_engine := (rt_engine r1)\<lparr>eg_meter := (eg_meter (rt_engine r1))\<lparr>sm_budget_usd := b\<rparr>\<rparr>\<rparr>
         | Inl err \<Rightarrow> reload_failed w ''budget'' err r1)
      else r)"

definition reload_pricing :: "world \<Rightarrow> home_files \<Rightarrow> runtime \<Rightarrow> runtime" where
  "reload_pricing w f r =
     (if hf_paths f \<and> hf_pricing_mtime f \<noteq> rs_pricing (rt_reload r) then
        (let r1 = r\<lparr>rt_reload := (rt_reload r)\<lparr>rs_pricing := hf_pricing_mtime f\<rparr>\<rparr> in
         case hf_pricing f of
           Inr pf \<Rightarrow> r1\<lparr>rt_engine := (rt_engine r1)\<lparr>eg_pricing := pricing_load pf\<rparr>\<rparr>
         | Inl err \<Rightarrow> reload_failed w ''pricing'' err r1)
      else r)"

definition reload_license :: "world \<Rightarrow> reload_env \<Rightarrow> home_files \<Rightarrow> runtime \<Rightarrow> runtime" where
  "reload_license w env f r =
     (if hf_paths f \<and> hf_license_mtime f \<noteq> rs_license (rt_reload r) then
        (let r1 = r\<lparr>rt_reload := (rt_reload r)\<lparr>rs_license := hf_license_mtime f\<rparr>\<rparr> in
         case load_installed (re_license env) (re_extra_key env) (hf_license f) of
           Inr d \<Rightarrow> r1\<lparr>rt_engine := (rt_engine r1)\<lparr>eg_license := d\<rparr>\<rparr>
         | Inl err \<Rightarrow> audit_note w ''alert'' (''license file rejected; running the free tier: '' @ re_license_text env err)
             (r1\<lparr>rt_engine := (rt_engine r1)\<lparr>eg_license := None\<rparr>\<rparr>))
      else r)"

definition reload_trip :: "home_files \<Rightarrow> runtime \<Rightarrow> runtime" where
  "reload_trip f r =
     (let trip_now = (if hf_paths f then hf_trip_mtime f else None) in
      if trip_now \<noteq> rs_trip (rt_reload r) then
        r\<lparr>rt_reload := (rt_reload r)\<lparr>rs_trip := trip_now\<rparr>,
          rt_engine := (rt_engine r)\<lparr>eg_watch := set_tripped (if hf_paths f then load_trip (eg_trip_file (rt_engine r)) else None)
             (eg_watch (rt_engine r))\<rparr>\<rparr>
      else r)"

definition tier_name :: "tier \<Rightarrow> string" where
  "tier_name t = (case t of Free \<Rightarrow> ''free'' | Pro \<Rightarrow> ''pro'' | Team \<Rightarrow> ''team'' | Enterprise \<Rightarrow> ''enterprise'')"

definition note_tier :: "world \<Rightarrow> runtime \<Rightarrow> runtime" where
  "note_tier w r =
     (let tier_now = engine_tier w (rt_engine r) in
      if tier_now \<noteq> rs_tier (rt_reload r)
      then audit_note w ''license'' (''effective tier changed: '' @ tier_name (rs_tier (rt_reload r)) @ '' -> '' @ tier_name tier_now)
             (r\<lparr>rt_reload := (rt_reload r)\<lparr>rs_tier := tier_now\<rparr>\<rparr>)
      else r)"

definition reload_meter :: "home_files \<Rightarrow> runtime \<Rightarrow> runtime" where
  "reload_meter f r =
     (if hf_paths f \<and> session_stale (hf_meter_mtime f) (eg_meter (rt_engine r))
      then r\<lparr>rt_engine := (rt_engine r)\<lparr>eg_meter :=
             reload_merged (hf_meter_readable f) (eg_meter_file (rt_engine r)) (hf_meter_mtime f) (eg_meter (rt_engine r))\<rparr>\<rparr>
      else r)"

definition refresh :: "world \<Rightarrow> reload_env \<Rightarrow> home_files \<Rightarrow> runtime \<Rightarrow> home_files \<times> runtime" where
  "refresh w env f r = (case reload_policy w env f (reload_vault w f r) of (f1, r1) \<Rightarrow>
     (f1, reload_meter f1 (note_tier w (reload_trip f1 (reload_license w env f1 (reload_pricing w f1 (reload_budget w f1 r1)))))))"

text \<open>A request to the proxy: the reload, then the handler.\<close>

definition handle_request :: "world \<Rightarrow> reload_env \<Rightarrow> home_files \<Rightarrow> inbound \<Rightarrow> runtime \<Rightarrow> home_files \<times> runtime \<times> passage" where
  "handle_request w env f rq r = (case refresh w env f r of (f1, r1) \<Rightarrow>
     (let p = pipeline w rq (rt_engine r1) in (f1, r1\<lparr>rt_engine := ps_engine p\<rparr>, p)))"

section \<open>Start\<close>

definition new_session_id :: "string \<Rightarrow> u32 \<Rightarrow> nat \<Rightarrow> string" where
  "new_session_id stamp pid seq = stamp @ ''-'' @ show_nat (unat pid) @ ''-'' @ show_nat seq"

datatype boot_error = CaFailed | VaultFailed string | PolicyRefused string | PolicyFailed string | MeterFailed string
  | PricingFailed string | AuditLogFailed audit_error | SaltFailed | ClientFailed

record boot_env =
  be_reload :: reload_env
  be_ca :: bool
  be_salt :: "bytes option"
  be_client :: bool
  be_stamp :: string
  be_seq :: nat
  be_meter_file :: "string + meter_file"
  be_trip_file :: trip_file
  be_cache_file :: cache_file

definition note_tamper_at_boot :: "world \<Rightarrow> string \<Rightarrow> audit_disk \<Rightarrow> audit_disk" where
  "note_tamper_at_boot w msg d = (case auditor_open (wd_audit w) d of
     Inl _ \<Rightarrow> d
   | Inr a \<Rightarrow> (let en = entry_note ''tamper'' (''proxy refused to start: '' @ msg) in
       if \<not> wd_append_ok w en then d
       else fst (snd (append_event (wd_crypto w) (wd_audit w) (wd_pid w) (wd_anchor_ok w) en (wd_ts w) a d))))"

text \<open>\<open>SessionMeter::load\<close>: the merged usage and the budget.\<close>

definition boot_meter :: "boot_env \<Rightarrow> home_files \<Rightarrow> string + session_meter" where
  "boot_meter be f = (case be_meter_file be of
     Inl x \<Rightarrow> Inl x
   | Inr mf \<Rightarrow> (case load_budget (hf_budget f) of Inl x \<Rightarrow> Inl x | Inr b \<Rightarrow> Inr (session_load mf b (hf_meter_mtime f))))"

definition boot_license :: "world \<Rightarrow> reload_env \<Rightarrow> home_files \<Rightarrow> engine \<Rightarrow> engine" where
  "boot_license w env f e = (case load_installed (re_license env) (re_extra_key env) (hf_license f) of
     Inr d \<Rightarrow> e\<lparr>eg_license := d\<rparr>
   | Inl err \<Rightarrow>
       (let en = entry_note ''alert'' (''installed license rejected at boot; running the free tier: '' @ re_license_text env err);
            e1 = e\<lparr>eg_license := None, eg_trail := eg_trail e @ [en]\<rparr> in
        if \<not> wd_append_ok w en then e1
        else (case append_event (wd_crypto w) (wd_audit w) (wd_pid w) (wd_anchor_ok w) en (wd_ts w) (eg_auditor e1) (eg_audit_disk e1) of
            (a, d, _) \<Rightarrow> e1\<lparr>eg_auditor := a, eg_audit_disk := d\<rparr>)))"

definition reload_state_of :: "world \<Rightarrow> home_files \<Rightarrow> engine \<Rightarrow> reload_state" where
  "reload_state_of w f e = \<lparr>rs_vault = hf_vault_mtime f, rs_policy = hf_policy_mtime f, rs_policy_sig = hf_sig_mtime f,
     rs_budget = hf_budget_mtime f, rs_pricing = hf_pricing_mtime f, rs_license = hf_license_mtime f,
     rs_trip = hf_trip_mtime f, rs_tier = engine_tier w e\<rparr>"

definition boot_engine :: "boot_env \<Rightarrow> world \<Rightarrow> policy \<Rightarrow> vault \<Rightarrow> pricing \<Rightarrow> session_meter \<Rightarrow> auditor \<Rightarrow> bytes \<Rightarrow> audit_disk \<Rightarrow> engine" where
  "boot_engine be w p v prices m a salt d =
     \<lparr>eg_policy = p, eg_vault = v, eg_session = \<lparr>secrets = []\<rparr>, eg_pricing = prices, eg_license = None, eg_meter = m,
      eg_meter_file = (case be_meter_file be of Inr mf \<Rightarrow> mf | Inl _ \<Rightarrow> GarbledMeter),
      eg_watch = watch_new (wd_now w) (load_trip (be_trip_file be)), eg_trip_file = be_trip_file be,
      eg_doctor = doctor_default, eg_cache_file = be_cache_file be, eg_keepalive = (\<lambda>_. None),
      eg_auditor = a, eg_audit_disk = d, eg_session_id = new_session_id (be_stamp be) (wd_pid w) (be_seq be),
      eg_dlp_salt = salt, eg_dumps = [], eg_dump_seq = 0, eg_trail = []\<rparr>"

definition boot :: "world \<Rightarrow> boot_env \<Rightarrow> home_files \<Rightarrow> home_files \<times> (boot_error + runtime)" where
  "boot w be f =
     (if \<not> be_ca be then (f, Inl CaFailed)
      else case hf_vault f of Inl x \<Rightarrow> (f, Inl (VaultFailed x)) | Inr v \<Rightarrow>
      (case load_trusted (re_integrity (be_reload be)) (hf_policy f) of
         (h, Inl (Untrusted msg)) \<Rightarrow> (f\<lparr>hf_policy := h\<lparr>ph_audit := note_tamper_at_boot w msg (ph_audit h)\<rparr>\<rparr>, Inl (PolicyRefused msg))
       | (h, Inl err) \<Rightarrow> (f\<lparr>hf_policy := h\<rparr>, Inl (PolicyFailed (re_policy_text (be_reload be) err)))
       | (h, Inr p) \<Rightarrow>
           (let f1 = f\<lparr>hf_policy := h\<rparr> in
            case boot_meter be f1 of Inl x \<Rightarrow> (f1, Inl (MeterFailed x)) | Inr m \<Rightarrow>
            (case hf_pricing f1 of Inl x \<Rightarrow> (f1, Inl (PricingFailed x)) | Inr pf \<Rightarrow>
            (case auditor_open (wd_audit w) (ph_audit h) of Inl x \<Rightarrow> (f1, Inl (AuditLogFailed x)) | Inr a \<Rightarrow>
            (case be_salt be of None \<Rightarrow> (f1, Inl SaltFailed) | Some salt \<Rightarrow>
             if \<not> be_client be then (f1, Inl ClientFailed)
             else
               (let e = boot_license w (be_reload be) f1 (boot_engine be w p v (pricing_load pf) m a salt (ph_audit h))
                in (f1, Inr \<lparr>rt_engine = e, rt_override = None, rt_reload = reload_state_of w f1 e,
                      rt_warned = lint p (secrets v) @ lint_routes p (pricing_load pf)\<rparr>))))))))"

definition announce_entry :: "string \<Rightarrow> entry" where
  "announce_entry label = entry_default\<lparr>en_host := ''-'', en_path := ''-'', en_method := ''-'', en_action := ''session'', en_note := label\<rparr>"

definition announce_session :: "world \<Rightarrow> string \<Rightarrow> runtime \<Rightarrow> runtime \<times> bool" where
  "announce_session w label r = (case audit w (announce_entry label) (rt_engine r) of
     (e, seq) \<Rightarrow> (r\<lparr>rt_engine := e\<rparr>, seq \<noteq> None))"

definition set_session_secrets :: "secret list \<Rightarrow> runtime \<Rightarrow> runtime" where
  "set_session_secrets ss r = r\<lparr>rt_engine := (rt_engine r)\<lparr>eg_session := \<lparr>secrets = ss\<rparr>\<rparr>\<rparr>"

definition set_default_action_override :: "action \<Rightarrow> runtime \<Rightarrow> runtime" where
  "set_default_action_override a r = r\<lparr>rt_override := Some a, rt_engine := (rt_engine r)\<lparr>eg_policy := (eg_policy (rt_engine r))\<lparr>p_default_action := a\<rparr>\<rparr>\<rparr>"

end
