(* ===== verification/Engine_Props.thy ===== *)
theory Engine_Props
  imports Pipeline_Props Engine
begin

text \<open>
  What the reload of \<open>Engine\<close> guarantees: a reload with nothing new on disk is the identity, each component follows its own
  file and a failed load keeps the running value and is recorded once, and at every moment the policy in force is one the
  integrity record vouched for when it was loaded, so nothing is sent that such a policy does not allow.
\<close>

section \<open>Frames\<close>

lemma audit_note_frame [simp]:
  "rt_override (audit_note w a n r) = rt_override r" "rt_reload (audit_note w a n r) = rt_reload r"
  "rt_warned (audit_note w a n r) = rt_warned r"
  "eg_policy (rt_engine (audit_note w a n r)) = eg_policy (rt_engine r)"
  "eg_vault (rt_engine (audit_note w a n r)) = eg_vault (rt_engine r)"
  "eg_session (rt_engine (audit_note w a n r)) = eg_session (rt_engine r)"
  "eg_pricing (rt_engine (audit_note w a n r)) = eg_pricing (rt_engine r)"
  "eg_license (rt_engine (audit_note w a n r)) = eg_license (rt_engine r)"
  "eg_meter (rt_engine (audit_note w a n r)) = eg_meter (rt_engine r)"
  "eg_meter_file (rt_engine (audit_note w a n r)) = eg_meter_file (rt_engine r)"
  "eg_watch (rt_engine (audit_note w a n r)) = eg_watch (rt_engine r)"
  "eg_trip_file (rt_engine (audit_note w a n r)) = eg_trip_file (rt_engine r)"
  "eg_session_id (rt_engine (audit_note w a n r)) = eg_session_id (rt_engine r)"
  "eg_trail (rt_engine (audit_note w a n r)) = eg_trail (rt_engine r) @ [(entry_note a n)\<lparr>en_sid := eg_session_id (rt_engine r)\<rparr>]"
  by (simp_all add: audit_note_def)

lemma engine_tier_cong: "eg_license e = eg_license e' \<Longrightarrow> wd_today w = wd_today w' \<Longrightarrow> wd_date_max w = wd_date_max w'
    \<Longrightarrow> engine_tier w e = engine_tier w' e'"
  by (simp add: engine_tier_def)

section \<open>Reloads that find nothing new\<close>

definition same_stamps :: "home_files \<Rightarrow> home_files \<Rightarrow> bool" where
  "same_stamps f g \<longleftrightarrow> hf_paths g = hf_paths f \<and> hf_vault_mtime g = hf_vault_mtime f \<and> hf_policy_mtime g = hf_policy_mtime f
     \<and> hf_sig_mtime g = hf_sig_mtime f \<and> hf_budget_mtime g = hf_budget_mtime f \<and> hf_pricing_mtime g = hf_pricing_mtime f
     \<and> hf_license_mtime g = hf_license_mtime f \<and> hf_trip_mtime g = hf_trip_mtime f \<and> hf_meter_mtime g = hf_meter_mtime f
     \<and> hf_meter_readable g = hf_meter_readable f"

text \<open>When a runtime has seen everything the files say.\<close>

definition settled :: "world \<Rightarrow> home_files \<Rightarrow> runtime \<Rightarrow> bool" where
  "settled w f r \<longleftrightarrow> (hf_paths f \<longrightarrow> rs_vault (rt_reload r) = hf_vault_mtime f \<and> rs_policy (rt_reload r) = hf_policy_mtime f
       \<and> rs_policy_sig (rt_reload r) = hf_sig_mtime f \<and> rs_budget (rt_reload r) = hf_budget_mtime f
       \<and> rs_pricing (rt_reload r) = hf_pricing_mtime f \<and> rs_license (rt_reload r) = hf_license_mtime f
       \<and> (hf_meter_readable f \<longrightarrow> sm_seen_mtime (eg_meter (rt_engine r)) = hf_meter_mtime f))
     \<and> rs_trip (rt_reload r) = (if hf_paths f then hf_trip_mtime f else None)
     \<and> rs_tier (rt_reload r) = engine_tier w (rt_engine r)"

lemma settled_refresh: "settled w f r \<Longrightarrow> refresh w env f r = (f, r)"
proof -
  assume s: "settled w f r"
  have "reload_vault w f r = r" "reload_policy w env f r = (f, r)" "reload_budget w f r = r" "reload_pricing w f r = r"
    "reload_license w env f r = r" "reload_trip f r = r" "note_tier w r = r"
    using s by (cases "hf_paths f"; simp add: settled_def reload_vault_def reload_policy_def reload_budget_def reload_pricing_def
      reload_license_def reload_trip_def note_tier_def)+
  moreover have "reload_meter f r = r"
  proof (cases "hf_meter_readable f")
    case True
    then show ?thesis using s by (auto simp: reload_meter_def settled_def session_stale_def)
  next
    case False
    then show ?thesis by (simp add: reload_meter_def reload_merged_def)
  qed
  ultimately show ?thesis by (simp add: refresh_def)
qed

lemma reload_vault_frame [simp]:
  "rt_override (reload_vault w f r) = rt_override r"
  "rt_reload (reload_vault w f r) = (if hf_paths f then (rt_reload r)\<lparr>rs_vault := hf_vault_mtime f\<rparr> else rt_reload r)"
  "eg_policy (rt_engine (reload_vault w f r)) = eg_policy (rt_engine r)"
  "eg_session (rt_engine (reload_vault w f r)) = eg_session (rt_engine r)"
  "eg_pricing (rt_engine (reload_vault w f r)) = eg_pricing (rt_engine r)"
  "eg_license (rt_engine (reload_vault w f r)) = eg_license (rt_engine r)"
  "eg_meter (rt_engine (reload_vault w f r)) = eg_meter (rt_engine r)"
  "eg_meter_file (rt_engine (reload_vault w f r)) = eg_meter_file (rt_engine r)"
  "eg_watch (rt_engine (reload_vault w f r)) = eg_watch (rt_engine r)"
  "eg_trip_file (rt_engine (reload_vault w f r)) = eg_trip_file (rt_engine r)"
  "eg_session_id (rt_engine (reload_vault w f r)) = eg_session_id (rt_engine r)"
  by (auto simp: reload_vault_def reload_failed_def Let_def split: sum.split)

lemma reload_policy_frame:
  assumes "reload_policy w env f r = (f', r')"
  shows "rt_override r' = rt_override r"
    "rt_reload r' = (if hf_paths f then (rt_reload r)\<lparr>rs_policy := hf_policy_mtime f, rs_policy_sig := hf_sig_mtime f\<rparr> else rt_reload r)"
    "eg_vault (rt_engine r') = eg_vault (rt_engine r)" "eg_session (rt_engine r') = eg_session (rt_engine r)"
    "eg_pricing (rt_engine r') = eg_pricing (rt_engine r)" "eg_license (rt_engine r') = eg_license (rt_engine r)"
    "eg_meter (rt_engine r') = eg_meter (rt_engine r)" "eg_meter_file (rt_engine r') = eg_meter_file (rt_engine r)"
    "eg_watch (rt_engine r') = eg_watch (rt_engine r)" "eg_trip_file (rt_engine r') = eg_trip_file (rt_engine r)"
    "eg_session_id (rt_engine r') = eg_session_id (rt_engine r)" "f' = f\<lparr>hf_policy := hf_policy f'\<rparr>"
  using assms
  by (auto simp: reload_policy_def reload_failed_def Let_def split: prod.splits sum.splits integrity_error.splits if_splits)

lemma same_stamps_policy: "same_stamps f (f\<lparr>hf_policy := h\<rparr>)"
  by (simp add: same_stamps_def)

lemma reload_budget_frame [simp]:
  "rt_override (reload_budget w f r) = rt_override r"
  "rt_reload (reload_budget w f r) = (if hf_paths f then (rt_reload r)\<lparr>rs_budget := hf_budget_mtime f\<rparr> else rt_reload r)"
  "eg_policy (rt_engine (reload_budget w f r)) = eg_policy (rt_engine r)"
  "eg_vault (rt_engine (reload_budget w f r)) = eg_vault (rt_engine r)"
  "eg_session (rt_engine (reload_budget w f r)) = eg_session (rt_engine r)"
  "eg_pricing (rt_engine (reload_budget w f r)) = eg_pricing (rt_engine r)"
  "eg_license (rt_engine (reload_budget w f r)) = eg_license (rt_engine r)"
  "eg_meter_file (rt_engine (reload_budget w f r)) = eg_meter_file (rt_engine r)"
  "eg_watch (rt_engine (reload_budget w f r)) = eg_watch (rt_engine r)"
  "eg_trip_file (rt_engine (reload_budget w f r)) = eg_trip_file (rt_engine r)"
  "eg_session_id (rt_engine (reload_budget w f r)) = eg_session_id (rt_engine r)"
  by (auto simp: reload_budget_def reload_failed_def Let_def split: sum.split)

lemma reload_pricing_frame [simp]:
  "rt_override (reload_pricing w f r) = rt_override r"
  "rt_reload (reload_pricing w f r) = (if hf_paths f then (rt_reload r)\<lparr>rs_pricing := hf_pricing_mtime f\<rparr> else rt_reload r)"
  "eg_policy (rt_engine (reload_pricing w f r)) = eg_policy (rt_engine r)"
  "eg_vault (rt_engine (reload_pricing w f r)) = eg_vault (rt_engine r)"
  "eg_session (rt_engine (reload_pricing w f r)) = eg_session (rt_engine r)"
  "eg_license (rt_engine (reload_pricing w f r)) = eg_license (rt_engine r)"
  "eg_meter (rt_engine (reload_pricing w f r)) = eg_meter (rt_engine r)"
  "eg_meter (rt_engine (reload_pricing w f r)) = eg_meter (rt_engine r)"
  "eg_meter_file (rt_engine (reload_pricing w f r)) = eg_meter_file (rt_engine r)"
  "eg_watch (rt_engine (reload_pricing w f r)) = eg_watch (rt_engine r)"
  "eg_trip_file (rt_engine (reload_pricing w f r)) = eg_trip_file (rt_engine r)"
  "eg_session_id (rt_engine (reload_pricing w f r)) = eg_session_id (rt_engine r)"
  by (auto simp: reload_pricing_def reload_failed_def Let_def split: sum.split)

lemma reload_license_frame [simp]:
  "rt_override (reload_license w env f r) = rt_override r"
  "rt_reload (reload_license w env f r) = (if hf_paths f then (rt_reload r)\<lparr>rs_license := hf_license_mtime f\<rparr> else rt_reload r)"
  "eg_policy (rt_engine (reload_license w env f r)) = eg_policy (rt_engine r)"
  "eg_vault (rt_engine (reload_license w env f r)) = eg_vault (rt_engine r)"
  "eg_session (rt_engine (reload_license w env f r)) = eg_session (rt_engine r)"
  "eg_pricing (rt_engine (reload_license w env f r)) = eg_pricing (rt_engine r)"
  "eg_meter (rt_engine (reload_license w env f r)) = eg_meter (rt_engine r)"
  "eg_meter_file (rt_engine (reload_license w env f r)) = eg_meter_file (rt_engine r)"
  "eg_watch (rt_engine (reload_license w env f r)) = eg_watch (rt_engine r)"
  "eg_trip_file (rt_engine (reload_license w env f r)) = eg_trip_file (rt_engine r)"
  "eg_session_id (rt_engine (reload_license w env f r)) = eg_session_id (rt_engine r)"
  by (auto simp: reload_license_def Let_def split: sum.split)

lemma reload_trip_frame [simp]:
  "rt_override (reload_trip f r) = rt_override r"
  "rt_reload (reload_trip f r) = (rt_reload r)\<lparr>rs_trip := (if hf_paths f then hf_trip_mtime f else None)\<rparr>"
  "eg_policy (rt_engine (reload_trip f r)) = eg_policy (rt_engine r)"
  "eg_vault (rt_engine (reload_trip f r)) = eg_vault (rt_engine r)"
  "eg_session (rt_engine (reload_trip f r)) = eg_session (rt_engine r)"
  "eg_pricing (rt_engine (reload_trip f r)) = eg_pricing (rt_engine r)"
  "eg_license (rt_engine (reload_trip f r)) = eg_license (rt_engine r)"
  "eg_meter (rt_engine (reload_trip f r)) = eg_meter (rt_engine r)"
  "eg_meter_file (rt_engine (reload_trip f r)) = eg_meter_file (rt_engine r)"
  "eg_trail (rt_engine (reload_trip f r)) = eg_trail (rt_engine r)"
  "eg_session_id (rt_engine (reload_trip f r)) = eg_session_id (rt_engine r)"
  by (auto simp: reload_trip_def Let_def)

lemma note_tier_frame [simp]:
  "rt_override (note_tier w r) = rt_override r"
  "rt_reload (note_tier w r) = (rt_reload r)\<lparr>rs_tier := engine_tier w (rt_engine r)\<rparr>"
  "eg_policy (rt_engine (note_tier w r)) = eg_policy (rt_engine r)"
  "eg_vault (rt_engine (note_tier w r)) = eg_vault (rt_engine r)"
  "eg_session (rt_engine (note_tier w r)) = eg_session (rt_engine r)"
  "eg_pricing (rt_engine (note_tier w r)) = eg_pricing (rt_engine r)"
  "eg_license (rt_engine (note_tier w r)) = eg_license (rt_engine r)"
  "eg_meter (rt_engine (note_tier w r)) = eg_meter (rt_engine r)"
  "eg_watch (rt_engine (note_tier w r)) = eg_watch (rt_engine r)"
  "eg_meter_file (rt_engine (note_tier w r)) = eg_meter_file (rt_engine r)"
  by (auto simp: note_tier_def Let_def)

lemma reload_meter_frame [simp]:
  "rt_override (reload_meter f r) = rt_override r" "rt_reload (reload_meter f r) = rt_reload r"
  "eg_policy (rt_engine (reload_meter f r)) = eg_policy (rt_engine r)"
  "eg_vault (rt_engine (reload_meter f r)) = eg_vault (rt_engine r)"
  "eg_session (rt_engine (reload_meter f r)) = eg_session (rt_engine r)"
  "eg_pricing (rt_engine (reload_meter f r)) = eg_pricing (rt_engine r)"
  "eg_license (rt_engine (reload_meter f r)) = eg_license (rt_engine r)"
  "eg_watch (rt_engine (reload_meter f r)) = eg_watch (rt_engine r)"
  "eg_trail (rt_engine (reload_meter f r)) = eg_trail (rt_engine r)"
  "engine_tier w (rt_engine (reload_meter f r)) = engine_tier w (rt_engine r)"
  "sm_budget_usd (eg_meter (rt_engine (reload_meter f r))) = sm_budget_usd (eg_meter (rt_engine r))"
  by (auto simp: reload_meter_def reload_merged_def engine_tier_def)

lemma reload_meter_seen:
  "hf_paths f \<Longrightarrow> hf_meter_readable f \<Longrightarrow> sm_seen_mtime (eg_meter (rt_engine (reload_meter f r))) = hf_meter_mtime f"
  by (auto simp: reload_meter_def reload_merged_def session_stale_def)

lemma refresh_settles:
  assumes "refresh w env f r = (f', r')" "same_stamps f g" "wd_today w' = wd_today w" "wd_date_max w' = wd_date_max w"
  shows "settled w' g r'"
proof -
  obtain f1 r1 where p: "reload_policy w env f (reload_vault w f r) = (f1, r1)" by fastforce
  note fr = reload_policy_frame[OF p]
  obtain h where h: "f1 = f\<lparr>hf_policy := h\<rparr>" using fr(12) by metis
  have r': "r' = reload_meter f1 (note_tier w (reload_trip f1 (reload_license w env f1 (reload_pricing w f1 (reload_budget w f1 r1)))))"
    using assms(1) by (auto simp: refresh_def p)
  have tier: "engine_tier w (rt_engine r') = engine_tier w (rt_engine (reload_license w env f1 (reload_pricing w f1 (reload_budget w f1 r1))))"
    unfolding r' by (simp add: engine_tier_def)
  show ?thesis
    using assms(2) tier reload_meter_seen[of f1]
    by (auto simp: settled_def same_stamps_def r' h fr(2) engine_tier_def assms(3,4))
qed

text \<open>C24: a reload follows time stamps only. Once a reload has run, the next one changes nothing, in the engine, on disk or in
  the log, for as long as no file's time stamp moves and the day stays the same, whatever the contents have become and
  whether the first reload succeeded: a broken file is reported once per change and not once per request.\<close>

theorem refresh_idempotent:
  assumes "refresh w env f r = (f', r')" "same_stamps f g" "wd_today w' = wd_today w" "wd_date_max w' = wd_date_max w"
  shows "refresh w' env g r' = (g, r')"
  by (rule settled_refresh[OF refresh_settles[OF assms]])

section \<open>Failed reloads\<close>

text \<open>What one file's reload leaves in force, and what it records.\<close>

definition kept :: "bool \<Rightarrow> 'e + 'a \<Rightarrow> 'a \<Rightarrow> 'a" where
  "kept changed res old = (case res of Inr v \<Rightarrow> if changed then v else old | Inl _ \<Rightarrow> old)"

definition failure :: "('e \<Rightarrow> string \<times> string) \<Rightarrow> bool \<Rightarrow> 'e + 'a \<Rightarrow> (string \<times> string) list" where
  "failure message changed res = (case res of Inl x \<Rightarrow> if changed then [message x] else [] | Inr _ \<Rightarrow> [])"

definition noted :: "runtime \<Rightarrow> (string \<times> string) list" where
  "noted r = map (\<lambda>en. (en_action en, en_note en)) (eg_trail (rt_engine r))"

definition policy_result :: "reload_env \<Rightarrow> home_files \<Rightarrow> string \<Rightarrow> integrity_error + policy" where
  "policy_result env f text = (case integrity_verify (re_integrity env) (ph_sig (hf_policy f)) text of
     Inl er \<Rightarrow> Inl er
   | Inr Trusted \<Rightarrow> (case ie_toml (re_integrity env) text of Some p \<Rightarrow> Inr p | None \<Rightarrow> Inl NotAPolicy)
   | Inr v \<Rightarrow> Inl (Untrusted (untrusted_message (re_integrity env) v)))"

definition policy_failure :: "reload_env \<Rightarrow> integrity_error \<Rightarrow> string \<times> string" where
  "policy_failure env er = (case er of
     Untrusted msg \<Rightarrow> (''tamper'', ''policy rejected; previous policy stays active: '' @ msg)
   | _ \<Rightarrow> (''alert'', failed_note ''policy'' (re_policy_text env er)))"

lemma noted_audit_note [simp]: "noted (audit_note w a n r) = noted r @ [(a, n)]"
  by (simp add: noted_def entry_note_def)

lemma noted_cong: "eg_trail (rt_engine r) = eg_trail (rt_engine r') \<Longrightarrow> noted r = noted r'"
  by (simp add: noted_def)

lemma noted_updates [simp]:
  "noted (r\<lparr>rt_reload := x\<rparr>) = noted r" "noted (r\<lparr>rt_warned := ws\<rparr>) = noted r"
  "noted (r\<lparr>rt_reload := x, rt_engine := e\<rparr>) = noted (r\<lparr>rt_engine := e\<rparr>)"
  "noted (r\<lparr>rt_warned := ws, rt_engine := e\<rparr>) = noted (r\<lparr>rt_engine := e\<rparr>)"
  "noted (r\<lparr>rt_engine := (rt_engine r)\<lparr>eg_vault := v\<rparr>\<rparr>) = noted r"
  "noted (r\<lparr>rt_engine := (rt_engine r)\<lparr>eg_policy := p\<rparr>\<rparr>) = noted r"
  "noted (r\<lparr>rt_engine := (rt_engine r)\<lparr>eg_pricing := pr\<rparr>\<rparr>) = noted r"
  "noted (r\<lparr>rt_engine := (rt_engine r)\<lparr>eg_license := l\<rparr>\<rparr>) = noted r"
  "noted (r\<lparr>rt_engine := (rt_engine r)\<lparr>eg_meter := m\<rparr>\<rparr>) = noted r"
  "noted (r\<lparr>rt_engine := (rt_engine r)\<lparr>eg_audit_disk := d\<rparr>\<rparr>) = noted r"
  by (simp_all add: noted_def)

lemma reload_vault_outcome:
  "eg_vault (rt_engine (reload_vault w f r)) = kept (hf_paths f \<and> hf_vault_mtime f \<noteq> rs_vault (rt_reload r)) (hf_vault f) (eg_vault (rt_engine r))"
  "noted (reload_vault w f r) = noted r @ failure (\<lambda>x. (''alert'', failed_note ''vault'' x))
     (hf_paths f \<and> hf_vault_mtime f \<noteq> rs_vault (rt_reload r)) (hf_vault f)"
  by (auto simp: reload_vault_def reload_failed_def kept_def failure_def Let_def noted_def entry_note_def split: sum.split)

lemma reload_policy_outcome:
  assumes "ph_policy (hf_policy f) = Some doc" "reload_policy w env f r = (f', r')"
  shows "eg_policy (rt_engine r') = kept (hf_paths f \<and> (hf_policy_mtime f \<noteq> rs_policy (rt_reload r) \<or> hf_sig_mtime f \<noteq> rs_policy_sig (rt_reload r)))
       (map_sum id (pin_default (rt_override r)) (policy_result env f doc)) (eg_policy (rt_engine r))"
    and "noted r' = noted r @ failure (policy_failure env)
       (hf_paths f \<and> (hf_policy_mtime f \<noteq> rs_policy (rt_reload r) \<or> hf_sig_mtime f \<noteq> rs_policy_sig (rt_reload r))) (policy_result env f doc)"
proof -
  have "load_trusted (re_integrity env) ((hf_policy f)\<lparr>ph_audit := d\<rparr>) = ((hf_policy f)\<lparr>ph_audit := d\<rparr>, policy_result env f doc)" for d
    using load_trusted_present[of "(hf_policy f)\<lparr>ph_audit := d\<rparr>" doc] assms(1) by (simp add: policy_result_def)
  note res = this
  show "eg_policy (rt_engine r') = kept (hf_paths f \<and> (hf_policy_mtime f \<noteq> rs_policy (rt_reload r) \<or> hf_sig_mtime f \<noteq> rs_policy_sig (rt_reload r)))
       (map_sum id (pin_default (rt_override r)) (policy_result env f doc)) (eg_policy (rt_engine r))"
    using assms(2) by (cases "policy_result env f doc")
      (auto simp: reload_policy_def res reload_failed_def kept_def Let_def split: if_splits integrity_error.splits)
  show "noted r' = noted r @ failure (policy_failure env)
       (hf_paths f \<and> (hf_policy_mtime f \<noteq> rs_policy (rt_reload r) \<or> hf_sig_mtime f \<noteq> rs_policy_sig (rt_reload r))) (policy_result env f doc)"
    using assms(2) by (cases "policy_result env f doc")
      (auto simp: reload_policy_def res reload_failed_def failure_def policy_failure_def Let_def noted_def entry_note_def split: if_splits integrity_error.splits)
qed

lemma reload_budget_outcome:
  "sm_budget_usd (eg_meter (rt_engine (reload_budget w f r)))
     = kept (hf_paths f \<and> hf_budget_mtime f \<noteq> rs_budget (rt_reload r)) (load_budget (hf_budget f)) (sm_budget_usd (eg_meter (rt_engine r)))"
  "noted (reload_budget w f r) = noted r @ failure (\<lambda>x. (''alert'', failed_note ''budget'' x))
     (hf_paths f \<and> hf_budget_mtime f \<noteq> rs_budget (rt_reload r)) (load_budget (hf_budget f))"
  by (auto simp: reload_budget_def reload_failed_def kept_def failure_def Let_def noted_def entry_note_def split: sum.split)

lemma reload_pricing_outcome:
  "eg_pricing (rt_engine (reload_pricing w f r))
     = kept (hf_paths f \<and> hf_pricing_mtime f \<noteq> rs_pricing (rt_reload r)) (map_sum id pricing_load (hf_pricing f)) (eg_pricing (rt_engine r))"
  "noted (reload_pricing w f r) = noted r @ failure (\<lambda>x. (''alert'', failed_note ''pricing'' x))
     (hf_paths f \<and> hf_pricing_mtime f \<noteq> rs_pricing (rt_reload r)) (hf_pricing f)"
  by (auto simp: reload_pricing_def reload_failed_def kept_def failure_def Let_def noted_def entry_note_def split: sum.split)

definition license_failure :: "reload_env \<Rightarrow> license_error \<Rightarrow> string \<times> string" where
  "license_failure env er = (''alert'', ''license file rejected; running the free tier: '' @ re_license_text env er)"

definition installed :: "reload_env \<Rightarrow> home_files \<Rightarrow> license_error + license_doc option" where
  "installed env f = load_installed (re_license env) (re_extra_key env) (hf_license f)"

lemma reload_license_outcome:
  "eg_license (rt_engine (reload_license w env f r)) = (if hf_paths f \<and> hf_license_mtime f \<noteq> rs_license (rt_reload r)
     then kept True (installed env f) None else eg_license (rt_engine r))"
  "noted (reload_license w env f r) = noted r @ failure (license_failure env)
     (hf_paths f \<and> hf_license_mtime f \<noteq> rs_license (rt_reload r)) (installed env f)"
  by (auto simp: reload_license_def kept_def failure_def installed_def license_failure_def Let_def noted_def entry_note_def split: sum.split)

lemma reload_trip_outcome:
  "eg_watch (rt_engine (reload_trip f r)) = (if (if hf_paths f then hf_trip_mtime f else None) \<noteq> rs_trip (rt_reload r)
     then set_tripped (if hf_paths f then load_trip (eg_trip_file (rt_engine r)) else None) (eg_watch (rt_engine r)) else eg_watch (rt_engine r))"
  "noted (reload_trip f r) = noted r"
  "sm_budget_usd (eg_meter (rt_engine (reload_trip f r))) = sm_budget_usd (eg_meter (rt_engine r))"
  by (auto simp: reload_trip_def Let_def noted_def)

lemma note_tier_outcome:
  "noted (note_tier w r) = noted r @ (if engine_tier w (rt_engine r) = rs_tier (rt_reload r) then []
     else [(''license'', ''effective tier changed: '' @ tier_name (rs_tier (rt_reload r)) @ '' -> '' @ tier_name (engine_tier w (rt_engine r)))])"
  by (auto simp: note_tier_def Let_def noted_def entry_note_def)

text \<open>All the entries a reload writes.\<close>

definition reload_notes :: "world \<Rightarrow> reload_env \<Rightarrow> home_files \<Rightarrow> string \<Rightarrow> runtime \<Rightarrow> license_doc option \<Rightarrow> (string \<times> string) list" where
  "reload_notes w env f doc r lic = (let st = rt_reload r; tier_now = current_tier (wd_date_max w) (wd_today w) lic in
     failure (\<lambda>x. (''alert'', failed_note ''vault'' x)) (hf_paths f \<and> hf_vault_mtime f \<noteq> rs_vault st) (hf_vault f)
     @ failure (policy_failure env) (hf_paths f \<and> (hf_policy_mtime f \<noteq> rs_policy st \<or> hf_sig_mtime f \<noteq> rs_policy_sig st)) (policy_result env f doc)
     @ failure (\<lambda>x. (''alert'', failed_note ''budget'' x)) (hf_paths f \<and> hf_budget_mtime f \<noteq> rs_budget st) (load_budget (hf_budget f))
     @ failure (\<lambda>x. (''alert'', failed_note ''pricing'' x)) (hf_paths f \<and> hf_pricing_mtime f \<noteq> rs_pricing st) (hf_pricing f)
     @ failure (license_failure env) (hf_paths f \<and> hf_license_mtime f \<noteq> rs_license st) (installed env f)
     @ (if tier_now = rs_tier st then []
        else [(''license'', ''effective tier changed: '' @ tier_name (rs_tier st) @ '' -> '' @ tier_name tier_now)]))"

lemma reload_meter_noted [simp]: "noted (reload_meter f r) = noted r"
  by (simp add: noted_def)

text \<open>C12: a broken file never takes the proxy down and never fails silently. Whatever the files hold, with a policy file present,
  a reload leaves in force for the vault, the policy (its default action pinned when the session pins it), the budget and the
  prices the newly loaded value when the file changed and loads, and the running one otherwise; a licence that changed and is
  refused means no licence; a changed trip file sets the tripwire as the file says. The entries written are exactly one
  per changed file that failed, in order, a policy that is not vouched for as tampering, and one for a change of tier.\<close>

theorem refresh_fails_safe:
  assumes "ph_policy (hf_policy f) = Some doc" "refresh w env f r = (f', r')"
  shows "let st = rt_reload r; e = rt_engine r; e' = rt_engine r' in
      eg_vault e' = kept (hf_paths f \<and> hf_vault_mtime f \<noteq> rs_vault st) (hf_vault f) (eg_vault e)
    \<and> eg_policy e' = kept (hf_paths f \<and> (hf_policy_mtime f \<noteq> rs_policy st \<or> hf_sig_mtime f \<noteq> rs_policy_sig st))
        (map_sum id (pin_default (rt_override r)) (policy_result env f doc)) (eg_policy e)
    \<and> sm_budget_usd (eg_meter e') = kept (hf_paths f \<and> hf_budget_mtime f \<noteq> rs_budget st) (load_budget (hf_budget f)) (sm_budget_usd (eg_meter e))
    \<and> eg_pricing e' = kept (hf_paths f \<and> hf_pricing_mtime f \<noteq> rs_pricing st) (map_sum id pricing_load (hf_pricing f)) (eg_pricing e)
    \<and> eg_license e' = (if hf_paths f \<and> hf_license_mtime f \<noteq> rs_license st then kept True (installed env f) None else eg_license e)
    \<and> eg_watch e' = (if (if hf_paths f then hf_trip_mtime f else None) \<noteq> rs_trip st
        then set_tripped (if hf_paths f then load_trip (eg_trip_file e) else None) (eg_watch e) else eg_watch e)
    \<and> eg_session e' = eg_session e
    \<and> noted r' = noted r @ reload_notes w env f doc r (eg_license e')"
proof -
  obtain f1 r1 where p: "reload_policy w env f (reload_vault w f r) = (f1, r1)" by fastforce
  note fr = reload_policy_frame[OF p]
  obtain h where h: "f1 = f\<lparr>hf_policy := h\<rparr>" using fr(12) by metis
  have r': "r' = reload_meter f1 (note_tier w (reload_trip f1 (reload_license w env f1 (reload_pricing w f1 (reload_budget w f1 r1)))))"
    using assms(2) by (auto simp: refresh_def p)
  have i: "installed env (f\<lparr>hf_policy := h\<rparr>) = installed env f" by (simp add: installed_def)
  have st: "rs_budget (rt_reload r1) = rs_budget (rt_reload r)" "rs_pricing (rt_reload r1) = rs_pricing (rt_reload r)"
    "rs_license (rt_reload r1) = rs_license (rt_reload r)" "rs_trip (rt_reload r1) = rs_trip (rt_reload r)" "rs_tier (rt_reload r1) = rs_tier (rt_reload r)"
    using fr(2) by (simp_all split: if_splits)
  have vs: "rs_policy (rt_reload (reload_vault w f r)) = rs_policy (rt_reload r)" "rs_policy_sig (rt_reload (reload_vault w f r)) = rs_policy_sig (rt_reload r)"
    by simp_all
  note pol = reload_policy_outcome[OF assms(1) p, unfolded vs]
  have v: "eg_vault (rt_engine r') = kept (hf_paths f \<and> hf_vault_mtime f \<noteq> rs_vault (rt_reload r)) (hf_vault f) (eg_vault (rt_engine r))"
    by (simp add: r' fr(3) reload_vault_outcome)
  have p': "eg_policy (rt_engine r') = eg_policy (rt_engine r1)" and s: "eg_session (rt_engine r') = eg_session (rt_engine r)"
    by (simp_all add: r' fr(4))
  have b: "sm_budget_usd (eg_meter (rt_engine r')) = kept (hf_paths f \<and> hf_budget_mtime f \<noteq> rs_budget (rt_reload r))
      (load_budget (hf_budget f)) (sm_budget_usd (eg_meter (rt_engine r)))"
    by (simp add: r' h reload_budget_outcome st fr(7))
  have pr: "eg_pricing (rt_engine r') = kept (hf_paths f \<and> hf_pricing_mtime f \<noteq> rs_pricing (rt_reload r))
      (map_sum id pricing_load (hf_pricing f)) (eg_pricing (rt_engine r))"
    by (simp add: r' h reload_pricing_outcome st fr(5))
  have l: "eg_license (rt_engine r') = (if hf_paths f \<and> hf_license_mtime f \<noteq> rs_license (rt_reload r)
      then kept True (installed env f) None else eg_license (rt_engine r))"
    by (simp add: r' h i reload_license_outcome st fr(6))
  have wt: "eg_watch (rt_engine r') = (if (if hf_paths f then hf_trip_mtime f else None) \<noteq> rs_trip (rt_reload r)
      then set_tripped (if hf_paths f then load_trip (eg_trip_file (rt_engine r)) else None) (eg_watch (rt_engine r)) else eg_watch (rt_engine r))"
    by (simp add: r' h reload_trip_outcome st fr(9,10))
  let ?rl = "reload_license w env f1 (reload_pricing w f1 (reload_budget w f1 r1))"
  have t: "engine_tier w (rt_engine (reload_trip f1 ?rl)) = current_tier (wd_date_max w) (wd_today w) (eg_license (rt_engine r'))"
    by (simp add: r' engine_tier_def)
  have rt: "rs_tier (rt_reload (reload_trip f1 ?rl)) = rs_tier (rt_reload r)" by (simp add: st)
  have n: "noted r' = noted r @ reload_notes w env f doc r (eg_license (rt_engine r'))"
  proof -
    have "noted r' = noted (note_tier w (reload_trip f1 ?rl))" by (simp add: r')
    also have "\<dots> = noted ?rl @ (if current_tier (wd_date_max w) (wd_today w) (eg_license (rt_engine r')) = rs_tier (rt_reload r) then []
       else [(''license'', ''effective tier changed: '' @ tier_name (rs_tier (rt_reload r)) @ '' -> ''
         @ tier_name (current_tier (wd_date_max w) (wd_today w) (eg_license (rt_engine r'))))])"
      unfolding note_tier_outcome t rt reload_trip_outcome(2) ..
    finally show ?thesis
      by (simp add: reload_license_outcome(2) reload_pricing_outcome(2) reload_budget_outcome(2) pol(2) reload_vault_outcome(2) st h i
          reload_notes_def Let_def)
  qed
  show ?thesis
    unfolding Let_def using v pol(1) p' b pr l wt s n by simp
qed

section \<open>The policy in force\<close>

lemma load_trusted_vouched:
  assumes "load_trusted env h = (h', Inr p)"
  shows "\<exists>doc. ph_policy h' = Some doc \<and> integrity_verify env (ph_sig h') doc = Inr Trusted \<and> ie_toml env doc = Some p"
  using assms
  by (auto simp: load_trusted_def read_or_materialize_def split: prod.splits sum.splits option.splits verdict.splits if_splits)

text \<open>The life of a serving engine: started, pinned and given session secrets before it serves, then reloads against whatever the
  files have become, requests, streams metered to their end and turns of the keep-alive watcher, in any order and in any world.
  The list holds the policy homes as its loads left them, the last first.\<close>

inductive serving :: "reload_env \<Rightarrow> policy_home list \<Rightarrow> runtime \<Rightarrow> bool" for env where
  booted: "be_reload be = env \<Longrightarrow> boot w be f = (f', Inr r) \<Longrightarrow> serving env [hf_policy f'] r"
| pinned: "serving env hs r \<Longrightarrow> serving env hs (set_default_action_override a r)"
| session: "serving env hs r \<Longrightarrow> serving env hs (set_session_secrets ss r)"
| announced: "serving env hs r \<Longrightarrow> serving env hs (fst (announce_session w label r))"
| reloaded: "serving env hs r \<Longrightarrow> refresh w env f r = (f', r') \<Longrightarrow> serving env (hf_policy f' # hs) r'"
| served: "serving env hs r \<Longrightarrow> serving env hs (r\<lparr>rt_engine := ps_engine (pipeline w rq (rt_engine r))\<rparr>)"
| prewarmed: "serving env hs r \<Longrightarrow> serving env hs (r\<lparr>rt_engine := fst (watcher_turn w host model idle (rt_engine r))\<rparr>)"

text \<open>A policy that one of the accepted homes vouches for, with the default action the session pinned.\<close>

definition in_force :: "reload_env \<Rightarrow> policy_home list \<Rightarrow> action option \<Rightarrow> policy \<Rightarrow> bool" where
  "in_force env hs override p \<longleftrightarrow> (\<exists>h\<in>set hs. \<exists>doc q. ph_policy h = Some doc
     \<and> integrity_verify (re_integrity env) (ph_sig h) doc = Inr Trusted
     \<and> ie_toml (re_integrity env) doc = Some q \<and> p = pin_default override q)"

lemma in_force_mono: "in_force env hs ov p \<Longrightarrow> in_force env (h # hs) ov p"
  by (auto simp: in_force_def)

lemma pin_pin [simp]: "pin_default (Some a) (pin_default ov p) = pin_default (Some a) p"
  by (simp add: pin_default_def split: option.split)

lemma in_force_pin: "in_force env hs ov p \<Longrightarrow> in_force env hs (Some a) (p\<lparr>p_default_action := a\<rparr>)"
  unfolding in_force_def by (metis option.simps(5) pin_default_def pin_pin)

lemma boot_in_force:
  assumes "boot w be f = (f', Inr r)"
  shows "in_force (be_reload be) [hf_policy f'] (rt_override r) (eg_policy (rt_engine r))"
proof -
  obtain h res where l: "load_trusted (re_integrity (be_reload be)) (hf_policy f) = (h, res)" by fastforce
  obtain v where v: "be_ca be" "hf_vault f = Inr v" using assms by (auto simp: boot_def split: sum.splits if_splits)
  obtain p where p: "res = Inr p" using assms v l by (cases res) (auto simp: boot_def split: integrity_error.splits)
  let ?f = "f\<lparr>hf_policy := h\<rparr>"
  obtain m pf a salt where m: "boot_meter be ?f = Inr m" "hf_pricing ?f = Inr pf" "auditor_open (wd_audit w) (ph_audit h) = Inr a"
    "be_salt be = Some salt" "be_client be"
    using assms by (auto simp: boot_def v l p Let_def split: sum.splits option.splits if_splits)
  have "eg_policy (boot_license w env g e) = eg_policy e" for env g e
    by (simp add: boot_license_def Let_def split: sum.split prod.split)
  then have r: "f' = ?f" "rt_override r = None" "eg_policy (rt_engine r) = p"
    using assms by (auto simp: boot_def v l p Let_def m boot_engine_def)
  show ?thesis using load_trusted_vouched[OF l[unfolded p]] by (auto simp: in_force_def r pin_default_def)
qed

lemma reload_policy_in_force:
  assumes "in_force env hs (rt_override r) (eg_policy (rt_engine r))" "reload_policy w env f r = (f', r')"
  shows "in_force env (hf_policy f' # hs) (rt_override r') (eg_policy (rt_engine r'))"
proof (cases "hf_paths f \<and> (hf_policy_mtime f \<noteq> rs_policy (rt_reload r) \<or> hf_sig_mtime f \<noteq> rs_policy_sig (rt_reload r))")
  case False
  then show ?thesis using assms in_force_mono by (auto simp: reload_policy_def)
next
  case True
  obtain h res where l: "load_trusted (re_integrity env) ((hf_policy f)\<lparr>ph_audit := eg_audit_disk (rt_engine r)\<rparr>) = (h, res)" by fastforce
  have f': "hf_policy f' = h" and ov: "rt_override r' = rt_override r" using assms(2) True reload_policy_frame(1)[OF assms(2)]
    by (auto simp: reload_policy_def l Let_def)
  show ?thesis
  proof (cases res)
    case (Inl er)
    then have "eg_policy (rt_engine r') = eg_policy (rt_engine r)" using assms(2) True
      by (auto simp: reload_policy_def l Let_def reload_failed_def split: integrity_error.splits)
    then show ?thesis using assms(1) in_force_mono ov by metis
  next
    case (Inr p)
    then have "eg_policy (rt_engine r') = pin_default (rt_override r) p" using assms(2) True
      by (auto simp: reload_policy_def l Let_def)
    then show ?thesis using load_trusted_vouched[OF l[unfolded Inr]] ov f' by (auto simp: in_force_def)
  qed
qed

lemma refresh_in_force:
  assumes "in_force env hs (rt_override r) (eg_policy (rt_engine r))" "refresh w env f r = (f', r')"
  shows "in_force env (hf_policy f' # hs) (rt_override r') (eg_policy (rt_engine r'))"
proof -
  obtain f1 r1 where p: "reload_policy w env f (reload_vault w f r) = (f1, r1)" by fastforce
  have "in_force env hs (rt_override (reload_vault w f r)) (eg_policy (rt_engine (reload_vault w f r)))" using assms(1) by simp
  from reload_policy_in_force[OF this p] show ?thesis using assms(2) by (auto simp: refresh_def p)
qed

text \<open>No request and no pre-warm touches the configuration.\<close>

lemma meter_step_config: "same_config a (meter_step w r tr st up down e) = same_config a e"
  by (simp add: meter_step_def split: prod.split)

lemma scan_alert_config: "same_config a (scan_alert_step w r fw st body e) = same_config a e"
  by (simp add: scan_alert_step_def split: option.split)

lemma arm_step_config: "same_config a (arm_step w r t m e) = same_config a e"
  by (simp add: arm_step_def split: option.split)

lemma recorded_config:
  "same_config a (fst (case p of (e3, None) \<Rightarrow> (e3, x) | (e3, Some s) \<Rightarrow> (arm_step w r tm m e3, y s))) = same_config a (fst p)"
  by (auto simp: arm_step_config split: prod.split option.split)

lemma deliver_config: "same_config e (fst (deliver w r fw status hs chunks err e))"
proof (cases "is_event_stream hs")
  case True
  then show ?thesis by (simp add: deliver_def Let_def recorded_config meter_step_config)
next
  case False
  obtain taken over rest where b: "buffer_chunks 0 chunks = (taken, over, rest)" by (metis prod_cases3)
  show ?thesis using False by (simp add: deliver_def Let_def b recorded_config meter_step_config scan_alert_config)
qed

lemma forward_step_config: "same_config a (ps_engine (forward_step w r pp oc act q e)) = same_config a e"
proof -
  have d: "deliver w r fw status hs chunks err e = (e1, ms, res) \<Longrightarrow> same_config a e1 = same_config a e" for fw status hs chunks err e1 ms res
    using deliver_config[of e w r fw status hs chunks err] by (simp add: same_config_def)
  show ?thesis
    by (auto simp: forward_step_def Let_def stopped_def d split: option.splits upstream_result.splits prod.splits)
qed

lemma pipeline_config: "same_config e (ps_engine (pipeline w r e))"
proof -
  have "same_config e (ps_engine (pipeline_inner w r e))"
  proof (cases rule: pipeline_inner_cases[of w e r])
    case (too_large e1 ob pct)
    then show ?thesis using check_budget_config[OF too_large(1)] by simp
  next
    case (failed e1)
    obtain e2 ob pct where b: "check_budget w e = (e2, ob, pct)" by (metis prod_cases3)
    then have "e1 = e2" using failed by (simp add: pipeline_inner_def stopped_def)
    then show ?thesis using check_budget_config[OF b] failed by simp
  next
    case (denied e1 ob pct body e2 dn n js why oc dlp)
    then show ?thesis using judge_prepared(4)[OF denied(1,3)] by (simp add: same_config_audit_all)
  next
    case (sent e1 ob pct body e2 dn n act q oc dlp ens)
    then show ?thesis using judge_prepared(4)[OF sent(1,3)] by (simp add: forward_step_config same_config_audit_all)
  qed
  then show ?thesis by (simp add: pipeline_def Let_def split: pipeline_result.split)
qed

lemma prewarm_meter_config [simp]: "same_config a (prewarm_meter w host tr up down e) = same_config a e"
  by (simp add: prewarm_meter_def Let_def split: prod.split)

lemma keepalive_fire_config: "same_config e (fst (keepalive_fire w host model tmpl e))"
  by (simp add: keepalive_fire_def Let_def split_beta split: option.split upstream_result.split)

lemma watcher_turn_config: "same_config e (fst (watcher_turn w host model idle e))"
  using keepalive_fire_config[of "e\<lparr>eg_keepalive := ka\<rparr>" w host model tm for ka tm]
  by (auto simp: watcher_turn_def same_config_def split: prod.split option.split)

lemma serving_in_force: "serving env hs r \<Longrightarrow> in_force env hs (rt_override r) (eg_policy (rt_engine r))"
proof (induction rule: serving.induct)
  case (booted be w f f' r)
  then show ?case using boot_in_force by blast
next
  case (pinned hs r a)
  then show ?case using in_force_pin by (simp add: set_default_action_override_def)
next
  case (session hs r ss)
  then show ?case by (simp add: set_session_secrets_def)
next
  case (announced hs r w label)
  then show ?case by (simp add: announce_session_def split_beta)
next
  case (reloaded hs r w f f' r')
  then show ?case using refresh_in_force by blast
next
  case (served hs r w rq)
  then show ?case using same_config_fields[OF pipeline_config[of "rt_engine r" w rq]] by simp
next
  case (prewarmed hs r w host model idle)
  then show ?case using same_config_fields[OF watcher_turn_config[of "rt_engine r" w host model idle]] by simp
qed

lemma pipeline_sent_not_denied:
  assumes "ps_sent (pipeline w r e) = Some u"
  shows "dc_action (decide r e) \<noteq> Deny"
proof (cases rule: pipeline_inner_cases[of w e r])
  case (sent e1 ob pct body e2 dn n act q oc dlp ens)
  then show ?thesis using judge_prepared(2)[OF sent(1,3)] by blast
qed (use assms in auto)

text \<open>C5: from the first start on, only an integrity-checked policy decides. Whatever was done to the files, in any order of
  starts, reloads, requests and pre-warms, and however the audit log or the upstream failed, the policy in force is one that
  the record of a home accepted earlier vouches for (its MAC under the home's key), at most with the default action the session
  pinned; and a request that is handled is sent only if that policy, as it stands after the reload, does not deny it.\<close>

theorem policy_always_vouched:
  assumes "serving env hs r" "handle_request w env f rq r = (f', r', p)"
  shows "\<exists>h\<in>set (hf_policy f' # hs). \<exists>doc q. ph_policy h = Some doc \<and> integrity_verify (re_integrity env) (ph_sig h) doc = Inr Trusted
      \<and> ie_toml (re_integrity env) doc = Some q \<and> eg_policy (rt_engine r') = pin_default (rt_override r') q
      \<and> (ps_sent p \<noteq> None \<longrightarrow> dc_action (evaluate (pin_default (rt_override r') q) (ib_host rq) (ib_path rq) (ib_method rq)) \<noteq> Deny)"
proof -
  obtain f1 r1 where rf: "refresh w env f r = (f1, r1)" by fastforce
  have p: "p = pipeline w rq (rt_engine r1)" and r': "r' = r1\<lparr>rt_engine := ps_engine p\<rparr>" and f': "f' = f1"
    using assms(2) by (auto simp: handle_request_def rf Let_def)
  have "in_force env (hf_policy f' # hs) (rt_override r1) (eg_policy (rt_engine r1))"
    using serving_in_force[OF reloaded[OF assms(1) rf]] by (simp add: f')
  then obtain h doc q where h: "h \<in> set (hf_policy f' # hs)" "ph_policy h = Some doc" "integrity_verify (re_integrity env) (ph_sig h) doc = Inr Trusted"
      "ie_toml (re_integrity env) doc = Some q" "eg_policy (rt_engine r1) = pin_default (rt_override r1) q"
    by (auto simp: in_force_def)
  have "eg_policy (rt_engine r') = pin_default (rt_override r') q"
    using same_config_fields[OF pipeline_config[of "rt_engine r1" w rq]] h(5) by (simp add: r' p)
  moreover have "ps_sent p \<noteq> None \<longrightarrow> dc_action (evaluate (pin_default (rt_override r') q) (ib_host rq) (ib_path rq) (ib_method rq)) \<noteq> Deny"
    using pipeline_sent_not_denied[of w rq "rt_engine r1"] h(5) by (auto simp: r' p decide_def)
  ultimately show ?thesis using h by blast
qed

section \<open>An example\<close>

text \<open>A home with a blessed policy and nothing else, an engine started on it, and the home after its vault was broken and its
  policy changed by another program.\<close>

definition demo_reload_env :: reload_env where
  "demo_reload_env = \<lparr>re_integrity = demo_env, re_license = demo_license_env, re_extra_key = None,
     re_policy_text = (\<lambda>_. ''not a policy''), re_license_text = (\<lambda>_. ''refused'')\<rparr>"

definition demo_policy_home :: "string \<Rightarrow> policy_home" where
  "demo_policy_home doc = fresh_home\<lparr>ph_policy := Some doc,
     ph_sig := Sig \<lparr>sg_version = 1, sg_sha256 = [], sg_mac = ''akey'', sg_blessed_at = [], sg_trusted_text = []\<rparr>\<rparr>"

definition demo_files :: "nat option \<Rightarrow> string + vault \<Rightarrow> string \<Rightarrow> home_files" where
  "demo_files stamp v doc = \<lparr>hf_paths = True, hf_vault_mtime = stamp, hf_vault = v, hf_policy_mtime = stamp, hf_sig_mtime = Some 1,
     hf_policy = demo_policy_home doc, hf_budget_mtime = None, hf_budget = NoBudgetFile, hf_pricing_mtime = None,
     hf_pricing = Inr None, hf_license_mtime = None, hf_license = NoLicense, hf_trip_mtime = None, hf_meter_mtime = None,
     hf_meter_readable = True\<rparr>"

definition demo_boot_env :: boot_env where
  "demo_boot_env = \<lparr>be_reload = demo_reload_env, be_ca = True, be_salt = Some [], be_client = True, be_stamp = ''t'', be_seq = 0,
     be_meter_file = Inr NoMeterFile, be_trip_file = NoTripFile, be_cache_file = NoCacheFile\<rparr>"

definition demo_runtime :: runtime where
  "demo_runtime = (let e = demo_engine \<lparr>secrets = []\<rparr> in
     \<lparr>rt_engine = e, rt_override = None, rt_reload = reload_state_of (demo_world (SendFailed [])) (demo_files (Some 1) (Inr \<lparr>secrets = []\<rparr>) ''a'') e,
      rt_warned = []\<rparr>)"

lemma demo_verify: "integrity_verify demo_env (ph_sig (demo_policy_home doc)) doc = Inr (if doc = ''a'' then Trusted else Mismatch)"
  by (simp add: integrity_verify_def mac_matches_def mac_over_def demo_env_def demo_policy_home_def)

lemma demo_load: "load_trusted demo_env (demo_policy_home ''a'') = (demo_policy_home ''a'', Inr default_policy)"
  using load_trusted_present[of "demo_policy_home ''a''" "''a''" demo_env] demo_verify[of "''a''"]
  by (simp add: demo_policy_home_def) (simp add: demo_env_def)

theorem refresh_idempotent_witness:
  "case refresh (demo_world (SendFailed [])) demo_reload_env (demo_files (Some 2) (Inl ''garbled'') ''b'') demo_runtime of
     (_, r') \<Rightarrow> refresh (demo_world (SendFailed [])) demo_reload_env (demo_files (Some 2) (Inr \<lparr>secrets = []\<rparr>) ''a'') r'
        = (demo_files (Some 2) (Inr \<lparr>secrets = []\<rparr>) ''a'', r')"
proof -
  obtain f' r' where r: "refresh (demo_world (SendFailed [])) demo_reload_env (demo_files (Some 2) (Inl ''garbled'') ''b'') demo_runtime = (f', r')"
    by fastforce
  have "same_stamps (demo_files (Some 2) (Inl ''garbled'') ''b'') (demo_files (Some 2) (Inr \<lparr>secrets = []\<rparr>) ''a'')"
    by (simp add: same_stamps_def demo_files_def)
  from refresh_idempotent[OF r this] show ?thesis by (simp add: r)
qed

theorem refresh_fails_safe_witness:
  "\<exists>f' r'. refresh (demo_world (SendFailed [])) demo_reload_env (demo_files (Some 2) (Inl ''garbled'') ''b'') demo_runtime = (f', r')
     \<and> eg_vault (rt_engine r') = \<lparr>secrets = []\<rparr> \<and> eg_policy (rt_engine r') = demo_policy
     \<and> noted r' = [(''alert'', ''vault reload failed; previous vault stays active: garbled''),
          (''tamper'', ''policy rejected; previous policy stays active: '' @ untrusted_message demo_env Mismatch)]"
proof -
  let ?f = "demo_files (Some 2) (Inl ''garbled'') ''b''"
  obtain f' r' where r: "refresh (demo_world (SendFailed [])) demo_reload_env ?f demo_runtime = (f', r')" by fastforce
  have p: "ph_policy (hf_policy ?f) = Some ''b''" by (simp add: demo_files_def demo_policy_home_def)
  have q: "policy_result demo_reload_env ?f ''b'' = Inl (Untrusted (untrusted_message demo_env Mismatch))"
    using demo_verify[of "''b''"] by (simp add: policy_result_def demo_reload_env_def demo_files_def)
  have l: "eg_license (rt_engine r') = None" and n: "noted demo_runtime = []"
    and o: "eg_vault (rt_engine demo_runtime) = \<lparr>secrets = []\<rparr>" "eg_policy (rt_engine demo_runtime) = demo_policy"
    using refresh_fails_safe[OF p r]
    by (simp_all add: demo_files_def demo_runtime_def reload_state_of_def demo_engine_def noted_def Let_def)
  have st: "hf_vault_mtime ?f \<noteq> rs_vault (rt_reload demo_runtime)" "hf_policy_mtime ?f \<noteq> rs_policy (rt_reload demo_runtime)"
    "hf_budget_mtime ?f = rs_budget (rt_reload demo_runtime)" "hf_pricing_mtime ?f = rs_pricing (rt_reload demo_runtime)"
    "hf_license_mtime ?f = rs_license (rt_reload demo_runtime)" "rs_tier (rt_reload demo_runtime) = Free" "hf_paths ?f" "hf_vault ?f = Inl ''garbled''"
    by (simp_all add: demo_files_def demo_runtime_def reload_state_of_def demo_engine_def Let_def engine_tier_def current_tier_def)
  have "eg_vault (rt_engine r') = \<lparr>secrets = []\<rparr>" "eg_policy (rt_engine r') = demo_policy"
    using refresh_fails_safe[OF p r] by (simp_all add: Let_def kept_def q st o)
  moreover have "noted r' = [(''alert'', ''vault reload failed; previous vault stays active: garbled''),
          (''tamper'', ''policy rejected; previous policy stays active: '' @ untrusted_message demo_env Mismatch)]"
    using refresh_fails_safe[OF p r]
    by (simp add: Let_def n l reload_notes_def q st failure_def failed_note_def policy_failure_def current_tier_def split: sum.split)
  ultimately show ?thesis using r by blast
qed

lemma demo_boot: "\<exists>r. boot (demo_world (SendFailed [])) demo_boot_env (demo_files (Some 1) (Inr \<lparr>secrets = []\<rparr>) ''a'')
    = (demo_files (Some 1) (Inr \<lparr>secrets = []\<rparr>) ''a'', Inr r)"
proof -
  have "auditor_open c (ph_audit (demo_policy_home ''a'')) = Inr \<lparr>au_seq = 0, au_prev_hash = ZERO_HASH, au_known_len = 0\<rparr>" for c
    by (simp add: auditor_open_def recover_tail_def demo_policy_home_def fresh_home_def log_len_def)
  then show ?thesis
    by (simp add: boot_def demo_boot_env_def demo_files_def demo_reload_env_def demo_load boot_meter_def load_budget_def Let_def)
qed

theorem policy_always_vouched_witness:
  "\<exists>hs r f' r' p. serving demo_reload_env hs r
     \<and> handle_request (demo_world (SendFailed [])) demo_reload_env (demo_files (Some 2) (Inl ''garbled'') ''b'') demo_inbound r = (f', r', p)
     \<and> (\<exists>h\<in>set (hf_policy f' # hs). \<exists>doc q. ph_policy h = Some doc \<and> integrity_verify demo_env (ph_sig h) doc = Inr Trusted
         \<and> ie_toml demo_env doc = Some q \<and> eg_policy (rt_engine r') = pin_default (rt_override r') q)"
proof -
  from demo_boot obtain r where b: "boot (demo_world (SendFailed [])) demo_boot_env (demo_files (Some 1) (Inr \<lparr>secrets = []\<rparr>) ''a'')
    = (demo_files (Some 1) (Inr \<lparr>secrets = []\<rparr>) ''a'', Inr r)" by blast
  have s: "serving demo_reload_env [hf_policy (demo_files (Some 1) (Inr \<lparr>secrets = []\<rparr>) ''a'')] r"
    by (rule booted[OF _ b]) (simp add: demo_boot_env_def)
  obtain f' r' p where h: "handle_request (demo_world (SendFailed [])) demo_reload_env (demo_files (Some 2) (Inl ''garbled'') ''b'') demo_inbound r = (f', r', p)"
    by (metis prod_cases3)
  have e: "re_integrity demo_reload_env = demo_env" by (simp add: demo_reload_env_def)
  show ?thesis using policy_always_vouched[OF s h] s h unfolding e by blast
qed

end
