(* ===== verification/Session.thy ===== *)
theory Session
  imports Engine_Props Guard
begin

text \<open>
  \<open>decoyrail run\<close> (\<^verbatim>\<open>src/src/main.rs\<close>, \<open>run_command\<close>): start the engine, turn the sensitive variables of the shell into session
  secrets, pin the default action in watch mode, announce the session, and launch the command in an environment of decoys
  behind the proxy. Serving, spawning and printing are left out; the address the listener got is an argument.
\<close>

section \<open>The command\<close>

record run_args =
  ra_pass_all :: bool
  ra_pass_env :: "string list"
  ra_watch :: bool
  ra_cmd :: "string list"

record run_site =
  rn_vars :: "(string \<times> string) list"
  rn_addr :: "string option"
  rn_ca_path :: string

datatype run_error = RunBootFailed boot_error | RunPanicked | AnnounceFailed | BindFailed

definition PROXY_VARS :: "string list" where
  "PROXY_VARS = [''HTTP_PROXY'', ''HTTPS_PROXY'', ''http_proxy'', ''https_proxy'']"

definition NO_PROXY_VARS :: "string list" where
  "NO_PROXY_VARS = [''NO_PROXY'', ''no_proxy'', ''ALL_PROXY'', ''all_proxy'']"

definition CA_VARS :: "string list" where
  "CA_VARS = [''NODE_EXTRA_CA_CERTS'', ''SSL_CERT_FILE'', ''REQUESTS_CA_BUNDLE'', ''CURL_CA_BUNDLE'']"

definition set_vars :: "(string \<times> string) list \<Rightarrow> (string \<rightharpoonup> string) \<Rightarrow> (string \<rightharpoonup> string)" where
  "set_vars kvs m = fold (\<lambda>(k, v) m. m(k \<mapsto> v)) kvs m"

definition decoy_vars :: "secret list \<Rightarrow> (string \<times> string) list" where
  "decoy_vars ss = concat (map (\<lambda>s. case sec_env s of Some var \<Rightarrow> [(var, sec_decoy s)] | None \<Rightarrow> []) ss)"

definition child_env :: "(string \<times> string) list \<Rightarrow> string \<Rightarrow> string \<Rightarrow> vault \<Rightarrow> secret list \<Rightarrow> (string \<rightharpoonup> string)" where
  "child_env vars proxy_url ca_path v env_secrets =
     (let inherited = map_of vars;
          proxied = set_vars (map (\<lambda>k. (k, proxy_url)) PROXY_VARS) inherited;
          covered = fold (\<lambda>k m. m(k := None)) NO_PROXY_VARS proxied;
          trusting = set_vars (map (\<lambda>k. (k, ca_path)) CA_VARS) covered
      in set_vars (decoy_vars env_secrets) (set_vars (decoy_vars (secrets v)) trusting))"

text \<open>Reading the environment panics on text that is not valid UTF-8.\<close>

definition session_secrets :: "world \<Rightarrow> run_args \<Rightarrow> run_site \<Rightarrow> vault \<Rightarrow> secret list option" where
  "session_secrets w ra rn v =
     (if ra_pass_all ra then Some []
      else if list_ex (\<lambda>(k, x). \<not> utf8_valid k \<or> \<not> utf8_valid x) (rn_vars rn) then None
      else detect_env (wd_crypto w) (rn_vars rn) v (ra_pass_env ra))"

definition run_command :: "world \<Rightarrow> boot_env \<Rightarrow> run_args \<Rightarrow> run_site \<Rightarrow> home_files
    \<Rightarrow> home_files \<times> (run_error + runtime \<times> (string \<rightharpoonup> string))" where
  "run_command w be ra rn f = (case boot w be f of
     (f1, Inl er) \<Rightarrow> (f1, Inl (RunBootFailed er))
   | (f1, Inr r0) \<Rightarrow> (case session_secrets w ra rn (eg_vault (rt_engine r0)) of
       None \<Rightarrow> (f1, Inl RunPanicked)
     | Some ss \<Rightarrow>
         (let r1 = set_session_secrets ss r0;
              r2 = (if ra_watch ra then set_default_action_override Warn r1 else r1)
          in case announce_session w (join '' '' (ra_cmd ra)) r2 of
               (_, False) \<Rightarrow> (f1, Inl AnnounceFailed)
             | (r3, True) \<Rightarrow> (case rn_addr rn of
                   None \<Rightarrow> (f1, Inl BindFailed)
                 | Some local \<Rightarrow> (f1, Inr (r3, child_env (rn_vars rn) (''http://'' @ local) (rn_ca_path rn) (eg_vault (rt_engine r3)) ss))))))"

section \<open>The environment of the command\<close>

lemma set_vars_value: "set_vars kvs m k = Some x \<Longrightarrow> (k, x) \<in> set kvs \<or> k \<notin> fst ` set kvs \<and> m k = Some x"
proof (induction kvs arbitrary: m)
  case (Cons kv kvs)
  obtain a b where kv: "kv = (a, b)" by fastforce
  have "set_vars kvs (m(a \<mapsto> b)) k = Some x" using Cons.prems by (simp add: set_vars_def kv)
  from Cons.IH[OF this] show ?case by (auto simp: kv split: if_splits)
qed (simp add: set_vars_def)

lemma set_vars_other: "k \<notin> fst ` set kvs \<Longrightarrow> set_vars kvs m k = m k"
  by (induction kvs arbitrary: m) (auto simp: set_vars_def)

lemma set_vars_set: "(k, x) \<in> set kvs \<Longrightarrow> distinct (map fst kvs) \<Longrightarrow> set_vars kvs m k = Some x"
proof (induction kvs arbitrary: m)
  case (Cons kv kvs)
  obtain a b where kv: "kv = (a, b)" by fastforce
  have s: "set_vars (kv # kvs) m = set_vars kvs (m(a \<mapsto> b))" by (simp add: set_vars_def kv)
  show ?case
  proof (cases "(k, x) \<in> set kvs")
    case True
    then show ?thesis using Cons by (simp add: s)
  next
    case False
    then have "k = a" "x = b" "k \<notin> fst ` set kvs" using Cons.prems kv by auto
    then show ?thesis by (simp add: s set_vars_other)
  qed
qed simp

lemma decoy_vars_set: "(k, x) \<in> set (decoy_vars ss) \<longleftrightarrow> (\<exists>s\<in>set ss. sec_env s = Some k \<and> x = sec_decoy s)"
  unfolding decoy_vars_def by (force split: option.splits)

lemma removed_vars: "fold (\<lambda>k m. m(k := None)) ks m = (\<lambda>k. if k \<in> set ks then None else m k)"
  by (induction ks arbitrary: m) (auto simp: fun_eq_iff)

lemma child_env_value:
  assumes "child_env vars url ca v ss n = Some x"
  shows "(\<exists>s\<in>set (secrets v @ ss). sec_env s = Some n \<and> x = sec_decoy s) \<or> n \<in> set PROXY_VARS \<and> x = url \<or> n \<in> set CA_VARS \<and> x = ca
    \<or> map_of vars n = Some x \<and> n \<notin> set PROXY_VARS \<union> set NO_PROXY_VARS \<union> set CA_VARS \<and> n \<notin> fst ` set (decoy_vars ss)"
proof -
  let ?p = "set_vars (map (\<lambda>k. (k, url)) PROXY_VARS) (map_of vars)"
  let ?t = "set_vars (map (\<lambda>k. (k, ca)) CA_VARS) (\<lambda>k. if k \<in> set NO_PROXY_VARS then None else ?p k)"
  have e: "set_vars (decoy_vars ss) (set_vars (decoy_vars (secrets v)) ?t) n = Some x"
    using assms by (simp add: child_env_def Let_def removed_vars)
  from set_vars_value[OF e] consider "(n, x) \<in> set (decoy_vars ss)"
    | "n \<notin> fst ` set (decoy_vars ss)" "set_vars (decoy_vars (secrets v)) ?t n = Some x" by blast
  then show ?thesis
  proof cases
    case 1 then show ?thesis by (auto simp: decoy_vars_set)
  next
    case 2
    from set_vars_value[OF 2(2)] consider "(n, x) \<in> set (decoy_vars (secrets v))" | "?t n = Some x" by blast
    then show ?thesis
    proof cases
      case 1 then show ?thesis by (auto simp: decoy_vars_set)
    next
      case t: 2
      from set_vars_value[OF t] show ?thesis
      proof
        assume "n \<notin> fst ` set (map (\<lambda>k. (k, ca)) CA_VARS) \<and> (if n \<in> set NO_PROXY_VARS then None else ?p n) = Some x"
        then have n: "n \<notin> set CA_VARS" "n \<notin> set NO_PROXY_VARS" "?p n = Some x" by (auto simp: image_image split: if_splits)
        from set_vars_value[OF n(3)] show ?thesis using n(1,2) 2(1) by (auto simp: image_image)
      qed auto
    qed
  qed
qed

lemma child_env_guarded:
  assumes "s \<in> set ss" "sec_env s = Some n" "distinct (map sec_env ss)"
  shows "child_env vars url ca v ss n = Some (sec_decoy s)"
proof -
  have "distinct (map fst (decoy_vars ss))" using assms(3)
  proof (induction ss)
    case (Cons s ss)
    have "a \<notin> fst ` set (decoy_vars ss)" if "sec_env s = Some a" for a
      using Cons.prems that by (force simp: decoy_vars_set)
    then show ?case using Cons by (auto simp: decoy_vars_def split: option.splits)
  qed (simp add: decoy_vars_def)
  moreover have "(n, sec_decoy s) \<in> set (decoy_vars ss)" using assms(1,2) by (auto simp: decoy_vars_set)
  ultimately show ?thesis by (simp add: child_env_def Let_def set_vars_set)
qed

lemma detected_names:
  assumes "detect_env cr vars v pass = Some ss" "crypto_ok cr" "distinct (map fst vars)"
  shows "distinct (map sec_env ss)"
    and "env_guarded v pass (n, x) \<Longrightarrow> (n, x) \<in> set vars \<Longrightarrow> \<exists>s\<in>set ss. sec_env s = Some n \<and> sec_real s = x \<and> decoy_shape x (sec_decoy s)"
proof -
  have m: "mset (map (\<lambda>s. (the (sec_env s), sec_real s)) ss) = mset (filter (env_guarded v pass) vars)"
    and g: "list_all (\<lambda>s. guards (the (sec_env s), sec_real s) s) ss"
    using detect_env_exact[OF assms(2), of vars v pass] assms(1) by auto
  have e: "sec_env s = Some (the (sec_env s))" "decoy_shape (sec_real s) (sec_decoy s)" if "s \<in> set ss" for s
  proof -
    have q: "guards (the (sec_env s), sec_real s) s" using g that by (auto simp: list_all_iff)
    then show "sec_env s = Some (the (sec_env s))" unfolding guards_def session_secret_of_def by (metis fst_conv secret.select_convs(4))
    show "decoy_shape (sec_real s) (sec_decoy s)" using q by (simp add: guards_def)
  qed
  have "mset (map (\<lambda>s. the (sec_env s)) ss) = mset (map fst (filter (env_guarded v pass) vars))"
    using arg_cong[OF m, of "image_mset fst"] by (simp add: image_mset.compositionality comp_def)
  moreover have "distinct (map fst (filter (env_guarded v pass) vars))" using assms(3) by (rule distinct_map_filter)
  ultimately have "distinct (map (\<lambda>s. the (sec_env s)) ss)" by (metis mset_eq_imp_distinct_iff)
  then show "distinct (map sec_env ss)" by (metis (mono_tags, lifting) distinct_map inj_on_def)
  assume "env_guarded v pass (n, x)" "(n, x) \<in> set vars"
  then have "(n, x) \<in># mset (map (\<lambda>s. (the (sec_env s), sec_real s)) ss)" unfolding m by simp
  then obtain s where "s \<in> set ss" "the (sec_env s) = n" "sec_real s = x" by auto
  then show "\<exists>s\<in>set ss. sec_env s = Some n \<and> sec_real s = x \<and> decoy_shape x (sec_decoy s)" using e by metis
qed

text \<open>C2: the launched command sees decoys. When \<open>decoyrail run\<close> launches (without \<open>--pass-all-env\<close>), every variable of the command's
  environment is a decoy of a vault or session secret, the proxy's address, the CA file, or an inherited variable that the guard does
  not object to; every variable it objects to holds a decoy in the shape of its value, whose real value the serving engine knows as a
  session secret; no proxy bypass is inherited; and the engine is one whose policy was vouched for, warning by default in watch mode.\<close>

theorem run_shows_decoys:
  assumes "run_command w be ra rn f = (f', Inr (r, child))" "crypto_ok (wd_crypto w)" "distinct (map fst (rn_vars rn))" "\<not> ra_pass_all ra"
  shows "let v = eg_vault (rt_engine r); session = secrets (eg_session (rt_engine r)); pass = ra_pass_env ra in
      (\<forall>n x. child n = Some x \<longrightarrow>
           (\<exists>s\<in>set (secrets v @ session). sec_env s = Some n \<and> x = sec_decoy s)
         \<or> n \<in> set PROXY_VARS \<and> (\<exists>local. rn_addr rn = Some local \<and> x = ''http://'' @ local)
         \<or> n \<in> set CA_VARS \<and> x = rn_ca_path rn
         \<or> (n, x) \<in> set (rn_vars rn) \<and> \<not> env_guarded v pass (n, x) \<and> n \<notin> set PROXY_VARS \<union> set NO_PROXY_VARS \<union> set CA_VARS)
    \<and> (\<forall>(n, x)\<in>set (rn_vars rn). env_guarded v pass (n, x) \<longrightarrow>
           (\<exists>s\<in>set session. child n = Some (sec_decoy s) \<and> sec_real s = x \<and> decoy_shape x (sec_decoy s)))
    \<and> serving (be_reload be) [hf_policy f'] r
    \<and> (ra_watch ra \<longrightarrow> p_default_action (eg_policy (rt_engine r)) = Warn)"
proof -
  obtain r0 where b: "boot w be f = (f', Inr r0)" using assms(1) by (auto simp: run_command_def Let_def split: prod.splits sum.splits option.splits bool.splits)
  obtain ss where ss: "session_secrets w ra rn (eg_vault (rt_engine r0)) = Some ss"
    using assms(1) by (auto simp: run_command_def b Let_def split: option.splits)
  let ?r2 = "if ra_watch ra then set_default_action_override Warn (set_session_secrets ss r0) else set_session_secrets ss r0"
  obtain local where l: "rn_addr rn = Some local" and r: "r = fst (announce_session w (join '' '' (ra_cmd ra)) ?r2)"
    and c: "child = child_env (rn_vars rn) (''http://'' @ local) (rn_ca_path rn) (eg_vault (rt_engine r)) ss"
    using assms(1) by (auto simp: run_command_def b ss Let_def split: prod.splits bool.splits option.splits)
  have v: "eg_vault (rt_engine r) = eg_vault (rt_engine r0)" "secrets (eg_session (rt_engine r)) = ss"
    by (simp_all add: r announce_session_def split_beta set_default_action_override_def set_session_secrets_def)
  have d: "detect_env (wd_crypto w) (rn_vars rn) (eg_vault (rt_engine r)) (ra_pass_env ra) = Some ss"
    using ss assms(4) by (simp add: session_secrets_def v(1) split: if_splits)
  note n = detected_names[OF d assms(2,3)]
  have s: "serving (be_reload be) [hf_policy f'] r"
    unfolding r using b by (auto intro!: serving.announced serving.pinned serving.session serving.booted)
  have wt: "ra_watch ra \<longrightarrow> p_default_action (eg_policy (rt_engine r)) = Warn"
    by (simp add: r announce_session_def split_beta set_default_action_override_def)
  have g: "\<exists>t\<in>set ss. child k = Some (sec_decoy t) \<and> sec_real t = x \<and> decoy_shape x (sec_decoy t)"
    if kx: "(k, x) \<in> set (rn_vars rn)" and gd: "env_guarded (eg_vault (rt_engine r)) (ra_pass_env ra) (k, x)" for k x
  proof -
    obtain t where t: "t \<in> set ss" "sec_env t = Some k" "sec_real t = x" "decoy_shape x (sec_decoy t)" using n(2)[OF gd kx] by blast
    then show ?thesis using child_env_guarded[OF t(1,2) n(1)] unfolding c by blast
  qed
  have i: "(\<exists>t\<in>set (secrets (eg_vault (rt_engine r)) @ ss). sec_env t = Some k \<and> x = sec_decoy t)
         \<or> k \<in> set PROXY_VARS \<and> (\<exists>local. rn_addr rn = Some local \<and> x = ''http://'' @ local) \<or> k \<in> set CA_VARS \<and> x = rn_ca_path rn
         \<or> (k, x) \<in> set (rn_vars rn) \<and> \<not> env_guarded (eg_vault (rt_engine r)) (ra_pass_env ra) (k, x) \<and> k \<notin> set PROXY_VARS \<union> set NO_PROXY_VARS \<union> set CA_VARS"
    if "child k = Some x" for k x
  proof -
    from child_env_value[OF that[unfolded c]] consider "(\<exists>t\<in>set (secrets (eg_vault (rt_engine r)) @ ss). sec_env t = Some k \<and> x = sec_decoy t)"
      | "k \<in> set PROXY_VARS \<and> x = ''http://'' @ local" | "k \<in> set CA_VARS \<and> x = rn_ca_path rn"
      | "map_of (rn_vars rn) k = Some x" "k \<notin> set PROXY_VARS \<union> set NO_PROXY_VARS \<union> set CA_VARS" "k \<notin> fst ` set (decoy_vars ss)" by blast
    then show ?thesis
    proof cases
      case 4
      have m: "(k, x) \<in> set (rn_vars rn)" using 4(1) by (rule map_of_SomeD)
      have "\<not> env_guarded (eg_vault (rt_engine r)) (ra_pass_env ra) (k, x)"
      proof
        assume "env_guarded (eg_vault (rt_engine r)) (ra_pass_env ra) (k, x)"
        then obtain t where "t \<in> set ss" "sec_env t = Some k" using n(2) m by blast
        then have "(k, sec_decoy t) \<in> set (decoy_vars ss)" by (auto simp: decoy_vars_set)
        then show False using 4(3) by force
      qed
      then show ?thesis using m 4(2) by blast
    qed (use l in blast)+
  qed
  show ?thesis unfolding Let_def v(2) using i g s wt by (intro conjI allI impI ballI) auto
qed

section \<open>An example\<close>

definition demo_run_args :: run_args where
  "demo_run_args = \<lparr>ra_pass_all = False, ra_pass_env = [], ra_watch = True, ra_cmd = [''agent'']\<rparr>"

definition demo_run_site :: run_site where
  "demo_run_site = \<lparr>rn_vars = [(''A_TOKEN'', ''ghp_0123456789''), (''HOME'', ''/root'')], rn_addr = Some ''127.0.0.1:1'', rn_ca_path = ''ca''\<rparr>"

lemma demo_boot_auditor:
  "boot (demo_world (SendFailed [])) demo_boot_env (demo_files (Some 1) (Inr \<lparr>secrets = []\<rparr>) ''a'') = (f', Inr r)
    \<Longrightarrow> au_known_len (eg_auditor (rt_engine r)) = log_len (dk_log (eg_audit_disk (rt_engine r))) \<and> eg_vault (rt_engine r) = \<lparr>secrets = []\<rparr>"
proof -
  have "auditor_open c (ph_audit (demo_policy_home ''a'')) = Inr \<lparr>au_seq = 0, au_prev_hash = ZERO_HASH, au_known_len = 0\<rparr>"
    "dk_log (ph_audit (demo_policy_home ''a'')) = None" for c
    by (simp_all add: auditor_open_def recover_tail_def demo_policy_home_def fresh_home_def log_len_def)
  then show "boot (demo_world (SendFailed [])) demo_boot_env (demo_files (Some 1) (Inr \<lparr>secrets = []\<rparr>) ''a'') = (f', Inr r) \<Longrightarrow> ?thesis"
    by (auto simp: boot_def demo_boot_env_def demo_files_def demo_reload_env_def demo_load boot_meter_def load_budget_def Let_def
      boot_license_def load_installed_def boot_engine_def log_len_def)
qed

lemma demo_run:
  "\<exists>f' r child. run_command (demo_world (SendFailed [])) demo_boot_env demo_run_args demo_run_site (demo_files (Some 1) (Inr \<lparr>secrets = []\<rparr>) ''a'') = (f', Inr (r, child))
     \<and> eg_vault (rt_engine r) = \<lparr>secrets = []\<rparr>"
proof -
  let ?w = "demo_world (SendFailed [])"
  from demo_boot obtain r0 where b: "boot ?w demo_boot_env (demo_files (Some 1) (Inr \<lparr>secrets = []\<rparr>) ''a'') = (demo_files (Some 1) (Inr \<lparr>secrets = []\<rparr>) ''a'', Inr r0)" by blast
  have cr: "wd_crypto ?w = demo_crypto" by (simp add: demo_world_def)
  obtain ss where ss: "session_secrets ?w demo_run_args demo_run_site (eg_vault (rt_engine r0)) = Some ss"
    using detect_env_exact[OF demo_crypto_ok, of "rn_vars demo_run_site" "eg_vault (rt_engine r0)" "[]"]
    by (auto simp: session_secrets_def demo_run_args_def demo_run_site_def cr)
  note log = conjunct1[OF demo_boot_auditor[OF b]] and v = conjunct2[OF demo_boot_auditor[OF b]]
  have a: "snd (announce_session ?w label x)" if "au_known_len (eg_auditor (rt_engine x)) = log_len (dk_log (eg_audit_disk (rt_engine x)))" for label x
    using that by (simp add: announce_session_def audit_def Let_def demo_world_def append_event_def resync_def split: prod.split)
  let ?r2 = "set_default_action_override Warn (set_session_secrets ss r0)"
  obtain r3 where r3: "announce_session ?w (join '' '' (ra_cmd demo_run_args)) ?r2 = (r3, True)"
    using a[of ?r2 "join '' '' (ra_cmd demo_run_args)"] log
    by (cases "announce_session ?w (join '' '' (ra_cmd demo_run_args)) ?r2") (simp add: set_default_action_override_def set_session_secrets_def)
  have "ra_watch demo_run_args" "rn_addr demo_run_site = Some ''127.0.0.1:1''" by (simp_all add: demo_run_args_def demo_run_site_def)
  moreover have "eg_vault (rt_engine r3) = \<lparr>secrets = []\<rparr>" using arg_cong[OF r3, of fst] v
    by (auto simp: announce_session_def split_beta set_default_action_override_def set_session_secrets_def)
  ultimately show ?thesis by (simp add: run_command_def b[simplified] ss Let_def r3)
qed

theorem run_shows_decoys_witness:
  "\<exists>f' r child. run_command (demo_world (SendFailed [])) demo_boot_env demo_run_args demo_run_site (demo_files (Some 1) (Inr \<lparr>secrets = []\<rparr>) ''a'') = (f', Inr (r, child))
     \<and> (\<exists>s\<in>set (secrets (eg_session (rt_engine r))). child ''A_TOKEN'' = Some (sec_decoy s) \<and> sec_real s = ''ghp_0123456789'')
     \<and> p_default_action (eg_policy (rt_engine r)) = Warn"
proof -
  obtain f' r child where c: "run_command (demo_world (SendFailed [])) demo_boot_env demo_run_args demo_run_site (demo_files (Some 1) (Inr \<lparr>secrets = []\<rparr>) ''a'') = (f', Inr (r, child))"
    and v: "eg_vault (rt_engine r) = \<lparr>secrets = []\<rparr>" using demo_run by blast
  have cr: "crypto_ok (wd_crypto (demo_world (SendFailed [])))" by (simp add: demo_world_def demo_crypto_ok)
  have d: "distinct (map fst (rn_vars demo_run_site))" and np: "\<not> ra_pass_all demo_run_args" and wt: "ra_watch demo_run_args"
    and m: "(''A_TOKEN'', ''ghp_0123456789'') \<in> set (rn_vars demo_run_site)" by (simp_all add: demo_run_site_def demo_run_args_def)
  have gd: "env_guarded \<lparr>secrets = []\<rparr> (ra_pass_env demo_run_args) (''A_TOKEN'', ''ghp_0123456789'')"
    by (simp add: env_guarded_def value_exempt_def starts_with_def name_sensitive_def NAME_FRAGMENTS_def
        to_ascii_uppercase_def ascii_upper_def is_ascii_lower_def Let_def demo_run_args_def)
  note main = run_shows_decoys[OF c cr d np, unfolded Let_def v]
  have "\<exists>s\<in>set (secrets (eg_session (rt_engine r))). child ''A_TOKEN'' = Some (sec_decoy s) \<and> sec_real s = ''ghp_0123456789''"
    using bspec[OF conjunct1[OF conjunct2[OF main]] m] gd by auto
  moreover have "p_default_action (eg_policy (rt_engine r)) = Warn" using main wt by blast
  ultimately show ?thesis using c by blast
qed

end
