(* ===== verification/Vault_Command.thy ===== *)
theory Vault_Command
  imports Policy_Edit_Props
begin

text \<open>
  The vault commands of \<^verbatim>\<open>src/src/main.rs\<close> (\<open>vault_cmd\<close>): adding a secret, with the release rule and the report of where it can
  be used, listing and removing. The vault file is the vault it holds (\<open>Vault_Keys\<close> models its encryption and its key); when
  saving fails it is left as it was. What is printed is returned as a value, and the listing also as text. The letters that
  \<open>parse_location\<close> turns into lower case are those of ASCII.
\<close>

section \<open>Arguments\<close>

record add_args =
  aa_name :: string
  aa_secret :: "string option"
  aa_env :: "string option"
  aa_location :: string
  aa_allow_hosts :: "string list"
  aa_legacy_hosts :: "string list"
  aa_legacy_path_prefixes :: "string list"
  aa_legacy_methods :: "string list"

datatype vault_command = VaultAdd add_args | VaultLs bool | VaultRm string

text \<open>The outside: whether the vault file can be read and written, what standard input and the password prompt give, and the
  other programs, as in \<open>Policy_Edit\<close>.\<close>

record vault_world =
  vw_crypto :: crypto
  vw_loads :: bool
  vw_saves :: bool
  vw_stdin :: "string option"
  vw_tty :: bool
  vw_password :: "string option"
  vw_cmd :: cmd_world

record vault_home =
  vh_vault :: vault
  vh_policy :: policy_home

datatype vault_cmd_error = VaultUnreadable | LegacyArguments | NoSecretRead | EmptySecret | BadLocation string
  | VaultRefused vault_error | PolicyRefused edit_error | NotInVault

definition read_stdin_secret :: "vault_world \<Rightarrow> string option" where
  "read_stdin_secret w = map_option str_trim (vw_stdin w)"

definition read_secret :: "vault_world \<Rightarrow> string option \<Rightarrow> string option" where
  "read_secret w arg = (case arg of
     Some s \<Rightarrow> if s \<noteq> ''-'' then Some s else read_stdin_secret w
   | None \<Rightarrow> if vw_tty w then map_option str_trim (vw_password w) else read_stdin_secret w)"

definition parse_location :: "string \<Rightarrow> vault_cmd_error + location" where
  "parse_location s =
     (let lower = to_ascii_lowercase s in
      if lower = ''bearer'' then Inr Bearer
      else if lower = ''body'' then Inr Body
      else if lower = ''any'' then Inr Any
      else case strip_prefix ''header:'' lower of Some name \<Rightarrow> Inr (Header name) | None \<Rightarrow> Inl (BadLocation s))"

section \<open>Listing\<close>

text \<open>The characters of a text, each as its bytes.\<close>

function str_chars :: "string \<Rightarrow> string list" where
  "str_chars [] = []"
| "str_chars (c # s) = (c # takeWhile is_utf8_cont s) # str_chars (dropWhile is_utf8_cont s)"
  by pat_completeness auto
termination
  by (relation "measure length") (auto simp: le_imp_less_Suc length_dropWhile_le)

definition redact :: "string \<Rightarrow> string" where
  "redact s =
     (let cs = str_chars s; n = length cs in
      if n \<le> 8 then concat (replicate n [CHR 0xE2, CHR 0x80, CHR 0xA2])
      else concat (take 4 cs) @ [CHR 0xE2, CHR 0x80, CHR 0xA6] @ concat (drop (n - 2) cs)
        @ '' ('' @ show_nat n @ '' chars)'')"

definition pad_chars :: "nat \<Rightarrow> string \<Rightarrow> string" where
  "pad_chars n s = s @ replicate (n - length (str_chars s)) CHR '' ''"

definition location_debug :: "location \<Rightarrow> string" where
  "location_debug l = (case l of Bearer \<Rightarrow> ''Bearer'' | Header n \<Rightarrow> ''Header('' @ [CHR 0x22] @ n @ [CHR 0x22] @ '')''
     | Body \<Rightarrow> ''Body'' | Any \<Rightarrow> ''Any'')"

definition release_hosts :: "rule list \<Rightarrow> string list" where
  "release_hosts rs = concat (map r_hosts rs)"

definition ls_lines :: "policy \<Rightarrow> secret \<Rightarrow> string list" where
  "ls_lines p s =
     (let rules = releasing_rules p s;
          release = (if rules = [] then ''tripwire-only'' else ''released at '' @ join '', '' (release_hosts rules))
      in [pad_chars 16 (sec_name s) @ '' env='' @ pad_chars 22 (case sec_env s of Some v \<Rightarrow> v | None \<Rightarrow> ''-'')
            @ '' loc='' @ location_debug (sec_location s) @ '' '' @ release,
          ''    real='' @ redact (sec_real s) @ ''  decoy='' @ sec_decoy s])"

record ls_item =
  li_name :: string
  li_env :: "string option"
  li_decoy :: string
  li_location :: location
  li_provider :: "string option"
  li_released_by :: "string list"

definition ls_item_of :: "policy \<Rightarrow> secret \<Rightarrow> ls_item" where
  "ls_item_of p s = \<lparr>li_name = sec_name s, li_env = sec_env s, li_decoy = sec_decoy s, li_location = sec_location s,
     li_provider = sec_provider s, li_released_by = map r_name (releasing_rules p s)\<rparr>"

datatype vault_report = Added string "rule list" "string list" | ListedJson "ls_item list" | Listed "string list" | Removed

section \<open>The commands\<close>

definition report_release_status :: "integrity_env \<Rightarrow> vault \<Rightarrow> string \<Rightarrow> policy_home \<Rightarrow> policy_home \<times> (vault_cmd_error + rule list \<times> string list)" where
  "report_release_status e v name h = (case load_or_default e h of
     (h1, Inl er) \<Rightarrow> (h1, Inl (PolicyRefused (Store er)))
   | (h1, Inr p) \<Rightarrow> (case find (\<lambda>s. sec_name s = name) (secrets v) of
         None \<Rightarrow> (h1, Inl NotInVault)
       | Some s \<Rightarrow> (h1, Inr (releasing_rules p s, lint p (secrets v)))))"

definition release_at :: "integrity_env \<Rightarrow> cmd_world \<Rightarrow> string \<Rightarrow> string list \<Rightarrow> policy_home \<Rightarrow> policy_home \<times> (edit_error + unit)" where
  "release_at e cw name hosts h = (if hosts = [] then (h, Inr ()) else append_release_rule e cw name hosts h)"

definition add_command :: "integrity_env \<Rightarrow> vault_world \<Rightarrow> add_args \<Rightarrow> vault_home \<Rightarrow> vault_home \<times> (vault_cmd_error + vault_report)" where
  "add_command e w a h =
     (if aa_legacy_hosts a \<noteq> [] \<or> aa_legacy_path_prefixes a \<noteq> [] \<or> aa_legacy_methods a \<noteq> [] then (h, Inl LegacyArguments)
      else case read_secret w (aa_secret a) of None \<Rightarrow> (h, Inl NoSecretRead) | Some realv \<Rightarrow>
        if realv = [] then (h, Inl EmptySecret)
        else case parse_location (aa_location a) of Inl er \<Rightarrow> (h, Inl er) | Inr loc \<Rightarrow>
          (case vault_add (vw_crypto w) (\<lambda>_. vw_saves w) (vh_vault h) (aa_name a) realv (aa_env a) loc of
             (_, Inl er) \<Rightarrow> (h, Inl (VaultRefused er))
           | (v, Inr decoy) \<Rightarrow>
               (case release_at e (vw_cmd w) (aa_name a) (aa_allow_hosts a) (vh_policy h) of
                  (ph, Inl er) \<Rightarrow> (h\<lparr>vh_vault := v, vh_policy := ph\<rparr>, Inl (PolicyRefused er))
                | (ph, Inr _) \<Rightarrow>
                    (case report_release_status e v (aa_name a) ph of
                       (ph2, Inl er) \<Rightarrow> (h\<lparr>vh_vault := v, vh_policy := ph2\<rparr>, Inl er)
                     | (ph2, Inr (rs, warns)) \<Rightarrow> (h\<lparr>vh_vault := v, vh_policy := ph2\<rparr>, Inr (Added decoy rs warns))))))"

definition ls_command :: "integrity_env \<Rightarrow> bool \<Rightarrow> vault_home \<Rightarrow> vault_home \<times> (vault_cmd_error + vault_report)" where
  "ls_command e json h = (case load_or_default e (vh_policy h) of
     (ph, Inl er) \<Rightarrow> (h\<lparr>vh_policy := ph\<rparr>, Inl (PolicyRefused (Store er)))
   | (ph, Inr p) \<Rightarrow> (h\<lparr>vh_policy := ph\<rparr>, Inr
       (if json then ListedJson (map (ls_item_of p) (secrets (vh_vault h)))
        else Listed (if secrets (vh_vault h) = [] then [''(vault is empty)''] else concat (map (ls_lines p) (secrets (vh_vault h)))))))"

definition vault_cmd :: "integrity_env \<Rightarrow> vault_world \<Rightarrow> vault_command \<Rightarrow> vault_home \<Rightarrow> vault_home \<times> (vault_cmd_error + vault_report)" where
  "vault_cmd e w c h =
     (if \<not> vw_loads w then (h, Inl VaultUnreadable)
      else case c of
        VaultAdd a \<Rightarrow> add_command e w a h
      | VaultLs json \<Rightarrow> ls_command e json h
      | VaultRm name \<Rightarrow> (case vault_remove (\<lambda>_. vw_saves w) (vh_vault h) name of
            (_, Inl er) \<Rightarrow> (h, Inl (VaultRefused er))
          | (v, Inr _) \<Rightarrow> (h\<lparr>vh_vault := v\<rparr>, Inr Removed)))"

text \<open>\<open>report_session_decoys\<close>: per variable the hosts it is usable at, none for a mere tripwire.\<close>

definition report_session_decoys :: "policy \<Rightarrow> secret list \<Rightarrow> (string \<times> string list option) list" where
  "report_session_decoys p ss = concat (map (\<lambda>s. case sec_env s of
       None \<Rightarrow> []
     | Some var \<Rightarrow> [(var, let rules = releasing_rules p s in if rules = [] then None else Some (release_hosts rules))]) ss)"

section \<open>What adding a secret achieves\<close>

text \<open>The rule that the text of \<open>release_rule\<close> denotes, and the law of the TOML reader it rests on: a table appended to a
  document that still parses is one more rule at the end. It holds for names and hosts without quotes, backslashes or line ends.\<close>

definition release_rule_value :: "string \<Rightarrow> string list \<Rightarrow> rule" where
  "release_rule_value name hosts = \<lparr>r_name = name, r_hosts = hosts, r_methods = [], r_path_prefixes = [], r_action = Allow,
     r_allow_secrets = [name], r_route = []\<rparr>"

definition appends_rule :: "integrity_env \<Rightarrow> string \<Rightarrow> string list \<Rightarrow> bool" where
  "appends_rule e name hosts \<longleftrightarrow> (\<forall>doc p p'. ie_toml e doc = Some p \<and> ie_toml e (doc @ release_rule name hosts) = Some p'
     \<longrightarrow> p_rules p' = p_rules p @ [release_rule_value name hosts])"

lemma load_or_default_reads:
  assumes "load_or_default e h = (h1, Inr p)"
  obtains doc where "ph_policy h1 = Some doc" "ie_toml e doc = Some p"
  using assms by (auto simp: load_or_default_def read_or_materialize_def split: option.splits if_splits prod.splits)

lemma install_writes: "install e new src h = (h', None) \<Longrightarrow> ph_policy h' = Some new"
  by (auto simp: install_def Let_def audit_policy_event_def split: option.splits if_splits sum.splits prod.splits)

lemma write_policy_writes: "write_policy e new src h = (h', Inr ()) \<Longrightarrow> ph_policy h' = Some new"
  by (auto simp: write_policy_def install_edit_def split: if_splits option.splits sum.splits verdict.splits prod.splits dest: install_writes)

lemma append_release_rule_writes:
  assumes "append_release_rule e cw name hosts h = (h', Inr ())"
  obtains doc p h1 where "load_or_default e h = (h1, Inr p)" "ie_toml e doc = Some p" "ph_policy h' = Some (doc @ release_rule name hosts)"
    "ie_toml e (doc @ release_rule name hosts) \<noteq> None"
    "write_policy e (doc @ release_rule name hosts) ''vault add --allow-host'' (cw_between cw h1) = (h', Inr ())"
proof -
  obtain h1 r where l: "load_or_default e h = (h1, r)" by fastforce
  obtain p where r: "r = Inr p" using assms l by (cases r) (auto simp: append_release_rule_def)
  obtain doc where d: "ph_policy h1 = Some doc" "ie_toml e doc = Some p" using load_or_default_reads l r by metis
  have w: "ie_toml e (doc @ release_rule name hosts) \<noteq> None"
    "write_policy e (doc @ release_rule name hosts) ''vault add --allow-host'' (cw_between cw h1) = (h', Inr ())"
    using assms by (auto simp: append_release_rule_def l r read_policy_def d(1) Let_def split: if_splits)
  show thesis using that l r d(2) w write_policy_writes[OF w(2)] by metis
qed

lemma first_match_releases:
  "releases (evaluate p host path meth) s \<longleftrightarrow>
     (case find (\<lambda>r. rule_matches r host path meth) (p_rules p) of
        None \<Rightarrow> False
      | Some r \<Rightarrow> r \<in> set (releasing_rules p s) \<or> r_action r = Escalate \<and> p_escalate_fallback p \<in> {Allow, Route} \<and> lists_secret (r_allow_secrets r) s)"
proof (cases "find (\<lambda>r. rule_matches r host path meth) (p_rules p)")
  case None
  then show ?thesis using evaluate_first_match[of p host path meth] by (simp add: releases_resolve)
next
  case (Some r)
  then have m: "r \<in> set (p_rules p)" by (auto simp: find_Some_iff)
  have "evaluate p host path meth = resolve p (r_action r) (r_name r) (r_allow_secrets r) (r_route r)"
    using evaluate_first_match[of p host path meth] Some by simp
  then show ?thesis using m by (auto simp: Some releases_resolve releasing_rules_def effective_action_def split: if_splits)
qed

lemma find_last: "list_all (\<lambda>x. \<not> P x) xs \<Longrightarrow> P y \<Longrightarrow> find P (xs @ [y]) = Some y"
  by (induction xs) auto

lemma added_secret_found:
  "name \<notin> sec_name ` set ss \<Longrightarrow> sec_name s = name \<Longrightarrow> find (\<lambda>s. sec_name s = name) (ss @ [s]) = Some s"
  by (rule find_last) (auto simp: list_all_iff image_iff)

text \<open>What a successful \<open>vault add\<close> went through.\<close>

lemma add_command_success:
  assumes "add_command e w a h = (h', Inr (Added decoy rs warns))"
  obtains s ph p where "secrets (vh_vault h') = secrets (vh_vault h) @ [s]" "sec_name s = aa_name a" "sec_decoy s = decoy" "sec_env s = aa_env a"
    "read_secret w (aa_secret a) = Some (sec_real s)" "sec_real s \<noteq> []" "parse_location (aa_location a) = Inr (sec_location s)"
    "release_at e (vw_cmd w) (aa_name a) (aa_allow_hosts a) (vh_policy h) = (ph, Inr ())"
    "load_or_default e ph = (vh_policy h', Inr p)" "rs = releasing_rules p s" "warns = lint p (secrets (vh_vault h'))"
proof -
  obtain realv loc where a: "read_secret w (aa_secret a) = Some realv" "realv \<noteq> []" "parse_location (aa_location a) = Inr loc"
    using assms by (auto simp: add_command_def split: if_splits option.splits sum.splits)
  obtain v res where v: "vault_add (vw_crypto w) (\<lambda>_. vw_saves w) (vh_vault h) (aa_name a) realv (aa_env a) loc = (v, res)" by fastforce
  obtain ph r where r: "release_at e (vw_cmd w) (aa_name a) (aa_allow_hosts a) (vh_policy h) = (ph, r)" by fastforce
  obtain ph2 q where q: "report_release_status e v (aa_name a) ph = (ph2, q)" by fastforce
  have ok: "res = Inr decoy" "r = Inr ()" "q = Inr (rs, warns)" "h' = h\<lparr>vh_vault := v, vh_policy := ph2\<rparr>"
    using assms by (auto simp: add_command_def a v r q split: if_splits sum.splits)
  from v show thesis
  proof (cases rule: vault_add_cases)
    case (added d)
    let ?s = "\<lparr>sec_name = aa_name a, sec_real = realv, sec_decoy = d, sec_env = aa_env a, sec_location = loc, sec_provider = infer_provider realv\<rparr>"
    have f: "find (\<lambda>s. sec_name s = aa_name a) (secrets v) = Some ?s"
      unfolding added(3) by (rule added_secret_found[OF added(2)]) simp
    obtain p where "load_or_default e ph = (ph2, Inr p)" "rs = releasing_rules p ?s" "warns = lint p (secrets v)"
      using q unfolding ok(3) report_release_status_def f by (auto split: prod.splits sum.splits)
    then show thesis using that[of ?s ph p] added ok a r by simp
  qed (use ok in auto)
qed

text \<open>C16: \<open>vault add\<close> does what it prints. When it succeeds the vault has grown by a secret with the given name, the value that was typed
  and the decoy shown, and the report of where it can be used is right about the policy file on disk (which the command reads without
  verifying its record): if the file's escalate fallback does not release (it is not \<open>allow\<close> or \<open>route\<close>; a finding covers the other case), a
  request releases the secret exactly when the first rule that matches it is one of the reported rules, so a secret reported as
  tripwire-only is released to no request. With \<open>--allow-host\<close>, the proxy accepts the new policy, its rules are
  the old ones and one more, and a request to such a host is released unless an earlier rule matches it. This last part uses that the
  rule pasted at the end of the file is read as one more rule (appends_rule), as TOML does when the name and the hosts have no
  quotes, backslashes or control characters.\<close>

theorem vault_add_delivers:
  assumes "vault_cmd e w (VaultAdd a) h = (h', Inr (Added decoy rs warns))" "hex_ok e"
  shows "\<exists>s p doc. secrets (vh_vault h') = secrets (vh_vault h) @ [s] \<and> sec_name s = aa_name a \<and> sec_decoy s = decoy
      \<and> read_secret w (aa_secret a) = Some (sec_real s)
      \<and> ph_policy (vh_policy h') = Some doc \<and> ie_toml e doc = Some p
      \<and> (p_escalate_fallback p \<notin> {Allow, Route} \<longrightarrow> (\<forall>host path meth. releases (evaluate p host path meth) s \<longleftrightarrow>
           (case find (\<lambda>r. rule_matches r host path meth) (p_rules p) of None \<Rightarrow> False | Some r \<Rightarrow> r \<in> set rs)))
      \<and> (aa_allow_hosts a \<noteq> [] \<and> appends_rule e (aa_name a) (aa_allow_hosts a) \<longrightarrow>
           load_trusted e (vh_policy h') = (vh_policy h', Inr p)
           \<and> (\<exists>p0 h0. load_or_default e (vh_policy h) = (h0, Inr p0) \<and> p_rules p = p_rules p0 @ [release_rule_value (aa_name a) (aa_allow_hosts a)]
               \<and> (\<forall>host path meth. (\<exists>g\<in>set (aa_allow_hosts a). glob_match g host)
                     \<and> list_all (\<lambda>r. \<not> rule_matches r host path meth) (p_rules p0)
                   \<longrightarrow> releases (evaluate p host path meth) s)))"
proof -
  have c: "add_command e w a h = (h', Inr (Added decoy rs warns))" using assms(1) by (auto simp: vault_cmd_def split: if_splits)
  obtain s ph p where s: "secrets (vh_vault h') = secrets (vh_vault h) @ [s]" "sec_name s = aa_name a" "sec_decoy s = decoy"
      "read_secret w (aa_secret a) = Some (sec_real s)"
    and r: "release_at e (vw_cmd w) (aa_name a) (aa_allow_hosts a) (vh_policy h) = (ph, Inr ())"
    and l: "load_or_default e ph = (vh_policy h', Inr p)" and rs: "rs = releasing_rules p s"
    by (rule add_command_success[OF c]) auto
  obtain doc where d: "ph_policy (vh_policy h') = Some doc" "ie_toml e doc = Some p" by (rule load_or_default_reads[OF l])
  have allow: "load_trusted e (vh_policy h') = (vh_policy h', Inr p)
      \<and> (\<exists>p0 h0. load_or_default e (vh_policy h) = (h0, Inr p0) \<and> p_rules p = p_rules p0 @ [release_rule_value (aa_name a) (aa_allow_hosts a)]
          \<and> (\<forall>host path meth. (\<exists>g\<in>set (aa_allow_hosts a). glob_match g host)
                \<and> list_all (\<lambda>r. \<not> rule_matches r host path meth) (p_rules p0)
              \<longrightarrow> releases (evaluate p host path meth) s))"
    if ap: "aa_allow_hosts a \<noteq> []" "appends_rule e (aa_name a) (aa_allow_hosts a)"
  proof -
    have r': "append_release_rule e (vw_cmd w) (aa_name a) (aa_allow_hosts a) (vh_policy h) = (ph, Inr ())"
      using r ap(1) by (simp add: release_at_def)
    obtain doc0 p0 h1 where w: "load_or_default e (vh_policy h) = (h1, Inr p0)" "ie_toml e doc0 = Some p0"
        "ph_policy ph = Some (doc0 @ release_rule (aa_name a) (aa_allow_hosts a))"
        "write_policy e (doc0 @ release_rule (aa_name a) (aa_allow_hosts a)) ''vault add --allow-host'' (cw_between (vw_cmd w) h1) = (ph, Inr ())"
      by (rule append_release_rule_writes[OF r']) blast
    have same: "vh_policy h' = ph" using load_or_default_stays[OF w(3) l] .
    then have p: "ie_toml e (doc0 @ release_rule (aa_name a) (aa_allow_hosts a)) = Some p" using d w(3) by simp
    then have rules: "p_rules p = p_rules p0 @ [release_rule_value (aa_name a) (aa_allow_hosts a)]" using ap(2) w(2) by (simp add: appends_rule_def)
    have t: "load_trusted e (vh_policy h') = (vh_policy h', Inr p)" using write_policy_loads[OF assms(2) w(4)] p same by simp
    have "releases (evaluate p host path meth) s"
      if g: "\<exists>g\<in>set (aa_allow_hosts a). glob_match g host" "list_all (\<lambda>r. \<not> rule_matches r host path meth) (p_rules p0)"
      for host path meth
    proof -
      have m: "rule_matches (release_rule_value (aa_name a) (aa_allow_hosts a)) host path meth"
        using g(1) by (auto simp: rule_matches_def release_rule_value_def list_ex_iff)
      have n: "find (\<lambda>r. rule_matches r host path meth) (p_rules p0 @ [release_rule_value (aa_name a) (aa_allow_hosts a)])
          = Some (release_rule_value (aa_name a) (aa_allow_hosts a))"
        by (rule find_last[OF g(2) m])
      have "release_rule_value (aa_name a) (aa_allow_hosts a) \<in> set (releasing_rules p s)"
        using s(2) by (simp add: releasing_rules_def rules) (simp add: release_rule_value_def lists_secret_def)
      then show ?thesis by (simp add: first_match_releases rules n)
    qed
    then show ?thesis using t w(1) rules by blast
  qed
  have report: "releases (evaluate p host path meth) s \<longleftrightarrow>
      (case find (\<lambda>r. rule_matches r host path meth) (p_rules p) of None \<Rightarrow> False | Some r \<Rightarrow> r \<in> set rs)"
    if "p_escalate_fallback p \<notin> {Allow, Route}" for host path meth
    using that by (simp add: first_match_releases rs split: option.split)
  show ?thesis
    by (rule exI[of _ s], rule exI[of _ p], rule exI[of _ doc]) (use s d report allow in auto)
qed

text \<open>A reader that knows two documents, and a secret added for one host.\<close>

definition shop_hosts :: "string list" where "shop_hosts = [''api.shop.test'']"

definition shop_policy :: "rule list \<Rightarrow> policy" where "shop_policy rs = default_policy\<lparr>p_rules := rs\<rparr>"

definition shop_env :: integrity_env where
  "shop_env = demo_env\<lparr>ie_toml := (\<lambda>t. if t = ''x'' then Some (shop_policy [])
     else if t = ''x'' @ release_rule ''shop'' shop_hosts then Some (shop_policy [release_rule_value ''shop'' shop_hosts]) else None)\<rparr>"

definition shop_home :: vault_home where
  "shop_home = \<lparr>vh_vault = \<lparr>secrets = []\<rparr>, vh_policy = fresh_home\<lparr>ph_policy := Some ''x'',
     ph_sig := Sig \<lparr>sg_version = 1, sg_sha256 = [], sg_mac = ''xkey'', sg_blessed_at = [], sg_trusted_text = []\<rparr>\<rparr>\<rparr>"

definition shop_world :: vault_world where
  "shop_world = \<lparr>vw_crypto = demo_crypto, vw_loads = True, vw_saves = True, vw_stdin = None, vw_tty = True,
     vw_password = Some ''hunter22'', vw_cmd = sure\<rparr>"

definition shop_args :: add_args where
  "shop_args = \<lparr>aa_name = ''shop'', aa_secret = None, aa_env = None, aa_location = ''Bearer'', aa_allow_hosts = shop_hosts,
     aa_legacy_hosts = [], aa_legacy_path_prefixes = [], aa_legacy_methods = []\<rparr>"

lemma shop_values: "str_trim ''hunter22'' = ''hunter22''" "parse_location ''Bearer'' = Inr Bearer" "glob_match ''api.shop.test'' ''api.shop.test''"
  by code_simp+

lemma shop_doc_new: "''x'' @ release_rule ''shop'' shop_hosts \<noteq> ''x''"
  by (simp add: release_rule_def Let_def)

lemma shop_appends: "appends_rule shop_env ''shop'' shop_hosts"
  using shop_doc_new by (auto simp: appends_rule_def shop_env_def shop_policy_def split: if_splits)

lemma shop_release: "\<exists>ph. release_at shop_env sure ''shop'' shop_hosts (vh_policy shop_home) = (ph, Inr ())
    \<and> ph_policy ph = Some (''x'' @ release_rule ''shop'' shop_hosts)"
proof -
  let ?h = "vh_policy shop_home" and ?new = "''x'' @ release_rule ''shop'' shop_hosts"
  have parse: "ie_toml shop_env ?new = Some (shop_policy [release_rule_value ''shop'' shop_hosts])" using shop_doc_new by (simp add: shop_env_def)
  have "\<exists>h'. install shop_env ?new src ?h = (h', None)" for src
    unfolding install_def parse
    by (simp add: shop_home_def fresh_home_def write_record_def mac_over_def audit_policy_event_def shop_env_def demo_env_def
      auditor_open_def recover_tail_def append_event_def resync_def log_len_def Let_def)
  then obtain h' where i: "install shop_env ?new ''vault add --allow-host'' ?h = (h', None)" by blast
  have v: "integrity_verify shop_env (ph_sig ?h) ''x'' = Inr Trusted" "ph_policy ?h = Some ''x''"
    by (simp_all add: integrity_verify_def mac_matches_def mac_over_def shop_env_def demo_env_def shop_home_def)
  have w: "write_policy shop_env ?new ''vault add --allow-host'' ?h = (h', Inr ())"
    by (simp only: write_policy_def install_edit_def parse v i) (simp add: v)
  have l: "load_or_default shop_env ?h = (?h, Inr (shop_policy []))"
    by (simp add: load_or_default_present[OF v(2)]) (simp add: shop_env_def)
  have rp: "read_policy ?h = Inr ''x''" and cw: "cw_between sure ?h = ?h" by (simp_all add: read_policy_def v sure_def)
  have "append_release_rule shop_env sure ''shop'' shop_hosts ?h = (h', Inr ())"
    by (simp only: append_release_rule_def l prod.case sum.case rp Let_def parse cw w option.distinct if_False)
  then show ?thesis using write_policy_writes[OF w] by (simp add: release_at_def shop_hosts_def)
qed

theorem vault_add_delivers_witness:
  "\<exists>h' decoy rs warns s p doc. vault_cmd shop_env shop_world (VaultAdd shop_args) shop_home = (h', Inr (Added decoy rs warns))
     \<and> secrets (vh_vault h') = [s] \<and> sec_real s = ''hunter22'' \<and> ph_policy (vh_policy h') = Some doc \<and> ie_toml shop_env doc = Some p
     \<and> releases (evaluate p ''api.shop.test'' ''/'' ''GET'') s"
proof -
  obtain decoy where m: "make_decoy demo_crypto ''shop'' ''hunter22'' = Some decoy" using make_decoy_total demo_crypto_ok by blast
  let ?s = "\<lparr>sec_name = ''shop'', sec_real = ''hunter22'', sec_decoy = decoy, sec_env = None, sec_location = Bearer, sec_provider = infer_provider ''hunter22''\<rparr>"
  let ?p = "shop_policy [release_rule_value ''shop'' shop_hosts]"
  obtain ph where r: "release_at shop_env sure ''shop'' shop_hosts (vh_policy shop_home) = (ph, Inr ())"
    and d: "ph_policy ph = Some (''x'' @ release_rule ''shop'' shop_hosts)" using shop_release by blast
  have l: "load_or_default shop_env ph = (ph, Inr ?p)"
    using shop_doc_new by (simp add: load_or_default_present[OF d]) (simp add: shop_env_def)
  have a: "read_secret shop_world (aa_secret shop_args) = Some ''hunter22''" "parse_location (aa_location shop_args) = Inr Bearer"
    using shop_values(1,2) by (simp_all add: read_secret_def shop_world_def shop_args_def)
  have c: "vault_cmd shop_env shop_world (VaultAdd shop_args) shop_home
      = (shop_home\<lparr>vh_vault := \<lparr>secrets = [?s]\<rparr>, vh_policy := ph\<rparr>, Inr (Added decoy (releasing_rules ?p ?s) (lint ?p [?s])))"
    using a r l m by (simp add: vault_cmd_def add_command_def shop_world_def shop_args_def vault_add_def shop_home_def report_release_status_def)
  have h: "hex_ok shop_env" by (simp add: hex_ok_def shop_env_def demo_env_def)
  have hosts: "aa_allow_hosts shop_args = shop_hosts" "aa_name shop_args = ''shop''" "shop_hosts \<noteq> []" "glob_match ''api.shop.test'' ''api.shop.test''"
    "''api.shop.test'' \<in> set shop_hosts"
    using shop_values(3) by (simp_all add: shop_args_def shop_hosts_def)
  have e: "load_or_default shop_env (vh_policy shop_home) = (vh_policy shop_home, Inr (shop_policy []))"
    by (simp add: load_or_default_present[of _ "''x''"] shop_home_def) (simp add: shop_env_def)
  have rules: "p_rules (shop_policy []) = []" by (simp add: shop_policy_def)
  from vault_add_delivers[OF c h] show ?thesis
    unfolding hosts(1,2) e using c hosts(3-5) shop_appends rules a(1) by (auto simp: shop_home_def)
qed

end
