(* ===== verification/Operator.thy ===== *)
theory Operator
  imports Engine_Props
begin

text \<open>
  The commands with which the operator steers a running proxy (\<^verbatim>\<open>src/src/main.rs\<close>: \<open>budget\<close>, \<open>plan\<close>, \<open>trip\<close>, \<open>license\<close>), the
  files of \<^verbatim>\<open>src/src/meter.rs\<close> they write, and the salt of \<^verbatim>\<open>src/src/detect.rs\<close>. The proxy learns of a command from the time stamp
  of the file it wrote, when it next reloads. What is printed is returned as lines. A file is replaced as a whole
  (\<open>atomic_write\<close>) or not at all. Dollars are reals, so amounts that are not a number are left out.
\<close>

section \<open>The files\<close>

record plan_price =
  pp_usd :: usd
  pp_label :: string

datatype plan_file = NoPlan | UnreadablePlan | GarbledPlan | SavedPlan plan_price

record operator_files =
  of_budget :: budget_file
  of_plan :: plan_file
  of_trip :: trip_file
  of_license :: license_file
  of_audit :: audit_disk

text \<open>The outside of a command: whether its file can be written or removed, the usage of the meter file (with an error), the
  mode in the policy, and what the audit log and licences need. \<open>ow_date\<close> prints a date.\<close>

record operator_world =
  ow_saves :: bool
  ow_removes :: bool
  ow_usage :: "string + meter_file"
  ow_period :: string
  ow_mode :: "tripwire_mode option"
  ow_crypto :: crypto
  ow_codec :: audit_codec
  ow_pid :: u32
  ow_ts :: string
  ow_license :: license_env
  ow_extra_key :: "string option"
  ow_date :: "int \<Rightarrow> string"
  ow_date_max :: int
  ow_today :: int

datatype operator_error = SaveRefused | RemoveRefused | FileUnreadable | NoPlanDeclared | PriceNotPositive
  | LicenseRejected license_error | AuditRefused audit_error

definition save_budget :: "operator_world \<Rightarrow> usd \<Rightarrow> operator_files \<Rightarrow> operator_files \<times> bool" where
  "save_budget w b h = (if ow_saves w then (h\<lparr>of_budget := SavedBudget b\<rparr>, True) else (h, False))"

definition load_plan_price :: "operator_files \<Rightarrow> operator_error + plan_price option" where
  "load_plan_price h = (case of_plan h of
     NoPlan \<Rightarrow> Inr None | UnreadablePlan \<Rightarrow> Inl FileUnreadable | GarbledPlan \<Rightarrow> Inr None | SavedPlan p \<Rightarrow> Inr (Some p))"

definition save_plan_price :: "operator_world \<Rightarrow> plan_price \<Rightarrow> operator_files \<Rightarrow> operator_files \<times> bool" where
  "save_plan_price w p h = (if ow_saves w then (h\<lparr>of_plan := SavedPlan p\<rparr>, True) else (h, False))"

definition clear_plan_price :: "operator_world \<Rightarrow> operator_files \<Rightarrow> operator_files \<times> bool" where
  "clear_plan_price w h = (if of_plan h = NoPlan then (h, True)
     else if ow_removes w then (h\<lparr>of_plan := NoPlan\<rparr>, True) else (h, False))"

definition plan_name :: "plan_price \<Rightarrow> string" where
  "plan_name p = (if pp_label p = [] then ''plan'' else pp_label p)"

definition plan_verdict :: "plan_price \<Rightarrow> usd \<Rightarrow> string" where
  "plan_verdict p absorbed =
     plan_name p @ '' ($'' @ fmt_fixed 2 (pp_usd p) @ ''/mo): '' @
     (if absorbed \<le> 0 then ''no plan-covered traffic this period, so it absorbed nothing.''
      else ''absorbed ~$'' @ fmt_fixed 2 absorbed @ '' of API-equivalent usage this period; '' @
        (if absorbed \<ge> pp_usd p then ''the plan absorbed more than it costs.''
         else ''$'' @ fmt_fixed 2 (pp_usd p - absorbed) @ '' of headroom went unused.''))"

section \<open>The salt of the detectors\<close>

text \<open>\<open>dlp.salt\<close>: absent or unreadable, or its bytes. A salt of another length is replaced.\<close>

definition load_or_create_salt :: "bytes option \<Rightarrow> bytes \<Rightarrow> bool \<Rightarrow> bytes option \<times> bytes option" where
  "load_or_create_salt file fresh saves = (case file of
     Some b \<Rightarrow> if length b = 32 then (file, Some b) else if saves then (Some fresh, Some fresh) else (file, None)
   | None \<Rightarrow> if saves then (Some fresh, Some fresh) else (file, None))"

section \<open>The commands\<close>

definition append_note :: "operator_world \<Rightarrow> string \<Rightarrow> string \<Rightarrow> operator_files \<Rightarrow> operator_files \<times> audit_error option" where
  "append_note w action note h = (case auditor_open (ow_codec w) (of_audit h) of
     Inl er \<Rightarrow> (h, Some er)
   | Inr a \<Rightarrow> (case append_event (ow_crypto w) (ow_codec w) (ow_pid w) True (entry_note action note) (ow_ts w) a (of_audit h) of
         (_, d, Inl er) \<Rightarrow> (h\<lparr>of_audit := d\<rparr>, Some er)
       | (_, d, Inr _) \<Rightarrow> (h\<lparr>of_audit := d\<rparr>, None)))"

definition budget_cmd :: "operator_world \<Rightarrow> usd \<Rightarrow> operator_files \<Rightarrow> operator_files \<times> (operator_error + string list)" where
  "budget_cmd w b h = (case save_budget w b h of
     (h1, False) \<Rightarrow> (h1, Inl SaveRefused)
   | (h1, True) \<Rightarrow> (h1, Inr [if b > 0 then ''Monthly budget set to $'' @ fmt_fixed 2 b @ ''.'' else ''Budget cleared (unlimited).'']))"

definition plan_status :: "operator_world \<Rightarrow> plan_price option \<Rightarrow> operator_files \<Rightarrow> operator_error + string list" where
  "plan_status w existing h = (case (ow_usage w, load_budget (of_budget h)) of
     (Inr mf, Inr _) \<Rightarrow>
       (let absorbed = max (plan_absorbed (roll_period (ow_period w) (load_usage mf))) 0 in
        Inr (case existing of
          Some p \<Rightarrow> [plan_verdict p absorbed]
        | None \<Rightarrow> [if absorbed > 0 then ''Plan-absorbed this period: ~$'' @ fmt_fixed 4 absorbed @ '' API-equivalent (subscription traffic, not billed).''
                     else ''No plan-covered traffic this period.'',
                   ''No plan price declared. Set one with `decoyrail plan --price 200 --label '' @ [CHR 0x22] @ ''Claude Max'' @ [CHR 0x22]
                     @ ''` to see what the plan absorbs against what it costs.'']))
   | _ \<Rightarrow> Inl FileUnreadable)"

definition plan_cmd :: "operator_world \<Rightarrow> usd option \<Rightarrow> string option \<Rightarrow> bool \<Rightarrow> operator_files
    \<Rightarrow> operator_files \<times> (operator_error + string list)" where
  "plan_cmd w price label clear h =
     (if clear then (case clear_plan_price w h of
         (h1, True) \<Rightarrow> (h1, Inr [''Plan price cleared.'']) | (h1, False) \<Rightarrow> (h1, Inl RemoveRefused))
      else case load_plan_price h of Inl er \<Rightarrow> (h, Inl er) | Inr existing \<Rightarrow>
        if price = None \<and> label = None then (h, plan_status w existing h)
        else (case (case price of Some x \<Rightarrow> Some x | None \<Rightarrow> map_option pp_usd existing) of
            None \<Rightarrow> (h, Inl NoPlanDeclared)
          | Some x \<Rightarrow>
              if \<not> x > 0 then (h, Inl PriceNotPositive)
              else (let l = (case label of Some l \<Rightarrow> l | None \<Rightarrow> (case existing of Some p \<Rightarrow> pp_label p | None \<Rightarrow> [])) in
                case save_plan_price w \<lparr>pp_usd = x, pp_label = l\<rparr> h of
                  (h1, False) \<Rightarrow> (h1, Inl SaveRefused)
                | (h1, True) \<Rightarrow> (h1, Inr [if l = [] then ''Plan price set: $'' @ fmt_fixed 2 x @ ''/mo.''
                    else ''Plan price set: '' @ l @ '' at $'' @ fmt_fixed 2 x @ ''/mo.'']))))"

definition trip_status :: "operator_world \<Rightarrow> operator_files \<Rightarrow> string list" where
  "trip_status w h = (case load_trip (of_trip h) of
     None \<Rightarrow> [''Spend tripwire: clear (no trip in force).'']
   | Some t \<Rightarrow> [''Spend tripwire: TRIPPED'' @ (if t_ts t = [] then [] else '' at '' @ t_ts t), ''  '' @ t_reason t]
       @ (if t_sid t = [] then [] else [''  tripped by session: '' @ t_sid t])
       @ [if (case ow_mode w of Some m \<Rightarrow> m | None \<Rightarrow> TripBlock) = TripBlock
          then ''  LLM-bound traffic is blocked while the trip stands.''
          else ''  Traffic still flows (policy mode is not '' @ [CHR 0x22] @ ''block'' @ [CHR 0x22] @ ''); the trip is on record.'',
          ''  Clear with `decoyrail trip clear`.''])"

definition trip_clear :: "operator_world \<Rightarrow> operator_files \<Rightarrow> operator_files \<times> (operator_error + string list)" where
  "trip_clear w h =
     (if load_trip (of_trip h) = None then (h, Inr [''No spend trip to clear.''])
      else if \<not> ow_removes w then (h, Inl RemoveRefused)
      else (case append_note w ''trip'' ''spend tripwire cleared by operator'' (h\<lparr>of_trip := clear_trip (of_trip h)\<rparr>) of
         (h1, Some er) \<Rightarrow> (h1, Inl (AuditRefused er))
       | (h1, None) \<Rightarrow> (h1, Inr [''Spend trip cleared; LLM traffic resumes.''])))"

definition print_license :: "operator_world \<Rightarrow> license_doc \<Rightarrow> string list" where
  "print_license w d =
     [''Licensee: '' @ ld_licensee d,
      ''Tier:     '' @ tier_display (effective_tier (ow_date_max w) d (ow_today w)) @ '' ('' @ show_nat (unat (ld_seats d)) @ '' seat(s))'',
      ''Term:     '' @ ow_date w (ld_issued d) @ '' to '' @ ow_date w (ld_expires d) @ '' (then '' @ show_nat (unat (ld_grace_days d)) @ '' grace day(s))'',
      ''Status:   '' @ describe_validity (license_evaluate (ow_date_max w) d (ow_today w))]"

definition license_note :: "operator_world \<Rightarrow> license_doc \<Rightarrow> string" where
  "license_note w d = ''license installed: licensee='' @ ld_licensee d @ '' tier='' @ tier_display (tier_of d)
     @ '' seats='' @ show_nat (unat (ld_seats d)) @ '' expires='' @ ow_date w (ld_expires d)"

text \<open>\<open>license install\<close> of a file, absent when it cannot be read; a failing audit log is only a warning.\<close>

definition license_install :: "operator_world \<Rightarrow> string option \<Rightarrow> operator_files \<Rightarrow> operator_files \<times> (operator_error + string list)" where
  "license_install w file h = (case file of
     None \<Rightarrow> (h, Inl FileUnreadable)
   | Some s \<Rightarrow> (case parse_and_verify (ow_license w) s (trust_keys (ow_license w) (ow_extra_key w)) of
         Inl er \<Rightarrow> (h, Inl (LicenseRejected er))
       | Inr d \<Rightarrow>
           if \<not> ow_saves w then (h, Inl SaveRefused)
           else (fst (append_note w ''license'' (license_note w d) (h\<lparr>of_license := LicenseText s\<rparr>)),
                 Inr (''License installed.'' # print_license w d))))"

definition license_status :: "operator_world \<Rightarrow> (license_error \<Rightarrow> string) \<Rightarrow> operator_files \<Rightarrow> string list" where
  "license_status w error_text h = (case load_installed (ow_license w) (ow_extra_key w) (of_license h) of
     Inr (Some d) \<Rightarrow> print_license w d
   | Inr None \<Rightarrow> [''No license installed; running the free tier. Every security feature is included, free forever. Paid tiers add the cost pack and fleet tools: https://decoyrail.com/pricing'']
   | Inl er \<Rightarrow> [''Installed license is invalid; running the free tier.'', ''  reason: '' @ error_text er,
       ''  (security features are unaffected; reinstall with `decoyrail license install`)''])"

datatype operator_command = BudgetCmd usd | PlanCmd "usd option" "string option" bool | TripStatus | TripClear
  | LicenseInstall "string option" | LicenseStatus

definition operator_cmd :: "operator_world \<Rightarrow> (license_error \<Rightarrow> string) \<Rightarrow> operator_command \<Rightarrow> operator_files
    \<Rightarrow> operator_files \<times> (operator_error + string list)" where
  "operator_cmd w error_text c h = (case c of
     BudgetCmd b \<Rightarrow> budget_cmd w b h
   | PlanCmd price label clear \<Rightarrow> plan_cmd w price label clear h
   | TripStatus \<Rightarrow> (h, Inr (trip_status w h))
   | TripClear \<Rightarrow> trip_clear w h
   | LicenseInstall file \<Rightarrow> license_install w file h
   | LicenseStatus \<Rightarrow> (h, Inr (license_status w error_text h)))"

section \<open>What a running proxy makes of a command\<close>

lemma append_note_files [simp]:
  "of_budget (fst (append_note w a n h)) = of_budget h" "of_license (fst (append_note w a n h)) = of_license h"
  "of_trip (fst (append_note w a n h)) = of_trip h"
  by (simp_all add: append_note_def split: sum.split prod.split)

lemma refresh_budget:
  assumes "refresh w env f r = (f', r')" "hf_paths f" "hf_budget_mtime f \<noteq> rs_budget (rt_reload r)" "load_budget (hf_budget f) = Inr b"
  shows "sm_budget_usd (eg_meter (rt_engine r')) = b"
proof -
  obtain f1 r1 where p: "reload_policy w env f (reload_vault w f r) = (f1, r1)" by fastforce
  note fr = reload_policy_frame[OF p]
  obtain h where h: "f1 = f\<lparr>hf_policy := h\<rparr>" using fr(12) by metis
  have r': "r' = reload_meter f1 (note_tier w (reload_trip f1 (reload_license w env f1 (reload_pricing w f1 (reload_budget w f1 r1)))))"
    using assms(1) by (auto simp: refresh_def p)
  show ?thesis using assms(2-4) by (simp add: r') (simp add: h reload_budget_def fr(2) Let_def)
qed

lemma refresh_license:
  assumes "refresh w env f r = (f', r')" "hf_paths f" "hf_license_mtime f \<noteq> rs_license (rt_reload r)"
    "load_installed (re_license env) (re_extra_key env) (hf_license f) = Inr d"
  shows "eg_license (rt_engine r') = d"
proof -
  obtain f1 r1 where p: "reload_policy w env f (reload_vault w f r) = (f1, r1)" by fastforce
  note fr = reload_policy_frame[OF p]
  obtain h where h: "f1 = f\<lparr>hf_policy := h\<rparr>" using fr(12) by metis
  have r': "r' = reload_meter f1 (note_tier w (reload_trip f1 (reload_license w env f1 (reload_pricing w f1 (reload_budget w f1 r1)))))"
    using assms(1) by (auto simp: refresh_def p)
  show ?thesis using assms(2-4) by (simp add: r') (simp add: h reload_license_def fr(2) Let_def)
qed

lemma refresh_trip:
  assumes "refresh w env f r = (f', r')" "hf_paths f"
  shows "w_tripped (eg_watch (rt_engine r')) = (if hf_trip_mtime f \<noteq> rs_trip (rt_reload r)
    then load_trip (eg_trip_file (rt_engine r)) else w_tripped (eg_watch (rt_engine r)))"
proof -
  obtain f1 r1 where p: "reload_policy w env f (reload_vault w f r) = (f1, r1)" by fastforce
  note fr = reload_policy_frame[OF p]
  obtain h where h: "f1 = f\<lparr>hf_policy := h\<rparr>" using fr(12) by metis
  have r': "r' = reload_meter f1 (note_tier w (reload_trip f1 (reload_license w env f1 (reload_pricing w f1 (reload_budget w f1 r1)))))"
    using assms(1) by (auto simp: refresh_def p)
  show ?thesis using assms(2)
    by (simp add: r') (simp add: h reload_trip_def fr(2,9,10) Let_def set_tripped_def)
qed

lemma trip_clear_removes: "trip_clear w h = (h', Inr out) \<Longrightarrow> of_trip h' = NoTripFile"
  by (auto simp: trip_clear_def clear_trip_def load_trip_def split: if_splits prod.splits option.splits trip_file.splits
      dest: arg_cong[where f = "\<lambda>x. of_trip (fst x)"])

text \<open>What \<open>trip clear\<close> does to a proxy, in either case: a trip whose file the proxy has not seen stays in force (a finding).\<close>

lemma trip_clear_effect:
  assumes "operator_cmd ow et TripClear h = (h', Inr out)" "refresh w env f r = (f', r')" "hf_paths f"
    and "eg_trip_file (rt_engine r) = of_trip h'" "hf_trip_mtime f = None \<longleftrightarrow> of_trip h' = NoTripFile"
  shows "w_tripped (eg_watch (rt_engine r')) = (if rs_trip (rt_reload r) = None then w_tripped (eg_watch (rt_engine r)) else None)"
proof -
  have "of_trip h' = NoTripFile" using assms(1) by (intro trip_clear_removes) (simp add: operator_cmd_def)
  then show ?thesis using refresh_trip[OF assms(2,3)] assms(4,5) by (auto simp: load_trip_def)
qed

text \<open>C26: a command of the operator reaches the running proxy at its next request. If the command succeeded, then a budget, when the time
  stamp of its file is not the one the proxy saw last, is the limit in force; an installed licence, likewise, is one that verified, and
  it decides the tier; and after \<open>trip clear\<close> no trip is in force, when the proxy had seen a trip file (at its start or a later reload; a
  trip that the proxy raised itself a moment ago is another case, which a finding describes).\<close>

theorem operator_takes_effect:
  assumes "operator_cmd ow et c h = (h', Inr out)" "refresh w env f r = (f', r')" "hf_paths f"
    and "hf_budget f = of_budget h'" "hf_license f = of_license h'" "eg_trip_file (rt_engine r) = of_trip h'"
    and "hf_trip_mtime f = None \<longleftrightarrow> of_trip h' = NoTripFile" "re_license env = ow_license ow" "re_extra_key env = ow_extra_key ow"
  shows "case c of
      BudgetCmd b \<Rightarrow> hf_budget_mtime f \<noteq> rs_budget (rt_reload r) \<longrightarrow> sm_budget_usd (eg_meter (rt_engine r')) = b
    | LicenseInstall file \<Rightarrow> hf_license_mtime f \<noteq> rs_license (rt_reload r) \<longrightarrow>
        (\<exists>s d. file = Some s \<and> parse_and_verify (ow_license ow) s (trust_keys (ow_license ow) (ow_extra_key ow)) = Inr d
          \<and> eg_license (rt_engine r') = Some d \<and> engine_tier w (rt_engine r') = effective_tier (wd_date_max w) d (wd_today w))
    | TripClear \<Rightarrow> rs_trip (rt_reload r) \<noteq> None \<longrightarrow> w_tripped (eg_watch (rt_engine r')) = None
    | _ \<Rightarrow> True"
proof (cases c)
  case (BudgetCmd b)
  have "of_budget h' = SavedBudget b"
    using assms(1) by (auto simp: operator_cmd_def BudgetCmd budget_cmd_def save_budget_def split: if_splits)
  then have "load_budget (hf_budget f) = Inr b" using assms(4) by (simp add: load_budget_def)
  then show ?thesis using refresh_budget[OF assms(2,3)] by (simp add: BudgetCmd)
next
  case (LicenseInstall src)
  have i: "license_install ow src h = (h', Inr out)" using assms(1) by (simp add: operator_cmd_def LicenseInstall)
  obtain s d where s: "src = Some s" "parse_and_verify (ow_license ow) s (trust_keys (ow_license ow) (ow_extra_key ow)) = Inr d"
    and h': "h' = fst (append_note ow ''license'' (license_note ow d) (h\<lparr>of_license := LicenseText s\<rparr>))"
    using i by (auto simp: license_install_def split: option.splits sum.splits if_splits)
  have "load_installed (re_license env) (re_extra_key env) (hf_license f) = Inr (Some d)"
    using s(2) by (simp add: assms(5,8,9) h' load_installed_def)
  from refresh_license[OF assms(2,3) _ this] show ?thesis
    using s by (simp add: LicenseInstall engine_tier_def current_tier_def)
next
  case TripClear
  show ?thesis using trip_clear_effect[OF assms(1)[unfolded TripClear] assms(2,3,6,7)] by (simp add: TripClear)
qed simp_all

text \<open>A proxy that has seen a trip, and its clearing.\<close>

definition demo_trip :: trip where
  "demo_trip = \<lparr>t_ts = [], t_kind = ''repeat'', t_reason = ''loop'', t_fingerprint = [], t_count = 15, t_window_secs = 300, t_sid = []\<rparr>"

definition tripped_runtime :: runtime where
  "tripped_runtime = demo_runtime\<lparr>rt_reload := (rt_reload demo_runtime)\<lparr>rs_trip := Some 1\<rparr>,
     rt_engine := (rt_engine demo_runtime)\<lparr>eg_trip_file := NoTripFile, eg_watch := watch_new 0 (Some demo_trip)\<rparr>\<rparr>"

definition trip_files :: operator_files where
  "trip_files = \<lparr>of_budget = NoBudgetFile, of_plan = NoPlan, of_trip = SavedTrip demo_trip, of_license = NoLicense,
     of_audit = \<lparr>dk_log = None, dk_head = None\<rparr>\<rparr>"

definition trip_operator :: operator_world where
  "trip_operator = \<lparr>ow_saves = True, ow_removes = True, ow_usage = Inr NoMeterFile, ow_period = [], ow_mode = None, ow_crypto = demo_crypto,
     ow_codec = demo_codec, ow_pid = 1, ow_ts = [], ow_license = re_license demo_reload_env, ow_extra_key = re_extra_key demo_reload_env,
     ow_date = (\<lambda>d. []), ow_date_max = 0, ow_today = 0\<rparr>"

lemma append_note_fresh: "dk_log (of_audit h) = None \<Longrightarrow> \<exists>h'. append_note w a n h = (h', None)"
  by (simp add: append_note_def auditor_open_def recover_tail_def append_event_def resync_def log_len_def Let_def)

theorem operator_takes_effect_witness:
  "\<exists>h' out f' r'. operator_cmd trip_operator (\<lambda>er. []) TripClear trip_files = (h', Inr out)
     \<and> refresh (demo_world (SendFailed [])) demo_reload_env (demo_files (Some 1) (Inr \<lparr>secrets = []\<rparr>) ''a'') tripped_runtime = (f', r')
     \<and> w_tripped (eg_watch (rt_engine tripped_runtime)) = Some demo_trip \<and> w_tripped (eg_watch (rt_engine r')) = None"
proof -
  let ?f = "demo_files (Some 1) (Inr \<lparr>secrets = []\<rparr>) ''a''" and ?et = "\<lambda>er. [] :: string"
  let ?h1 = "trip_files\<lparr>of_trip := NoTripFile\<rparr>"
  obtain h' where n: "append_note trip_operator ''trip'' ''spend tripwire cleared by operator'' ?h1 = (h', None)"
    using append_note_fresh[of ?h1 trip_operator "''trip''" "''spend tripwire cleared by operator''"] by (auto simp: trip_files_def)
  have h: "of_budget h' = NoBudgetFile" "of_license h' = NoLicense" "of_trip h' = NoTripFile"
    using append_note_files[of trip_operator "''trip''" "''spend tripwire cleared by operator''" ?h1] unfolding n by (simp_all add: trip_files_def)
  have t: "load_trip (of_trip trip_files) \<noteq> None" "ow_removes trip_operator" by (simp_all add: trip_files_def load_trip_def trip_operator_def)
  obtain out where c: "operator_cmd trip_operator ?et TripClear trip_files = (h', Inr out)"
    using n t by (auto simp: operator_cmd_def trip_clear_def clear_trip_def)
  obtain f' r' where r: "refresh (demo_world (SendFailed [])) demo_reload_env ?f tripped_runtime = (f', r')" by fastforce
  have f: "hf_paths ?f" "hf_budget ?f = of_budget h'" "hf_license ?f = of_license h'" "hf_trip_mtime ?f = None \<longleftrightarrow> of_trip h' = NoTripFile"
    unfolding h by (simp_all add: demo_files_def)
  have g: "eg_trip_file (rt_engine tripped_runtime) = of_trip h'" "rs_trip (rt_reload tripped_runtime) = Some 1"
    unfolding h by (simp_all add: tripped_runtime_def)
  have e: "re_license demo_reload_env = ow_license trip_operator" "re_extra_key demo_reload_env = ow_extra_key trip_operator"
    by (simp_all add: trip_operator_def)
  have "w_tripped (eg_watch (rt_engine r')) = None"
    using operator_takes_effect[OF c r f(1-3) g(1) f(4) e] unfolding operator_command.case g(2) by simp
  moreover have "w_tripped (eg_watch (rt_engine tripped_runtime)) = Some demo_trip" by (simp add: tripped_runtime_def watch_new_def)
  ultimately show ?thesis using c r by blast
qed

end
