(* ===== verification/Cert_Authority.thy ===== *)
theory Cert_Authority
  imports Text_Ops Audit_Log
begin

text \<open>
  \<^verbatim>\<open>src/src/ca.rs\<close>: the root authority of the device, kept in two files, and the leaf certificates it mints and caches per host.
  Certificates and keys are those of a third-party library: the parameters in \<open>x509\<close>. Creating the root writes the certificate
  and then the key; a start is a sequence of steps, so that several starts can interleave and one can be interrupted.
\<close>

section \<open>Certificates\<close>

definition LEAF_VALID_DAYS :: int where "LEAF_VALID_DAYS = 397"
definition CA_VALID_DAYS :: int where "CA_VALID_DAYS = 3650"
definition CLOCK_SKEW :: int where "CLOCK_SKEW = 3600"
definition DAY :: int where "DAY = 86400"

record cert_params =
  cp_is_ca :: bool
  cp_usages :: "string list"
  cp_common_name :: string
  cp_organization :: "string option"
  cp_dns_names :: "string list"
  cp_not_before :: int
  cp_not_after :: int

text \<open>The library: which host names it accepts, keys and certificates with their PEM forms, and signing (parameters, subject key,
  issuer certificate, issuer key).\<close>

record ('c, 'k) x509 =
  xo_dns_name :: "string \<Rightarrow> bool"
  xo_key_pem :: "'k \<Rightarrow> string"
  xo_key_from_pem :: "string \<Rightarrow> 'k option"
  xo_cert_pem :: "'c \<Rightarrow> string"
  xo_params_from_pem :: "string \<Rightarrow> cert_params option"
  xo_self_signed :: "cert_params \<Rightarrow> 'k \<Rightarrow> 'c option"
  xo_signed_by :: "cert_params \<Rightarrow> 'k \<Rightarrow> 'c \<Rightarrow> 'k \<Rightarrow> 'c option"

definition root_params :: "int \<Rightarrow> cert_params" where
  "root_params now = \<lparr>cp_is_ca = True, cp_usages = [''KeyCertSign'', ''CrlSign'', ''DigitalSignature''],
     cp_common_name = ''Decoyrail Device CA'', cp_organization = Some ''Decoyrail'', cp_dns_names = [],
     cp_not_before = now - CLOCK_SKEW, cp_not_after = now + CA_VALID_DAYS * DAY\<rparr>"

definition leaf_params :: "string \<Rightarrow> int \<Rightarrow> cert_params" where
  "leaf_params host now = \<lparr>cp_is_ca = False, cp_usages = [], cp_common_name = host, cp_organization = None,
     cp_dns_names = [host], cp_not_before = now - CLOCK_SKEW, cp_not_after = now + LEAF_VALID_DAYS * DAY\<rparr>"

section \<open>The root\<close>

record ca_disk =
  cd_cert :: "string option"
  cd_key :: "string option"

record ('c, 'k) cert_authority =
  ca_cert :: 'c
  ca_key :: 'k
  ca_cert_pem :: string
  ca_cache :: "string \<rightharpoonup> 'c list \<times> 'k"

datatype ca_error = CaWriteFailed | CaReadFailed | CaKeyGarbled | CaCertGarbled | CaSignFailed | BadHostName

text \<open>\<open>generate_root\<close>: the disks it goes through, and how it ends. \<open>k\<close> is the fresh key, the flags say whether the writes succeed.\<close>

definition generate_root :: "('c, 'k) x509 \<Rightarrow> 'k \<Rightarrow> int \<Rightarrow> bool \<Rightarrow> bool \<Rightarrow> ca_disk \<Rightarrow> ca_disk list \<times> (ca_error + unit)" where
  "generate_root xo k now wcert wkey d = (case xo_self_signed xo (root_params now) k of
     None \<Rightarrow> ([], Inl CaSignFailed)
   | Some c \<Rightarrow>
       if \<not> wcert then ([], Inl CaWriteFailed)
       else (let d1 = d\<lparr>cd_cert := Some (xo_cert_pem xo c)\<rparr> in
         if \<not> wkey then ([d1], Inl CaWriteFailed) else ([d1, d1\<lparr>cd_key := Some (xo_key_pem xo k)\<rparr>], Inr ())))"

definition load_root :: "('c, 'k) x509 \<Rightarrow> ca_disk \<Rightarrow> ca_error + ('c, 'k) cert_authority" where
  "load_root xo d = (case (cd_cert d, cd_key d) of
     (Some pem, Some key_pem) \<Rightarrow>
       (case xo_key_from_pem xo key_pem of None \<Rightarrow> Inl CaKeyGarbled | Some k \<Rightarrow>
       (case xo_params_from_pem xo pem of None \<Rightarrow> Inl CaCertGarbled | Some ps \<Rightarrow>
       (case xo_self_signed xo ps k of None \<Rightarrow> Inl CaSignFailed
        | Some c \<Rightarrow> Inr \<lparr>ca_cert = c, ca_key = k, ca_cert_pem = pem, ca_cache = Map.empty\<rparr>)))
   | _ \<Rightarrow> Inl CaReadFailed)"

definition load_or_create_ca :: "('c, 'k) x509 \<Rightarrow> 'k \<Rightarrow> int \<Rightarrow> bool \<Rightarrow> bool \<Rightarrow> ca_disk \<Rightarrow> ca_disk list \<times> (ca_error + ('c, 'k) cert_authority)" where
  "load_or_create_ca xo k now wcert wkey d =
     (if cd_cert d = None \<or> cd_key d = None then
        (case generate_root xo k now wcert wkey d of
           (tr, Inl er) \<Rightarrow> (tr, Inl er)
         | (tr, Inr _) \<Rightarrow> (tr, load_root xo (last (d # tr))))
      else ([], load_root xo d))"

section \<open>Leaves\<close>

text \<open>\<open>leaf_for\<close>: the new authority and the chain with its key. \<open>k\<close> is the fresh leaf key; \<open>host.try_into\<close> and the parameters refuse
  some host names.\<close>

definition leaf_for :: "('c, 'k) x509 \<Rightarrow> string \<Rightarrow> 'k \<Rightarrow> int \<Rightarrow> ('c, 'k) cert_authority \<Rightarrow> ('c, 'k) cert_authority \<times> (ca_error + 'c list \<times> 'k)" where
  "leaf_for xo host k now a = (case ca_cache a host of
     Some hit \<Rightarrow> (a, Inr hit)
   | None \<Rightarrow>
       if \<not> xo_dns_name xo host then (a, Inl BadHostName)
       else (case xo_signed_by xo (leaf_params host now) k (ca_cert a) (ca_key a) of
          None \<Rightarrow> (a, Inl CaSignFailed)
        | Some leaf \<Rightarrow> (let hit = ([leaf, ca_cert a], k) in (a\<lparr>ca_cache := (ca_cache a)(host \<mapsto> hit)\<rparr>, Inr hit))))"

section \<open>The fingerprint\<close>

definition pem_body_to_der :: "(string \<Rightarrow> bytes option) \<Rightarrow> string \<Rightarrow> bytes option" where
  "pem_body_to_der b64 pem = b64 (concat (map str_trim (filter (\<lambda>l. \<not> starts_with l ''-----'') (file_lines pem))))"

definition root_sha1_fingerprint :: "(string \<Rightarrow> bytes option) \<Rightarrow> (bytes \<Rightarrow> string) \<Rightarrow> ca_disk \<Rightarrow> string option option" where
  "root_sha1_fingerprint b64 sha1_hex d = (case cd_cert d of
     None \<Rightarrow> Some None
   | Some pem \<Rightarrow> map_option (\<lambda>der. Some (sha1_hex der)) (pem_body_to_der b64 pem))"

section \<open>What the authority guarantees\<close>

text \<open>When a certificate is one the root signed for a host at a time.\<close>

definition minted :: "('c, 'k) x509 \<Rightarrow> ('c, 'k) cert_authority \<Rightarrow> string \<Rightarrow> int \<Rightarrow> 'c list \<times> 'k \<Rightarrow> bool" where
  "minted xo a host t hit \<longleftrightarrow> xo_dns_name xo host \<and> (\<exists>leaf. fst hit = [leaf, ca_cert a]
     \<and> xo_signed_by xo (leaf_params host t) (snd hit) (ca_cert a) (ca_key a) = Some leaf)"

text \<open>Runs of \<open>leaf_for\<close>: host, fresh key and time of each connection.\<close>

fun leaf_run :: "('c, 'k) x509 \<Rightarrow> (string \<times> 'k \<times> int) list \<Rightarrow> ('c, 'k) cert_authority \<Rightarrow> (ca_error + 'c list \<times> 'k) list" where
  "leaf_run xo [] a = []"
| "leaf_run xo ((host, k, now) # cs) a = (case leaf_for xo host k now a of (a', r) \<Rightarrow> r # leaf_run xo cs a')"

definition cache_minted :: "('c, 'k) x509 \<Rightarrow> ('c, 'k) cert_authority \<Rightarrow> (string \<times> int) set \<Rightarrow> bool" where
  "cache_minted xo a seen \<longleftrightarrow> (\<forall>host hit. ca_cache a host = Some hit \<longrightarrow> (\<exists>t. (host, t) \<in> seen \<and> minted xo a host t hit))"

lemma leaf_for_hit: "ca_cache a host = Some hit \<Longrightarrow> leaf_for xo host k now a = (a, Inr hit)"
  by (simp add: leaf_for_def)

lemma leaf_for_miss:
  assumes "ca_cache a host = None" "leaf_for xo host k now a = (a', r)"
  shows "(\<exists>er. r = Inl er \<and> a' = a) \<or> (\<exists>hit. r = Inr hit \<and> minted xo a host now hit \<and> a' = a\<lparr>ca_cache := (ca_cache a)(host \<mapsto> hit)\<rparr>)"
  using assms by (auto simp: leaf_for_def minted_def Let_def split: option.splits if_splits)

lemma minted_cache [simp]: "minted xo (a\<lparr>ca_cache := m\<rparr>) host t hit = minted xo a host t hit"
  by (simp add: minted_def)

lemma leaf_run_minted:
  assumes "cache_minted xo a seen" "i < length cs" "cs ! i = (host, k, now)" "leaf_run xo cs a ! i = Inr hit"
  shows "\<exists>t. minted xo a host t hit \<and> ((host, t) \<in> seen \<or> (\<exists>j\<le>i. fst (cs ! j) = host \<and> snd (snd (cs ! j)) = t))"
  using assms
proof (induction cs arbitrary: a i seen)
  case (Cons c cs)
  obtain h0 k0 t0 where c: "c = (h0, k0, t0)" by (metis prod_cases3)
  obtain a' r where l: "leaf_for xo h0 k0 t0 a = (a', r)" by fastforce
  have run: "leaf_run xo (c # cs) a = r # leaf_run xo cs a'" by (simp add: c l)
  have step: "cache_minted xo a' (insert (h0, t0) seen) \<and> (\<forall>h t x. minted xo a' h t x = minted xo a h t x)
      \<and> (\<forall>x. r = Inr x \<longrightarrow> (\<exists>t. minted xo a h0 t x \<and> (h0, t) \<in> insert (h0, t0) seen))"
  proof (cases "ca_cache a h0")
    case (Some hit0)
    have q: "a' = a" "r = Inr hit0" using l leaf_for_hit[OF Some, of xo k0 t0] by simp_all
    have m: "\<exists>t. (h, t) \<in> seen \<and> minted xo a h t x" if "ca_cache a h = Some x" for h x
      using Cons.prems(1) that unfolding cache_minted_def by blast
    have "cache_minted xo a (insert (h0, t0) seen)" using m unfolding cache_minted_def by blast
    moreover have "\<exists>t. minted xo a h0 t hit0 \<and> (h0, t) \<in> insert (h0, t0) seen" using m[OF Some] by blast
    ultimately show ?thesis unfolding q by simp
  next
    case None
    from leaf_for_miss[OF None l] show ?thesis
    proof (elim disjE exE conjE)
      fix er assume q: "r = Inl er" "a' = a"
      have "cache_minted xo a (insert (h0, t0) seen)" using Cons.prems(1) unfolding cache_minted_def by blast
      then show ?thesis unfolding q by simp
    next
      fix x assume x: "r = Inr x" "minted xo a h0 t0 x" "a' = a\<lparr>ca_cache := (ca_cache a)(h0 \<mapsto> x)\<rparr>"
      have "\<exists>t. (h, t) \<in> insert (h0, t0) seen \<and> minted xo a h t y" if "(if h = h0 then Some x else ca_cache a h) = Some y" for h y
      proof (cases "h = h0")
        case True
        then show ?thesis using x(2) that by auto
      next
        case False
        then have "ca_cache a h = Some y" using that by simp
        then show ?thesis using Cons.prems(1) unfolding cache_minted_def by blast
      qed
      then have "cache_minted xo a' (insert (h0, t0) seen)" unfolding cache_minted_def x(3) by (simp add: fun_upd_def)
      then show ?thesis using x by simp blast
    qed
  qed
  show ?case
  proof (cases i)
    case 0
    then have "r = Inr hit" "h0 = host" using Cons.prems(3,4) run c by auto
    with step obtain t where t: "minted xo a host t hit" "(host, t) \<in> insert (host, t0) seen" by blast
    then have "(host, t) \<in> seen \<or> fst ((c # cs) ! 0) = host \<and> snd (snd ((c # cs) ! 0)) = t" using c \<open>h0 = host\<close> by auto
    then show ?thesis using t(1) 0 by blast
  next
    case (Suc n)
    have "n < length cs" "cs ! n = (host, k, now)" "leaf_run xo cs a' ! n = Inr hit" using Cons.prems(2-4) Suc run by auto
    from Cons.IH[OF conjunct1[OF step] this] obtain t where
      t: "minted xo a' host t hit" "(host, t) \<in> insert (h0, t0) seen \<or> (\<exists>j\<le>n. fst (cs ! j) = host \<and> snd (snd (cs ! j)) = t)" by blast
    have "(host, t) \<in> seen \<or> (\<exists>j\<le>i. fst ((c # cs) ! j) = host \<and> snd (snd ((c # cs) ! j)) = t)"
    proof -
      consider "host = h0" "t = t0" | "(host, t) \<in> seen" | j where "j \<le> n" "fst (cs ! j) = host" "snd (snd (cs ! j)) = t" using t(2) by blast
      then show ?thesis
      proof cases
        case 1 then have "fst ((c # cs) ! 0) = host \<and> snd (snd ((c # cs) ! 0)) = t" using c by simp
        then show ?thesis by blast
      next
        case 3 then have "Suc j \<le> i \<and> fst ((c # cs) ! Suc j) = host \<and> snd (snd ((c # cs) ! Suc j)) = t" using Suc by simp
        then show ?thesis by blast
      qed blast
    qed
    then show ?thesis using t(1) step by blast
  qed
qed simp

text \<open>A root that was created is the one that every later start loads, without writing anything.\<close>

lemma root_survives_restart:
  assumes "load_or_create_ca xo k now wc wk d = (tr, Inr a)"
  shows "load_or_create_ca xo k' now' wc' wk' (last (d # tr)) = ([], Inr a)"
proof (cases "cd_cert d = None \<or> cd_key d = None")
  case True
  then obtain c where c: "xo_self_signed xo (root_params now) k = Some c" "wc" "wk" and
    tr: "last (d # tr) = \<lparr>cd_cert = Some (xo_cert_pem xo c), cd_key = Some (xo_key_pem xo k)\<rparr>" and l: "load_root xo (last (d # tr)) = Inr a"
    using assms by (cases d) (auto simp: load_or_create_ca_def generate_root_def Let_def split: option.splits if_splits)
  show ?thesis using tr l by (simp add: load_or_create_ca_def)
next
  case False
  then have "tr = []" "load_root xo d = Inr a" using assms by (auto simp: load_or_create_ca_def)
  then show ?thesis using False by (auto simp: load_or_create_ca_def)
qed

text \<open>C30: a connection to a host gets that host's certificate. From a start on, through any connections in any order with failures in
  between, the chain served for a host is a leaf for that name alone, not an authority, signed with the root's key at the time of the
  same or an earlier connection to that host, followed by the root's certificate, and its validity, with the allowance for clock skew,
  begins before that time and is shorter than the 398 days that clients accept.\<close>

theorem leaf_is_for_host:
  assumes "load_or_create_ca xo rk start wc wk d = (tr, Inr a)" "i < length cs" "cs ! i = (host, k, now)" "leaf_run xo cs a ! i = Inr (chain, key)"
  shows "\<exists>leaf j. j \<le> i \<and> fst (cs ! j) = host \<and> chain = [leaf, ca_cert a]
      \<and> (let ps = leaf_params host (snd (snd (cs ! j))) in xo_signed_by xo ps key (ca_cert a) (ca_key a) = Some leaf
          \<and> cp_dns_names ps = [host] \<and> \<not> cp_is_ca ps
          \<and> cp_not_before ps < snd (snd (cs ! j)) \<and> cp_not_after ps - cp_not_before ps < 398 * DAY)"
proof -
  have "ca_cache a = Map.empty"
    using assms(1) by (auto simp: load_or_create_ca_def load_root_def split: if_splits prod.splits sum.splits option.splits)
  then have "cache_minted xo a {}" by (simp add: cache_minted_def)
  from leaf_run_minted[OF this assms(2-4)] obtain t j where t: "minted xo a host t (chain, key)" "j \<le> i" "fst (cs ! j) = host" "snd (snd (cs ! j)) = t"
    by blast
  then show ?thesis
    by (auto simp: minted_def Let_def leaf_params_def CLOCK_SKEW_def LEAF_VALID_DAYS_def DAY_def)
qed

text \<open>A library whose certificates are their parameters and keys are numbers, and two connections to one host.\<close>

definition demo_x509 :: "(cert_params \<times> nat, nat) x509" where
  "demo_x509 = \<lparr>xo_dns_name = (\<lambda>h. h \<noteq> []), xo_key_pem = (\<lambda>k. replicate k CHR ''k''), xo_key_from_pem = (\<lambda>s. Some (length s)),
     xo_cert_pem = (\<lambda>c. cp_common_name (fst c)), xo_params_from_pem = (\<lambda>s. Some (root_params 0)),
     xo_self_signed = (\<lambda>ps k. Some (ps, k)), xo_signed_by = (\<lambda>ps k c ck. Some (ps, ck))\<rparr>"

theorem leaf_is_for_host_witness:
  "\<exists>tr a chain key. load_or_create_ca demo_x509 3 0 True True \<lparr>cd_cert = None, cd_key = None\<rparr> = (tr, Inr a)
     \<and> leaf_run demo_x509 [(''a.test'', 1, 5), (''a.test'', 2, 9)] a ! 1 = Inr (chain, key)
     \<and> (\<exists>leaf j. j \<le> 1 \<and> chain = [leaf, ca_cert a]
         \<and> xo_signed_by demo_x509 (leaf_params ''a.test'' (snd (snd ([(''a.test'', 1::nat, 5), (''a.test'', 2, 9)] ! j)))) key (ca_cert a) (ca_key a) = Some leaf)"
proof -
  let ?cs = "[(''a.test'', 1::nat, 5), (''a.test'', 2, 9)] :: (string \<times> nat \<times> int) list"
  obtain tr a where a: "load_or_create_ca demo_x509 3 0 True True \<lparr>cd_cert = None, cd_key = None\<rparr> = (tr, Inr a)"
    and e: "ca_cache a = Map.empty"
    by (simp add: load_or_create_ca_def generate_root_def load_root_def demo_x509_def Let_def)
  obtain chain key where r: "leaf_run demo_x509 ?cs a ! 1 = Inr (chain, key)"
    using e by (simp add: leaf_for_def demo_x509_def Let_def)
  have i: "1 < length ?cs" "?cs ! 1 = (''a.test'', 2, 9)" by simp_all
  from leaf_is_for_host[OF a i r] show ?thesis using a r unfolding Let_def by blast
qed

end
