(* ===== verification/Uninstall.thy ===== *)
theory Uninstall
  imports Cert_Authority
begin

text \<open>
  \<open>decoyrail ca uninstall\<close> and \<open>decoyrail uninstall\<close> (\<^verbatim>\<open>src/src/main.rs\<close>): taking the root out of the login keychain by its
  fingerprint, then the key item, then the home directory. The keychain tool of macOS is a parameter: a state and what its calls
  print and do to it. A call that could be run at all has an exit status; of the listing the code reads only the output.
\<close>

section \<open>The machine\<close>

record 's security_tool =
  st_find :: "'s \<Rightarrow> (bool \<times> bytes) option"
  st_delete :: "bool \<Rightarrow> string \<Rightarrow> 's \<Rightarrow> 's \<times> bool option"

record 's machine =
  mc_home :: bool
  mc_ca :: ca_disk
  mc_keychain :: 's
  mc_item :: bool

text \<open>The platform, the decoders behind the fingerprint, the answer to the question, whether the paths of the keychain and of the home
  can be found, how deleting the key item ends (with an error, or done), and what a failed removal of the home leaves of its files.\<close>

record 's uninstall_env =
  un_macos :: bool
  un_tool :: "'s security_tool"
  un_b64 :: "string \<Rightarrow> bytes option"
  un_sha1_hex :: "bytes \<Rightarrow> string"
  un_confirm :: "bool option"
  un_keychain_path :: bool
  un_default_home :: bool
  un_canonical :: bool
  un_item_deleted :: bool
  un_removes :: "ca_disk option"

datatype uninstall_error = NotAnswered | NoFingerprint | NoKeychainPath | ToolFailed | RemovalFailed | NoCanonicalHome | HomeNotRemoved

datatype ca_removal = NoMaterial | NotInstalled string | RemovedCopies string nat | ByHand string

text \<open>At most \<open>n\<close> deletions, each tried with and then without the trust settings. The result is how many were made.\<close>

fun remove_copies :: "'s security_tool \<Rightarrow> string \<Rightarrow> nat \<Rightarrow> 's \<Rightarrow> 's \<times> (uninstall_error + nat)" where
  "remove_copies st fp 0 k = (k, Inr 0)"
| "remove_copies st fp (Suc n) k = (case st_find st k of
     None \<Rightarrow> (k, Inl ToolFailed)
   | Some (_, out) \<Rightarrow>
       if \<not> str_contains (utf8_lossy out) fp then (k, Inr 0)
       else (case st_delete st True fp k of
          (k1, None) \<Rightarrow> (k1, Inl ToolFailed)
        | (k1, Some True) \<Rightarrow> (case remove_copies st fp n k1 of (k2, Inl er) \<Rightarrow> (k2, Inl er) | (k2, Inr m) \<Rightarrow> (k2, Inr (Suc m)))
        | (k1, Some False) \<Rightarrow> (case st_delete st False fp k1 of
             (k2, None) \<Rightarrow> (k2, Inl ToolFailed)
           | (k2, Some False) \<Rightarrow> (k2, Inl RemovalFailed)
           | (k2, Some True) \<Rightarrow> (case remove_copies st fp n k2 of (k3, Inl er) \<Rightarrow> (k3, Inl er) | (k3, Inr m) \<Rightarrow> (k3, Inr (Suc m))))))"

definition ca_uninstall :: "'s uninstall_env \<Rightarrow> 's machine \<Rightarrow> 's machine \<times> (uninstall_error + ca_removal)" where
  "ca_uninstall u m = (case root_sha1_fingerprint (un_b64 u) (un_sha1_hex u) (mc_ca m) of
     None \<Rightarrow> (m, Inl NoFingerprint)
   | Some None \<Rightarrow> (m, Inr NoMaterial)
   | Some (Some fp) \<Rightarrow>
       if \<not> un_macos u then (m, Inr (ByHand fp))
       else if \<not> un_keychain_path u then (m, Inl NoKeychainPath)
       else (case remove_copies (un_tool u) fp 8 (mc_keychain m) of
          (k, Inl er) \<Rightarrow> (m\<lparr>mc_keychain := k\<rparr>, Inl er)
        | (k, Inr n) \<Rightarrow> (m\<lparr>mc_keychain := k\<rparr>, Inr (if n > 0 then RemovedCopies fp n else NotInstalled fp))))"

definition no_ca :: ca_disk where
  "no_ca = \<lparr>cd_cert = None, cd_key = None\<rparr>"

text \<open>Removing the key item: failing is a warning.\<close>

definition remove_item :: "'s uninstall_env \<Rightarrow> 's machine \<Rightarrow> 's machine \<times> (uninstall_error + unit)" where
  "remove_item u m =
     (if un_macos u \<and> un_default_home u \<and> mc_home m then
        (if \<not> un_canonical u then (m, Inl NoCanonicalHome)
         else (if un_item_deleted u then m\<lparr>mc_item := False\<rparr> else m, Inr ()))
      else (m, Inr ()))"

definition remove_home :: "'s uninstall_env \<Rightarrow> 's machine \<Rightarrow> 's machine \<times> (uninstall_error + unit)" where
  "remove_home u m =
     (if \<not> mc_home m then (m, Inr ())
      else case un_removes u of
        None \<Rightarrow> (m\<lparr>mc_home := False, mc_ca := no_ca\<rparr>, Inr ())
      | Some left \<Rightarrow> (m\<lparr>mc_ca := left\<rparr>, Inl HomeNotRemoved))"

text \<open>The result of a run that did anything is what became of the root.\<close>

definition uninstall_cmd :: "'s uninstall_env \<Rightarrow> 's machine \<Rightarrow> 's machine \<times> (uninstall_error + ca_removal option)" where
  "uninstall_cmd u m = (case un_confirm u of
     None \<Rightarrow> (m, Inl NotAnswered)
   | Some False \<Rightarrow> (m, Inr None)
   | Some True \<Rightarrow>
       (case ca_uninstall u m of
          (m1, Inl er) \<Rightarrow> (m1, Inl er)
        | (m1, Inr ca) \<Rightarrow>
            (case remove_item u m1 of
               (m2, Inl er) \<Rightarrow> (m2, Inl er)
             | (m2, Inr _) \<Rightarrow> (case remove_home u m2 of (m3, Inl er) \<Rightarrow> (m3, Inl er) | (m3, Inr _) \<Rightarrow> (m3, Inr (Some ca))))))"

section \<open>The root goes first\<close>

text \<open>What the tool promises about one fingerprint, in terms of how many certificates with a fingerprint the keychain holds:
  a listing that succeeds shows a fingerprint that is there and no other; on an unlocked keychain a listing that was run succeeds, and deleting
  does not lock it; a deletion that succeeds takes one or more certificates with that fingerprint away, and no deletion touches another
  fingerprint or adds anything. Nothing is assumed of the output of a listing that fails.\<close>

definition security_ok :: "'s security_tool \<Rightarrow> ('s \<Rightarrow> bool) \<Rightarrow> ('s \<Rightarrow> string \<Rightarrow> nat) \<Rightarrow> string \<Rightarrow> bool" where
  "security_ok st unlocked copies fp \<longleftrightarrow>
     (\<forall>k out. st_find st k = Some (True, out) \<longrightarrow> (str_contains (utf8_lossy out) fp \<longleftrightarrow> copies k fp > 0))
   \<and> (\<forall>k ok out. unlocked k \<and> st_find st k = Some (ok, out) \<longrightarrow> ok)
   \<and> (\<forall>t k k' r. st_delete st t fp k = (k', r) \<longrightarrow> (\<forall>fp'. fp' \<noteq> fp \<longrightarrow> copies k' fp' = copies k fp')
        \<and> copies k' fp \<le> copies k fp \<and> (r = Some True \<longrightarrow> copies k' fp < copies k fp) \<and> (unlocked k \<longrightarrow> unlocked k'))"

lemma security_found:
  assumes "security_ok st unlocked copies fp" "unlocked k" "st_find st k = Some (ok, out)"
  shows "str_contains (utf8_lossy out) fp \<longleftrightarrow> copies k fp > 0"
proof -
  have ok using assms unfolding security_ok_def by blast
  then have "st_find st k = Some (True, out)" using assms(3) by simp
  then show ?thesis using assms(1) unfolding security_ok_def by blast
qed

lemma security_deleted:
  assumes "security_ok st unlocked copies fp" "st_delete st t fp k = (k', r)"
  shows "fp' \<noteq> fp \<Longrightarrow> copies k' fp' = copies k fp'" "copies k' fp \<le> copies k fp" "r = Some True \<Longrightarrow> copies k' fp < copies k fp"
    "unlocked k \<Longrightarrow> unlocked k'"
  using assms unfolding security_ok_def by blast+

lemma remove_copies_effect:
  assumes "security_ok st unlocked copies fp" "remove_copies st fp n k = (k', r)" "unlocked k"
  shows "(fp' \<noteq> fp \<longrightarrow> copies k' fp' = copies k fp') \<and> copies k' fp \<le> copies k fp
    \<and> (\<forall>m. r = Inr m \<longrightarrow> copies k' fp = 0 \<or> m = n \<and> copies k' fp + n \<le> copies k fp)"
  using assms(2,3)
proof (induction n arbitrary: k k' r)
  case (Suc n)
  obtain ok out where f: "st_find st k = Some (ok, out) \<or> st_find st k = None \<and> k' = k \<and> r = Inl ToolFailed"
    using Suc.prems(1) by (cases "st_find st k") auto
  show ?case
  proof (cases "st_find st k = None \<or> copies k fp = 0")
    case True
    then have "k' = k \<and> (r = Inl ToolFailed \<or> copies k fp = 0)"
      using Suc.prems(1) f security_found[OF assms(1) Suc.prems(2)] by (auto split: option.splits if_splits)
    then show ?thesis by auto
  next
    case False
    then obtain ok out where o: "st_find st k = Some (ok, out)" "str_contains (utf8_lossy out) fp"
      using security_found[OF assms(1) Suc.prems(2)] by auto
    have rec: ?thesis if d: "unlocked k1" "copies k1 fp < copies k fp" "fp' \<noteq> fp \<Longrightarrow> copies k1 fp' = copies k fp'"
        and c: "(case remove_copies st fp n k1 of (k2, Inl er) \<Rightarrow> (k2, Inl er) | (k2, Inr m) \<Rightarrow> (k2, Inr (Suc m))) = (k', r)" for k1
    proof -
      obtain k2 r2 where k2: "remove_copies st fp n k1 = (k2, r2)" by fastforce
      have "k' = k2" "\<And>m. r = Inr m \<Longrightarrow> \<exists>m'. r2 = Inr m' \<and> m = Suc m'" using c k2 by (cases r2; auto)+
      then show ?thesis using Suc.IH[OF k2 d(1)] d by fastforce
    qed
    obtain k1 d1 where d1: "st_delete st True fp k = (k1, d1)" by fastforce
    note e1 = security_deleted[OF assms(1) d1]
    consider "d1 = None" | "d1 = Some True" | "d1 = Some False" by (cases d1) auto
    then show ?thesis
    proof cases
      case 1
      then show ?thesis using Suc.prems(1) o d1 e1 by auto
    next
      case 2
      then show ?thesis using Suc.prems o d1 e1 by (intro rec[of k1]) auto
    next
      case 3
      obtain k2 d2 where d2: "st_delete st False fp k1 = (k2, d2)" by fastforce
      note e2 = security_deleted[OF assms(1) d2]
      show ?thesis
      proof (cases "d2 = Some True")
        case True
        then show ?thesis using Suc.prems o d1 d2 e1 e2 3 by (intro rec[of k2]) auto
      next
        case False
        then have "k' = k2" "\<exists>er. r = Inl er" using Suc.prems(1) o d1 d2 3 by (auto split: option.splits bool.splits)
        then show ?thesis using e1 e2 by fastforce
      qed
    qed
  qed
qed auto

lemma ca_uninstall_effect:
  assumes "security_ok (un_tool u) unlocked copies fp" "root_sha1_fingerprint (un_b64 u) (un_sha1_hex u) (mc_ca m) = Some (Some fp)" "un_macos u"
    and "copies (mc_keychain m) fp \<le> 8" "ca_uninstall u m = (m1, r)" "unlocked (mc_keychain m)"
  shows "m1 = m\<lparr>mc_keychain := mc_keychain m1\<rparr>" "fp' \<noteq> fp \<Longrightarrow> copies (mc_keychain m1) fp' = copies (mc_keychain m) fp'"
    "r = Inr ca \<Longrightarrow> copies (mc_keychain m1) fp = 0"
proof -
  obtain k q where k: "remove_copies (un_tool u) fp 8 (mc_keychain m) = (k, q)" by fastforce
  note e = remove_copies_effect[OF assms(1) k assms(6)]
  have c: "m1 = m \<and> r = Inl NoKeychainPath \<or> m1 = m\<lparr>mc_keychain := k\<rparr> \<and> (\<forall>x. r = Inr x \<longrightarrow> (\<exists>n. q = Inr n))"
    using assms(3,5) k by (auto simp: ca_uninstall_def assms(2) split: if_splits sum.splits)
  then consider "m1 = m" "r = Inl NoKeychainPath" | "m1 = m\<lparr>mc_keychain := k\<rparr>" by blast
  note cs = this
  show "m1 = m\<lparr>mc_keychain := mc_keychain m1\<rparr>" by (cases rule: cs) simp_all
  show "copies (mc_keychain m1) fp' = copies (mc_keychain m) fp'" if "fp' \<noteq> fp"
    using e[of fp'] that by (cases rule: cs) simp_all
  show "copies (mc_keychain m1) fp = 0" if x: "r = Inr ca"
  proof -
    obtain n where n: "q = Inr n" "m1 = m\<lparr>mc_keychain := k\<rparr>" using c x by auto
    then have "copies k fp = 0 \<or> n = 8 \<and> copies k fp + 8 \<le> copies (mc_keychain m) fp" using e[of fp] by blast
    then show ?thesis using assms(4) n(2) by auto
  qed
qed

lemma after_ca:
  assumes "un_confirm u = Some True" "ca_uninstall u m = (m1, Inr ca)" "uninstall_cmd u m = (m', r)"
  shows "mc_keychain m' = mc_keychain m1" "r = Inr (Some x) \<Longrightarrow> \<not> mc_home m' \<and> (mc_home m1 \<longrightarrow> mc_ca m' = no_ca)"
  using assms
  by (auto simp: uninstall_cmd_def remove_item_def remove_home_def split: prod.splits sum.splits if_splits option.splits)

lemma uninstall_repeats:
  assumes "un_confirm u = Some True" "\<not> mc_home m" "mc_ca m = no_ca"
  shows "uninstall_cmd u m = (m, Inr (Some NoMaterial))"
  using assms by (simp add: uninstall_cmd_def ca_uninstall_def root_sha1_fingerprint_def no_ca_def remove_item_def remove_home_def)

text \<open>C27: uninstalling takes the trust root away before anything that is needed to find it. On macOS, if the keychain is unlocked, so that the listings of
  the run succeed, and holds at most eight copies of the root: as long as one of them is left, the certificate file that names it, the key item and
  the home are untouched, so that the command can be repeated; a run that was confirmed and reports success has left no copy and no home; no
  other certificate is ever touched; and running it again does nothing and succeeds. Findings say what happens when a listing fails
  and when there are more copies.\<close>

theorem uninstall_untrusts_first:
  assumes "security_ok (un_tool u) unlocked copies fp" "root_sha1_fingerprint (un_b64 u) (un_sha1_hex u) (mc_ca m) = Some (Some fp)" "un_macos u"
    and "mc_home m" "copies (mc_keychain m) fp \<le> 8" "uninstall_cmd u m = (m', r)" "unlocked (mc_keychain m)"
  shows "(copies (mc_keychain m') fp > 0 \<longrightarrow> mc_ca m' = mc_ca m \<and> mc_item m' = mc_item m \<and> mc_home m')
    \<and> (\<forall>ca. r = Inr (Some ca) \<longrightarrow> copies (mc_keychain m') fp = 0 \<and> \<not> mc_home m' \<and> uninstall_cmd u m' = (m', Inr (Some NoMaterial)))
    \<and> (\<forall>fp'. fp' \<noteq> fp \<longrightarrow> copies (mc_keychain m') fp' = copies (mc_keychain m) fp')"
proof (cases "un_confirm u = Some True")
  case False
  then have "m' = m" "\<And>ca. r \<noteq> Inr (Some ca)" using assms(6) by (auto simp: uninstall_cmd_def split: option.splits bool.splits)
  then show ?thesis using assms(4) by auto
next
  case True
  obtain m1 r1 where c: "ca_uninstall u m = (m1, r1)" by fastforce
  note e = ca_uninstall_effect[OF assms(1-3,5) c assms(7)]
  obtain k where k: "m1 = m\<lparr>mc_keychain := k\<rparr>" using e(1) by blast
  have h: "mc_home m1" "mc_ca m1 = mc_ca m" "mc_item m1 = mc_item m" using assms(4) by (simp_all add: k)
  show ?thesis
  proof (cases r1)
    case (Inl er)
    then have "m' = m1" "r = Inl er" using assms(6) True c by (simp_all add: uninstall_cmd_def)
    then show ?thesis using h e(2) by auto
  next
    case (Inr ca)
    note a = after_ca[OF True c[unfolded Inr] assms(6)]
    have "copies (mc_keychain m') fp = 0" using e(3)[OF Inr] a(1) by simp
    moreover have "\<not> mc_home m' \<and> uninstall_cmd u m' = (m', Inr (Some NoMaterial))" if "r = Inr (Some x)" for x
      using a(2)[OF that] h(1) uninstall_repeats[OF True] by simp
    ultimately show ?thesis using e(2) a(1) by auto
  qed
qed

text \<open>A keychain that is a list of fingerprints, with two copies of the root; it is locked if it has an entry \<open>L\<close>.\<close>

definition demo_security :: "string list security_tool" where
  "demo_security = \<lparr>st_find = (\<lambda>k. Some (if ''L'' \<in> set k then (False, []) else (True, if ''F1'' \<in> set k then ''F1'' else []))), st_delete = (\<lambda>t fp k. (remove1 fp k, Some (fp \<in> set k)))\<rparr>"

definition demo_machine :: "string list machine" where
  "demo_machine = \<lparr>mc_home = True, mc_ca = \<lparr>cd_cert = Some [], cd_key = Some []\<rparr>, mc_keychain = [''F1'', ''G2'', ''F1''], mc_item = True\<rparr>"

definition demo_uninstall :: "string list uninstall_env" where
  "demo_uninstall = \<lparr>un_macos = True, un_tool = demo_security, un_b64 = Some, un_sha1_hex = (\<lambda>d. ''F1''), un_confirm = Some True,
     un_keychain_path = True, un_default_home = True, un_canonical = True, un_item_deleted = True, un_removes = None\<rparr>"

lemma demo_listing: "str_contains (utf8_lossy ''F1'') ''F1''" "\<not> str_contains (utf8_lossy []) ''F1''"
  by code_simp+

lemma demo_security_ok: "security_ok demo_security (\<lambda>k. ''L'' \<notin> set k) count_list ''F1''"
proof -
  have "count_list k ''F1'' > 0 \<longleftrightarrow> ''F1'' \<in> set k" for k :: "string list" by (metis count_list_0_iff gr0I less_numeral_extra(3))
  moreover have "count_list (remove1 a k) b = (if a = b then count_list k b - 1 else count_list k b)" for a b and k :: "string list"
    by (induction k) auto
  ultimately show ?thesis using demo_listing by (auto simp: security_ok_def demo_security_def)
qed

lemma demo_uninstalls: "\<exists>m'. uninstall_cmd demo_uninstall demo_machine = (m', Inr (Some (RemovedCopies ''F1'' 2)))"
  by (simp add: uninstall_cmd_def ca_uninstall_def demo_uninstall_def demo_machine_def root_sha1_fingerprint_def pem_body_to_der_def
      eval_nat_numeral demo_security_def demo_listing remove_item_def remove_home_def)

theorem uninstall_untrusts_first_witness:
  "\<exists>m'. uninstall_cmd demo_uninstall demo_machine = (m', Inr (Some (RemovedCopies ''F1'' 2)))
     \<and> count_list (mc_keychain m') ''F1'' = 0 \<and> count_list (mc_keychain m') ''G2'' = 1 \<and> \<not> mc_home m'
     \<and> uninstall_cmd demo_uninstall m' = (m', Inr (Some NoMaterial))"
proof -
  obtain m' where u: "uninstall_cmd demo_uninstall demo_machine = (m', Inr (Some (RemovedCopies ''F1'' 2)))" using demo_uninstalls by blast
  have s: "security_ok (un_tool demo_uninstall) (\<lambda>k. ''L'' \<notin> set k) count_list ''F1''" using demo_security_ok by (simp add: demo_uninstall_def)
  have p: "root_sha1_fingerprint (un_b64 demo_uninstall) (un_sha1_hex demo_uninstall) (mc_ca demo_machine) = Some (Some ''F1'')"
    "un_macos demo_uninstall" "mc_home demo_machine" "count_list (mc_keychain demo_machine) ''F1'' \<le> 8"
    by (simp_all add: demo_uninstall_def demo_machine_def root_sha1_fingerprint_def pem_body_to_der_def)
  have g: "count_list (mc_keychain demo_machine) ''G2'' = 1" "''G2'' \<noteq> ''F1''" by (simp_all add: demo_machine_def)
  have n: "''L'' \<notin> set (mc_keychain demo_machine)" by (simp add: demo_machine_def)
  from uninstall_untrusts_first[OF s p u n] show ?thesis using u g by auto
qed

end
