(* ===== verification/Spec2Isabelle.thy ===== *)
theory Spec2Isabelle
  imports Pipeline_Props Integrity Guard Stats_Props Stats_Latency Waste_Props Vault_Keys_Props Policy_Report Session Vault_Command Operator Uninstall
begin

text \<open>
  A model of Decoyrail, an endpoint firewall for coding agents. The agent only ever holds decoys of
  the user's secrets; a local proxy intercepts its HTTP traffic, swaps a decoy for the real value where
  a policy rule releases it, and raises a tripwire where a decoy turns up anywhere else. Around that
  core stand data-loss detectors, a budget meter, a spend tripwire, a hash-chained audit log and an
  integrity record for the policy file.

  \<^bold>\<open>Parts and theories\<close> (sources under \<^verbatim>\<open>src/src/\<close>)

  \<^item> \<open>Rail_Prelude\<close>: what the code uses of Rust's \<open>str\<close>, \<open>[u8]\<close>, \<open>BTreeMap\<close> and integers.
  \<^item> \<open>Vault\<close> (\<^verbatim>\<open>vault.rs\<close>): secrets, locations, provider prefixes, decoy generation, \<open>add\<close>,
    \<open>remove\<close>, the host glob. Decoy generation is total and in shape; every reachable vault has distinct
    names and derived decoys; removing undoes adding.
  \<^item> \<open>Policy\<close> (\<^verbatim>\<open>policy.rs\<close>): rules, first-match evaluation, escalation, release, lints, the shipped
    policy. The locale \<open>first_match\<close> states the contract of an ordered rule list, interpreted for rule
    evaluation and for the provider prefix table. Release is characterised for any policy and spelled
    out for the shipped one; the shadow lint is sound.
  \<^item> \<open>Swap\<close> (\<^verbatim>\<open>swap.rs\<close>): the request, the swap and the exfiltration tripwires. The swap places exactly the
    released secrets where their locations say, and its record accounts for the request; tripwires miss
    nothing and state true reasons (over the locale \<open>release_gate\<close>).
  \<^item> \<open>Detect\<close> (\<^verbatim>\<open>detect.rs\<close>): the detectors, the encoded-window scan and mask mode. Reported spans are
    true detections, ordered and disjoint (locale \<open>span_source\<close>, which gives the correctness of masking);
    unmaskable detections block; check digits and percent coding are right.
  \<^item> \<open>Pricing\<close> (\<^verbatim>\<open>pricing.rs\<close>): rates, billing, usage parsing, the event-stream scanner. The locale
    \<open>chunk_fed\<close> makes stream consumers independent of chunking.
  \<^item> \<open>Meter\<close> (\<^verbatim>\<open>meter.rs\<close>): usage, budget, the session meter and its merge into the shared file (locale
    \<open>additive_merge\<close>). Money is conserved over all interleavings of sessions (\<open>ledger_step\<close>).
  \<^item> \<open>Watch\<close> (\<^verbatim>\<open>watch.rs\<close>): the spend tripwire over bounded rings; it trips exactly at its threshold.
  \<^item> \<open>Audit_Log\<close> (\<^verbatim>\<open>audit.rs\<close>): the chained log, appending behind the lock by several processes
    (\<open>audit_step\<close>), verification, the head anchor (locale \<open>chained_log\<close>). Honest logs verify; truncation
    and tampering are detected up to hash collisions and the one unhashed field.
  \<^item> \<open>Integrity\<close> (\<^verbatim>\<open>integrity.rs\<close> and the trusted load of \<^verbatim>\<open>policy.rs\<close>): only blessed policies load; the
    diff shown before blessing is exact and minimal.
  \<^item> \<open>Guard\<close> (\<^verbatim>\<open>guard.rs\<close>): session secrets from the environment, exactly the sensitive variables.
  \<^item> \<open>Merge\<close>: the locale \<open>additive_merge\<close> of counters that add up under merging, shared by \<open>Meter\<close>, \<open>Cache\<close> and \<open>Stats\<close>.
  \<^item> \<open>Json_Scan\<close> (\<^verbatim>\<open>softland.rs\<close> and the splice in \<^verbatim>\<open>cache.rs\<close>): the byte-level JSON scanner, the model
    rewrite and the cache-marker splice. On every rendered JSON object, with any white space, they are exactly the
    edit of the document that they stand for.
  \<^item> \<open>Cache\<close> (\<^verbatim>\<open>cache.rs\<close>): the prompt-cache doctor, its canonical prefix, diagnosis, repair plan and statistics.
  \<^item> \<open>Fanout\<close> (\<^verbatim>\<open>cache.rs\<close>): the gate that serializes requests with one prefix, as a step relation \<open>fan_step\<close> over
    interleaved requests, and the keep-alive templates. One leader at a time; a leader that answered leaves no sibling waiting.
  \<^item> \<open>Text_Ops\<close>: more of \<open>str\<close> (lossy decoding, splitting at white space, trimming, number parsing).
  \<^item> \<open>Connection\<close> (\<^verbatim>\<open>proxy.rs\<close>): reading the head of a connection, routing it, and replaying it to the HTTP parser.
  \<^item> \<open>License\<close> (\<^verbatim>\<open>license.rs\<close>): licence documents, their signature, validity and the tier in force.
  \<^item> \<open>Proxy\<close> (\<^verbatim>\<open>proxy.rs\<close>): the steps of the pipeline from the spend tripwire to the verdict, the
    forwarded request, the accounting of buffered and streamed responses, and the audit entries.
  \<^item> \<open>Pipeline\<close> (\<^verbatim>\<open>proxy.rs\<close>): the whole handler \<open>pipeline\<close> as one function of the outside (\<open>world\<close>), the request and the
    shared state (\<open>engine\<close>), and the pre-warm \<open>keepalive_fire\<close>. \<open>Pipeline_Props\<close> proves what it guarantees.
  \<^item> \<open>Stats\<close> (\<^verbatim>\<open>stats.rs\<close>): the analytics over the audit log: hourly rows, requests that settle when their usage
    arrives, the incremental cache, windows, reports and their rendering. \<open>Stats_Props\<close>: a query with the cache equals
    one over the whole log whatever failed before; every event counts once (locales \<open>waiting_counter\<close>, \<open>tallied_field\<close>);
    breakdowns add up; the integrity flag is exact. \<open>Stats_Latency\<close>: the percentile is within a factor of two.
  \<^item> \<open>Waste\<close> (\<^verbatim>\<open>waste.rs\<close>): the report of dollars wasted on requests that were sent again. \<open>Waste_Props\<close>: its totals
    are exactly the re-sent requests (locale \<open>chain_sum\<close>), its chains are the maximal runs, and it never claims more
    than the statistics show as spent.
  \<^item> \<open>Vault_Keys\<close> (\<^verbatim>\<open>vault.rs\<close> from \<open>KeyBackend\<close> on, \<^verbatim>\<open>keyring.rs\<close>): the vault key in a file or the login keychain, the
    migrations as sequences of disk states, the encrypted vault. \<open>Vault_Keys_Props\<close>: no interruption of any sequence of
    migrations loses the key, and the vault and the policy record survive them.
  \<^item> \<open>Engine\<close> (\<^verbatim>\<open>engine.rs\<close>): the start and the reload of the shared state. \<open>Engine_Props\<close>: only a vouched-for policy is ever
    in force; a failed reload keeps the running value and is recorded once; a reload with nothing new is the identity.
  \<^item> \<open>Session\<close> (\<^verbatim>\<open>main.rs\<close>): \<open>decoyrail run\<close>, from the start of the engine to the environment of the launched command, in which
    every variable that the guard objects to is a decoy.
  \<^item> \<open>Policy_Edit\<close> (\<^verbatim>\<open>policy_edit.rs\<close> and the policy commands of \<^verbatim>\<open>main.rs\<close>): edits of the policy file. \<open>Policy_Edit_Props\<close>: nothing
    is written over a policy file that is not trusted at that moment; adding, removing and moving a rule refine the same operation on
    the rule list.
    \<open>Policy_Report\<close>: \<open>policy test\<close> reports the decision the proxy takes.
  \<^item> \<open>Cert_Authority\<close> (\<^verbatim>\<open>ca.rs\<close>): the root on disk and the leaf certificates minted and cached per host. A connection is
    served a leaf for its own host, signed with the root, whose validity stays under the limit that clients enforce.
  \<^item> \<open>Vault_Command\<close> (\<^verbatim>\<open>main.rs\<close>): \<open>vault add\<close>, \<open>ls\<close> and \<open>rm\<close>. The report of where a secret can be used is right for every request.
  \<^item> \<open>Operator\<close> (\<^verbatim>\<open>main.rs\<close>, \<^verbatim>\<open>meter.rs\<close>): \<open>budget\<close>, \<open>plan\<close>, \<open>trip\<close> and \<open>license\<close>, and what the next reload of a running proxy makes of them.
  \<^item> \<open>Uninstall\<close> (\<^verbatim>\<open>main.rs\<close>): the trust root goes first, so that an uninstall that stops half-way can be repeated.
  \<^item> This theory: what sequences of requests and whole streams guarantee, and the shipped policy end to end.

  \<^bold>\<open>Conventions.\<close> Strings and byte vectors are byte lists. Counters are machine words that wrap; dollar
  amounts are exact reals, so float rounding is not modelled. A panic (a slice out of range) is \<open>None\<close>.
  Loops that advance an index are recursions with their measures, all total; no fuel is used. Third-party
  code is a parameter: SHA-256 and hex (\<open>crypto\<close>), the encoders and decoders of base64 and hex
  (\<open>codecs\<close>, \<open>decoders\<close>), JSON (\<open>from_json\<close>, \<open>audit_codec\<close>), TOML, HMAC and the key (\<open>integrity_env\<close>).
  What a theorem uses of them is a named predicate (\<open>crypto_ok\<close>, \<open>decoders_ok\<close>, \<open>codec_ok\<close>,
  \<open>writer_ok\<close>, \<open>hex_ok\<close>, \<open>editor_ok\<close>, \<open>appends_rule\<close>, \<open>license_env_ok\<close>, \<open>security_ok\<close>), stating what its documentation says for the values
  the theorem is about, shown to be satisfiable by a concrete instance in the same theory. Files are
  values, and a step that may fail takes its outcome as an argument.

  The handler is one atomic step of the engine here, while the code releases its locks between steps; what
  interleaves is modelled where it matters: the spend of several sessions (\<open>Meter\<close>), appends of several processes
  (\<open>Audit_Log\<close>) and requests at the gate (\<open>Fanout\<close>). The clock is read once per request.

  \<^bold>\<open>Not modelled.\<close> Sockets and TLS interception (the accept loop of \<^verbatim>\<open>proxy.rs\<close>): calls into third-party libraries.
  The other commands of \<^verbatim>\<open>main.rs\<close> (\<open>status\<close>, \<open>log\<close>, \<open>cache\<close>, \<open>key status\<close>, installation of the certificate) and the paths of
  \<^verbatim>\<open>config.rs\<close>: parsing of arguments, printing and child processes. The JSON form of the statistics, which is a call of a serializer.
\<close>

section \<open>The pipeline\<close>

text \<open>The verdict on a request, the request that leaves and all findings are the same whatever the
  real values of the secrets are that the decision does not release over this transport: an unreleased
  real value cannot leave the machine, not even in part.\<close>

theorem unreleased_secrets_hidden:
  "inspect_request cr cx dec salt (hide_unreleased d tls f v) (hide_unreleased d tls f session) d cfg tls ob spend dn q
   = inspect_request cr cx dec salt v session d cfg tls ob spend dn q"
  by (simp add: inspect_request_def swap_step_hide)

definition at_destination :: "string \<Rightarrow> string \<Rightarrow> string \<Rightarrow> secret \<Rightarrow> bool" where
  "at_destination h pa m s = (case sec_provider s of None \<Rightarrow> False | Some l \<Rightarrow> default_destination l h pa m)"

definition keep_at_destination :: "string \<Rightarrow> string \<Rightarrow> string \<Rightarrow> (secret \<Rightarrow> string) \<Rightarrow> vault \<Rightarrow> vault" where
  "keep_at_destination h pa m f v =
     v\<lparr>secrets := map (\<lambda>s. if at_destination h pa m s then s else s\<lparr>sec_real := f s\<rparr>) (secrets v)\<rparr>"

lemma elsewhere_unreleased:
  "plain_name s \<Longrightarrow> \<not> at_destination h pa m s \<Longrightarrow> \<not> releases (evaluate default_policy h pa m) s"
  using default_policy_releases_label default_policy_releases_unlabelled
  by (auto simp: at_destination_def split: option.splits)

text \<open>C3: under the shipped policy, keys stay confined to their providers. As long as no secret has a name that begins with
  \<open>provider:\<close> (the policy would read such a name as the label of a provider), the handler sends the same request upstream, or sends
  nothing and gives the agent the same answer, whatever the real values are of the secrets whose own provider is not at the
  address of the request, over TLS or not.\<close>

theorem default_policy_confines_secrets:
  assumes "eg_policy e = default_policy" "list_all plain_name (secrets (eg_vault e) @ secrets (eg_session e))"
  shows "let away = (\<lambda>v. keep_at_destination (ib_host r) (ib_path r) (ib_method r) f v); e' = with_vaults (away (eg_vault e)) (away (eg_session e)) e in
     ps_sent (pipeline w r e') = ps_sent (pipeline w r e) \<and> refusal (pipeline w r e') = refusal (pipeline w r e)"
  unfolding Let_def keep_at_destination_def
  by (rule pipeline_vaults, rule swap_step_change[where f = f])
     (use assms elsewhere_unreleased in \<open>auto simp: list_all_iff decide_def\<close>)

definition sample_away :: "vault \<Rightarrow> vault" where
  "sample_away = keep_at_destination (ib_host demo_inbound) (ib_path demo_inbound) (ib_method demo_inbound) (\<lambda>_. ''other'')"

theorem default_policy_confines_secrets_witness:
  "let e = (demo_engine sample_vault)\<lparr>eg_policy := default_policy\<rparr>; e' = with_vaults (sample_away sample_vault) (sample_away \<lparr>secrets = []\<rparr>) e in
     map sec_real (secrets (eg_vault e')) = [''other''] \<and> map sec_real (secrets (eg_vault e)) \<noteq> [''other'']
     \<and> ps_sent (pipeline (demo_world (SendFailed [])) demo_inbound e') = ps_sent (pipeline (demo_world (SendFailed [])) demo_inbound e)
     \<and> refusal (pipeline (demo_world (SendFailed [])) demo_inbound e') = refusal (pipeline (demo_world (SendFailed [])) demo_inbound e)"
proof -
  let ?e = "(demo_engine sample_vault)\<lparr>eg_policy := default_policy\<rparr>"
  have v: "eg_vault ?e = sample_vault" "eg_session ?e = \<lparr>secrets = []\<rparr>" "eg_policy ?e = default_policy" by (simp_all add: demo_engine_def)
  have p: "list_all plain_name (secrets (eg_vault ?e) @ secrets (eg_session ?e))" by (simp add: v sample_secret_plain)
  have m: "map sec_real (secrets (sample_away sample_vault)) = [''other'']" "map sec_real (secrets sample_vault) \<noteq> [''other'']"
    by (simp_all add: sample_away_def keep_at_destination_def sample_secret_def at_destination_def default_destination_def demo_inbound_def to_ascii_lowercase_def ascii_lower_def is_ascii_upper_def)
  show ?thesis
    using default_policy_confines_secrets[OF v(3) p, of demo_inbound "\<lambda>_. ''other''" "demo_world (SendFailed [])"] m
    unfolding v(1,2) Let_def sample_away_def by (simp add: with_vaults_def v)
qed

text \<open>A request is forwarded exactly when nothing objects: no tripwire, no blocking detection, a
  budget that is not exhausted, no standing spend trip, and a policy decision other than deny. What is
  forwarded is recorded as allowed or warned, and is the swapped request with only the mask-mode spans of
  its UTF-8 body replaced; host, method, path and header names are those the request came to the swap
  with, and over plaintext nothing is swapped.\<close>

theorem forwarded_iff_clean:
  "case inspect_request cr cx dec salt v session (evaluate p (q_host q) (q_path q) (q_method q)) cfg tls ob spend dn q of
     (verdict, oc, dlp) \<Rightarrow>
       let d = evaluate p (q_host q) (q_path q) (q_method q);
           clean = (\<not> tripped oc \<and> \<not> has_blocking dlp \<and> \<not> ob \<and> spend = None \<and> dc_action d \<noteq> Deny);
           w = fold (rewrite_for d tls) (secrets v @ secrets session) q in
       (case verdict of
          Denied _ _ \<Rightarrow> \<not> clean
        | Forwarded act q' \<Rightarrow> clean \<and> (act = Allow \<or> act = Warn) \<and> q_host q' = q_host q \<and> q_method q' = q_method q
            \<and> q_path q' = q_path q \<and> map fst (q_headers q') = map fst (q_headers q)
            \<and> q' = w\<lparr>q_body := if list_ex (\<lambda>x. mode_for cfg x \<noteq> DlpOff) ALL_DETECTORS \<and> utf8_valid (q_body w)
                then splice 0 (mask_spans cfg (scan_text (q_body w) cfg (map normalize_allow (d_allow cfg)))) (q_body w)
                else q_body w\<rparr>
            \<and> (tls \<or> w = q))"
proof -
  let ?d = "evaluate p (q_host q) (q_path q) (q_method q)"
  let ?w = "fold (rewrite_for ?d tls) (secrets v @ secrets session) q"
  let ?s = "swap_step cx q v session ?d tls"
  let ?r = "detect_apply cr dec (fst ?s) cfg salt"
  let ?fa = "final_action (snd ?s) (snd ?r) ob spend ?d (q_host q) dn"
  let ?m = "\<lambda>x. x\<lparr>q_body := if list_ex (\<lambda>x. mode_for cfg x \<noteq> DlpOff) ALL_DETECTORS \<and> utf8_valid (q_body x)
      then splice 0 (mask_spans cfg (scan_text (q_body x) cfg (map normalize_allow (d_allow cfg)))) (q_body x)
      else q_body x\<rparr>"
  have w: "fst ?s = ?w" by (simp add: swap_step_rewrite)
  have "fst ?r = ?m (fst ?s)" by (auto simp: detect_apply_request list_all_iff list_ex_iff)
  also have "\<dots> = ?m ?w" by (simp only: w)
  finally have d: "fst ?r = ?m ?w" .
  have frame: "q_host (fst ?r) = q_host q" "q_method (fst ?r) = q_method q" "q_path (fst ?r) = q_path q"
    "map fst (q_headers (fst ?r)) = map fst (q_headers q)"
    by (simp_all add: detect_apply_request swap_step_def swap_apply_def Let_def split_beta keep_simps)
  have plain: "tls \<or> ?w = q"
    by (cases tls) (simp_all add: fold_rewrite_unapproved approved_def list_all_iff)
  have act: "fst ?fa = Allow \<or> fst ?fa = Warn" if "fst ?fa \<noteq> Deny"
    using final_action_value[OF that evaluate_action] .
  have eq: "inspect_request cr cx dec salt v session ?d cfg tls ob spend dn q =
      (if fst ?fa = Deny then Denied (deny_body (snd ?s) (snd ?r) ob spend (snd ?fa)) (snd ?fa) else Forwarded (fst ?fa) (fst ?r), snd ?s, snd ?r)"
    by (simp add: inspect_request_def Let_def split_beta)
  note fwd = final_action_forward[of "snd ?s" "snd ?r" ob spend ?d "q_host q" dn]
  show ?thesis
  proof (cases "fst ?fa = Deny")
    case True
    then show ?thesis unfolding eq using fwd by (simp add: Let_def)
  next
    case False
    then have c: "\<not> tripped (snd ?s)" "\<not> has_blocking (snd ?r)" "\<not> ob" "spend = None" "dc_action ?d \<noteq> Deny"
      using fwd by blast+
    show ?thesis unfolding eq Let_def
      by (simp only: if_not_P[OF False] prod.case request_verdict.case) (intro conjI c frame d plain act[OF False])
  qed
qed

text \<open>A spend trip is sticky. Once a request has tripped the wire, every later request of the
  session to a provider host finds that same trip standing and is blocked when the mode is block,
  whatever it is; requests to other hosts are not held up.\<close>

theorem spend_trip_sticky:
  assumes "sr_trip (spend_step cr salt prices cfg (rq_now r) (rq_ts r) sid (rq_saved r) (rq_host r) (rq_path r) (rq_method r) (rq_body r) tf w) = Some t"
  shows "map sr_trip (spend_run cr salt prices cfg sid (r # rs) tf w) =
      Some t # map (\<lambda>x. if provider_for_host prices (rq_host x) = None then None else Some t) rs
    \<and> map (spend_block cfg) (tl (spend_run cr salt prices cfg sid (r # rs) tf w)) =
      map (\<lambda>x. provider_for_host prices (rq_host x) \<noteq> None \<and> st_mode cfg = TripBlock) rs"
proof -
  let ?x = "spend_step cr salt prices cfg (rq_now r) (rq_ts r) sid (rq_saved r) (rq_host r) (rq_path r) (rq_method r) (rq_body r) tf w"
  have "w_tripped (sr_watch ?x) = Some t" using spend_step_onset[OF assms] .
  note run = spend_run_tripped[OF this, of cr salt prices cfg sid rs "sr_file ?x"]
  have blk: "map (spend_block cfg) xs = map (\<lambda>o'. o' \<noteq> None \<and> st_mode cfg = TripBlock) (map sr_trip xs)" for xs
    by (simp add: spend_block_def)
  have "map (spend_block cfg) (spend_run cr salt prices cfg sid rs (sr_file ?x) (sr_watch ?x)) =
      map (\<lambda>x. provider_for_host prices (rq_host x) \<noteq> None \<and> st_mode cfg = TripBlock) rs"
    unfolding blk run by simp
  then show ?thesis using run assms by (simp add: Let_def)
qed

definition tripped_watch :: watch where
  "tripped_watch = set_tripped (load_trip GarbledTrip) (watch_new 0 None)"

definition sample_spend_request :: spend_request where
  "sample_spend_request = \<lparr>rq_host = ''api.openai.com'', rq_path = ''/v1'', rq_method = ''POST'', rq_body = [], rq_now = 9,
     rq_ts = [], rq_saved = True\<rparr>"

theorem spend_trip_sticky_witness:
  "\<exists>t. w_tripped tripped_watch = Some t
     \<and> map sr_trip (spend_run demo_crypto [] pricing_default spend_tripwire_default [] [sample_spend_request, sample_spend_request] NoTripFile tripped_watch)
       = [Some t, Some t]"
proof -
  have p: "provider_for_host pricing_default (rq_host sample_spend_request) = Some OpenAi" by code_simp
  obtain t where t: "w_tripped tripped_watch = Some t" by (simp add: tripped_watch_def set_tripped_def load_trip_def)
  have s: "sr_trip (spend_step demo_crypto [] pricing_default spend_tripwire_default (rq_now sample_spend_request) (rq_ts sample_spend_request) []
      (rq_saved sample_spend_request) (rq_host sample_spend_request) (rq_path sample_spend_request) (rq_method sample_spend_request)
      (rq_body sample_spend_request) NoTripFile tripped_watch) = Some t"
    using spend_step_tripped(3)[OF t] p by simp
  from spend_trip_sticky[OF s, of "[sample_spend_request]"] p t show ?thesis by simp
qed

text \<open>A streamed response is metered once and completely: the record depends only on the bytes that
  passed, not on how they were cut into chunks, and so does its audit entry; recording again, at the end of the
  stream and when it is dropped, changes nothing and writes no second entry.\<close>

theorem stream_metered_once:
  "stream_record fj io prices now nu (foldl (\<lambda>ms chunk. stream_chunk fj chunk ms) ms chunks) st
     = stream_record fj io prices now nu (stream_chunk fj (concat chunks) ms) st
   \<and> stream_entry fj prices dur (foldl (\<lambda>ms chunk. stream_chunk fj chunk ms) ms chunks)
     = stream_entry fj prices dur (stream_chunk fj (concat chunks) ms)
   \<and> (case stream_record fj io prices now nu ms st of (ms', st') \<Rightarrow>
        stream_record fj io' prices now' nu' ms' st' = (ms', st') \<and> stream_entry fj prices dur ms' = None)"
proof -
  have "case stream_record fj io prices now nu ms st of (ms', st') \<Rightarrow>
      stream_record fj io' prices now' nu' ms' st' = (ms', st') \<and> stream_entry fj prices dur ms' = None"
    using stream_record_done[of fj io prices now nu ms st]
    by (simp add: stream_record_def[of fj io'] stream_entry_def split_beta)
  then show ?thesis by (simp add: stream.feed_concat)
qed

end
